(* ===== verification/Prelude.thy ===== *)
theory Prelude
  imports Main "HOL-Library.Word"
begin

text \<open>
  Shared vocabulary of the development: machine words, byte-addressed memory with
  little-endian 32-bit cells (the layout every C structure of the repository is read
  through), the C library's memory primitives on that memory, the error codes the
  kernel modules return, and the lemma collections the component theories extend.

  Memory is a total function from byte addresses to bytes.  A C pointer is a byte
  address; a structure field at offset \<open>k\<close> of pointer \<open>p\<close> is the cell at \<open>p + k\<close>, so two
  pointers of different types may alias, as they do in C.
\<close>

unbundle bit_operations_syntax

named_theorems mem_simps \<open>reads of memory after a write\<close>
named_theorems layout_simps \<open>offsets and sizes of the on-disk structures\<close>

type_synonym u8 = "8 word"
type_synonym u16 = "16 word"
type_synonym u32 = "32 word"
type_synonym mem = "nat \<Rightarrow> u8"

section \<open>Small signed words\<close>

lemma sint_small:
  assumes "unat (w :: u32) < 2 ^ 31" shows "sint w = int (unat w)"
proof -
  from assms have "int (unat w) < int (2 ^ 31)" by (simp only: of_nat_less_iff)
  then have "uint w < 2 ^ 31" by simp
  then have "signed_take_bit 31 (uint w) = uint w"
    using uint_ge_0 [of w] by (intro signed_take_bit_int_eq_self) linarith+
  then show ?thesis by (simp add: sint_uint)
qed

section \<open>Error codes\<close>

text \<open>
  The negative integers the kernel modules return, by name; \<open>Oops\<close> is not an errno but
  the kernel fault a null pointer dereference raises.  A C function that returns
  \<open>0\<close>/\<open>-errno\<close> is modelled by a result \<open>errno + 'a\<close>: \<open>Inl e\<close> for \<open>-e\<close>, so the test
  \<open>r < 0\<close> is \<open>isl r\<close>.
\<close>

datatype errno = EPERM | ENOENT | EIO | ENOMEM | EFAULT | EBUSY | EEXIST | EINVAL
  | ENOTTY | ENOSPC | EDEADLK | ENAMETOOLONG | ERESTARTSYS | EINTR | EAGAIN
  | ECANCELED | EADDRINUSE | Oops

section \<open>Little-endian 32-bit cells\<close>

definition get32 :: "mem \<Rightarrow> nat \<Rightarrow> u32" where
  "get32 m a = ucast (m a) OR push_bit 8 (ucast (m (a + 1)))
     OR push_bit 16 (ucast (m (a + 2))) OR push_bit 24 (ucast (m (a + 3)))"

definition put32 :: "mem \<Rightarrow> nat \<Rightarrow> u32 \<Rightarrow> mem" where
  "put32 m a v = m(a := ucast v, a + 1 := ucast (drop_bit 8 v),
     a + 2 := ucast (drop_bit 16 v), a + 3 := ucast (drop_bit 24 v))"

lemma get32_put32 [simp, mem_simps]: "get32 (put32 m a v) a = v"
proof (rule bit_word_eqI)
  fix n assume "n < LENGTH(32)"
  then show "bit (get32 (put32 m a v) a) n = bit v n"
    by (cases "n < 8"; cases "n < 16"; cases "n < 24")
       (auto simp: get32_def put32_def bit_simps)
qed

lemma put32_byte_other [mem_simps]:
  "b < a \<or> a + 4 \<le> b \<Longrightarrow> put32 m a v b = m b"
  by (auto simp: put32_def)

lemma get32_cong:
  "(\<And>i. i < 4 \<Longrightarrow> m (a + i) = m' (a + i)) \<Longrightarrow> get32 m a = get32 m' a"
proof -
  assume A: "\<And>i. i < 4 \<Longrightarrow> m (a + i) = m' (a + i)"
  from A [of 0] A [of 1] A [of 2] A [of 3] show ?thesis by (simp add: get32_def)
qed

lemma get32_put32_other [mem_simps]:
  "b + 4 \<le> a \<or> a + 4 \<le> b \<Longrightarrow> get32 (put32 m a v) b = get32 m b"
  by (rule get32_cong) (auto simp: put32_byte_other)

lemma put32_get32_id [simp]: "put32 m a (get32 m a) = m"
proof
  fix b
  have *: "ucast (get32 m a) = m a"
    "ucast (drop_bit 8 (get32 m a)) = m (a + 1)"
    "ucast (drop_bit 16 (get32 m a)) = m (a + 2)"
    "ucast (drop_bit 24 (get32 m a)) = m (a + 3)"
    by (rule bit_word_eqI; auto simp: get32_def bit_simps dest: bit_imp_le_length)+
  show "put32 m a (get32 m a) b = m b"
    unfolding put32_def by (simp add: * [simplified])
qed

lemma put32_put32 [simp]: "put32 (put32 m a v) a w = put32 m a w"
  by (auto simp: put32_def fun_eq_iff)

lemma put32_commute:
  "a + 4 \<le> b \<or> b + 4 \<le> a \<Longrightarrow> put32 (put32 m a v) b w = put32 (put32 m b w) a v"
  by (auto simp: put32_def fun_eq_iff)

section \<open>The C library's memory primitives\<close>

definition mem_fill :: "mem \<Rightarrow> nat \<Rightarrow> u8 \<Rightarrow> nat \<Rightarrow> mem" where
  "mem_fill m a c n = (\<lambda>x. if a \<le> x \<and> x < a + n then c else m x)"

definition mem_write :: "mem \<Rightarrow> nat \<Rightarrow> u8 list \<Rightarrow> mem" where
  "mem_write m a bs = (\<lambda>x. if a \<le> x \<and> x < a + length bs then bs ! (x - a) else m x)"

definition mem_read :: "mem \<Rightarrow> nat \<Rightarrow> nat \<Rightarrow> u8 list" where
  "mem_read m a n = map m [a..<a + n]"

lemma mem_fill_byte [mem_simps]:
  "mem_fill m a c n x = (if a \<le> x \<and> x < a + n then c else m x)"
  by (simp add: mem_fill_def)

lemma mem_write_byte [mem_simps]:
  "mem_write m a bs x = (if a \<le> x \<and> x < a + length bs then bs ! (x - a) else m x)"
  by (simp add: mem_write_def)

lemma get32_mem_fill_in [mem_simps]:
  "a \<le> b \<Longrightarrow> b + 4 \<le> a + n \<Longrightarrow> get32 (mem_fill m a 0 n) b = 0"
  by (simp add: get32_def mem_fill_def)

lemma get32_mem_fill_other [mem_simps]:
  "b + 4 \<le> a \<or> a + n \<le> b \<Longrightarrow> get32 (mem_fill m a c n) b = get32 m b"
  by (rule get32_cong) (auto simp: mem_fill_def)

lemma get32_mem_write_other [mem_simps]:
  "b + 4 \<le> a \<or> a + length bs \<le> b \<Longrightarrow> get32 (mem_write m a bs) b = get32 m b"
  by (rule get32_cong) (auto simp: mem_write_def)

lemma length_mem_read [simp]: "length (mem_read m a n) = n"
  by (simp add: mem_read_def)

lemma nth_mem_read [simp]: "i < n \<Longrightarrow> mem_read m a n ! i = m (a + i)"
  by (simp add: mem_read_def)

lemma mem_write_nil [simp]: "mem_write m a [] = m"
  by (auto simp: fun_eq_iff mem_write_byte)

lemma mem_write_append:
  "mem_write (mem_write m a xs) (a + length xs) ys = mem_write m a (xs @ ys)"
  by (auto simp: fun_eq_iff mem_write_byte nth_append)

lemma mem_read_write: "mem_read (mem_write m a bs) a (length bs) = bs"
  by (auto simp: mem_write_byte intro!: nth_equalityI)

lemma mem_read_cong:
  "(\<And>i. i < n \<Longrightarrow> m (a + i) = m' (a + i)) \<Longrightarrow> mem_read m a n = mem_read m' a n"
  by (auto intro!: nth_equalityI)

text \<open>
  \<open>strlen\<close>: counts bytes up to the first null, wherever that is; a memory without a
  null byte after the pointer has no length (\<open>None\<close>: the C loop would not return).
\<close>

partial_function (option) strlen_from :: "mem \<Rightarrow> nat \<Rightarrow> nat \<Rightarrow> nat option" where
  "strlen_from m p n = (if m (p + n) = 0 then Some n else strlen_from m p (Suc n))"

definition strlen :: "mem \<Rightarrow> nat \<Rightarrow> nat option" where
  "strlen m p = strlen_from m p 0"

lemma strlen_from_Some:
  assumes "m (p + n + k) = 0" "\<And>i. i < k \<Longrightarrow> m (p + n + i) \<noteq> 0"
  shows "strlen_from m p n = Some (n + k)"
  using assms
proof (induction k arbitrary: n)
  case 0
  then show ?case by (simp add: strlen_from.simps [of m p n])
next
  case (Suc k)
  have "m (p + n) \<noteq> 0" using Suc.prems(2) [of 0] by simp
  moreover have "strlen_from m p (Suc n) = Some (Suc n + k)"
  proof (rule Suc.IH)
    show "m (p + Suc n + k) = 0" using Suc.prems(1) by simp
  next
    fix i assume "i < k"
    then show "m (p + Suc n + i) \<noteq> 0" using Suc.prems(2) [of "Suc i"] by simp
  qed
  ultimately show ?case by (simp add: strlen_from.simps [of m p n])
qed

lemma strlen_from_SomeD:
  assumes "strlen_from m p n = Some k"
  shows "n \<le> k \<and> m (p + k) = 0 \<and> (\<forall>i. n \<le> i \<and> i < k \<longrightarrow> m (p + i) \<noteq> 0)"
proof (rule strlen_from.raw_induct [where
    P = "\<lambda>m p n k. n \<le> k \<and> m (p + k) = 0 \<and> (\<forall>i. n \<le> i \<and> i < k \<longrightarrow> m (p + i) \<noteq> 0)",
    OF _ assms])
  fix f :: "mem \<Rightarrow> nat \<Rightarrow> nat \<Rightarrow> nat option" and m p n k
  assume IH: "\<And>m p n k. f m p n = Some k \<Longrightarrow>
      n \<le> k \<and> m (p + k) = 0 \<and> (\<forall>i. n \<le> i \<and> i < k \<longrightarrow> m (p + i) \<noteq> 0)"
    and eq: "(if m (p + n) = 0 then Some n else f m p (Suc n)) = Some k"
  show "n \<le> k \<and> m (p + k) = 0 \<and> (\<forall>i. n \<le> i \<and> i < k \<longrightarrow> m (p + i) \<noteq> 0)"
  proof (cases "m (p + n) = 0")
    case True
    with eq show ?thesis by auto
  next
    case False
    with eq have "f m p (Suc n) = Some k" by simp
    from IH [OF this] False show ?thesis
      by (metis Suc_le_eq le_neq_implies_less less_imp_le)
  qed
qed

lemma strlen_eq_Some_iff:
  "strlen m p = Some n \<longleftrightarrow> m (p + n) = 0 \<and> (\<forall>i<n. m (p + i) \<noteq> 0)"
proof
  assume "strlen m p = Some n"
  then have "strlen_from m p 0 = Some n" by (simp only: strlen_def)
  from strlen_from_SomeD [OF this] show "m (p + n) = 0 \<and> (\<forall>i<n. m (p + i) \<noteq> 0)"
    by blast
next
  assume A: "m (p + n) = 0 \<and> (\<forall>i<n. m (p + i) \<noteq> 0)"
  have "strlen_from m p 0 = Some (0 + n)"
    by (rule strlen_from_Some) (use A in simp_all)
  then show "strlen m p = Some n" by (simp only: strlen_def add_0)
qed

end
