(* ===== verification/Ospfs_Disk.thy ===== *)
theory Ospfs_Disk
  imports Prelude
begin

text \<open>
  The on-disk format of OSPFS (File_System/ospfs.h) and the accessors and bit-vector
  operations of File_System/ospfsmod.c.  The disk \<open>ospfs_data\<close> is the byte memory itself:
  a pointer into it is an offset from its start, and inodes, directory entries, indirect
  blocks and the free map are all read through the same bytes.  \<open>uint32_t\<close> values are
  \<open>32 word\<close>; a block pointer is \<open>blockno * 1024\<close> computed in 32 bits, as in the code.
\<close>

section \<open>Constants of ospfs.h\<close>

abbreviation (input) OSPFS_BLKSIZE :: "'a::numeral" where "OSPFS_BLKSIZE \<equiv> 1024"
abbreviation (input) OSPFS_FREEMAP_BLK :: "'a::numeral" where "OSPFS_FREEMAP_BLK \<equiv> 2"
abbreviation (input) OSPFS_INODESIZE :: "'a::numeral" where "OSPFS_INODESIZE \<equiv> 64"
abbreviation (input) OSPFS_BLKINODES :: "'a::numeral" where "OSPFS_BLKINODES \<equiv> 16"
abbreviation (input) OSPFS_NDIRECT :: "'a::numeral" where "OSPFS_NDIRECT \<equiv> 10"
abbreviation (input) OSPFS_NINDIRECT :: "'a::numeral" where "OSPFS_NINDIRECT \<equiv> 256"
abbreviation (input) OSPFS_MAXFILEBLKS :: "'a::numeral" where
  "OSPFS_MAXFILEBLKS \<equiv> 65802"
abbreviation (input) OSPFS_FTYPE_REG :: u32 where "OSPFS_FTYPE_REG \<equiv> 0"
abbreviation (input) OSPFS_FTYPE_DIR :: u32 where "OSPFS_FTYPE_DIR \<equiv> 1"
abbreviation (input) OSPFS_FTYPE_SYMLINK :: u32 where "OSPFS_FTYPE_SYMLINK \<equiv> 2"
abbreviation (input) OSPFS_ROOT_INO :: u32 where "OSPFS_ROOT_INO \<equiv> 1"
abbreviation (input) OSPFS_MAXSYMLINKLEN :: nat where "OSPFS_MAXSYMLINKLEN \<equiv> 51"
abbreviation (input) OSPFS_DIRENTRY_SIZE :: "'a::numeral" where "OSPFS_DIRENTRY_SIZE \<equiv> 128"
abbreviation (input) OSPFS_MAXNAMELEN :: nat where "OSPFS_MAXNAMELEN \<equiv> 123"

lemma maxfileblks_eq:
  "(OSPFS_MAXFILEBLKS :: nat) = OSPFS_NDIRECT + OSPFS_NINDIRECT + OSPFS_NINDIRECT * OSPFS_NINDIRECT"
  by simp

section \<open>Bit vectors\<close>

text \<open>
  Bit \<open>i\<close> of a vector lives in the 32-bit word \<open>i div 32\<close>.  The C index is a
  non-negative \<open>int\<close>; the model takes it as a natural number.
\<close>

definition shl1 :: "nat \<Rightarrow> u32" where
  "shl1 n = push_bit n 1"

definition bitvector_set :: "mem \<Rightarrow> nat \<Rightarrow> nat \<Rightarrow> mem" where
  "bitvector_set m vector i =
     (let a = vector + 4 * (i div 32) in put32 m a (get32 m a OR shl1 (i mod 32)))"

definition bitvector_clear :: "mem \<Rightarrow> nat \<Rightarrow> nat \<Rightarrow> mem" where
  "bitvector_clear m vector i =
     (let a = vector + 4 * (i div 32) in put32 m a (get32 m a AND NOT (shl1 (i mod 32))))"

definition bitvector_test :: "mem \<Rightarrow> nat \<Rightarrow> nat \<Rightarrow> bool" where
  "bitvector_test m vector i =
     (get32 m (vector + 4 * (i div 32)) AND shl1 (i mod 32) \<noteq> 0)"

lemma bit_shl1 [simp]: "bit (shl1 n) k \<longleftrightarrow> k = n \<and> n < 32"
  unfolding shl1_def bit_push_bit_iff by (auto simp: bit_1_iff)

lemma and_shl1_iff:
  assumes "n < 32" shows "(w :: u32) AND shl1 n \<noteq> 0 \<longleftrightarrow> bit w n"
proof -
  have "bit (w AND shl1 n) k \<longleftrightarrow> bit w n \<and> k = n" for k
    using assms by (auto simp: bit_and_iff)
  then show ?thesis
    by (metis bit_eq_iff bit_0_eq bot_apply bot_bool_def)
qed

lemma bitvector_test_bit:
  "bitvector_test m vector i \<longleftrightarrow> bit (get32 m (vector + 4 * (i div 32))) (i mod 32)"
  by (simp add: bitvector_test_def and_shl1_iff)

lemma get32_other_cell:
  "i \<noteq> j \<Longrightarrow> get32 (put32 m (v + 4 * i) w) (v + 4 * j) = get32 m (v + 4 * j)"
  by (rule get32_put32_other) linarith

lemma same_word_bit_eq: "i div 32 = j div 32 \<Longrightarrow> i mod 32 = j mod 32 \<longleftrightarrow> i = (j :: nat)"
  by (metis div_mod_decomp)

lemma bitvector_test_set [simp]:
  "bitvector_test (bitvector_set m v i) v j \<longleftrightarrow> j = i \<or> bitvector_test m v j"
proof (cases "i div 32 = j div 32")
  case True
  then have "get32 (bitvector_set m v i) (v + 4 * (j div 32))
      = get32 m (v + 4 * (j div 32)) OR shl1 (i mod 32)"
    by (simp add: bitvector_set_def Let_def)
  then show ?thesis
    using same_word_bit_eq [OF True] by (auto simp: bitvector_test_bit bit_or_iff)
next
  case False
  then have "get32 (bitvector_set m v i) (v + 4 * (j div 32)) = get32 m (v + 4 * (j div 32))"
    by (simp add: bitvector_set_def Let_def get32_other_cell)
  with False show ?thesis by (auto simp: bitvector_test_bit)
qed

lemma bitvector_test_clear [simp]:
  "bitvector_test (bitvector_clear m v i) v j \<longleftrightarrow> j \<noteq> i \<and> bitvector_test m v j"
proof (cases "i div 32 = j div 32")
  case True
  then have "get32 (bitvector_clear m v i) (v + 4 * (j div 32))
      = get32 m (v + 4 * (j div 32)) AND NOT (shl1 (i mod 32))"
    by (simp add: bitvector_clear_def Let_def)
  then show ?thesis
    using same_word_bit_eq [OF True]
    by (auto simp: bitvector_test_bit bit_and_iff bit_not_iff)
next
  case False
  then have "get32 (bitvector_clear m v i) (v + 4 * (j div 32)) = get32 m (v + 4 * (j div 32))"
    by (simp add: bitvector_clear_def Let_def get32_other_cell)
  with False show ?thesis by (auto simp: bitvector_test_bit)
qed

lemma bitvector_set_byte [mem_simps]:
  "b < v + 4 * (i div 32) \<or> v + 4 * (i div 32) + 4 \<le> b \<Longrightarrow> bitvector_set m v i b = m b"
  by (simp add: bitvector_set_def Let_def put32_byte_other)

lemma bitvector_clear_byte [mem_simps]:
  "b < v + 4 * (i div 32) \<or> v + 4 * (i div 32) + 4 \<le> b \<Longrightarrow> bitvector_clear m v i b = m b"
  by (simp add: bitvector_clear_def Let_def put32_byte_other)

lemma bitvector_set_clear:
  assumes "bitvector_test m v i" shows "bitvector_set (bitvector_clear m v i) v i = m"
proof -
  let ?a = "v + 4 * (i div 32)"
  have "(get32 m ?a AND NOT (shl1 (i mod 32))) OR shl1 (i mod 32) = get32 m ?a"
    using assms
    by (intro bit_word_eqI) (auto simp: bitvector_test_bit bit_and_iff bit_or_iff bit_not_iff)
  then show ?thesis
    by (simp add: bitvector_set_def bitvector_clear_def Let_def)
qed

section \<open>Superblock, blocks and inodes\<close>

definition os_nblocks :: "mem \<Rightarrow> u32" where "os_nblocks m = get32 m (1024 + 4)"
definition os_ninodes :: "mem \<Rightarrow> u32" where "os_ninodes m = get32 m (1024 + 8)"
definition os_firstinob :: "mem \<Rightarrow> u32" where "os_firstinob m = get32 m (1024 + 12)"

definition ospfs_size2nblocks :: "u32 \<Rightarrow> u32" where
  "ospfs_size2nblocks sz = (sz + OSPFS_BLKSIZE - 1) div OSPFS_BLKSIZE"

definition ospfs_block :: "u32 \<Rightarrow> nat" where
  "ospfs_block blockno = unat (blockno * OSPFS_BLKSIZE)"

text \<open>\<open>None\<close> is the null pointer \<open>ospfs_inode\<close> returns for an inode number out of range.\<close>

definition ospfs_inode :: "mem \<Rightarrow> u32 \<Rightarrow> nat option" where
  "ospfs_inode m ino =
     (if ino \<ge> os_ninodes m then None
      else Some (ospfs_block (os_firstinob m) + OSPFS_INODESIZE * unat ino))"

text \<open>The fields of \<open>struct ospfs_inode\<close> at pointer \<open>p\<close>.\<close>

definition oi_size :: "mem \<Rightarrow> nat \<Rightarrow> u32" where "oi_size m p = get32 m p"
definition oi_ftype :: "mem \<Rightarrow> nat \<Rightarrow> u32" where "oi_ftype m p = get32 m (p + 4)"
definition oi_nlink :: "mem \<Rightarrow> nat \<Rightarrow> u32" where "oi_nlink m p = get32 m (p + 8)"
definition oi_mode :: "mem \<Rightarrow> nat \<Rightarrow> u32" where "oi_mode m p = get32 m (p + 12)"
definition oi_direct :: "mem \<Rightarrow> nat \<Rightarrow> nat \<Rightarrow> u32" where
  "oi_direct m p i = get32 m (p + 16 + 4 * i)"
definition oi_indirect :: "mem \<Rightarrow> nat \<Rightarrow> u32" where "oi_indirect m p = get32 m (p + 56)"
definition oi_indirect2 :: "mem \<Rightarrow> nat \<Rightarrow> u32" where "oi_indirect2 m p = get32 m (p + 60)"

definition set_size :: "mem \<Rightarrow> nat \<Rightarrow> u32 \<Rightarrow> mem" where "set_size m p v = put32 m p v"
definition set_ftype :: "mem \<Rightarrow> nat \<Rightarrow> u32 \<Rightarrow> mem" where "set_ftype m p v = put32 m (p + 4) v"
definition set_nlink :: "mem \<Rightarrow> nat \<Rightarrow> u32 \<Rightarrow> mem" where "set_nlink m p v = put32 m (p + 8) v"
definition set_mode :: "mem \<Rightarrow> nat \<Rightarrow> u32 \<Rightarrow> mem" where "set_mode m p v = put32 m (p + 12) v"
definition set_direct :: "mem \<Rightarrow> nat \<Rightarrow> nat \<Rightarrow> u32 \<Rightarrow> mem" where
  "set_direct m p i v = put32 m (p + 16 + 4 * i) v"
definition set_indirect :: "mem \<Rightarrow> nat \<Rightarrow> u32 \<Rightarrow> mem" where
  "set_indirect m p v = put32 m (p + 56) v"
definition set_indirect2 :: "mem \<Rightarrow> nat \<Rightarrow> u32 \<Rightarrow> mem" where
  "set_indirect2 m p v = put32 m (p + 60) v"

lemmas inode_fields = oi_size_def oi_ftype_def oi_nlink_def oi_mode_def oi_direct_def
  oi_indirect_def oi_indirect2_def set_size_def set_ftype_def set_nlink_def set_mode_def
  set_direct_def set_indirect_def set_indirect2_def

text \<open>\<open>((uint32_t *) ospfs_block(b))[i]\<close>.\<close>

definition block_entry :: "mem \<Rightarrow> u32 \<Rightarrow> nat \<Rightarrow> u32" where
  "block_entry m b i = get32 m (ospfs_block b + 4 * i)"

definition set_block_entry :: "mem \<Rightarrow> u32 \<Rightarrow> nat \<Rightarrow> u32 \<Rightarrow> mem" where
  "set_block_entry m b i v = put32 m (ospfs_block b + 4 * i) v"

text \<open>\<open>memset(ospfs_block(b), 0, OSPFS_BLKSIZE)\<close>.\<close>

definition zero_block :: "mem \<Rightarrow> u32 \<Rightarrow> mem" where
  "zero_block m b = mem_fill m (ospfs_block b) 0 OSPFS_BLKSIZE"

definition ospfs_inode_blockno :: "mem \<Rightarrow> nat \<Rightarrow> u32 \<Rightarrow> u32" where
  "ospfs_inode_blockno m oi offset =
     (let blockno = offset div OSPFS_BLKSIZE in
      if offset \<ge> oi_size m oi \<or> oi_ftype m oi = OSPFS_FTYPE_SYMLINK then 0
      else if blockno \<ge> OSPFS_NDIRECT + OSPFS_NINDIRECT then
        (let blockoff = blockno - (OSPFS_NDIRECT + OSPFS_NINDIRECT);
             indirect_block = block_entry m (oi_indirect2 m oi) (unat (blockoff div OSPFS_NINDIRECT))
         in block_entry m indirect_block (unat (blockoff mod OSPFS_NINDIRECT)))
      else if blockno \<ge> OSPFS_NDIRECT then
        block_entry m (oi_indirect m oi) (unat (blockno - OSPFS_NDIRECT))
      else oi_direct m oi (unat blockno))"

definition ospfs_inode_data :: "mem \<Rightarrow> nat \<Rightarrow> u32 \<Rightarrow> nat" where
  "ospfs_inode_data m oi offset =
     ospfs_block (ospfs_inode_blockno m oi offset) + unat (offset mod OSPFS_BLKSIZE)"

lemma unat_size2nblocks:
  assumes "unat s + 1023 < 2 ^ 32"
  shows "unat (ospfs_size2nblocks s) = (unat s + 1023) div 1024"
proof -
  have "unat (s + 1023) = unat s + 1023"
    using assms by (simp add: unat_word_ariths)
  moreover have "ospfs_size2nblocks s = (s + 1023) div 1024"
    by (simp add: ospfs_size2nblocks_def add.commute)
  ultimately show ?thesis by (simp only: unat_div) simp
qed

lemma ospfs_block_eq: "unat b * 1024 < 2 ^ 32 \<Longrightarrow> ospfs_block b = unat b * 1024"
  by (simp add: ospfs_block_def unat_word_ariths)

end
