(* ===== verification/Ospfs_Layout.thy ===== *)
theory Ospfs_Layout
  imports Ospfs_Disk
begin

text \<open>
  The layout of a formatted disk (ospfs.h: boot block, superblock, free map, inode
  blocks, data blocks) as a predicate on the bytes, and the facts that follow from it:
  a write to the free map, to an inode, or to a data block leaves the other areas alone.
  The rules are collected in \<open>view_simps\<close>; the theories above reason about the disk with
  them and never with byte addresses.
\<close>

named_theorems view_simps \<open>reads of one disk area after a write to another\<close>

definition first_data :: "mem \<Rightarrow> nat" where
  "first_data m = unat (os_firstinob m) + (unat (os_ninodes m) + 15) div 16"

definition lay :: "mem \<Rightarrow> bool" where
  "lay m \<longleftrightarrow> unat (os_nblocks m) < 2 ^ 22
     \<and> 2048 + 4 * ((unat (os_nblocks m) + 31) div 32) \<le> unat (os_firstinob m) * 1024
     \<and> first_data m \<le> unat (os_nblocks m)"

definition inode_at :: "mem \<Rightarrow> nat \<Rightarrow> bool" where
  "inode_at m p \<longleftrightarrow> unat (os_firstinob m) * 1024 \<le> p \<and> p + 64 \<le> first_data m * 1024"

definition data_blk :: "mem \<Rightarrow> u32 \<Rightarrow> bool" where
  "data_blk m b \<longleftrightarrow> first_data m \<le> unat b \<and> unat b < unat (os_nblocks m)"

lemma lay_firstinob: "lay m \<Longrightarrow> 2 \<le> unat (os_firstinob m)"
  by (auto simp: lay_def)

lemma data_blk_addr: "lay m \<Longrightarrow> data_blk m b \<Longrightarrow> ospfs_block b = unat b * 1024"
  by (rule ospfs_block_eq) (auto simp: lay_def data_blk_def)

lemma data_blk_nonzero: "lay m \<Longrightarrow> data_blk m b \<Longrightarrow> b \<noteq> 0"
  using lay_firstinob [of m] by (auto simp: data_blk_def first_data_def)

lemma ospfs_inode_at:
  assumes "lay m" "ospfs_inode m ino = Some p" shows "inode_at m p"
proof -
  have ino: "unat ino < unat (os_ninodes m)"
    and p: "p = ospfs_block (os_firstinob m) + 64 * unat ino"
    using assms(2) by (auto simp: ospfs_inode_def word_le_nat_alt split: if_splits)
  have "ospfs_block (os_firstinob m) = unat (os_firstinob m) * 1024"
    using assms(1) by (intro ospfs_block_eq) (auto simp: lay_def first_data_def)
  then show ?thesis using ino p by (simp add: inode_at_def first_data_def)
qed

lemma freemap_addr [simp]: "ospfs_block 2 = 2048"
  by (simp add: ospfs_block_def)

section \<open>Writes that stay in one area\<close>

text \<open>A memory that differs only at addresses from 2048 on has the same superblock.\<close>

lemma super_cong:
  assumes "\<And>x. x < 2048 \<Longrightarrow> m' x = m x"
  shows "os_nblocks m' = os_nblocks m" "os_ninodes m' = os_ninodes m"
    "os_firstinob m' = os_firstinob m"
  unfolding os_nblocks_def os_ninodes_def os_firstinob_def
  by (rule get32_cong; simp add: assms)+

lemma layout_cong:
  assumes "\<And>x. x < 2048 \<Longrightarrow> m' x = m x"
  shows "lay m' = lay m" "data_blk m' b = data_blk m b" "inode_at m' p = inode_at m p"
    "first_data m' = first_data m"
  by (simp_all add: super_cong [OF assms] lay_def data_blk_def inode_at_def first_data_def)

lemmas area_cong = super_cong layout_cong

lemma bit_word_in_map:
  assumes "lay m" "k < unat (os_nblocks m)"
  shows "2048 + 4 * (k div 32) + 4 \<le> unat (os_firstinob m) * 1024"
proof -
  have "(k + 32) div 32 \<le> (unat (os_nblocks m) + 31) div 32"
    using assms(2) by (intro div_le_mono) linarith
  then have "k div 32 + 1 \<le> (unat (os_nblocks m) + 31) div 32" by simp
  then show ?thesis using assms(1) unfolding lay_def by linarith
qed

lemma area_clear [view_simps]:
  "os_nblocks (bitvector_clear m 2048 k) = os_nblocks m"
  "os_ninodes (bitvector_clear m 2048 k) = os_ninodes m"
  "os_firstinob (bitvector_clear m 2048 k) = os_firstinob m"
  "lay (bitvector_clear m 2048 k) = lay m"
  "data_blk (bitvector_clear m 2048 k) b = data_blk m b"
  "inode_at (bitvector_clear m 2048 k) p = inode_at m p"
  "first_data (bitvector_clear m 2048 k) = first_data m"
  by (rule area_cong; simp add: bitvector_clear_byte)+

lemma area_set [view_simps]:
  "os_nblocks (bitvector_set m 2048 k) = os_nblocks m"
  "os_ninodes (bitvector_set m 2048 k) = os_ninodes m"
  "os_firstinob (bitvector_set m 2048 k) = os_firstinob m"
  "lay (bitvector_set m 2048 k) = lay m"
  "data_blk (bitvector_set m 2048 k) b = data_blk m b"
  "inode_at (bitvector_set m 2048 k) p = inode_at m p"
  "first_data (bitvector_set m 2048 k) = first_data m"
  by (rule area_cong; simp add: bitvector_set_byte)+

lemma area_put32:
  assumes "2048 \<le> a"
  shows "os_nblocks (put32 m a v) = os_nblocks m" "os_ninodes (put32 m a v) = os_ninodes m"
    "os_firstinob (put32 m a v) = os_firstinob m" "lay (put32 m a v) = lay m"
    "data_blk (put32 m a v) b = data_blk m b" "inode_at (put32 m a v) p = inode_at m p"
    "first_data (put32 m a v) = first_data m"
  by (rule area_cong; use assms in \<open>simp add: put32_byte_other\<close>)+

lemma inode_ge: "lay m \<Longrightarrow> inode_at m p \<Longrightarrow> 2048 \<le> p"
  using lay_firstinob [of m] by (auto simp: inode_at_def)

lemma block_ge: "lay m \<Longrightarrow> data_blk m b \<Longrightarrow> 2048 \<le> ospfs_block b"
  using lay_firstinob [of m] by (auto simp: data_blk_addr data_blk_def first_data_def)

lemma area_inode [view_simps]:
  assumes "lay m" "inode_at m p"
  shows "os_nblocks (put32 m (p + x) v) = os_nblocks m"
    "os_ninodes (put32 m (p + x) v) = os_ninodes m"
    "os_firstinob (put32 m (p + x) v) = os_firstinob m"
    "lay (put32 m (p + x) v)"
    "data_blk (put32 m (p + x) v) b = data_blk m b"
    "inode_at (put32 m (p + x) v) q = inode_at m q"
    "first_data (put32 m (p + x) v) = first_data m"
  using inode_ge [OF assms] assms by (simp_all add: area_put32)

lemma area_entry [view_simps]:
  assumes "lay m" "data_blk m c"
  shows "os_nblocks (set_block_entry m c i v) = os_nblocks m"
    "os_ninodes (set_block_entry m c i v) = os_ninodes m"
    "os_firstinob (set_block_entry m c i v) = os_firstinob m"
    "lay (set_block_entry m c i v)"
    "data_blk (set_block_entry m c i v) b = data_blk m b"
    "inode_at (set_block_entry m c i v) q = inode_at m q"
    "first_data (set_block_entry m c i v) = first_data m"
  using block_ge [OF assms] assms by (simp_all add: area_put32 set_block_entry_def)

lemma area_zero [view_simps]:
  assumes "lay m" "data_blk m c"
  shows "os_nblocks (zero_block m c) = os_nblocks m"
    "os_ninodes (zero_block m c) = os_ninodes m"
    "os_firstinob (zero_block m c) = os_firstinob m"
    "lay (zero_block m c)"
    "data_blk (zero_block m c) b = data_blk m b"
    "inode_at (zero_block m c) q = inode_at m q"
    "first_data (zero_block m c) = first_data m"
proof -
  have low: "\<And>x. x < 2048 \<Longrightarrow> zero_block m c x = m x"
    using block_ge [OF assms] by (simp add: zero_block_def mem_fill_byte)
  show "os_nblocks (zero_block m c) = os_nblocks m"
    "os_ninodes (zero_block m c) = os_ninodes m"
    "os_firstinob (zero_block m c) = os_firstinob m"
    "data_blk (zero_block m c) b = data_blk m b"
    "inode_at (zero_block m c) q = inode_at m q"
    "first_data (zero_block m c) = first_data m"
    by (rule area_cong; rule low; assumption)+
  show "lay (zero_block m c)" using layout_cong(1) [of "zero_block m c" m] low assms(1) by simp
qed

section \<open>Views: inode cells, block entries, free bits, data bytes\<close>

text \<open>Inode cells.\<close>

lemma cell_clear [view_simps]:
  assumes "lay m" "inode_at m p" "k < unat (os_nblocks m)"
  shows "get32 (bitvector_clear m 2048 k) (p + x) = get32 m (p + x)"
    and "get32 (bitvector_set m 2048 k) (p + x) = get32 m (p + x)"
  using bit_word_in_map [OF assms(1,3)] assms(2)
  by (auto intro!: get32_cong bitvector_clear_byte bitvector_set_byte simp: inode_at_def)

lemma cell_zero [view_simps]:
  assumes "lay m" "inode_at m p" "data_blk m c" "x \<le> 60"
  shows "get32 (zero_block m c) (p + x) = get32 m (p + x)"
proof -
  have "p + 64 \<le> unat c * 1024"
    using assms by (simp add: inode_at_def data_blk_def)
  then show ?thesis
    using assms by (intro get32_cong) (auto simp: zero_block_def mem_fill_byte data_blk_addr)
qed

lemma cell_entry [view_simps]:
  assumes "lay m" "inode_at m p" "data_blk m c" "x \<le> 60"
  shows "get32 (set_block_entry m c i v) (p + x) = get32 m (p + x)"
proof -
  have "p + 64 \<le> unat c * 1024"
    using assms by (simp add: inode_at_def data_blk_def)
  then show ?thesis
    using assms unfolding set_block_entry_def
    by (intro get32_put32_other) (auto simp: data_blk_addr)
qed

lemma cell_cell [view_simps]:
  "get32 (put32 m (p + x) v) (p + x) = v"
  "x + 4 \<le> y \<or> y + 4 \<le> x \<Longrightarrow> get32 (put32 m (p + x) v) (p + y) = get32 m (p + y)"
  by (auto intro: get32_put32_other)

text \<open>Entries of indirect blocks.\<close>

lemma entry_bit [view_simps]:
  assumes "lay m" "data_blk m b" "k < unat (os_nblocks m)"
  shows "block_entry (bitvector_clear m 2048 k) b i = block_entry m b i"
    and "block_entry (bitvector_set m 2048 k) b i = block_entry m b i"
  using bit_word_in_map [OF assms(1,3)] assms(1,2) unfolding block_entry_def
  by (auto intro!: get32_cong bitvector_clear_byte bitvector_set_byte
      simp: data_blk_addr data_blk_def first_data_def)

lemma entry_cell [view_simps]:
  assumes "lay m" "data_blk m b" "inode_at m p" "x \<le> 60"
  shows "block_entry (put32 m (p + x) v) b i = block_entry m b i"
proof -
  have "p + 64 \<le> unat b * 1024"
    using assms by (simp add: inode_at_def data_blk_def)
  then show ?thesis
    using assms unfolding block_entry_def
    by (intro get32_put32_other) (auto simp: data_blk_addr)
qed

lemma block_disjoint:
  assumes "unat (b :: u32) \<noteq> unat c" "x < 1024"
  shows "unat b * 1024 + x < unat c * 1024 \<or> unat c * 1024 + 1024 \<le> unat b * 1024 + x"
proof (cases "unat b < unat c")
  case True
  then have "unat b + 1 \<le> unat c" by simp
  then have "(unat b + 1) * 1024 \<le> unat c * 1024" by (rule mult_le_mono1)
  with assms(2) show ?thesis by simp
next
  case False
  with assms(1) have "unat c + 1 \<le> unat b" by simp
  then have "(unat c + 1) * 1024 \<le> unat b * 1024" by (rule mult_le_mono1)
  then show ?thesis by simp
qed

lemma entry_zero [view_simps]:
  assumes "lay m" "data_blk m b" "data_blk m c" "i < 256"
  shows "block_entry (zero_block m c) b i = (if b = c then 0 else block_entry m b i)"
proof (cases "b = c")
  case True
  then show ?thesis using assms
    by (simp add: block_entry_def zero_block_def get32_mem_fill_in)
next
  case False
  then have ne: "unat b \<noteq> unat c" by (simp add: word_unat_eq_iff)
  have "unat b * 1024 + 4 * i + 4 \<le> unat c * 1024 \<or> unat c * 1024 + 1024 \<le> unat b * 1024 + 4 * i"
    using block_disjoint [OF ne, of 0] block_disjoint [OF ne, of "4 * i + 3"] assms(4) by linarith
  then show ?thesis using False assms
    by (simp add: block_entry_def zero_block_def get32_mem_fill_other data_blk_addr)
qed

lemma entry_entry [view_simps]:
  assumes "lay m" "data_blk m b" "data_blk m c" "i < 256" "j < 256"
  shows "block_entry (set_block_entry m c j v) b i
    = (if b = c \<and> i = j then v else block_entry m b i)"
proof (cases "b = c")
  case True
  show ?thesis
  proof (cases "i = j")
    case False
    then have "4 * i + 4 \<le> 4 * j \<or> 4 * j + 4 \<le> 4 * i" by linarith
    with True False show ?thesis
      by (simp add: block_entry_def set_block_entry_def get32_put32_other)
  qed (use True in \<open>simp add: block_entry_def set_block_entry_def\<close>)
next
  case False
  then have ne: "unat b \<noteq> unat c" by (simp add: word_unat_eq_iff)
  have "unat b * 1024 + 4 * i + 4 \<le> unat c * 1024 + 4 * j
      \<or> unat c * 1024 + 4 * j + 4 \<le> unat b * 1024 + 4 * i"
    using block_disjoint [OF ne, of 0] block_disjoint [OF ne, of "4 * i + 3"] assms(4,5)
    by linarith
  then show ?thesis using False assms
    by (auto simp: block_entry_def set_block_entry_def get32_put32_other data_blk_addr)
qed

text \<open>Free bits.\<close>

lemma bit_cell [view_simps]:
  assumes "lay m" "inode_at m p" "k < unat (os_nblocks m)"
  shows "bitvector_test (put32 m (p + x) v) 2048 k = bitvector_test m 2048 k"
  using bit_word_in_map [OF assms(1,3)] assms(2) unfolding bitvector_test_def
  by (subst get32_put32_other) (auto simp: inode_at_def)

lemma bit_zero [view_simps]:
  assumes "lay m" "data_blk m c" "k < unat (os_nblocks m)"
  shows "bitvector_test (zero_block m c) 2048 k = bitvector_test m 2048 k"
  using bit_word_in_map [OF assms(1,3)] assms(1,2) unfolding bitvector_test_def zero_block_def
  by (subst get32_mem_fill_other) (auto simp: data_blk_addr data_blk_def first_data_def)

lemma bit_entry [view_simps]:
  assumes "lay m" "data_blk m c" "k < unat (os_nblocks m)"
  shows "bitvector_test (set_block_entry m c i v) 2048 k = bitvector_test m 2048 k"
  using bit_word_in_map [OF assms(1,3)] assms(1,2) unfolding bitvector_test_def set_block_entry_def
  by (subst get32_put32_other) (auto simp: data_blk_addr data_blk_def first_data_def)

end
