(* ===== verification/Ospfs_Format.thy ===== *)
theory Ospfs_Format
  imports Ospfs_Layout "HOL-Library.Monad_Syntax"
begin

text \<open>
  The OSPFS image formatter (File_System/ospfsformat.c): the sixteen-block cache over the image
  file, the allocation of blocks, inodes and directory entries, and the passes that copy a host
  directory or a list of files into a new image.  A state \<open>fstate\<close> holds the program's global
  variables and the bytes of the image file; \<open>None\<close> is \<open>abort\<close>, \<open>exit(1)\<close> or a null
  dereference.  The host's files are arguments; \<open>md5\<close> (md5.c) is a function parameter; read and
  write errors of the host are not modelled.  A pointer into a cached block is the entry's index
  and an offset.
\<close>

section \<open>State\<close>

datatype block_type = BLOCK_SUPER | BLOCK_DIR | BLOCK_FILE | BLOCK_BITS | BLOCK_INODES

text \<open>A cached block; the three views of the union \<open>u\<close> are offsets into \<open>data\<close>.\<close>

record cblock =
  bno :: u32
  btype :: block_type
  busy :: nat
  used :: nat
  data :: mem

record hardlink =
  hl_osp_ino :: u32
  hl_host_ino :: u32
  hl_digest :: "u8 list"

text \<open>
  The global variables, with the image file behind \<open>diskfd\<close>.  \<open>clock\<close> is the counter \<open>t\<close> of
  \<open>getblk\<close>.
\<close>

record fstate =
  img :: mem
  nblocks :: u32
  ninodes :: u32
  nbitblock :: u32
  nextb :: u32
  nextinode :: u32
  link_contents :: bool
  hardlinks :: "hardlink list"
  cache :: "cblock list"
  super_nblocks :: u32
  super_ninodes :: u32
  super_firstinob :: u32
  clock :: nat

definition empty_block :: cblock where
  "empty_block = \<lparr>bno = 0, btype = BLOCK_SUPER, busy = 0, used = 0, data = (\<lambda>_. 0)\<rparr>"

text \<open>A function that may call \<open>abort\<close> is \<open>None\<close> when it does.\<close>

section \<open>Hard links\<close>

text \<open>\<open>digest\<close> is \<open>None\<close> for the null pointer.\<close>

definition get_hardlink :: "64 word \<Rightarrow> u8 list option \<Rightarrow> fstate \<Rightarrow> u32" where
  "get_hardlink host_ino digest s =
     (case List.find (\<lambda>h. host_ino \<noteq> 0 \<and> ucast (hl_host_ino h) = host_ino
                 \<or> link_contents s \<and> digest = Some (hl_digest h)) (hardlinks s) of
        Some h \<Rightarrow> hl_osp_ino h
      | None \<Rightarrow> 0)"

definition add_hardlink :: "64 word \<Rightarrow> u32 \<Rightarrow> u8 list option \<Rightarrow> fstate \<Rightarrow> fstate" where
  "add_hardlink host_ino osp_ino digest s =
     s\<lparr>hardlinks := \<lparr>hl_osp_ino = osp_ino, hl_host_ino = ucast host_ino,
         hl_digest = (case digest of Some d \<Rightarrow> if link_contents s then d else replicate 16 0 | None \<Rightarrow> replicate 16 0)\<rparr>
       # hardlinks s\<rparr>"

section \<open>The block cache\<close>

text \<open>Byte order: on a little-endian host the bytes end up where they were.\<close>

definition swizzle :: "nat \<Rightarrow> mem \<Rightarrow> mem" where
  "swizzle x m = (let y = get32 m x in
     m(x := ucast y, x + 1 := ucast (drop_bit 8 y), x + 2 := ucast (drop_bit 16 y), x + 3 := ucast (drop_bit 24 y)))"

definition swizzleinode :: "nat \<Rightarrow> mem \<Rightarrow> mem" where
  "swizzleinode p m =
     (if get32 m (p + 8) = 0 then m
      else swizzle (p + 60) (swizzle (p + 56) (fold (\<lambda>i. swizzle (p + 16 + 4 * i)) [0..<OSPFS_NDIRECT]
        (swizzle (p + 8) (swizzle (p + 12) (swizzle (p + 4) (swizzle p m)))))))"

definition swizzledirentry :: "nat \<Rightarrow> mem \<Rightarrow> mem" where
  "swizzledirentry p m = (if m (p + 4) = 0 then m else swizzle p m)"

definition swizzleblock :: "cblock \<Rightarrow> cblock" where
  "swizzleblock b =
     (case btype b of
        BLOCK_SUPER \<Rightarrow> b\<lparr>data := swizzle 12 (swizzle 8 (swizzle 4 (swizzle 0 (data b))))\<rparr>
      | BLOCK_DIR \<Rightarrow> b\<lparr>data := fold (\<lambda>i. swizzledirentry (OSPFS_DIRENTRY_SIZE * i)) [0..<8] (data b)\<rparr>
      | BLOCK_BITS \<Rightarrow> b\<lparr>data := fold (\<lambda>i. swizzle (4 * i)) [0..<256] (data b)\<rparr>
      | BLOCK_INODES \<Rightarrow> b\<lparr>data := fold (\<lambda>i. swizzleinode (OSPFS_INODESIZE * i)) [0..<OSPFS_BLKINODES] (data b)\<rparr>
      | BLOCK_FILE \<Rightarrow> b)"

text \<open>Block \<open>n\<close> of the image, and storing one.\<close>

definition image_block :: "mem \<Rightarrow> u32 \<Rightarrow> mem" where
  "image_block m n = (\<lambda>k. m (unat (n * OSPFS_BLKSIZE) + k))"

definition store_image :: "u32 \<Rightarrow> mem \<Rightarrow> mem \<Rightarrow> mem" where
  "store_image n d m = mem_write m (unat (n * OSPFS_BLKSIZE)) (mem_read d 0 OSPFS_BLKSIZE)"

definition upd_block :: "nat \<Rightarrow> (cblock \<Rightarrow> cblock) \<Rightarrow> fstate \<Rightarrow> fstate" where
  "upd_block i f s = s\<lparr>cache := (cache s)[i := f (cache s ! i)]\<rparr>"

definition flushb :: "nat \<Rightarrow> fstate \<Rightarrow> fstate" where
  "flushb i s =
     (let b = swizzleblock (cache s ! i)
      in s\<lparr>img := store_image (bno b) (data b) (img s), cache := (cache s)[i := swizzleblock b]\<rparr>)"

text \<open>
  The search of \<open>getblk\<close> from entry \<open>i\<close> on: the entry of the block, or the least recently used
  of the entries that are not busy.
\<close>

fun search_cache :: "u32 \<Rightarrow> cblock list \<Rightarrow> nat \<Rightarrow> (nat \<times> nat) option \<Rightarrow> nat + (nat \<times> nat) option" where
  "search_cache n [] i least = Inr least"
| "search_cache n (b # bs) i least =
     (if bno b = n then Inl i
      else search_cache n bs (i + 1)
        (if busy b = 0 \<and> (case least of None \<Rightarrow> True | Some (l, u) \<Rightarrow> used b < u) then Some (i, used b) else least))"

text \<open>Reading a block into entry \<open>i\<close>; the byte order is that of the entry's old type.\<close>

definition load_block :: "nat \<Rightarrow> u32 \<Rightarrow> bool \<Rightarrow> block_type \<Rightarrow> fstate \<Rightarrow> fstate" where
  "load_block i n clr ty s =
     (let s = (if used (cache s ! i) \<noteq> 0 then flushb i s else s)
      in upd_block i (\<lambda>b. let b = b\<lparr>data := image_block (img s) n, bno := n\<rparr>;
                              b = (if clr then b else swizzleblock b)
                          in b\<lparr>busy := 0, btype := ty\<rparr>) s)"

text \<open>The part of \<open>getblk\<close> from the label \<open>out\<close> on; a failed assertion aborts.\<close>

definition take_block :: "nat \<Rightarrow> bool \<Rightarrow> block_type \<Rightarrow> fstate \<Rightarrow> (nat \<times> fstate) option" where
  "take_block i clr ty s =
     (let b = cache s ! i;
          b = (if clr then b\<lparr>data := (\<lambda>_. 0)\<rparr> else b);
          b = b\<lparr>used := clock s + 1, busy := busy b + 1\<rparr>
      in if btype b = ty \<or> busy b = 1
         then Some (i, s\<lparr>clock := clock s + 1, cache := (cache s)[i := b\<lparr>btype := ty\<rparr>]\<rparr>)
         else None)"

definition getblk :: "u32 \<Rightarrow> bool \<Rightarrow> block_type \<Rightarrow> fstate \<Rightarrow> (nat \<times> fstate) option" where
  "getblk n clr ty s =
     (if n \<ge> nblocks s then None
      else case search_cache n (cache s) 0 None of
        Inl i \<Rightarrow> take_block i clr ty s
      | Inr None \<Rightarrow> None
      | Inr (Some (i, _)) \<Rightarrow> take_block i clr ty (load_block i n clr ty s))"

definition putblk :: "nat \<Rightarrow> fstate \<Rightarrow> fstate" where
  "putblk i s = upd_block i (\<lambda>b. b\<lparr>busy := busy b - 1\<rparr>) s"

text \<open>Cells of a cached block.\<close>

definition cell_at :: "nat \<Rightarrow> nat \<Rightarrow> fstate \<Rightarrow> u32" where
  "cell_at i k s = get32 (data (cache s ! i)) k"

definition set_cell :: "nat \<Rightarrow> nat \<Rightarrow> u32 \<Rightarrow> fstate \<Rightarrow> fstate" where
  "set_cell i k v s = upd_block i (\<lambda>b. b\<lparr>data := put32 (data b) k v\<rparr>) s"

definition set_bytes_at :: "nat \<Rightarrow> nat \<Rightarrow> u8 list \<Rightarrow> fstate \<Rightarrow> fstate" where
  "set_bytes_at i k bs s = upd_block i (\<lambda>b. b\<lparr>data := mem_write (data b) k bs\<rparr>) s"

section \<open>Opening the image\<close>

primrec for_all :: "('a \<Rightarrow> fstate \<Rightarrow> fstate option) \<Rightarrow> 'a list \<Rightarrow> fstate \<Rightarrow> fstate option" where
  "for_all f [] s = Some s"
| "for_all f (x # xs) s = Option.bind (f x s) (for_all f xs)"

definition opendisk :: "fstate \<Rightarrow> fstate option" where
  "opendisk s =
     (let s = s\<lparr>img := (\<lambda>_. 0), nbitblock := (nblocks s + 8192 - 1) div 8192\<rparr>;
          ninodeblock = (ninodes s + OSPFS_BLKINODES - 1) div OSPFS_BLKINODES
      in do {
        s \<leftarrow> for_all (\<lambda>i s. do {
               (b, s) \<leftarrow> getblk (OSPFS_FREEMAP_BLK + of_nat i) False BLOCK_BITS s;
               Some (putblk b (set_bytes_at b 0 (replicate OSPFS_BLKSIZE 0xFF) s))
             }) [0..<unat (nbitblock s)] s;
        s \<leftarrow> for_all (\<lambda>i s. do {
               (b, s) \<leftarrow> getblk (OSPFS_FREEMAP_BLK + nbitblock s + of_nat i) True BLOCK_INODES s;
               Some (putblk b s)
             }) [0..<unat ninodeblock] s;
        Some (s\<lparr>nextb := OSPFS_FREEMAP_BLK + nbitblock s + ninodeblock, nextinode := 0,
                super_nblocks := nblocks s, super_ninodes := ninodes s, super_firstinob := OSPFS_FREEMAP_BLK + nbitblock s\<rparr>)
      })"

section \<open>Blocks, inodes and directory entries\<close>

text \<open>A pointer into a cached block: the entry and the offset.\<close>

type_synonym cptr = "nat \<times> nat"

definition field :: "cptr \<Rightarrow> nat \<Rightarrow> fstate \<Rightarrow> u32" where
  "field p k s = cell_at (fst p) (snd p + k) s"

definition set_field :: "cptr \<Rightarrow> nat \<Rightarrow> u32 \<Rightarrow> fstate \<Rightarrow> fstate" where
  "set_field p k v s = set_cell (fst p) (snd p + k) v s"

text \<open>\<open>getblk(nextb++, 1, type)\<close>.\<close>

definition newblk :: "block_type \<Rightarrow> fstate \<Rightarrow> (nat \<times> fstate) option" where
  "newblk ty s = getblk (nextb s) True ty (s\<lparr>nextb := nextb s + 1\<rparr>)"

text \<open>The indirect block stored at \<open>k\<close> behind \<open>p\<close>, made when there is none.\<close>

definition indirect_block :: "cptr \<Rightarrow> nat \<Rightarrow> fstate \<Rightarrow> (nat \<times> fstate) option" where
  "indirect_block p k s =
     (if field p k s = 0 then do {
        (i, s) \<leftarrow> newblk BLOCK_BITS s;
        Some (i, set_field p k (bno (cache s ! i)) s)
      }
      else getblk (field p k s) False BLOCK_BITS s)"

definition storeblk :: "cptr \<Rightarrow> nat \<Rightarrow> nat \<Rightarrow> fstate \<Rightarrow> fstate option" where
  "storeblk ino b nblk s =
     (if nblk < OSPFS_NDIRECT then Some (set_field ino (16 + 4 * nblk) (bno (cache s ! b)) s)
      else if nblk < OSPFS_NDIRECT + OSPFS_NINDIRECT then do {
        (i, s) \<leftarrow> indirect_block ino 56 s;
        Some (putblk i (set_cell i (4 * (nblk - OSPFS_NDIRECT)) (bno (cache s ! b)) s))
      }
      else if nblk < OSPFS_MAXFILEBLKS then do {
        (i2, s) \<leftarrow> indirect_block ino 60 s;
        let n = nblk - (OSPFS_NDIRECT + OSPFS_NINDIRECT);
        (i, s) \<leftarrow> indirect_block (i2, 0) (4 * (n div OSPFS_NINDIRECT)) s;
        Some (putblk i2 (putblk i (set_cell i (4 * (n mod OSPFS_NINDIRECT)) (bno (cache s ! b)) s)))
      }
      else None)"

text \<open>
  \<open>allocinode\<close> stores the number through its first argument, the \<open>od_ino\<close> of a directory entry or
  a local variable (\<open>None\<close>).
\<close>

definition inode_ptr :: "u32 \<Rightarrow> fstate \<Rightarrow> (cptr \<times> fstate) option" where
  "inode_ptr ino s = do {
     (i, s) \<leftarrow> getblk (super_firstinob s + ino div OSPFS_BLKINODES) False BLOCK_INODES s;
     Some ((i, OSPFS_INODESIZE * unat (ino mod OSPFS_BLKINODES)), s)
   }"

definition allocinode :: "cptr option \<Rightarrow> fstate \<Rightarrow> (u32 \<times> cptr \<times> fstate) option" where
  "allocinode out s =
     (if nextinode s = ninodes s then None
      else do {
        let ino = nextinode s;
        let s = (case out of None \<Rightarrow> s | Some de \<Rightarrow> set_field de 0 ino s)\<lparr>nextinode := ino + 1\<rparr>;
        (p, s) \<leftarrow> inode_ptr ino s;
        Some (ino, p, s)
      })"

text \<open>The last block of a directory, when there is one; \<open>nblk\<close> is its index.\<close>

definition dir_block :: "cptr \<Rightarrow> nat \<Rightarrow> fstate \<Rightarrow> (nat \<times> fstate) option" where
  "dir_block dirino nblk s =
     (if nblk \<ge> OSPFS_NDIRECT + OSPFS_NINDIRECT then do {
        let n = nblk - OSPFS_NDIRECT - OSPFS_NINDIRECT;
        (i2, s) \<leftarrow> getblk (field dirino 60 s) False BLOCK_BITS s;
        (i, s) \<leftarrow> getblk (cell_at i2 (4 * (n div OSPFS_NINDIRECT)) s) False BLOCK_BITS s;
        (d, s) \<leftarrow> getblk (cell_at i (4 * (n mod OSPFS_NINDIRECT)) s) False BLOCK_DIR s;
        Some (d, putblk i2 (putblk i s))
      }
      else if nblk \<ge> OSPFS_NDIRECT then do {
        (i, s) \<leftarrow> getblk (field dirino 56 s) False BLOCK_BITS s;
        (d, s) \<leftarrow> getblk (cell_at i (4 * (nblk - OSPFS_NDIRECT)) s) False BLOCK_DIR s;
        Some (d, putblk i s)
      }
      else getblk (field dirino (16 + 4 * nblk) s) False BLOCK_DIR s)"

definition free_entry :: "nat \<Rightarrow> fstate \<Rightarrow> nat option" where
  "free_entry d s = List.find (\<lambda>k. cell_at d k s = 0) (map (\<lambda>i. OSPFS_DIRENTRY_SIZE * i) [0..<8])"

text \<open>From the label \<open>new_dirb\<close> on; \<open>nblk\<close> is the index of the new block.\<close>

definition new_dirblock :: "cptr \<Rightarrow> nat \<Rightarrow> fstate \<Rightarrow> (cptr \<times> fstate) option" where
  "new_dirblock dirino nblk s = do {
     (d, s) \<leftarrow> newblk BLOCK_DIR s;
     s \<leftarrow> storeblk dirino d nblk (fold (\<lambda>i. set_cell d (OSPFS_DIRENTRY_SIZE * i) 0) [0..<8] s);
     let s = set_field dirino 0 (field dirino 0 s + OSPFS_BLKSIZE) s;
     if of_nat ((nblk + 1) * OSPFS_BLKSIZE) = field dirino 0 s then Some ((d, 0), s) else None
   }"

text \<open>
  The entry for a new name, with the name stored: its block is its first component.  The null
  pointer for a name that is too long is dereferenced by every caller, so it is \<open>None\<close> too.
\<close>

definition allocdirentry :: "cptr \<Rightarrow> u8 list \<Rightarrow> fstate \<Rightarrow> (cptr \<times> fstate) option" where
  "allocdirentry dirino name s =
     (if length name > OSPFS_MAXNAMELEN then None
      else do {
        let nb = unat ((field dirino 0 s + OSPFS_BLKSIZE - 1) div OSPFS_BLKSIZE);
        (de, s) \<leftarrow> (if nb = 0 then new_dirblock dirino 0 s
          else do {
            (d, s) \<leftarrow> dir_block dirino (nb - 1) s;
            (case free_entry d s of
               Some k \<Rightarrow> Some ((d, k), s)
             | None \<Rightarrow> new_dirblock dirino nb (putblk d s))
          });
        Some (de, set_bytes_at (fst de) (snd de + 4) (name @ [0]) s)
      })"

section \<open>Files and symbolic links\<close>

text \<open>
  The loop of \<open>writefile\<close> over what is left of the host file: the number of full blocks and the
  size of the last read.
\<close>

function write_blocks :: "cptr \<Rightarrow> nat \<Rightarrow> u8 list \<Rightarrow> fstate \<Rightarrow> (nat \<times> nat \<times> fstate) option" where
  "write_blocks ino nblk rest s = do {
     (b, s) \<leftarrow> getblk (nextb s) True BLOCK_FILE s;
     let n = min OSPFS_BLKSIZE (length rest);
     let s = set_bytes_at b 0 (take OSPFS_BLKSIZE rest) s;
     if rest = [] then Some (nblk, n, putblk b s)
     else do {
       s \<leftarrow> storeblk ino b nblk (s\<lparr>nextb := nextb s + 1\<rparr>);
       if n < OSPFS_BLKSIZE then Some (nblk, n, putblk b s)
       else write_blocks ino (nblk + 1) (drop OSPFS_BLKSIZE rest) (putblk b s)
     }
   }"
  by pat_completeness auto
termination by (relation "measure (\<lambda>(ino, nblk, rest, s). length rest)") auto

declare write_blocks.simps [simp del]

definition writefile ::
    "(u8 list \<Rightarrow> u8 list) \<Rightarrow> cptr \<Rightarrow> u8 list \<Rightarrow> 64 word \<Rightarrow> u32 \<Rightarrow> u8 list \<Rightarrow> fstate \<Rightarrow> fstate option" where
  "writefile md5 dirino name host_ino mode content s = do {
     (de, s) \<leftarrow> allocdirentry dirino name s;
     let digest = Some (md5 content);
     let linked = host_ino \<noteq> 0 \<or> link_contents s;
     let hardlink_ino = (if linked then get_hardlink host_ino digest s else 0);
     if hardlink_ino = 0 then do {
       (ino, p, s) \<leftarrow> allocinode (Some de) s;
       let s = set_field p 8 1 s;
       let s = (if linked then add_hardlink host_ino ino digest s else s);
       let s = set_field p 12 mode (set_field p 4 OSPFS_FTYPE_REG s);
       (nblk, n, s) \<leftarrow> write_blocks p 0 content s;
       let s = set_field p 0 (of_nat (nblk * OSPFS_BLKSIZE + n)) s;
       Some (putblk (fst p) (putblk (fst de) s))
     }
     else do {
       (p, s) \<leftarrow> inode_ptr hardlink_ino (set_field de 0 hardlink_ino s);
       let s = set_field p 8 (field p 8 s + 1) s;
       Some (putblk (fst p) (putblk (fst de) s))
     }
   }"

text \<open>
  \<open>strcpy\<close> of the target does not look at its length; past the end of the inode's block it is
  undefined.
\<close>

definition addsymlink :: "cptr \<Rightarrow> u8 list \<Rightarrow> u8 list \<Rightarrow> 64 word \<Rightarrow> fstate \<Rightarrow> fstate option" where
  "addsymlink dirino name linkbuf host_ino s = do {
     (de, s) \<leftarrow> allocdirentry dirino name s;
     let hardlink_ino = (if host_ino \<noteq> 0 then get_hardlink host_ino None s else 0);
     if hardlink_ino = 0 then do {
       (ino, p, s) \<leftarrow> allocinode (Some de) s;
       let s = set_field p 8 1 s;
       let s = (if host_ino \<noteq> 0 then add_hardlink host_ino ino None s else s);
       let s = set_field p 4 OSPFS_FTYPE_SYMLINK s;
       if snd p + 12 + length linkbuf \<ge> OSPFS_BLKSIZE then None
       else do {
         let s = set_bytes_at (fst p) (snd p + 12) (linkbuf @ [0]) s;
         let s = set_field p 0 (of_nat (length linkbuf)) s;
         Some (putblk (fst p) (putblk (fst de) s))
       }
     }
     else do {
       (p, s) \<leftarrow> inode_ptr hardlink_ino (set_field de 0 hardlink_ino s);
       let s = set_field p 8 (field p 8 s + 1) s;
       Some (putblk (fst p) (putblk (fst de) s))
     }
   }"

text \<open>A target that is too long is reported and left out.\<close>

definition writesymlink :: "cptr \<Rightarrow> u8 list \<Rightarrow> u8 list \<Rightarrow> 64 word \<Rightarrow> fstate \<Rightarrow> fstate option" where
  "writesymlink dirino name target host_ino s =
     (if length target > OSPFS_MAXSYMLINKLEN then Some s else addsymlink dirino name target host_ino s)"

section \<open>Directories\<close>

text \<open>
  The host's files as \<open>readdir\<close> and \<open>lstat\<close> show them: link count, inode number, mode and
  content; \<open>HOther\<close> is anything else, or an entry \<open>lstat\<close> fails for.
\<close>

datatype hnode =
    HReg nat "64 word" u32 "u8 list"
  | HDir u32 "(u8 list \<times> hnode) list"
  | HLnk nat "64 word" "u8 list"
  | HOther

definition skip_dir :: "u8 list \<Rightarrow> bool" where
  "skip_dir name =
     (let c = (\<lambda>k. if k < length name then name ! k else 0); len = length name
      in \<not> ((len > 1 \<or> c 0 \<noteq> 0x2E)
         \<and> (len > 2 \<or> c 0 \<noteq> 0x2E \<or> c 1 \<noteq> 0x2E)
         \<and> (len > 3 \<or> c 0 \<noteq> 0x43 \<or> c 1 \<noteq> 0x56 \<or> c 2 \<noteq> 0x53)
         \<and> (len > 4 \<or> c 0 \<noteq> 0x2E \<or> c 1 \<noteq> 0x73 \<or> c 2 \<noteq> 0x76 \<or> c 3 \<noteq> 0x6E)
         \<and> (len > 4 \<or> c 0 \<noteq> 0x2E \<or> c 1 \<noteq> 0x67 \<or> c 2 \<noteq> 0x69 \<or> c 3 \<noteq> 0x74)))"

definition open_directory :: "cptr \<Rightarrow> u8 list \<Rightarrow> u32 \<Rightarrow> fstate \<Rightarrow> (cptr \<times> cptr \<times> fstate) option" where
  "open_directory parent name mode s = do {
     (de, s) \<leftarrow> allocdirentry parent name s;
     (ino, p, s) \<leftarrow> allocinode (Some de) s;
     let s = set_field parent 8 (field parent 8 s + 1) s;
     let s = set_field p 12 mode (set_field p 8 1 (set_field p 0 0 (set_field p 4 OSPFS_FTYPE_DIR s)));
     Some (de, p, s)
   }"

text \<open>The loop of \<open>writedirectory\<close> over the entries of a host directory.\<close>

function write_entries :: "(u8 list \<Rightarrow> u8 list) \<Rightarrow> cptr \<Rightarrow> (u8 list \<times> hnode) list \<Rightarrow> fstate \<Rightarrow> fstate option" where
  "write_entries md5 dirino [] s = Some s"
| "write_entries md5 dirino ((name, HReg nlink ino mode content) # es) s = do {
     s \<leftarrow> writefile md5 dirino name (if nlink > 1 then ino else 0) mode content s;
     write_entries md5 dirino es s
   }"
| "write_entries md5 dirino ((name, HDir mode sub) # es) s = do {
     s \<leftarrow> (if skip_dir name then Some s
           else do {
             (de, p, s) \<leftarrow> open_directory dirino name mode s;
             s \<leftarrow> write_entries md5 p sub s;
             Some (putblk (fst p) (putblk (fst de) s))
           });
     write_entries md5 dirino es s
   }"
| "write_entries md5 dirino ((name, HLnk nlink ino target) # es) s = do {
     s \<leftarrow> writesymlink dirino name target (if nlink > 1 then ino else 0) s;
     write_entries md5 dirino es s
   }"
| "write_entries md5 dirino ((name, HOther) # es) s = write_entries md5 dirino es s"
  by pat_completeness auto
termination by (relation "measure (\<lambda>(md5, d, es, s). size_list (size_prod (\<lambda>_. 0) size) es)") auto

declare write_entries.simps [simp del]

section \<open>The free map and the superblock\<close>

definition clear_bit :: "nat \<Rightarrow> nat \<Rightarrow> fstate \<Rightarrow> fstate" where
  "clear_bit b i s =
     set_cell b (4 * (i mod 8192 div 32)) (cell_at b (4 * (i mod 8192 div 32)) s AND NOT (shl1 (i mod 32))) s"

definition finishfs :: "fstate \<Rightarrow> fstate option" where
  "finishfs s = do {
     s \<leftarrow> for_all (\<lambda>i s. do {
            (b, s) \<leftarrow> getblk (OSPFS_FREEMAP_BLK + of_nat (i div 8192)) False BLOCK_BITS s;
            Some (putblk b (clear_bit b i s))
          }) [0..<unat (nextb s)] s;
     s \<leftarrow> (if nblocks s \<noteq> nbitblock s * 8192 then do {
            (b, s) \<leftarrow> getblk (OSPFS_FREEMAP_BLK + nbitblock s - 1) False BLOCK_BITS s;
            Some (putblk b (fold (clear_bit b) [unat (nblocks s mod 8192)..<8192] s))
          }
          else Some s);
     (b, s) \<leftarrow> getblk 1 True BLOCK_SUPER s;
     Some (putblk b (set_cell b 12 (super_firstinob s) (set_cell b 8 (super_ninodes s)
       (set_cell b 4 (super_nblocks s) (set_cell b 0 0x013101AE s)))))
   }"

definition flushdisk :: "fstate \<Rightarrow> fstate" where
  "flushdisk s = fold (\<lambda>i s. if used (cache s ! i) \<noteq> 0 then flushb i s else s) [0..<16] s"

section \<open>The program\<close>

text \<open>What is to go on the image: a host directory (\<open>-r\<close>) or files, and links made with \<open>-l\<close>.\<close>

datatype image_source = From_tree "(u8 list \<times> hnode) list" | From_files "(u8 list \<times> u8 list) list"

definition last_component :: "u8 list \<Rightarrow> u8 list" where
  "last_component name = rev (takeWhile (\<lambda>c. c \<noteq> 0x2F) (rev name))"

definition initial_state :: "u32 \<Rightarrow> u32 \<Rightarrow> bool \<Rightarrow> fstate" where
  "initial_state nb ni lc =
     \<lparr>img = (\<lambda>_. 0), nblocks = nb, ninodes = ni, nbitblock = 0, nextb = 0, nextinode = 0, link_contents = lc,
      hardlinks = [], cache = replicate 16 empty_block, super_nblocks = 0, super_ninodes = 0, super_firstinob = 0, clock = 1\<rparr>"

text \<open>The inodes from \<open>nextinode\<close>, which is 0, up to that of the root, and the root's.\<close>

definition root_inode :: "fstate \<Rightarrow> (cptr \<times> fstate) option" where
  "root_inode s = do {
     s \<leftarrow> for_all (\<lambda>_ s. do {
            (ino, p, s) \<leftarrow> allocinode None s;
            Some (putblk (fst p) (set_field p 8 1 s))
          }) [unat (nextinode s)..<unat OSPFS_ROOT_INO] s;
     (ino, p, s) \<leftarrow> allocinode None s;
     if ino \<noteq> OSPFS_ROOT_INO then None
     else Some (p, set_field p 12 0x1FF (set_field p 8 1 (set_field p 4 OSPFS_FTYPE_DIR s)))
   }"

definition write_source :: "(u8 list \<Rightarrow> u8 list) \<Rightarrow> cptr \<Rightarrow> image_source \<Rightarrow> fstate \<Rightarrow> fstate option" where
  "write_source md5 root src s =
     (case src of
        From_tree es \<Rightarrow> write_entries md5 root es s
      | From_files [] \<Rightarrow> None
      | From_files fs \<Rightarrow> for_all (\<lambda>(name, content). writefile md5 root (last_component name) 0 0x1B6 content) fs s)"

text \<open>
  \<open>main\<close> after its options: the image it leaves.  Without a file argument it passes a null
  pointer to \<open>strcmp\<close>.
\<close>

definition ospfsformat :: "(u8 list \<Rightarrow> u8 list) \<Rightarrow> bool \<Rightarrow> u32 \<Rightarrow> u32 \<Rightarrow> image_source \<Rightarrow> (u8 list \<times> u8 list) list \<Rightarrow> mem option" where
  "ospfsformat md5 lc nb ni src links =
     (if nb < 2 \<or> nb > 8192 \<or> ni < 2 \<or> ni \<ge> nb - 2 - nb div 8192 then None
      else do {
        s \<leftarrow> opendisk (initial_state nb ni lc);
        (root, s) \<leftarrow> root_inode s;
        s \<leftarrow> write_source md5 root src s;
        s \<leftarrow> for_all (\<lambda>(destination, source). addsymlink root destination source 0) links s;
        s \<leftarrow> finishfs (putblk (fst root) s);
        Some (img (flushdisk s))
      })"

end
