(* ===== verification/Ospfs_Cache.thy ===== *)
theory Ospfs_Cache
  imports Ospfs_Format
begin

text \<open>
  The block cache of the formatter as a flat image: the invariant \<open>cache_ok\<close> of the sixteen
  entries, the image \<open>view\<close> the program sees (cached blocks in place of those in the file), and
  the specification of \<open>getblk\<close>, \<open>putblk\<close>, \<open>flushb\<close> and of writes to cells over it, with the
  bookkeeping of the blocks that are in use.
\<close>

section \<open>Byte order\<close>

lemma swizzle_id [simp]: "swizzle x m = m"
proof -
  have "swizzle x m = put32 m x (get32 m x)" by (simp add: swizzle_def put32_def Let_def)
  then show ?thesis by simp
qed

lemma fold_id: "(\<And>x. x \<in> set xs \<Longrightarrow> f x = id) \<Longrightarrow> fold f xs = id"
  by (induction xs) auto

lemma swizzleinode_id [simp]: "swizzleinode p = id"
proof
  fix m show "swizzleinode p m = id m"
    by (simp add: swizzleinode_def fold_id [where f = "\<lambda>i. swizzle (p + 16 + 4 * i)"] fun_eq_iff)
qed

text \<open>On a little-endian host the byte order of a block is that of the image.\<close>

lemma swizzleblock_id [simp]: "swizzleblock b = b"
proof -
  have 1: "fold (\<lambda>i. swizzledirentry (128 * i)) xs m = m" for xs m by (induction xs arbitrary: m) (auto simp: swizzledirentry_def)
  have 2: "fold (\<lambda>i. swizzle (4 * i)) xs m = m" for xs m by (induction xs arbitrary: m) auto
  have 3: "fold (\<lambda>i. swizzleinode (64 * i)) xs m = m" for xs m by (induction xs arbitrary: m) auto
  show ?thesis unfolding swizzleblock_def 1 2 3 by (simp split: block_type.split)
qed

section \<open>The cache as a flat image\<close>

text \<open>The image as the program sees it: the cached blocks in place of those on disk.\<close>

definition cached :: "fstate \<Rightarrow> nat \<Rightarrow> cblock option" where
  "cached s n = List.find (\<lambda>b. used b \<noteq> 0 \<and> unat (bno b) = n) (cache s)"

definition view :: "fstate \<Rightarrow> mem" where
  "view s = (\<lambda>a. case cached s (a div 1024) of None \<Rightarrow> img s a | Some b \<Rightarrow> data b (a mod 1024))"

definition entry_ok :: "u32 \<Rightarrow> cblock \<Rightarrow> bool" where
  "entry_ok nb b \<longleftrightarrow> (if used b = 0 then bno b = 0 \<and> busy b = 0 else bno b \<noteq> 0 \<and> bno b < nb)"

definition cache_ok :: "fstate \<Rightarrow> bool" where
  "cache_ok s \<longleftrightarrow> length (cache s) = 16 \<and> nblocks s \<le> 8192 \<and> (\<forall>b\<in>set (cache s). entry_ok (nblocks s) b)
     \<and> (\<forall>i j. i < 16 \<longrightarrow> j < 16 \<longrightarrow> used (cache s ! i) \<noteq> 0 \<longrightarrow> bno (cache s ! i) = bno (cache s ! j) \<longrightarrow> i = j)"

text \<open>Entry \<open>i\<close> holds block \<open>n\<close> and is busy, so it will not be evicted.\<close>

definition holds :: "fstate \<Rightarrow> nat \<Rightarrow> u32 \<Rightarrow> bool" where
  "holds s i n \<longleftrightarrow> i < 16 \<and> bno (cache s ! i) = n \<and> busy (cache s ! i) \<noteq> 0"

lemma cache_ok_length: "cache_ok s \<Longrightarrow> length (cache s) = 16"
  by (simp add: cache_ok_def)

lemma cache_ok_entry: "cache_ok s \<Longrightarrow> i < 16 \<Longrightarrow> entry_ok (nblocks s) (cache s ! i)"
  by (simp add: cache_ok_def)

lemma cache_ok_unique: "cache_ok s \<Longrightarrow> i < 16 \<Longrightarrow> j < 16 \<Longrightarrow> used (cache s ! i) \<noteq> 0 \<Longrightarrow> bno (cache s ! i) = bno (cache s ! j) \<Longrightarrow> i = j"
  unfolding cache_ok_def by blast

lemma cached_Some:
  assumes "cache_ok s" "i < 16" "used (cache s ! i) \<noteq> 0" "unat (bno (cache s ! i)) = n"
  shows "cached s n = Some (cache s ! i)"
  unfolding cached_def find_Some_iff
proof (intro exI conjI allI impI)
  show "i < length (cache s)" using assms(2) cache_ok_length [OF assms(1)] by simp
  fix j assume j: "j < i"
  show "\<not> (used (cache s ! j) \<noteq> 0 \<and> unat (bno (cache s ! j)) = n)"
  proof
    assume *: "used (cache s ! j) \<noteq> 0 \<and> unat (bno (cache s ! j)) = n"
    then have "bno (cache s ! j) = bno (cache s ! i)" using assms(4) by (simp add: word_unat_eq_iff)
    with cache_ok_unique [OF assms(1) _ assms(2), of j] * j assms(2) show False by simp
  qed
qed (use assms in simp_all)

lemma cached_None:
  assumes "length (cache s) = 16" "\<And>i. i < 16 \<Longrightarrow> used (cache s ! i) \<noteq> 0 \<Longrightarrow> unat (bno (cache s ! i)) \<noteq> n"
  shows "cached s n = None"
  using assms unfolding cached_def find_None_iff by (metis in_set_conv_nth)

lemma cachedE:
  assumes "cache_ok s"
  obtains (out) "cached s n = None" "\<And>i. i < 16 \<Longrightarrow> used (cache s ! i) \<noteq> 0 \<Longrightarrow> unat (bno (cache s ! i)) \<noteq> n"
  | (held) i where "i < 16" "used (cache s ! i) \<noteq> 0" "unat (bno (cache s ! i)) = n" "cached s n = Some (cache s ! i)"
proof (cases "\<exists>i. i < 16 \<and> used (cache s ! i) \<noteq> 0 \<and> unat (bno (cache s ! i)) = n")
  case True
  then obtain i where i: "i < 16" "used (cache s ! i) \<noteq> 0" "unat (bno (cache s ! i)) = n" by blast
  show thesis by (rule held [OF i cached_Some [OF assms i]])
next
  case False
  then have *: "unat (bno (cache s ! i)) \<noteq> n" if "i < 16" "used (cache s ! i) \<noteq> 0" for i using that by blast
  show thesis by (rule out [OF cached_None [OF cache_ok_length [OF assms] *] *])
qed

text \<open>The view at a block that an entry holds.\<close>

lemma view_held:
  assumes "cache_ok s" "i < 16" "used (cache s ! i) \<noteq> 0" "k < 1024"
  shows "view s (unat (bno (cache s ! i)) * 1024 + k) = data (cache s ! i) k"
  using cached_Some [OF assms(1-3) refl] assms(4) by (simp add: view_def)

text \<open>Changing one entry without changing which block it holds.\<close>

lemma cache_ok_update:
  assumes "cache_ok s" "i < 16" "bno b' = bno (cache s ! i)" "used (cache s ! i) \<noteq> 0" "used b' \<noteq> 0"
  shows "cache_ok (s\<lparr>cache := (cache s)[i := b']\<rparr>)"
proof -
  have "entry_ok (nblocks s) b'" using cache_ok_entry [OF assms(1,2)] assms by (simp add: entry_ok_def)
  then have 1: "\<forall>b\<in>set ((cache s)[i := b']). entry_ok (nblocks s) b"
    using assms(1) set_update_subset_insert [of "cache s" i b'] by (auto simp: cache_ok_def)
  have 2: "bno ((cache s)[i := b'] ! j) = bno (cache s ! j)" "used ((cache s)[i := b'] ! j) = 0 \<longleftrightarrow> used (cache s ! j) = 0"
    if "j < 16" for j
    using that assms cache_ok_length [OF assms(1)] by (auto simp: nth_list_update)
  have 3: "\<forall>j k. j < 16 \<longrightarrow> k < 16 \<longrightarrow> used ((cache s)[i := b'] ! j) \<noteq> 0 \<longrightarrow>
      bno ((cache s)[i := b'] ! j) = bno ((cache s)[i := b'] ! k) \<longrightarrow> j = k"
  proof (intro allI impI)
    fix j k assume "j < 16" "k < 16" "used ((cache s)[i := b'] ! j) \<noteq> 0" "bno ((cache s)[i := b'] ! j) = bno ((cache s)[i := b'] ! k)"
    then show "j = k" using cache_ok_unique [OF assms(1), of j k] 2 by metis
  qed
  show ?thesis using 1 3 assms(1) unfolding cache_ok_def by simp
qed

lemma cached_update:
  assumes "cache_ok s" "i < 16" "bno b' = bno (cache s ! i)" "used (cache s ! i) \<noteq> 0" "used b' \<noteq> 0"
  shows "cached (s\<lparr>cache := (cache s)[i := b']\<rparr>) n = (if n = unat (bno b') then Some b' else cached s n)"
proof -
  let ?s = "s\<lparr>cache := (cache s)[i := b']\<rparr>"
  note ok = cache_ok_update [OF assms]
  have len: "length (cache s) = 16" using cache_ok_length [OF assms(1)] .
  have at: "cache ?s ! j = (if j = i then b' else cache s ! j)" for j
    using len assms(2) by (simp add: nth_list_update)
  show ?thesis
  proof (cases "n = unat (bno b')")
    case True
    have "cached ?s n = Some (cache ?s ! i)"
      by (rule cached_Some [OF ok assms(2)]) (use True assms(5) at in simp_all)
    with True at show ?thesis by simp
  next
    case False
    from assms(1) show ?thesis
    proof (cases rule: cachedE [where n = n])
      case out
      have "cached ?s n = None"
        by (rule cached_None) (use out(2) at False len in \<open>simp_all split: if_splits\<close>)
      with False out show ?thesis by simp
    next
      case (held j)
      then have "j \<noteq> i" using False assms(3) by auto
      have "cached ?s n = Some (cache ?s ! j)"
        by (rule cached_Some [OF ok held(1)]) (use held at \<open>j \<noteq> i\<close> in simp_all)
      with False held at \<open>j \<noteq> i\<close> show ?thesis by simp
    qed
  qed
qed

lemma view_update:
  assumes "cache_ok s" "i < 16" "bno b' = bno (cache s ! i)" "used (cache s ! i) \<noteq> 0" "used b' \<noteq> 0"
  shows "view (s\<lparr>cache := (cache s)[i := b']\<rparr>) a
    = (if a div 1024 = unat (bno b') then data b' (a mod 1024) else view s a)"
  using cached_update [OF assms, of "a div 1024"] by (simp add: view_def split: option.split)

section \<open>The specification of getblk and putblk\<close>

lemma other_block: "a div 1024 \<noteq> k \<Longrightarrow> a < k * 1024 \<or> k * 1024 + 1024 \<le> (a :: nat)"
  by (rule ccontr) (auto intro: div_nat_eqI)

lemma holds_used: "cache_ok s \<Longrightarrow> holds s i n \<Longrightarrow> used (cache s ! i) \<noteq> 0 \<and> n \<noteq> 0 \<and> n < nblocks s"
  using cache_ok_entry [of s i] by (auto simp: holds_def entry_ok_def split: if_splits)

lemma block_addr: "n < nb \<Longrightarrow> nb \<le> (8192 :: u32) \<Longrightarrow> unat (n * 1024) = unat n * 1024"
  by (simp add: word_less_nat_alt word_le_nat_alt unat_word_ariths)

text \<open>Replacing an entry that is not busy by one for a block that is not in the cache.\<close>

lemma replace_entry:
  fixes m :: mem and c :: nat
  assumes ok: "cache_ok s" and i: "i < 16" and n: "n \<noteq> 0" "n < nblocks s" "\<And>j. j < 16 \<Longrightarrow> bno (cache s ! j) \<noteq> n"
    and b': "bno b' = n" "used b' \<noteq> 0"
  defines "s' \<equiv> s\<lparr>img := m, cache := (cache s)[i := b'], clock := c\<rparr>"
  shows "cache_ok s'"
    "cached s' k = (if k = unat n then Some b' else if used (cache s ! i) \<noteq> 0 \<and> k = unat (bno (cache s ! i)) then None else cached s k)"
proof -
  have len: "length (cache s) = 16" using cache_ok_length [OF ok] .
  have at: "cache s' ! j = (if j = i then b' else cache s ! j)" for j
    using len i by (simp add: s'_def nth_list_update)
  have 1: "\<forall>b\<in>set (cache s'). entry_ok (nblocks s') b"
    using ok b' n(1,2) set_update_subset_insert [of "cache s" i b'] by (auto simp: cache_ok_def s'_def entry_ok_def)
  have 2: "\<forall>j k. j < 16 \<longrightarrow> k < 16 \<longrightarrow> used (cache s' ! j) \<noteq> 0 \<longrightarrow> bno (cache s' ! j) = bno (cache s' ! k) \<longrightarrow> j = k"
  proof (intro allI impI)
    fix j k assume "j < 16" "k < 16" "used (cache s' ! j) \<noteq> 0" "bno (cache s' ! j) = bno (cache s' ! k)"
    then show "j = k" using cache_ok_unique [OF ok, of j k] n(3) [of j] n(3) [of k] b'(1) unfolding at
      by (cases "j = i"; cases "k = i") simp_all
  qed
  show ok': "cache_ok s'" using 1 2 ok len unfolding cache_ok_def by (simp add: s'_def)
  show "cached s' k = (if k = unat n then Some b' else if used (cache s ! i) \<noteq> 0 \<and> k = unat (bno (cache s ! i)) then None else cached s k)"
  proof (cases "k = unat n")
    case True
    have "cached s' k = Some (cache s' ! i)" by (rule cached_Some [OF ok' i]) (use True b' at in simp_all)
    with True at show ?thesis by simp
  next
    case kn: False
    have len': "length (cache s') = 16" using len by (simp add: s'_def)
    show ?thesis
    proof (cases "used (cache s ! i) \<noteq> 0 \<and> k = unat (bno (cache s ! i))")
      case True
      have "cached s' k = None"
      proof (rule cached_None [OF len'])
        fix j assume j: "j < 16" "used (cache s' ! j) \<noteq> 0"
        show "unat (bno (cache s' ! j)) \<noteq> k"
        proof
          assume *: "unat (bno (cache s' ! j)) = k"
          then have "j \<noteq> i" using kn b'(1) at by auto
          then have "used (cache s ! j) \<noteq> 0" "bno (cache s ! j) = bno (cache s ! i)"
            using j(2) * True at by (simp_all add: word_unat_eq_iff)
          with cache_ok_unique [OF ok j(1) i] \<open>j \<noteq> i\<close> show False by blast
        qed
      qed
      with True kn show ?thesis by simp
    next
      case F: False
      from ok show ?thesis
      proof (cases rule: cachedE [where n = k])
        case out
        have "cached s' k = None"
          by (rule cached_None [OF len']) (use out(2) at kn b'(1) in \<open>simp split: if_splits\<close>)
        with out kn F show ?thesis by simp
      next
        case (held j)
        then have "j \<noteq> i" using F by auto
        have "cached s' k = Some (cache s' ! j)"
          by (rule cached_Some [OF ok' held(1)]) (use held at \<open>j \<noteq> i\<close> in simp_all)
        with held at \<open>j \<noteq> i\<close> kn F show ?thesis by simp
      qed
    qed
  qed
qed

lemma search_cache_result:
  "case search_cache n bs i least of
     Inl j \<Rightarrow> i \<le> j \<and> j < i + length bs \<and> bno (bs ! (j - i)) = n
   | Inr r \<Rightarrow> (\<forall>b\<in>set bs. bno b \<noteq> n) \<and>
       (\<forall>l u. r = Some (l, u) \<longrightarrow> least = Some (l, u) \<or> i \<le> l \<and> l < i + length bs \<and> busy (bs ! (l - i)) = 0)"
proof (induction n bs i least rule: search_cache.induct)
  case (2 n b bs i least)
  show ?case
  proof (cases "bno b = n")
    case False
    let ?least = "if busy b = 0 \<and> (case least of None \<Rightarrow> True | Some (l, u) \<Rightarrow> used b < u) then Some (i, used b) else least"
    from 2 [OF False] False show ?thesis
      by (auto simp: nth_Cons' split: sum.splits if_splits)
  qed simp
qed simp

text \<open>How the busy counts move, and that busy entries keep their blocks and types.\<close>

definition same_pins :: "fstate \<Rightarrow> fstate \<Rightarrow> bool" where
  "same_pins s s' \<longleftrightarrow> (\<forall>j<16. busy (cache s' ! j) = busy (cache s ! j) \<and> (busy (cache s ! j) \<noteq> 0 \<longrightarrow> bno (cache s' ! j) = bno (cache s ! j) \<and> btype (cache s' ! j) = btype (cache s ! j)))"

definition one_pin :: "nat \<Rightarrow> fstate \<Rightarrow> fstate \<Rightarrow> bool" where
  "one_pin i s s' \<longleftrightarrow> i < 16 \<and> (\<forall>j<16. busy (cache s' ! j) = busy (cache s ! j) + (if j = i then 1 else 0)
     \<and> (busy (cache s ! j) \<noteq> 0 \<longrightarrow> bno (cache s' ! j) = bno (cache s ! j) \<and> btype (cache s' ! j) = btype (cache s ! j)))"

text \<open>The variables other than the cache and the image.\<close>

definition globals :: "fstate \<Rightarrow> (u32 \<times> u32 \<times> u32 \<times> u32 \<times> u32) \<times> bool \<times> hardlink list \<times> u32 \<times> u32 \<times> u32" where
  "globals s = ((nblocks s, ninodes s, nbitblock s, nextb s, nextinode s), link_contents s, hardlinks s,
     super_nblocks s, super_ninodes s, super_firstinob s)"

definition same_globals :: "fstate \<Rightarrow> fstate \<Rightarrow> bool" where
  "same_globals s s' \<longleftrightarrow> globals s' = globals s"

lemma getblk_hit:
  assumes ok: "cache_ok s" and n: "n \<noteq> 0" and i: "i < 16" "bno (cache s ! i) = n" and t: "take_block i clr ty s = Some (i', s')"
  shows "cache_ok s' \<and> one_pin i' s s' \<and> holds s' i' n \<and> same_globals s s' \<and> view s' = (if clr then zero_block (view s) n else view s)"
proof -
  have e: "used (cache s ! i) \<noteq> 0" "n < nblocks s" using cache_ok_entry [OF ok i(1)] i(2) n by (auto simp: entry_ok_def split: if_splits)
  define b' where "b' = (if clr then (cache s ! i)\<lparr>data := (\<lambda>_. 0)\<rparr> else cache s ! i)\<lparr>used := clock s + 1, busy := busy (cache s ! i) + 1, btype := ty\<rparr>"
  have s': "s' = s\<lparr>cache := (cache s)[i := b'], clock := clock s + 1\<rparr>" "i' = i"
    using t by (auto simp: take_block_def b'_def Let_def split: if_splits)
  have b': "bno b' = bno (cache s ! i)" "used b' \<noteq> 0" "busy b' = busy (cache s ! i) + 1"
    "data b' = (if clr then (\<lambda>_. 0) else data (cache s ! i))" by (simp_all add: b'_def)
  have bt: "btype b' = btype (cache s ! i)" if "busy (cache s ! i) \<noteq> 0"
    using t that by (auto simp: take_block_def b'_def Let_def split: if_splits)
  let ?s = "s\<lparr>cache := (cache s)[i := b']\<rparr>"
  have cv: "cache_ok s' = cache_ok ?s" "view s' = view ?s"
    by (simp_all add: s' cache_ok_def view_def cached_def fun_eq_iff split: option.split)
  have len: "length (cache s) = 16" using cache_ok_length [OF ok] .
  have at: "cache s' ! j = (if j = i then b' else cache s ! j)" for j using len i by (simp add: s' nth_list_update)
  have nb: "nblocks s \<le> 8192" using ok by (simp add: cache_ok_def)
  have "view s' a = (if clr then zero_block (view s) n else view s) a" for a
  proof (cases "a div 1024 = unat n")
    case True
    have a: "a = unat n * 1024 + a mod 1024" using True by (metis div_mult_mod_eq)
    then have "view s a = data (cache s ! i) (a mod 1024)"
      using view_held [OF ok i(1) e(1), of "a mod 1024"] i(2) by simp
    moreover have "unat n * 1024 \<le> a" "a < unat n * 1024 + 1024" using a by (metis le_add1, metis add_less_cancel_left mod_less_divisor zero_less_numeral)
    ultimately show ?thesis
      using True b' i(2) block_addr [OF e(2) nb]
      unfolding cv(2) view_update [OF ok i(1) b'(1) e(1) b'(2)]
      by (simp add: zero_block_def ospfs_block_def mem_fill_def)
  next
    case False
    from other_block [OF this] show ?thesis
      using False b' i(2) block_addr [OF e(2) nb]
      unfolding cv(2) view_update [OF ok i(1) b'(1) e(1) b'(2)]
      by (auto simp: zero_block_def ospfs_block_def mem_fill_def)
  qed
  then have "view s' = (if clr then zero_block (view s) n else view s)" by blast
  moreover have "cache_ok s'" unfolding cv(1) by (rule cache_ok_update [OF ok i(1) b'(1) e(1) b'(2)])
  moreover have "one_pin i' s s'" "holds s' i' n" "same_globals s s'"
    using i b' bt s'(2) at by (simp_all add: one_pin_def holds_def same_globals_def) (simp add: s' globals_def)
  ultimately show ?thesis by blast
qed

lemma flushb_eq: "length (cache s) = 16 \<Longrightarrow> i < 16 \<Longrightarrow> flushb i s = s\<lparr>img := store_image (bno (cache s ! i)) (data (cache s ! i)) (img s)\<rparr>"
  by (simp add: flushb_def Let_def)

lemma store_image_byte:
  assumes "n < nb" "nb \<le> 8192"
  shows "store_image n d m a = (if a div 1024 = unat n then d (a mod 1024) else m a)"
proof (cases "a div 1024 = unat n")
  case True
  then have "a = unat n * 1024 + a mod 1024" by (metis div_mult_mod_eq)
  then have "unat n * 1024 \<le> a" "a < unat n * 1024 + 1024" "a - unat n * 1024 = a mod 1024"
    by (metis le_add1, metis add_less_cancel_left mod_less_divisor zero_less_numeral, metis add_diff_cancel_left')
  with True show ?thesis by (simp add: store_image_def mem_write_byte block_addr [OF assms])
next
  case False
  from other_block [OF this] have "store_image n d m a = m a"
    unfolding store_image_def mem_write_byte block_addr [OF assms] by auto
  with False show ?thesis by simp
qed

lemma getblk_miss:
  assumes ok: "cache_ok s" and n: "n \<noteq> 0" "n < nblocks s" "\<And>j. j < 16 \<Longrightarrow> bno (cache s ! j) \<noteq> n"
    and i: "i < 16" "busy (cache s ! i) = 0" and t: "take_block i clr ty (load_block i n clr ty s) = Some (i', s')"
  shows "cache_ok s' \<and> one_pin i' s s' \<and> holds s' i' n \<and> same_globals s s' \<and> view s' = (if clr then zero_block (view s) n else view s)"
proof -
  have len: "length (cache s) = 16" using cache_ok_length [OF ok] .
  have nb: "nblocks s \<le> 8192" using ok by (simp add: cache_ok_def)
  let ?old = "cache s ! i"
  define m where "m = (if used ?old \<noteq> 0 then store_image (bno ?old) (data ?old) (img s) else img s)"
  define b' where "b' = (if clr then ?old\<lparr>bno := n, data := (\<lambda>_. 0), used := clock s + 1, busy := 1, btype := ty\<rparr>
     else ?old\<lparr>data := image_block m n, bno := n, used := clock s + 1, busy := 1, btype := ty\<rparr>)"
  have s': "s' = s\<lparr>img := m, cache := (cache s)[i := b'], clock := clock s + 1\<rparr>" "i' = i"
    using t len i(1)
    by (auto simp: take_block_def load_block_def upd_block_def m_def b'_def flushb_eq Let_def
        intro!: fstate.equality arg_cong [where f = "\<lambda>b. (cache s)[i := b]"] cblock.equality split: if_splits)
  have b': "bno b' = n" "used b' \<noteq> 0" "busy b' = 1" "data b' = (if clr then (\<lambda>_. 0) else image_block m n)" by (simp_all add: b'_def)
  note r = replace_entry [OF ok i(1) n b'(1,2), where m = m and c = "clock s + 1", folded s'(1)]
  have at: "cache s' ! j = (if j = i then b' else cache s ! j)" for j using len i by (simp add: s' nth_list_update)
  have old: "bno ?old < nblocks s" "bno ?old \<noteq> n" if "used ?old \<noteq> 0"
    using cache_ok_entry [OF ok i(1)] that n(3) [OF i(1)] by (simp_all add: entry_ok_def)
  have m: "m a = (if used ?old \<noteq> 0 \<and> a div 1024 = unat (bno ?old) then data ?old (a mod 1024) else img s a)" for a
    using store_image_byte [OF old(1) nb] by (auto simp: m_def)
  have "view s' a = (if clr then zero_block (view s) n else view s) a" for a
  proof (cases "a div 1024 = unat n")
    case True
    have a: "a = unat n * 1024 + a mod 1024" using True by (metis div_mult_mod_eq)
    then have ran: "unat n * 1024 \<le> a" "a < unat n * 1024 + 1024" by (metis le_add1, metis add_less_cancel_left mod_less_divisor zero_less_numeral)
    have v': "view s' a = data b' (a mod 1024)" using r(2) [of "a div 1024"] True by (simp add: view_def)
    have "cached s (unat n) = None"
      by (rule cached_None [OF len]) (use n(3) in \<open>auto simp: word_unat_eq_iff\<close>)
    then have v: "view s a = img s a" using True by (simp add: view_def)
    have "used ?old \<noteq> 0 \<Longrightarrow> a div 1024 \<noteq> unat (bno ?old)" using True old(2) by (auto simp: word_unat_eq_iff)
    then have "m a = img s a" using m [of a] by auto
    moreover have "image_block m n (a mod 1024) = m a"
      using a by (simp add: image_block_def block_addr [OF n(2) nb])
    ultimately show ?thesis
      using v v' b'(4) ran by (simp add: zero_block_def ospfs_block_def mem_fill_def block_addr [OF n(2) nb])
  next
    case False
    note nr = other_block [OF False]
    have "view s' a = view s a"
    proof (cases "used ?old \<noteq> 0 \<and> a div 1024 = unat (bno ?old)")
      case True
      have "cached s (a div 1024) = Some ?old" by (rule cached_Some [OF ok i(1)]) (use True in simp_all)
      with True False r(2) [of "a div 1024"] m [of a] show ?thesis by (simp add: view_def s'(1))
    next
      case F: False
      have c: "cached s' (a div 1024) = cached s (a div 1024)" using r(2) [of "a div 1024"] F False by auto
      have ma: "m a = img s a" using m [of a] F by auto
      have "img s' a = img s a" using ma by (simp add: s'(1))
      with c show ?thesis by (simp add: view_def split: option.split)
    qed
    with nr show ?thesis by (auto simp: zero_block_def ospfs_block_def mem_fill_def block_addr [OF n(2) nb])
  qed
  then have "view s' = (if clr then zero_block (view s) n else view s)" by blast
  moreover have "one_pin i' s s'" "holds s' i' n" "same_globals s s'"
    using i b' s'(2) at by (simp_all add: one_pin_def holds_def same_globals_def) (simp add: s' globals_def)
  ultimately show ?thesis using r(1) by blast
qed

lemma getblk_spec:
  assumes ok: "cache_ok s" and n: "n \<noteq> 0" and g: "getblk n clr ty s = Some (i, s')"
  shows "cache_ok s'" "one_pin i s s'" "holds s' i n" "same_globals s s'" "view s' = (if clr then zero_block (view s) n else view s)"
    "n < nblocks s"
proof -
  have lt: "n < nblocks s" using g by (auto simp: getblk_def split: if_splits)
  then have nle: "\<not> nblocks s \<le> n" by simp
  have len: "length (cache s) = 16" using cache_ok_length [OF ok] .
  note r = search_cache_result [where n = n and bs = "cache s" and i = 0 and least = None]
  have "cache_ok s' \<and> one_pin i s s' \<and> holds s' i n \<and> same_globals s s' \<and> view s' = (if clr then zero_block (view s) n else view s)"
  proof (cases "search_cache n (cache s) 0 None")
    case (Inl j)
    with r len have "j < 16" "bno (cache s ! j) = n" by auto
    moreover have "take_block j clr ty s = Some (i, s')" using g nle Inl by (simp add: getblk_def)
    ultimately show ?thesis by (rule getblk_hit [OF ok n])
  next
    case (Inr o')
    with g nle obtain l u where l: "o' = Some (l, u)" "take_block l clr ty (load_block l n clr ty s) = Some (i, s')"
      by (auto simp: getblk_def split: option.splits if_splits)
    from r Inr l len have "l < 16" "busy (cache s ! l) = 0" and no: "\<forall>b\<in>set (cache s). bno b \<noteq> n" by auto
    moreover have "bno (cache s ! j) \<noteq> n" if "j < 16" for j using no len that by simp
    ultimately show ?thesis by (intro getblk_miss [OF ok n lt _ _ _ l(2)])
  qed
  then show "cache_ok s'" "one_pin i s s'" "holds s' i n" "same_globals s s'" "view s' = (if clr then zero_block (view s) n else view s)"
    by blast+
  show "n < nblocks s" by (rule lt)
qed

lemma getblk_btype:
  assumes "cache_ok s" "n \<noteq> 0" "getblk n clr ty s = Some (i, s')" shows "btype (cache s' ! i) = ty"
proof -
  note G = getblk_spec [OF assms]
  have "i < length (cache s')" using cache_ok_length [OF G(1)] G(3) by (simp add: holds_def)
  then show ?thesis
    using assms(3) by (auto simp: getblk_def take_block_def Let_def split: if_splits sum.splits option.splits prod.splits)
qed

section \<open>Cells and releases\<close>

definition addr :: "fstate \<Rightarrow> cptr \<Rightarrow> nat" where
  "addr s p = unat (bno (cache s ! fst p)) * 1024 + snd p"

text \<open>The entry of the pointer is busy, and there is room for an inode (or an entry's cell) behind it.\<close>

definition pinned :: "fstate \<Rightarrow> nat \<Rightarrow> bool" where
  "pinned s i \<longleftrightarrow> i < 16 \<and> busy (cache s ! i) \<noteq> 0"

lemma pinned_used: "cache_ok s \<Longrightarrow> pinned s i \<Longrightarrow> used (cache s ! i) \<noteq> 0"
  using cache_ok_entry [of s i] by (auto simp: pinned_def entry_ok_def split: if_splits)

lemma pinned_bno: "cache_ok s \<Longrightarrow> pinned s i \<Longrightarrow> bno (cache s ! i) \<noteq> 0 \<and> bno (cache s ! i) < nblocks s"
  using cache_ok_entry [of s i] by (auto simp: pinned_def entry_ok_def split: if_splits)

lemma holds_pinned: "holds s i n \<Longrightarrow> pinned s i \<and> bno (cache s ! i) = n"
  by (simp add: holds_def pinned_def)

lemma same_globals_simps:
  assumes "same_globals s s'"
  shows "nblocks s' = nblocks s" "ninodes s' = ninodes s" "nbitblock s' = nbitblock s" "nextb s' = nextb s" "nextinode s' = nextinode s"
    "link_contents s' = link_contents s" "hardlinks s' = hardlinks s" "super_nblocks s' = super_nblocks s"
    "super_ninodes s' = super_ninodes s" "super_firstinob s' = super_firstinob s"
  using assms by (simp_all add: same_globals_def globals_def)

lemma same_globals_trans: "same_globals s s1 \<Longrightarrow> same_globals s1 s2 \<Longrightarrow> same_globals s s2"
  by (simp add: same_globals_def)

lemma same_pins_refl [simp]: "same_pins s s" by (simp add: same_pins_def)

lemma same_pins_trans: "same_pins s s1 \<Longrightarrow> same_pins s1 s2 \<Longrightarrow> same_pins s s2"
  unfolding same_pins_def by metis

lemma same_pins_pinned: "same_pins s s' \<Longrightarrow> pinned s i \<Longrightarrow> pinned s' i \<and> bno (cache s' ! i) = bno (cache s ! i)"
  unfolding same_pins_def pinned_def by auto

lemma one_pin_pinned: "one_pin j s s' \<Longrightarrow> pinned s i \<Longrightarrow> pinned s' i \<and> bno (cache s' ! i) = bno (cache s ! i)"
  unfolding one_pin_def pinned_def by auto

text \<open>Changing the data of a pinned entry.\<close>

definition set_data :: "nat \<Rightarrow> mem \<Rightarrow> fstate \<Rightarrow> fstate" where
  "set_data i d s = upd_block i (\<lambda>b. b\<lparr>data := d\<rparr>) s"

lemma set_data_spec:
  assumes "cache_ok s" "pinned s i"
  shows "cache_ok (set_data i d s)" "same_pins s (set_data i d s)" "same_globals s (set_data i d s)"
    "view (set_data i d s) a = (if a div 1024 = unat (bno (cache s ! i)) then d (a mod 1024) else view s a)"
    "cache (set_data i d s) ! i = (cache s ! i)\<lparr>data := d\<rparr>"
proof -
  let ?b = "(cache s ! i)\<lparr>data := d\<rparr>"
  have i: "i < 16" using assms(2) by (simp add: pinned_def)
  note u = pinned_used [OF assms]
  have eq: "set_data i d s = s\<lparr>cache := (cache s)[i := ?b]\<rparr>" by (simp add: set_data_def upd_block_def)
  note len = cache_ok_length [OF assms(1)]
  have *: "bno ?b = bno (cache s ! i)" "used ?b \<noteq> 0" using u by simp_all
  show "cache_ok (set_data i d s)" unfolding eq by (rule cache_ok_update [OF assms(1) i *(1) u *(2)])
  show "view (set_data i d s) a = (if a div 1024 = unat (bno (cache s ! i)) then d (a mod 1024) else view s a)"
    unfolding eq view_update [OF assms(1) i *(1) u *(2)] by simp
  show "same_pins s (set_data i d s)" unfolding eq same_pins_def using len i by (auto simp: nth_list_update)
  show "same_globals s (set_data i d s)" unfolding eq by (simp add: same_globals_def globals_def)
  show "cache (set_data i d s) ! i = ?b" unfolding eq using len i by simp
qed

lemma view_data:
  assumes "cache_ok s" "pinned s i" "k < 1024"
  shows "data (cache s ! i) k = view s (unat (bno (cache s ! i)) * 1024 + k)"
  using view_held [OF assms(1) _ pinned_used [OF assms(1,2)] assms(3)] assms(2) by (simp add: pinned_def)

lemma field_view:
  assumes "cache_ok s" "pinned s (fst p)" "snd p + k + 4 \<le> 1024"
  shows "field p k s = get32 (view s) (addr s p + k)"
proof -
  have "data (cache s ! fst p) (snd p + k + j) = view s (addr s p + k + j)" if "j < 4" for j
    using view_data [OF assms(1,2), of "snd p + k + j"] assms(3) that by (simp add: addr_def add.assoc)
  from this [of 0] this [of 1] this [of 2] this [of 3] show ?thesis
    by (simp add: field_def cell_at_def get32_def add.assoc)
qed

lemma div_in_block: "o' < 1024 \<Longrightarrow> (n * 1024 + o') div 1024 = (n :: nat)" "o' < 1024 \<Longrightarrow> (n * 1024 + o') mod 1024 = o'"
  by (auto intro: div_nat_eqI)

lemma mem_write_in_block:
  assumes "o' + length bs \<le> 1024" "\<And>k. k < 1024 \<Longrightarrow> d k = m (n * 1024 + k)"
  shows "(if a div 1024 = n then mem_write d o' bs (a mod 1024) else m a) = mem_write m (n * 1024 + o') bs a"
proof (cases "a div 1024 = n")
  case True
  then have a: "a = n * 1024 + a mod 1024" by (metis div_mult_mod_eq)
  define r where "r = a mod 1024"
  have "r < 1024" by (simp add: r_def)
  with True a [folded r_def] assms show ?thesis by (auto simp: mem_write_byte r_def [symmetric])
next
  case False
  from other_block [OF this] assms(1) False show ?thesis by (auto simp: mem_write_byte)
qed

lemma put32_mem_write: "put32 m a v = mem_write m a [ucast v, ucast (drop_bit 8 v), ucast (drop_bit 16 v), ucast (drop_bit 24 v)]"
proof
  fix x
  show "put32 m a v x = mem_write m a [ucast v, ucast (drop_bit 8 v), ucast (drop_bit 16 v), ucast (drop_bit 24 v)] x"
  proof (cases "a \<le> x \<and> x < a + 4")
    case True
    then consider "x = a" | "x = a + 1" | "x = a + 2" | "x = a + 3" by linarith
    then show ?thesis by cases (simp_all add: put32_def mem_write_byte numeral_3_eq_3)
  next
    case False
    then have "x < a \<or> a + 4 \<le> x" by linarith
    then show ?thesis by (auto simp: put32_byte_other mem_write_byte)
  qed
qed

lemma set_bytes_spec:
  assumes "cache_ok s" "pinned s i" "k + length bs \<le> 1024"
  shows "cache_ok (set_bytes_at i k bs s)" "same_pins s (set_bytes_at i k bs s)" "same_globals s (set_bytes_at i k bs s)"
    "view (set_bytes_at i k bs s) = mem_write (view s) (addr s (i, k)) bs"
proof -
  have eq: "set_bytes_at i k bs s = set_data i (mem_write (data (cache s ! i)) k bs) s"
    by (simp add: set_bytes_at_def set_data_def upd_block_def)
  show "cache_ok (set_bytes_at i k bs s)" "same_pins s (set_bytes_at i k bs s)" "same_globals s (set_bytes_at i k bs s)"
    unfolding eq by (rule set_data_spec [OF assms(1,2)])+
  show "view (set_bytes_at i k bs s) = mem_write (view s) (addr s (i, k)) bs"
    unfolding eq set_data_spec(4) [OF assms(1,2)] fun_eq_iff
    using mem_write_in_block [OF assms(3), of "data (cache s ! i)" "view s" "unat (bno (cache s ! i))"] view_data [OF assms(1,2)]
    by (simp add: addr_def set_data_spec(4) [OF assms(1,2)])
qed

lemma set_cell_bytes: "set_cell i k v s = set_bytes_at i k [ucast v, ucast (drop_bit 8 v), ucast (drop_bit 16 v), ucast (drop_bit 24 v)] s"
  by (simp add: set_cell_def set_bytes_at_def put32_mem_write)

lemma set_field_spec:
  assumes "cache_ok s" "pinned s (fst p)" "snd p + k + 4 \<le> 1024"
  shows "cache_ok (set_field p k v s)" "same_pins s (set_field p k v s)" "same_globals s (set_field p k v s)"
    "view (set_field p k v s) = put32 (view s) (addr s p + k) v"
  using set_bytes_spec [OF assms(1,2), of "snd p + k" "[ucast v, ucast (drop_bit 8 v), ucast (drop_bit 16 v), ucast (drop_bit 24 v)]"] assms(3)
  by (simp_all add: set_field_def set_cell_bytes addr_def add.assoc put32_mem_write)

lemma putblk_spec:
  assumes "cache_ok s" "pinned s i"
  shows "cache_ok (putblk i s)" "same_globals s (putblk i s)" "view (putblk i s) = view s"
    "\<And>j. j < 16 \<Longrightarrow> busy (cache (putblk i s) ! j) = busy (cache s ! j) - (if j = i then 1 else 0)
     \<and> bno (cache (putblk i s) ! j) = bno (cache s ! j) \<and> btype (cache (putblk i s) ! j) = btype (cache s ! j)"
proof -
  let ?b = "(cache s ! i)\<lparr>busy := busy (cache s ! i) - 1\<rparr>"
  have i: "i < 16" using assms(2) by (simp add: pinned_def)
  note u = pinned_used [OF assms] and len = cache_ok_length [OF assms(1)]
  have eq: "putblk i s = s\<lparr>cache := (cache s)[i := ?b]\<rparr>" by (simp add: putblk_def upd_block_def)
  have *: "bno ?b = bno (cache s ! i)" "used ?b \<noteq> 0" using u by simp_all
  show "cache_ok (putblk i s)" unfolding eq by (rule cache_ok_update [OF assms(1) i *(1) u *(2)])
  show "same_globals s (putblk i s)" unfolding eq by (simp add: same_globals_def globals_def)
  show "view (putblk i s) = view s"
  proof
    fix a
    show "view (putblk i s) a = view s a"
      unfolding eq view_update [OF assms(1) i *(1) u *(2)]
      using view_held [OF assms(1) i u, of "a mod 1024"] by (simp) (metis div_mult_mod_eq)
  qed
  show "busy (cache (putblk i s) ! j) = busy (cache s ! j) - (if j = i then 1 else 0)
     \<and> bno (cache (putblk i s) ! j) = bno (cache s ! j) \<and> btype (cache (putblk i s) ! j) = btype (cache s ! j)"
    if "j < 16" for j
    unfolding eq using len that i by (auto simp: nth_list_update)
qed

text \<open>Taking a block, working without moving the pins, and releasing it.\<close>

lemma get_work_put:
  assumes "one_pin i s s1" "same_pins s1 s2" "cache_ok s2"
  shows "pinned s2 i" "same_pins s (putblk i s2)"
proof -
  show p: "pinned s2 i" using assms(1,2) by (auto simp: one_pin_def same_pins_def pinned_def)
  show "same_pins s (putblk i s2)"
    using putblk_spec(4) [OF assms(3) p] assms(1,2) unfolding same_pins_def one_pin_def by auto
qed

section \<open>Flushing\<close>

lemma flush_view:
  assumes "cache_ok s" "i < 16" "used (cache s ! i) \<noteq> 0"
  shows "cache (flushb i s) = cache s" "nblocks (flushb i s) = nblocks s" "view (flushb i s) = view s" "cache_ok (flushb i s)"
    "img (flushb i s) a = (if a div 1024 = unat (bno (cache s ! i)) then data (cache s ! i) (a mod 1024) else img s a)"
proof -
  note eq = flushb_eq [OF cache_ok_length [OF assms(1)] assms(2)]
  have b: "bno (cache s ! i) < nblocks s" "nblocks s \<le> 8192"
    using cache_ok_entry [OF assms(1,2)] assms(1,3) by (auto simp: entry_ok_def cache_ok_def)
  show c: "cache (flushb i s) = cache s" "nblocks (flushb i s) = nblocks s" by (simp_all add: eq)
  show im: "img (flushb i s) a = (if a div 1024 = unat (bno (cache s ! i)) then data (cache s ! i) (a mod 1024) else img s a)" for a
    by (simp add: eq store_image_byte [OF b])
  show "cache_ok (flushb i s)" using assms(1) c by (simp add: cache_ok_def)
  show "view (flushb i s) = view s"
  proof
    fix a
    have cc: "cached (flushb i s) k = cached s k" for k by (simp add: cached_def c)
    show "view (flushb i s) a = view s a"
    proof (cases "cached s (a div 1024)")
      case None
      have "a div 1024 \<noteq> unat (bno (cache s ! i))" using cached_Some [OF assms refl] None by auto
      with None show ?thesis by (simp add: view_def cc im)
    next
      case (Some b)
      then show ?thesis by (simp add: view_def cc)
    qed
  qed
qed

lemma flush_all:
  assumes "cache_ok s" "k \<le> 16"
  defines "s' \<equiv> fold (\<lambda>i s. if used (cache s ! i) \<noteq> 0 then flushb i s else s) [0..<k] s"
  shows "cache s' = cache s \<and> cache_ok s' \<and> view s' = view s
    \<and> (\<forall>i<k. used (cache s ! i) \<noteq> 0 \<longrightarrow> (\<forall>a. a div 1024 = unat (bno (cache s ! i)) \<longrightarrow> img s' a = view s a))
    \<and> (\<forall>a. cached s (a div 1024) = None \<longrightarrow> img s' a = img s a)"
  using assms(2) unfolding s'_def
proof (induction k)
  case (Suc k)
  let ?t = "fold (\<lambda>i s. if used (cache s ! i) \<noteq> 0 then flushb i s else s) [0..<k] s"
  from Suc have IH: "cache ?t = cache s" "cache_ok ?t" "view ?t = view s"
    "\<And>i a. i < k \<Longrightarrow> used (cache s ! i) \<noteq> 0 \<Longrightarrow> a div 1024 = unat (bno (cache s ! i)) \<Longrightarrow> img ?t a = view s a"
    "\<And>a. cached s (a div 1024) = None \<Longrightarrow> img ?t a = img s a" by auto
  have k: "k < 16" using Suc by simp
  show ?case
  proof (cases "used (cache s ! k) \<noteq> 0")
    case False
    with IH show ?thesis by (auto simp: less_Suc_eq)
  next
    case True
    then have u: "used (cache ?t ! k) \<noteq> 0" using IH(1) by simp
    note F = flush_view [OF IH(2) k u]
    have d: "data (cache s ! k) (a mod 1024) = view s a" if "a div 1024 = unat (bno (cache s ! k))" for a
      using view_held [OF assms(1) k True, of "a mod 1024"] that by (metis div_mult_mod_eq mod_less_divisor zero_less_numeral)
    have im: "img (flushb k ?t) a = (if a div 1024 = unat (bno (cache s ! k)) then view s a else img ?t a)" for a
      using F(5) d IH(1) by simp
    have "img (flushb k ?t) a = view s a" if "i < Suc k" "used (cache s ! i) \<noteq> 0" "a div 1024 = unat (bno (cache s ! i))" for i a
      using im IH(4) that by (cases "i = k") (auto simp: less_Suc_eq)
    moreover have "img (flushb k ?t) a = img s a" if "cached s (a div 1024) = None" for a
      using im IH(5) that cached_Some [OF assms(1) k True refl] by auto
    moreover have "fold (\<lambda>i s. if used (cache s ! i) \<noteq> 0 then flushb i s else s) [0..<Suc k] s = flushb k ?t"
      using u by simp
    ultimately show ?thesis using F IH by simp
  qed
qed (use assms(1) in simp)

lemma flushdisk_view:
  assumes "cache_ok s" shows "img (flushdisk s) = view s"
proof
  fix a
  note F = flush_all [OF assms, of 16, folded flushdisk_def]
  from assms show "img (flushdisk s) a = view s a"
  proof (cases rule: cachedE [where n = "a div 1024"])
    case out
    with F show ?thesis by (simp add: view_def)
  next
    case (held i)
    with F show ?thesis by simp
  qed
qed

section \<open>When a block is found\<close>

lemma search_cache_idle:
  "search_cache n bs i least = Inr None \<Longrightarrow> least = None \<and> (\<forall>b\<in>set bs. busy b \<noteq> 0)"
proof (induction bs arbitrary: i least)
  case (Cons b bs)
  have n: "bno b \<noteq> n" using Cons.prems by (cases "bno b = n") simp_all
  let ?least = "if busy b = 0 \<and> (case least of None \<Rightarrow> True | Some (l, u) \<Rightarrow> used b < u) then Some (i, used b) else least"
  from Cons.prems n have "search_cache n bs (i + 1) ?least = Inr None" by simp
  from Cons.IH [OF this] have *: "?least = None" "\<forall>b\<in>set bs. busy b \<noteq> 0" by blast+
  then have "least = None" by (cases "busy b = 0 \<and> (case least of None \<Rightarrow> True | Some (l, u) \<Rightarrow> used b < u)") simp_all
  with * show ?case by (cases "busy b = 0") simp_all
qed simp

text \<open>No entry is busy.\<close>

definition idle :: "fstate \<Rightarrow> bool" where
  "idle s \<longleftrightarrow> (\<forall>j<16. busy (cache s ! j) = 0)"

lemma getblk_returns:
  assumes ok: "cache_ok s" and n: "n < nblocks s" and free: "j < 16" "busy (cache s ! j) = 0"
    and ty: "\<And>i. i < 16 \<Longrightarrow> bno (cache s ! i) = n \<Longrightarrow> btype (cache s ! i) = ty \<or> busy (cache s ! i) = 0"
  shows "\<exists>i s'. getblk n clr ty s = Some (i, s')"
proof -
  have nle: "\<not> nblocks s \<le> n" using n by simp
  have len: "length (cache s) = 16" using cache_ok_length [OF ok] .
  note r = search_cache_result [where n = n and bs = "cache s" and i = 0 and least = None]
  show ?thesis
  proof (cases "search_cache n (cache s) 0 None")
    case (Inl i)
    with r len have i: "i < 16" "bno (cache s ! i) = n" by auto
    have "btype (cache s ! i) = ty \<or> busy (cache s ! i) = 0" by (rule ty [OF i])
    then show ?thesis using nle Inl by (auto simp: getblk_def take_block_def Let_def)
  next
    case (Inr o')
    show ?thesis
    proof (cases o')
      case None
      with search_cache_idle [of n "cache s" 0 None] Inr free len show ?thesis by (metis nth_mem)
    next
      case (Some lu)
      obtain l u where lu: "lu = (l, u)" by (cases lu)
      have l: "l < 16" using r Inr Some lu len by auto
      have "busy (cache (load_block l n clr ty s) ! l) = 0"
        using l len by (auto simp: load_block_def upd_block_def flushb_eq Let_def)
      then show ?thesis using nle Inr Some lu by (cases clr) (simp_all add: getblk_def take_block_def Let_def)
    qed
  qed
qed

section \<open>Taking a block while others are in use\<close>

text \<open>Every busy entry is one of the blocks \<open>P\<close>, with its type.\<close>

definition pins :: "fstate \<Rightarrow> (u32 \<times> block_type) set \<Rightarrow> bool" where
  "pins s P \<longleftrightarrow> (\<forall>j<16. busy (cache s ! j) \<noteq> 0 \<longrightarrow> (bno (cache s ! j), btype (cache s ! j)) \<in> P)"

lemma idle_pins: "idle s \<longleftrightarrow> pins s {}"
  by (simp add: idle_def pins_def)

lemma pins_same: "same_pins s s' \<Longrightarrow> pins s P \<Longrightarrow> pins s' P"
  by (simp add: same_pins_def pins_def)

lemma pins_insert:
  assumes "cache_ok s" "n \<noteq> 0" "getblk n clr ty s = Some (i, s')" "pins s P"
  shows "pins s' (insert (n, ty) P)"
  unfolding pins_def
proof (intro allI impI)
  note G = getblk_spec [OF assms(1-3)]
  fix j assume j: "j < 16" "busy (cache s' ! j) \<noteq> 0"
  show "(bno (cache s' ! j), btype (cache s' ! j)) \<in> insert (n, ty) P"
  proof (cases "j = i")
    case True
    with G(3) getblk_btype [OF assms(1-3)] show ?thesis by (simp add: holds_def)
  next
    case False
    with j G(2) assms(4) show ?thesis by (auto simp: one_pin_def pins_def)
  qed
qed

lemma pins_free:
  assumes ok: "cache_ok s" and P: "pins s P" "finite P" "card P < 16"
  obtains j where "j < 16" "busy (cache s ! j) = 0"
proof (rule ccontr)
  assume "\<not> thesis"
  with that have b: "busy (cache s ! j) \<noteq> 0" if "j < 16" for j using \<open>j < 16\<close> by blast
  let ?f = "\<lambda>j. (bno (cache s ! j), btype (cache s ! j))"
  have "inj_on ?f {..<16}"
  proof (rule inj_onI)
    fix i j assume "i \<in> {..<16 :: nat}" "j \<in> {..<16 :: nat}" "?f i = ?f j"
    then show "i = j" using cache_ok_unique [OF ok, of i j] pinned_used [OF ok, of i] b [of i] by (auto simp: pinned_def)
  qed
  moreover have "?f ` {..<16} \<subseteq> P" using P(1) b by (auto simp: pins_def)
  ultimately have "card {..<16 :: nat} \<le> card P" by (rule card_inj_on_le [OF _ _ P(2)])
  with P(3) show False by simp
qed

lemma pins_getblk:
  assumes ok: "cache_ok s" and P: "pins s P" "finite P" "card P < 16" and n: "n < nblocks s"
    and ty: "\<And>ty'. (n, ty') \<in> P \<Longrightarrow> ty' = ty"
  obtains i s' where "getblk n clr ty s = Some (i, s')"
proof -
  obtain j where j: "j < 16" "busy (cache s ! j) = 0" by (rule pins_free [OF ok P])
  have "btype (cache s ! i) = ty \<or> busy (cache s ! i) = 0" if i: "i < 16" "bno (cache s ! i) = n" for i
    using ty P(1) i by (auto simp: pins_def)
  from getblk_returns [OF ok n j this] that show thesis by blast
qed

text \<open>Take a block, write to it, release it.\<close>

lemma block_work:
  assumes ok: "cache_ok s" and P: "pins s P" "finite P" "card P < 16" and n: "n \<noteq> 0" "n < nblocks s"
    and ty: "\<And>ty'. (n, ty') \<in> P \<Longrightarrow> ty' = ty"
    and work: "\<And>i s1. getblk n clr ty s = Some (i, s1) \<Longrightarrow> cache_ok s1 \<Longrightarrow> pinned s1 i \<Longrightarrow> bno (cache s1 ! i) = n \<Longrightarrow>
      one_pin i s s1 \<Longrightarrow> same_globals s s1 \<Longrightarrow> view s1 = (if clr then zero_block (view s) n else view s) \<Longrightarrow>
      cache_ok (w i s1) \<and> same_pins s1 (w i s1) \<and> same_globals s1 (w i s1) \<and> view (w i s1) = V"
  shows "\<exists>i s1. getblk n clr ty s = Some (i, s1) \<and> cache_ok (putblk i (w i s1)) \<and> same_pins s (putblk i (w i s1))
    \<and> same_globals s (putblk i (w i s1)) \<and> view (putblk i (w i s1)) = V"
proof -
  obtain i s1 where g: "getblk n clr ty s = Some (i, s1)" by (rule pins_getblk [OF ok P n(2) ty])
  note G = getblk_spec [OF ok n(1) g]
  have p: "pinned s1 i" "bno (cache s1 ! i) = n" using holds_pinned [OF G(3)] by auto
  from work [OF g G(1) p G(2,4,5)] have W: "cache_ok (w i s1)" "same_pins s1 (w i s1)" "same_globals s1 (w i s1)" "view (w i s1) = V" by auto
  note R = get_work_put [OF G(2) W(2,1)]
  note Q = putblk_spec [OF W(1) R(1)]
  have "same_globals s (putblk i (w i s1))" by (rule same_globals_trans [OF same_globals_trans [OF G(4) W(3)] Q(2)])
  with g Q W(4) R(2) show ?thesis by auto
qed

lemma idle_getblk:
  assumes "cache_ok s" "idle s" "n < nblocks s"
  shows "\<exists>i s'. getblk n clr ty s = Some (i, s')"
proof -
  have P: "pins s {}" using assms(2) by (simp add: idle_pins)
  obtain i s' where "getblk n clr ty s = Some (i, s')" by (rule pins_getblk [OF assms(1) P _ _ assms(3)]) simp_all
  then show ?thesis by blast
qed

lemma same_pins_idle: "same_pins s s' \<Longrightarrow> idle s \<Longrightarrow> idle s'"
  by (simp add: same_pins_def idle_def)

text \<open>The same when nothing is in use.\<close>

lemma idle_block_work:
  assumes "cache_ok s" "idle s" "n \<noteq> 0" "n < nblocks s"
    and work: "\<And>i s1. getblk n clr ty s = Some (i, s1) \<Longrightarrow> cache_ok s1 \<Longrightarrow> pinned s1 i \<Longrightarrow> bno (cache s1 ! i) = n \<Longrightarrow>
      same_globals s s1 \<Longrightarrow> view s1 = (if clr then zero_block (view s) n else view s) \<Longrightarrow>
      cache_ok (w i s1) \<and> same_pins s1 (w i s1) \<and> same_globals s1 (w i s1) \<and> view (w i s1) = V"
  shows "\<exists>i s1. getblk n clr ty s = Some (i, s1) \<and> cache_ok (putblk i (w i s1)) \<and> idle (putblk i (w i s1))
    \<and> same_globals s (putblk i (w i s1)) \<and> view (putblk i (w i s1)) = V"
proof -
  have P: "pins s {}" using assms(2) by (simp add: idle_pins)
  have "\<exists>i s1. getblk n clr ty s = Some (i, s1) \<and> cache_ok (putblk i (w i s1)) \<and> same_pins s (putblk i (w i s1))
    \<and> same_globals s (putblk i (w i s1)) \<and> view (putblk i (w i s1)) = V"
    by (rule block_work [OF assms(1) P _ _ assms(3,4)]) (use work in auto)
  with same_pins_idle [OF _ assms(2)] show ?thesis by blast
qed

lemma initial_cache:
  assumes "nblocks s \<le> 8192" "cache s = replicate 16 empty_block" "img s = (\<lambda>_. 0)"
  shows "cache_ok s" "idle s" "view s = (\<lambda>_. 0)"
proof -
  have e: "cache s ! i = empty_block" if "i < 16" for i using assms(2) that by simp
  show "cache_ok s"
    unfolding cache_ok_def using assms e by (simp add: entry_ok_def empty_block_def)
  show "idle s" using e by (simp add: idle_def empty_block_def)
  have "cached s k = None" for k by (rule cached_None) (use assms e in \<open>simp_all add: empty_block_def\<close>)
  then show "view s = (\<lambda>_. 0)" using assms(3) by (simp add: view_def)
qed

section \<open>The cache is the image\<close>

text \<open>
  C13 Through the block cache the formatter works on the image as one flat memory: taking a
  block changes nothing, or zeroes it when asked to, whatever has to be evicted; the bytes of
  the entry are the block's; a write through the entry is a write to the image; releasing a
  block changes nothing; and flushing the cache leaves exactly this image in the file.
\<close>

theorem cache_refines_image:
  assumes "cache_ok s" "n \<noteq> 0" "getblk n clr ty s = Some (i, s')" "k + length bs \<le> 1024"
  shows "view s' = (if clr then zero_block (view s) n else view s)
    \<and> (\<forall>r<1024. data (cache s' ! i) r = view s' (unat n * 1024 + r))
    \<and> view (set_bytes_at i k bs s') = mem_write (view s') (unat n * 1024 + k) bs
    \<and> view (putblk i (set_bytes_at i k bs s')) = view (set_bytes_at i k bs s')
    \<and> img (flushdisk (putblk i (set_bytes_at i k bs s'))) = mem_write (view s') (unat n * 1024 + k) bs"
proof -
  note G = getblk_spec [OF assms(1-3)]
  note p = holds_pinned [OF G(3)]
  note S = set_bytes_spec [OF G(1) conjunct1 [OF p] assms(4)]
  from same_pins_pinned [OF S(2) conjunct1 [OF p]] have "pinned (set_bytes_at i k bs s') i" by blast
  note Q = putblk_spec [OF S(1) this]
  show ?thesis using G(5) view_data [OF G(1)] p S(4) Q(3) flushdisk_view [OF Q(1)] by (simp add: addr_def)
qed

theorem cache_refines_image_witness:
  "\<exists>i s'. getblk 5 True BLOCK_FILE (initial_state 20 4 False) = Some (i, s')
    \<and> img (flushdisk (putblk i (set_bytes_at i 7 [0x61] s'))) = mem_write (view s') (5 * 1024 + 7) [0x61]"
proof -
  let ?s = "initial_state 20 4 False"
  have ok: "cache_ok ?s" "idle ?s" by (rule initial_cache; simp add: initial_state_def)+
  have "5 < nblocks ?s" by (simp add: initial_state_def)
  from idle_getblk [OF ok this] obtain i s' where g: "getblk 5 True BLOCK_FILE ?s = Some (i, s')" by blast
  have "img (flushdisk (putblk i (set_bytes_at i 7 [0x61] s'))) = mem_write (view s') (unat (5 :: u32) * 1024 + 7) [0x61]"
    using cache_refines_image [OF ok(1) _ g, of 7 "[0x61]"] by simp
  with g show ?thesis by auto
qed

end
