(* ===== verification/Ospfs_Image.thy ===== *)
theory Ospfs_Image
  imports Ospfs_Cache
begin

text \<open>
  Opening an image, making the root directory and finishing it: what \<open>opendisk\<close>, \<open>root_inode\<close>
  and \<open>finishfs\<close> leave in the image, and the image made from an empty directory.
\<close>

section \<open>The end: free map and superblock\<close>

lemma clear_bit_spec:
  assumes "cache_ok s" "pinned s b" "bno (cache s ! b) = 2" "i < 8192"
  shows "cache_ok (clear_bit b i s) \<and> same_pins s (clear_bit b i s) \<and> same_globals s (clear_bit b i s)
    \<and> view (clear_bit b i s) = bitvector_clear (view s) 2048 i"
proof -
  have k: "4 * (i div 32) + 4 \<le> 1024" using assms(4) by simp
  have eq: "clear_bit b i s = set_field (b, 0) (4 * (i div 32)) (field (b, 0) (4 * (i div 32)) s AND NOT (shl1 (i mod 32))) s"
    using assms(4) by (simp add: clear_bit_def set_field_def field_def)
  have a: "addr s (b, 0) = 2048" using assms(3) by (simp add: addr_def)
  have f: "field (b, 0) (4 * (i div 32)) s = get32 (view s) (2048 + 4 * (i div 32))"
    using field_view [OF assms(1), of "(b, 0)"] assms(2) k a by simp
  show ?thesis
    using set_field_spec [OF assms(1), of "(b, 0)" "4 * (i div 32)"] assms(2) k a f
    unfolding eq by (simp add: bitvector_clear_def Let_def)
qed

lemma clear_bits_spec:
  assumes "cache_ok s" "pinned s b" "bno (cache s ! b) = 2" "\<forall>i\<in>set is. i < 8192"
  shows "cache_ok (fold (clear_bit b) is s) \<and> same_pins s (fold (clear_bit b) is s) \<and> same_globals s (fold (clear_bit b) is s)
    \<and> view (fold (clear_bit b) is s) = fold (\<lambda>i m. bitvector_clear m 2048 i) is (view s)"
  using assms
proof (induction "is" arbitrary: s)
  case Nil
  then show ?case by (simp add: same_globals_def)
next
  case (Cons i "is")
  have C: "cache_ok (clear_bit b i s)" "same_pins s (clear_bit b i s)" "same_globals s (clear_bit b i s)"
    "view (clear_bit b i s) = bitvector_clear (view s) 2048 i"
    using clear_bit_spec [OF Cons.prems(1-3), of i] Cons.prems(4) by auto
  from same_pins_pinned [OF C(2) Cons.prems(2)] Cons.prems(3)
  have p: "pinned (clear_bit b i s) b" "bno (cache (clear_bit b i s) ! b) = 2" by auto
  from Cons.IH [OF C(1) p] Cons.prems(4) C show ?case
    using same_pins_trans [OF C(2)] same_globals_trans [OF C(3)] by simp
qed

text \<open>The superblock as \<open>finishfs\<close> stores it.\<close>

definition write_super :: "u32 \<Rightarrow> u32 \<Rightarrow> u32 \<Rightarrow> mem \<Rightarrow> mem" where
  "write_super nb ni fi m =
     put32 (put32 (put32 (put32 (zero_block m 1) 1024 0x013101AE) 1028 nb) 1032 ni) 1036 fi"

lemma clear_used:
  assumes "cache_ok s" "idle s" "2 < nblocks s" "\<forall>i\<in>set is. i < 8192"
  shows "\<exists>s'. for_all (\<lambda>i s. do {
            (b, s) \<leftarrow> getblk (OSPFS_FREEMAP_BLK + of_nat (i div 8192)) False BLOCK_BITS s;
            Some (putblk b (clear_bit b i s))
          }) is s = Some s' \<and> cache_ok s' \<and> idle s' \<and> same_globals s s'
     \<and> view s' = fold (\<lambda>i m. bitvector_clear m 2048 i) is (view s)"
  using assms
proof (induction "is" arbitrary: s)
  case Nil
  then show ?case by (simp add: same_globals_def)
next
  case (Cons i "is")
  have i: "i < 8192" using Cons.prems(4) by simp
  have "\<exists>b s1. getblk 2 False BLOCK_BITS s = Some (b, s1) \<and> cache_ok (putblk b (clear_bit b i s1)) \<and> idle (putblk b (clear_bit b i s1))
    \<and> same_globals s (putblk b (clear_bit b i s1)) \<and> view (putblk b (clear_bit b i s1)) = bitvector_clear (view s) 2048 i"
    by (rule idle_block_work [OF Cons.prems(1,2)]) (use Cons.prems(3) clear_bit_spec i in auto)
  then obtain b s1 where g: "getblk 2 False BLOCK_BITS s = Some (b, s1)" and P: "cache_ok (putblk b (clear_bit b i s1))"
    "idle (putblk b (clear_bit b i s1))" "same_globals s (putblk b (clear_bit b i s1))"
    "view (putblk b (clear_bit b i s1)) = bitvector_clear (view s) 2048 i" by blast
  have "2 < nblocks (putblk b (clear_bit b i s1))" using same_globals_simps(1) [OF P(3)] Cons.prems(3) by simp
  from Cons.IH [OF P(1,2) this] Cons.prems(4) obtain s' where s': "for_all (\<lambda>i s. do {
            (b, s) \<leftarrow> getblk (OSPFS_FREEMAP_BLK + of_nat (i div 8192)) False BLOCK_BITS s;
            Some (putblk b (clear_bit b i s))
          }) is (putblk b (clear_bit b i s1)) = Some s'" "cache_ok s'" "idle s'" "same_globals (putblk b (clear_bit b i s1)) s'"
    "view s' = fold (\<lambda>i m. bitvector_clear m 2048 i) is (view (putblk b (clear_bit b i s1)))" by auto
  with same_globals_trans [OF P(3)] g i P(4) show ?case by (intro exI [of _ s']) simp
qed

lemma finishfs_spec:
  assumes ok: "cache_ok s" "idle s" and nb: "2 < nblocks s" "nbitblock s = 1" and nx: "nextb s \<le> 8192"
  shows "\<exists>s'. finishfs s = Some s' \<and> cache_ok s' \<and> view s' = write_super (super_nblocks s) (super_ninodes s) (super_firstinob s)
    (fold (\<lambda>i m. bitvector_clear m 2048 i) ([0..<unat (nextb s)] @ [unat (nblocks s)..<8192]) (view s))"
proof -
  have nx': "\<forall>i\<in>set [0..<unat (nextb s)]. i < 8192" using nx by (auto simp: word_le_nat_alt)
  have nb8: "nblocks s \<le> 8192" using ok(1) by (simp add: cache_ok_def)
  let ?v1 = "fold (\<lambda>i m. bitvector_clear m 2048 i) [0..<unat (nextb s)] (view s)"
  let ?v2 = "fold (\<lambda>i m. bitvector_clear m 2048 i) [unat (nblocks s)..<8192] ?v1"
  from clear_used [OF ok nb(1) nx'] obtain s1 where l: "for_all (\<lambda>i s. do {
            (b, s) \<leftarrow> getblk (OSPFS_FREEMAP_BLK + of_nat (i div 8192)) False BLOCK_BITS s;
            Some (putblk b (clear_bit b i s))
          }) [0..<unat (nextb s)] s = Some s1"
    and 1: "cache_ok s1" "idle s1" "same_globals s s1" "view s1 = ?v1" by blast
  note G1 = same_globals_simps [OF 1(3)]
  have "\<exists>s2. (if nblocks s1 \<noteq> nbitblock s1 * 8192 then do {
            (b, s) \<leftarrow> getblk (OSPFS_FREEMAP_BLK + nbitblock s1 - 1) False BLOCK_BITS s1;
            Some (putblk b (fold (clear_bit b) [unat (nblocks s mod 8192)..<8192] s))
          }
          else Some s1) = Some s2 \<and> cache_ok s2 \<and> idle s2 \<and> same_globals s1 s2 \<and> view s2 = ?v2"
  proof (cases "nblocks s = 8192")
    case True
    with 1 G1 nb show ?thesis by (simp add: same_globals_def)
  next
    case False
    with nb8 have lt: "nblocks s < 8192" by simp
    then have m: "nblocks s mod 8192 = nblocks s" by (simp add: word_less_nat_alt word_unat_eq_iff unat_mod)
    have bits: "\<forall>i\<in>set [unat (nblocks s)..<8192]. i < 8192" by simp
    let ?w = "\<lambda>b. fold (clear_bit b) [unat (nblocks s)..<8192]"
    have "\<exists>b t. getblk 2 False BLOCK_BITS s1 = Some (b, t) \<and> cache_ok (putblk b (?w b t)) \<and> idle (putblk b (?w b t))
      \<and> same_globals s1 (putblk b (?w b t)) \<and> view (putblk b (?w b t)) = ?v2"
      by (rule idle_block_work [OF 1(1,2)]) (use nb G1 1(4) clear_bits_spec [OF _ _ _ bits] in auto)
    then obtain b t where g: "getblk 2 False BLOCK_BITS s1 = Some (b, t)" and P: "cache_ok (putblk b (?w b t))"
      "idle (putblk b (?w b t))" "same_globals s1 (putblk b (?w b t))" "view (putblk b (?w b t)) = ?v2" by blast
    have "same_globals s1 t"
    proof -
      note A = getblk_spec(4) [OF 1(1) _ g]
      then show ?thesis by simp
    qed
    then have "nblocks t = nblocks s" using same_globals_simps(1) G1(1) by metis
    with g P False nb G1 m show ?thesis by simp
  qed
  then obtain s2 where t: "(if nblocks s1 \<noteq> nbitblock s1 * 8192 then do {
            (b, s) \<leftarrow> getblk (OSPFS_FREEMAP_BLK + nbitblock s1 - 1) False BLOCK_BITS s1;
            Some (putblk b (fold (clear_bit b) [unat (nblocks s mod 8192)..<8192] s))
          }
          else Some s1) = Some s2" and 2: "cache_ok s2" "idle s2" "same_globals s1 s2" "view s2 = ?v2" by blast
  note G2 = same_globals_simps [OF same_globals_trans [OF 1(3) 2(3)]]
  let ?sup = "\<lambda>b s'. set_cell b 12 (super_firstinob s) (set_cell b 8 (super_ninodes s)
       (set_cell b 4 (super_nblocks s) (set_cell b 0 0x013101AE s')))"
  have "\<exists>b t. getblk 1 True BLOCK_SUPER s2 = Some (b, t) \<and> cache_ok (putblk b (?sup b t)) \<and> idle (putblk b (?sup b t))
      \<and> same_globals s2 (putblk b (?sup b t)) \<and> view (putblk b (?sup b t)) = write_super (super_nblocks s) (super_ninodes s) (super_firstinob s) ?v2"
  proof (rule idle_block_work [OF 2(1,2)])
    fix b t assume A: "cache_ok t" "pinned t b" "bno (cache t ! b) = 1" "view t = (if True then zero_block (view s2) 1 else view s2)"
    have cell: "cache_ok (set_cell b k v r) \<and> same_pins r (set_cell b k v r) \<and> same_globals r (set_cell b k v r)
        \<and> view (set_cell b k v r) = put32 (view r) (1024 + k) v \<and> pinned (set_cell b k v r) b \<and> bno (cache (set_cell b k v r) ! b) = 1"
      if "cache_ok r" "pinned r b" "bno (cache r ! b) = 1" "k + 4 \<le> 1024" for k v r
      using set_field_spec [OF that(1), of "(b, 0)" k v] that same_pins_pinned [of r "set_cell b k v r" b]
      by (simp add: set_field_def addr_def)
    note c0 = cell [OF A(1-3), of 0 "0x013101AE"]
    note c1 = cell [of "set_cell b 0 0x013101AE t" 4 "super_nblocks s"]
    note c2 = cell [of "set_cell b 4 (super_nblocks s) (set_cell b 0 0x013101AE t)" 8 "super_ninodes s"]
    note c3 = cell [of "set_cell b 8 (super_ninodes s) (set_cell b 4 (super_nblocks s) (set_cell b 0 0x013101AE t))" 12 "super_firstinob s"]
    show "cache_ok (?sup b t) \<and> same_pins t (?sup b t) \<and> same_globals t (?sup b t)
        \<and> view (?sup b t) = write_super (super_nblocks s) (super_ninodes s) (super_firstinob s) ?v2"
      using c0 c1 c2 c3 A(4) 2(4) by (auto simp: write_super_def same_globals_def intro: same_pins_trans)
  qed (use nb(1) G2 in \<open>auto simp: word_less_nat_alt\<close>)
  then obtain b u where g: "getblk 1 True BLOCK_SUPER s2 = Some (b, u)" and 3: "cache_ok (putblk b (?sup b u))"
    "view (putblk b (?sup b u)) = write_super (super_nblocks s) (super_ninodes s) (super_firstinob s) ?v2" by blast
  have "same_globals s2 u"
  proof -
    note A = getblk_spec(4) [OF 2(1) _ g]
    then show ?thesis by simp
  qed
  note G3 = same_globals_simps [OF this]
  have "finishfs s = Some (putblk b (?sup b u))"
    unfolding finishfs_def l by (simp add: t g G2 G3 del: not_None_eq)
  with 3 show ?thesis by simp
qed

section \<open>Opening the image and making the root\<close>

lemma for_all_inv:
  assumes "P xs s" "\<And>x xs s. P (x # xs) s \<Longrightarrow> \<exists>s'. f x s = Some s' \<and> P xs s'"
  shows "\<exists>s'. for_all f xs s = Some s' \<and> P [] s'"
  using assms(1)
proof (induction xs arbitrary: s)
  case (Cons x xs)
  from assms(2) [OF Cons.prems] obtain s1 where "f x s = Some s1" "P xs s1" by blast
  with Cons.IH [of s1] show ?case by simp
qed simp

text \<open>The cache, the view and the pins do not look at the counters.\<close>

lemma counters_simps [simp]:
  "cache_ok (s\<lparr>nextinode := x\<rparr>) = cache_ok s" "idle (s\<lparr>nextinode := x\<rparr>) = idle s" "view (s\<lparr>nextinode := x\<rparr>) = view s"
  "cache_ok (s\<lparr>nextb := x\<rparr>) = cache_ok s" "idle (s\<lparr>nextb := x\<rparr>) = idle s" "view (s\<lparr>nextb := x\<rparr>) = view s"
  "pinned (s\<lparr>nextinode := x\<rparr>) i = pinned s i" "pinned (s\<lparr>nextb := x\<rparr>) i = pinned s i"
  by (simp_all add: cache_ok_def idle_def view_def cached_def pinned_def cong: option.case_cong)

definition opened_image :: mem where
  "opened_image = (\<lambda>a. if 2048 \<le> a \<and> a < 3072 then 0xFF else 0)"

text \<open>The number of inode blocks.\<close>

abbreviation inode_blocks :: "u32 \<Rightarrow> u32" where
  "inode_blocks ni \<equiv> (ni + 15) div 16"

lemma valid_sizes:
  assumes "2 \<le> nb" "nb \<le> 8192" "2 \<le> ni" "ni < nb - 2 - nb div (8192 :: u32)"
  shows "5 \<le> unat nb" "unat nb \<le> 8192" "2 \<le> unat ni" "unat ni + 3 \<le> unat nb" "(nb + 8191) div 8192 = 1"
    "unat (inode_blocks ni) = (unat ni + 15) div 16" "3 + (unat ni + 15) div 16 \<le> unat nb"
    "unat (3 + inode_blocks ni) = 3 + (unat ni + 15) div 16"
proof -
  have nb: "2 \<le> unat nb" "unat nb \<le> 8192" "2 \<le> unat ni" using assms by (simp_all add: word_le_nat_alt)
  have "unat (nb - 2 - nb div 8192) \<le> unat (nb - 2)"
  proof (cases "nb = 8192")
    case False
    with nb have "nb div 8192 = 0" by (simp add: word_unat_eq_iff unat_div)
    then show ?thesis by simp
  qed simp
  then have "unat ni < unat (nb - 2)" using assms(4) by (simp add: word_less_nat_alt)
  then have "unat ni < unat nb - 2" using nb assms(1) by (simp add: unat_sub word_le_nat_alt)
  then show 1: "5 \<le> unat nb" "unat nb \<le> 8192" "2 \<le> unat ni" "unat ni + 3 \<le> unat nb" using nb by linarith+
  have "unat (nb + 8191) = unat nb + 8191" using 1 by (simp add: unat_word_ariths)
  then have "unat ((nb + 8191) div 8192) = (unat nb + 8191) div 8192" by (simp add: unat_div)
  also have "\<dots> = 1" using 1 by (intro div_nat_eqI) auto
  finally show "(nb + 8191) div 8192 = 1" by (simp add: word_unat_eq_iff)
  have "unat (ni + 15) = unat ni + 15" using 1 by (simp add: unat_word_ariths)
  then show 2: "unat (inode_blocks ni) = (unat ni + 15) div 16" by (simp add: unat_div)
  show "3 + (unat ni + 15) div 16 \<le> unat nb" using 1 by linarith
  then show "unat (3 + inode_blocks ni) = 3 + (unat ni + 15) div 16" using 1 2 by (simp add: unat_word_ariths)
qed

text \<open>Blocks of the image by number.\<close>

lemma zero_block_small:
  assumes "unat n * 1024 < 2 ^ 32" shows "zero_block m n a = (if a div 1024 = unat n then 0 else m a)"
proof -
  have "unat n * 1024 \<le> a \<and> a < unat n * 1024 + 1024 \<longleftrightarrow> a div 1024 = unat n"
    using other_block [of a "unat n"] by (auto intro: div_nat_eqI)
  then show ?thesis by (auto simp: zero_block_def ospfs_block_eq [OF assms] mem_fill_byte)
qed

lemma opendisk_spec:
  assumes v: "2 \<le> nb" "nb \<le> 8192" "2 \<le> ni" "ni < nb - 2 - nb div (8192 :: u32)"
  shows "\<exists>s. opendisk (initial_state nb ni lc) = Some s \<and> cache_ok s \<and> idle s \<and> view s = opened_image
    \<and> globals s = ((nb, ni, 1, 3 + inode_blocks ni, 0), lc, [], nb, ni, 3)"
proof -
  note V = valid_sizes [OF v]
  define s0 where "s0 = (initial_state nb ni lc)\<lparr>img := (\<lambda>_. 0), nbitblock := 1\<rparr>"
  have g0: "globals s0 = ((nb, ni, 1, 0, 0), lc, [], 0, 0, 0)" by (simp add: s0_def initial_state_def globals_def)
  note I = initial_cache [of s0]
  have i0: "cache_ok s0" "idle s0" "view s0 = (\<lambda>_. 0)"
    by (rule I; use v(2) in \<open>simp add: s0_def initial_state_def\<close>)+
  have nb0: "nblocks s0 = nb" by (simp add: s0_def initial_state_def)
  have lt2: "(2 :: u32) < nb" using V(1) by (simp add: word_less_nat_alt)
  let ?ones = "\<lambda>b. set_bytes_at b 0 (replicate 1024 0xFF)"
  have "\<exists>b s. getblk 2 False BLOCK_BITS s0 = Some (b, s) \<and> cache_ok (putblk b (?ones b s)) \<and> idle (putblk b (?ones b s))
      \<and> same_globals s0 (putblk b (?ones b s)) \<and> view (putblk b (?ones b s)) = opened_image"
  proof (rule idle_block_work [OF i0(1,2)])
    fix b s assume A: "cache_ok s" "pinned s b" "bno (cache s ! b) = 2" "view s = (if False then zero_block (view s0) 2 else view s0)"
    note S = set_bytes_spec [OF A(1,2), of 0 "replicate 1024 0xFF"]
    have "mem_write (\<lambda>_. 0) 2048 (replicate 1024 0xFF) = opened_image"
      by (auto simp: fun_eq_iff mem_write_byte opened_image_def)
    with S A i0(3) show "cache_ok (?ones b s) \<and> same_pins s (?ones b s) \<and> same_globals s (?ones b s) \<and> view (?ones b s) = opened_image"
      by (simp add: addr_def)
  qed (use lt2 nb0 in auto)
  then obtain b t where t: "getblk 2 False BLOCK_BITS s0 = Some (b, t)" and P: "cache_ok (putblk b (?ones b t))"
    "idle (putblk b (?ones b t))" "same_globals s0 (putblk b (?ones b t))" "view (putblk b (?ones b t)) = opened_image" by blast
  define s1 where "s1 = putblk b (?ones b t)"
  let ?P = "\<lambda>xs s. (\<forall>x\<in>set xs. x < unat (inode_blocks ni)) \<and> cache_ok s \<and> idle s \<and> same_globals s0 s \<and> view s = opened_image"
  have "\<exists>s. for_all (\<lambda>i s. do {
               (b, s) \<leftarrow> getblk (OSPFS_FREEMAP_BLK + nbitblock s + of_nat i) True BLOCK_INODES s;
               Some (putblk b s)
             }) [0..<unat (inode_blocks ni)] s1 = Some s \<and> ?P [] s"
  proof (rule for_all_inv)
    show "?P [0..<unat (inode_blocks ni)] s1" using P by (simp add: s1_def)
    fix x xs s assume A: "?P (x # xs) s"
    then have x: "x < (unat ni + 15) div 16" using V(6) by simp
    have xb: "unat (3 + of_nat x :: u32) = 3 + x" using x V by (simp add: unat_word_ariths unat_of_nat)
    have nbs: "nbitblock s = 1" "nblocks s = nb" using A g0 nb0 same_globals_simps [of s0 s] by (auto simp: globals_def)
    have "\<exists>b t. getblk (3 + of_nat x) True BLOCK_INODES s = Some (b, t) \<and> cache_ok (putblk b t) \<and> idle (putblk b t)
      \<and> same_globals s (putblk b t) \<and> view (putblk b t) = opened_image"
    proof (rule idle_block_work)
      show "3 + word_of_nat x \<noteq> (0 :: u32)" using xb by auto
      show "3 + word_of_nat x < nblocks s" using nbs xb x V(7) by (simp add: word_less_nat_alt)
      fix b t assume T: "cache_ok t" "view t = (if True then zero_block (view s) (3 + of_nat x) else view s)"
      have "zero_block opened_image (3 + of_nat x) = opened_image"
      proof
        fix a
        have "opened_image a = 0" if "a div 1024 = 3 + x"
          using that by (auto simp: opened_image_def)
        then show "zero_block opened_image (3 + of_nat x) a = opened_image a"
          using zero_block_small [of "3 + of_nat x" opened_image a] xb x V by simp
      qed
      with T A show "cache_ok t \<and> same_pins t t \<and> same_globals t t \<and> view t = opened_image" by (simp add: same_globals_def)
    qed (use A in auto)
    with A nbs same_globals_trans [of s0 s] show "\<exists>s'. do {
               (b, s) \<leftarrow> getblk (OSPFS_FREEMAP_BLK + nbitblock s + of_nat x) True BLOCK_INODES s;
               Some (putblk b s)
             } = Some s' \<and> ?P xs s'" by auto
  qed
  then obtain s2 where 2: "for_all (\<lambda>i s. do {
               (b, s) \<leftarrow> getblk (OSPFS_FREEMAP_BLK + nbitblock s + of_nat i) True BLOCK_INODES s;
               Some (putblk b s)
             }) [0..<unat (inode_blocks ni)] s1 = Some s2" "cache_ok s2" "idle s2" "same_globals s0 s2" "view s2 = opened_image" by auto
  let ?r = "s2\<lparr>nextb := 3 + inode_blocks ni, nextinode := 0, super_nblocks := nb, super_ninodes := ni, super_firstinob := 3\<rparr>"
  have g2: "globals s2 = globals s0" using 2(4) by (simp add: same_globals_def)
  have n2: "nblocks s2 = nb" "ninodes s2 = ni" "nbitblock s2 = 1" using g2 g0 by (simp_all add: globals_def)
  have s0: "(initial_state nb ni lc)\<lparr>img := (\<lambda>_. 0), nbitblock := (nblocks (initial_state nb ni lc) + 8192 - 1) div 8192\<rparr> = s0"
    using V(5) by (simp add: s0_def initial_state_def add.commute)
  have ini: "ninodes s0 = ni" "unat (nbitblock s0) = Suc 0" "(15 + ni) div 16 = inode_blocks ni"
    by (simp_all add: initial_state_def s0_def add.commute)
  have "opendisk (initial_state nb ni lc) = Some ?r"
    using t 2(1) n2 unfolding opendisk_def Let_def s0 by (simp add: ini s1_def [symmetric])
  moreover have "cache_ok ?r = cache_ok s2" "idle ?r = idle s2" "view ?r = view s2"
    by (simp_all add: cache_ok_def idle_def view_def cached_def cong: option.case_cong)
  moreover have "globals ?r = ((nb, ni, 1, 3 + inode_blocks ni, 0), lc, [], nb, ni, 3)"
    using g2 g0 by (simp add: globals_def)
  ultimately show ?thesis using 2(2,3,5) by (intro exI [of _ ?r] conjI) simp_all
qed

text \<open>The root's inode, inode 1, is left pinned.\<close>

lemma inode_ptr_spec:
  assumes "cache_ok s" "idle s" "super_firstinob s = 3" "ino < 16" "3 < nblocks s"
  shows "\<exists>i s'. inode_ptr ino s = Some ((i, 64 * unat ino), s') \<and> getblk 3 False BLOCK_INODES s = Some (i, s')"
proof -
  have "ino div 16 = 0" "ino mod 16 = ino"
    using assms(4) by (simp_all add: word_less_nat_alt word_unat_eq_iff unat_div unat_mod)
  moreover obtain i s' where "getblk 3 False BLOCK_INODES s = Some (i, s')" using idle_getblk [OF assms(1,2,5)] by blast
  ultimately show ?thesis using assms(3) by (simp add: inode_ptr_def)
qed

definition root_image :: "mem \<Rightarrow> mem" where
  "root_image m = put32 (put32 (put32 (put32 m 3080 1) 3140 OSPFS_FTYPE_DIR) 3144 1) 3148 0x1FF"

lemma root_inode_spec:
  assumes ok: "cache_ok s" "idle s" and g: "globals s = ((nb, ni, 1, k, 0), lc, hs, nb, ni, 3)" "3 < nb" "2 \<le> ni"
  shows "\<exists>i s'. root_inode s = Some ((i, 64), s') \<and> cache_ok s' \<and> pinned s' i \<and> bno (cache s' ! i) = 3 \<and> btype (cache s' ! i) = BLOCK_INODES
    \<and> (\<exists>t. idle t \<and> one_pin i t s') \<and> view s' = root_image (view s) \<and> globals s' = ((nb, ni, 1, k, 2), lc, hs, nb, ni, 3)"
proof -
  have ni: "ni \<noteq> 0" "ni \<noteq> 1" using g(3) by (auto simp: word_le_nat_alt)
  have gs: "nblocks s = nb" "ninodes s = ni" "nextinode s = 0" using g by (simp_all add: globals_def)
  define s0 where "s0 = s\<lparr>nextinode := 1\<rparr>"
  have 0: "cache_ok s0" "idle s0" "super_firstinob s0 = 3" "3 < nblocks s0" "view s0 = view s"
    using ok g by (simp_all add: s0_def globals_def)
  from inode_ptr_spec [OF 0(1-3) _ 0(4), of 0] obtain i s1 where
    a: "inode_ptr 0 s0 = Some ((i, 0), s1)" "getblk 3 False BLOCK_INODES s0 = Some (i, s1)" by auto
  note G = getblk_spec [OF 0(1) _ a(2)]
  have p: "pinned s1 i" "bno (cache s1 ! i) = 3" using holds_pinned G(3) by auto
  note S = set_field_spec [OF G(1), of "(i, 0)" 8 1]
  have S': "cache_ok (set_field (i, 0) 8 1 s1)" "same_pins s1 (set_field (i, 0) 8 1 s1)" "same_globals s1 (set_field (i, 0) 8 1 s1)"
    "view (set_field (i, 0) 8 1 s1) = put32 (view s) 3080 1"
    using S p G(5) 0(5) by (simp_all add: addr_def)
  define s2 where "s2 = putblk i (set_field (i, 0) 8 1 s1)"
  note W = get_work_put [OF G(2) S'(2,1)] and P = putblk_spec [OF S'(1)]
  have 2: "cache_ok s2" "idle s2" "view s2 = put32 (view s) 3080 1" "same_globals s0 s2"
    using P W S' same_pins_idle [OF W(2)] 0 same_globals_trans [OF same_globals_trans [OF G(4) S'(3)] P(2)] by (simp_all add: s2_def)
  note E = same_globals_simps [OF 2(4)]
  have e2: "nextinode s2 = 1" "ninodes s2 = ni" "super_firstinob s2 = 3" "nblocks s2 = nb" "super_ninodes s2 = ni"
    using E gs 0 g by (simp_all add: s0_def globals_def)
  define s3 where "s3 = s2\<lparr>nextinode := 2\<rparr>"
  have 3: "cache_ok s3" "idle s3" "super_firstinob s3 = 3" "3 < nblocks s3" using 2 e2 g(2) by (simp_all add: s3_def)
  from inode_ptr_spec [OF 3(1-3) _ 3(4), of 1] obtain j s4 where
    b: "inode_ptr 1 s3 = Some ((j, 64), s4)" "getblk 3 False BLOCK_INODES s3 = Some (j, s4)" by (auto simp: word_less_nat_alt)
  note H = getblk_spec [OF 3(1) _ b(2)]
  have q: "pinned s4 j" "bno (cache s4 ! j) = 3" using holds_pinned H(3) by auto
  have fld: "cache_ok (set_field (j, 64) f v r) \<and> same_pins s4 (set_field (j, 64) f v r) \<and> same_globals s4 (set_field (j, 64) f v r)
      \<and> view (set_field (j, 64) f v r) = put32 (view r) (3136 + f) v"
    if "cache_ok r" "same_pins s4 r" "same_globals s4 r" "f + 4 \<le> 64" for f v r
    using set_field_spec [OF that(1), of "(j, 64)" f v] same_pins_pinned [OF that(2) q(1)] q(2) that
      same_pins_trans [OF that(2)] same_globals_trans [OF that(3)] by (simp add: addr_def)
  define s5 where "s5 = set_field (j, 64) 12 0x1FF (set_field (j, 64) 8 1 (set_field (j, 64) 4 OSPFS_FTYPE_DIR s4))"
  have 5: "cache_ok s5" "same_pins s4 s5" "same_globals s4 s5" "view s5 = root_image (view s)"
    using fld [OF H(1), of 4] fld [of "set_field (j, 64) 4 OSPFS_FTYPE_DIR s4" 8]
      fld [of "set_field (j, 64) 8 1 (set_field (j, 64) 4 OSPFS_FTYPE_DIR s4)" 12] H(5) 2(3)
    by (simp_all add: s5_def s3_def root_image_def same_globals_def)
  have "[unat (nextinode s)..<unat OSPFS_ROOT_INO] = [0]" using gs by simp
  then have "root_inode s = Some ((j, 64), s5)"
    using gs ni a b e2 unfolding root_inode_def
    by (simp add: allocinode_def s0_def [symmetric] s2_def [symmetric] s3_def [symmetric] s5_def [symmetric])
  moreover have "one_pin j s3 s5" using H(2) 5(2) unfolding one_pin_def same_pins_def by auto
  moreover have "globals s5 = ((nb, ni, 1, k, 2), lc, hs, nb, ni, 3)"
    using 5(3) H(4) 2(4) g(1) by (simp add: same_globals_def globals_def s3_def s0_def)
  moreover have "btype (cache s5 ! j) = BLOCK_INODES"
    using getblk_btype [OF 3(1) _ b(2)] 5(2) q(1) by (simp add: same_pins_def pinned_def)
  ultimately show ?thesis using 5 3(2) same_pins_pinned [OF 5(2) q(1)] q(2) by auto
qed

section \<open>The finished image\<close>

lemma test_clear_all: "bitvector_test (fold (\<lambda>i m. bitvector_clear m v i) xs m) v k \<longleftrightarrow> k \<notin> set xs \<and> bitvector_test m v k"
  by (induction xs arbitrary: m) auto

lemma clear_all_byte:
  assumes "\<forall>i\<in>set xs. i < 8192" "a < 2048 \<or> 3072 \<le> a"
  shows "fold (\<lambda>i m. bitvector_clear m 2048 i) xs m a = m a"
  using assms(1)
proof (induction xs arbitrary: m)
  case (Cons i xs)
  then have "i < 8192" by simp
  then have "i div 32 < 256" by linarith
  then have "2048 + 4 * (i div 32) + 4 \<le> 3072" by simp
  with assms(2) have "bitvector_clear m 2048 i a = m a" by (intro bitvector_clear_byte) linarith
  with Cons show ?case by simp
qed simp

lemma write_super_byte:
  "a < 1024 \<or> 2048 \<le> a \<Longrightarrow> write_super nb ni fi m a = m a"
  unfolding write_super_def by (auto simp: put32_byte_other zero_block_def ospfs_block_def mem_fill_byte)

lemma write_super_cells:
  "get32 (write_super nb ni fi m) 1024 = 0x013101AE" "os_nblocks (write_super nb ni fi m) = nb"
  "os_ninodes (write_super nb ni fi m) = ni" "os_firstinob (write_super nb ni fi m) = fi"
  by (simp_all add: write_super_def os_nblocks_def os_ninodes_def os_firstinob_def get32_put32_other)

text \<open>The image \<open>finishfs\<close> makes of \<open>v\<close> when \<open>nx\<close> is the next block.\<close>

definition finished :: "u32 \<Rightarrow> u32 \<Rightarrow> u32 \<Rightarrow> mem \<Rightarrow> mem" where
  "finished nb ni nx v =
     write_super nb ni 3 (fold (\<lambda>i m. bitvector_clear m 2048 i) ([0..<unat nx] @ [unat nb..<8192]) v)"

lemma finished_layout:
  assumes "nx \<le> nb" "nb \<le> 8192"
  shows "get32 (finished nb ni nx v) 1024 = 0x013101AE" "os_nblocks (finished nb ni nx v) = nb" "os_ninodes (finished nb ni nx v) = ni"
    "os_firstinob (finished nb ni nx v) = 3" "first_data (finished nb ni nx v) = 3 + (unat ni + 15) div 16"
    "k < 8192 \<Longrightarrow> bitvector_test (finished nb ni nx v) 2048 k \<longleftrightarrow> unat nx \<le> k \<and> k < unat nb \<and> bitvector_test v 2048 k"
    "a < 1024 \<or> 3072 \<le> a \<Longrightarrow> finished nb ni nx v a = v a"
proof -
  note nx = assms[unfolded word_le_nat_alt]
  show "get32 (finished nb ni nx v) 1024 = 0x013101AE" "os_nblocks (finished nb ni nx v) = nb" "os_ninodes (finished nb ni nx v) = ni"
    "os_firstinob (finished nb ni nx v) = 3"
    unfolding finished_def by (rule write_super_cells)+
  then show "first_data (finished nb ni nx v) = 3 + (unat ni + 15) div 16" by (simp add: first_data_def)
  have in_map: "\<forall>i\<in>set ([0..<unat nx] @ [unat nb..<8192]). i < 8192" using nx by auto
  show "finished nb ni nx v a = v a" if "a < 1024 \<or> 3072 \<le> a"
    using that unfolding finished_def by (subst write_super_byte, linarith) (rule clear_all_byte [OF in_map], linarith)
  show "bitvector_test (finished nb ni nx v) 2048 k \<longleftrightarrow> unat nx \<le> k \<and> k < unat nb \<and> bitvector_test v 2048 k" if k: "k < 8192"
  proof -
    have "get32 (finished nb ni nx v) (2048 + 4 * (k div 32))
        = get32 (fold (\<lambda>i m. bitvector_clear m 2048 i) ([0..<unat nx] @ [unat nb..<8192]) v) (2048 + 4 * (k div 32))"
      unfolding finished_def by (rule get32_cong) (simp add: write_super_byte)
    then have "bitvector_test (finished nb ni nx v) 2048 k
      = bitvector_test (fold (\<lambda>i m. bitvector_clear m 2048 i) ([0..<unat nx] @ [unat nb..<8192]) v) 2048 k"
      by (simp add: bitvector_test_def)
    then show ?thesis using k unfolding test_clear_all by auto
  qed
qed

lemma opened_map:
  assumes "k < 8192" shows "bitvector_test opened_image 2048 k"
proof -
  have "opened_image (2048 + 4 * (k div 32) + j) = 0xFF" if "j < 4" for j
  proof -
    have "k div 32 < 256" using assms by linarith
    with that show ?thesis by (simp add: opened_image_def)
  qed
  from this [of 0] this [of 1] this [of 2] this [of 3]
  have "get32 opened_image (2048 + 4 * (k div 32)) = 0xFFFFFFFF" by (simp add: get32_def)
  moreover have "bit (0xFFFFFFFF :: u32) (k mod 32)"
  proof -
    have "(0xFFFFFFFF :: u32) = - 1" by simp
    then show ?thesis by (simp only: bit_minus_1_iff possible_bit_word) simp
  qed
  ultimately show ?thesis by (simp add: bitvector_test_bit)
qed

lemma root_image_byte: "a < 3080 \<or> 3152 \<le> a \<Longrightarrow> root_image m a = m a"
  by (auto simp: root_image_def put32_byte_other)

lemma root_image_map:
  assumes "k < 8192" shows "bitvector_test (root_image m) 2048 k = bitvector_test m 2048 k"
proof -
  have "get32 (root_image m) (2048 + 4 * (k div 32)) = get32 m (2048 + 4 * (k div 32))"
    by (rule get32_cong) (use assms in \<open>auto intro: root_image_byte\<close>)
  then show ?thesis by (simp add: bitvector_test_def)
qed

section \<open>An empty image\<close>

lemma empty_image:
  assumes v: "2 \<le> nb" "nb \<le> 8192" "2 \<le> ni" "ni < nb - 2 - nb div (8192 :: u32)"
  shows "ospfsformat md5 lc nb ni (From_tree []) [] = Some (finished nb ni (3 + inode_blocks ni) (root_image opened_image))"
proof -
  note V = valid_sizes [OF v]
  from opendisk_spec [OF v] obtain s where s: "opendisk (initial_state nb ni lc) = Some s" "cache_ok s" "idle s"
    "view s = opened_image" "globals s = ((nb, ni, 1, 3 + inode_blocks ni, 0), lc, [], nb, ni, 3)" by blast
  have "3 < nb" using V(1) by (simp add: word_less_nat_alt)
  from root_inode_spec [OF s(2,3,5) this v(3)] obtain i t u where r: "root_inode s = Some ((i, 64), t)" "cache_ok t" "pinned t i"
    "idle u" "one_pin i u t" "view t = root_image opened_image" "globals t = ((nb, ni, 1, 3 + inode_blocks ni, 2), lc, [], nb, ni, 3)"
    unfolding s(4) by blast
  note P = putblk_spec [OF r(2,3)]
  note idle = same_pins_idle [OF get_work_put(2) [OF r(5) same_pins_refl r(2)] r(4)]
  have g: "globals (putblk i t) = ((nb, ni, 1, 3 + inode_blocks ni, 2), lc, [], nb, ni, 3)" using P(2) r(7) by (simp add: same_globals_def)
  then have gs: "nblocks (putblk i t) = nb" "nbitblock (putblk i t) = 1" "nextb (putblk i t) = 3 + inode_blocks ni"
    "super_nblocks (putblk i t) = nb" "super_ninodes (putblk i t) = ni" "super_firstinob (putblk i t) = 3"
    by (simp_all add: globals_def)
  have "3 + inode_blocks ni \<le> 8192" using V(2,7,8) by (simp add: word_le_nat_alt)
  moreover have "2 < nb" using V(1) by (simp add: word_less_nat_alt)
  ultimately obtain w where w: "finishfs (putblk i t) = Some w" "cache_ok w"
    "view w = finished nb ni (3 + inode_blocks ni) (root_image opened_image)"
    using finishfs_spec [OF P(1) idle] unfolding gs P(3) r(6) finished_def by auto
  have ok: "\<not> (nb < 2 \<or> nb > 8192 \<or> ni < 2 \<or> ni \<ge> nb - 2 - nb div 8192)" using v by auto
  show ?thesis
    using ok s(1) r(1) w(1) flushdisk_view [OF w(2)] w(3)
    by (simp add: ospfsformat_def write_source_def write_entries.simps)
qed

text \<open>
  C14 For every accepted pair of sizes formatting from an empty directory succeeds, and the
  image is one the driver's theorems apply to: superblock and layout, a free map that has
  exactly the blocks behind the inodes, and an empty root directory.
\<close>

theorem formatted_empty_layout:
  assumes "2 \<le> nb" "nb \<le> 8192" "2 \<le> ni" "ni < nb - 2 - nb div (8192 :: u32)"
  shows "\<exists>m. ospfsformat md5 lc nb ni (From_tree []) [] = Some m \<and> lay m
     \<and> get32 m 1024 = 0x013101AE \<and> os_nblocks m = nb \<and> os_ninodes m = ni
     \<and> (\<forall>k<8192. bitvector_test m 2048 k \<longleftrightarrow> first_data m \<le> k \<and> k < unat nb)
     \<and> (\<exists>p. ospfs_inode m 1 = Some p \<and> inode_at m p \<and> oi_ftype m p = OSPFS_FTYPE_DIR \<and> oi_size m p = 0 \<and> oi_nlink m p = 1 \<and> oi_mode m p = 0x1FF)"
proof -
  note V = valid_sizes [OF assms]
  define m where "m = finished nb ni (3 + inode_blocks ni) (root_image opened_image)"
  have le: "3 + inode_blocks ni \<le> nb" using V(7,8) by (simp add: word_le_nat_alt)
  note L = finished_layout [OF le assms(2), where ni = ni and v = "root_image opened_image", folded m_def]
  have "lay m" using V L(5) by (simp add: lay_def L(2,4))
  moreover have "bitvector_test m 2048 k \<longleftrightarrow> first_data m \<le> k \<and> k < unat nb" if "k < 8192" for k
    using L(6) [OF that] root_image_map [OF that] opened_map [OF that] V(8) L(5) by simp
  moreover have p: "ospfs_inode m 1 = Some 3136"
    using assms(3) L(3,4) by (auto simp: ospfs_inode_def ospfs_block_def word_le_nat_alt)
  moreover have "inode_at m 3136" using V(3) L(4,5) by (simp add: inode_at_def)
  moreover have c: "get32 m a = get32 (root_image opened_image) a" if "3072 \<le> a" for a
    by (rule get32_cong) (use that L(7) in simp)
  have "get32 opened_image 3136 = 0" by (simp add: get32_def opened_image_def)
  then have "oi_ftype m 3136 = OSPFS_FTYPE_DIR \<and> oi_size m 3136 = 0 \<and> oi_nlink m 3136 = 1 \<and> oi_mode m 3136 = 0x1FF"
    using c [of 3136] c [of 3140] c [of 3144] c [of 3148]
    by (simp add: inode_fields root_image_def get32_put32_other)
  ultimately show ?thesis using empty_image [OF assms] L(1-3) unfolding m_def [symmetric] by blast
qed

theorem formatted_empty_layout_witness:
  "\<exists>m. ospfsformat (\<lambda>_. []) False 20 4 (From_tree []) [] = Some m \<and> lay m \<and> os_nblocks m = 20
     \<and> (\<forall>k<8192. bitvector_test m 2048 k \<longleftrightarrow> first_data m \<le> k \<and> k < 20)"
  using formatted_empty_layout [of 20 4 "\<lambda>_. []" False] by auto

end
