(* ===== verification/Ospfs_Image_File.thy ===== *)
theory Ospfs_Image_File
  imports Ospfs_Image
begin

text \<open>
  Writing a file: \<open>storeblk\<close> and the loop of \<open>writefile\<close> for files of up to 266 blocks, the
  first entry of a directory, and \<open>writefile\<close> as a whole, as changes of the flat image.
  \<open>stored\<close> says where the blocks of the file go.
\<close>

section \<open>Storing a block number in an inode\<close>

text \<open>What \<open>storeblk\<close> does to the image for a block below the doubly indirect ones; \<open>nx\<close> is the next block.\<close>

definition flat_store :: "nat \<Rightarrow> nat \<Rightarrow> u32 \<Rightarrow> u32 \<Rightarrow> mem \<Rightarrow> u32 \<times> mem" where
  "flat_store p nblk x nx m =
     (if nblk < 10 then (nx, put32 m (p + 16 + 4 * nblk) x)
      else if get32 m (p + 56) = 0
      then (nx + 1, put32 (put32 (zero_block m nx) (p + 56) nx) (unat nx * 1024 + 4 * (nblk - 10)) x)
      else (nx, put32 m (unat (get32 m (p + 56)) * 1024 + 4 * (nblk - 10)) x))"

lemma set_globals: "globals (s\<lparr>nextb := x\<rparr>) = ((nblocks s, ninodes s, nbitblock s, x, nextinode s), link_contents s, hardlinks s,
     super_nblocks s, super_ninodes s, super_firstinob s)"
  by (simp add: globals_def)

lemma storeblk_spec:
  assumes ok: "cache_ok s" and P: "pins s P" "finite P" "card P < 16"
    and ino: "pinned s (fst ino)" "snd ino + 64 \<le> 1024" and x: "pinned s b" "bno (cache s ! b) = x" and nblk: "nblk < 266"
    and new: "nblk \<ge> 10 \<Longrightarrow> get32 (view s) (addr s ino + 56) = 0 \<Longrightarrow> nextb s \<noteq> 0 \<and> nextb s < nblocks s \<and> nextb s \<notin> fst ` P"
    and old: "nblk \<ge> 10 \<Longrightarrow> get32 (view s) (addr s ino + 56) \<noteq> 0 \<Longrightarrow>
      get32 (view s) (addr s ino + 56) < nblocks s \<and> get32 (view s) (addr s ino + 56) \<notin> fst ` P"
  shows "\<exists>s'. storeblk ino b nblk s = Some s' \<and> cache_ok s' \<and> same_pins s s'
    \<and> globals s' = globals (s\<lparr>nextb := fst (flat_store (addr s ino) nblk x (nextb s) (view s))\<rparr>)
    \<and> view s' = snd (flat_store (addr s ino) nblk x (nextb s) (view s))"
proof (cases "nblk < 10")
  case True
  then have "snd ino + (16 + 4 * nblk) + 4 \<le> 1024" using ino(2) by simp
  note S = set_field_spec [OF ok ino(1) this, of x]
  have "storeblk ino b nblk s = Some (set_field ino (16 + 4 * nblk) x s)" using True x by (simp add: storeblk_def)
  with S True show ?thesis by (simp add: flat_store_def same_globals_def add.assoc globals_def)
next
  case False
  let ?I = "get32 (view s) (addr s ino + 56)"
  have fI: "field ino 56 s = ?I" using field_view [OF ok ino(1), of 56] ino(2) by simp
  have k: "4 * (nblk - 10) + 4 \<le> 1024" using nblk False by simp
  show ?thesis
  proof (cases "?I = 0")
    case I: True
    let ?n = "nextb s" and ?t = "s\<lparr>nextb := nextb s + 1\<rparr>"
    from new False I have n: "?n \<noteq> 0" "?n < nblocks ?t" "?n \<notin> fst ` P" by auto
    let ?w = "\<lambda>i r. set_cell i (4 * (nblk - 10)) (bno (cache (set_field ino 56 (bno (cache r ! i)) r) ! b)) (set_field ino 56 (bno (cache r ! i)) r)"
    have "\<exists>i s1. getblk ?n True BLOCK_BITS ?t = Some (i, s1) \<and> cache_ok (putblk i (?w i s1)) \<and> same_pins ?t (putblk i (?w i s1))
      \<and> same_globals ?t (putblk i (?w i s1)) \<and> view (putblk i (?w i s1)) = snd (flat_store (addr s ino) nblk x ?n (view s))"
    proof (rule block_work [where P = P])
      fix i r assume A: "cache_ok r" "pinned r i" "bno (cache r ! i) = ?n" "one_pin i ?t r" "view r = (if True then zero_block (view ?t) ?n else view ?t)"
      from one_pin_pinned [OF A(4)] ino x have q: "pinned r (fst ino)" "addr r ino = addr s ino" "pinned r b" "bno (cache r ! b) = x"
        by (auto simp: addr_def)
      note S = set_field_spec [OF A(1) q(1), of 56 "?n"]
      note S' = same_pins_pinned [OF S(2)]
      note T = set_field_spec [OF S(1), of "(i, 0)" "4 * (nblk - 10)" x]
      show "cache_ok (?w i r) \<and> same_pins r (?w i r) \<and> same_globals r (?w i r) \<and> view (?w i r) = snd (flat_store (addr s ino) nblk x ?n (view s))"
        using S T S'[of i] S'[of b] A q ino(2) k False I same_pins_trans [of r _ ] same_globals_trans [of r]
        by (auto simp: flat_store_def set_field_def addr_def)
    qed (use ok P n in \<open>auto simp: pins_def image_iff\<close>)
    then obtain i s1 where g: "getblk ?n True BLOCK_BITS ?t = Some (i, s1)" and W: "cache_ok (putblk i (?w i s1))"
      "same_pins ?t (putblk i (?w i s1))" "same_globals ?t (putblk i (?w i s1))"
      "view (putblk i (?w i s1)) = snd (flat_store (addr s ino) nblk x ?n (view s))" by blast
    have "storeblk ino b nblk s = Some (putblk i (?w i s1))"
      using False nblk g fI I by (simp add: storeblk_def indirect_block_def newblk_def)
    moreover have "same_pins s (putblk i (?w i s1))" using W(2) by (simp add: same_pins_def)
    moreover have "globals (putblk i (?w i s1)) = globals (s\<lparr>nextb := fst (flat_store (addr s ino) nblk x (nextb s) (view s))\<rparr>)"
      using W(3) False I by (simp add: same_globals_def flat_store_def)
    ultimately show ?thesis using W by blast
  next
    case I: False
    from old False I have n: "?I < nblocks s" "?I \<notin> fst ` P" by auto
    let ?w = "\<lambda>i r. set_cell i (4 * (nblk - 10)) (bno (cache r ! b)) r"
    have "\<exists>i s1. getblk ?I False BLOCK_BITS s = Some (i, s1) \<and> cache_ok (putblk i (?w i s1)) \<and> same_pins s (putblk i (?w i s1))
      \<and> same_globals s (putblk i (?w i s1)) \<and> view (putblk i (?w i s1)) = snd (flat_store (addr s ino) nblk x (nextb s) (view s))"
    proof (rule block_work [where P = P])
      fix i r assume A: "cache_ok r" "pinned r i" "bno (cache r ! i) = ?I" "one_pin i s r" "view r = (if False then zero_block (view s) ?I else view s)"
      from one_pin_pinned [OF A(4) x(1)] x have q: "bno (cache r ! b) = x" by auto
      note T = set_field_spec [OF A(1), of "(i, 0)" "4 * (nblk - 10)" x]
      show "cache_ok (?w i r) \<and> same_pins r (?w i r) \<and> same_globals r (?w i r) \<and> view (?w i r) = snd (flat_store (addr s ino) nblk x (nextb s) (view s))"
        using T A q k False I by (simp add: flat_store_def set_field_def addr_def)
    qed (use ok P n I in \<open>auto simp: image_iff\<close>)
    then obtain i s1 where g: "getblk ?I False BLOCK_BITS s = Some (i, s1)" and W: "cache_ok (putblk i (?w i s1))"
      "same_pins s (putblk i (?w i s1))" "same_globals s (putblk i (?w i s1))"
      "view (putblk i (?w i s1)) = snd (flat_store (addr s ino) nblk x (nextb s) (view s))" by blast
    have "storeblk ino b nblk s = Some (putblk i (?w i s1))"
      using False nblk g fI I by (simp add: storeblk_def indirect_block_def)
    moreover have "globals (putblk i (?w i s1)) = globals (s\<lparr>nextb := fst (flat_store (addr s ino) nblk x (nextb s) (view s))\<rparr>)"
      using W(3) False I by (simp add: same_globals_def flat_store_def)
    ultimately show ?thesis using W by blast
  qed
qed

section \<open>Where the blocks of a file go\<close>

text \<open>
  A file written from block \<open>B\<close> on has its first eleven blocks there, then its indirect block,
  then the others.  \<open>stored c p B v0 j v\<close>: in the image \<open>v\<close> the first \<open>j\<close> blocks of the content \<open>c\<close>
  have been stored for the inode at \<open>p\<close>, starting from \<open>v0\<close>.
\<close>

definition file_block_at :: "nat \<Rightarrow> nat \<Rightarrow> nat" where
  "file_block_at B i = B + i + (if 10 < i then 1 else 0)"

definition stored :: "u8 list \<Rightarrow> nat \<Rightarrow> nat \<Rightarrow> mem \<Rightarrow> nat \<Rightarrow> mem \<Rightarrow> bool" where
  "stored c p B v0 j v \<longleftrightarrow>
     (\<forall>i. i < j \<longrightarrow> i < 10 \<longrightarrow> get32 v (p + 16 + 4 * i) = of_nat (file_block_at B i))
   \<and> get32 v (p + 56) = (if 10 < j then of_nat (B + 11) else 0)
   \<and> (\<forall>i. 10 \<le> i \<longrightarrow> i < j \<longrightarrow> get32 v ((B + 11) * 1024 + 4 * (i - 10)) = of_nat (file_block_at B i))
   \<and> (\<forall>i k. i < j \<longrightarrow> k < 1024 \<longrightarrow> i * 1024 + k < length c \<longrightarrow> v (file_block_at B i * 1024 + k) = c ! (i * 1024 + k))
   \<and> (\<forall>a. a < B * 1024 \<longrightarrow> a < p + 16 \<or> p + 60 \<le> a \<longrightarrow> v a = v0 a)"

text \<open>The block at \<open>n\<close> with the next piece of the content in it.\<close>

definition filled :: "nat \<Rightarrow> u8 list \<Rightarrow> mem \<Rightarrow> mem" where
  "filled n ds v = (\<lambda>a. if a div 1024 = n then (if a mod 1024 < length ds then ds ! (a mod 1024) else 0) else v a)"

lemma get32_below: "(\<And>a. a < n \<Longrightarrow> v' a = v a) \<Longrightarrow> q + 4 \<le> n \<Longrightarrow> get32 v' q = get32 v q"
  by (rule get32_cong) simp

lemma filled_below: "a < n * 1024 \<Longrightarrow> filled n ds v a = v a"
  by (auto simp: filled_def)

lemma filled_cell: "q + 4 \<le> n * 1024 \<Longrightarrow> get32 (filled n ds v) q = get32 v q"
  by (rule get32_below [of "n * 1024"]) (auto simp: filled_below)

text \<open>One more block.\<close>

lemma stored_step:
  assumes inv: "stored c p B v0 j v" and j: "j < 266" "j * 1024 < length c" and p: "p + 64 \<le> B * 1024"
    and B: "B + j + 2 < 2 ^ 22" and nx: "nx = of_nat (file_block_at B j)"
    and st: "flat_store p j nx (nx + 1) (filled (file_block_at B j) (take 1024 (drop (j * 1024) c)) v) = (nx', v')"
  shows "stored c p B v0 (j + 1) v'" "nx' = of_nat (file_block_at B (j + 1))"
proof -
  let ?F = "file_block_at B" and ?ds = "take 1024 (drop (j * 1024) c)"
  define w where "w = filled (?F j) ?ds v"
  have un: "unat (of_nat (B + k) :: u32) = B + k" if "k \<le> j + 2" for k
    using B that by (intro of_nat_inverse [OF refl]) simp
  have Fj: "?F i < ?F j" "B \<le> ?F i" if "i < j" for i using that by (auto simp: file_block_at_def)
  have BF: "B * 1024 \<le> ?F j * 1024" by (simp add: file_block_at_def)
  have I11: "10 < j \<Longrightarrow> B + 11 < ?F j" by (simp add: file_block_at_def)
  have wlow: "w a = v a" if "a < ?F j * 1024" for a using that by (simp add: w_def filled_below)
  have wcell: "get32 w q = get32 v q" if "q + 4 \<le> ?F j * 1024" for q using that by (simp add: w_def filled_cell)
  have wcells: "get32 w (p + k) = get32 v (p + k)" if "k + 4 \<le> 64" for k using that p BF by (intro wcell) linarith
  have wbytes: "w (?F i * 1024 + k) = c ! (i * 1024 + k)" if "i < j + 1" "k < 1024" "i * 1024 + k < length c" for i k
  proof (cases "i = j")
    case True
    have "k < length c - j * 1024" using that True by linarith
    with that True show ?thesis using div_in_block [of k "?F j"] by (simp add: w_def filled_def)
  next
    case False
    then have "i < j" using that by simp
    with Fj [OF this] that inv show ?thesis by (subst wlow) (auto simp: stored_def)
  qed
  have wframe: "w a = v0 a" if "a < B * 1024" "a < p + 16 \<or> p + 60 \<le> a" for a
    using that inv BF by (subst wlow) (auto simp: stored_def)
  note S = st [folded w_def]
  consider (direct) "j < 10" | (first) "j = 10" | (indirect) "10 < j" by linarith
  then show "stored c p B v0 (j + 1) v'" "nx' = of_nat (?F (j + 1))"
  proof (atomize(full), cases)
    case direct
    have e: "nx' = nx + 1" "v' = put32 w (p + 16 + 4 * j) nx" using S direct by (auto simp: flat_store_def)
    have byte: "v' a = w a" if "a < p + 16 \<or> p + 56 \<le> a" for a using that direct unfolding e(2) by (intro put32_byte_other) auto
    have "get32 v' (p + 16 + 4 * i) = of_nat (?F i)" if "i < j + 1" for i
      using that inv wcells [of "16 + 4 * i"] direct unfolding e(2)
      by (cases "i = j") (auto simp: nx stored_def get32_put32_other add.assoc)
    moreover have "get32 v' (p + 56) = 0" using inv direct wcells [of 56] unfolding e(2) by (simp add: get32_put32_other stored_def)
    moreover have "v' (?F i * 1024 + k) = c ! (i * 1024 + k)" if "i < j + 1" "k < 1024" "i * 1024 + k < length c" for i k
    proof -
      have "p + 56 \<le> ?F i * 1024 + k" using p by (simp add: file_block_at_def)
      with wbytes [OF that] byte show ?thesis by simp
    qed
    moreover have "v' a = v0 a" if "a < B * 1024" "a < p + 16 \<or> p + 60 \<le> a" for a using byte wframe [OF that] that(2) by auto
    ultimately show "stored c p B v0 (j + 1) v' \<and> nx' = of_nat (?F (j + 1))"
      using direct e(1) by (auto simp: stored_def nx file_block_at_def)
  next
    case first
    have z: "get32 w (p + 56) = 0" using inv first wcells [of 56] by (simp add: stored_def)
    have n1: "nx + 1 = of_nat (B + 11)" using first by (simp add: nx file_block_at_def)
    have u1: "unat (nx + 1) = B + 11" unfolding n1 using un [of 11] first by simp
    have e: "nx' = nx + 1 + 1" "v' = put32 (put32 (zero_block w (nx + 1)) (p + 56) (nx + 1)) ((B + 11) * 1024) nx"
      using S first z u1 by (auto simp: flat_store_def)
    have zb: "zero_block w (nx + 1) a = (if a div 1024 = B + 11 then 0 else w a)" for a
      using zero_block_small [of "nx + 1" w a] u1 B first by simp
    have F10: "?F j = B + 10" using first by (simp add: file_block_at_def)
    have byte: "v' a = w a" if "a < (B + 11) * 1024" "a < p + 56 \<or> p + 60 \<le> a" for a
    proof -
      have "zero_block w (nx + 1) a = w a" using that zb by (auto simp: div_less_iff_less_mult)
      with that show ?thesis unfolding e(2) by (auto simp: put32_byte_other)
    qed
    have "get32 v' (p + 16 + 4 * i) = of_nat (?F i)" if "i < 10" for i
    proof -
      have "get32 v' (p + 16 + 4 * i) = get32 w (p + 16 + 4 * i)"
        by (rule get32_cong, rule byte) (use that p in auto)
      then show ?thesis using inv that first wcells [of "16 + 4 * i"] by (simp add: stored_def add.assoc)
    qed
    moreover have "get32 v' (p + 56) = of_nat (B + 11)" unfolding e(2) n1 [symmetric] using p
      by (subst get32_put32_other) simp_all
    moreover have "get32 v' ((B + 11) * 1024 + 4 * (i - 10)) = of_nat (?F i)" if "10 \<le> i" "i < j + 1" for i
    proof -
      have "i = j" using that first by simp
      then show ?thesis using first unfolding e(2) by (simp add: nx)
    qed
    moreover have "v' (?F i * 1024 + k) = c ! (i * 1024 + k)" if "i < j + 1" "k < 1024" "i * 1024 + k < length c" for i k
    proof -
      have "?F i = B + i" using that first by (simp add: file_block_at_def)
      then have "?F i * 1024 + k < (B + 11) * 1024" "p + 60 \<le> ?F i * 1024 + k" using that first p unfolding add_mult_distrib by linarith+
      with wbytes [OF that] byte show ?thesis by simp
    qed
    moreover have "v' a = v0 a" if "a < B * 1024" "a < p + 16 \<or> p + 60 \<le> a" for a
    proof -
      have "a < (B + 11) * 1024" "a < p + 56 \<or> p + 60 \<le> a" using that by auto
      with byte wframe [OF that] show ?thesis by simp
    qed
    ultimately show "stored c p B v0 (j + 1) v' \<and> nx' = of_nat (?F (j + 1))"
      using first e(1) n1 unfolding stored_def by (auto simp: nx file_block_at_def)
  next
    case indirect
    have z: "get32 w (p + 56) = of_nat (B + 11)" using inv indirect wcells [of 56] by (simp add: stored_def)
    have u: "unat (of_nat (B + 11) :: u32) = B + 11" using un [of 11] indirect by simp
    then have nz: "(of_nat (B + 11) :: u32) \<noteq> 0" by (metis add_is_0 unat_0 zero_neq_numeral)
    let ?q = "(B + 11) * 1024 + 4 * (j - 10)"
    have e: "nx' = nx + 1" "v' = put32 w ?q nx" using S indirect z nz u by (auto simp: flat_store_def)
    have q: "?q + 4 \<le> (B + 12) * 1024" using j(1) indirect by simp
    have byte: "v' a = w a" if "a < (B + 11) * 1024 \<or> (B + 12) * 1024 \<le> a" for a
      unfolding e(2) by (rule put32_byte_other) (use that q in auto)
    have pin: "get32 v' (p + k) = get32 v (p + k)" if "k + 4 \<le> 64" for k
    proof -
      have "get32 v' (p + k) = get32 w (p + k)"
        by (rule get32_cong, rule byte) (use that p in auto)
      with wcells [OF that] show ?thesis by simp
    qed
    have "get32 v' (p + 16 + 4 * i) = of_nat (?F i)" if "i < 10" for i
      using inv pin [of "16 + 4 * i"] that indirect by (simp add: stored_def add.assoc)
    moreover have "get32 v' (p + 56) = of_nat (B + 11)" using pin [of 56] inv indirect by (simp add: stored_def)
    moreover have "get32 v' ((B + 11) * 1024 + 4 * (i - 10)) = of_nat (?F i)" if "10 \<le> i" "i < j + 1" for i
    proof (cases "i = j")
      case True
      then show ?thesis unfolding e(2) by (simp add: nx)
    next
      case False
      then have i: "i < j" using that by simp
      have "get32 v' ((B + 11) * 1024 + 4 * (i - 10)) = get32 w ((B + 11) * 1024 + 4 * (i - 10))"
        unfolding e(2) by (rule get32_put32_other) (use i that in auto)
      also have "\<dots> = get32 v ((B + 11) * 1024 + 4 * (i - 10))"
        by (rule wcell) (use i j(1) that I11 [OF indirect] in \<open>simp add: file_block_at_def\<close>)
      finally show ?thesis using inv i that by (simp add: stored_def)
    qed
    moreover have "v' (?F i * 1024 + k) = c ! (i * 1024 + k)" if "i < j + 1" "k < 1024" "i * 1024 + k < length c" for i k
    proof -
      have "?F i * 1024 + k < (B + 11) * 1024 \<or> (B + 12) * 1024 \<le> ?F i * 1024 + k"
        using that(2) by (auto simp: file_block_at_def)
      with wbytes [OF that] byte show ?thesis by simp
    qed
    moreover have "v' a = v0 a" if "a < B * 1024" "a < p + 16 \<or> p + 60 \<le> a" for a
      using byte [of a] wframe [OF that] that(1) by simp
    ultimately show "stored c p B v0 (j + 1) v' \<and> nx' = of_nat (?F (j + 1))"
      using indirect e(1) unfolding stored_def by (simp add: nx file_block_at_def)
  qed
qed

section \<open>The loop of writefile\<close>

lemma filled_eq:
  assumes "unat n * 1024 < 2 ^ 32" "length ds \<le> 1024"
  shows "mem_write (zero_block v n) (unat n * 1024) ds = filled (unat n) ds v"
proof
  fix a
  show "mem_write (zero_block v n) (unat n * 1024) ds a = filled (unat n) ds v a"
  proof (cases "a div 1024 = unat n")
    case True
    then have "a = unat n * 1024 + a mod 1024" by (metis div_mult_mod_eq)
    then obtain r where a: "a = unat n * 1024 + r" "r < 1024" by (metis mod_less_divisor zero_less_numeral)
    then show ?thesis using True div_in_block [of r "unat n"]
      by (simp add: mem_write_byte zero_block_small [OF assms(1)] filled_def)
  next
    case False
    from other_block [OF this] assms(2) False show ?thesis
      by (auto simp: mem_write_byte zero_block_small [OF assms(1)] filled_def)
  qed
qed

lemma stored_filled:
  assumes inv: "stored c p B v0 j v" and p: "p + 64 \<le> B * 1024" and le: "file_block_at B j \<le> n" "j \<le> 266"
  shows "stored c p B v0 j (filled n ds v)"
proof -
  have low: "filled n ds v a = v a" if "a < n * 1024" for a using that by (rule filled_below)
  have cell: "get32 (filled n ds v) q = get32 v q" if "q + 4 \<le> n * 1024" for q using that by (rule filled_cell)
  have Bn: "B * 1024 \<le> n * 1024" using le by (simp add: file_block_at_def)
  have "get32 (filled n ds v) (p + 16 + 4 * i) = get32 v (p + 16 + 4 * i)" if "i < 10" for i
    using that p Bn by (intro cell) linarith
  moreover have "get32 (filled n ds v) (p + 56) = get32 v (p + 56)" using p Bn by (intro cell) linarith
  moreover have "get32 (filled n ds v) ((B + 11) * 1024 + 4 * (i - 10)) = get32 v ((B + 11) * 1024 + 4 * (i - 10))"
    if "10 \<le> i" "i < j" for i
    by (rule cell) (use that le in \<open>simp add: file_block_at_def split: if_splits\<close>)
  moreover have "filled n ds v (file_block_at B i * 1024 + k) = v (file_block_at B i * 1024 + k)" if "i < j" "k < 1024" for i k
    by (rule low) (use that le in \<open>simp add: file_block_at_def split: if_splits\<close>)
  moreover have "filled n ds v a = v a" if "a < B * 1024" for a using low that Bn by simp
  ultimately show ?thesis using inv unfolding stored_def by simp
qed


lemma write_blocks_step:
  assumes "getblk (nextb s) True BLOCK_FILE s = Some (b, s1)"
  shows "write_blocks ino j rest s = (let s2 = set_bytes_at b 0 (take 1024 rest) s1; n = min 1024 (length rest) in
     if rest = [] then Some (j, n, putblk b s2)
     else do {
       t \<leftarrow> storeblk ino b j (s2\<lparr>nextb := nextb s2 + 1\<rparr>);
       if n < 1024 then Some (j, n, putblk b t)
       else write_blocks ino (j + 1) (drop 1024 rest) (putblk b t)
     })"
  using assms by (subst write_blocks.simps) (simp add: Let_def)

text \<open>
  With the inode pinned, its block numbers clear and the blocks at hand, the loop stores the
  whole content, wherever it starts.
\<close>

lemma write_blocks_spec:
  assumes "cache_ok s" "pins s P" "pinned s (fst ino)" "addr s ino = p" "stored c p B v0 j (view s)"
    "j * 1024 \<le> length c" "nextb s = of_nat (file_block_at B j)"
    and P: "finite P" "card P < 15" "\<And>q. q \<in> fst ` P \<Longrightarrow> unat q < B"
    and ino: "snd ino + 64 \<le> 1024" "p + 64 \<le> B * 1024" and c: "length c \<le> 272384"
    and space: "B + length c div 1024 + (if 10240 < length c then 1 else 0) < unat (nblocks s)"
  shows "\<exists>nblk n s'. write_blocks ino j (drop (j * 1024) c) s = Some (nblk, n, s') \<and> nblk * 1024 + n = length c
    \<and> cache_ok s' \<and> same_pins s s' \<and> globals s' = globals (s\<lparr>nextb := of_nat (file_block_at B ((length c + 1023) div 1024))\<rparr>)
    \<and> stored c p B v0 ((length c + 1023) div 1024) (view s')"
  using assms(1-7) space
proof (induction "length c - j * 1024" arbitrary: j s rule: less_induct)
  case less
  note ok = less.prems(1) and st = less.prems(5) and space = less.prems(8)
  let ?F = "file_block_at B" and ?rest = "drop (j * 1024) c" and ?ds = "take 1024 (drop (j * 1024) c)"
  define n where "n = nextb s"
  have j: "j \<le> 266" "j \<le> length c div 1024" using less.prems(6) c by linarith+
  have nb: "unat (nblocks s) \<le> 8192" using ok by (simp add: cache_ok_def word_le_nat_alt)
  have B: "B + j + 2 < 2 ^ 22" "0 < B" using space nb j ino(2) by (simp_all split: if_splits)
  have Fj: "?F j < unat (nblocks s)" "B \<le> ?F j"
    using space j by (auto simp: file_block_at_def split: if_splits)
  have un: "unat n = ?F j" unfolding n_def less.prems(7) using Fj nb by (intro of_nat_inverse [OF refl]) simp
  have n: "n \<noteq> 0" "n < nblocks s" "n \<notin> fst ` P" "unat n * 1024 < 2 ^ 32"
    using un Fj B(2) nb P(3) [of n] by (auto simp: word_less_nat_alt)
  have ty: "ty' = BLOCK_FILE" if "(n, ty') \<in> P" for ty' using n(3) imageI [OF that, of fst] by simp
  have c16: "card P < 16" using P(2) by simp
  obtain b s1 where g: "getblk n True BLOCK_FILE s = Some (b, s1)"
    by (rule pins_getblk [OF ok less.prems(2) P(1) c16 n(2) ty])
  note G = getblk_spec [OF ok n(1) g]
  note pb = holds_pinned [OF G(3)]
  let ?s2 = "set_bytes_at b 0 ?ds s1"
  have S: "cache_ok ?s2" "same_pins s1 ?s2" "same_globals s1 ?s2" "view ?s2 = filled (?F j) ?ds (view s)"
    using set_bytes_spec [OF G(1), of b 0 ?ds] pb G(5) filled_eq [OF n(4), of ?ds "view s"] un by (simp_all add: addr_def)
  note W = get_work_put [OF G(2) S(2,1)]
  have glob: "globals ?s2 = globals s" using S(3) G(4) by (simp add: same_globals_def)
  note eq = write_blocks_step [OF g [unfolded n_def], of ino j ?rest]
  show ?case
  proof (cases "?rest = []")
    case True
    then have l: "length c = j * 1024" using less.prems(6) by simp
    then have "(length c + 1023) div 1024 = j" by simp
    moreover have "stored c p B v0 j (view ?s2)" unfolding S(4) by (rule stored_filled [OF st ino(2) order_refl j(1)])
    moreover note Q = putblk_spec [OF S(1) W(1)]
    ultimately show ?thesis
      using True eq W(2) glob l less.prems(7) unfolding same_globals_def by (simp add: globals_def)
  next
    case False
    then have lt: "j * 1024 < length c" by simp
    with c have j': "j < 266" by simp
    let ?t = "?s2\<lparr>nextb := nextb ?s2 + 1\<rparr>" and ?P = "insert (n, BLOCK_FILE) P"
    have gt: "nextb ?t = n + 1" "nblocks ?t = nblocks s" using glob by (simp_all add: globals_def n_def)
    from one_pin_pinned [OF G(2) less.prems(3)] have p1: "pinned s1 (fst ino)" "bno (cache s1 ! fst ino) = bno (cache s ! fst ino)" by auto
    from same_pins_pinned [OF S(2) p1(1)] p1(2) less.prems(4)
    have p2: "pinned ?t (fst ino)" "addr ?t ino = p" by (auto simp: addr_def)
    from same_pins_pinned [OF S(2), of b] pb have p3: "pinned ?t b" "bno (cache ?t ! b) = n" by auto
    have pinsP: "pins ?t ?P"
      using pins_same [OF S(2) pins_insert [OF ok n(1) g less.prems(2)]] by (simp add: pins_def)
    have cardP: "finite ?P" "card ?P < 16" using P(1,2) by (auto simp: card_insert_if)
    have I: "get32 (view ?t) (p + 56) = (if 10 < j then of_nat (B + 11) else 0)"
      using filled_cell [of "p + 56" "?F j" ?ds "view s"] st ino(2) Fj(2) S(4) by (simp add: stored_def)
    have un1: "unat (n + 1) = unat n + 1" using un Fj nb by (simp add: unat_word_ariths)
    have Bn: "(n' :: u32) \<notin> fst ` ?P" if "B \<le> unat n'" "n' \<noteq> n" for n'
      using that P(3) [of n'] by auto
    have uI: "10 < j \<Longrightarrow> unat (of_nat (B + 11) :: u32) = B + 11"
      using Fj(1) nb by (intro of_nat_inverse [OF refl]) (simp add: file_block_at_def)
    let ?fl = "flat_store p j n (n + 1) (filled (?F j) ?ds (view s))"
    have "\<exists>u. storeblk ino b j ?t = Some u \<and> cache_ok u \<and> same_pins ?t u
       \<and> globals u = globals (?t\<lparr>nextb := fst (flat_store (addr ?t ino) j n (nextb ?t) (view ?t))\<rparr>)
       \<and> view u = snd (flat_store (addr ?t ino) j n (nextb ?t) (view ?t))"
    proof (rule storeblk_spec [OF _ pinsP cardP p2(1) ino(1) p3 j'])
      show "cache_ok ?t" using S(1) by simp
      assume a: "10 \<le> j" "get32 (view ?t) (addr ?t ino + 56) = 0"
      have "10 < j \<Longrightarrow> of_nat (B + 11) \<noteq> (0 :: u32)" using uI by (metis add_is_0 unat_0 zero_neq_numeral)
      with a I p2(2) have "j = 10" by (cases "10 < j") auto
      then have "unat (nextb ?t) = B + 11" "B + 11 < unat (nblocks ?t)"
        using un un1 gt space lt j by (auto simp: file_block_at_def split: if_splits)
      moreover have "nextb ?t \<noteq> n" using un1 gt(1) by auto
      ultimately show "nextb ?t \<noteq> 0 \<and> nextb ?t < nblocks ?t \<and> nextb ?t \<notin> fst ` ?P"
        using Bn [of "nextb ?t"] by (auto simp: word_less_nat_alt)
    next
      assume a: "10 \<le> j" "get32 (view ?t) (addr ?t ino + 56) \<noteq> 0"
      then have 10: "10 < j" using I p2(2) by (auto split: if_splits)
      then have "get32 (view ?t) (addr ?t ino + 56) = of_nat (B + 11)" using I p2(2) by simp
      moreover have "B + 11 < ?F j" using 10 by (simp add: file_block_at_def)
      moreover have "of_nat (B + 11) \<noteq> n" using uI [OF 10] un \<open>B + 11 < ?F j\<close> by auto
      ultimately show "get32 (view ?t) (addr ?t ino + 56) < nblocks ?t \<and> get32 (view ?t) (addr ?t ino + 56) \<notin> fst ` ?P"
        using Bn [of "of_nat (B + 11)"] uI [OF 10] Fj(1) gt(2) by (simp add: word_less_nat_alt)
    qed
    then obtain u where u: "storeblk ino b j ?t = Some u" "cache_ok u" "same_pins ?t u" "globals u = globals (?t\<lparr>nextb := fst ?fl\<rparr>)"
      "view u = snd ?fl"
      unfolding p2(2) gt(1) by (auto simp: S(4))
    have "n = of_nat (?F j)" using less.prems(7) by (simp add: n_def)
    note st' = stored_step [OF st j' lt ino(2) B(1) this prod.collapse [symmetric]]
    have sp: "same_pins s1 u" using S(2) u(3) by (auto simp: same_pins_def)
    note V = get_work_put [OF G(2) sp u(2)] and Q = putblk_spec [OF u(2)]
    note Q' = Q(1-3) [OF V(1)]
    have glob': "globals (putblk b u) = globals (s\<lparr>nextb := of_nat (?F (j + 1))\<rparr>)"
      using Q'(2) u(4) glob st'(2) by (simp add: same_globals_def globals_def)
    have stu: "stored c p B v0 (j + 1) (view (putblk b u))" unfolding Q'(3) u(5) by (rule st'(1))
    show ?thesis
    proof (cases "length ?rest < 1024")
      case True
      then have "(length c + 1023) div 1024 = j + 1" using lt by (intro div_nat_eqI) auto
      then show ?thesis using eq False u(1) True V(2) Q' glob' stu lt by simp
    next
      case more: False
      from same_pins_pinned [OF V(2) less.prems(3)] less.prems(4)
      have "pinned (putblk b u) (fst ino)" "addr (putblk b u) ino = p" by (auto simp: addr_def)
      moreover have "nblocks (putblk b u) = nblocks s" "nextb (putblk b u) = of_nat (?F (j + 1))"
        using glob' by (simp_all add: globals_def)
      ultimately have "\<exists>nblk m s'. write_blocks ino (j + 1) (drop ((j + 1) * 1024) c) (putblk b u) = Some (nblk, m, s') \<and> nblk * 1024 + m = length c
        \<and> cache_ok s' \<and> same_pins (putblk b u) s'
        \<and> globals s' = globals ((putblk b u)\<lparr>nextb := of_nat (file_block_at B ((length c + 1023) div 1024))\<rparr>)
        \<and> stored c p B v0 ((length c + 1023) div 1024) (view s')"
        using more lt less.prems(8) by (intro less.hyps [OF _ Q'(1) pins_same [OF V(2) less.prems(2)] _ _ stu]) auto
      then obtain nblk m s' where r: "write_blocks ino (j + 1) (drop ((j + 1) * 1024) c) (putblk b u) = Some (nblk, m, s')"
        "nblk * 1024 + m = length c" "cache_ok s'" "same_pins (putblk b u) s'"
        "globals s' = globals ((putblk b u)\<lparr>nextb := of_nat (file_block_at B ((length c + 1023) div 1024))\<rparr>)"
        "stored c p B v0 ((length c + 1023) div 1024) (view s')" by blast
      have "drop 1024 ?rest = drop ((j + 1) * 1024) c" by (simp add: add.commute)
      then have "write_blocks ino j ?rest s = Some (nblk, m, s')" using eq False u(1) more r(1) by simp
      moreover have "same_pins s s'" by (rule same_pins_trans [OF V(2) r(4)])
      ultimately show ?thesis using r glob' by (simp add: globals_def)
    qed
  qed
qed

section \<open>Runs of writes to pinned blocks\<close>

text \<open>\<open>s'\<close> comes from \<open>s\<close> by writes to pinned blocks, which leave the image \<open>v\<close>.\<close>

definition wrote :: "fstate \<Rightarrow> fstate \<Rightarrow> mem \<Rightarrow> bool" where
  "wrote s s' v \<longleftrightarrow> cache_ok s' \<and> same_pins s s' \<and> same_globals s s' \<and> view s' = v"

lemma wrote_refl: "cache_ok s \<Longrightarrow> wrote s s (view s)"
  by (simp add: wrote_def same_globals_def)

lemma wrote_field:
  assumes "wrote s s' v" "pinned s (fst p)" "addr s p = a" "snd p + k + 4 \<le> 1024"
  shows "wrote s (set_field p k x s') (put32 v (a + k) x)"
proof -
  have W: "cache_ok s'" "same_pins s s'" "same_globals s s'" "view s' = v" using assms(1) by (auto simp: wrote_def)
  from same_pins_pinned [OF W(2) assms(2)] have p: "pinned s' (fst p)" "addr s' p = a" using assms(3) by (auto simp: addr_def)
  from set_field_spec [OF W(1) p(1) assms(4)] p(2) W(2-4) show ?thesis
    by (auto simp: wrote_def intro: same_pins_trans same_globals_trans)
qed

lemma wrote_bytes:
  assumes "wrote s s' v" "pinned s i" "addr s (i, k) = a" "k + length bs \<le> 1024"
  shows "wrote s (set_bytes_at i k bs s') (mem_write v a bs)"
proof -
  have W: "cache_ok s'" "same_pins s s'" "same_globals s s'" "view s' = v" using assms(1) by (auto simp: wrote_def)
  from same_pins_pinned [OF W(2) assms(2)] have p: "pinned s' i" "addr s' (i, k) = a" using assms(3) by (auto simp: addr_def)
  from set_bytes_spec [OF W(1) p(1) assms(4)] p(2) W(2-4) show ?thesis
    by (auto simp: wrote_def intro: same_pins_trans same_globals_trans)
qed

lemma wrote_get:
  assumes "wrote s s' v" "pinned s (fst p)" "addr s p = a" "snd p + k + 4 \<le> 1024"
  shows "field p k s' = get32 v (a + k)"
proof -
  have W: "cache_ok s'" "same_pins s s'" "view s' = v" using assms(1) by (auto simp: wrote_def)
  from same_pins_pinned [OF W(2) assms(2)] have p: "pinned s' (fst p)" "addr s' p = a" using assms(3) by (auto simp: addr_def)
  show ?thesis using field_view [OF W(1) p(1) assms(4)] p(2) W(3) by simp
qed

lemma put32_zero:
  assumes "\<And>i. i < 4 \<Longrightarrow> v (a + i) = 0" shows "put32 v a 0 = v"
proof -
  have "get32 v a = get32 (\<lambda>_. 0) a" by (rule get32_cong) (use assms in simp)
  then have "get32 v a = 0" by (simp add: get32_def)
  with put32_get32_id [of v a] show ?thesis by simp
qed

lemma wrote_clear:
  assumes "wrote s t v" "pinned s d" "bno (cache s ! d) = n" "\<And>a. a div 1024 = unat n \<Longrightarrow> v a = 0" "\<forall>i\<in>set is. i < 8"
  shows "wrote s (fold (\<lambda>i. set_cell d (128 * i) 0) is t) v"
  using assms(1,5)
proof (induction "is" arbitrary: t)
  case (Cons i "is")
  have "wrote s (set_field (d, 0) (128 * i) 0 t) (put32 v (unat n * 1024 + 128 * i) 0)"
    by (rule wrote_field [OF Cons.prems(1)]) (use Cons.prems(2) assms(2,3) in \<open>simp_all add: addr_def\<close>)
  moreover have "put32 v (unat n * 1024 + 128 * i) 0 = v"
  proof (rule put32_zero)
    fix k :: nat assume "k < 4"
    then have "(unat n * 1024 + (128 * i + k)) div 1024 = unat n" using Cons.prems(2) by (intro div_in_block) simp
    then show "v (unat n * 1024 + 128 * i + k) = 0" using assms(4) by (simp add: add.assoc)
  qed
  ultimately have "wrote s (set_cell d (128 * i) 0 t) v" by (simp add: set_field_def)
  with Cons show ?case by simp
qed simp

section \<open>The first entry of a directory\<close>

lemma allocdirentry_empty:
  assumes ok: "cache_ok s" and P: "pins s P" "finite P" "card P < 15" and d: "pinned s (fst d)" "snd d + 64 \<le> 1024" "addr s d = a"
    and size: "get32 (view s) a = 0" and name: "length name \<le> 123"
    and k: "nextb s = k" "k \<noteq> 0" "k < nblocks s" "k \<notin> fst ` P" and below: "a + 64 \<le> unat k * 1024"
  shows "\<exists>e s'. allocdirentry d name s = Some ((e, 0), s') \<and> cache_ok s' \<and> one_pin e s s' \<and> pins s' (insert (k, BLOCK_DIR) P)
    \<and> pinned s' e \<and> bno (cache s' ! e) = k \<and> globals s' = globals (s\<lparr>nextb := k + 1\<rparr>)
    \<and> view s' = mem_write (put32 (put32 (zero_block (view s) k) (a + 16) k) a 1024) (unat k * 1024 + 4) (name @ [0])"
proof -
  let ?s = "s\<lparr>nextb := k + 1\<rparr>" and ?P = "insert (k, BLOCK_DIR) P"
  have ok': "cache_ok ?s" "pins ?s P" "k < nblocks ?s" using ok P(1) k(3) by (simp_all add: pins_def)
  have ty: "ty' = BLOCK_DIR" if "(k, ty') \<in> P" for ty' using k(4) imageI [OF that, of fst] by simp
  have c16: "card P < 16" using P(3) by simp
  obtain e s1 where g: "getblk k True BLOCK_DIR ?s = Some (e, s1)" by (rule pins_getblk [OF ok'(1,2) P(2) c16 ok'(3) ty])
  note G = getblk_spec [OF ok'(1) k(2) g]
  note pe = holds_pinned [OF G(3)]
  have nb: "unat (nblocks s) \<le> 8192" using ok by (simp add: cache_ok_def word_le_nat_alt)
  then have small: "unat k * 1024 < 2 ^ 32" using k(3) by (simp add: word_less_nat_alt)
  note zb = zero_block_small [OF small, of "view s"]
  from one_pin_pinned [OF G(2), of "fst d"] d have d1: "pinned s1 (fst d)" "addr s1 d = a" by (auto simp: addr_def pinned_def)
  let ?v = "zero_block (view s) k"
  let ?s2 = "fold (\<lambda>i. set_cell e (OSPFS_DIRENTRY_SIZE * i) 0) [0..<8] s1"
  have w0: "wrote s1 s1 ?v" using wrote_refl [OF G(1)] G(5) by simp
  have w2: "wrote s1 ?s2 ?v" by (rule wrote_clear [OF w0, where n = k]) (use pe zb in auto)
  then have 2: "cache_ok ?s2" "same_pins s1 ?s2" "same_globals s1 ?s2" "view ?s2 = ?v" by (simp_all only: wrote_def)
  have pins2: "pins ?s2 ?P" by (rule pins_same [OF 2(2) pins_insert [OF ok'(1) k(2) g ok'(2)]])
  have cardP: "finite ?P" "card ?P < 16" using P(2,3) by (auto simp: card_insert_if)
  from same_pins_pinned [OF 2(2) d1(1)] d1(2) have d2: "pinned ?s2 (fst d)" "addr ?s2 d = a" by (auto simp: addr_def)
  from same_pins_pinned [OF 2(2), of e] pe have e2: "pinned ?s2 e" "bno (cache ?s2 ! e) = k" by auto
  from storeblk_spec [OF 2(1) pins2 cardP d2(1) d(2) e2, of 0] d2(2) 2(4)
  obtain s3 where s3: "storeblk d e 0 ?s2 = Some s3" "cache_ok s3" "same_pins ?s2 s3" "globals s3 = globals ?s2"
    "view s3 = put32 ?v (a + 16) k" by (auto simp: flat_store_def)
  have w3: "wrote s1 s3 (put32 ?v (a + 16) k)"
    using s3 2 by (auto simp: wrote_def same_globals_def intro: same_pins_trans)
  have below': "?v (a + i) = view s (a + i)" if "i < 64" for i
  proof -
    have "(a + i) div 1024 \<noteq> unat k" using below that by (metis add_less_cancel_left dividend_less_div_times div_mult_mod_eq le_add1 not_le order_less_le_trans)
    then show ?thesis by (simp add: zb)
  qed
  have "get32 ?v (a + 0) = get32 (view s) (a + 0)" by (rule get32_cong) (use below' in simp)
  then have "field d 0 s3 = 0" using wrote_get [OF w3 d1, of 0] d(2) size by (simp add: get32_put32_other)
  let ?s4 = "set_field d 0 1024 s3"
  have w4: "wrote s1 ?s4 (put32 (put32 ?v (a + 16) k) (a + 0) 1024)"
    by (rule wrote_field [OF w3 d1]) (use d(2) in simp)
  have f4: "field d 0 ?s4 = 1024" using wrote_get [OF w4 d1, of 0] d(2) by simp
  let ?s5 = "set_bytes_at e 4 (name @ [0]) ?s4"
  have w5: "wrote s1 ?s5 (mem_write (put32 (put32 ?v (a + 16) k) (a + 0) 1024) (unat k * 1024 + 4) (name @ [0]))"
    by (rule wrote_bytes [OF w4]) (use pe name in \<open>simp_all add: addr_def\<close>)
  then have 5: "cache_ok ?s5" "same_pins s1 ?s5" "same_globals s1 ?s5" by (simp_all only: wrote_def)
  have fd: "field d 0 s = 0" using field_view [OF ok d(1), of 0] d(2,3) size by simp
  have "newblk BLOCK_DIR s = Some (e, s1)" using g k(1) by (simp add: newblk_def)
  then have "allocdirentry d name s = Some ((e, 0), ?s5)"
    using name fd s3(1) \<open>field d 0 s3 = 0\<close> f4 by (simp add: allocdirentry_def new_dirblock_def del: fold_simps)
  moreover have "one_pin e s ?s5" using G(2) 5(2) unfolding one_pin_def same_pins_def by auto
  moreover have "pins ?s5 ?P" by (rule pins_same [OF 5(2) pins_insert [OF ok'(1) k(2) g ok'(2)]])
  moreover have "pinned ?s5 e" "bno (cache ?s5 ! e) = k" using same_pins_pinned [OF 5(2), of e] pe by auto
  moreover have "globals ?s5 = globals ?s" using 5(3) G(4) by (simp add: same_globals_def)
  ultimately show ?thesis using 5(1) w5 by (auto simp: wrote_def)
qed

section \<open>A file in an empty directory\<close>

text \<open>The image after the entry and the inode of the file have been made, before its blocks.\<close>

definition first_entry :: "u32 \<Rightarrow> u8 list \<Rightarrow> mem \<Rightarrow> mem" where
  "first_entry k name v =
     mem_write (put32 (put32 (zero_block v k) 3152 k) 3136 1024) (unat k * 1024 + 4) (name @ [0])"

definition first_inode :: "u32 \<Rightarrow> u8 list \<Rightarrow> u32 \<Rightarrow> mem \<Rightarrow> mem" where
  "first_inode k name mode v =
     put32 (put32 (put32 (put32 (first_entry k name v) (unat k * 1024) 2) 3208 1) 3204 OSPFS_FTYPE_REG) 3212 mode"

lemma get_hardlink_nil: "hardlinks s = [] \<Longrightarrow> get_hardlink h d s = 0"
  by (simp add: get_hardlink_def)

lemma add_hardlink_simps [simp]:
  "cache_ok (add_hardlink h i d s) = cache_ok s" "view (add_hardlink h i d s) = view s" "cache (add_hardlink h i d s) = cache s"
  "nextb (add_hardlink h i d s) = nextb s" "nblocks (add_hardlink h i d s) = nblocks s" "nbitblock (add_hardlink h i d s) = nbitblock s"
  "super_nblocks (add_hardlink h i d s) = super_nblocks s" "super_ninodes (add_hardlink h i d s) = super_ninodes s"
  "super_firstinob (add_hardlink h i d s) = super_firstinob s"
  by (simp_all add: add_hardlink_def cache_ok_def view_def cached_def cong: option.case_cong)

text \<open>What \<open>finishfs\<close> needs to know of the variables.\<close>

definition sizes :: "fstate \<Rightarrow> u32 \<times> u32 \<times> u32 \<times> u32 \<times> u32" where
  "sizes s = (nblocks s, nbitblock s, super_nblocks s, super_ninodes s, super_firstinob s)"

lemma same_globals_sizes: "same_globals s s' \<Longrightarrow> sizes s' = sizes s \<and> nextb s' = nextb s"
  by (simp add: same_globals_def globals_def sizes_def)

lemma putblk_commute: "putblk i (putblk j s) = putblk j (putblk i s)"
  by (cases "i = j") (simp_all add: putblk_def upd_block_def list_update_swap)

lemma writefile_first:
  assumes ok: "cache_ok s" and P: "pins s {(3, BLOCK_INODES)}" and r: "pinned s r" "bno (cache s ! r) = 3"
    and g: "nblocks s = nb" "ninodes s = ni" "nextinode s = 2" "nextb s = k" "hardlinks s = []" "super_firstinob s = 3"
    and ni: "ni \<noteq> 2" and zero: "get32 (view s) 3136 = 0" "get32 (view s) 3256 = 0" and name: "length name \<le> 123"
    and c: "length c \<le> 272384"
    and space: "4 \<le> unat k" "unat k + 1 + length c div 1024 + (if 10240 < length c then 1 else 0) < unat nb"
  shows "\<exists>s' w. writefile md5 (r, 64) name 0 mode c s = Some s' \<and> cache_ok s' \<and> same_pins s s'
    \<and> sizes s' = sizes s \<and> nextb s' = of_nat (file_block_at (unat k + 1) ((length c + 1023) div 1024))
    \<and> stored c 3200 (unat k + 1) (first_inode k name mode (view s)) ((length c + 1023) div 1024) w
    \<and> view s' = put32 w 3200 (of_nat (length c))"
proof -
  have nb: "unat nb \<le> 8192" using ok g(1) by (simp add: cache_ok_def word_le_nat_alt)
  have lt: "(3 :: u32) < nb" "k < nb" "k \<noteq> 0" "k \<noteq> 3" using space by (auto simp: word_less_nat_alt split: if_splits)
  have root: "pinned s (fst (r, 64))" "snd (r, 64 :: nat) + 64 \<le> 1024" "addr s (r, 64) = 3136" using r by (simp_all add: addr_def)
  have "3136 + 64 \<le> unat k * 1024" using space(1) by simp
  from allocdirentry_empty [OF ok P _ _ root zero(1) name g(4) lt(3) _ _ this] lt g(1)
  obtain e s1 where de: "allocdirentry (r, 64) name s = Some ((e, 0), s1)" and 1: "cache_ok s1" "one_pin e s s1"
    "pins s1 {(k, BLOCK_DIR), (3, BLOCK_INODES)}" "pinned s1 e" "bno (cache s1 ! e) = k" "globals s1 = globals (s\<lparr>nextb := k + 1\<rparr>)"
    "view s1 = first_entry k name (view s)"
    by (auto simp: first_entry_def)
  have h1: "hardlinks s1 = []" "ninodes s1 = ni" "nextinode s1 = 2" "super_firstinob s1 = 3" "nblocks s1 = nb" "nextb s1 = k + 1"
    "sizes s1 = sizes s" "link_contents s1 = link_contents s"
    using 1(6) g by (simp_all add: globals_def sizes_def)
  define s2 where "s2 = (set_field (e, 0) 0 2 s1)\<lparr>nextinode := 3\<rparr>"
  have w1: "wrote s1 (set_field (e, 0) 0 2 s1) (put32 (view s1) (unat k * 1024 + 0) 2)"
    by (rule wrote_field [OF wrote_refl [OF 1(1)]]) (use 1 in \<open>simp_all add: addr_def\<close>)
  then have 2: "cache_ok s2" "same_pins s1 s2" "view s2 = put32 (first_entry k name (view s)) (unat k * 1024) 2" "super_firstinob s2 = 3"
    "nblocks s2 = nb" "nextb s2 = k + 1" "hardlinks s2 = []" "sizes s2 = sizes s" "link_contents s2 = link_contents s"
    using 1(7) h1 by (simp_all add: wrote_def s2_def same_globals_def globals_def same_pins_def sizes_def)
  have pins2: "pins s2 {(k, BLOCK_DIR), (3, BLOCK_INODES)}" by (rule pins_same [OF 2(2) 1(3)])
  obtain i s3 where gi: "getblk 3 False BLOCK_INODES s2 = Some (i, s3)"
    by (rule pins_getblk [OF 2(1) pins2, of 3 BLOCK_INODES False]) (use 2(5) lt in auto)
  have "(2 :: u32) div 16 = 0" "(2 :: u32) mod 16 = 2" by simp_all
  then have ptr: "inode_ptr 2 s2 = Some ((i, 128), s3)" using gi 2(4) by (simp add: inode_ptr_def)
  note G = getblk_spec [OF 2(1) _ gi]
  have pi: "pinned s3 i" "bno (cache s3 ! i) = 3" using holds_pinned G(3) by auto
  have p: "pinned s3 (fst (i, 128))" "addr s3 (i, 128) = 3200" using pi by (simp_all add: addr_def)
  have ok3: "cache_ok s3" "view s3 = view s2" "same_globals s2 s3" "one_pin i s2 s3" using G by simp_all
  note G3 = same_globals_simps [OF ok3(3)]
  define hl where "hl = (if link_contents s then add_hardlink 0 2 (Some (md5 c)) else id)"
  have hl: "cache (hl t) = cache t" "cache_ok (hl t) = cache_ok t" "view (hl t) = view t" "nextb (hl t) = nextb t" "sizes (hl t) = sizes t"
    "nblocks (hl t) = nblocks t" for t by (auto simp: hl_def sizes_def)
  let ?a = "set_field (i, 128) 8 1 s3"
  define s4 where "s4 = set_field (i, 128) 12 mode (set_field (i, 128) 4 OSPFS_FTYPE_REG (hl ?a))"
  have wa: "wrote s3 ?a (put32 (view s3) (3200 + 8) 1)"
    by (rule wrote_field [OF wrote_refl [OF ok3(1)] p]) simp
  have pa: "pinned (hl ?a) (fst (i, 128))" "addr (hl ?a) (i, 128) = 3200" "cache_ok (hl ?a)" "view (hl ?a) = put32 (view s3) (3200 + 8) 1"
    using wa same_pins_pinned [of s3 ?a i] pi by (simp_all add: wrote_def addr_def hl pinned_def)
  have w4: "wrote (hl ?a) s4 (put32 (put32 (put32 (view s3) (3200 + 8) 1) (3200 + 4) OSPFS_FTYPE_REG) (3200 + 12) mode)"
    unfolding s4_def pa(4) [symmetric]
    by (rule wrote_field [OF wrote_field [OF wrote_refl [OF pa(3)] pa(1,2)] pa(1,2)]) simp_all
  have 4: "cache_ok s4" "same_pins s3 s4" "view s4 = first_inode k name mode (view s)" "sizes s4 = sizes s" "nextb s4 = k + 1" "nblocks s4 = nb"
  proof -
    show "cache_ok s4" using w4 by (simp add: wrote_def)
    show "same_pins s3 s4" using w4 wa unfolding wrote_def same_pins_def hl by simp
    show "view s4 = first_inode k name mode (view s)" using w4 ok3(2) 2(3) by (simp add: wrote_def first_inode_def)
    have "sizes s4 = sizes s3 \<and> nextb s4 = nextb s3" using w4 wa same_globals_sizes by (fastforce simp: wrote_def hl)
    with G3 2 show "sizes s4 = sizes s" "nextb s4 = k + 1" "nblocks s4 = nb" by (simp_all add: sizes_def)
  qed
  have pins4: "pins s4 {(k, BLOCK_DIR), (3, BLOCK_INODES)}"
    using pins_same [OF 4(2) pins_insert [OF 2(1) _ gi pins2]] by (simp add: insert_commute)
  from same_pins_pinned [OF 4(2) pi(1)] pi(2) have p4: "pinned s4 (fst (i, 128))" "addr s4 (i, 128) = 3200" by (simp_all add: addr_def)
  have z: "get32 (first_inode k name mode (view s)) 3256 = 0"
  proof -
    have small: "unat k * 1024 < 2 ^ 32" using lt(2) nb by (simp add: word_less_nat_alt)
    have d: "(3256 + j) div 1024 = 3" if "j < 4" for j :: nat using that by (intro div_nat_eqI) auto
    have "first_inode k name mode (view s) (3256 + j) = view s (3256 + j)" if "j < 4" for j
      using that space(1) d [OF that] unfolding first_inode_def first_entry_def
      by (simp add: put32_byte_other mem_write_byte zero_block_small [OF small])
    then have "get32 (first_inode k name mode (view s)) 3256 = get32 (view s) 3256" by (rule get32_cong)
    with zero(2) show ?thesis by simp
  qed
  have st: "stored c 3200 (unat k + 1) (first_inode k name mode (view s)) 0 (view s4)"
    using z 4(3) by (simp add: stored_def)
  have nx: "nextb s4 = of_nat (file_block_at (unat k + 1) 0)" using 4(5) by (simp add: file_block_at_def)
  have space4: "unat k + 1 + length c div 1024 + (if 10240 < length c then 1 else 0) < unat (nblocks s4)"
    using space(2) 4(6) by simp
  have "\<exists>nblk n s'. write_blocks (i, 128) 0 (drop (0 * 1024) c) s4 = Some (nblk, n, s') \<and> nblk * 1024 + n = length c
    \<and> cache_ok s' \<and> same_pins s4 s' \<and> globals s' = globals (s4\<lparr>nextb := of_nat (file_block_at (unat k + 1) ((length c + 1023) div 1024))\<rparr>)
    \<and> stored c 3200 (unat k + 1) (first_inode k name mode (view s)) ((length c + 1023) div 1024) (view s')"
    by (rule write_blocks_spec [OF 4(1) pins4 p4 st _ nx]) (use space space4 c in auto)
  then obtain nblk n s5 where wb: "write_blocks (i, 128) 0 c s4 = Some (nblk, n, s5)" "nblk * 1024 + n = length c"
    and 5: "cache_ok s5" "same_pins s4 s5" "globals s5 = globals (s4\<lparr>nextb := of_nat (file_block_at (unat k + 1) ((length c + 1023) div 1024))\<rparr>)"
      "stored c 3200 (unat k + 1) (first_inode k name mode (view s)) ((length c + 1023) div 1024) (view s5)" by auto
  from same_pins_pinned [OF 5(2), of i] p4 have p5: "pinned s5 (fst (i, 128))" "addr s5 (i, 128) = 3200" by (simp_all add: addr_def)
  define s6 where "s6 = set_field (i, 128) 0 (of_nat (length c)) s5"
  have w6: "wrote s5 s6 (put32 (view s5) (3200 + 0) (of_nat (length c)))"
    unfolding s6_def by (rule wrote_field [OF wrote_refl [OF 5(1)] p5]) simp
  then have 6: "cache_ok s6" "same_pins s5 s6" "same_globals s5 s6" "view s6 = put32 (view s5) 3200 (of_nat (length c))" by (simp_all add: wrote_def)
  have sp36: "same_pins s3 s6" by (rule same_pins_trans [OF same_pins_trans [OF 4(2) 5(2)] 6(2)])
  note V1 = get_work_put [OF ok3(4) sp36 6(1)]
  have Q1: "cache_ok (putblk i s6)" "same_globals s6 (putblk i s6)" "view (putblk i s6) = view s6"
    using putblk_spec [OF 6(1) V1(1)] by blast+
  have sp12: "same_pins s1 (putblk i s6)" by (rule same_pins_trans [OF 2(2) V1(2)]) 
  note V2 = get_work_put [OF 1(2) sp12 Q1(1)]
  have Q2: "cache_ok (putblk e (putblk i s6))" "same_globals (putblk i s6) (putblk e (putblk i s6))" "view (putblk e (putblk i s6)) = view (putblk i s6)"
    using putblk_spec [OF Q1(1) V2(1)] by blast+
  have alloc: "allocinode (Some (e, 0)) s1 = Some (2, (i, 128), s3)"
    using ptr h1 ni by (simp add: allocinode_def s2_def)
  have hlt: "(if link_contents s1 then add_hardlink 0 2 (Some (md5 c)) ?a else ?a) = hl ?a" using h1(8) by (simp add: hl_def)
  have "writefile md5 (r, 64) name 0 mode c s = Some (putblk e (putblk i s6))"
    using de alloc h1(1) hlt wb putblk_commute [of i e s6]
    by (simp add: writefile_def Let_def get_hardlink_nil s4_def [symmetric] s6_def of_nat_add [symmetric] of_nat_mult [symmetric] del: of_nat_add of_nat_mult cong: if_cong)
  moreover have "sizes (putblk e (putblk i s6)) = sizes s"
    "nextb (putblk e (putblk i s6)) = of_nat (file_block_at (unat k + 1) ((length c + 1023) div 1024))"
    using same_globals_sizes [OF same_globals_trans [OF same_globals_trans [OF 6(3) Q1(2)] Q2(2)]] 5(3) 4(4) by (simp_all add: globals_def sizes_def)
  ultimately show ?thesis using Q2 Q1 6(4) 5(4) V2(2) by (intro exI [of _ "putblk e (putblk i s6)"] exI [of _ "view s5"]) simp
qed

end
