(* ===== verification/Ospfs_Alloc.thy ===== *)
theory Ospfs_Alloc
  imports Ospfs_Layout
begin

text \<open>
  The free-block bitmap of File_System/ospfsmod.c: \<open>allocate_block\<close> and \<open>free_block\<close>, the
  set of free blocks they maintain, and the contract (locale \<open>block_allocator\<close>) that the
  file-growing code relies on.
\<close>

section \<open>The free-block bitmap\<close>

function alloc_scan :: "mem \<Rightarrow> nat \<Rightarrow> nat \<Rightarrow> mem \<times> u32" where
  "alloc_scan m i nblocks =
     (if i < nblocks then
        if bitvector_test m (ospfs_block OSPFS_FREEMAP_BLK) i
        then (bitvector_clear m (ospfs_block OSPFS_FREEMAP_BLK) i, of_nat i)
        else alloc_scan m (Suc i) nblocks
      else (m, 0))"
  by pat_completeness auto
termination by (relation "measure (\<lambda>(m, i, n). n - i)") auto

declare alloc_scan.simps [simp del]

definition allocate_block :: "mem \<Rightarrow> mem \<times> u32" where
  "allocate_block m = alloc_scan m 0 (unat (os_nblocks m))"

definition free_block :: "mem \<Rightarrow> u32 \<Rightarrow> mem" where
  "free_block m blockno =
     (if blockno \<le> os_firstinob m + os_ninodes m div OSPFS_BLKINODES then m
      else bitvector_set m (ospfs_block OSPFS_FREEMAP_BLK) (unat blockno))"

section \<open>Allocation\<close>

definition free_set :: "mem \<Rightarrow> nat set" where
  "free_set m = {k. k < unat (os_nblocks m) \<and> bitvector_test m 2048 k}"

definition alloc_ok :: "mem \<Rightarrow> bool" where
  "alloc_ok m \<longleftrightarrow> lay m \<and> (\<forall>k\<in>free_set m. first_data m \<le> k)"

text \<open>
  The last block that \<open>free_block\<close> refuses to free.  It should be the last inode block, but when the
  inodes fill their blocks exactly (a multiple of 16) it is the first data block.
\<close>

definition guard :: "mem \<Rightarrow> nat" where
  "guard m = unat (os_firstinob m) + unat (os_ninodes m) div 16"

lemma guard_first_data: "guard m \<le> first_data m"
  using div_le_mono [of "unat (os_ninodes m)" "unat (os_ninodes m) + 15" 16]
  by (simp add: guard_def first_data_def)

lemma guard_below:
  assumes "unat (os_ninodes m) mod 16 \<noteq> 0"
  shows "guard m < first_data m"
proof -
  have "q < (16 * q + r + 15) div 16" if "r \<noteq> 0" for q r :: nat
    using that div_le_mono [of 16 "r + 15" 16] div_mult_self4 [of 16 q "r + 15"] by (simp add: add.assoc)
  from this [OF assms, of "unat (os_ninodes m) div 16"]
  show ?thesis by (simp add: guard_def first_data_def)
qed

lemma free_set_finite [simp]: "finite (free_set m)"
  by (simp add: free_set_def)

lemma alloc_scan_none:
  "(\<And>j. i \<le> j \<Longrightarrow> j < n \<Longrightarrow> \<not> bitvector_test m 2048 j) \<Longrightarrow> alloc_scan m i n = (m, 0)"
proof (induction m i n rule: alloc_scan.induct)
  case (1 m i n)
  then show ?case by (simp add: alloc_scan.simps [of m i n])
qed

lemma alloc_scan_some:
  "i \<le> k \<Longrightarrow> k < n \<Longrightarrow> bitvector_test m 2048 k \<Longrightarrow>
   (\<And>j. i \<le> j \<Longrightarrow> j < k \<Longrightarrow> \<not> bitvector_test m 2048 j) \<Longrightarrow>
   alloc_scan m i n = (bitvector_clear m 2048 k, of_nat k)"
proof (induction m i n rule: alloc_scan.induct)
  case (1 m i n)
  show ?case
  proof (cases "i = k")
    case True
    with "1.prems" show ?thesis by (simp add: alloc_scan.simps [of m k n])
  next
    case False
    with "1.prems" have "\<not> bitvector_test m 2048 i" "i < n" "Suc i \<le> k" by auto
    with "1.IH" "1.prems" show ?thesis by (simp add: alloc_scan.simps [of m i n])
  qed
qed

lemma allocate_block_none: "free_set m = {} \<Longrightarrow> allocate_block m = (m, 0)"
  unfolding allocate_block_def by (rule alloc_scan_none) (auto simp: free_set_def)

lemma allocate_block_some:
  assumes "free_set m \<noteq> {}"
  shows "allocate_block m
    = (bitvector_clear m 2048 (Min (free_set m)), of_nat (Min (free_set m)))"
proof -
  let ?k = "Min (free_set m)"
  have k: "?k \<in> free_set m" using assms by (intro Min_in) auto
  have less: "j \<notin> free_set m" if "j < ?k" for j
    using that assms by (meson Min_le free_set_finite not_le)
  have mem: "j \<in> free_set m \<longleftrightarrow> j < unat (os_nblocks m) \<and> bitvector_test m 2048 j" for j
    by (simp add: free_set_def)
  show ?thesis
    unfolding allocate_block_def
  proof (rule alloc_scan_some)
    show "?k < unat (os_nblocks m)" "bitvector_test m 2048 ?k"
      using k by (simp_all only: mem)
    fix j assume j: "j < ?k"
    from j \<open>?k < unat (os_nblocks m)\<close> have "j < unat (os_nblocks m)" by (rule less_trans)
    with less [OF j] show "\<not> bitvector_test m 2048 j" by (simp only: mem) simp
  qed simp
qed

lemma lay_nblocks: "lay m \<Longrightarrow> unat (os_nblocks m) < 4194304"
  by (simp add: lay_def)

lemma unat_of_nat_block:
  "lay m \<Longrightarrow> k < unat (os_nblocks m) \<Longrightarrow> unat (of_nat k :: u32) = k"
  using lay_nblocks [of m] by (simp add: unat_of_nat take_bit_nat_eq_self_iff)

lemma free_set_clear:
  "free_set (bitvector_clear m 2048 k) = free_set m - {k}"
  by (auto simp: free_set_def view_simps)

lemma free_set_set:
  "k < unat (os_nblocks m) \<Longrightarrow> free_set (bitvector_set m 2048 k) = insert k (free_set m)"
  by (auto simp: free_set_def view_simps)

lemma guard_no_wrap:
  assumes "lay m"
  shows "unat (os_firstinob m + os_ninodes m div 16)
    = unat (os_firstinob m) + unat (os_ninodes m) div 16"
proof -
  have "unat (os_firstinob m) + unat (os_ninodes m) div 16 < 2 ^ 32"
    using assms div_le_mono [of "unat (os_ninodes m)" "unat (os_ninodes m) + 15" 16]
    by (simp add: lay_def first_data_def)
  then show ?thesis by (simp add: unat_word_ariths unat_div)
qed

lemma free_block_eq:
  assumes "lay m"
  shows "free_block m b = (if unat b \<le> guard m then m else bitvector_set m 2048 (unat b))"
  by (simp add: free_block_def word_le_nat_alt guard_no_wrap [OF assms] guard_def)

lemma free_block_data:
  assumes "lay m" "data_blk m b"
  shows "free_block m b = (if unat b = guard m then m else bitvector_set m 2048 (unat b))"
  using assms guard_first_data [of m] by (auto simp: free_block_eq data_blk_def)

lemma free_set_free_block:
  assumes "lay m" "data_blk m b"
  shows "free_set (free_block m b) = free_set m \<union> ({unat b} - {guard m})"
  using assms(2) by (auto simp: free_block_data [OF assms] free_set_set data_blk_def)

text \<open>What the allocator promises its clients.\<close>

lemma allocate_block_cases:
  assumes "alloc_ok m"
  obtains (full) "free_set m = {}" "allocate_block m = (m, 0)"
  | (got) b where "allocate_block m = (bitvector_clear m 2048 (unat b), b)" "b \<noteq> 0"
      "unat b \<in> free_set m" "data_blk m b" "free_set (bitvector_clear m 2048 (unat b)) = free_set m - {unat b}"
      "free_block (bitvector_clear m 2048 (unat b)) b
         = (if unat b = guard m then bitvector_clear m 2048 (unat b) else m)"
      "alloc_ok (bitvector_clear m 2048 (unat b))"
proof (cases "free_set m = {}")
  case True
  then show ?thesis using full allocate_block_none by blast
next
  case False
  let ?k = "Min (free_set m)"
  let ?b = "of_nat ?k :: u32"
  have k: "?k \<in> free_set m" using False by (intro Min_in) auto
  have lay: "lay m" using assms by (simp add: alloc_ok_def)
  have kN: "?k < unat (os_nblocks m)" and kt: "bitvector_test m 2048 ?k"
    and kd: "first_data m \<le> ?k"
    using k assms by (auto simp: free_set_def alloc_ok_def)
  have ub: "unat ?b = ?k" by (rule unat_of_nat_block [OF lay kN])
  have d: "data_blk m ?b" using kd kN by (simp add: data_blk_def ub)
  show ?thesis
  proof (rule got [of ?b])
    show "allocate_block m = (bitvector_clear m 2048 (unat ?b), ?b)"
      using allocate_block_some [OF False] by (simp only: ub)
    show "?b \<noteq> 0" using data_blk_nonzero [OF lay d] .
    show "unat ?b \<in> free_set m" using k by (simp only: ub)
    show "data_blk m ?b" by (rule d)
    show "free_set (bitvector_clear m 2048 (unat ?b)) = free_set m - {unat ?b}"
      by (rule free_set_clear)
    have "guard (bitvector_clear m 2048 ?k) = guard m" by (simp add: guard_def view_simps)
    moreover have "?k \<noteq> guard m \<Longrightarrow> \<not> ?k \<le> guard m" using kd guard_first_data [of m] by simp
    ultimately have "free_block (bitvector_clear m 2048 ?k) ?b
        = (if ?k = guard m then bitvector_clear m 2048 ?k else m)"
      using lay bitvector_set_clear [OF kt] by (subst free_block_eq) (auto simp: view_simps ub)
    then show "free_block (bitvector_clear m 2048 (unat ?b)) ?b
        = (if unat ?b = guard m then bitvector_clear m 2048 (unat ?b) else m)" by (simp only: ub)
    show "alloc_ok (bitvector_clear m 2048 (unat ?b))"
      using assms by (auto simp: alloc_ok_def free_set_clear view_simps)
  qed
qed


section \<open>The allocator's contract\<close>

text \<open>
  What \<open>add_block\<close> and its clients rely on: allocation takes a block out of the available
  set and returns it, returns the null block and changes nothing when none is available,
  and releasing the block just allocated undoes the allocation, unless it is one of the blocks the
  allocator keeps: releasing such a block does nothing.
\<close>

locale block_allocator =
  fixes ok :: "'s \<Rightarrow> bool"
    and avail :: "'s \<Rightarrow> 'b set"
    and kept :: "'s \<Rightarrow> 'b set"
    and null :: 'b
    and alloc :: "'s \<Rightarrow> 's \<times> 'b"
    and release :: "'s \<Rightarrow> 'b \<Rightarrow> 's"
  assumes alloc_full: "ok s \<Longrightarrow> avail s = {} \<Longrightarrow> alloc s = (s, null)"
    and alloc_avail: "ok s \<Longrightarrow> avail s \<noteq> {} \<Longrightarrow> alloc s = (s', b) \<Longrightarrow>
      b \<in> avail s \<and> b \<noteq> null \<and> ok s' \<and> avail s' = avail s - {b} \<and> release s' b = (if b \<in> kept s then s' else s)"
begin

lemma alloc_null_iff: "ok s \<Longrightarrow> alloc s = (s', b) \<Longrightarrow> b = null \<longleftrightarrow> avail s = {}"
  using alloc_full alloc_avail by (metis prod.inject)

lemma alloc_null_unchanged: "ok s \<Longrightarrow> alloc s = (s', null) \<Longrightarrow> s' = s"
  using alloc_null_iff alloc_full by (metis prod.inject)

lemma alloc_release: "ok s \<Longrightarrow> alloc s = (s', b) \<Longrightarrow> b \<noteq> null \<Longrightarrow> b \<notin> kept s \<Longrightarrow> release s' b = s"
  using alloc_null_iff alloc_avail by metis

lemma alloc_kept: "ok s \<Longrightarrow> alloc s = (s', b) \<Longrightarrow> b \<noteq> null \<Longrightarrow> b \<in> kept s \<Longrightarrow> release s' b = s'"
  using alloc_null_iff alloc_avail by metis

lemma alloc_ok_step: "ok s \<Longrightarrow> alloc s = (s', b) \<Longrightarrow> ok s'"
  using alloc_full alloc_avail by (metis prod.inject)

lemma alloc_shrinks: "ok s \<Longrightarrow> alloc s = (s', b) \<Longrightarrow> avail s' = avail s - {b} \<or> avail s' = avail s"
  using alloc_full alloc_avail by (metis prod.inject)

lemma alloc_twice_distinct:
  "ok s \<Longrightarrow> alloc s = (s1, a) \<Longrightarrow> a \<noteq> null \<Longrightarrow> alloc s1 = (s2, b) \<Longrightarrow> b \<noteq> null \<Longrightarrow>
    a \<noteq> b \<and> a \<in> avail s \<and> b \<in> avail s \<and> avail s2 = avail s - {a} - {b}"
proof -
  assume h: "ok s" "alloc s = (s1, a)" "a \<noteq> null" "alloc s1 = (s2, b)" "b \<noteq> null"
  have "avail s \<noteq> {}" using alloc_null_iff [OF h(1,2)] h(3) by simp
  note 1 = alloc_avail [OF h(1) this h(2)]
  then have ok1: "ok s1" by simp
  have "avail s1 \<noteq> {}" using alloc_null_iff [OF ok1 h(4)] h(5) by simp
  note 2 = alloc_avail [OF ok1 this h(4)]
  from 1 2 show ?thesis by auto
qed

text \<open>The roll-back of a two-step allocation whose second step fails.\<close>

lemma failed_pair_rollback:
  "ok s \<Longrightarrow> alloc s = (s1, a) \<Longrightarrow> a \<noteq> null \<Longrightarrow> alloc s1 = (s2, null) \<Longrightarrow>
    release s2 a = (if a \<in> kept s then s1 else s) \<and> avail s = {a}"
proof -
  assume h: "ok s" "alloc s = (s1, a)" "a \<noteq> null" "alloc s1 = (s2, null)"
  have "avail s \<noteq> {}" using alloc_null_iff [OF h(1,2)] h(3) by simp
  note 1 = alloc_avail [OF h(1) this h(2)]
  then have ok1: "ok s1" by simp
  have "avail s1 = {}" using alloc_null_iff [OF ok1 h(4)] by simp
  moreover have "s2 = s1" by (rule alloc_null_unchanged [OF ok1 h(4)])
  ultimately show ?thesis using 1 by auto
qed

end

definition avail_blocks :: "mem \<Rightarrow> u32 set" where
  "avail_blocks m = {b. unat b \<in> free_set m}"

lemma avail_blocks_empty:
  assumes "alloc_ok m" shows "avail_blocks m = {} \<longleftrightarrow> free_set m = {}"
proof
  assume A: "avail_blocks m = {}"
  show "free_set m = {}"
  proof (rule ccontr)
    assume "free_set m \<noteq> {}"
    then obtain k where "k \<in> free_set m" by blast
    moreover from this assms have "unat (of_nat k :: u32) = k"
      by (intro unat_of_nat_block [of m]) (auto simp: alloc_ok_def free_set_def)
    ultimately have "(of_nat k :: u32) \<in> avail_blocks m" by (simp add: avail_blocks_def)
    with A show False by simp
  qed
qed (simp add: avail_blocks_def)

lemma avail_blocks_clear:
  "avail_blocks (bitvector_clear m 2048 (unat b)) = avail_blocks m - {b}"
proof (rule set_eqI)
  fix x :: u32
  have "unat x = unat b \<longleftrightarrow> x = b" by (metis word_unat_eq_iff)
  then show "x \<in> avail_blocks (bitvector_clear m 2048 (unat b)) \<longleftrightarrow> x \<in> avail_blocks m - {b}"
    unfolding avail_blocks_def free_set_clear mem_Collect_eq Diff_iff singleton_iff by simp
qed

definition kept_blocks :: "mem \<Rightarrow> u32 set" where
  "kept_blocks m = {b. unat b = guard m}"

interpretation ospfs_alloc: block_allocator alloc_ok avail_blocks kept_blocks 0 allocate_block free_block
proof unfold_locales
  fix m assume "alloc_ok m" "avail_blocks m = {}"
  then show "allocate_block m = (m, 0)"
    by (intro allocate_block_none) (simp add: avail_blocks_empty)
next
  fix m m' b
  assume ok: "alloc_ok m" and ne: "avail_blocks m \<noteq> {}" and al: "allocate_block m = (m', b)"
  from ok show "b \<in> avail_blocks m \<and> b \<noteq> 0 \<and> alloc_ok m'
      \<and> avail_blocks m' = avail_blocks m - {b} \<and> free_block m' b = (if b \<in> kept_blocks m then m' else m)"
  proof (cases rule: allocate_block_cases)
    case full
    with ok ne show ?thesis by (simp add: avail_blocks_empty)
  next
    case (got c)
    with al have m': "m' = bitvector_clear m 2048 (unat b)" and c: "c = b" by auto
    have "avail_blocks m' = avail_blocks m - {b}"
      unfolding m' by (rule avail_blocks_clear)
    moreover have "b \<in> avail_blocks m"
      using got(3) unfolding c avail_blocks_def by (rule CollectI)
    ultimately show ?thesis
      using got(2,6,7) unfolding m' c kept_blocks_def by simp
  qed
qed

end
