(* ===== verification/Ospfs_View.thy ===== *)
theory Ospfs_View
  imports Ospfs_Alloc
begin

text \<open>
  The accessors of an inode against every write the file-system code performs: one rule
  per reader and writer, collected in \<open>fview\<close>, so that the proofs about block allocation
  read the disk by simplification only.
\<close>

named_theorems fview \<open>inode fields, block entries and free bits after a write\<close>

lemma field_write:
  "set_size m p v = put32 m (p + 0) v" "set_ftype m p v = put32 m (p + 4) v"
  "set_nlink m p v = put32 m (p + 8) v" "set_mode m p v = put32 m (p + 12) v"
  "set_direct m p i v = put32 m (p + (16 + 4 * i)) v"
  "set_indirect m p v = put32 m (p + 56) v" "set_indirect2 m p v = put32 m (p + 60) v"
  by (simp_all add: inode_fields add.assoc)

lemma field_read:
  "oi_size m p = get32 m (p + 0)" "oi_ftype m p = get32 m (p + 4)"
  "oi_nlink m p = get32 m (p + 8)" "oi_mode m p = get32 m (p + 12)"
  "oi_direct m p i = get32 m (p + (16 + 4 * i))"
  "oi_indirect m p = get32 m (p + 56)" "oi_indirect2 m p = get32 m (p + 60)"
  by (simp_all add: inode_fields add.assoc)

lemma area_fields [fview]:
  assumes "lay m" "inode_at m p"
  shows "lay (set_size m p v)" "lay (set_direct m p i v)" "lay (set_indirect m p v)" "lay (set_indirect2 m p v)"
    "data_blk (set_size m p v) b = data_blk m b" "data_blk (set_direct m p i v) b = data_blk m b"
    "data_blk (set_indirect m p v) b = data_blk m b" "data_blk (set_indirect2 m p v) b = data_blk m b"
    "inode_at (set_size m p v) q = inode_at m q" "inode_at (set_direct m p i v) q = inode_at m q"
    "inode_at (set_indirect m p v) q = inode_at m q" "inode_at (set_indirect2 m p v) q = inode_at m q"
    "os_nblocks (set_size m p v) = os_nblocks m" "os_nblocks (set_direct m p i v) = os_nblocks m"
    "os_nblocks (set_indirect m p v) = os_nblocks m" "os_nblocks (set_indirect2 m p v) = os_nblocks m"
    "os_ninodes (set_size m p v) = os_ninodes m" "os_ninodes (set_direct m p i v) = os_ninodes m"
    "os_ninodes (set_indirect m p v) = os_ninodes m" "os_ninodes (set_indirect2 m p v) = os_ninodes m"
    "os_firstinob (set_size m p v) = os_firstinob m" "os_firstinob (set_direct m p i v) = os_firstinob m"
    "os_firstinob (set_indirect m p v) = os_firstinob m" "os_firstinob (set_indirect2 m p v) = os_firstinob m"
    "first_data (set_size m p v) = first_data m" "first_data (set_direct m p i v) = first_data m"
    "first_data (set_indirect m p v) = first_data m" "first_data (set_indirect2 m p v) = first_data m"
  using assms unfolding field_write by (simp_all only: area_inode)

lemmas area_views [fview] = area_clear area_set area_zero area_entry

lemma fields_clear [fview]:
  assumes "lay m" "inode_at m p" "k < unat (os_nblocks m)"
  shows "oi_size (bitvector_clear m 2048 k) p = oi_size m p" "oi_ftype (bitvector_clear m 2048 k) p = oi_ftype m p"
    "oi_nlink (bitvector_clear m 2048 k) p = oi_nlink m p" "oi_mode (bitvector_clear m 2048 k) p = oi_mode m p"
    "oi_direct (bitvector_clear m 2048 k) p i = oi_direct m p i" "oi_indirect (bitvector_clear m 2048 k) p = oi_indirect m p"
    "oi_indirect2 (bitvector_clear m 2048 k) p = oi_indirect2 m p"
  using assms unfolding field_read by (simp_all only: cell_clear)

lemma fields_set [fview]:
  assumes "lay m" "inode_at m p" "k < unat (os_nblocks m)"
  shows "oi_size (bitvector_set m 2048 k) p = oi_size m p" "oi_ftype (bitvector_set m 2048 k) p = oi_ftype m p"
    "oi_nlink (bitvector_set m 2048 k) p = oi_nlink m p" "oi_mode (bitvector_set m 2048 k) p = oi_mode m p"
    "oi_direct (bitvector_set m 2048 k) p i = oi_direct m p i" "oi_indirect (bitvector_set m 2048 k) p = oi_indirect m p"
    "oi_indirect2 (bitvector_set m 2048 k) p = oi_indirect2 m p"
  using assms unfolding field_read by (simp_all only: cell_clear)

lemma fields_zero [fview]:
  assumes "lay m" "inode_at m p" "data_blk m c"
  shows "oi_size (zero_block m c) p = oi_size m p" "oi_ftype (zero_block m c) p = oi_ftype m p"
    "oi_nlink (zero_block m c) p = oi_nlink m p" "oi_mode (zero_block m c) p = oi_mode m p"
    "i < 10 \<Longrightarrow> oi_direct (zero_block m c) p i = oi_direct m p i" "oi_indirect (zero_block m c) p = oi_indirect m p"
    "oi_indirect2 (zero_block m c) p = oi_indirect2 m p"
  using assms unfolding field_read by (simp_all add: cell_zero cell_zero [of m p c 0, simplified])

lemma fields_entry [fview]:
  assumes "lay m" "inode_at m p" "data_blk m c"
  shows "oi_size (set_block_entry m c j v) p = oi_size m p" "oi_ftype (set_block_entry m c j v) p = oi_ftype m p"
    "oi_nlink (set_block_entry m c j v) p = oi_nlink m p" "oi_mode (set_block_entry m c j v) p = oi_mode m p"
    "i < 10 \<Longrightarrow> oi_direct (set_block_entry m c j v) p i = oi_direct m p i" "oi_indirect (set_block_entry m c j v) p = oi_indirect m p"
    "oi_indirect2 (set_block_entry m c j v) p = oi_indirect2 m p"
  using assms unfolding field_read by (simp_all add: cell_entry cell_entry [of m p c 0, simplified])

lemma fields_set_size [fview]:
  "oi_size (set_size m p v) p = v" "oi_ftype (set_size m p v) p = oi_ftype m p"
  "oi_nlink (set_size m p v) p = oi_nlink m p" "oi_mode (set_size m p v) p = oi_mode m p"
  "oi_direct (set_size m p v) p i = oi_direct m p i" "oi_indirect (set_size m p v) p = oi_indirect m p"
  "oi_indirect2 (set_size m p v) p = oi_indirect2 m p"
  unfolding field_read field_write by (simp_all only: cell_cell(1)) (rule cell_cell; simp)+

lemma fields_set_direct [fview]:
  "oi_size (set_direct m p j v) p = oi_size m p" "oi_ftype (set_direct m p j v) p = oi_ftype m p"
  "oi_nlink (set_direct m p j v) p = oi_nlink m p" "oi_mode (set_direct m p j v) p = oi_mode m p"
  "oi_direct (set_direct m p j v) p i = (if i = j then v else oi_direct m p i)"
  "j < 10 \<Longrightarrow> oi_indirect (set_direct m p j v) p = oi_indirect m p"
  "j < 10 \<Longrightarrow> oi_indirect2 (set_direct m p j v) p = oi_indirect2 m p"
proof -
  show "oi_direct (set_direct m p j v) p i = (if i = j then v else oi_direct m p i)"
  proof (cases "i = j")
    case False
    then have "16 + 4 * j + 4 \<le> 16 + 4 * i \<or> 16 + 4 * i + 4 \<le> 16 + 4 * j" by linarith
    with False show ?thesis unfolding field_read field_write by (simp only: cell_cell if_False)
  qed (simp add: field_read field_write)
qed (unfold field_read field_write, (rule cell_cell; simp)+)

lemma fields_set_indirect [fview]:
  "oi_size (set_indirect m p v) p = oi_size m p" "oi_ftype (set_indirect m p v) p = oi_ftype m p"
  "oi_nlink (set_indirect m p v) p = oi_nlink m p" "oi_mode (set_indirect m p v) p = oi_mode m p"
  "i < 10 \<Longrightarrow> oi_direct (set_indirect m p v) p i = oi_direct m p i"
  "oi_indirect (set_indirect m p v) p = v"
  "oi_indirect2 (set_indirect m p v) p = oi_indirect2 m p"
  unfolding field_read field_write by (rule cell_cell; simp)+

lemma fields_set_indirect2 [fview]:
  "oi_size (set_indirect2 m p v) p = oi_size m p" "oi_ftype (set_indirect2 m p v) p = oi_ftype m p"
  "oi_nlink (set_indirect2 m p v) p = oi_nlink m p" "oi_mode (set_indirect2 m p v) p = oi_mode m p"
  "i < 10 \<Longrightarrow> oi_direct (set_indirect2 m p v) p i = oi_direct m p i"
  "oi_indirect (set_indirect2 m p v) p = oi_indirect m p"
  "oi_indirect2 (set_indirect2 m p v) p = v"
  unfolding field_read field_write by (rule cell_cell; simp)+

lemma entry_fields [fview]:
  assumes "lay m" "data_blk m b" "inode_at m p"
  shows "block_entry (set_size m p v) b i = block_entry m b i"
    "j < 10 \<Longrightarrow> block_entry (set_direct m p j v) b i = block_entry m b i"
    "block_entry (set_indirect m p v) b i = block_entry m b i"
    "block_entry (set_indirect2 m p v) b i = block_entry m b i"
  using assms unfolding field_write by (simp_all add: entry_cell entry_cell [of m b p 0, simplified])

lemmas entry_views [fview] = entry_bit entry_zero entry_entry

lemma bit_fields [fview]:
  assumes "lay m" "inode_at m p" "k < unat (os_nblocks m)"
  shows "bitvector_test (set_size m p v) 2048 k = bitvector_test m 2048 k"
    "bitvector_test (set_direct m p j v) 2048 k = bitvector_test m 2048 k"
    "bitvector_test (set_indirect m p v) 2048 k = bitvector_test m 2048 k"
    "bitvector_test (set_indirect2 m p v) 2048 k = bitvector_test m 2048 k"
  using assms unfolding field_write by (simp_all only: bit_cell)

lemmas bit_views [fview] = bit_zero bit_entry

lemma free_views [fview]:
  assumes "lay m"
  shows "inode_at m p \<Longrightarrow> free_set (set_size m p v) = free_set m"
    "inode_at m p \<Longrightarrow> free_set (set_direct m p j v) = free_set m"
    "inode_at m p \<Longrightarrow> free_set (set_indirect m p v) = free_set m"
    "inode_at m p \<Longrightarrow> free_set (set_indirect2 m p v) = free_set m"
    "data_blk m c \<Longrightarrow> free_set (zero_block m c) = free_set m"
    "data_blk m c \<Longrightarrow> free_set (set_block_entry m c i v) = free_set m"
    "free_set (bitvector_clear m 2048 k) = free_set m - {k}"
  using assms by (auto simp: free_set_def fview)

lemma free_block_views [fview]:
  assumes "lay m" "data_blk m x"
  shows "lay (free_block m x)" "data_blk (free_block m x) b = data_blk m b" "inode_at (free_block m x) q = inode_at m q"
    "os_nblocks (free_block m x) = os_nblocks m" "os_ninodes (free_block m x) = os_ninodes m"
    "os_firstinob (free_block m x) = os_firstinob m" "first_data (free_block m x) = first_data m"
    "inode_at m q \<Longrightarrow> oi_size (free_block m x) q = oi_size m q"
    "inode_at m q \<Longrightarrow> oi_ftype (free_block m x) q = oi_ftype m q"
    "inode_at m q \<Longrightarrow> oi_direct (free_block m x) q i = oi_direct m q i"
    "inode_at m q \<Longrightarrow> oi_indirect (free_block m x) q = oi_indirect m q"
    "inode_at m q \<Longrightarrow> oi_indirect2 (free_block m x) q = oi_indirect2 m q"
    "data_blk m b \<Longrightarrow> block_entry (free_block m x) b i = block_entry m b i"
    "free_set (free_block m x) = free_set m \<union> ({unat x} - {guard m})"
  using assms(1) assms(2) [unfolded data_blk_def] free_set_free_block [OF assms]
  by (auto simp: free_block_data [OF assms] fview)

end
