(* ===== verification/Ospfs_Blocks.thy ===== *)
theory Ospfs_Blocks
  imports Ospfs_View
begin

text \<open>
  File growth in File_System/ospfsmod.c: the index functions that unpack a file block
  number, and \<open>add_block\<close>, \<open>remove_block\<close>, \<open>change_size\<close>.  All of them run on the byte memory;
  an inode is passed as the pointer \<open>oi\<close>.
\<close>

section \<open>Index functions\<close>

definition indir2_index :: "u32 \<Rightarrow> int" where
  "indir2_index b = (if b \<ge> OSPFS_NDIRECT + OSPFS_NINDIRECT then 0 else -1)"

definition indir_index :: "u32 \<Rightarrow> int" where
  "indir_index b =
     (if b < OSPFS_NDIRECT then -1
      else if b < OSPFS_NDIRECT + OSPFS_NINDIRECT then 0
      else sint ((b - OSPFS_NDIRECT - OSPFS_NINDIRECT) div OSPFS_NINDIRECT))"

definition direct_index :: "u32 \<Rightarrow> int" where
  "direct_index b =
     (if b < OSPFS_NDIRECT then sint b
      else sint ((b - OSPFS_NDIRECT) mod OSPFS_NINDIRECT))"

lemma index_direct:
  "unat n < 10 \<Longrightarrow> indir_index n = -1 \<and> direct_index n = int (unat n)"
  using sint_small [of n] by (simp add: indir_index_def direct_index_def word_less_nat_alt)

lemma index_indirect:
  assumes "10 \<le> unat n" "unat n < 266"
  shows "indir_index n = 0" "direct_index n = int (unat n - 10)"
proof -
  show "indir_index n = 0"
    using assms by (simp add: indir_index_def word_less_nat_alt)
  have "unat (n - 10) = unat n - 10"
    using assms by (simp add: unat_sub word_le_nat_alt)
  then have "unat ((n - 10) mod 256) = unat n - 10"
    using assms by (simp add: unat_mod)
  then show "direct_index n = int (unat n - 10)"
    using assms by (simp add: direct_index_def word_less_nat_alt sint_small)
qed

section \<open>Growing a file by one block\<close>

definition add_block_direct :: "mem \<Rightarrow> nat \<Rightarrow> u32 \<Rightarrow> mem \<times> (errno + unit)" where
  "add_block_direct m oi n =
     (let (m, new_block) = allocate_block m in
      if new_block = 0 then (m, Inl ENOSPC)
      else (set_direct (zero_block m new_block) oi (unat n) new_block, Inr ()))"

definition add_block_indirect :: "mem \<Rightarrow> nat \<Rightarrow> u32 \<Rightarrow> mem \<times> (errno + unit)" where
  "add_block_indirect m oi n =
     (let need = (oi_indirect m oi = 0);
          (m, allocated0) = (if need then allocate_block m else (m, 0)) in
      if need \<and> allocated0 = 0 then (m, Inl ENOSPC)
      else
        let m = (if need then set_indirect (zero_block m allocated0) oi allocated0 else m);
            (m, new_block) = allocate_block m
        in if new_block = 0 then
             (let m = free_block m allocated0;
                  m = (if allocated0 \<noteq> 0 then set_indirect m oi 0 else m)
              in (m, Inl ENOSPC))
           else
             (let m = zero_block m new_block
              in (set_block_entry m (oi_indirect m oi) (nat (direct_index n)) new_block, Inr ())))"

definition add_block_indirect2 :: "mem \<Rightarrow> nat \<Rightarrow> u32 \<Rightarrow> mem \<times> (errno + unit)" where
  "add_block_indirect2 m oi n =
     (let need = (oi_indirect2 m oi = 0);
          (m, allocated1) = (if need then allocate_block m else (m, 0)) in
      if need \<and> allocated1 = 0 then (m, Inl ENOSPC)
      else
        let m = (if need then set_indirect2 (zero_block m allocated1) oi allocated1 else m);
            indirect2_block = oi_indirect2 m oi;
            ii = nat (indir_index n);
            fresh = (block_entry m indirect2_block ii = 0);
            (m, allocated0) = (if fresh then allocate_block m else (m, 0))
        in if fresh \<and> allocated0 = 0 then
             (let m = free_block m allocated1;
                  m = (if allocated1 \<noteq> 0 then set_indirect2 m oi 0 else m)
              in (m, Inl ENOSPC))
           else
             let m = (if fresh
                      then set_block_entry (zero_block m allocated0) indirect2_block ii allocated0
                      else m);
                 (m, new_block) = allocate_block m
             in if new_block = 0 then
                  (let m = free_block m allocated0;
                       m = (if allocated0 \<noteq> 0
                            then set_block_entry m indirect2_block ii 0 else m);
                       m = free_block m allocated1;
                       m = (if allocated1 \<noteq> 0 then set_indirect2 m oi 0 else m)
                   in (m, Inl ENOSPC))
                else
                  (let m = zero_block m new_block
                   in (set_block_entry m (block_entry m indirect2_block ii)
                         (nat (direct_index n)) new_block, Inr ())))"

definition add_block :: "mem \<Rightarrow> nat \<Rightarrow> mem \<times> (errno + unit)" where
  "add_block m oi =
     (let n = ospfs_size2nblocks (oi_size m oi);
          (m, r) = (if indir_index n = -1 then add_block_direct m oi n
                    else if indir_index n = 0 then add_block_indirect m oi n
                    else if indir2_index n = 0 then add_block_indirect2 m oi n
                    else (m, Inl ENOSPC))
      in case r of Inl e \<Rightarrow> (m, Inl e)
         | Inr _ \<Rightarrow> (set_size m oi (oi_size m oi + OSPFS_BLKSIZE), Inr ()))"

section \<open>Shrinking a file by one block\<close>

definition remove_block_direct :: "mem \<Rightarrow> nat \<Rightarrow> u32 \<Rightarrow> mem \<times> (errno + unit)" where
  "remove_block_direct m oi last_block =
     (let i = unat last_block in
      if oi_direct m oi i = 0 then (m, Inl EIO)
      else (set_direct (free_block m (oi_direct m oi i)) oi i 0, Inr ()))"

definition remove_block_indirect :: "mem \<Rightarrow> nat \<Rightarrow> u32 \<Rightarrow> mem \<times> (errno + unit)" where
  "remove_block_indirect m oi last_block =
     (if oi_indirect m oi = 0 then (m, Inl EIO)
      else
        let indirect_block = oi_indirect m oi;
            index = nat (direct_index last_block)
        in if block_entry m indirect_block index = 0 then (m, Inl EIO)
           else
             let m = free_block m (block_entry m indirect_block index);
                 m = set_block_entry m indirect_block index 0;
                 m = (if index = 0
                      then set_indirect (free_block m (oi_indirect m oi)) oi 0 else m)
             in (m, Inr ()))"

definition remove_block_indirect2 :: "mem \<Rightarrow> nat \<Rightarrow> u32 \<Rightarrow> mem \<times> (errno + unit)" where
  "remove_block_indirect2 m oi last_block =
     (if oi_indirect2 m oi = 0 then (m, Inl EIO)
      else
        let indirect2_block = oi_indirect2 m oi;
            indirect_index = nat (indir_index last_block)
        in if block_entry m indirect2_block indirect_index = 0 then (m, Inl EIO)
           else
             let indirect_block = block_entry m indirect2_block indirect_index;
                 dir_index = nat (direct_index last_block)
             in if block_entry m indirect_block dir_index = 0 then (m, Inl EIO)
                else
                  let m = free_block m (block_entry m indirect_block dir_index);
                      m = set_block_entry m indirect_block dir_index 0;
                      m = (if dir_index = 0 then
                             (let m = set_indirect (free_block m (oi_indirect m oi)) oi 0
                              in if indirect_index = 0
                                 then set_indirect2 (free_block m (oi_indirect2 m oi)) oi 0
                                 else m)
                           else m)
                  in (m, Inr ()))"

definition remove_block :: "mem \<Rightarrow> nat \<Rightarrow> mem \<times> (errno + unit)" where
  "remove_block m oi =
     (let n = ospfs_size2nblocks (oi_size m oi);
          last_block = n - 1
      in if n = 0 then (m, Inr ())
         else
           let (m, r) =
                 (if last_block < OSPFS_NDIRECT then remove_block_direct m oi last_block
                  else if last_block < OSPFS_NDIRECT + OSPFS_NINDIRECT
                    then remove_block_indirect m oi last_block
                  else if last_block < OSPFS_MAXFILEBLKS
                    then remove_block_indirect2 m oi last_block
                  else (m, Inl EIO))
           in case r of Inl e \<Rightarrow> (m, Inl e)
              | Inr _ \<Rightarrow> (set_size m oi (oi_size m oi - OSPFS_BLKSIZE), Inr ()))"

section \<open>Changing a file's size\<close>

text \<open>
  The loops of \<open>change_size\<close> need not end (see \<open>change_size_full_disk\<close> below), so they
  are partial functions: \<open>None\<close> is "does not return".  \<open>shrink_to\<close> is the loop that
  removes blocks down to the size \<open>target\<close>; it occurs twice in the code, once to undo a
  failed growth and once to shrink the file.
\<close>

partial_function (option) shrink_to ::
    "mem \<Rightarrow> nat \<Rightarrow> u32 \<Rightarrow> (mem \<times> (errno + unit)) option" where
  "shrink_to m oi target =
     (if ospfs_size2nblocks (oi_size m oi) > ospfs_size2nblocks target then
        (case remove_block m oi of
           (m', Inl e) \<Rightarrow> Some (m', Inl e)
         | (m', Inr _) \<Rightarrow> shrink_to m' oi target)
      else Some (m, Inr ()))"

partial_function (option) grow_to ::
    "mem \<Rightarrow> nat \<Rightarrow> u32 \<Rightarrow> u32 \<Rightarrow> (mem \<times> (errno + unit)) option" where
  "grow_to m oi old_size new_size =
     (if ospfs_size2nblocks (oi_size m oi) < ospfs_size2nblocks new_size then
        (case add_block m oi of
           (m', r) \<Rightarrow>
             if r = Inl EIO then Some (m', r)
             else if r = Inl ENOSPC then
               Option.bind (shrink_to m' oi old_size)
                 (\<lambda>(m'', r'). if isl r' then Some (m'', r')
                    else grow_to m'' oi old_size new_size)
             else grow_to m' oi old_size new_size)
      else Some (m, Inr ()))"

definition change_size :: "mem \<Rightarrow> nat \<Rightarrow> u32 \<Rightarrow> (mem \<times> (errno + unit)) option" where
  "change_size m oi new_size =
     Option.bind (grow_to m oi (oi_size m oi) new_size)
       (\<lambda>(m, r). if isl r then Some (m, r)
          else Option.bind (shrink_to m oi new_size)
                 (\<lambda>(m, r). if isl r then Some (m, r)
                    else Some (set_size m oi new_size, Inr ())))"

end
