(* ===== verification/Ospfs_Grow.thy ===== *)
theory Ospfs_Grow
  imports Ospfs_Blocks
begin

text \<open>
  Correctness of \<open>add_block\<close>, \<open>remove_block\<close> and \<open>change_size\<close> (File_System/ospfsmod.c) for files
  of up to 266 blocks: the abstract view of a file as its list of blocks, the frame of
  each operation (what it may touch), conservation of the blocks a file and the free map
  hold together, and what happens when the disk is full.
\<close>

section \<open>A file's blocks\<close>

definition nblk :: "mem \<Rightarrow> nat \<Rightarrow> nat" where
  "nblk m p = unat (ospfs_size2nblocks (oi_size m p))"

definition fblk :: "mem \<Rightarrow> nat \<Rightarrow> nat \<Rightarrow> u32" where
  "fblk m p i =
     (if i < 10 then oi_direct m p i
      else if i < 266 then block_entry m (oi_indirect m p) (i - 10)
      else block_entry m (block_entry m (oi_indirect2 m p) ((i - 266) div 256)) ((i - 266) mod 256))"

lemma ospfs_inode_blockno_fblk:
  assumes "unat off < unat (oi_size m p)" "oi_ftype m p \<noteq> OSPFS_FTYPE_SYMLINK"
  shows "ospfs_inode_blockno m p off = fblk m p (unat off div 1024)"
proof -
  let ?b = "off div 1024"
  have b: "unat ?b = unat off div 1024" by (simp add: unat_div)
  have off: "\<not> oi_size m p \<le> off" using assms(1) by (simp add: word_le_nat_alt)
  consider (d) "unat ?b < 10" | (i) "10 \<le> unat ?b" "unat ?b < 266" | (ii) "266 \<le> unat ?b"
    by linarith
  then show ?thesis
  proof cases
    case d
    then show ?thesis using off assms(2)
      by (simp add: ospfs_inode_blockno_def fblk_def Let_def word_le_nat_alt b)
  next
    case i
    then have "unat (?b - 10) = unat ?b - 10" by (simp add: unat_sub word_le_nat_alt)
    with i show ?thesis using off assms(2)
      by (simp add: ospfs_inode_blockno_def fblk_def Let_def word_le_nat_alt b)
  next
    case ii
    then have "unat (?b - 266) = unat ?b - 266" by (simp add: unat_sub word_le_nat_alt)
    with ii show ?thesis using off assms(2)
      by (simp add: ospfs_inode_blockno_def fblk_def Let_def word_le_nat_alt b unat_div unat_mod)
  qed
qed

definition file_blocks :: "mem \<Rightarrow> nat \<Rightarrow> u32 list" where
  "file_blocks m p = map (fblk m p) [0..<nblk m p]"

definition all_blocks :: "mem \<Rightarrow> nat \<Rightarrow> u32 list" where
  "all_blocks m p = file_blocks m p @ (if nblk m p > 10 then [oi_indirect m p] else [])"

text \<open>
  A well-formed file of at most 266 blocks (direct and singly indirect): its blocks are
  distinct allocated data blocks, and the pointers it does not use are null.
\<close>

definition own_blk :: "mem \<Rightarrow> u32 \<Rightarrow> bool" where
  "own_blk m b \<longleftrightarrow> data_blk m b \<and> unat b \<notin> free_set m"

definition used :: "mem \<Rightarrow> nat \<Rightarrow> nat set" where
  "used m p = unat ` set (all_blocks m p)"

definition wf_file :: "mem \<Rightarrow> nat \<Rightarrow> bool" where
  "wf_file m p \<longleftrightarrow> inode_at m p \<and> oi_ftype m p \<noteq> OSPFS_FTYPE_SYMLINK
     \<and> nblk m p \<le> 266
     \<and> distinct (all_blocks m p)
     \<and> (\<forall>b\<in>set (all_blocks m p). own_blk m b)
     \<and> (nblk m p \<le> 10 \<longrightarrow> oi_indirect m p = 0) \<and> oi_indirect2 m p = 0"

text \<open>
  \<open>frame m m' p B\<close>: \<open>m'\<close> differs from \<open>m\<close> only in the free map, the inode at \<open>p\<close> and the
  blocks \<open>B\<close>.
\<close>

definition frame :: "mem \<Rightarrow> mem \<Rightarrow> nat \<Rightarrow> nat set \<Rightarrow> bool" where
  "frame m m' p B \<longleftrightarrow> (\<forall>x. (x < 2048 \<or> unat (os_firstinob m) * 1024 \<le> x)
     \<and> \<not> (p \<le> x \<and> x < p + 64) \<and> x div 1024 \<notin> B \<longrightarrow> m' x = m x)"

lemma frame_refl [simp]: "frame m m p B"
  by (simp add: frame_def)

lemma frame_trans:
  assumes "frame m m1 p B" "frame m1 m2 p C" "os_firstinob m1 = os_firstinob m" "B \<union> C \<subseteq> D"
  shows "frame m m2 p D"
  unfolding frame_def
proof (intro allI impI, elim conjE)
  fix x assume x: "x < 2048 \<or> unat (os_firstinob m) * 1024 \<le> x"
    "\<not> (p \<le> x \<and> x < p + 64)" "x div 1024 \<notin> D"
  then have "x div 1024 \<notin> B" "x div 1024 \<notin> C" using assms(4) by auto
  with x assms(1-3) show "m2 x = m x" unfolding frame_def by metis
qed

lemma frame_mono: "frame m m' p B \<Longrightarrow> B \<subseteq> C \<Longrightarrow> frame m m' p C"
  by (auto simp: frame_def)

lemma frame_clear: "lay m \<Longrightarrow> k < unat (os_nblocks m) \<Longrightarrow> frame m (bitvector_clear m 2048 k) p B"
  using bit_word_in_map [of m k] by (auto simp: frame_def intro!: bitvector_clear_byte)

lemma frame_set: "lay m \<Longrightarrow> k < unat (os_nblocks m) \<Longrightarrow> frame m (bitvector_set m 2048 k) p B"
  using bit_word_in_map [of m k] by (auto simp: frame_def intro!: bitvector_set_byte)

lemma frame_free: "lay m \<Longrightarrow> data_blk m b \<Longrightarrow> frame m (free_block m b) p B"
  using frame_set [of m "unat b"] by (simp add: free_block_data data_blk_def)

lemma frame_cell: "x \<le> 60 \<Longrightarrow> frame m (put32 m (p + x) v) p B"
  by (auto simp: frame_def intro!: put32_byte_other)

lemma in_block_div:
  "lay m \<Longrightarrow> data_blk m b \<Longrightarrow> x div 1024 \<noteq> unat b \<Longrightarrow>
    x < ospfs_block b \<or> ospfs_block b + 1024 \<le> x"
  by (simp add: data_blk_addr) (metis add.commute div_less_iff_less_mult div_nat_eqI
      mult.commute mult_Suc not_le zero_less_numeral)

lemma frame_zero:
  "lay m \<Longrightarrow> data_blk m b \<Longrightarrow> unat b \<in> B \<Longrightarrow> frame m (zero_block m b) p B"
  unfolding frame_def zero_block_def
proof (intro allI impI, elim conjE)
  fix x assume h: "lay m" "data_blk m b" "unat b \<in> B" "x div 1024 \<notin> B"
  then have "x < ospfs_block b \<or> ospfs_block b + 1024 \<le> x" by (intro in_block_div) auto
  then show "mem_fill m (ospfs_block b) 0 1024 x = m x" by (auto simp: mem_fill_byte)
qed

lemma frame_entry:
  "lay m \<Longrightarrow> data_blk m b \<Longrightarrow> i < 256 \<Longrightarrow> unat b \<in> B \<Longrightarrow> frame m (set_block_entry m b i v) p B"
  unfolding frame_def set_block_entry_def
proof (intro allI impI, elim conjE)
  fix x assume h: "lay m" "data_blk m b" "i < 256" "unat b \<in> B" "x div 1024 \<notin> B"
  then have "x < ospfs_block b \<or> ospfs_block b + 1024 \<le> x" by (intro in_block_div) auto
  with h(3) show "put32 m (ospfs_block b + 4 * i) v x = m x"
    by (intro put32_byte_other) linarith
qed

definition own_ptrs :: "mem \<Rightarrow> nat \<Rightarrow> nat set" where
  "own_ptrs m p = (if nblk m p > 10 then {unat (oi_indirect m p)} else {})"

definition super :: "mem \<Rightarrow> u32 \<times> u32 \<times> u32" where
  "super m = (os_nblocks m, os_ninodes m, os_firstinob m)"

lemma super_eq:
  assumes "super m' = super m"
  shows "os_nblocks m' = os_nblocks m" "os_ninodes m' = os_ninodes m" "os_firstinob m' = os_firstinob m"
    "lay m' = lay m" "data_blk m' b = data_blk m b" "inode_at m' p = inode_at m p"
    "first_data m' = first_data m" "guard m' = guard m"
  using assms by (simp_all add: super_def lay_def data_blk_def inode_at_def first_data_def guard_def)

lemma own_blk_mono:
  "super m' = super m \<Longrightarrow> free_set m' \<subseteq> free_set m \<Longrightarrow> own_blk m c \<Longrightarrow> own_blk m' c"
  unfolding own_blk_def by (simp add: super_eq [of m' m] subset_iff) blast

lemma own_blk_new:
  "alloc_ok m \<Longrightarrow> data_blk m b \<Longrightarrow> unat b \<in> free_set m \<Longrightarrow> super m' = super m \<Longrightarrow>
    unat b \<notin> free_set m' \<Longrightarrow> own_blk m' b"
  unfolding own_blk_def alloc_ok_def by (simp add: super_eq [of m' m])

definition grown :: "mem \<Rightarrow> mem \<Rightarrow> nat \<Rightarrow> u32 \<Rightarrow> bool" where
  "grown m m' p b \<longleftrightarrow> alloc_ok m' \<and> wf_file m' p
     \<and> file_blocks m' p = file_blocks m p @ [b] \<and> unat b \<in> free_set m
     \<and> (\<forall>i<1024. m' (unat b * 1024 + i) = 0)
     \<and> oi_size m' p = oi_size m p + 1024
     \<and> super m' = super m \<and> free_set m' \<union> used m' p = free_set m \<union> used m p
     \<and> free_set m' \<subseteq> free_set m
     \<and> frame m m' p (free_set m \<union> own_ptrs m p)"

lemma nblk_word: "nblk m p = unat (oi_size m p + 1023) div 1024"
proof -
  have "ospfs_size2nblocks (oi_size m p) = (oi_size m p + 1023) div 1024"
    by (simp add: ospfs_size2nblocks_def add.commute)
  then show ?thesis by (simp add: nblk_def unat_div)
qed

lemma size2nblocks_nblk: "unat (ospfs_size2nblocks s) = unat (s + 1023) div 1024"
proof -
  have "ospfs_size2nblocks s = (s + 1023) div 1024"
    by (simp add: ospfs_size2nblocks_def add.commute)
  then show ?thesis by (simp add: unat_div)
qed

text \<open>One block more or less, also when the size wraps below zero.\<close>

lemma size_step_gen:
  assumes "nblk m p < 1000"
  shows "unat (ospfs_size2nblocks (oi_size m p + 1024)) = Suc (nblk m p)"
proof -
  let ?t = "oi_size m p + 1023"
  have "unat ?t < 1000 * 1024"
    using assms unfolding nblk_word by (simp only: div_less_iff_less_mult)
  then have "unat (?t + 1024) = unat ?t + 1024"
    by (subst unat_add_lem [THEN iffD1]) simp_all
  moreover have "oi_size m p + 1024 + 1023 = ?t + 1024" by simp
  ultimately show ?thesis by (simp add: size2nblocks_nblk nblk_word del: add_Suc_right)
qed

lemma size_step:
  "nblk m p < 266 \<Longrightarrow> unat (ospfs_size2nblocks (oi_size m p + 1024)) = Suc (nblk m p)"
  by (rule size_step_gen) simp

lemma size_back:
  assumes "0 < nblk m p"
  shows "unat (ospfs_size2nblocks (oi_size m p - 1024)) = nblk m p - 1"
proof -
  let ?t = "oi_size m p + 1023"
  have "1024 \<le> unat ?t"
    using assms unfolding nblk_word by (metis div_less neq0_conv not_le)
  then have "1024 \<le> ?t" by (simp add: word_le_nat_alt)
  then have "unat (?t - 1024) = unat ?t - unat (1024 :: u32)" by (rule unat_sub)
  then have "unat (?t - 1024) = unat ?t - 1024" by (simp only: unat_numeral) simp
  moreover have "oi_size m p - 1024 + 1023 = ?t - 1024" by simp
  moreover have "(unat ?t - 1024) div 1024 = unat ?t div 1024 - 1"
    using \<open>1024 \<le> unat ?t\<close> by (simp add: le_div_geq)
  ultimately show ?thesis by (simp only: size2nblocks_nblk nblk_word)
qed

lemma inode_block_apart:
  "lay m \<Longrightarrow> inode_at m p \<Longrightarrow> data_blk m b \<Longrightarrow> p + 64 \<le> unat b * 1024"
  by (simp add: inode_at_def data_blk_def)

lemma zero_block_byte: "lay m \<Longrightarrow> data_blk m b \<Longrightarrow> i < 1024 \<Longrightarrow> zero_block m b (unat b * 1024 + i) = 0"
  by (simp add: zero_block_def mem_fill_byte data_blk_addr)

lemma frame_keeps_zero:
  assumes "lay m" "data_blk m b" "inode_at m p" "frame (zero_block m b) m' p B" "unat b \<notin> B" "i < 1024"
  shows "m' (unat b * 1024 + i) = 0"
proof -
  have "(unat b * 1024 + i) div 1024 = unat b" using assms(6) by simp
  moreover have "p + 64 \<le> unat b * 1024 + i" using inode_block_apart [OF assms(1,3,2)] by simp
  moreover have "unat (os_firstinob m) * 1024 \<le> unat b * 1024 + i"
    using assms(2) by (simp add: data_blk_def first_data_def)
  ultimately have "m' (unat b * 1024 + i) = zero_block m b (unat b * 1024 + i)"
    using assms(4,5) unfolding frame_def area_zero(3) [OF assms(1,2)] by auto
  then show ?thesis using zero_block_byte [OF assms(1,2,6)] by simp
qed

lemma add_block_direct_ok:
  assumes ok: "alloc_ok m" and wf: "wf_file m p" and n: "nblk m p < 10"
  shows "add_block m p = (m, Inl ENOSPC) \<and> free_set m = {} \<or>
     (\<exists>m' b. add_block m p = (m', Inr ()) \<and> grown m m' p b)"
  using ok
proof (cases rule: allocate_block_cases)
  case full
  then show ?thesis using index_direct [of "ospfs_size2nblocks (oi_size m p)"] n
    by (simp add: add_block_def add_block_direct_def nblk_def)
next
  case (got b)
  let ?n = "nblk m p"
  let ?m1 = "bitvector_clear m 2048 (unat b)"
  let ?m2 = "zero_block ?m1 b"
  let ?m3 = "set_direct ?m2 p ?n b"
  let ?m4 = "set_size ?m3 p (oi_size m p + 1024)"
  have lay: "lay m" and at: "inode_at m p" and bN: "unat b < unat (os_nblocks m)"
    using ok wf got(4) by (auto simp: alloc_ok_def wf_file_def data_blk_def)
  have n9: "\<not> 10 < nblk m p" "\<not> 10 < Suc (nblk m p)" "nblk m p \<le> 10" "nblk m p < 266"
    "nblk m p \<le> 11" using n by linarith+
  have ind0: "oi_indirect m p = 0" using wf n9(3) by (simp add: wf_file_def)
  note [simp] = fview lay at got(4) bN n
  have sz: "oi_size ?m3 p = oi_size m p" by simp
  have run: "add_block m p = (?m4, Inr ())"
    using index_direct [of "ospfs_size2nblocks (oi_size m p)"] n got(1,2) sz
    by (simp add: add_block_def add_block_direct_def nblk_def)
  have nb: "nblk ?m4 p = Suc ?n" using size_step [OF n9(4)] by (simp add: nblk_def)
  have fb: "fblk ?m4 p i = (if i = ?n then b else fblk m p i)" if "i < Suc ?n" for i
  proof -
    have "i < 10" using that n by linarith
    then show ?thesis by (simp add: fblk_def)
  qed
  have fbs: "file_blocks ?m4 p = file_blocks m p @ [b]"
    unfolding file_blocks_def nb using fb by simp
  have all: "all_blocks ?m4 p = file_blocks m p @ [b]" "all_blocks m p = file_blocks m p"
    unfolding all_blocks_def nb fbs by (simp_all only: n9 if_False append_Nil2)
  have fs: "free_set ?m4 = free_set m - {unat b}" by simp
  have ok4: "alloc_ok ?m4" using ok by (simp add: alloc_ok_def fs)
  have sup: "super ?m4 = super m" by (simp add: super_def)
  have old: "distinct (file_blocks m p)" "\<And>c. c \<in> set (file_blocks m p) \<Longrightarrow> own_blk m c"
    using wf unfolding wf_file_def all by auto
  have wf4: "wf_file ?m4 p"
    unfolding wf_file_def all
  proof (intro conjI)
    show "distinct (file_blocks m p @ [b])" using old got(3) by (auto simp: own_blk_def)
    have "own_blk ?m4 b" by (rule own_blk_new [OF ok got(4,3) sup]) (simp add: fs)
    moreover have "own_blk ?m4 c" if "c \<in> set (file_blocks m p)" for c
      using own_blk_mono [OF sup _ old(2) [OF that]] fs by auto
    ultimately show "\<forall>c\<in>set (file_blocks m p @ [b]). own_blk ?m4 c" by simp
    show "nblk ?m4 p \<le> 266" unfolding nb using n9(4) by simp
  qed (use wf in \<open>simp_all add: wf_file_def ind0\<close>)
  have f34: "frame ?m2 ?m4 p {}"
    unfolding field_write by (rule frame_trans [OF frame_cell frame_cell]; simp add: field_write [symmetric] n9)
  have f02: "frame m ?m2 p (free_set m)"
    by (rule frame_trans [OF frame_clear frame_zero, where B = "{}" and C = "free_set m"]; simp add: got(3))
  have f: "frame m ?m4 p (free_set m \<union> own_ptrs m p)"
    by (rule frame_trans [OF f02 f34]; simp)
  have z: "\<forall>i<1024. ?m4 (unat b * 1024 + i) = 0"
    by (intro allI impI frame_keeps_zero [OF _ _ _ f34]; simp)
  have "free_set ?m4 \<union> used ?m4 p = free_set m \<union> used m p" "free_set ?m4 \<subseteq> free_set m"
    unfolding used_def all fs using got(3) by auto
  then have "grown m ?m4 p b"
    unfolding grown_def using ok4 wf4 fbs got(3) z f sup by auto
  with run show ?thesis by blast
qed

text \<open>A file whose indirect block is in place, whether or not its size needs it yet.\<close>

definition pre_indirect :: "mem \<Rightarrow> nat \<Rightarrow> u32 \<Rightarrow> bool" where
  "pre_indirect m p d \<longleftrightarrow> alloc_ok m \<and> inode_at m p \<and> oi_ftype m p \<noteq> OSPFS_FTYPE_SYMLINK
     \<and> nblk m p \<le> 265 \<and> 10 \<le> nblk m p \<and> oi_indirect m p = d
     \<and> distinct (file_blocks m p @ [d])
     \<and> (\<forall>c\<in>set (file_blocks m p @ [d]). own_blk m c)
     \<and> oi_indirect2 m p = 0"

lemma fill_indirect_entry:
  assumes pre: "pre_indirect m p d" and b: "unat b \<in> free_set m" "data_blk m b"
    and ok1: "alloc_ok (bitvector_clear m 2048 (unat b))"
    and m': "m' = set_size (set_block_entry (zero_block (bitvector_clear m 2048 (unat b)) b) d (nblk m p - 10) b)
       p (oi_size m p + 1024)"
  shows "alloc_ok m'" "wf_file m' p" "file_blocks m' p = file_blocks m p @ [b]"
    "\<forall>i<1024. m' (unat b * 1024 + i) = 0" "oi_size m' p = oi_size m p + 1024"
    "free_set m' = free_set m - {unat b}" "frame m m' p {unat b, unat d}" "super m' = super m"
    "used m' p = insert (unat b) (insert (unat d) (unat ` set (file_blocks m p)))"
proof -
  let ?n = "nblk m p"
  let ?m1 = "bitvector_clear m 2048 (unat b)"
  let ?m2 = "zero_block ?m1 b"
  have lay: "lay m" and at: "inode_at m p" and bN: "unat b < unat (os_nblocks m)"
    and d: "data_blk m d" "d \<noteq> b" "oi_indirect m p = d"
    and s: "?n \<le> 265" "10 \<le> ?n" and ok: "alloc_ok m"
    using pre b by (auto simp: alloc_ok_def pre_indirect_def data_blk_def own_blk_def)
  have n: "?n < 266" using s by linarith
  then have n': "?n - 10 < 256" "\<not> ?n < 10" "?n \<noteq> 266" "9 < ?n" using s(2) by linarith+
  note [simp] = fview lay at bN d b(2) n'
  have nb: "nblk m' p = Suc ?n" using size_step [OF n] by (simp add: nblk_def m')
  have fb: "fblk m' p i = (if i = ?n then b else fblk m p i)" if "i < Suc ?n" for i
  proof -
    have "i < 266" "i - 10 < 256" "10 \<le> i \<Longrightarrow> (i - 10 = ?n - 10) = (i = ?n)"
      using that n s(2) by linarith+
    then show ?thesis unfolding fblk_def m' by (cases "i < 10") (simp_all, use s(2) in auto)
  qed
  show fbs: "file_blocks m' p = file_blocks m p @ [b]"
    unfolding file_blocks_def nb using fb by simp
  have ind: "oi_indirect m' p = d" by (simp add: m')
  have all: "all_blocks m' p = file_blocks m p @ [b, d]"
    unfolding all_blocks_def nb fbs ind by simp
  show fs: "free_set m' = free_set m - {unat b}" by (simp add: m')
  show "alloc_ok m'" using ok1 fs by (simp add: alloc_ok_def m')
  show sz: "oi_size m' p = oi_size m p + 1024" by (simp add: m')
  show sup: "super m' = super m" by (simp add: super_def m')
  show "used m' p = insert (unat b) (insert (unat d) (unat ` set (file_blocks m p)))"
    unfolding used_def all by auto
  have old: "distinct (file_blocks m p @ [d])"
    "\<And>c. c \<in> set (file_blocks m p @ [d]) \<Longrightarrow> own_blk m c"
    using pre unfolding pre_indirect_def by auto
  show "wf_file m' p"
    unfolding wf_file_def all
  proof (intro conjI)
    show "distinct (file_blocks m p @ [b, d])" using old b(1) by (auto simp: own_blk_def)
    have "own_blk m' b" by (rule own_blk_new [OF ok b(2,1) sup]) (simp add: fs)
    moreover have "own_blk m' c" if "c \<in> set (file_blocks m p @ [d])" for c
      using own_blk_mono [OF sup _ old(2) [OF that]] fs by auto
    ultimately show "\<forall>c\<in>set (file_blocks m p @ [b, d]). own_blk m' c" by auto
    show "nblk m' p \<le> 266" unfolding nb using n by simp
    show "nblk m' p \<le> 10 \<longrightarrow> oi_indirect m' p = 0" unfolding nb using s(2) by simp
  qed (use pre in \<open>simp_all add: m' pre_indirect_def\<close>)
  have f24: "frame ?m2 m' p {unat d}"
    unfolding m' field_write
    by (rule frame_trans [OF frame_entry frame_cell, where B = "{unat d}" and C = "{}"];
        simp add: field_write [symmetric])
  have f02: "frame m ?m2 p {unat b}"
    by (rule frame_trans [OF frame_clear frame_zero, where B = "{}" and C = "{unat b}"]; simp)
  show "frame m m' p {unat b, unat d}"
    by (rule frame_trans [OF f02 f24]; simp)
  have "unat b \<noteq> unat d" using d(2) by (metis word_unat_eq_iff)
  then show "\<forall>i<1024. m' (unat b * 1024 + i) = 0"
    by (intro allI impI frame_keeps_zero [OF _ _ _ f24]; simp)
qed

lemma free_block_null: "lay m \<Longrightarrow> free_block m 0 = m"
  by (simp add: free_block_eq)

lemma zero_put32_commute:
  "a + 4 \<le> ospfs_block b \<or> ospfs_block b + 1024 \<le> a \<Longrightarrow>
    zero_block (put32 m a v) b = put32 (zero_block m b) a v"
  by (auto simp: fun_eq_iff zero_block_def mem_fill_def put32_def)

lemma set_zero_commute:
  assumes "lay m" "data_blk m b" "k < unat (os_nblocks m)"
  shows "bitvector_set (zero_block m b) 2048 k = zero_block (bitvector_set m 2048 k) b"
proof -
  have far: "2048 + 4 * (k div 32) + 4 \<le> ospfs_block b"
    using bit_word_in_map [OF assms(1,3)] assms(1,2)
    by (simp add: data_blk_addr data_blk_def first_data_def)
  then have "get32 (zero_block m b) (2048 + 4 * (k div 32)) = get32 m (2048 + 4 * (k div 32))"
    unfolding zero_block_def by (intro get32_mem_fill_other) simp
  with far show ?thesis
    by (simp add: bitvector_set_def Let_def zero_put32_commute)
qed

lemma set_cell_commute:
  assumes "lay m" "inode_at m p" "k < unat (os_nblocks m)"
  shows "bitvector_set (put32 m (p + x) v) 2048 k = put32 (bitvector_set m 2048 k) (p + x) v"
proof -
  have far: "2048 + 4 * (k div 32) + 4 \<le> p"
    using bit_word_in_map [OF assms(1,3)] assms(2) by (simp add: inode_at_def)
  then show ?thesis
    by (simp add: bitvector_set_def Let_def get32_put32_other put32_commute)
qed

text \<open>
  Giving back a fresh indirect block leaves its bytes zeroed and nothing else changed; the guard block
  is not given back and stays allocated.
\<close>

lemma indirect_rollback:
  assumes "lay m" "inode_at m p" "data_blk m c" "bitvector_test m 2048 (unat c)" "oi_indirect m p = 0"
  shows "set_indirect (free_block (set_indirect (zero_block (bitvector_clear m 2048 (unat c)) c) p c) c) p 0
    = (if unat c = guard m then zero_block (bitvector_clear m 2048 (unat c)) c else zero_block m c)"
proof -
  have cN: "unat c < unat (os_nblocks m)" using assms(3) by (simp add: data_blk_def)
  note [simp] = assms(1-3) cN
  let ?z = "zero_block (bitvector_clear m 2048 (unat c)) c"
  let ?r = "if unat c = guard m then ?z else zero_block m c"
  have g: "guard (set_indirect ?z p c) = guard m" by (simp add: guard_def fview)
  have "free_block (set_indirect ?z p c) c
      = (if unat c = guard m then set_indirect ?z p c else bitvector_set (set_indirect ?z p c) 2048 (unat c))"
    by (subst free_block_data) (simp_all add: fview g)
  also have "bitvector_set (set_indirect ?z p c) 2048 (unat c) = set_indirect (bitvector_set ?z 2048 (unat c)) p c"
    unfolding field_write by (rule set_cell_commute) (simp_all add: fview)
  also have "bitvector_set ?z 2048 (unat c) = zero_block m c"
    by (simp add: set_zero_commute fview bitvector_set_clear assms(4))
  finally have "set_indirect (free_block (set_indirect ?z p c) c) p 0 = put32 ?r (p + 56) 0"
    unfolding field_write by simp
  moreover have "get32 ?r (p + 56) = 0"
    using assms(5) cN by (cases "unat c = guard m") (simp_all add: fview field_read(6) [symmetric])
  ultimately show ?thesis using put32_get32_id [of ?r "p + 56"] by simp
qed

text \<open>
  Nothing but the bytes of a free block has changed; if that block is the guard block, it may have
  been lost.
\<close>

definition unchanged_files :: "mem \<Rightarrow> mem \<Rightarrow> bool" where
  "unchanged_files m m' \<longleftrightarrow> m' = m \<or>
     (\<exists>c. unat c \<in> free_set m \<and> data_blk m c
        \<and> m' = (if unat c = guard m then zero_block (bitvector_clear m 2048 (unat c)) c else zero_block m c))"

lemma add_block_indirect_have:
  assumes ok: "alloc_ok m" and wf: "wf_file m p" and n: "10 < nblk m p" "nblk m p < 266"
  shows "add_block m p = (m, Inl ENOSPC) \<and> free_set m = {} \<or>
     (\<exists>m' b. add_block m p = (m', Inr ()) \<and> grown m m' p b)"
proof -
  let ?n = "nblk m p"
  let ?d = "oi_indirect m p"
  have lay: "lay m" and at: "inode_at m p" using ok wf by (auto simp: alloc_ok_def wf_file_def)
  have d: "data_blk m ?d" "unat ?d \<notin> free_set m"
    using wf n unfolding wf_file_def all_blocks_def by (auto simp: own_blk_def)
  have d0: "?d \<noteq> 0" using data_blk_nonzero [OF lay d(1)] .
  have "10 \<le> ?n" using n by linarith
  note ix = index_indirect [of "ospfs_size2nblocks (oi_size m p)", folded nblk_def, OF this n(2)]
  have pre: "pre_indirect m p ?d"
    using ok wf n unfolding pre_indirect_def wf_file_def all_blocks_def by simp
  from ok show ?thesis
  proof (cases rule: allocate_block_cases)
    case full
    then show ?thesis using ix d0
      by (simp add: add_block_def add_block_indirect_def nblk_def free_block_null [OF lay])
  next
    case (got b)
    let ?m2 = "zero_block (bitvector_clear m 2048 (unat b)) b"
    let ?m' = "set_size (set_block_entry ?m2 ?d (?n - 10) b) p (oi_size m p + 1024)"
    have bN: "unat b < unat (os_nblocks m)" using got(4) by (simp add: data_blk_def)
    have "oi_indirect ?m2 p = ?d" "oi_size (set_block_entry ?m2 ?d (?n - 10) b) p = oi_size m p"
      using lay at got(4) bN d by (simp_all add: fview)
    then have run: "add_block m p = (?m', Inr ())"
      using ix d0 got(1,2)
      by (simp add: add_block_def add_block_indirect_def nblk_def)
    note res = fill_indirect_entry [OF pre got(3,4,7) refl]
    have "own_ptrs m p = {unat ?d}" using n by (simp add: own_ptrs_def)
    then have "frame m ?m' p (free_set m \<union> own_ptrs m p)"
      using frame_mono [OF res(7)] got(3) by simp
    moreover have "used m p = insert (unat ?d) (unat ` set (file_blocks m p))"
      using n by (simp add: used_def all_blocks_def)
    then have "free_set ?m' \<union> used ?m' p = free_set m \<union> used m p"
      unfolding res(6,9) using got(3) by blast
    moreover have "free_set ?m' \<subseteq> free_set m" unfolding res(6) by blast
    ultimately have "grown m ?m' p b" using res(1-5,8) got(3) unfolding grown_def by blast
    with run show ?thesis by blast
  qed
qed


lemma file_blocks_direct_cong:
  assumes "nblk m p \<le> 10" "oi_size m' p = oi_size m p" "\<And>i. i < 10 \<Longrightarrow> oi_direct m' p i = oi_direct m p i"
  shows "file_blocks m' p = file_blocks m p" "nblk m' p = nblk m p"
proof -
  show "nblk m' p = nblk m p" using assms(2) by (simp add: nblk_def)
  then show "file_blocks m' p = file_blocks m p"
    using assms(1,3) by (simp add: file_blocks_def fblk_def)
qed

lemma add_block_indirect_need:
  assumes ok: "alloc_ok m" and wf: "wf_file m p" and n: "nblk m p = 10"
  shows "(\<exists>m'. add_block m p = (m', Inl ENOSPC) \<and> unchanged_files m m' \<and> card (free_set m) \<le> 1) \<or>
     (\<exists>m' b. add_block m p = (m', Inr ()) \<and> grown m m' p b)"
proof -
  have lay: "lay m" and at: "inode_at m p" and ind0: "oi_indirect m p = 0"
    using ok wf n by (auto simp: alloc_ok_def wf_file_def)
  have "10 \<le> nblk m p" "nblk m p < 266" using n by simp_all
  note ix = index_indirect [of "ospfs_size2nblocks (oi_size m p)", folded nblk_def, OF this, unfolded n]
  from ok show ?thesis
  proof (cases rule: allocate_block_cases)
    case full
    have "add_block m p = (m, Inl ENOSPC)" using ix ind0 full
      by (simp add: add_block_def add_block_indirect_def nblk_def)
    then show ?thesis using full by (auto simp: unchanged_files_def)
  next
    case (got c)
    let ?m1 = "bitvector_clear m 2048 (unat c)"
    let ?m2 = "set_indirect (zero_block ?m1 c) p c"
    have cN: "unat c < unat (os_nblocks m)" using got(4) by (simp add: data_blk_def)
    note [simp] = fview lay at got(4) cN
    have ind: "oi_indirect ?m2 p = c" "oi_size ?m2 p = oi_size m p" by simp_all
    have same: "file_blocks ?m2 p = file_blocks m p" "nblk ?m2 p = 10"
      using file_blocks_direct_cong [of m p ?m2] n by simp_all
    have fs: "free_set ?m2 = free_set m - {unat c}" by simp
    have ok2: "alloc_ok ?m2" using got(7) by (simp add: alloc_ok_def fs)
    have sup: "super ?m2 = super m" by (simp add: super_def)
    have old: "distinct (file_blocks m p)" "\<And>x. x \<in> set (file_blocks m p) \<Longrightarrow> own_blk m x"
      using wf n by (auto simp: wf_file_def all_blocks_def)
    have pre: "pre_indirect ?m2 p c"
      unfolding pre_indirect_def same ind
    proof (intro conjI ok2)
      show "distinct (file_blocks m p @ [c])" using old got(3) by (auto simp: own_blk_def)
      have "own_blk ?m2 c" by (rule own_blk_new [OF ok got(4,3) sup]) (simp add: fs)
      moreover have "own_blk ?m2 x" if "x \<in> set (file_blocks m p)" for x
        using own_blk_mono [OF sup _ old(2) [OF that]] fs by auto
      ultimately show "\<forall>x\<in>set (file_blocks m p @ [c]). own_blk ?m2 x" by auto
    qed (use wf in \<open>simp_all add: wf_file_def\<close>)
    from ok2 show ?thesis
    proof (cases rule: allocate_block_cases)
      case full2: full
      have "bitvector_test m 2048 (unat c)" using got(3) by (auto simp: free_set_def)
      note rb = indirect_rollback [OF lay at got(4) this ind0]
      let ?r = "if unat c = guard m then zero_block ?m1 c else zero_block m c"
      have "add_block m p = (?r, Inl ENOSPC)"
        using ix ind0 got(1,2) full2 rb
        by (simp add: add_block_def add_block_indirect_def nblk_def del: fview)
      moreover have "unchanged_files m ?r" using got(3,4) unfolding unchanged_files_def by blast
      moreover have "free_set m - {unat c} = {}" using full2(1) unfolding fs .
      then have "free_set m \<subseteq> {unat c}" by blast
      then have "card (free_set m) \<le> 1" using card_mono [of "{unat c}"] by simp
      ultimately show ?thesis by blast
    next
      case got2: (got b)
      let ?m3 = "zero_block (bitvector_clear ?m2 2048 (unat b)) b"
      let ?m' = "set_size (set_block_entry ?m3 c 0 b) p (oi_size m p + 1024)"
      have b: "data_blk m b" "unat b \<in> free_set m" "b \<noteq> c"
        using got2(3,4) unfolding fs by auto
      then have bN: "unat b < unat (os_nblocks m)" by (simp add: data_blk_def)
      have "oi_indirect ?m3 p = c" "oi_size (set_block_entry ?m3 c 0 b) p = oi_size m p"
        using b bN by simp_all
      then have run: "add_block m p = (?m', Inr ())"
        using ix ind0 got(1,2) got2(1,2)
        by (simp add: add_block_def add_block_indirect_def nblk_def)
      have "?m' = set_size (set_block_entry ?m3 c (nblk ?m2 p - 10) b) p (oi_size ?m2 p + 1024)"
        by (simp only: same(2) ind(2) diff_self_eq_0)
      note res = fill_indirect_entry [OF pre got2(3,4,7) this]
      have own: "own_ptrs m p = {}" using n by (simp add: own_ptrs_def)
      have "frame m (zero_block ?m1 c) p {unat c}"
        by (rule frame_trans [OF frame_clear frame_zero, where B = "{}" and C = "{unat c}"]; simp)
      then have "frame m ?m2 p {unat c}"
        unfolding field_write
        by (rule frame_trans [OF _ frame_cell [where B = "{}"]]; simp add: field_write [symmetric])
      then have "frame m ?m' p {unat b, unat c}"
        by (rule frame_trans [OF _ res(7)]; simp)
      then have "frame m ?m' p (free_set m \<union> own_ptrs m p)"
        by (rule frame_mono) (use got(3) b(2) in auto)
      moreover have "used m p = unat ` set (file_blocks m p)"
        using n by (simp add: used_def all_blocks_def)
      then have "free_set ?m' \<union> used ?m' p = free_set m \<union> used m p"
        unfolding res(6,9) fs same using got(3) b(2) by blast
      moreover have "free_set ?m' \<subseteq> free_set m" unfolding res(6) fs by blast
      moreover have "super ?m' = super m" using res(8) sup by simp
      ultimately have "grown m ?m' p b"
        using res(1-5) b(2) unfolding grown_def same ind by blast
      with run show ?thesis by blast
    qed
  qed
qed

definition blocks_needed :: "nat \<Rightarrow> nat" where
  "blocks_needed n = n + (if n > 10 then 1 else 0)"

lemma add_block_cases:
  assumes ok: "alloc_ok m" and wf: "wf_file m p" and n: "nblk m p < 266"
  obtains (nospace) m' where "add_block m p = (m', Inl ENOSPC)" "unchanged_files m m'"
      "card (free_set m) + blocks_needed (nblk m p) < blocks_needed (Suc (nblk m p))"
  | (grow) m' b where "add_block m p = (m', Inr ())" "grown m m' p b"
proof -
  consider "nblk m p < 10" | "nblk m p = 10" | "10 < nblk m p" by linarith
  then show ?thesis
  proof cases
    case 1
    then show ?thesis
      using add_block_direct_ok [OF ok wf 1] nospace [of m] grow
      by (auto simp: unchanged_files_def blocks_needed_def)
  next
    case 2
    then show ?thesis
      using add_block_indirect_need [OF ok wf 2] nospace grow
      by (auto simp: blocks_needed_def)
  next
    case 3
    then show ?thesis
      using add_block_indirect_have [OF ok wf 3 n] nospace [of m] grow
      by (auto simp: unchanged_files_def blocks_needed_def)
  qed
qed

lemma card_used: "wf_file m p \<Longrightarrow> card (used m p) = blocks_needed (nblk m p)"
proof -
  assume wf: "wf_file m p"
  have "card (used m p) = length (all_blocks m p)"
    using wf unfolding used_def wf_file_def
    by (subst card_image) (auto simp: distinct_card word_unat_eq_iff [symmetric] intro!: inj_onI)
  then show ?thesis by (simp add: all_blocks_def file_blocks_def blocks_needed_def)
qed

lemma free_used_disjoint: "wf_file m p \<Longrightarrow> free_set m \<inter> used m p = {}"
  by (auto simp: wf_file_def used_def own_blk_def)

lemma finite_used [simp]: "finite (used m p)" by (simp add: used_def)

lemma card_pool:
  "wf_file m p \<Longrightarrow> card (free_set m \<union> used m p) = card (free_set m) + blocks_needed (nblk m p)"
  by (subst card_Un_disjoint) (simp_all add: free_used_disjoint card_used)

text \<open>
  \<open>remove_block\<close> frees the blocks the file no longer uses, the guard block excepted.
\<close>

definition shrunk :: "mem \<Rightarrow> mem \<Rightarrow> nat \<Rightarrow> bool" where
  "shrunk m m' p \<longleftrightarrow> alloc_ok m' \<and> wf_file m' p
     \<and> file_blocks m' p = butlast (file_blocks m p)
     \<and> oi_size m' p = oi_size m p - 1024
     \<and> super m' = super m \<and> used m' p \<subseteq> used m p
     \<and> free_set m' = free_set m \<union> (used m p - used m' p - {guard m})
     \<and> own_ptrs m' p \<subseteq> own_ptrs m p
     \<and> frame m m' p (own_ptrs m p)"

lemma own_blk_after_free:
  assumes "super m' = super m" "free_set m' \<subseteq> insert (unat d) (free_set m)" "own_blk m c" "c \<noteq> d"
  shows "own_blk m' c"
proof -
  have "unat c \<noteq> unat d" using assms(4) by (metis word_unat_eq_iff)
  then show ?thesis using assms unfolding own_blk_def by (auto simp: super_eq [of m' m])
qed

lemma alloc_ok_free:
  assumes "alloc_ok m" "super m' = super m" "free_set m' \<subseteq> insert (unat d) (free_set m)" "own_blk m d"
  shows "alloc_ok m'"
  using assms unfolding alloc_ok_def own_blk_def data_blk_def by (auto simp: super_eq [of m' m])

lemma file_blocks_snoc:
  assumes "nblk m p = Suc k" "nblk m' p = k" "\<forall>i<k. fblk m' p i = fblk m p i"
  shows "file_blocks m' p = butlast (file_blocks m p)" "file_blocks m p = file_blocks m' p @ [fblk m p k]"
  using assms by (simp_all add: file_blocks_def)

lemma remove_block_direct_ok:
  assumes ok: "alloc_ok m" and wf: "wf_file m p" and n: "nblk m p = Suc k" "k < 10"
  shows "\<exists>m'. remove_block m p = (m', Inr ()) \<and> shrunk m m' p"
proof -
  let ?d = "oi_direct m p k"
  let ?m1 = "free_block m ?d"
  let ?m2 = "set_direct ?m1 p k 0"
  let ?m3 = "set_size ?m2 p (oi_size m p - 1024)"
  have lay: "lay m" and at: "inode_at m p" using ok wf by (auto simp: alloc_ok_def wf_file_def)
  have n9: "\<not> 10 < k" "k \<le> 11" "\<not> 10 < nblk m p" "nblk m p \<le> 10" using n by linarith+
  have ind0: "oi_indirect m p = 0" using wf n9(4) by (simp add: wf_file_def)
  have all: "all_blocks m p = file_blocks m p" using n9(3) by (simp add: all_blocks_def)
  have dk: "fblk m p k = ?d" using n(2) by (simp add: fblk_def)
  have d: "own_blk m ?d" using wf n unfolding wf_file_def all file_blocks_def by (simp add: dk)
  have dN: "data_blk m ?d" using d by (simp add: own_blk_def)
  have d0: "?d \<noteq> 0" using data_blk_nonzero [OF lay] d by (simp add: own_blk_def)
  note [simp] = fview lay at dN n(2)
  let ?w = "ospfs_size2nblocks (oi_size m p)"
  have w: "unat ?w = Suc k" "unat (?w - 1) = k" "?w \<noteq> 0" "?w - 1 < 10"
  proof -
    show 1: "unat ?w = Suc k" using n by (simp add: nblk_def)
    then show "?w \<noteq> 0" by auto
    then show 2: "unat (?w - 1) = k" using 1 by (simp add: unat_minus_one)
    show "?w - 1 < 10" using 2 n(2) by (simp add: word_less_nat_alt)
  qed
  have run: "remove_block m p = (?m3, Inr ())"
    using w d0 by (simp add: remove_block_def remove_block_direct_def)
  have nb: "nblk ?m3 p = k" using size_back [of m p] n by (simp add: nblk_def)
  have fb: "fblk ?m3 p i = fblk m p i" if "i < k" for i
  proof -
    have "i < 10" "i \<noteq> k" using that n by linarith+
    then show ?thesis by (simp add: fblk_def)
  qed
  have fb': "\<forall>i<k. fblk ?m3 p i = fblk m p i" using fb by blast
  note fbs = file_blocks_snoc [OF n(1) nb fb', unfolded dk]
  have all3: "all_blocks ?m3 p = file_blocks ?m3 p" unfolding all_blocks_def nb by (simp only: n9 if_False append_Nil2)
  have fs: "free_set ?m3 = free_set m \<union> ({unat ?d} - {guard m})" by simp
  then have fs': "free_set ?m3 \<subseteq> insert (unat ?d) (free_set m)" by auto
  have sup: "super ?m3 = super m" by (simp add: super_def)
  have "distinct (file_blocks ?m3 p @ [?d])"
    using wf fbs(2) unfolding wf_file_def all by metis
  then have dist: "distinct (file_blocks ?m3 p)" "?d \<notin> set (file_blocks ?m3 p)" by auto
  have sub: "set (file_blocks m p) = insert ?d (set (file_blocks ?m3 p))"
    using arg_cong [OF fbs(2), of set] by (simp only: set_append) auto
  have wf3: "wf_file ?m3 p"
    unfolding wf_file_def all3 nb
  proof (intro conjI dist)
    have "own_blk ?m3 c" if "c \<in> set (file_blocks ?m3 p)" for c
    proof (rule own_blk_after_free [OF sup fs'])
      show "own_blk m c" using wf that sub unfolding wf_file_def all by blast
      show "c \<noteq> ?d" using that dist(2) by metis
    qed
    then show "\<forall>c\<in>set (file_blocks ?m3 p). own_blk ?m3 c" by blast
    show "k \<le> 266" using n(2) by linarith
  qed (use wf n9 n in \<open>simp_all add: wf_file_def ind0\<close>)
  have f1: "frame m ?m1 p {}" by (rule frame_free) simp_all
  have f13: "frame ?m1 ?m3 p {}"
    unfolding field_write by (rule frame_trans [OF frame_cell frame_cell]; simp add: field_write [symmetric] n9)
  have own: "own_ptrs m p = {}" "own_ptrs ?m3 p = {}" using n9 nb by (simp_all add: own_ptrs_def)
  have f: "frame m ?m3 p {}" by (rule frame_trans [OF f1 f13]; simp)
  have u: "used m p = insert (unat ?d) (used ?m3 p)" unfolding used_def all all3 sub by simp
  have "unat ?d \<notin> used ?m3 p"
    unfolding used_def all3 using dist(2) by (auto simp: word_unat_eq_iff [symmetric] simp del: fview)
  then have U: "used ?m3 p \<subseteq> used m p" "free_set ?m3 = free_set m \<union> (used m p - used ?m3 p - {guard m})"
    unfolding fs u by blast+
  have sz: "oi_size ?m3 p = oi_size m p - 1024" by simp
  have "shrunk m ?m3 p"
    unfolding shrunk_def own
    by (intro conjI alloc_ok_free [OF ok sup fs' d] wf3 fbs(1) sz sup U f subset_refl)
  with run show ?thesis by blast
qed

text \<open>The blocks that removing one data block releases, with and without the indirect block.\<close>

lemma released_sets:
  assumes "e \<notin> B"
  shows "d \<notin> B \<Longrightarrow> F \<union> ({e} - {g}) \<union> ({d} - {g}) = F \<union> (insert e (insert d B) - B - {g})"
    and "e \<noteq> d \<Longrightarrow> F \<union> ({e} - {g}) = F \<union> (insert e (insert d B) - insert d B - {g})"
  using assms by blast+

lemma remove_block_indirect_ok:
  assumes ok: "alloc_ok m" and wf: "wf_file m p" and n: "nblk m p = Suc k" "10 \<le> k" "k < 266"
  shows "\<exists>m'. remove_block m p = (m', Inr ()) \<and> shrunk m m' p"
proof -
  let ?d = "oi_indirect m p"
  define e where "e = block_entry m ?d (k - 10)"
  let ?m1 = "free_block m e"
  let ?m2 = "set_block_entry ?m1 ?d (k - 10) 0"
  let ?s = "oi_size m p - 1024"
  have lay: "lay m" and at: "inode_at m p" using ok wf by (auto simp: alloc_ok_def wf_file_def)
  have n9: "10 < nblk m p" "k - 10 < 256" "\<not> k < 10" using n by linarith+
  have all: "all_blocks m p = file_blocks m p @ [?d]" using n9(1) by (simp add: all_blocks_def)
  have ek: "fblk m p k = e" using n by (simp add: fblk_def e_def)
  have eo: "own_blk m e" "own_blk m ?d" "e \<noteq> ?d"
    using wf n unfolding wf_file_def all file_blocks_def by (auto simp: ek)
  have N: "unat e < unat (os_nblocks m)" "unat ?d < unat (os_nblocks m)" "data_blk m ?d" "data_blk m e"
    using eo by (auto simp: own_blk_def data_blk_def)
  have d0: "e \<noteq> 0" "?d \<noteq> 0" using data_blk_nonzero [OF lay] N by auto
  note [simp] = fview lay at N n9(2)
  let ?w = "ospfs_size2nblocks (oi_size m p)"
  have w: "?w \<noteq> 0" "\<not> ?w - 1 < 10" "?w - 1 < 266" "nat (direct_index (?w - 1)) = k - 10"
  proof -
    have 1: "unat ?w = Suc k" using n by (simp add: nblk_def)
    then show "?w \<noteq> 0" by auto
    then have 2: "unat (?w - 1) = k" using 1 by (simp add: unat_minus_one)
    show "\<not> ?w - 1 < 10" "?w - 1 < 266" using 2 n by (simp_all add: word_less_nat_alt)
    show "nat (direct_index (?w - 1)) = k - 10" using index_indirect(2) [of "?w - 1"] 2 n by simp
  qed
  have w266: "?w - 1 < 10 + 256" using w(3) by simp
  have own2: "own_blk ?m2 ?d"
  proof (rule own_blk_after_free [of ?m2 m e])
    show "super ?m2 = super m" by (simp add: super_def)
    show "free_set ?m2 \<subseteq> insert (unat e) (free_set m)" by auto
  qed (use eo in auto)
  let ?m3 = "if k - 10 = 0 then set_indirect (free_block ?m2 ?d) p 0 else ?m2"
  let ?m4 = "set_size ?m3 p ?s"
  have i2: "oi_indirect ?m2 p = ?d" by simp
  have s3: "oi_size ?m3 p = oi_size m p" by simp
  have run: "remove_block m p = (?m4, Inr ())"
  proof -
    have "remove_block_indirect m p (?w - 1) = (?m3, Inr ())"
      unfolding remove_block_indirect_def Let_def w
      by (simp only: e_def [symmetric] d0 if_False i2)
    then show ?thesis
      unfolding remove_block_def Let_def
      by (simp only: w w266 if_False if_True prod.case sum.case s3)
  qed
  have nb: "nblk ?m4 p = k" using size_back [of m p] n by (simp add: nblk_def)
  have fb: "fblk ?m4 p i = fblk m p i" if "i < k" for i
  proof (cases "i < 10")
    case False
    then have "i < 266" "i - 10 < 256" "i - 10 \<noteq> k - 10" "k - 10 \<noteq> 0" using that n by linarith+
    then show ?thesis using False by (simp add: fblk_def)
  qed (simp add: fblk_def)
  define bl where "bl = file_blocks ?m4 p"
  have fb': "\<forall>i<k. fblk ?m4 p i = fblk m p i" using fb by blast
  note fbs = file_blocks_snoc [OF n(1) nb fb', unfolded ek, folded bl_def]
  have sub: "set (file_blocks m p) = insert e (set (bl))"
    using arg_cong [OF fbs(2), of set] by (simp only: set_append) auto
  have old: "distinct (bl @ [e, ?d])"
  proof -
    have "distinct (file_blocks m p @ [?d])" using wf unfolding wf_file_def all by blast
    then show ?thesis unfolding fbs(2) by simp
  qed
  have owns: "own_blk m c" if "c \<in> set (bl)" for c
  proof -
    have "c \<in> set (file_blocks m p)" using that sub by blast
    then show ?thesis using wf unfolding wf_file_def all by simp
  qed
  have sup: "super ?m4 = super m" by (simp add: super_def)
  have fs2: "free_set ?m2 = free_set m \<union> ({unat e} - {guard m})" by simp
  then have fs2': "free_set ?m2 \<subseteq> insert (unat e) (free_set m)" by auto
  have sup2: "super ?m2 = super m" by (simp add: super_def)
  have ok2: "alloc_ok ?m2" by (rule alloc_ok_free [OF ok sup2 fs2' eo(1)])
  have apart: "unat e \<notin> unat ` set bl" "unat ?d \<notin> unat ` set bl" "unat e \<noteq> unat ?d"
    using old by (auto simp: word_unat_eq_iff [symmetric] simp del: fview)
  have f2: "frame m ?m2 p {unat ?d}"
    by (rule frame_trans [OF frame_free frame_entry, where B = "{}" and C = "{unat ?d}"]; simp)
  have sz: "oi_size ?m4 p = ?s" by (simp only: fields_set_size)
  have B: "file_blocks ?m4 p = butlast (file_blocks m p)" using fbs(1) by (simp only: bl_def)
  have own: "own_ptrs m p = {unat ?d}" using n9 by (simp add: own_ptrs_def)
  have "shrunk m ?m4 p"
  proof (cases "k = 10")
    case True
    then have m4: "?m4 = set_size (set_indirect (free_block ?m2 ?d) p 0) p ?s" by simp
    have g2: "guard ?m2 = guard m" by (rule super_eq(8) [OF sup2])
    have fs: "free_set ?m4 = free_set ?m2 \<union> ({unat ?d} - {guard m})"
      unfolding m4 using super_eq(8) [OF sup2] by (simp only: fview lay at N n9(2) g2)
    then have fs': "free_set ?m4 \<subseteq> insert (unat ?d) (free_set ?m2)" by blast
    have all4: "all_blocks ?m4 p = bl"
      unfolding all_blocks_def nb bl_def [symmetric] using True by (simp only: less_irrefl if_False append_Nil2)
    have sup42: "super ?m4 = super ?m2" using sup sup2 by simp
    have wf4: "wf_file ?m4 p"
      unfolding wf_file_def all4 nb
    proof (intro conjI)
      show "distinct (bl)" using old by simp
      show "\<forall>c\<in>set (bl). own_blk ?m4 c"
      proof
        fix c assume c: "c \<in> set (bl)"
        then have "c \<noteq> e" "c \<noteq> ?d" using old by (auto simp del: fview)
        then show "own_blk ?m4 c"
          using own_blk_after_free [OF sup42 fs'] own_blk_after_free [OF sup2 fs2'] owns [OF c] by blast
      qed
      show "k \<le> 266" using n by linarith
    qed (use wf True in \<open>simp_all add: wf_file_def\<close>)
    have f: "frame ?m2 ?m4 p {}"
    proof -
      have 1: "frame ?m2 (free_block ?m2 ?d) p {}" by (rule frame_free) simp_all
      have 2: "frame (free_block ?m2 ?d) ?m4 p {}"
        unfolding m4 unfolding field_write
        by (rule frame_trans [OF frame_cell frame_cell]; simp add: field_write [symmetric])
      show ?thesis by (rule frame_trans [OF 1 2]; simp)
    qed
    have u: "used m p = insert (unat e) (insert (unat ?d) (unat ` set bl))" "used ?m4 p = unat ` set bl"
      unfolding used_def all all4 using sub by auto
    have U1: "used ?m4 p \<subseteq> used m p" unfolding u by (rule subset_trans [OF subset_insertI subset_insertI])
    have U2: "free_set ?m4 = free_set m \<union> (used m p - used ?m4 p - {guard m})"
      unfolding fs fs2 u by (rule released_sets(1) [OF apart(1,2)])
    note U = U1 U2
    have O: "own_ptrs ?m4 p \<subseteq> {unat ?d}" unfolding own_ptrs_def nb using True by simp
    have F: "frame m ?m4 p {unat ?d}" by (rule frame_trans [OF f2 f]; simp)
    show ?thesis
      unfolding shrunk_def own
      by (intro conjI alloc_ok_free [OF ok2 sup42 fs' own2] wf4 B sz sup U O F)
  next
    case False
    then have m4: "?m4 = set_size ?m2 p ?s" using n(2) by simp
    have k: "10 < k" using False n(2) by linarith
    have i4: "oi_indirect ?m4 p = ?d" unfolding m4 by simp
    have all4: "all_blocks ?m4 p = bl @ [?d]"
      unfolding all_blocks_def nb bl_def [symmetric] i4 using k by (simp only: if_True)
    have fs: "free_set ?m4 = free_set m \<union> ({unat e} - {guard m})" unfolding m4 using fs2 by simp
    then have fs': "free_set ?m4 \<subseteq> insert (unat e) (free_set m)" by auto
    have wf4: "wf_file ?m4 p"
      unfolding wf_file_def all4 nb
    proof (intro conjI)
      show "distinct (bl @ [?d])" using old by simp
      show "\<forall>c\<in>set (bl @ [?d]). own_blk ?m4 c"
      proof
        fix c assume c: "c \<in> set (bl @ [?d])"
        then have "c \<noteq> e" "own_blk m c" using old owns eo(2) by (auto simp del: fview)
        then show "own_blk ?m4 c" using own_blk_after_free [OF sup fs'] by blast
      qed
      show "k \<le> 266" using n by linarith
    qed (use wf k in \<open>simp_all add: wf_file_def m4\<close>)
    have f: "frame ?m2 ?m4 p {}"
      unfolding m4 unfolding field_write by (rule frame_cell) simp
    have u: "used m p = insert (unat e) (insert (unat ?d) (unat ` set bl))"
        "used ?m4 p = insert (unat ?d) (unat ` set bl)"
      unfolding used_def all all4 using sub by auto
    have U1: "used ?m4 p \<subseteq> used m p" unfolding u by (rule subset_insertI)
    have U2: "free_set ?m4 = free_set m \<union> (used m p - used ?m4 p - {guard m})"
      unfolding fs u by (rule released_sets(2) [OF apart(1,3)])
    note U = U1 U2
    have O: "own_ptrs ?m4 p \<subseteq> {unat ?d}" unfolding own_ptrs_def nb i4 by simp
    have F: "frame m ?m4 p {unat ?d}" by (rule frame_trans [OF f2 f]; simp)
    show ?thesis
      unfolding shrunk_def own
      by (intro conjI alloc_ok_free [OF ok sup fs' eo(1)] wf4 B sz sup U O F)
  qed
  with run show ?thesis by blast
qed

lemma remove_block_ok:
  assumes "alloc_ok m" "wf_file m p" "0 < nblk m p"
  obtains m' where "remove_block m p = (m', Inr ())" "shrunk m m' p"
proof -
  obtain k where k: "nblk m p = Suc k" using assms(3) by (cases "nblk m p") auto
  have "k < 266" using k assms(2) by (simp add: wf_file_def)
  then show thesis
    using remove_block_direct_ok [OF assms(1,2) k] remove_block_indirect_ok [OF assms(1,2) k] that
    by (cases "k < 10") force+
qed

lemma length_file_blocks [simp]: "length (file_blocks m p) = nblk m p"
  by (simp add: file_blocks_def)

lemma nblocks_less:
  "ospfs_size2nblocks (oi_size m p) > ospfs_size2nblocks t \<longleftrightarrow> unat (ospfs_size2nblocks t) < nblk m p"
  "ospfs_size2nblocks (oi_size m p) < ospfs_size2nblocks t \<longleftrightarrow> nblk m p < unat (ospfs_size2nblocks t)"
  by (simp_all add: word_less_nat_alt nblk_def)

definition pool :: "mem \<Rightarrow> nat \<Rightarrow> nat set" where
  "pool m p = free_set m \<union> used m p"

lemma shrink_to_ok:
  assumes "alloc_ok m" "wf_file m p" "unat (ospfs_size2nblocks t) \<le> nblk m p"
  shows "\<exists>m'. shrink_to m p t = Some (m', Inr ()) \<and> alloc_ok m' \<and> wf_file m' p
    \<and> file_blocks m' p = take (unat (ospfs_size2nblocks t)) (file_blocks m p)
    \<and> super m' = super m \<and> used m' p \<subseteq> used m p
    \<and> free_set m' = free_set m \<union> (used m p - used m' p - {guard m}) \<and> own_ptrs m' p \<subseteq> own_ptrs m p
    \<and> frame m m' p (own_ptrs m p)"
  using assms
proof (induction "nblk m p - unat (ospfs_size2nblocks t)" arbitrary: m)
  case 0
  then have "\<not> ospfs_size2nblocks (oi_size m p) > ospfs_size2nblocks t"
    by (simp add: nblocks_less)
  moreover have "take (unat (ospfs_size2nblocks t)) (file_blocks m p) = file_blocks m p"
    using "0.hyps" by simp
  ultimately show ?case using "0.prems" by (simp add: shrink_to.simps [of m])
next
  case (Suc d)
  let ?t = "unat (ospfs_size2nblocks t)"
  have gt: "ospfs_size2nblocks (oi_size m p) > ospfs_size2nblocks t" "0 < nblk m p"
    using Suc.hyps(2) by (simp_all add: nblocks_less)
  obtain m1 where m1: "remove_block m p = (m1, Inr ())" "shrunk m m1 p"
    using remove_block_ok [OF Suc.prems(1,2) gt(2)] by blast
  have s: "alloc_ok m1" "wf_file m1 p" "file_blocks m1 p = butlast (file_blocks m p)"
      "super m1 = super m" "used m1 p \<subseteq> used m p" "own_ptrs m1 p \<subseteq> own_ptrs m p"
      "frame m m1 p (own_ptrs m p)" "free_set m1 = free_set m \<union> (used m p - used m1 p - {guard m})"
    using m1(2) unfolding shrunk_def by blast+
  have n1: "nblk m1 p = nblk m p - 1"
    using arg_cong [OF s(3), of length] by simp
  have d: "d = nblk m1 p - ?t" "?t \<le> nblk m1 p" using Suc.hyps(2) n1 by linarith+
  from Suc.hyps(1) [OF d(1) s(1,2) d(2)] obtain m' where
    m': "shrink_to m1 p t = Some (m', Inr ())" "alloc_ok m'" "wf_file m' p"
      "file_blocks m' p = take ?t (file_blocks m1 p)" "super m' = super m1"
      "used m' p \<subseteq> used m1 p" "own_ptrs m' p \<subseteq> own_ptrs m1 p" "frame m1 m' p (own_ptrs m1 p)"
      "free_set m' = free_set m1 \<union> (used m1 p - used m' p - {guard m1})"
    by blast
  have R: "shrink_to m p t = Some (m', Inr ())"
    using m'(1) gt(1) m1(1) by (simp add: shrink_to.simps [of m])
  have B: "file_blocks m' p = take ?t (file_blocks m p)"
    unfolding m'(4) s(3) using Suc.hyps(2) by (intro take_butlast) simp
  have F: "frame m m' p (own_ptrs m p)"
    by (rule frame_trans [OF s(7) m'(8) super_eq(3) [OF s(4)]]) (use s(6) in blast)
  have U: "free_set m' = free_set m \<union> (used m p - used m' p - {guard m})"
    unfolding m'(9) s(8) super_eq(8) [OF s(4)] using m'(6) s(5) by blast
  show ?case
    by (intro exI [of _ m'] conjI R m'(2,3) B F U trans [OF m'(5) s(4)]
        subset_trans [OF m'(6) s(5)] subset_trans [OF m'(7) s(6)])
qed

lemma take_shrink_noop: 
  "nblk m p \<le> unat (ospfs_size2nblocks t) \<Longrightarrow> shrink_to m p t = Some (m, Inr ())"
  by (simp add: shrink_to.simps [of m] nblocks_less not_less)

definition zeroed :: "mem \<Rightarrow> u32 \<Rightarrow> bool" where
  "zeroed m b \<longleftrightarrow> (\<forall>i<1024. m (unat b * 1024 + i) = 0)"

lemma frame_block_bytes:
  assumes "frame m m' p B" "lay m" "inode_at m p" "data_blk m b" "unat b \<notin> B" "i < 1024"
  shows "m' (unat b * 1024 + i) = m (unat b * 1024 + i)"
proof -
  have "(unat b * 1024 + i) div 1024 = unat b" using assms(6) by simp
  moreover have "p + 64 \<le> unat b * 1024 + i" using inode_block_apart [OF assms(2-4)] by simp
  moreover have "unat (os_firstinob m) * 1024 \<le> unat b * 1024 + i"
    using assms(4) by (simp add: data_blk_def first_data_def)
  ultimately show ?thesis using assms(1,5) unfolding frame_def by auto
qed

lemma file_block_owned:
  assumes "wf_file m p" "b \<in> set (file_blocks m p)"
  shows "own_blk m b" "unat b \<notin> free_set m" "unat b \<notin> own_ptrs m p"
proof -
  have "b \<in> set (all_blocks m p)" using assms(2) by (simp add: all_blocks_def)
  then show "own_blk m b" "unat b \<notin> free_set m" using assms(1) by (auto simp: wf_file_def own_blk_def)
  show "unat b \<notin> own_ptrs m p"
  proof (cases "nblk m p > 10")
    case True
    then have "b \<noteq> oi_indirect m p" using assms by (auto simp: wf_file_def all_blocks_def)
    then have "unat b \<noteq> unat (oi_indirect m p)" by (metis word_unat_eq_iff)
    then show ?thesis by (simp add: own_ptrs_def)
  qed (simp add: own_ptrs_def)
qed

lemma used_split: "used m p = unat ` set (file_blocks m p) \<union> own_ptrs m p"
  by (auto simp: used_def all_blocks_def own_ptrs_def)

lemma own_ptrs_used: "own_ptrs m p \<subseteq> used m p"
  by (auto simp: own_ptrs_def used_def all_blocks_def)

lemma grow_to_ok:
  assumes "alloc_ok m" "wf_file m p" "nblk m p \<le> unat (ospfs_size2nblocks t)"
    "unat (ospfs_size2nblocks t) \<le> 266"
    "blocks_needed (unat (ospfs_size2nblocks t)) \<le> card (pool m p)"
  shows "\<exists>m' bs. grow_to m p old t = Some (m', Inr ()) \<and> alloc_ok m' \<and> wf_file m' p
    \<and> file_blocks m' p = file_blocks m p @ bs \<and> nblk m' p = unat (ospfs_size2nblocks t)
    \<and> (\<forall>b\<in>set bs. zeroed m' b) \<and> super m' = super m \<and> pool m' p = pool m p
    \<and> free_set m' \<subseteq> free_set m \<and> frame m m' p (free_set m \<union> own_ptrs m p)"
  using assms
proof (induction "unat (ospfs_size2nblocks t) - nblk m p" arbitrary: m)
  case 0
  then have "\<not> ospfs_size2nblocks (oi_size m p) < ospfs_size2nblocks t"
    by (simp add: nblocks_less)
  with 0 show ?case by (simp add: grow_to.simps [of m])
next
  case (Suc d)
  let ?t = "unat (ospfs_size2nblocks t)"
  have lt: "ospfs_size2nblocks (oi_size m p) < ospfs_size2nblocks t" "nblk m p < ?t"
    using Suc.hyps(2) by (simp_all add: nblocks_less)
  have n: "nblk m p < 266" using lt(2) Suc.prems(4) by linarith
  from Suc.prems(1,2) n show ?case
  proof (cases rule: add_block_cases)
    case (nospace m')
    have "blocks_needed (Suc (nblk m p)) \<le> blocks_needed ?t"
      using lt(2) by (simp add: blocks_needed_def)
    then have False
      using nospace(3) Suc.prems(5) card_pool [OF Suc.prems(2)] unfolding pool_def by linarith
    then show ?thesis ..
  next
    case (grow m1 b)
    have g: "alloc_ok m1" "wf_file m1 p" "file_blocks m1 p = file_blocks m p @ [b]"
        "super m1 = super m" "pool m1 p = pool m p" "free_set m1 \<subseteq> free_set m"
        "frame m m1 p (free_set m \<union> own_ptrs m p)" "zeroed m1 b"
      using grow(2) unfolding grown_def pool_def zeroed_def by blast+
    have n1: "nblk m1 p = Suc (nblk m p)" using arg_cong [OF g(3), of length] by simp
    have d: "d = ?t - nblk m1 p" "nblk m1 p \<le> ?t" using Suc.hyps(2) n1 lt(2) by linarith+
    from Suc.hyps(1) [OF d(1) g(1,2) d(2) Suc.prems(4)] Suc.prems(5) g(5) obtain m' bs where
      m': "grow_to m1 p old t = Some (m', Inr ())" "alloc_ok m'" "wf_file m' p"
        "file_blocks m' p = file_blocks m1 p @ bs" "nblk m' p = ?t" "\<forall>b\<in>set bs. zeroed m' b"
        "super m' = super m1" "pool m' p = pool m1 p" "frame m1 m' p (free_set m1 \<union> own_ptrs m1 p)"
        "free_set m' \<subseteq> free_set m1"
      by auto
    have "b \<in> set (file_blocks m1 p)" using g(3) by simp
    note b = file_block_owned [OF g(2) this]
    have Z: "zeroed m' b"
      unfolding zeroed_def
    proof (intro allI impI)
      fix i :: nat assume i: "i < 1024"
      have "m' (unat b * 1024 + i) = m1 (unat b * 1024 + i)"
        by (rule frame_block_bytes [OF m'(9) _ _ _ _ i])
           (use g(1,2) b in \<open>auto simp: alloc_ok_def wf_file_def own_blk_def\<close>)
      then show "m' (unat b * 1024 + i) = 0" using g(8) i by (simp add: zeroed_def)
    qed
    have "own_ptrs m1 p \<subseteq> free_set m \<union> own_ptrs m p"
    proof -
      have "own_ptrs m1 p \<subseteq> free_set m \<union> used m p"
        using own_ptrs_used [of m1 p] g(5) unfolding pool_def by blast
      moreover have "x \<notin> own_ptrs m1 p" if "x \<in> unat ` set (file_blocks m p)" for x
        using that file_block_owned(3) [OF g(2)] g(3) by auto
      ultimately show ?thesis using used_split [of m p] by blast
    qed
    then have F: "frame m m' p (free_set m \<union> own_ptrs m p)"
      by (intro frame_trans [OF g(7) m'(9) super_eq(3) [OF g(4)]]) (use g(6) in blast)
    have R: "grow_to m p old t = Some (m', Inr ())"
      using m'(1) lt(1) grow(1) by (simp add: grow_to.simps [of m])
    have B: "file_blocks m' p = file_blocks m p @ (b # bs)" using m'(4) g(3) by simp
    have Zs: "\<forall>c\<in>set (b # bs). zeroed m' c" using Z m'(6) by simp
    show ?thesis
      by (intro exI [of _ m'] exI [of _ "b # bs"] conjI R m'(2,3) B m'(5) Zs F
          trans [OF m'(7) g(4)] trans [OF m'(8) g(5)] subset_trans [OF m'(10) g(6)])
  qed
qed

lemma used_grows:
  "wf_file m p \<Longrightarrow> pool m' p = pool m p \<Longrightarrow> free_set m' \<subseteq> free_set m \<Longrightarrow> used m p \<subseteq> used m' p"
  using free_used_disjoint [of m p] unfolding pool_def by blast

lemma unchanged_files_keep:
  assumes ok: "alloc_ok m" and wf: "wf_file m p" and un: "unchanged_files m m'"
  shows "alloc_ok m' \<and> wf_file m' p \<and> file_blocks m' p = file_blocks m p
    \<and> oi_size m' p = oi_size m p \<and> nblk m' p = nblk m p \<and> used m' p = used m p
    \<and> free_set m - {guard m} \<subseteq> free_set m' \<and> free_set m' \<subseteq> free_set m"
proof -
  consider "m' = m" | c where "unat c \<in> free_set m" "data_blk m c"
      "m' = (if unat c = guard m then zero_block (bitvector_clear m 2048 (unat c)) c else zero_block m c)"
    using un unfolding unchanged_files_def by blast
  then show ?thesis
  proof cases
    case 1
    then show ?thesis using ok wf by simp
  next
    case 2
    have lay: "lay m" and at: "inode_at m p" using ok wf by (auto simp: alloc_ok_def wf_file_def)
    have cN: "unat c < unat (os_nblocks m)" using 2(2) by (simp add: data_blk_def)
    then have cG: "unat c = guard m \<Longrightarrow> guard m < unat (os_nblocks m)" by simp
    note [simp] = fview lay at 2(2) cN cG
    have nb: "nblk m' p = nblk m p" by (simp add: nblk_def 2(3))
    have fs: "free_set m - {guard m} \<subseteq> free_set m'" "free_set m' \<subseteq> free_set m"
      and sup: "super m' = super m" by (auto simp: 2(3) super_def)
    have ind: "oi_indirect m' p = oi_indirect m p" by (simp add: 2(3))
    have d: "data_blk m (oi_indirect m p)" "oi_indirect m p \<noteq> c" if "10 < nblk m p"
      using that wf 2(1) by (auto simp: wf_file_def all_blocks_def own_blk_def)
    have fb: "fblk m' p i = fblk m p i" if "i < nblk m p" for i
    proof (cases "i < 10")
      case False
      then have "i < 266" "i - 10 < 256" "10 < nblk m p" using that wf by (auto simp: wf_file_def)
      with False d show ?thesis by (simp add: fblk_def 2(3))
    qed (simp add: fblk_def 2(3))
    have fbs: "file_blocks m' p = file_blocks m p" using fb by (simp add: file_blocks_def nb)
    have all: "all_blocks m' p = all_blocks m p" by (simp add: all_blocks_def fbs nb ind)
    have "oi_ftype m' p = oi_ftype m p" "oi_indirect2 m' p = oi_indirect2 m p" "oi_size m' p = oi_size m p"
      by (simp_all add: 2(3))
    note sz = this
    have "wf_file m' p"
      unfolding wf_file_def all nb sz ind super_eq(6) [OF sup] using wf own_blk_mono [OF sup fs(2)]
      unfolding wf_file_def by blast
    moreover have "alloc_ok m'"
      using ok fs(2) unfolding alloc_ok_def super_eq(4,7) [OF sup] by blast
    moreover have "used m' p = used m p" by (simp add: used_def all)
    ultimately show ?thesis using fbs nb sz(3) fs by blast
  qed
qed

text \<open>A growth target the blocks at hand cannot hold.\<close>

definition stuck :: "mem \<Rightarrow> nat \<Rightarrow> u32 \<Rightarrow> u32 \<Rightarrow> bool" where
  "stuck m p old t \<longleftrightarrow> alloc_ok m \<and> wf_file m p
     \<and> unat (ospfs_size2nblocks old) \<le> nblk m p \<and> nblk m p < unat (ospfs_size2nblocks t)
     \<and> unat (ospfs_size2nblocks t) \<le> 266
     \<and> card (pool m p) < blocks_needed (unat (ospfs_size2nblocks t))"

lemma stuck_step:
  assumes st: "stuck m p old t"
  obtains (full) m' m'' where "add_block m p = (m', Inl ENOSPC)"
      "shrink_to m' p old = Some (m'', Inr ())" "stuck m'' p old t"
  | (more) m' where "add_block m p = (m', Inr ())" "stuck m' p old t"
proof -
  let ?t = "unat (ospfs_size2nblocks t)" and ?o = "unat (ospfs_size2nblocks old)"
  have s: "alloc_ok m" "wf_file m p" "?o \<le> nblk m p" "nblk m p < ?t" "?t \<le> 266"
    "card (pool m p) < blocks_needed ?t" using st by (auto simp: stuck_def)
  have n: "nblk m p < 266" using s by linarith
  from s(1,2) n show thesis
  proof (cases rule: add_block_cases)
    case (nospace m')
    have k: "alloc_ok m'" "wf_file m' p" "nblk m' p = nblk m p" "pool m' p \<subseteq> pool m p"
      using unchanged_files_keep [OF s(1,2) nospace(2)] unfolding pool_def by blast+
    have "?o \<le> nblk m' p" using s(3) k(3) by simp
    from shrink_to_ok [OF k(1,2) this] obtain m'' where
      m'': "shrink_to m' p old = Some (m'', Inr ())" "alloc_ok m''" "wf_file m'' p"
        "file_blocks m'' p = take ?o (file_blocks m' p)" "pool m'' p \<subseteq> pool m' p" unfolding pool_def by blast
    have "card (pool m'' p) \<le> card (pool m p)"
      using k(4) m''(5) by (intro card_mono) (auto simp: pool_def)
    have "nblk m'' p = ?o" using arg_cong [OF m''(4), of length] k(3) s(3) by simp
    with \<open>card (pool m'' p) \<le> card (pool m p)\<close> have "stuck m'' p old t"
      using m'' k s unfolding stuck_def by simp
    then show thesis using full nospace(1) m''(1) by blast
  next
    case (grow m' b)
    have g: "alloc_ok m'" "wf_file m' p" "file_blocks m' p = file_blocks m p @ [b]" "pool m' p = pool m p"
      using grow(2) unfolding grown_def pool_def by blast+
    have n1: "nblk m' p = Suc (nblk m p)" using arg_cong [OF g(3), of length] by simp
    have "blocks_needed (nblk m' p) \<le> card (pool m' p)"
      using card_pool [OF g(2)] unfolding pool_def by linarith
    then have "nblk m' p \<noteq> ?t" using s(6) g(4) by auto
    then have "stuck m' p old t" using g s n1 unfolding stuck_def by simp
    then show thesis using more grow(1) by blast
  qed
qed

lemma grow_to_stuck: "stuck m p old t \<Longrightarrow> grow_to m p old t = None"
proof (rule ccontr)
  assume st: "stuck m p old t" and "grow_to m p old t \<noteq> None"
  then obtain r where "grow_to m p old t = Some r" by blast
  then have "\<not> stuck m p old t"
  proof (rule grow_to.raw_induct [rotated])
    fix g :: "mem \<Rightarrow> nat \<Rightarrow> u32 \<Rightarrow> u32 \<Rightarrow> (mem \<times> (errno + unit)) option" and m p old t r
    assume IH: "\<And>m p old t r. g m p old t = Some r \<Longrightarrow> \<not> stuck m p old t"
      and eq: "(if ospfs_size2nblocks (oi_size m p) < ospfs_size2nblocks t
         then case add_block m p of
           (m', r) \<Rightarrow>
             if r = Inl EIO then Some (m', r)
             else if r = Inl ENOSPC then
               Option.bind (shrink_to m' p old)
                 (\<lambda>(m'', r'). if isl r' then Some (m'', r') else g m'' p old t)
             else g m' p old t
         else Some (m, Inr ())) = Some r"
    show "\<not> stuck m p old t"
    proof
      assume st: "stuck m p old t"
      then have lt: "ospfs_size2nblocks (oi_size m p) < ospfs_size2nblocks t"
        by (simp add: stuck_def nblocks_less)
      from st show False
        by (cases rule: stuck_step) (use eq lt IH in auto)
    qed
  qed
  with st show False by blast
qed

lemma set_size_wf:
  assumes ok: "alloc_ok m" and wf: "wf_file m p" and t: "unat (ospfs_size2nblocks t) = nblk m p"
  shows "alloc_ok (set_size m p t)" "wf_file (set_size m p t) p"
    "file_blocks (set_size m p t) p = file_blocks m p" "pool (set_size m p t) p = pool m p"
    "super (set_size m p t) = super m" "used (set_size m p t) p = used m p"
proof -
  have lay: "lay m" and at: "inode_at m p" using ok wf by (auto simp: alloc_ok_def wf_file_def)
  let ?m = "set_size m p t"
  note [simp] = fview lay at
  have nb: "nblk ?m p = nblk m p" by (simp add: nblk_def t [unfolded nblk_def])
  show sup: "super ?m = super m" by (simp add: super_def)
  have d: "data_blk m (oi_indirect m p)" if "10 < nblk m p"
    using that wf by (auto simp: wf_file_def all_blocks_def own_blk_def)
  have fb: "fblk ?m p i = fblk m p i" if "i < nblk m p" for i
  proof (cases "i < 10")
    case False
    then have "i < 266" "10 < nblk m p" using that wf by (auto simp: wf_file_def)
    with False d show ?thesis by (simp add: fblk_def)
  qed (simp add: fblk_def)
  show fbs: "file_blocks ?m p = file_blocks m p" using fb by (simp add: file_blocks_def nb)
  have all: "all_blocks ?m p = all_blocks m p" by (simp add: all_blocks_def fbs nb)
  have "own_blk ?m b = own_blk m b" for b by (simp add: own_blk_def)
  then show "wf_file ?m p"
    unfolding wf_file_def all nb using wf by (simp add: wf_file_def)
  show "alloc_ok ?m" using ok unfolding alloc_ok_def by simp
  show "pool ?m p = pool m p" "used ?m p = used m p" by (simp_all add: pool_def used_def all)
qed


lemma change_size_spec:
  assumes ok: "alloc_ok m" and wf: "wf_file m p" and t: "unat (ospfs_size2nblocks t) \<le> 266"
    and room: "blocks_needed (unat (ospfs_size2nblocks t)) \<le> card (pool m p)"
  obtains m' where "change_size m p t = Some (m', Inr ())" "alloc_ok m'" "wf_file m' p"
    "oi_size m' p = t" "nblk m' p = unat (ospfs_size2nblocks t)" "super m' = super m"
    "\<And>i. i < nblk m p \<Longrightarrow> i < nblk m' p \<Longrightarrow> file_blocks m' p ! i = file_blocks m p ! i"
    "\<And>i. nblk m p \<le> i \<Longrightarrow> i < nblk m' p \<Longrightarrow> zeroed m' (file_blocks m' p ! i)"
    "pool m' p = pool m p - ({guard m} \<inter> (used m p - used m' p))" "frame m m' p (free_set m \<union> own_ptrs m p)"
proof (cases "nblk m p \<le> unat (ospfs_size2nblocks t)")
  case True
  let ?t = "unat (ospfs_size2nblocks t)"
  from grow_to_ok [OF ok wf True t room, of "oi_size m p"] obtain m1 bs where
    g: "grow_to m p (oi_size m p) t = Some (m1, Inr ())" "alloc_ok m1" "wf_file m1 p"
      "file_blocks m1 p = file_blocks m p @ bs" "nblk m1 p = ?t" "\<forall>b\<in>set bs. zeroed m1 b"
      "super m1 = super m" "pool m1 p = pool m p" "frame m m1 p (free_set m \<union> own_ptrs m p)"
      "free_set m1 \<subseteq> free_set m"
    by blast
  let ?m = "set_size m1 p t"
  have lay: "lay m1" and at: "inode_at m1 p" using g(2,3) by (auto simp: alloc_ok_def wf_file_def)
  note w = set_size_wf [OF g(2,3) g(5) [symmetric]]
  have f1: "frame m1 ?m p {}" unfolding field_write by (rule frame_cell) simp
  have n: "nblk ?m p = ?t" using arg_cong [OF w(3), of length] g(5) by simp
  have pool: "pool ?m p = pool m p - ({guard m} \<inter> (used m p - used ?m p))"
    using used_grows [OF wf g(8,10)] unfolding w(4,6) g(8) by blast
  have run: "change_size m p t = Some (?m, Inr ())"
    using g(1,5) by (simp add: change_size_def take_shrink_noop)
  show thesis
  proof (rule that [OF run w(1,2) _ n trans [OF w(5) g(7)] _ _ pool])
    show "oi_size ?m p = t" by (simp add: fview)
    show "frame m ?m p (free_set m \<union> own_ptrs m p)"
      by (rule frame_trans [OF g(9) f1 super_eq(3) [OF g(7)]]) simp
    fix i
    show "file_blocks ?m p ! i = file_blocks m p ! i" if "i < nblk m p"
      unfolding w(3) g(4) using that by (simp add: nth_append)
    assume i: "nblk m p \<le> i" "i < nblk ?m p"
    have "length (file_blocks m1 p) = nblk m p + length bs" unfolding g(4) by simp
    then have "i - nblk m p < length bs" using i n g(5) by simp
    then have "file_blocks m1 p ! i \<in> set bs"
      using i unfolding g(4) by (simp add: nth_append)
    moreover from this have "own_blk m1 (file_blocks m1 p ! i)"
      using file_block_owned(1) [OF g(3)] g(4) by auto
    ultimately show "zeroed ?m (file_blocks ?m p ! i)"
      unfolding w(3) zeroed_def
      using frame_block_bytes [OF f1 lay at] g(6) by (auto simp: zeroed_def own_blk_def)
  qed
next
  case False
  let ?t = "unat (ospfs_size2nblocks t)"
  have le: "?t \<le> nblk m p" using False by simp
  from shrink_to_ok [OF ok wf le] obtain m1 where
    g: "shrink_to m p t = Some (m1, Inr ())" "alloc_ok m1" "wf_file m1 p"
      "file_blocks m1 p = take ?t (file_blocks m p)" "super m1 = super m" "used m1 p \<subseteq> used m p"
      "frame m m1 p (own_ptrs m p)" "free_set m1 = free_set m \<union> (used m p - used m1 p - {guard m})" by blast
  have n1: "nblk m1 p = ?t" using arg_cong [OF g(4), of length] le by simp
  let ?m = "set_size m1 p t"
  note w = set_size_wf [OF g(2,3) n1 [symmetric]]
  have f1: "frame m1 ?m p {}" unfolding field_write by (rule frame_cell) simp
  have n: "nblk ?m p = ?t" using arg_cong [OF w(3), of length] n1 by simp
  have pool: "pool ?m p = pool m p - ({guard m} \<inter> (used m p - used ?m p))"
    unfolding w(4,6) unfolding pool_def g(8) using g(6) free_used_disjoint [OF wf] by blast
  have "grow_to m p (oi_size m p) t = Some (m, Inr ())"
    using le by (simp add: grow_to.simps [of m] nblocks_less not_less)
  then have run: "change_size m p t = Some (?m, Inr ())"
    using g(1) by (simp add: change_size_def)
  have lay: "lay m1" and at: "inode_at m1 p" using g(2,3) by (auto simp: alloc_ok_def wf_file_def)
  show thesis
  proof (rule that [OF run w(1,2) _ n trans [OF w(5) g(5)] _ _ pool])
    show "oi_size ?m p = t" by (simp add: fview)
    show "frame m ?m p (free_set m \<union> own_ptrs m p)"
      by (rule frame_trans [OF g(7) f1 super_eq(3) [OF g(5)]]) simp
    fix i
    show "file_blocks ?m p ! i = file_blocks m p ! i" if "i < nblk ?m p"
      unfolding w(3) g(4) using that n by simp
    show "zeroed ?m (file_blocks ?m p ! i)" if "nblk m p \<le> i" "i < nblk ?m p"
      using that n False by simp
  qed
qed

end
