(* ===== verification/Ospfs_File.thy ===== *)
theory Ospfs_File
  imports Ospfs_Grow
begin

text \<open>
  Reading, writing and attribute changes of regular files (\<open>ospfs_read\<close>, \<open>ospfs_write\<close>,
  \<open>ospfs_notify_change\<close>, \<open>ospfs_ioctl\<close> of File_System/ospfsmod.c), with the crash-testing
  counter \<open>nwrites_to_crash\<close>.  The kernel's user-copy routines and inode helpers are
  parameters: \<open>copy_to_user\<close> takes the user memory, the destination and the bytes and
  returns the new user memory and the number of bytes not copied; \<open>copy_from_user\<close> takes the
  user memory, the source and the length and returns the bytes it could copy and the number
  it could not.  A file position (\<open>loff_t\<close>) is an \<open>int\<close>, a \<open>size_t\<close> a 32-bit word.
\<close>

record ospfs =
  data :: mem
  nwrites_to_crash :: int

section \<open>Reading\<close>

type_synonym copy_out = "mem \<Rightarrow> nat \<Rightarrow> u8 list \<Rightarrow> mem \<times> nat"
type_synonym copy_in = "mem \<Rightarrow> nat \<Rightarrow> nat \<Rightarrow> u8 list \<times> nat"

definition chunk :: "int \<Rightarrow> u32 \<Rightarrow> u32 \<Rightarrow> u32" where
  "chunk f_pos count amount =
     (let n = OSPFS_BLKSIZE - of_int (f_pos mod OSPFS_BLKSIZE)
      in if count - amount < n then count - amount else n)"

lemma unat_block_offset: "unat (of_int (f mod 1024) :: u32) = nat (f mod 1024)"
proof -
  have "0 \<le> f mod 1024" "f mod 1024 < 1024" by simp_all
  then have "uint (of_int (f mod 1024) :: u32) = f mod 1024"
    by (simp add: uint_word_of_int_eq take_bit_int_eq_self)
  then show ?thesis by (simp add: unat_eq_nat_uint)
qed

lemma unat_chunk:
  assumes "amount < count"
  shows "unat (chunk f count amount) = min (1024 - nat (f mod 1024)) (unat count - unat amount)"
proof -
  have "nat (f mod 1024) < 1024" by (simp add: nat_less_iff)
  then have "(of_int (f mod 1024) :: u32) \<le> 1024"
    by (simp add: word_le_nat_alt unat_block_offset)
  then have "unat (1024 - of_int (f mod 1024) :: u32) = 1024 - nat (f mod 1024)"
    by (simp add: unat_sub unat_block_offset)
  moreover have "unat (count - amount) = unat count - unat amount"
    using assms by (intro unat_sub) simp
  ultimately show ?thesis by (simp add: chunk_def Let_def word_less_nat_alt min_def)
qed

lemma chunk_progress:
  assumes "amount < count"
  shows "unat (amount + chunk f count amount) = unat amount + unat (chunk f count amount)"
    "0 < unat (chunk f count amount)" "unat amount + unat (chunk f count amount) \<le> unat count"
proof -
  have "nat (f mod 1024) < 1024" by (simp add: nat_less_iff)
  moreover have "unat amount < unat count" using assms by (simp add: word_less_nat_alt)
  ultimately show 1: "0 < unat (chunk f count amount)"
    "unat amount + unat (chunk f count amount) \<le> unat count"
    unfolding unat_chunk [OF assms] by linarith+
  show "unat (amount + chunk f count amount) = unat amount + unat (chunk f count amount)"
  proof -
    have "unat count < 2 ^ 32" using unsigned_less [of count] by simp
    then show ?thesis using 1(2) by (subst unat_add_lem [THEN iffD1]) auto
  qed
qed

lemma chunk_decreases:
  "amount < count \<Longrightarrow> unat count - unat (amount + chunk f count amount) < unat count - unat amount"
  using chunk_progress [of amount count f] by (simp add: word_less_nat_alt)

function read_loop :: "copy_out \<Rightarrow> mem \<Rightarrow> nat \<Rightarrow> u32 \<Rightarrow> mem \<Rightarrow> nat \<Rightarrow> u32 \<Rightarrow> int \<Rightarrow>
    mem \<times> int \<times> (errno + u32)" where
  "read_loop copy_to_user m oi count um buffer amount f_pos =
     (if amount < count then
        let blockno = ospfs_inode_blockno m oi (of_int f_pos) in
        if blockno = 0 then (um, f_pos, Inl EIO)
        else
          let block_offset = nat (f_pos mod OSPFS_BLKSIZE);
              n = chunk f_pos count amount;
              (um, left) = copy_to_user um buffer
                 (mem_read m (ospfs_block blockno + block_offset) (unat n))
          in if left \<noteq> 0 then (um, f_pos, Inl EFAULT)
             else read_loop copy_to_user m oi count um (buffer + unat n) (amount + n) (f_pos + uint n)
      else (um, f_pos, Inr amount))"
  by pat_completeness auto
termination
  by (relation "measure (\<lambda>(_, _, _, count, _, _, amount, _). unat count - unat amount)")
    (auto intro: chunk_decreases)

declare read_loop.simps [simp del]

definition ospfs_read :: "copy_out \<Rightarrow> mem \<Rightarrow> nat \<Rightarrow> mem \<Rightarrow> nat \<Rightarrow> u32 \<Rightarrow> int \<Rightarrow>
    mem \<times> int \<times> (errno + u32)" where
  "ospfs_read copy_to_user m oi um buffer count f_pos =
     (let count = (if f_pos + uint count > uint (oi_size m oi)
                   then of_int (uint (oi_size m oi) - f_pos) else count)
      in read_loop copy_to_user m oi count um buffer 0 f_pos)"

section \<open>Writing\<close>

function write_loop :: "copy_in \<Rightarrow> mem \<Rightarrow> mem \<Rightarrow> nat \<Rightarrow> u32 \<Rightarrow> nat \<Rightarrow> u32 \<Rightarrow> int \<Rightarrow>
    mem \<times> int \<times> (errno + u32)" where
  "write_loop copy_from_user um m oi count buffer amount f_pos =
     (if amount < count then
        let blockno = ospfs_inode_blockno m oi (of_int f_pos) in
        if blockno = 0 then (m, f_pos, Inl EIO)
        else
          let block_offset = nat (f_pos mod OSPFS_BLKSIZE);
              n = chunk f_pos count amount;
              (bytes, left) = copy_from_user um buffer (unat n);
              m = mem_write m (ospfs_block blockno + block_offset) bytes
          in if left \<noteq> 0 then (m, f_pos, Inl EFAULT)
             else write_loop copy_from_user um m oi count (buffer + unat n) (amount + n) (f_pos + uint n)
      else (m, f_pos, Inr amount))"
  by pat_completeness auto
termination
  by (relation "measure (\<lambda>(_, _, _, _, count, _, amount, _). unat count - unat amount)")
    (auto intro: chunk_decreases)

declare write_loop.simps [simp del]

text \<open>
  The crash counter: at 0 the operation returns at once and does nothing, a positive count is
  decremented, a negative one is ignored.
\<close>

definition crash_tick :: "int \<Rightarrow> int" where
  "crash_tick k = (if k > 0 then k - 1 else k)"

definition ospfs_write :: "copy_in \<Rightarrow> mem \<Rightarrow> bool \<Rightarrow> ospfs \<Rightarrow> nat \<Rightarrow> nat \<Rightarrow> u32 \<Rightarrow> int \<Rightarrow>
    (ospfs \<times> int \<times> (errno + u32)) option" where
  "ospfs_write copy_from_user um o_append s oi buffer count f_pos =
     (if nwrites_to_crash s = 0 then Some (s, f_pos, Inr count)
      else
        let s = s\<lparr>nwrites_to_crash := crash_tick (nwrites_to_crash s)\<rparr>;
            f_pos = (if o_append then uint (oi_size (data s) oi) else f_pos)
        in if f_pos + uint count > uint (oi_size (data s) oi) then
             Option.bind (change_size (data s) oi (of_int (f_pos + uint count)))
               (\<lambda>(m, r). if isl r then Some (s\<lparr>data := m\<rparr>, f_pos, Inr 0)
                  else let (m, f_pos, r) = write_loop copy_from_user um m oi count buffer 0 f_pos
                       in Some (s\<lparr>data := m\<rparr>, f_pos, r))
           else let (m, f_pos, r) = write_loop copy_from_user um (data s) oi count buffer 0 f_pos
                in Some (s\<lparr>data := m\<rparr>, f_pos, r))"

section \<open>Attributes and the crash counter\<close>

record iattr =
  ia_size :: "u32 option"
  ia_mode :: "u32 option"

text \<open>
  \<open>attr->ia_valid\<close> is the presence of the optional fields.  \<open>inode_change_ok\<close> and
  \<open>inode_setattr\<close> are the kernel's, given by their return values.
\<close>

definition ospfs_notify_change :: "(errno + unit) \<Rightarrow> (errno + unit) \<Rightarrow> mem \<Rightarrow> nat \<Rightarrow> iattr \<Rightarrow>
    (mem \<times> (errno + unit)) option" where
  "ospfs_notify_change change_ok setattr m oi attr =
     Option.bind
       (case ia_size attr of
          Some sz \<Rightarrow> if oi_ftype m oi = OSPFS_FTYPE_DIR then Some (m, Inl EPERM)
                    else change_size m oi sz
        | None \<Rightarrow> Some (m, Inr ()))
       (\<lambda>(m, r). case r of Inl e \<Rightarrow> Some (m, Inl e)
          | Inr _ \<Rightarrow>
              let m = (case ia_mode attr of Some md \<Rightarrow> set_mode m oi md | None \<Rightarrow> m)
              in Some (m, if isl change_ok then change_ok else setattr))"

abbreviation (input) IOCTL_NWRITES :: u32 where "IOCTL_NWRITES \<equiv> 27392"

definition ospfs_ioctl :: "ospfs \<Rightarrow> u32 \<Rightarrow> int \<Rightarrow> ospfs \<times> (errno + unit)" where
  "ospfs_ioctl s cmd arg =
     (if cmd = IOCTL_NWRITES then (s\<lparr>nwrites_to_crash := arg\<rparr>, Inr ())
      else (s, Inl ENOTTY))"

text \<open>\<open>init_ospfs_fs\<close>: no crash is simulated until the ioctl sets a count.\<close>

definition init_ospfs_fs :: "mem \<Rightarrow> ospfs" where
  "init_ospfs_fs m = \<lparr>data = m, nwrites_to_crash = -1\<rparr>"

section \<open>The contents of a file\<close>

definition file_byte :: "mem \<Rightarrow> nat \<Rightarrow> nat \<Rightarrow> u8" where
  "file_byte m p i = m (unat (fblk m p (i div 1024)) * 1024 + i mod 1024)"

definition file_data :: "mem \<Rightarrow> nat \<Rightarrow> u8 list" where
  "file_data m p = map (file_byte m p) [0..<unat (oi_size m p)]"

text \<open>A well-formed file whose size really is in its blocks (no wrap below zero).\<close>

definition readable :: "mem \<Rightarrow> nat \<Rightarrow> bool" where
  "readable m p \<longleftrightarrow> lay m \<and> wf_file m p \<and> unat (oi_size m p) \<le> nblk m p * 1024"

lemma length_file_data [simp]: "length (file_data m p) = unat (oi_size m p)"
  by (simp add: file_data_def)

lemma nth_file_data: "i < unat (oi_size m p) \<Longrightarrow> file_data m p ! i = file_byte m p i"
  by (simp add: file_data_def)

lemma readable_block:
  assumes "readable m p" "i < unat (oi_size m p)"
  shows "own_blk m (fblk m p (i div 1024))" "fblk m p (i div 1024) \<noteq> 0"
    "ospfs_block (fblk m p (i div 1024)) = unat (fblk m p (i div 1024)) * 1024"
proof -
  have "i div 1024 < nblk m p" using assms by (simp add: readable_def div_less_iff_less_mult)
  then have "fblk m p (i div 1024) \<in> set (file_blocks m p)" by (simp add: file_blocks_def)
  then show own: "own_blk m (fblk m p (i div 1024))"
    using assms by (intro file_block_owned(1)) (simp_all add: readable_def)
  have lay: "lay m" and d: "data_blk m (fblk m p (i div 1024))"
    using own assms(1) by (simp_all add: own_blk_def readable_def)
  show "fblk m p (i div 1024) \<noteq> 0" by (rule data_blk_nonzero [OF lay d])
  show "ospfs_block (fblk m p (i div 1024)) = unat (fblk m p (i div 1024)) * 1024"
    by (rule data_blk_addr [OF lay d])
qed

lemma unat_of_pos:
  assumes "0 \<le> f" "nat f < unat (s :: u32)"
  shows "unat (of_int f :: u32) = nat f"
proof -
  have "unat s < 2 ^ 32" using unsigned_less [of s] by simp
  then have "f < 2 ^ 32" using assms by simp
  then have "uint (of_int f :: u32) = f" using assms(1) by (simp add: uint_word_of_int_eq take_bit_int_eq_self)
  then show ?thesis by (simp add: unat_eq_nat_uint)
qed

lemma blockno_at:
  assumes "readable m p" "0 \<le> f" "nat f < unat (oi_size m p)"
  shows "ospfs_inode_blockno m p (of_int f) = fblk m p (nat f div 1024)"
  using assms unat_of_pos [OF assms(2,3)]
  by (subst ospfs_inode_blockno_fblk) (simp_all add: readable_def wf_file_def)

lemma same_block:
  assumes "0 \<le> f" "j < 1024 - nat (f mod 1024)"
  shows "(nat f + j) div 1024 = nat f div 1024" "(nat f + j) mod 1024 = nat (f mod 1024) + j"
proof -
  have m: "nat (f mod 1024) = nat f mod 1024" using assms(1) by (simp add: nat_mod_distrib)
  have d: "nat f = nat f div 1024 * 1024 + nat f mod 1024" by simp
  have "nat f + j = nat f div 1024 * 1024 + (nat f mod 1024 + j)" using d by linarith
  moreover have "nat f mod 1024 + j < 1024" using assms(2) m by linarith
  ultimately show "(nat f + j) div 1024 = nat f div 1024" "(nat f + j) mod 1024 = nat (f mod 1024) + j"
    unfolding m by (metis add.commute div_mult_self1_is_m div_mult_self3 div_less add_0_right zero_neq_numeral,
      metis add.commute mod_mult_self1 mod_less)
qed

lemma nat_add_uint: "0 \<le> f \<Longrightarrow> nat (f + uint (n :: u32)) = nat f + unat n"
  unfolding unat_eq_nat_uint by (rule nat_add_distrib) simp_all

section \<open>Reading refines reading the contents\<close>

text \<open>The user memory accepts every byte.\<close>

definition copy_all :: copy_out where
  "copy_all um a bs = (mem_write um a bs, 0)"

lemma read_loop_copy_all:
  assumes "readable m p" "0 \<le> f" "amount \<le> count"
    "nat f + (unat count - unat amount) \<le> unat (oi_size m p)"
  shows "read_loop copy_all m p count um buf amount f =
    (mem_write um buf (take (unat count - unat amount) (drop (nat f) (file_data m p))),
     f + int (unat count - unat amount), Inr count)"
  using assms
proof (induction "unat count - unat amount" arbitrary: um buf amount f rule: less_induct)
  case less
  show ?case
  proof (cases "amount < count")
    case False
    with less.prems have "amount = count" by simp
    then show ?thesis by (simp add: read_loop.simps mem_write_nil)
  next
    case True
    let ?n = "chunk f count amount"
    let ?k = "unat count - unat amount"
    note pr = chunk_progress [OF True, of f]
    have un: "unat ?n = min (1024 - nat (f mod 1024)) ?k" by (rule unat_chunk [OF True])
    have pos: "nat f < unat (oi_size m p)"
      using True less.prems(4) by (simp add: word_less_nat_alt)
    note blk = readable_block [OF less.prems(1) pos]
    let ?b = "fblk m p (nat f div 1024)"
    let ?off = "nat (f mod 1024)"
    have fit: "unat ?n \<le> unat (oi_size m p) - nat f" using un less.prems(4) by linarith
    have bytes: "mem_read m (unat ?b * 1024 + ?off) (unat ?n) = take (unat ?n) (drop (nat f) (file_data m p))"
    proof (rule nth_equalityI)
      show "length (mem_read m (unat ?b * 1024 + ?off) (unat ?n))
          = length (take (unat ?n) (drop (nat f) (file_data m p)))"
        using fit by simp
    next
      fix j assume "j < length (mem_read m (unat ?b * 1024 + ?off) (unat ?n))"
      then have j: "j < unat ?n" by simp
      then have jb: "j < 1024 - ?off" "nat f + j < unat (oi_size m p)" using un less.prems(4) by linarith+
      note sb = same_block [OF less.prems(2) jb(1)]
      show "mem_read m (unat ?b * 1024 + ?off) (unat ?n) ! j
          = take (unat ?n) (drop (nat f) (file_data m p)) ! j"
        using j jb(2) by (simp add: nth_file_data file_byte_def sb add.assoc)
    qed
    let ?d = "take (unat ?n) (drop (nat f) (file_data m p))"
    have len: "length ?d = unat ?n" using fit by simp
    have "read_loop copy_all m p count um buf amount f
        = read_loop copy_all m p count (mem_write um buf ?d) (buf + unat ?n) (amount + ?n) (f + uint ?n)"
      using True blk
      by (subst read_loop.simps)
         (simp add: Let_def blockno_at [OF less.prems(1,2) pos] copy_all_def bytes del: take_drop)
    also have "\<dots> = (mem_write (mem_write um buf ?d) (buf + unat ?n)
        (take (unat count - unat (amount + ?n)) (drop (nat (f + uint ?n)) (file_data m p))),
        f + uint ?n + int (unat count - unat (amount + ?n)), Inr count)"
    proof (rule less.hyps)
      show "unat count - unat (amount + ?n) < ?k" by (rule chunk_decreases [OF True])
      show "0 \<le> f + uint ?n" using less.prems(2) by simp
      show "amount + ?n \<le> count" using pr by (simp add: word_le_nat_alt)
      have "nat (f + uint ?n) = nat f + unat ?n"
        by (rule nat_add_uint [OF less.prems(2)])
      then show "nat (f + uint ?n) + (unat count - unat (amount + ?n)) \<le> unat (oi_size m p)"
        using pr less.prems(4) by linarith
    qed (rule less.prems(1))
    also have "\<dots> = (mem_write um buf (take ?k (drop (nat f) (file_data m p))), f + int ?k, Inr count)"
    proof -
      have e: "nat (f + uint ?n) = nat f + unat ?n"
        by (rule nat_add_uint [OF less.prems(2)])
      have eq: "?k = unat ?n + (unat count - unat (amount + ?n))" using pr by linarith
      have ui: "uint ?n = int (unat ?n)" by simp
      have "?d @ take (unat count - unat (amount + ?n)) (drop (nat f + unat ?n) (file_data m p))
          = take ?k (drop (nat f) (file_data m p))"
        unfolding eq take_add drop_drop by (simp only: add.commute [of "nat f"])
      moreover have "f + uint ?n + int (unat count - unat (amount + ?n)) = f + int ?k"
        unfolding ui using eq by linarith
      ultimately show ?thesis
        using mem_write_append [of um buf ?d, unfolded len] unfolding e by (simp only:)
    qed
    finally show ?thesis .
  qed
qed

section \<open>Writing refines overwriting the contents\<close>

definition copy_from_all :: copy_in where
  "copy_from_all um a n = (mem_read um a n, 0)"

text \<open>A change confined to the data blocks of a file leaves its structure alone.\<close>

definition only_data :: "mem \<Rightarrow> mem \<Rightarrow> nat \<Rightarrow> bool" where
  "only_data m m' p \<longleftrightarrow> (\<forall>x. x div 1024 \<notin> unat ` set (file_blocks m p) \<longrightarrow> m' x = m x)"

lemma only_data_get32:
  assumes "only_data m m' p" "\<And>i. i < 4 \<Longrightarrow> (a + i) div 1024 \<notin> unat ` set (file_blocks m p)"
  shows "get32 m' a = get32 m a"
  using assms by (intro get32_cong) (simp add: only_data_def)

lemma low_not_data:
  assumes "wf_file m p" "x < first_data m * 1024"
  shows "x div 1024 \<notin> unat ` set (file_blocks m p)"
proof
  assume "x div 1024 \<in> unat ` set (file_blocks m p)"
  then obtain b where b: "b \<in> set (file_blocks m p)" "x div 1024 = unat b" by auto
  from file_block_owned(1) [OF assms(1) b(1)] have "first_data m \<le> unat b"
    by (simp add: own_blk_def data_blk_def)
  moreover have "x div 1024 < first_data m" using assms(2) by (simp add: div_less_iff_less_mult)
  ultimately show False using b(2) by simp
qed

lemma only_data_low:
  assumes "wf_file m p" "only_data m m' p" "a + 4 \<le> first_data m * 1024"
  shows "get32 m' a = get32 m a"
  using assms(3) by (intro only_data_get32 [OF assms(2)] low_not_data [OF assms(1)]) simp

lemma only_data_view:
  assumes lay: "lay m" and wf: "wf_file m p" and od: "only_data m m' p"
  shows "super m' = super m" "lay m'" "free_set m' = free_set m"
    "oi_size m' p = oi_size m p" "file_blocks m' p = file_blocks m p" "wf_file m' p"
    "nblk m' p = nblk m p" "\<And>i. i < nblk m p \<Longrightarrow> fblk m' p i = fblk m p i"
proof -
  have fd: "2 \<le> first_data m" using lay_firstinob [OF lay] by (simp add: first_data_def)
  have at: "inode_at m p" using wf by (simp add: wf_file_def)
  note low = only_data_low [OF wf od]
  show sup: "super m' = super m"
    unfolding super_def os_nblocks_def os_ninodes_def os_firstinob_def
    using fd by (simp add: low)
  then show lay': "lay m'" using lay by (simp add: super_eq [OF sup])
  have bits: "bitvector_test m' 2048 k = bitvector_test m 2048 k" if "k < unat (os_nblocks m)" for k
  proof -
    have "2048 + 4 * (k div 32) + 4 \<le> first_data m * 1024"
      using bit_word_in_map [OF lay that] by (simp add: first_data_def)
    then show ?thesis unfolding bitvector_test_def by (simp add: low)
  qed
  then show fs: "free_set m' = free_set m"
    by (auto simp: free_set_def super_eq(1) [OF sup])
  have cell: "get32 m' (p + x) = get32 m (p + x)" if "x \<le> 60" for x
    by (rule low) (use at that in \<open>simp add: inode_at_def\<close>)
  have fields: "oi_size m' p = oi_size m p" "oi_ftype m' p = oi_ftype m p"
    "oi_indirect m' p = oi_indirect m p" "oi_indirect2 m' p = oi_indirect2 m p"
    "\<And>i. i < 10 \<Longrightarrow> oi_direct m' p i = oi_direct m p i"
    unfolding field_read by (simp_all only: cell)
  then show "oi_size m' p = oi_size m p" by simp
  show nb: "nblk m' p = nblk m p" using fields(1) by (simp add: nblk_def)
  have ent: "block_entry m' (oi_indirect m p) j = block_entry m (oi_indirect m p) j"
    if "10 < nblk m p" "j < 256" for j
    unfolding block_entry_def
  proof (rule only_data_get32 [OF od])
    fix i :: nat assume i: "i < 4"
    have d: "own_blk m (oi_indirect m p)" "oi_indirect m p \<notin> set (file_blocks m p)"
      using that wf by (auto simp: wf_file_def all_blocks_def)
    then have "ospfs_block (oi_indirect m p) = unat (oi_indirect m p) * 1024"
      using data_blk_addr [OF lay] by (simp add: own_blk_def)
    then have "(ospfs_block (oi_indirect m p) + 4 * j + i) div 1024 = unat (oi_indirect m p)"
      using that(2) i by (simp add: add.assoc)
    moreover have "unat (oi_indirect m p) \<notin> unat ` set (file_blocks m p)"
      using d(2) by (metis imageE word_unat_eq_iff)
    ultimately show "(ospfs_block (oi_indirect m p) + 4 * j + i) div 1024
        \<notin> unat ` set (file_blocks m p)" by simp
  qed
  show fb: "fblk m' p i = fblk m p i" if "i < nblk m p" for i
  proof (cases "i < 10")
    case False
    then have "i < 266" "10 < nblk m p" "i - 10 < 256" using that wf by (auto simp: wf_file_def)
    with False ent show ?thesis by (simp add: fblk_def fields)
  qed (simp add: fblk_def fields)
  show fbs: "file_blocks m' p = file_blocks m p" using fb by (simp add: file_blocks_def nb)
  have all: "all_blocks m' p = all_blocks m p" by (simp add: all_blocks_def fbs nb fields)
  have "own_blk m' b = own_blk m b" for b
    using own_blk_mono [OF sup] own_blk_mono [OF sup [symmetric]] fs by blast
  then show "wf_file m' p"
    unfolding wf_file_def all nb using wf by (simp add: wf_file_def fields super_eq [OF sup])
qed

lemma only_data_readable:
  "readable m p \<Longrightarrow> only_data m m' p \<Longrightarrow> readable m' p"
  using only_data_view [of m p m'] by (simp add: readable_def)

lemma only_data_refl [simp]: "only_data m m p" by (simp add: only_data_def)

lemma only_data_trans:
  assumes "lay m" "wf_file m p" "only_data m m1 p" "only_data m1 m2 p"
  shows "only_data m m2 p"
  using assms(3,4) only_data_view(5) [OF assms(1-3)] by (simp add: only_data_def)

lemma byte_addr_inj:
  assumes "readable m p" "i < unat (oi_size m p)" "j < unat (oi_size m p)"
    "unat (fblk m p (i div 1024)) * 1024 + i mod 1024 = unat (fblk m p (j div 1024)) * 1024 + j mod 1024"
  shows "i = j"
proof -
  have r: "unat a * 1024 + x = unat b * 1024 + y \<Longrightarrow> x < 1024 \<Longrightarrow> y < 1024 \<Longrightarrow> unat a = unat b \<and> x = y"
    for a b :: u32 and x y :: nat
    by (metis add.commute div_mult_self3 div_less add_0_right mod_mult_self1 mod_less zero_neq_numeral)
  have e: "unat (fblk m p (i div 1024)) = unat (fblk m p (j div 1024))" "i mod 1024 = j mod 1024"
    using r [OF assms(4)] by simp_all
  have n: "i div 1024 < nblk m p" "j div 1024 < nblk m p"
    using assms(1-3) by (simp_all add: readable_def div_less_iff_less_mult)
  have "distinct (file_blocks m p)" using assms(1) by (simp add: readable_def wf_file_def all_blocks_def split: if_splits)
  moreover have "file_blocks m p ! (i div 1024) = file_blocks m p ! (j div 1024)"
    using e(1) n by (simp add: file_blocks_def word_unat_eq_iff)
  ultimately have "i div 1024 = j div 1024" using n by (simp add: nth_eq_iff_index_eq)
  then show ?thesis using e(2) by (metis div_mod_decomp)
qed

text \<open>One chunk.\<close>

lemma write_chunk:
  assumes rd: "readable m p" and f: "0 \<le> f" "nat f + length bs \<le> unat (oi_size m p)"
    and bs: "length bs \<le> 1024 - nat (f mod 1024)" "bs \<noteq> []"
    and m': "m' = mem_write m (ospfs_block (fblk m p (nat f div 1024)) + nat (f mod 1024)) bs"
  shows "only_data m m' p"
    "\<And>i. i < unat (oi_size m p) \<Longrightarrow> file_byte m' p i =
      (if nat f \<le> i \<and> i < nat f + length bs then bs ! (i - nat f) else file_byte m p i)"
proof -
  let ?b = "fblk m p (nat f div 1024)"
  let ?off = "nat (f mod 1024)"
  have pos: "nat f < unat (oi_size m p)" using f(2) bs(2) by (cases bs) auto
  note blk = readable_block [OF rd pos]
  have lay: "lay m" and wf: "wf_file m p" using rd by (simp_all add: readable_def)
  have "nat f div 1024 < nblk m p" using rd pos by (simp add: readable_def div_less_iff_less_mult)
  then have inb: "?b \<in> set (file_blocks m p)" by (simp add: file_blocks_def)
  have out: "m' x = m x" if "x div 1024 \<noteq> unat ?b" for x
  proof -
    have "x < ospfs_block ?b \<or> ospfs_block ?b + 1024 \<le> x"
      by (rule in_block_div [OF lay _ that]) (use blk(1) in \<open>simp add: own_blk_def\<close>)
    then show ?thesis using bs(1) by (auto simp: m' mem_write_byte)
  qed
  show od: "only_data m m' p"
    unfolding only_data_def using out inb by blast
  fix i assume i: "i < unat (oi_size m p)"
  have "i div 1024 < nblk m p" using rd i by (simp add: readable_def div_less_iff_less_mult)
  then have fbi: "fblk m' p (i div 1024) = fblk m p (i div 1024)" by (rule only_data_view(8) [OF lay wf od])
  let ?x = "unat (fblk m p (i div 1024)) * 1024 + i mod 1024"
  have fx: "file_byte m' p i = m' ?x" by (simp add: file_byte_def fbi)
  show "file_byte m' p i =
      (if nat f \<le> i \<and> i < nat f + length bs then bs ! (i - nat f) else file_byte m p i)"
  proof (cases "nat f \<le> i \<and> i < nat f + length bs")
    case True
    then obtain j where j: "i = nat f + j" "j < length bs" by (metis add_less_cancel_left le_Suc_ex)
    then have "j < 1024 - ?off" using bs(1) by linarith
    note sb = same_block [OF f(1) this]
    have xa: "?x = ospfs_block ?b + ?off + j" unfolding j(1) sb blk(3) by simp
    show ?thesis using True j(2) unfolding fx xa unfolding m' by (simp add: mem_write_byte j(1))
  next
    case False
    have no: "\<not> (ospfs_block ?b + ?off \<le> ?x \<and> ?x < ospfs_block ?b + ?off + length bs)"
    proof
      assume "ospfs_block ?b + ?off \<le> ?x \<and> ?x < ospfs_block ?b + ?off + length bs"
      then obtain j where j: "?x = ospfs_block ?b + ?off + j" "j < length bs"
        by (metis add_less_cancel_left le_Suc_ex)
      then have "j < 1024 - ?off" using bs(1) by linarith
      note sb = same_block [OF f(1) this]
      have "?x = unat (fblk m p ((nat f + j) div 1024)) * 1024 + (nat f + j) mod 1024"
        unfolding j(1) sb blk(3) by simp
      then have "i = nat f + j" using byte_addr_inj [OF rd i] j(2) f(2) by simp
      with False j(2) show False by simp
    qed
    then have "m' ?x = m ?x" unfolding m' mem_write_byte by (simp only: if_False)
    then show ?thesis using False unfolding fx by (simp only: if_False file_byte_def)
  qed
qed

text \<open>The contents after writing \<open>bs\<close> at position \<open>f\<close>.\<close>

definition overwritten :: "mem \<Rightarrow> mem \<Rightarrow> nat \<Rightarrow> nat \<Rightarrow> u8 list \<Rightarrow> bool" where
  "overwritten m m' p f bs \<longleftrightarrow> (\<forall>i<unat (oi_size m p). file_byte m' p i =
     (if f \<le> i \<and> i < f + length bs then bs ! (i - f) else file_byte m p i))"

lemma overwritten_trans:
  assumes "overwritten m m1 p f xs" "overwritten m1 m2 p (f + length xs) ys"
    "oi_size m1 p = oi_size m p"
  shows "overwritten m m2 p f (xs @ ys)"
  unfolding overwritten_def
proof (intro allI impI)
  fix i assume i: "i < unat (oi_size m p)"
  have 1: "file_byte m1 p i = (if f \<le> i \<and> i < f + length xs then xs ! (i - f) else file_byte m p i)"
    using assms(1) i by (simp add: overwritten_def)
  have 2: "file_byte m2 p i = (if f + length xs \<le> i \<and> i < f + length xs + length ys
      then ys ! (i - (f + length xs)) else file_byte m1 p i)"
    using assms(2,3) i by (simp add: overwritten_def)
  show "file_byte m2 p i = (if f \<le> i \<and> i < f + length (xs @ ys) then (xs @ ys) ! (i - f) else file_byte m p i)"
    unfolding 2 1 by (auto simp: nth_append)
qed

lemma mem_read_split: "k \<le> n \<Longrightarrow> mem_read m a k @ mem_read m (a + k) (n - k) = mem_read m a n"
  by (rule nth_equalityI) (auto simp: nth_append)

lemma write_loop_copy_all:
  assumes "readable m p" "0 \<le> f" "amount \<le> count"
    "nat f + (unat count - unat amount) \<le> unat (oi_size m p)"
  shows "\<exists>m'. write_loop copy_from_all um m p count buf amount f
      = (m', f + int (unat count - unat amount), Inr count)
    \<and> only_data m m' p \<and> overwritten m m' p (nat f) (mem_read um buf (unat count - unat amount))"
  using assms
proof (induction "unat count - unat amount" arbitrary: m buf amount f rule: less_induct)
  case less
  show ?case
  proof (cases "amount < count")
    case False
    with less.prems have "amount = count" by simp
    then show ?thesis by (auto simp: write_loop.simps overwritten_def)
  next
    case True
    let ?n = "chunk f count amount"
    let ?k = "unat count - unat amount"
    note pr = chunk_progress [OF True, of f]
    have un: "unat ?n = min (1024 - nat (f mod 1024)) ?k" by (rule unat_chunk [OF True])
    have pos: "nat f < unat (oi_size m p)"
      using True less.prems(4) by (simp add: word_less_nat_alt)
    note blk = readable_block [OF less.prems(1) pos]
    let ?b = "fblk m p (nat f div 1024)"
    let ?off = "nat (f mod 1024)"
    let ?bs = "mem_read um buf (unat ?n)"
    define m1 where "m1 = mem_write m (ospfs_block ?b + ?off) ?bs"
    have len: "length ?bs = unat ?n" by simp
    have w: "only_data m m1 p" "overwritten m m1 p (nat f) ?bs"
    proof -
      have "nat f + length ?bs \<le> unat (oi_size m p)" "length ?bs \<le> 1024 - ?off"
        unfolding len using un less.prems(4) by linarith+
      moreover have "?bs \<noteq> []" using pr(2) by (simp add: mem_read_def)
      ultimately show "only_data m m1 p" "overwritten m m1 p (nat f) ?bs"
        using write_chunk [OF less.prems(1,2) _ _ _ m1_def] unfolding overwritten_def by blast+
    qed
    have lay: "lay m" and wf: "wf_file m p" using less.prems(1) by (simp_all add: readable_def)
    have sz: "oi_size m1 p = oi_size m p" by (rule only_data_view(4) [OF lay wf w(1)])
    have fn: "nat (f + uint ?n) = nat f + unat ?n" by (rule nat_add_uint [OF less.prems(2)])
    have step: "write_loop copy_from_all um m p count buf amount f
        = write_loop copy_from_all um m1 p count (buf + unat ?n) (amount + ?n) (f + uint ?n)"
      using True blk(2)
      by (subst write_loop.simps)
         (simp add: Let_def blockno_at [OF less.prems(1,2) pos] copy_from_all_def m1_def)
    have "\<exists>m'. write_loop copy_from_all um m1 p count (buf + unat ?n) (amount + ?n) (f + uint ?n)
        = (m', f + uint ?n + int (unat count - unat (amount + ?n)), Inr count)
      \<and> only_data m1 m' p
      \<and> overwritten m1 m' p (nat (f + uint ?n)) (mem_read um (buf + unat ?n) (unat count - unat (amount + ?n)))"
    proof (rule less.hyps)
      show "unat count - unat (amount + ?n) < ?k" by (rule chunk_decreases [OF True])
      show "0 \<le> f + uint ?n" using less.prems(2) by simp
      show "amount + ?n \<le> count" using pr by (simp add: word_le_nat_alt)
      show "nat (f + uint ?n) + (unat count - unat (amount + ?n)) \<le> unat (oi_size m1 p)"
        unfolding fn sz using pr less.prems(4) by linarith
      show "readable m1 p" by (rule only_data_readable [OF less.prems(1) w(1)])
    qed
    then obtain m' where m': "write_loop copy_from_all um m1 p count (buf + unat ?n) (amount + ?n) (f + uint ?n)
        = (m', f + uint ?n + int (unat count - unat (amount + ?n)), Inr count)"
      "only_data m1 m' p"
      "overwritten m1 m' p (nat f + unat ?n) (mem_read um (buf + unat ?n) (unat count - unat (amount + ?n)))"
      unfolding fn by blast
    have eq: "unat count - unat (amount + ?n) = ?k - unat ?n" "unat ?n \<le> ?k" using pr by linarith+
    have "overwritten m m' p (nat f) (?bs @ mem_read um (buf + unat ?n) (unat count - unat (amount + ?n)))"
      using overwritten_trans [OF w(2) _ sz] m'(3) unfolding len by blast
    then have "overwritten m m' p (nat f) (mem_read um buf ?k)"
      unfolding eq(1) mem_read_split [OF eq(2)] .
    moreover have "uint ?n = int (unat ?n)" by simp
    then have "f + uint ?n + int (unat count - unat (amount + ?n)) = f + int ?k"
      using eq by linarith
    moreover have "only_data m m' p" by (rule only_data_trans [OF lay wf w(1) m'(2)])
    ultimately show ?thesis using m'(1) unfolding step by metis
  qed
qed

text \<open>Growing keeps the bytes the file had.\<close>

lemma change_size_bytes:
  assumes lay: "lay m" and wf: "wf_file m p"
    and fr: "frame m m' p (free_set m \<union> own_ptrs m p)"
    and fb: "\<And>i. i < nblk m p \<Longrightarrow> i < nblk m' p \<Longrightarrow> file_blocks m' p ! i = file_blocks m p ! i"
    and i: "i div 1024 < nblk m p" "i div 1024 < nblk m' p"
  shows "file_byte m' p i = file_byte m p i"
proof -
  let ?b = "fblk m p (i div 1024)"
  have b: "fblk m' p (i div 1024) = ?b"
    using fb [OF i] i by (simp add: file_blocks_def)
  have inb: "?b \<in> set (file_blocks m p)" using i(1) by (simp add: file_blocks_def)
  note ow = file_block_owned [OF wf inb]
  have "m' (unat ?b * 1024 + i mod 1024) = m (unat ?b * 1024 + i mod 1024)"
    by (rule frame_block_bytes [OF fr lay])
       (use wf ow in \<open>simp_all add: wf_file_def own_blk_def\<close>)
  then show ?thesis by (simp add: file_byte_def b)
qed

end
