(* ===== verification/Ospfs_Dir.thy ===== *)
theory Ospfs_Dir
  imports Ospfs_File
begin

text \<open>
  Directories, links and inode creation of File_System/ospfsmod.c.  A Linux \<open>dentry\<close> is
  passed as its name (a byte list whose length is \<open>d_name.len\<close>) and inode number; the
  kernel's \<open>new_inode\<close> as the boolean "an inode was available", \<open>filldir\<close> as a function on
  the caller's buffer state.  A directory entry is the pointer \<open>od\<close> into the disk.
  Operations that scan strings or call \<open>change_size\<close> may not return: \<open>None\<close>.  \<open>Inl Oops\<close> is
  a null pointer dereference or a panic.
\<close>

section \<open>Linux inodes\<close>

datatype inode_kind = IReg | IDir | ILnk

record linux_inode =
  i_ino :: u32
  i_size :: u32
  i_kind :: inode_kind
  i_mode :: u32
  i_nlink :: u32

abbreviation (input) S_IFREG :: u32 where "S_IFREG \<equiv> 0x8000"
abbreviation (input) S_IFDIR :: u32 where "S_IFDIR \<equiv> 0x4000"
abbreviation (input) S_IFLNK :: u32 where "S_IFLNK \<equiv> 0xA000"
abbreviation (input) S_IRWXUGO_rw_x :: u32 where "S_IRWXUGO_rw_x \<equiv> 511"

text \<open>\<open>Inr None\<close> is the null inode pointer, \<open>Inl Oops\<close> the panic on an unknown type.\<close>

definition ospfs_mk_linux_inode :: "bool \<Rightarrow> mem \<Rightarrow> u32 \<Rightarrow> errno + linux_inode option" where
  "ospfs_mk_linux_inode new_inode m ino =
     (case ospfs_inode m ino of
        None \<Rightarrow> Inr None
      | Some oi \<Rightarrow>
          if \<not> new_inode then Inr None
          else
            let mk = (\<lambda>kind mode nlink. Inr (Some \<lparr>i_ino = ino, i_size = oi_size m oi, i_kind = kind,
                         i_mode = mode, i_nlink = nlink\<rparr>))
            in if oi_ftype m oi = OSPFS_FTYPE_REG
               then mk IReg (oi_mode m oi OR S_IFREG) (oi_nlink m oi)
               else if oi_ftype m oi = OSPFS_FTYPE_DIR
               then mk IDir (oi_mode m oi OR S_IFDIR) (oi_nlink m oi + 1)
               else if oi_ftype m oi = OSPFS_FTYPE_SYMLINK
               then mk ILnk (S_IRWXUGO_rw_x OR S_IFLNK) (oi_nlink m oi)
               else Inl Oops)"

text \<open>\<open>ospfs_fill_super\<close>: the root inode, or \<open>-ENOMEM\<close>.\<close>

definition ospfs_fill_super :: "bool \<Rightarrow> bool \<Rightarrow> mem \<Rightarrow> errno + linux_inode" where
  "ospfs_fill_super new_inode d_alloc_root m =
     (case ospfs_mk_linux_inode new_inode m OSPFS_ROOT_INO of
        Inl e \<Rightarrow> Inl e
      | Inr None \<Rightarrow> Inl ENOMEM
      | Inr (Some i) \<Rightarrow> if d_alloc_root then Inr i else Inl ENOMEM)"

section \<open>Directory entries\<close>

definition od_ino :: "mem \<Rightarrow> nat \<Rightarrow> u32" where "od_ino m od = get32 m od"
definition od_name :: "nat \<Rightarrow> nat" where "od_name od = od + 4"
definition set_od_ino :: "mem \<Rightarrow> nat \<Rightarrow> u32 \<Rightarrow> mem" where "set_od_ino m od v = put32 m od v"

text \<open>
  \<open>od->od_ino > 0 && strlen(od->od_name) == len && memcmp(od->od_name, name, len) == 0\<close>.
\<close>

definition entry_matches :: "mem \<Rightarrow> nat \<Rightarrow> u8 list \<Rightarrow> bool option" where
  "entry_matches m od name =
     (if od_ino m od > 0 then
        map_option (\<lambda>n. n = length name \<and> mem_read m (od_name od) (length name) = name)
          (strlen m (od_name od))
      else Some False)"

partial_function (option) find_loop :: "mem \<Rightarrow> nat \<Rightarrow> u8 list \<Rightarrow> u32 \<Rightarrow> nat option option" where
  "find_loop m dir_oi name off =
     (if off < oi_size m dir_oi then
        Option.bind (entry_matches m (ospfs_inode_data m dir_oi off) name)
          (\<lambda>hit. if hit then Some (Some (ospfs_inode_data m dir_oi off))
                 else find_loop m dir_oi name (off + OSPFS_DIRENTRY_SIZE))
      else Some None)"

text \<open>A negative \<open>namelen\<close> asks for \<open>strlen(name)\<close>.\<close>

definition find_direntry :: "mem \<Rightarrow> nat \<Rightarrow> u8 list \<Rightarrow> int \<Rightarrow> nat option option" where
  "find_direntry m dir_oi name namelen =
     (let name = (if namelen < 0 then takeWhile (\<lambda>c. c \<noteq> 0) name else take (nat namelen) name)
      in find_loop m dir_oi name 0)"

text \<open>
  \<open>ospfs_dir_lookup\<close>: \<open>Inr None\<close> is a negative dentry.  \<open>d_splice_alias\<close> attaches the result
  and is the kernel's.
\<close>

definition ospfs_dir_lookup :: "bool \<Rightarrow> mem \<Rightarrow> u32 \<Rightarrow> u8 list \<Rightarrow> (errno + linux_inode option) option" where
  "ospfs_dir_lookup new_inode m dir name =
     (if length name > OSPFS_MAXNAMELEN then Some (Inl ENAMETOOLONG)
      else case ospfs_inode m dir of
        None \<Rightarrow> Some (Inl Oops)
      | Some dir_oi \<Rightarrow>
          Option.bind (find_loop m dir_oi name 0)
            (\<lambda>od. case od of
               None \<Rightarrow> Some (Inr None)
             | Some od \<Rightarrow>
                 (case ospfs_mk_linux_inode new_inode m (od_ino m od) of
                    Inl e \<Rightarrow> Some (Inl e)
                  | Inr None \<Rightarrow> Some (Inl EINVAL)
                  | Inr (Some i) \<Rightarrow> Some (Inr (Some i)))))"

section \<open>Listing a directory\<close>

datatype dtype = DT_REG | DT_DIR | DT_LNK

text \<open>
  \<open>filldir\<close> gets the caller's state, the name (a pointer and its length), the position, the
  inode number and the type, and returns the new state and an \<open>int\<close>.
\<close>

type_synonym 'd filldir = "'d \<Rightarrow> u8 list \<Rightarrow> u32 \<Rightarrow> u32 \<Rightarrow> dtype \<Rightarrow> 'd \<times> int"

definition readdir_type :: "mem \<Rightarrow> nat \<Rightarrow> dtype option" where
  "readdir_type m entry_oi =
     (if oi_ftype m entry_oi = OSPFS_FTYPE_REG then Some DT_REG
      else if oi_ftype m entry_oi = OSPFS_FTYPE_DIR then Some DT_DIR
      else if oi_ftype m entry_oi = OSPFS_FTYPE_SYMLINK then Some DT_LNK
      else None)"

partial_function (option) readdir_loop ::
    "'d filldir \<Rightarrow> mem \<Rightarrow> nat \<Rightarrow> 'd \<Rightarrow> u32 \<Rightarrow> int \<Rightarrow> ('d \<times> u32 \<times> (errno + int)) option" where
  "readdir_loop filldir m dir_oi d f_pos ok_so_far =
     (if ok_so_far \<ge> 0 \<and> f_pos \<ge> 2 then
        if (f_pos - 2) * OSPFS_DIRENTRY_SIZE \<ge> oi_size m dir_oi then Some (d, f_pos, Inr 1)
        else
          let od = ospfs_inode_data m dir_oi ((f_pos - 2) * OSPFS_DIRENTRY_SIZE) in
          if od_ino m od = 0 then readdir_loop filldir m dir_oi d (f_pos + 1) ok_so_far
          else case ospfs_inode m (od_ino m od) of
            None \<Rightarrow> Some (d, f_pos, Inl Oops)
          | Some entry_oi \<Rightarrow>
              (case readdir_type m entry_oi of
                 None \<Rightarrow> readdir_loop filldir m dir_oi d (f_pos + 1) ok_so_far
               | Some dt \<Rightarrow>
                   Option.bind (strlen m (od_name od))
                     (\<lambda>n. let (d, ok_so_far) =
                             filldir d (mem_read m (od_name od) n) f_pos (od_ino m od) dt
                          in readdir_loop filldir m dir_oi d (f_pos + 1) ok_so_far))
      else Some (d, f_pos, Inr 0))"

definition ospfs_dir_readdir ::
    "'d filldir \<Rightarrow> mem \<Rightarrow> u32 \<Rightarrow> u32 \<Rightarrow> 'd \<Rightarrow> u32 \<Rightarrow> ('d \<times> u32 \<times> (errno + int)) option" where
  "ospfs_dir_readdir filldir m dir_ino parent_ino d f_pos =
     (case ospfs_inode m dir_ino of
        None \<Rightarrow> Some (d, f_pos, Inl ENOENT)
      | Some dir_oi \<Rightarrow>
          let (d, ok_so_far) =
                (if f_pos = 0 then filldir d [46] f_pos dir_ino DT_DIR else (d, 0));
              f_pos = (if f_pos = 0 \<and> ok_so_far \<ge> 0 then 1 else f_pos);
              again = (ok_so_far \<ge> 0 \<and> f_pos = 1);
              (d, ok_so_far) =
                (if again then filldir d [46, 46] f_pos parent_ino DT_DIR else (d, ok_so_far));
              f_pos = (if again \<and> ok_so_far \<ge> 0 then 2 else f_pos)
          in readdir_loop filldir m dir_oi d f_pos ok_so_far)"

section \<open>Removing an entry\<close>

text \<open>The scan of \<open>ospfs_unlink\<close>: the final offset and the last entry looked at.\<close>

partial_function (option) unlink_scan ::
    "mem \<Rightarrow> nat \<Rightarrow> u8 list \<Rightarrow> u32 \<Rightarrow> nat option \<Rightarrow> (u32 \<times> nat option) option" where
  "unlink_scan m dir_oi name off od =
     (if off < oi_size m dir_oi then
        Option.bind (entry_matches m (ospfs_inode_data m dir_oi off) name)
          (\<lambda>hit. if hit then Some (off, Some (ospfs_inode_data m dir_oi off))
                 else unlink_scan m dir_oi name (off + OSPFS_DIRENTRY_SIZE)
                        (Some (ospfs_inode_data m dir_oi off)))
      else Some (off, od))"

definition ospfs_unlink :: "ospfs \<Rightarrow> u32 \<Rightarrow> u32 \<Rightarrow> u8 list \<Rightarrow> (ospfs \<times> (errno + unit)) option" where
  "ospfs_unlink s parent ino name =
     (case ospfs_inode (data s) parent of
        None \<Rightarrow> Some (s, Inl Oops)
      | Some dir_oi \<Rightarrow>
          Option.bind (unlink_scan (data s) dir_oi name 0 None)
            (\<lambda>(off, od).
               if off = oi_size (data s) dir_oi then Some (s, Inl ENOENT)
               else if nwrites_to_crash s = 0 then Some (s, Inr ())
               else
                 let s = s\<lparr>nwrites_to_crash := crash_tick (nwrites_to_crash s)\<rparr> in
                 case (od, ospfs_inode (data s) ino) of
                   (Some od, Some oi) \<Rightarrow>
                     let m = set_od_ino (data s) od 0;
                         m = set_nlink m oi (oi_nlink m oi - 1)
                     in if oi_ftype m oi \<noteq> OSPFS_FTYPE_SYMLINK \<and> oi_nlink m oi = 0
                        then map_option (\<lambda>(m, r). (s\<lparr>data := m\<rparr>, r)) (change_size m oi 0)
                        else Some (s\<lparr>data := m\<rparr>, Inr ())
                 | _ \<Rightarrow> Some (s, Inl Oops)))"

section \<open>Adding entries\<close>

text \<open>The offset of the first blank entry.  Each iteration moves on by one entry.\<close>

partial_function (option) blank_scan :: "mem \<Rightarrow> nat \<Rightarrow> u32 \<Rightarrow> nat option option" where
  "blank_scan m dir_oi i =
     (if i < oi_size m dir_oi then
        if od_ino m (ospfs_inode_data m dir_oi i) = 0 then Some (Some (ospfs_inode_data m dir_oi i))
        else blank_scan m dir_oi (i + OSPFS_DIRENTRY_SIZE)
      else Some None)"

definition create_blank_direntry :: "mem \<Rightarrow> nat \<Rightarrow> (mem \<times> (errno + nat)) option" where
  "create_blank_direntry m dir_oi =
     Option.bind (blank_scan m dir_oi 0)
       (\<lambda>found. case found of
          Some od \<Rightarrow> Some (m, Inr od)
        | None \<Rightarrow>
            let old_size = oi_size m dir_oi in
            Option.bind (change_size m dir_oi (oi_size m dir_oi + OSPFS_DIRENTRY_SIZE))
              (\<lambda>(m, r). case r of Inl e \<Rightarrow> Some (m, Inl e)
                 | Inr _ \<Rightarrow> Some (m, Inr (ospfs_inode_data m dir_oi old_size))))"

definition ospfs_link :: "ospfs \<Rightarrow> u32 \<Rightarrow> u32 \<Rightarrow> u8 list \<Rightarrow> (ospfs \<times> (errno + unit)) option" where
  "ospfs_link s src_ino dir name =
     (if nwrites_to_crash s = 0 then Some (s, Inr ())
      else
        let s = s\<lparr>nwrites_to_crash := crash_tick (nwrites_to_crash s)\<rparr> in
        if length name > OSPFS_MAXNAMELEN then Some (s, Inl ENAMETOOLONG)
        else case ospfs_inode (data s) dir of
          None \<Rightarrow> Some (s, Inl Oops)
        | Some dir_oi \<Rightarrow>
            Option.bind (find_direntry (data s) dir_oi name (int (length name)))
              (\<lambda>found. if found \<noteq> None then Some (s, Inl EEXIST)
                 else Option.bind (create_blank_direntry (data s) dir_oi)
                   (\<lambda>(m, r). case r of Inl e \<Rightarrow> Some (s\<lparr>data := m\<rparr>, Inl e)
                      | Inr od \<Rightarrow>
                          let m = set_od_ino m od src_ino;
                              m = mem_write m (od_name od) name
                          in case ospfs_inode m src_ino of
                               None \<Rightarrow> Some (s\<lparr>data := m\<rparr>, Inl Oops)
                             | Some oi \<Rightarrow>
                                 Some (s\<lparr>data := set_nlink m oi (oi_nlink m oi + 1)\<rparr>, Inr ()))))"

text \<open>The scan for a free inode, shared by \<open>ospfs_create\<close> and \<open>ospfs_symlink\<close>.\<close>

function free_inode_scan :: "mem \<Rightarrow> u32 \<Rightarrow> nat option \<Rightarrow> u32 \<times> nat option" where
  "free_inode_scan m entry_ino empty_inode =
     (if entry_ino < os_ninodes m then
        (case ospfs_inode m entry_ino of
           Some oi \<Rightarrow> if oi_nlink m oi = 0 then (entry_ino, Some oi)
                      else free_inode_scan m (entry_ino + 1) (Some oi)
         | None \<Rightarrow> free_inode_scan m (entry_ino + 1) None)
      else (entry_ino, empty_inode))"
  by pat_completeness auto
termination
proof (relation "measure (\<lambda>(m, i, _). unat (os_ninodes m) - unat i)")
  fix m :: mem and i :: u32
  assume lt: "i < os_ninodes m"
  then have "unat (i + 1) = unat i + 1"
  proof -
    have "unat (os_ninodes m) < 2 ^ 32" using unsigned_less [of "os_ninodes m"] by simp
    then show ?thesis using lt by (subst unat_add_lem [THEN iffD1]) (simp_all add: word_less_nat_alt)
  qed
  with lt show "((m, i + 1, Some oi), m, i, e) \<in> measure (\<lambda>(m, i, _). unat (os_ninodes m) - unat i)"
      "((m, i + 1, None), m, i, e) \<in> measure (\<lambda>(m, i, _). unat (os_ninodes m) - unat i)" for oi e
    by (simp_all add: word_less_nat_alt)
qed simp

declare free_inode_scan.simps [simp del]

text \<open>\<open>new_entry->od_ino = ino\<close>, the name and its terminating null.\<close>

definition fill_direntry :: "mem \<Rightarrow> nat \<Rightarrow> u32 \<Rightarrow> u8 list \<Rightarrow> mem" where
  "fill_direntry m od ino name =
     (mem_write (set_od_ino m od ino) (od_name od) name)(od_name od + length name := 0)"

definition init_reg_inode :: "mem \<Rightarrow> nat \<Rightarrow> u32 \<Rightarrow> mem" where
  "init_reg_inode m oi mode =
     (let m = set_size m oi 0;
          m = set_ftype m oi OSPFS_FTYPE_REG;
          m = set_nlink m oi 1;
          m = set_mode m oi mode;
          m = mem_fill m (oi + 16) 0 (4 * OSPFS_NDIRECT);
          m = set_indirect m oi 0
      in set_indirect2 m oi 0)"

definition init_symlink_inode :: "mem \<Rightarrow> nat \<Rightarrow> u8 list \<Rightarrow> mem" where
  "init_symlink_inode m oi symname =
     (let m = set_size m oi (of_nat (length symname));
          m = set_ftype m oi OSPFS_FTYPE_SYMLINK;
          m = set_nlink m oi 1
      in mem_write m (oi + 12) symname)"

text \<open>
  What \<open>ospfs_create\<close> and \<open>ospfs_symlink\<close> do after their name checks: the existence test, a
  blank entry, a free inode, the new entry and inode (\<open>init\<close>), and the Linux inode.
  \<open>Inr None\<close> is a return of 0 without an instantiated dentry.
\<close>

definition create_entry :: "bool \<Rightarrow> (mem \<Rightarrow> nat \<Rightarrow> mem) \<Rightarrow> ospfs \<Rightarrow> u32 \<Rightarrow> u8 list \<Rightarrow>
    (ospfs \<times> (errno + linux_inode option)) option" where
  "create_entry new_inode init s dir name =
     (case ospfs_inode (data s) dir of
        None \<Rightarrow> Some (s, Inl Oops)
      | Some dir_oi \<Rightarrow>
          Option.bind (find_direntry (data s) dir_oi name (int (length name)))
            (\<lambda>found. if found \<noteq> None then Some (s, Inl EEXIST)
               else Option.bind (create_blank_direntry (data s) dir_oi)
                 (\<lambda>(m, r). case r of Inl e \<Rightarrow> Some (s\<lparr>data := m\<rparr>, Inl e)
                    | Inr od \<Rightarrow>
                        let (entry_ino, empty_inode) = free_inode_scan m 2 None in
                        if entry_ino = os_ninodes m then Some (s\<lparr>data := m\<rparr>, Inl ENOSPC)
                        else
                          let m = fill_direntry m od entry_ino name in
                          case empty_inode of
                            None \<Rightarrow> Some (s\<lparr>data := m\<rparr>, Inl Oops)
                          | Some oi \<Rightarrow>
                              let m = init m oi in
                              Some (s\<lparr>data := m\<rparr>,
                                case ospfs_mk_linux_inode new_inode m entry_ino of
                                  Inl e \<Rightarrow> Inl e
                                | Inr None \<Rightarrow> Inl ENOMEM
                                | Inr (Some i) \<Rightarrow> Inr (Some i)))))"

definition ospfs_create :: "bool \<Rightarrow> ospfs \<Rightarrow> u32 \<Rightarrow> u8 list \<Rightarrow> u32 \<Rightarrow>
    (ospfs \<times> (errno + linux_inode option)) option" where
  "ospfs_create new_inode s dir name mode =
     (if nwrites_to_crash s = 0 then Some (s, Inr None)
      else
        let s = s\<lparr>nwrites_to_crash := crash_tick (nwrites_to_crash s)\<rparr> in
        if length name > OSPFS_MAXNAMELEN then Some (s, Inl ENAMETOOLONG)
        else create_entry new_inode (\<lambda>m oi. init_reg_inode m oi mode) s dir name)"

text \<open>\<open>symname\<close> is the C string's bytes before its null.\<close>

definition ospfs_symlink :: "bool \<Rightarrow> ospfs \<Rightarrow> u32 \<Rightarrow> u8 list \<Rightarrow> u8 list \<Rightarrow>
    (ospfs \<times> (errno + linux_inode option)) option" where
  "ospfs_symlink new_inode s dir name symname =
     (if nwrites_to_crash s = 0 then Some (s, Inr None)
      else
        let s = s\<lparr>nwrites_to_crash := crash_tick (nwrites_to_crash s)\<rparr> in
        if length name > OSPFS_MAXNAMELEN \<or> length symname > OSPFS_MAXSYMLINKLEN
        then Some (s, Inl ENAMETOOLONG)
        else create_entry new_inode (\<lambda>m oi. init_symlink_inode m oi symname) s dir name)"

section \<open>Following a symbolic link\<close>

text \<open>\<open>strchr\<close>: the pointer of the first \<open>c\<close>, or the null pointer when the string ends first.\<close>

partial_function (option) strchr :: "mem \<Rightarrow> nat \<Rightarrow> u8 \<Rightarrow> nat option option" where
  "strchr m a c =
     (if m a = c then Some (Some a) else if m a = 0 then Some None else strchr m (Suc a) c)"

text \<open>The bytes of \<open>root?\<close> and of the colon.\<close>

definition root_prefix :: "u8 list" where "root_prefix = [114, 111, 111, 116, 63]"
abbreviation (input) colon :: u8 where "colon \<equiv> 58"

text \<open>
  The resulting pointer is what \<open>nd_set_link\<close> is given.  A conditional link's colon is
  overwritten by a null byte on the disk.  \<open>Some (m, None)\<close> would be an index computed from
  a null pointer, which the second \<open>strchr\<close> never returns.
\<close>

definition ospfs_follow_link :: "bool \<Rightarrow> mem \<Rightarrow> nat \<Rightarrow> (mem \<times> nat option) option" where
  "ospfs_follow_link root m oi =
     (let oi_symlink = oi + 12 in
      if mem_read m oi_symlink 5 = root_prefix then
        Option.bind (strchr m oi_symlink colon)
          (\<lambda>delimiter.
             Option.bind
               (case delimiter of
                  Some d \<Rightarrow> Some (m(d := 0), Some d)
                | None \<Rightarrow> map_option (\<lambda>d. (m, d)) (strchr m oi_symlink 0))
               (\<lambda>(m, delimiter).
                  Some (m, case delimiter of
                      None \<Rightarrow> None
                    | Some d \<Rightarrow>
                        let index = d - oi_symlink + 1
                        in Some (if root then oi_symlink + 5 else oi_symlink + index))))
      else Some (m, Some oi_symlink))"

end
