(* ===== verification/Ospfs_Found.thy ===== *)
theory Ospfs_Found
  imports Ospfs_Image_File Ospfs_Dir
begin

text \<open>
  The formatter and the driver together: the image made from one file, read by the driver's
  directory lookup and file contents (ospfsmod.c).
\<close>

section \<open>An image with one file\<close>

lemma first_inode_reads:
  fixes mode :: u32
  assumes k: "4 \<le> unat k" "unat k * 1024 < 2 ^ 32" and name: "length name \<le> 123"
  defines "v \<equiv> first_inode k name mode (root_image opened_image)"
  shows "get32 v 3136 = 1024" "get32 v 3140 = 1" "get32 v 3152 = k" "get32 v 3204 = 0" "get32 v 3208 = 1" "get32 v 3212 = mode"
    "get32 v 3260 = 0" "get32 v (unat k * 1024) = 2"
    "i < length name \<Longrightarrow> v (unat k * 1024 + 4 + i) = name ! i" "v (unat k * 1024 + 4 + length name) = 0"
    "a < 3072 \<Longrightarrow> v a = root_image opened_image a"
proof -
  have z: "zero_block m k a = m a" if "a < 4096" for m a
  proof -
    have "a div 1024 \<noteq> unat k" using that k(1) by (auto simp: div_less_iff_less_mult dest: less_le_trans)
    then show ?thesis by (simp add: zero_block_small [OF k(2)])
  qed
  have zc: "get32 (zero_block m k) a = get32 m a" if "a + 4 \<le> 4096" for m a
    by (rule get32_cong) (use that in \<open>simp add: z\<close>)
  have r: "get32 (root_image opened_image) 3140 = 1" by (simp add: root_image_def get32_put32_other)
  have r0: "get32 (root_image opened_image) 3260 = 0"
    by (simp add: get32_def root_image_byte opened_image_def)
  note d = v_def first_inode_def first_entry_def
  show "get32 v 3136 = 1024" "get32 v 3140 = 1" "get32 v 3152 = k" "get32 v 3204 = 0" "get32 v 3208 = 1" "get32 v 3212 = mode"
    "get32 v 3260 = 0" "get32 v (unat k * 1024) = 2"
    using k(1) r r0 unfolding d by (simp_all add: get32_put32_other get32_mem_write_other zc)
  show "v (unat k * 1024 + 4 + i) = name ! i" if "i < length name"
    using k(1) that unfolding d by (simp add: put32_byte_other mem_write_byte nth_append)
  show "v (unat k * 1024 + 4 + length name) = 0"
    using k(1) unfolding d by (simp add: put32_byte_other mem_write_byte)
  show "v a = root_image opened_image a" if "a < 3072"
    using k(1) that unfolding d by (simp add: put32_byte_other mem_write_byte z)
qed

text \<open>The image that is made: its blocks are those of \<open>stored\<close>, and its free map starts behind them.\<close>

lemma one_file_image:
  assumes v: "2 \<le> nb" "nb \<le> 8192" "2 \<le> ni" "ni < nb - 2 - nb div (8192 :: u32)" and ni: "ni \<noteq> 2"
    and name: "length (last_component path) \<le> 123" and c: "length c \<le> 272384"
    and k: "k = 3 + inode_blocks ni"
    and space: "unat k + 1 + length c div 1024 + (if 10240 < length c then 1 else 0) < unat nb"
  shows "\<exists>w. ospfsformat md5 lc nb ni (From_files [(path, c)]) []
      = Some (finished nb ni (of_nat (file_block_at (unat k + 1) ((length c + 1023) div 1024))) (put32 w 3200 (of_nat (length c))))
    \<and> stored c 3200 (unat k + 1) (first_inode k (last_component path) 0x1B6 (root_image opened_image)) ((length c + 1023) div 1024) w"
proof -
  note V = valid_sizes [OF v]
  from opendisk_spec [OF v] obtain s where s: "opendisk (initial_state nb ni lc) = Some s" "cache_ok s" "idle s"
    "view s = opened_image" "globals s = ((nb, ni, 1, 3 + inode_blocks ni, 0), lc, [], nb, ni, 3)" by blast
  have "3 < nb" using V(1) by (simp add: word_less_nat_alt)
  from root_inode_spec [OF s(2,3,5) this v(3)] obtain i t u where r: "root_inode s = Some ((i, 64), t)" "cache_ok t" "pinned t i"
    "bno (cache t ! i) = 3" "btype (cache t ! i) = BLOCK_INODES"
    "idle u" "one_pin i u t" "view t = root_image opened_image" "globals t = ((nb, ni, 1, 3 + inode_blocks ni, 2), lc, [], nb, ni, 3)"
    unfolding s(4) by blast
  have P: "pins t {(3, BLOCK_INODES)}"
    unfolding pins_def
  proof (intro allI impI)
    fix j :: nat assume "j < 16" "busy (cache t ! j) \<noteq> 0"
    with r(4-7) have "j = i" by (auto simp: one_pin_def idle_def split: if_splits)
    with r(4,5) show "(bno (cache t ! j), btype (cache t ! j)) \<in> {(3, BLOCK_INODES)}" by simp
  qed
  have g: "nblocks t = nb" "ninodes t = ni" "nextinode t = 2" "nextb t = k" "hardlinks t = []" "super_firstinob t = 3"
    "sizes t = (nb, 1, nb, ni, 3)"
    using r(9) k by (simp_all add: globals_def sizes_def)
  have z: "get32 (view t) 3136 = 0" "get32 (view t) 3256 = 0"
    unfolding r(8) by (simp_all add: get32_put32_other root_image_def get32_def put32_byte_other opened_image_def)
  have k4: "4 \<le> unat k" using V(3,8) k by simp
  from writefile_first [OF r(2) P r(3,4) g(1-6) ni z name c k4 space]
  obtain t' w where f: "writefile md5 (i, 64) (last_component path) 0 0x1B6 c t = Some t'" "cache_ok t'" "same_pins t t'" "sizes t' = sizes t"
    "nextb t' = of_nat (file_block_at (unat k + 1) ((length c + 1023) div 1024))"
    "stored c 3200 (unat k + 1) (first_inode k (last_component path) 0x1B6 (root_image opened_image)) ((length c + 1023) div 1024) w"
    "view t' = put32 w 3200 (of_nat (length c))"
    unfolding r(8) by blast
  note W = get_work_put [OF r(7) f(3,2)]
  note Q = putblk_spec [OF f(2) W(1)]
  note idle = same_pins_idle [OF W(2) r(6)]
  let ?nx = "of_nat (file_block_at (unat k + 1) ((length c + 1023) div 1024)) :: u32"
  have gs: "nblocks (putblk i t') = nb" "nbitblock (putblk i t') = 1" "nextb (putblk i t') = ?nx"
    "super_nblocks (putblk i t') = nb" "super_ninodes (putblk i t') = ni" "super_firstinob (putblk i t') = 3"
    using same_globals_sizes [OF Q(2)] f(4,5) g(7) by (simp_all add: sizes_def)
  have "file_block_at (unat k + 1) ((length c + 1023) div 1024) \<le> unat nb"
    using space by (auto simp: file_block_at_def split: if_splits)
  then have "?nx \<le> 8192" using V(2) by (simp add: word_le_nat_alt unat_of_nat)
  moreover have "2 < nb" using V(1) by (simp add: word_less_nat_alt)
  ultimately obtain x where x: "finishfs (putblk i t') = Some x" "cache_ok x"
    "view x = finished nb ni ?nx (put32 w 3200 (of_nat (length c)))"
    using finishfs_spec [OF Q(1) idle] unfolding gs Q(3) f(7) finished_def by auto
  have ok: "\<not> (nb < 2 \<or> nb > 8192 \<or> ni < 2 \<or> ni \<ge> nb - 2 - nb div 8192)" using v by auto
  have "ospfsformat md5 lc nb ni (From_files [(path, c)]) [] = Some (finished nb ni ?nx (put32 w 3200 (of_nat (length c))))"
    using ok s(1) r(1) f(1) x(1) flushdisk_view [OF x(2)] x(3)
    by (simp add: ospfsformat_def write_source_def)
  with f(6) show ?thesis by blast
qed

lemma one_file_layout:
  fixes mode :: u32
  assumes v: "2 \<le> nb" "nb \<le> 8192" "2 \<le> ni" "ni < nb - 2 - nb div (8192 :: u32)" and ni: "ni \<noteq> 2"
    and name: "length name \<le> 123" "0 \<notin> set name" and c: "length c \<le> 272384"
    and k: "k = 3 + inode_blocks ni" and T: "T = (length c + 1023) div 1024"
    and space: "unat k + 1 + length c div 1024 + (if 10240 < length c then 1 else 0) < unat nb"
    and st: "stored c 3200 (unat k + 1) (first_inode k name mode (root_image opened_image)) T w"
  defines "m \<equiv> finished nb ni (of_nat (file_block_at (unat k + 1) T)) (put32 w 3200 (of_nat (length c)))"
  shows "find_loop m 3136 name 0 = Some (Some (unat k * 1024))" "od_ino m (unat k * 1024) = 2"
    "ospfs_inode m 1 = Some 3136" "ospfs_inode m 2 = Some 3200" "oi_size m 3200 = of_nat (length c)" "oi_ftype m 3200 = 0"
    "oi_nlink m 3200 = 1" "oi_mode m 3200 = mode" "readable m 3200" "file_data m 3200 = c"
proof -
  note V = valid_sizes [OF v]
  let ?B = "unat k + 1" let ?F = "file_block_at ?B"
  have uk: "unat k = 3 + (unat ni + 15) div 16" using V(8) k by simp
  have k4': "4 \<le> unat k" "unat k * 1024 < 2 ^ 32" using V(2,3,7) uk by auto
  note k4 = k4' ospfs_block_eq [OF k4'(2)]
  have T266: "T \<le> 266" using c T by linarith
  have FT: "?F T \<le> unat nb" using space T by (auto simp: file_block_at_def split: if_splits)
  have uF: "unat (of_nat (?F i) :: u32) = ?F i" if "i \<le> T" for i
    using FT V(2) that by (intro of_nat_inverse [OF refl]) (auto simp: file_block_at_def split: if_splits)
  have uI: "unat (of_nat (?B + 11) :: u32) = ?B + 11" if "10 < T"
    using FT V(2) that by (intro of_nat_inverse [OF refl]) (auto simp: file_block_at_def split: if_splits)
  have nx: "of_nat (?F T) \<le> nb" using FT uF [of T] by (simp add: word_le_nat_alt)
  note L = finished_layout [OF nx v(2), where ni = ni and v = "put32 w 3200 (of_nat (length c))", folded m_def]
  have lay: "lay m" using V uk L(5) by (simp add: lay_def L(2,4))
  note R = first_inode_reads [OF k4(1,2) name(1), where mode = mode]
  let ?V = "first_inode k name mode (root_image opened_image)"
  have S: "i < T \<Longrightarrow> i < 10 \<Longrightarrow> get32 w (3200 + 16 + 4 * i) = of_nat (?F i)" "get32 w (3200 + 56) = (if 10 < T then of_nat (?B + 11) else 0)"
    "10 \<le> i \<Longrightarrow> i < T \<Longrightarrow> get32 w ((?B + 11) * 1024 + 4 * (i - 10)) = of_nat (?F i)"
    "i < T \<Longrightarrow> r < 1024 \<Longrightarrow> i * 1024 + r < length c \<Longrightarrow> w (?F i * 1024 + r) = c ! (i * 1024 + r)"
    "a < ?B * 1024 \<Longrightarrow> a < 3200 + 16 \<or> 3200 + 60 \<le> a \<Longrightarrow> w a = ?V a" for i r a
    using st unfolding stored_def by blast+
  have byte: "m a = w a" if "3204 \<le> a \<or> 3072 \<le> a \<and> a < 3200" for a
    using L(7) [of a] that by (auto simp: put32_byte_other)
  have frame: "m a = ?V a" if "3204 \<le> a \<and> a < 3216 \<or> 3072 \<le> a \<and> a < 3200 \<or> 3260 \<le> a \<and> a < ?B * 1024" for a
  proof -
    have "a < ?B * 1024" "a < 3200 + 16 \<or> 3200 + 60 \<le> a" using that k4(1) by auto
    then have "w a = ?V a" by (rule S(5))
    moreover have "m a = w a" by (rule byte) (use that in auto)
    ultimately show ?thesis by simp
  qed
  have fcell: "get32 m a = get32 ?V a" if "3204 \<le> a \<and> a + 4 \<le> 3216 \<or> 3072 \<le> a \<and> a + 4 \<le> 3200 \<or> 3260 \<le> a \<and> a + 4 \<le> ?B * 1024" for a
    by (rule get32_cong, rule frame) (use that in auto)
  have wcell: "get32 m a = get32 w a" if "3204 \<le> a" for a
    by (rule get32_cong, rule byte) (use that in auto)
  have "get32 m 3200 = get32 (put32 w 3200 (of_nat (length c))) 3200"
    by (rule get32_cong) (simp add: L(7))
  then show size: "oi_size m 3200 = of_nat (length c)" by (simp add: oi_size_def)
  show ty: "oi_ftype m 3200 = 0" "oi_nlink m 3200 = 1" "oi_mode m 3200 = mode"
    using fcell [of 3204] fcell [of 3208] fcell [of 3212] R(4-6) by (simp_all add: inode_fields)
  have ni3: "3 \<le> unat ni" using V(3) ni by (cases "unat ni = 2") (auto simp: word_unat_eq_iff)
  show inos: "ospfs_inode m 1 = Some 3136" "ospfs_inode m 2 = Some 3200"
    using ni3 L(3,4) by (simp_all add: ospfs_inode_def ospfs_block_def word_le_nat_alt)
  show ino: "od_ino m (unat k * 1024) = 2"
    using fcell [of "unat k * 1024"] R(8) k4(1) by (simp add: od_ino_def)
  have "oi_size m 3136 = 1024" "oi_ftype m 3136 = 1" "oi_direct m 3136 0 = k"
    using fcell [of 3136] fcell [of 3140] fcell [of 3152] R(1-3) by (simp_all add: inode_fields)
  then have dat: "ospfs_inode_data m 3136 0 = unat k * 1024"
    by (simp add: ospfs_inode_data_def ospfs_inode_blockno_def Let_def k4(3))
  have nm: "m (od_name (unat k * 1024) + i) = name ! i" if "i < length name" for i
    using frame [of "unat k * 1024 + 4 + i"] R(9) [OF that] k4(1) that name(1) by (simp add: od_name_def)
  have nm0: "m (od_name (unat k * 1024) + length name) = 0"
    using frame [of "unat k * 1024 + 4 + length name"] R(10) k4(1) name(1) by (simp add: od_name_def)
  have "strlen m (od_name (unat k * 1024)) = Some (length name)"
    unfolding strlen_eq_Some_iff using nm nm0 name(2) by (auto simp: in_set_conv_nth)
  moreover have "mem_read m (od_name (unat k * 1024)) (length name) = name"
    by (rule nth_equalityI) (simp_all add: nm mem_read_def)
  ultimately have "entry_matches m (unat k * 1024) name = Some True" by (simp add: entry_matches_def ino)
  then show "find_loop m 3136 name 0 = Some (Some (unat k * 1024))"
    using \<open>oi_size m 3136 = 1024\<close> dat by (simp add: find_loop.simps)
  have len: "unat (oi_size m 3200) = length c" unfolding size using c by (intro of_nat_inverse [OF refl]) simp
  then have nblk: "nblk m 3200 = T"
    unfolding nblk_def using unat_size2nblocks [of "oi_size m 3200"] c T by simp
  have ind: "oi_indirect m 3200 = (if 10 < T then of_nat (?B + 11) else 0)"
    using wcell [of 3256] S(2) by (simp add: oi_indirect_def)
  have ind2: "oi_indirect2 m 3200 = 0" using fcell [of 3260] R(7) k4(1) by (simp add: oi_indirect2_def)
  have fb: "fblk m 3200 i = of_nat (?F i)" if i: "i < T" for i
  proof (cases "i < 10")
    case True
    then show ?thesis using wcell [of "3216 + 4 * i"] S(1) [OF i] by (simp add: fblk_def oi_direct_def)
  next
    case False
    then have 10: "10 < T" using i by simp
    then have "ospfs_block (oi_indirect m 3200) = (?B + 11) * 1024"
      using uI [OF 10] FT V(2) by (simp add: ind ospfs_block_eq file_block_at_def)
    then show ?thesis
      using False T266 i S(3) [of i] wcell [of "(?B + 11) * 1024 + 4 * (i - 10)"] by (simp add: fblk_def block_entry_def)
  qed
  have own: "own_blk m b" if "?B \<le> unat b" "unat b < ?F T" for b
    using that FT uk L(2,3,4,5) V(2) L(6) [of "unat b"] uF [of T]
    by (auto simp: own_blk_def data_blk_def free_set_def)
  define D where "D = (\<lambda>i. of_nat (?F i) :: u32)"
  define I where "I = (of_nat (?B + 11) :: u32)"
  have blocks: "all_blocks m 3200 = map D [0..<T] @ (if 10 < T then [I] else [])"
    using fb by (simp add: all_blocks_def file_blocks_def nblk ind D_def I_def)
  have bnd: "?B \<le> ?F i \<and> ?F i < ?F T \<and> ?F i \<noteq> ?B + 11" if "i < T" for i using that by (auto simp: file_block_at_def)
  have uD: "unat (D i) = ?F i" if "i < T" for i using uF [of i] that by (simp add: D_def)
  have uI': "unat I = ?B + 11" "?B + 11 < ?F T" if "10 < T" using uI [OF that] that by (simp_all add: I_def file_block_at_def)
  have "inj_on D {0..<T}"
  proof (rule inj_onI)
    fix i j assume "i \<in> {0..<T}" "j \<in> {0..<T}" "D i = D j"
    then have "?F i = ?F j" using uD [of i] uD [of j] by simp
    then show "i = j" by (auto simp: file_block_at_def split: if_splits)
  qed
  moreover have "I \<notin> D ` {0..<T}" if 10: "10 < T"
  proof
    assume "I \<in> D ` {0..<T}"
    then obtain i where "i < T" "I = D i" by auto
    with uD [of i] uI'(1) [OF 10] bnd [of i] show False by simp
  qed
  ultimately have "distinct (all_blocks m 3200)" unfolding blocks by (simp add: distinct_map)
  moreover have "own_blk m b" if b: "b \<in> set (all_blocks m 3200)" for b
  proof -
    from b consider i where "i < T" "b = D i" | "10 < T" "b = I" unfolding blocks by (auto split: if_splits)
    then show ?thesis
    proof cases
      case 1
      with uD bnd show ?thesis by (intro own) auto
    next
      case 2
      with uI' show ?thesis by (intro own) auto
    qed
  qed
  moreover have "inode_at m 3200" using uk V(3) L(4,5) ni3 by (simp add: inode_at_def)
  ultimately have "wf_file m 3200"
    using nblk T266 ind ind2 ty(1) by (simp add: wf_file_def)
  then show "readable m 3200" using lay len nblk T by (simp add: readable_def)
  show "file_data m 3200 = c"
  proof (rule nth_equalityI)
    fix x assume "x < length (file_data m 3200)"
    then have x: "x < length c" using len by simp
    then have i: "x div 1024 < T" using T by (simp add: div_less_iff_less_mult)
    have "file_byte m 3200 x = m (?F (x div 1024) * 1024 + x mod 1024)"
      using fb [OF i] uF [of "x div 1024"] i by (simp add: file_byte_def)
    also have "\<dots> = w (?F (x div 1024) * 1024 + x mod 1024)"
      by (rule byte) (use k4(1) in \<open>simp add: file_block_at_def\<close>)
    also have "\<dots> = c ! (x div 1024 * 1024 + x mod 1024)"
      by (rule S(4) [OF i]) (simp_all add: x)
    finally show "file_data m 3200 ! x = c ! x" using x len by (simp add: nth_file_data)
  qed (simp add: len)
qed

section \<open>What the driver finds on a new image\<close>

text \<open>
  C2 A file put on an image is found by the driver: formatting with one file of up to 266
  blocks succeeds when the blocks suffice, looking the name up in the root gives inode 2, a
  regular file with the right size, mode and link count, and its contents, as the driver reads
  them, are exactly those of the host file.  The image needs one block more than it will use
  when the size is a multiple of the block size.
\<close>

theorem formatted_file_found:
  assumes v: "2 \<le> nb" "nb \<le> 8192" "3 \<le> ni" "ni < nb - 2 - nb div (8192 :: u32)"
    and name: "last_component path = name" "length name \<le> 123" "0 \<notin> set name" and c: "length c \<le> 272384"
    and space: "4 + (unat ni + 15) div 16 + length c div 1024 + (if 10240 < length c then 1 else 0) < unat nb"
  shows "\<exists>m p. ospfsformat md5 lc nb ni (From_files [(path, c)]) [] = Some m
     \<and> ospfs_dir_lookup True m 1 name = Some (Inr (Some \<lparr>i_ino = 2, i_size = of_nat (length c), i_kind = IReg, i_mode = 0x81B6, i_nlink = 1\<rparr>))
     \<and> ospfs_inode m 2 = Some p \<and> readable m p \<and> file_data m p = c"
proof -
  define k where "k = 3 + inode_blocks ni"
  have ni: "2 \<le> ni" "ni \<noteq> 2" using v(3) by (auto simp: word_le_nat_alt)
  note V = valid_sizes [OF v(1,2) ni(1) v(4)]
  have sp: "unat k + 1 + length c div 1024 + (if 10240 < length c then 1 else 0) < unat nb"
    using space V(8) by (simp add: k_def)
  have n: "length (last_component path) \<le> 123" using name by simp
  from one_file_image [OF v(1,2) ni(1) v(4) ni(2) n c k_def sp, of md5 lc] obtain w where
    w: "ospfsformat md5 lc nb ni (From_files [(path, c)]) []
      = Some (finished nb ni (of_nat (file_block_at (unat k + 1) ((length c + 1023) div 1024))) (put32 w 3200 (of_nat (length c))))"
    "stored c 3200 (unat k + 1) (first_inode k name 0x1B6 (root_image opened_image)) ((length c + 1023) div 1024) w"
    unfolding name(1) by blast
  note L = one_file_layout [OF v(1,2) ni(1) v(4) ni(2) name(2,3) c k_def refl sp w(2)]
  show ?thesis
    using w(1) L name(2) by (intro exI conjI) (assumption | simp add: ospfs_dir_lookup_def ospfs_mk_linux_inode_def)+
qed

theorem formatted_file_found_witness:
  "\<exists>m p. ospfsformat (\<lambda>_. []) False 20 4 (From_files [([0x2F, 0x61], [0x68, 0x69])]) [] = Some m
    \<and> ospfs_dir_lookup True m 1 [0x61] = Some (Inr (Some \<lparr>i_ino = 2, i_size = 2, i_kind = IReg, i_mode = 0x81B6, i_nlink = 1\<rparr>))
    \<and> ospfs_inode m 2 = Some p \<and> readable m p \<and> file_data m p = [0x68, 0x69]"
proof -
  have "last_component [0x2F, 0x61] = [0x61]" by (simp add: last_component_def)
  from formatted_file_found [OF _ _ _ _ this, of 20 4 "[0x68, 0x69]" "\<lambda>_. []" False] show ?thesis by simp
qed

end
