(* ===== verification/Osprd_Lock.thy ===== *)
theory Osprd_Lock
  imports Prelude
begin

text \<open>
  The RAM disk driver RAMDisk/osprd.c: sector requests, and the device lock of
  \<open>osprd_ioctl\<close> with its tickets.  The driver's own spin lock exists in the non-preemptive,
  single-processor configuration (spinlock.h), where a kernel path runs until it sleeps, so
  each path from a system call or a wake-up to its return or its next sleep is one atomic
  step here.
\<close>

section \<open>Sector requests\<close>

abbreviation (input) SECTOR_SIZE :: nat where "SECTOR_SIZE \<equiv> 512"

datatype req_dir = READ | WRITE

text \<open>
  \<open>osprd_process_request\<close>: \<open>fs_request\<close> is \<open>blk_fs_request(req)\<close>; the result is the disk, the
  request's buffer and the status given to \<open>end_request\<close>.
\<close>

definition osprd_process_request ::
    "bool \<Rightarrow> mem \<Rightarrow> req_dir \<Rightarrow> nat \<Rightarrow> nat \<Rightarrow> u8 list \<Rightarrow> mem \<times> u8 list \<times> bool" where
  "osprd_process_request fs_request d dir sector nr buffer =
     (if \<not> fs_request then (d, buffer, False)
      else case dir of
        READ \<Rightarrow> (d, mem_read d sector (nr * SECTOR_SIZE), True)
      | WRITE \<Rightarrow> (mem_write d sector (take (nr * SECTOR_SIZE) buffer), buffer, True))"

section \<open>Device state\<close>

text \<open>
  The reader list holds process ids, newest first; \<open>writer\<close> is -1 when nobody writes.  The
  list of terminated tickets is kept in ascending order.
\<close>

record osprd_info =
  ticket_head :: u32
  ticket_tail :: u32
  num_readers :: nat
  readers :: "int list"
  writer :: int
  terminated_tickets :: "u32 list"

record filp =
  f_write :: bool
  f_read :: bool
  f_locked :: bool

definition osprd_setup :: osprd_info where
  "osprd_setup = \<lparr>ticket_head = 0, ticket_tail = 0, num_readers = 0, readers = [],
     writer = -1, terminated_tickets = []\<rparr>"

definition can_write :: "osprd_info \<Rightarrow> bool" where
  "can_write d = (num_readers d = 0 \<and> writer d < 0)"

definition can_read :: "osprd_info \<Rightarrow> bool" where
  "can_read d = (writer d < 0)"

fun insert_ticket :: "u32 \<Rightarrow> u32 list \<Rightarrow> u32 list" where
  "insert_ticket t [] = [t]"
| "insert_ticket t (c # cs) = (if sint c \<ge> sint t then t # c # cs else c # insert_ticket t cs)"

definition terminate_ticket :: "osprd_info \<Rightarrow> u32 \<Rightarrow> osprd_info" where
  "terminate_ticket d t = d\<lparr>terminated_tickets := insert_ticket t (terminated_tickets d)\<rparr>"

text \<open>
  The loop of \<open>can_run_ticket\<close> over the terminated tickets.  Ticket numbers in the list are
  compared as \<open>int\<close>, with \<open>ticket_tail\<close> as \<open>unsigned\<close>.
\<close>

fun skip_terminated :: "u32 list \<Rightarrow> u32 \<Rightarrow> u32 \<Rightarrow> u32" where
  "skip_terminated [] ticket tail = tail"
| "skip_terminated (c # cs) ticket tail =
     (if sint c < sint ticket then skip_terminated cs ticket (if c = tail then tail + 1 else tail) else tail)"

definition can_run_ticket :: "osprd_info \<Rightarrow> u32 \<Rightarrow> osprd_info \<times> bool" where
  "can_run_ticket d ticket =
     (let d = d\<lparr>ticket_tail := skip_terminated (terminated_tickets d) ticket (ticket_tail d)\<rparr>
      in (d, ticket = ticket_tail d))"

text \<open>
  The traversal that removes the current process from the reader list.  After a node has been
  removed and freed it stays the loop's \<open>prev\<close>, so a matching node right behind it is
  unlinked from the freed node only and stays in the list.
\<close>

fun unlink_reader :: "int \<Rightarrow> bool \<Rightarrow> int list \<Rightarrow> int list" where
  "unlink_reader pid prev_freed [] = []"
| "unlink_reader pid prev_freed (c # cs) =
     (if c = pid then (if prev_freed then c # unlink_reader pid True cs else unlink_reader pid True cs)
      else c # unlink_reader pid False cs)"

definition remove_reader :: "osprd_info \<Rightarrow> int \<Rightarrow> osprd_info" where
  "remove_reader d pid =
     d\<lparr>num_readers := num_readers d - count_list (readers d) pid,
       readers := unlink_reader pid False (readers d)\<rparr>"

section \<open>The ioctl\<close>

text \<open>What a process inside \<open>wait_event_interruptible\<close> waits for, with its ticket.\<close>

datatype wait = WaitWrite u32 | WaitRead u32

datatype outcome = Return "errno + unit" | Block wait

definition take_ticket :: "osprd_info \<Rightarrow> osprd_info \<times> u32" where
  "take_ticket d = (d\<lparr>ticket_head := ticket_head d + 1\<rparr>, ticket_head d)"

text \<open>
  The conditions \<open>can_write(d) && can_run_ticket(d, ticket)\<close> and \<open>can_read(d) && ...\<close>, with
  the effect of \<open>can_run_ticket\<close> when it is evaluated.
\<close>

definition write_turn :: "osprd_info \<Rightarrow> u32 \<Rightarrow> osprd_info \<times> bool" where
  "write_turn d ticket = (if can_write d then can_run_ticket d ticket else (d, False))"

definition read_turn :: "osprd_info \<Rightarrow> u32 \<Rightarrow> osprd_info \<times> bool" where
  "read_turn d ticket = (if can_read d then can_run_ticket d ticket else (d, False))"

definition grant_write :: "osprd_info \<Rightarrow> int \<Rightarrow> osprd_info" where
  "grant_write d pid = d\<lparr>writer := pid, ticket_tail := ticket_tail d + 1\<rparr>"

definition grant_read :: "osprd_info \<Rightarrow> int \<Rightarrow> osprd_info" where
  "grant_read d pid = d\<lparr>readers := pid # readers d, num_readers := num_readers d + 1,
     ticket_tail := ticket_tail d + 1\<rparr>"

text \<open>
  A process that fails its test under the mutex tests again inside
  \<open>wait_event_interruptible\<close> before it sleeps; nothing has changed in between, so it fails
  again (\<open>write_turn_again\<close>, \<open>read_turn_again\<close>).
\<close>

text \<open>The read half of \<open>OSPRDIOCACQUIRE\<close>, from the loop on and from its start.\<close>

definition acquire_read_loop :: "osprd_info \<Rightarrow> filp \<Rightarrow> int \<Rightarrow> u32 \<Rightarrow> osprd_info \<times> filp \<times> outcome" where
  "acquire_read_loop d filp pid ticket =
     (let (d, ok) = read_turn d ticket in
      if ok then (grant_read d pid, filp\<lparr>f_locked := True\<rparr>, Return (Inr ()))
      else let (d, ok) = read_turn d ticket in (d, filp, Block (WaitRead ticket)))"

definition acquire_read :: "osprd_info \<Rightarrow> filp \<Rightarrow> int \<Rightarrow> u32 \<Rightarrow> osprd_info \<times> filp \<times> outcome" where
  "acquire_read d filp pid ticket =
     (if \<not> f_read filp then (d, filp, Return (Inr ()))
      else if pid \<in> set (readers d) then (terminate_ticket d ticket, filp, Return (Inl EDEADLK))
      else acquire_read_loop d filp pid ticket)"

text \<open>The write half, which falls through to the read half.\<close>

definition acquire_write_loop :: "osprd_info \<Rightarrow> filp \<Rightarrow> int \<Rightarrow> u32 \<Rightarrow> osprd_info \<times> filp \<times> outcome" where
  "acquire_write_loop d filp pid ticket =
     (let (d, ok) = write_turn d ticket in
      if ok then acquire_read (grant_write d pid) (filp\<lparr>f_locked := True\<rparr>) pid ticket
      else let (d, ok) = write_turn d ticket in (d, filp, Block (WaitWrite ticket)))"

definition osprd_acquire :: "osprd_info \<Rightarrow> filp \<Rightarrow> int \<Rightarrow> osprd_info \<times> filp \<times> outcome" where
  "osprd_acquire d filp pid =
     (let (d, ticket) = take_ticket d in
      if pid = writer d then (terminate_ticket d ticket, filp, Return (Inl EDEADLK))
      else if f_write filp then
        if pid \<in> set (readers d) then (terminate_ticket d ticket, filp, Return (Inl EDEADLK))
        else acquire_write_loop d filp pid ticket
      else acquire_read d filp pid ticket)"

text \<open>
  Waking up: \<open>wait_event_interruptible\<close> tests its condition, and lets the loop of the ioctl go on
  when it holds.  Otherwise it sleeps again, or after a signal returns \<open>-ERESTARTSYS\<close>.
\<close>

definition osprd_resume :: "osprd_info \<Rightarrow> filp \<Rightarrow> int \<Rightarrow> wait \<Rightarrow> osprd_info \<times> filp \<times> outcome" where
  "osprd_resume d filp pid w =
     (case w of
        WaitWrite ticket \<Rightarrow>
          let (d, ok) = write_turn d ticket in
          if ok then acquire_write_loop d filp pid ticket else (d, filp, Block w)
      | WaitRead ticket \<Rightarrow>
          let (d, ok) = read_turn d ticket in
          if ok then acquire_read_loop d filp pid ticket else (d, filp, Block w))"

definition osprd_interrupt :: "osprd_info \<Rightarrow> filp \<Rightarrow> int \<Rightarrow> wait \<Rightarrow> osprd_info \<times> filp \<times> outcome" where
  "osprd_interrupt d filp pid w =
     (case w of
        WaitWrite ticket \<Rightarrow>
          let (d, ok) = write_turn d ticket in
          if ok then acquire_write_loop d filp pid ticket
          else (terminate_ticket d ticket, filp, Return (Inl ERESTARTSYS))
      | WaitRead ticket \<Rightarrow>
          let (d, ok) = read_turn d ticket in
          if ok then acquire_read_loop d filp pid ticket
          else (terminate_ticket d ticket, filp, Return (Inl ERESTARTSYS)))"

fun tick :: "wait \<Rightarrow> u32" where
  "tick (WaitWrite t) = t"
| "tick (WaitRead t) = t"

text \<open>A signal either goes unnoticed, or ends a wait that would have gone on.\<close>

lemma osprd_interrupt_cases:
  assumes "osprd_interrupt d fl pid w = (d', fl', r)"
  obtains "osprd_resume d fl pid w = (d', fl', r)"
    | d1 where "osprd_resume d fl pid w = (d1, fl, Block w)" "d' = terminate_ticket d1 (tick w)" "fl' = fl"
        "r = Return (Inl ERESTARTSYS)"
  using assms by (cases w) (auto simp: osprd_interrupt_def osprd_resume_def split: prod.splits if_splits)

definition try_read :: "osprd_info \<Rightarrow> filp \<Rightarrow> int \<Rightarrow> u32 \<Rightarrow> osprd_info \<times> filp \<times> (errno + unit)" where
  "try_read d filp pid ticket =
     (if \<not> f_read filp then (d, filp, Inr ())
      else if pid \<in> set (readers d) then (terminate_ticket d ticket, filp, Inl EBUSY)
      else let (d, ok) = read_turn d ticket in
        if ok then (grant_read d pid, filp\<lparr>f_locked := True\<rparr>, Inr ())
        else (terminate_ticket d ticket, filp, Inl EBUSY))"

definition osprd_tryacquire :: "osprd_info \<Rightarrow> filp \<Rightarrow> int \<Rightarrow> osprd_info \<times> filp \<times> (errno + unit)" where
  "osprd_tryacquire d filp pid =
     (let (d, ticket) = take_ticket d in
      if pid = writer d then (terminate_ticket d ticket, filp, Inl EBUSY)
      else if f_write filp then
        if pid \<in> set (readers d) then (terminate_ticket d ticket, filp, Inl EBUSY)
        else let (d, ok) = write_turn d ticket in
          if ok then try_read (grant_write d pid) (filp\<lparr>f_locked := True\<rparr>) pid ticket
          else (terminate_ticket d ticket, filp, Inl EBUSY)
      else try_read d filp pid ticket)"

text \<open>
  Release, by the ioctl or by the last close.  The last component tells whether the wait queue
  is woken.
\<close>

definition drop_lock :: "osprd_info \<Rightarrow> filp \<Rightarrow> int \<Rightarrow> osprd_info \<times> filp" where
  "drop_lock d filp pid =
     (let d = (if f_write filp then d\<lparr>writer := -1\<rparr> else d);
          d = (if f_read filp then remove_reader d pid else d)
      in (d, filp\<lparr>f_locked := False\<rparr>))"

definition osprd_release :: "osprd_info \<Rightarrow> filp \<Rightarrow> int \<Rightarrow> osprd_info \<times> filp \<times> (errno + unit) \<times> bool" where
  "osprd_release d filp pid =
     (if \<not> f_locked filp then (d, filp, Inl EINVAL, False)
      else let (d, filp) = drop_lock d filp pid in (d, filp, Inr (), True))"

definition osprd_close_last :: "osprd_info \<Rightarrow> filp \<Rightarrow> int \<Rightarrow> osprd_info \<times> filp \<times> bool" where
  "osprd_close_last d filp pid =
     (if \<not> f_locked filp then (d, filp, False)
      else let (d, filp) = drop_lock d filp pid in (d, filp, True))"

section \<open>The system: processes, files and the wait queue\<close>

text \<open>A blocked process is awake once the wait queue has been woken after it went to sleep.\<close>

datatype status = Running | Waiting nat wait bool

record system =
  dev :: osprd_info
  files :: "nat \<Rightarrow> filp"
  procs :: "int \<Rightarrow> status"

definition wake_up_all :: "(int \<Rightarrow> status) \<Rightarrow> int \<Rightarrow> status" where
  "wake_up_all ps = (\<lambda>p. case ps p of Waiting f w _ \<Rightarrow> Waiting f w True | Running \<Rightarrow> Running)"

definition after :: "nat \<Rightarrow> outcome \<Rightarrow> status" where
  "after f r = (case r of Return _ \<Rightarrow> Running | Block w \<Rightarrow> Waiting f w False)"

inductive osprd_step :: "system \<Rightarrow> system \<Rightarrow> bool" where
  acquire: "procs s p = Running \<Longrightarrow> 0 \<le> p \<Longrightarrow> osprd_acquire (dev s) (files s f) p = (d, fl, r) \<Longrightarrow>
    osprd_step s (s\<lparr>dev := d, files := (files s)(f := fl), procs := (procs s)(p := after f r)\<rparr>)"
| resume: "procs s p = Waiting f w True \<Longrightarrow> 0 \<le> p \<Longrightarrow> osprd_resume (dev s) (files s f) p w = (d, fl, r) \<Longrightarrow>
    osprd_step s (s\<lparr>dev := d, files := (files s)(f := fl), procs := (procs s)(p := after f r)\<rparr>)"
| signal: "procs s p = Waiting f w a \<Longrightarrow> 0 \<le> p \<Longrightarrow> osprd_interrupt (dev s) (files s f) p w = (d, fl, r) \<Longrightarrow>
    osprd_step s (s\<lparr>dev := d, files := (files s)(f := fl), procs := (procs s)(p := after f r)\<rparr>)"
| tryacquire: "procs s p = Running \<Longrightarrow> 0 \<le> p \<Longrightarrow> osprd_tryacquire (dev s) (files s f) p = (d, fl, r) \<Longrightarrow>
    osprd_step s (s\<lparr>dev := d, files := (files s)(f := fl)\<rparr>)"
| release: "procs s p = Running \<Longrightarrow> osprd_release (dev s) (files s f) p = (d, fl, r, wake) \<Longrightarrow>
    osprd_step s (s\<lparr>dev := d, files := (files s)(f := fl),
      procs := (if wake then wake_up_all (procs s) else procs s)\<rparr>)"
| close: "procs s p = Running \<Longrightarrow> osprd_close_last (dev s) (files s f) p = (d, fl, wake) \<Longrightarrow>
    osprd_step s (s\<lparr>dev := d, files := (files s)(f := fl),
      procs := (if wake then wake_up_all (procs s) else procs s)\<rparr>)"

definition osprd_init :: "(nat \<Rightarrow> bool \<times> bool) \<Rightarrow> system" where
  "osprd_init modes = \<lparr>dev = osprd_setup,
     files = (\<lambda>f. \<lparr>f_write = fst (modes f), f_read = snd (modes f), f_locked = False\<rparr>),
     procs = (\<lambda>_. Running)\<rparr>"

end
