(* ===== verification/Osprd_Order.thy ===== *)
theory Osprd_Order
  imports Osprd_Lock
begin

text \<open>
  The two invariants of the RAM disk lock (RAMDisk/osprd.c): readers exclude writers, and the
  tickets of blocked processes lie between the counters and are served in ascending order.
  Each atomic path of the ioctl is shown to keep them (\<open>lock_ok\<close>, \<open>served\<close>).
\<close>

section \<open>Tickets\<close>

definition ticket_sorted :: "u32 list \<Rightarrow> bool" where
  "ticket_sorted = sorted_wrt (\<lambda>a b. unat a \<le> unat b)"

definition small :: "u32 \<Rightarrow> bool" where "small t \<longleftrightarrow> unat t < 2 ^ 31"

lemma sint_small_less: "small a \<Longrightarrow> small b \<Longrightarrow> sint a < sint b \<longleftrightarrow> unat a < unat b"
  and sint_small_le: "small a \<Longrightarrow> small b \<Longrightarrow> sint a \<le> sint b \<longleftrightarrow> unat a \<le> unat b"
proof -
  have s: "sint w = int (unat w)" if "small w" for w :: u32
    using that by (intro sint_small) (simp add: small_def)
  then show "small a \<Longrightarrow> small b \<Longrightarrow> sint a < sint b \<longleftrightarrow> unat a < unat b"
    "small a \<Longrightarrow> small b \<Longrightarrow> sint a \<le> sint b \<longleftrightarrow> unat a \<le> unat b"
    by (simp_all only: s of_nat_less_iff of_nat_le_iff)
qed

lemma unat_suc: "unat (t :: u32) < 2 ^ 31 \<Longrightarrow> unat (t + 1) = Suc (unat t)"
  by (subst unat_add_lem [THEN iffD1]) simp_all

lemma set_insert_ticket [simp]: "set (insert_ticket t cs) = insert t (set cs)"
  by (induction cs) auto

lemma insert_ticket_sorted:
  assumes "ticket_sorted cs" "small t" "\<forall>c\<in>set cs. small c"
  shows "ticket_sorted (insert_ticket t cs)"
  using assms
proof (induction cs)
  case (Cons c cs)
  then show ?case
    using sint_small_le [of t c] by (auto simp: ticket_sorted_def)
qed (simp add: ticket_sorted_def)

lemma skip_spec:
  assumes "ticket_sorted cs" "\<forall>c\<in>set cs. small c" "small ticket" "small tail"
    and "r = skip_terminated cs ticket tail"
  shows "unat tail \<le> unat r \<and> (\<forall>x. unat tail \<le> unat x \<and> unat x < unat r \<longrightarrow> x \<in> set cs)
    \<and> (unat r < unat ticket \<longrightarrow> r \<notin> set cs) \<and> (unat tail \<le> unat ticket \<longrightarrow> unat r \<le> unat ticket)"
  using assms
proof (induction cs arbitrary: tail)
  case (Cons c cs)
  have s: "ticket_sorted cs" "\<forall>b\<in>set cs. unat c \<le> unat b" "\<forall>c\<in>set cs. small c" "small c"
    using Cons.prems(1,2) by (auto simp: ticket_sorted_def)
  show ?case
  proof (cases "unat c < unat ticket")
    case False
    then have "r = tail" using Cons.prems(3,5) s(4) by (simp add: sint_small_less)
    moreover have "tail \<notin> set (c # cs)" if "unat tail < unat ticket" using that False s(2) by auto
    ultimately show ?thesis by auto
  next
    case True
    then have lt: "sint c < sint ticket" using Cons.prems(3) s(4) by (simp add: sint_small_less)
    show ?thesis
    proof (cases "c = tail")
      case eq: True
      have sm: "small (tail + 1)" "unat (tail + 1) = Suc (unat tail)"
        using True eq Cons.prems(3,4) unat_suc [of tail] by (auto simp: small_def)
      have "r = skip_terminated cs ticket (tail + 1)" using Cons.prems(5) lt eq by simp
      note IH = Cons.IH [OF s(1,3) Cons.prems(3) sm(1) this, unfolded sm(2)]
      have "x \<in> set (c # cs)" if "unat tail \<le> unat x" "unat x < unat r" for x
      proof (cases "unat x = unat tail")
        case True
        then show ?thesis using eq by (simp add: word_unat_eq_iff)
      next
        case False
        then show ?thesis using IH that by auto
      qed
      moreover have "r \<noteq> c" using IH eq by auto
      ultimately show ?thesis using IH True eq by auto
    next
      case ne: False
      have "r = skip_terminated cs ticket tail" using Cons.prems(5) lt ne by simp
      note IH = Cons.IH [OF s(1,3) Cons.prems(3,4) this]
      have "r \<noteq> c"
      proof
        assume "r = c"
        then have "unat tail < unat c" using IH ne by (metis le_neq_implies_less word_unat_eq_iff)
        then have "tail \<in> set cs" using IH \<open>r = c\<close> by auto
        then show False using s(2) \<open>unat tail < unat c\<close> by auto
      qed
      then show ?thesis using IH by auto
    qed
  qed
qed auto

text \<open>
  The tickets \<open>W\<close> of the waiting processes against the counters: between tail and head, not
  given up.
\<close>

definition queue_inv :: "osprd_info \<Rightarrow> u32 set \<Rightarrow> bool" where
  "queue_inv d W \<longleftrightarrow> ticket_sorted (terminated_tickets d)
     \<and> (\<forall>c\<in>set (terminated_tickets d). unat c < unat (ticket_head d))
     \<and> small (ticket_head d) \<and> unat (ticket_tail d) \<le> unat (ticket_head d)
     \<and> (\<forall>t\<in>W. unat (ticket_tail d) \<le> unat t \<and> unat t < unat (ticket_head d)
            \<and> t \<notin> set (terminated_tickets d))"

lemma queue_inv_mono: "queue_inv d W \<Longrightarrow> V \<subseteq> W \<Longrightarrow> queue_inv d V"
  by (auto simp: queue_inv_def)

lemma take_ticket_inv:
  assumes "queue_inv d W" "unat (ticket_head d) < 2 ^ 31 - 1" "take_ticket d = (d', t)"
  shows "queue_inv d' (insert t W)" "t \<notin> W" "t = ticket_head d"
proof -
  have d': "d' = d\<lparr>ticket_head := ticket_head d + 1\<rparr>" and t: "t = ticket_head d"
    using assms(3) by (auto simp: take_ticket_def)
  have u: "unat (ticket_head d + 1) = Suc (unat (ticket_head d))"
    using assms(2) by (intro unat_suc) simp
  then have sm: "small (ticket_head d + 1)" using assms(2) by (simp add: small_def)
  show "queue_inv d' (insert t W)"
    using assms(1) u sm unfolding queue_inv_def d' t by (auto simp: less_Suc_eq)
  show "t \<notin> W" "t = ticket_head d" using assms(1) t by (auto simp: queue_inv_def)
qed

lemma queue_small: "queue_inv d W \<Longrightarrow> t \<in> W \<Longrightarrow> small t"
  "queue_inv d W \<Longrightarrow> small (ticket_tail d)"
  "queue_inv d W \<Longrightarrow> c \<in> set (terminated_tickets d) \<Longrightarrow> small c"
  by (auto simp: queue_inv_def small_def)

lemma terminate_inv:
  assumes "queue_inv d W" "t \<in> W"
  shows "queue_inv (terminate_ticket d t) (W - {t})"
  using assms queue_small [OF assms(1)] insert_ticket_sorted [of "terminated_tickets d" t]
  by (auto simp: queue_inv_def terminate_ticket_def)

lemma can_run_inv:
  assumes "queue_inv d W" "t \<in> W" "can_run_ticket d t = (d', ok)"
  shows "queue_inv d' W" "ok \<longleftrightarrow> t = ticket_tail d'"
    "readers d' = readers d" "num_readers d' = num_readers d" "writer d' = writer d"
    "ticket_head d' = ticket_head d"
proof -
  let ?r = "skip_terminated (terminated_tickets d) t (ticket_tail d)"
  have d': "d' = d\<lparr>ticket_tail := ?r\<rparr>" and ok: "ok \<longleftrightarrow> t = ?r"
    using assms(3) by (auto simp: can_run_ticket_def Let_def)
  have sk: "unat (ticket_tail d) \<le> unat ?r
      \<and> (\<forall>x. unat (ticket_tail d) \<le> unat x \<and> unat x < unat ?r \<longrightarrow> x \<in> set (terminated_tickets d))
      \<and> (unat ?r < unat t \<longrightarrow> ?r \<notin> set (terminated_tickets d))
      \<and> (unat (ticket_tail d) \<le> unat t \<longrightarrow> unat ?r \<le> unat t)"
    by (rule skip_spec [OF _ _ _ _ refl])
      (use assms(1,2) queue_small [OF assms(1)] in \<open>auto simp: queue_inv_def\<close>)
  show "queue_inv d' W"
    using assms(1,2) sk unfolding queue_inv_def d' by (auto simp: not_less [symmetric])
  show "ok \<longleftrightarrow> t = ticket_tail d'" using ok d' by simp
  show "readers d' = readers d" "num_readers d' = num_readers d" "writer d' = writer d"
    "ticket_head d' = ticket_head d" by (simp_all add: d')
qed

lemma grant_inv:
  assumes "queue_inv d W" "t \<in> W" "t = ticket_tail d"
    "ticket_tail d' = ticket_tail d + 1" "ticket_head d' = ticket_head d"
    "terminated_tickets d' = terminated_tickets d"
  shows "queue_inv d' (W - {t})"
proof -
  have u: "unat (ticket_tail d + 1) = Suc (unat (ticket_tail d))"
    using queue_small(2) [OF assms(1)] by (intro unat_suc) (simp add: small_def)
  have "Suc (unat t) \<le> unat t'" if "t' \<in> W - {t}" for t'
  proof -
    have "unat t \<le> unat t'" "t' \<noteq> t" using that assms(1,3) by (auto simp: queue_inv_def)
    then show ?thesis by (metis Suc_leI le_neq_implies_less word_unat_eq_iff)
  qed
  moreover have "unat t < unat (ticket_head d)" using assms(1,2) by (auto simp: queue_inv_def)
  ultimately show ?thesis
    using assms(1,3) u unfolding queue_inv_def assms(4-6) by auto
qed

section \<open>Readers and writers\<close>

definition lock_inv :: "osprd_info \<Rightarrow> bool" where
  "lock_inv d \<longleftrightarrow> (0 \<le> writer d \<longrightarrow> readers d = []) \<and> num_readers d = length (readers d)
     \<and> distinct (readers d)"

lemma unlink_notin: "pid \<notin> set cs \<Longrightarrow> unlink_reader pid b cs = cs"
  by (induction cs arbitrary: b) auto

lemma unlink_distinct: "distinct cs \<Longrightarrow> unlink_reader pid False cs = removeAll pid cs"
  by (induction cs) (auto simp: unlink_notin removeAll_id)

lemma remove_reader_inv:
  assumes "lock_inv d" shows "lock_inv (remove_reader d pid)"
    "set (readers (remove_reader d pid)) \<subseteq> set (readers d)" "writer (remove_reader d pid) = writer d"
proof -
  have d: "distinct (readers d)" "num_readers d = length (readers d)"
    using assms by (simp_all add: lock_inv_def)
  have "length (removeAll pid cs) = length cs - count_list cs pid" for cs :: "int list"
    by (induction cs) (auto simp: Suc_diff_le count_le_length)
  then show "lock_inv (remove_reader d pid)"
    using assms d by (auto simp: lock_inv_def remove_reader_def unlink_distinct distinct_removeAll)
  show "set (readers (remove_reader d pid)) \<subseteq> set (readers d)" "writer (remove_reader d pid) = writer d"
    using d by (auto simp: remove_reader_def unlink_distinct)
qed

text \<open>The parts of the device that ticket operations leave alone.\<close>

lemma ticket_ops [simp]:
  "readers (terminate_ticket d t) = readers d" "num_readers (terminate_ticket d t) = num_readers d"
  "writer (terminate_ticket d t) = writer d" "ticket_head (terminate_ticket d t) = ticket_head d"
  "readers (fst (can_run_ticket d t)) = readers d" "num_readers (fst (can_run_ticket d t)) = num_readers d"
  "writer (fst (can_run_ticket d t)) = writer d" "ticket_head (fst (can_run_ticket d t)) = ticket_head d"
  "readers (fst (take_ticket d)) = readers d" "num_readers (fst (take_ticket d)) = num_readers d"
  "writer (fst (take_ticket d)) = writer d"
  by (simp_all add: terminate_ticket_def can_run_ticket_def Let_def take_ticket_def)

lemma turn_keeps:
  "write_turn d t = (d', ok) \<Longrightarrow> readers d' = readers d \<and> num_readers d' = num_readers d
    \<and> writer d' = writer d \<and> (ok \<longrightarrow> can_write d)"
  "read_turn d t = (d', ok) \<Longrightarrow> readers d' = readers d \<and> num_readers d' = num_readers d
    \<and> writer d' = writer d \<and> (ok \<longrightarrow> can_read d)"
  unfolding write_turn_def read_turn_def
  by (auto simp: can_run_ticket_def Let_def split: if_splits)

lemma lock_inv_cong:
  "readers d' = readers d \<Longrightarrow> num_readers d' = num_readers d \<Longrightarrow> writer d' = writer d \<Longrightarrow>
    lock_inv d' = lock_inv d"
  by (simp add: lock_inv_def)

lemma grants_inv:
  "lock_inv d \<Longrightarrow> can_write d \<Longrightarrow> lock_inv (grant_write d pid)"
  "lock_inv d \<Longrightarrow> can_read d \<Longrightarrow> pid \<notin> set (readers d) \<Longrightarrow> lock_inv (grant_read d pid)"
  by (auto simp: lock_inv_def can_write_def can_read_def grant_write_def grant_read_def)

text \<open>What one atomic path of the ioctl does to the lock, for a process \<open>pid\<close>.\<close>

definition lock_ok :: "osprd_info \<Rightarrow> osprd_info \<Rightarrow> int \<Rightarrow> outcome \<Rightarrow> bool" where
  "lock_ok d d' pid r \<longleftrightarrow> lock_inv d' \<and> set (readers d') \<subseteq> insert pid (set (readers d))
     \<and> (\<forall>t. r = Block (WaitRead t) \<longrightarrow> pid \<notin> set (readers d'))"

lemma acquire_read_loop_ok:
  assumes "lock_inv d" "pid \<notin> set (readers d)" "acquire_read_loop d fl pid t = (d', fl', r)"
  shows "lock_ok d d' pid r"
proof -
  obtain d1 ok where t1: "read_turn d t = (d1, ok)" by (cases "read_turn d t")
  obtain d2 ok2 where t2: "read_turn d1 t = (d2, ok2)" by (cases "read_turn d1 t")
  note k = turn_keeps(2) [OF t1] turn_keeps(2) [OF t2]
  have i1: "lock_inv d1" "lock_inv d2" using assms(1) k by (simp_all add: lock_inv_def)
  show ?thesis
  proof (cases ok)
    case True
    then have "d' = grant_read d1 pid" "r = Return (Inr ())"
      using assms(3) t1 by (auto simp: acquire_read_loop_def)
    moreover have "can_read d1" using k True by (simp add: can_read_def)
    ultimately show ?thesis
      using grants_inv(2) [OF i1(1)] k assms(2) by (simp add: lock_ok_def) (simp add: grant_read_def k)
  next
    case False
    then have "d' = d2" using assms(3) t1 t2 by (auto simp: acquire_read_loop_def)
    then show ?thesis using i1 k assms(2) by (auto simp: lock_ok_def)
  qed
qed

lemma acquire_read_ok:
  assumes "lock_inv d" "acquire_read d fl pid t = (d', fl', r)"
  shows "lock_ok d d' pid r"
  using assms acquire_read_loop_ok [OF assms(1), of pid fl t d' fl' r]
  by (auto simp: acquire_read_def lock_ok_def lock_inv_def split: if_splits)

lemma acquire_write_loop_ok:
  assumes "lock_inv d" "acquire_write_loop d fl pid t = (d', fl', r)"
  shows "lock_ok d d' pid r"
proof -
  obtain d1 ok where t1: "write_turn d t = (d1, ok)" by (cases "write_turn d t")
  obtain d2 ok2 where t2: "write_turn d1 t = (d2, ok2)" by (cases "write_turn d1 t")
  note k = turn_keeps(1) [OF t1] turn_keeps(1) [OF t2]
  have i1: "lock_inv d1" "lock_inv d2" using assms(1) k by (simp_all add: lock_inv_def)
  show ?thesis
  proof (cases ok)
    case True
    then have "can_write d1" using k by (simp add: can_write_def)
    then have "lock_inv (grant_write d1 pid)" by (rule grants_inv(1) [OF i1(1)])
    moreover have "acquire_read (grant_write d1 pid) (fl\<lparr>f_locked := True\<rparr>) pid t = (d', fl', r)"
      using True assms(2) t1 by (simp add: acquire_write_loop_def)
    ultimately have "lock_ok (grant_write d1 pid) d' pid r" by (rule acquire_read_ok)
    then show ?thesis using k by (simp add: lock_ok_def grant_write_def)
  next
    case False
    then have "d' = d2" "r = Block (WaitWrite t)" using assms(2) t1 t2 by (auto simp: acquire_write_loop_def)
    then show ?thesis using i1 k by (auto simp: lock_ok_def)
  qed
qed

lemma osprd_acquire_ok:
  assumes "lock_inv d" "osprd_acquire d fl pid = (d', fl', r)"
  shows "lock_ok d d' pid r"
proof -
  obtain d1 t where t: "take_ticket d = (d1, t)" by (cases "take_ticket d")
  have k: "readers d1 = readers d" "num_readers d1 = num_readers d" "writer d1 = writer d"
    using t by (auto simp: take_ticket_def)
  then have i1: "lock_inv d1" using assms(1) by (simp add: lock_inv_def)
  have e: "lock_ok d (terminate_ticket d1 t) pid (Return x)" for x
    using i1 k by (auto simp: lock_ok_def lock_inv_def)
  have m: "lock_ok d1 d' pid r \<Longrightarrow> lock_ok d d' pid r" by (simp add: lock_ok_def k)
  show ?thesis
    using assms(2) e m acquire_read_ok [OF i1, of fl pid t d' fl' r]
      acquire_write_loop_ok [OF i1, of fl pid t d' fl' r]
    unfolding osprd_acquire_def t by (auto simp: split: if_splits)
qed

lemma osprd_resume_ok:
  assumes "lock_inv d" "\<forall>t. w = WaitRead t \<longrightarrow> pid \<notin> set (readers d)" "osprd_resume d fl pid w = (d', fl', r)"
  shows "lock_ok d d' pid r"
proof (cases w)
  case (WaitWrite t)
  obtain d1 ok where t1: "write_turn d t = (d1, ok)" by (cases "write_turn d t")
  note k = turn_keeps(1) [OF t1]
  have i1: "lock_inv d1" using assms(1) k by (simp add: lock_inv_def)
  show ?thesis
    using assms(3) acquire_write_loop_ok [OF i1, of fl pid t d' fl' r] k i1 WaitWrite t1
    by (auto simp: osprd_resume_def lock_ok_def split: if_splits)
next
  case (WaitRead t)
  obtain d1 ok where t1: "read_turn d t = (d1, ok)" by (cases "read_turn d t")
  note k = turn_keeps(2) [OF t1]
  have i1: "lock_inv d1" "pid \<notin> set (readers d1)" using assms(1,2) k WaitRead by (simp_all add: lock_inv_def)
  show ?thesis
    using assms(3) acquire_read_loop_ok [OF i1, of fl t d' fl' r] k i1 WaitRead t1
    by (auto simp: osprd_resume_def lock_ok_def split: if_splits)
qed

lemma try_read_ok:
  assumes "lock_inv d" "try_read d fl pid t = (d', fl', r)"
  shows "lock_ok d d' pid (Return r)"
proof -
  obtain d1 ok where t1: "read_turn d t = (d1, ok)" by (cases "read_turn d t")
  note k = turn_keeps(2) [OF t1]
  have i1: "lock_inv d1" using assms(1) k by (simp add: lock_inv_def)
  have g: "lock_inv (grant_read d1 pid)" if ok "pid \<notin> set (readers d)"
    using that k by (intro grants_inv(2) [OF i1]) (simp_all add: can_read_def)
  show ?thesis
    using assms g i1 k t1 unfolding try_read_def
    by (auto simp: lock_ok_def lock_inv_cong [of "terminate_ticket _ _"] grant_read_def split: if_splits)
qed

lemma osprd_tryacquire_ok:
  assumes "lock_inv d" "osprd_tryacquire d fl pid = (d', fl', r)"
  shows "lock_ok d d' pid (Return r)"
proof -
  obtain d1 t where t: "take_ticket d = (d1, t)" by (cases "take_ticket d")
  have k: "readers d1 = readers d" "num_readers d1 = num_readers d" "writer d1 = writer d"
    using t by (auto simp: take_ticket_def)
  then have i1: "lock_inv d1" using assms(1) by (simp add: lock_inv_def)
  obtain d2 ok where t1: "write_turn d1 t = (d2, ok)" by (cases "write_turn d1 t")
  note k2 = turn_keeps(1) [OF t1]
  have i2: "lock_inv d2" using i1 k2 by (simp add: lock_inv_def)
  have e: "lock_ok d (terminate_ticket d1 t) pid (Return x)" "lock_ok d (terminate_ticket d2 t) pid (Return x)" for x
    using i1 i2 k k2 by (auto simp: lock_ok_def lock_inv_def)
  have m: "lock_ok d1 d' pid (Return r) \<Longrightarrow> lock_ok d d' pid (Return r)" by (simp add: lock_ok_def k)
  have w: "lock_ok d d' pid (Return r)" if ok "try_read (grant_write d2 pid) (fl\<lparr>f_locked := True\<rparr>) pid t = (d', fl', r)"
  proof -
    have "lock_inv (grant_write d2 pid)" using that(1) k2 by (intro grants_inv(1) [OF i2]) (simp add: can_write_def)
    from try_read_ok [OF this that(2)] show ?thesis using k k2 by (simp add: lock_ok_def grant_write_def)
  qed
  show ?thesis
    using assms(2) e m w try_read_ok [OF i1, of fl pid t d' fl' r]
    unfolding osprd_tryacquire_def t by (auto simp: t1 split: if_splits)
qed

lemma drop_lock_inv:
  assumes "lock_inv d" "drop_lock d fl pid = (d', fl')"
  shows "lock_inv d'" "set (readers d') \<subseteq> set (readers d)"
proof -
  have i: "lock_inv (if f_write fl then d\<lparr>writer := -1\<rparr> else d)" using assms(1) by (simp add: lock_inv_def)
  show "lock_inv d'" "set (readers d') \<subseteq> set (readers d)"
    using assms i remove_reader_inv [OF i, of pid] by (auto simp: drop_lock_def Let_def split: if_splits)
qed

section \<open>The system invariant\<close>

definition system_inv :: "system \<Rightarrow> bool" where
  "system_inv s \<longleftrightarrow> lock_inv (dev s)
     \<and> (\<forall>p f t a. procs s p = Waiting f (WaitRead t) a \<longrightarrow> p \<notin> set (readers (dev s)))"

lemma osprd_step_inv:
  assumes "osprd_step s s'" "system_inv s" shows "system_inv s'"
  using assms
proof (induction rule: osprd_step.induct)
  case (acquire s p f d fl r)
  then have "lock_ok (dev s) d p r" by (intro osprd_acquire_ok) (auto simp: system_inv_def)
  with acquire show ?case
    by (auto simp: system_inv_def lock_ok_def after_def split: outcome.splits if_splits)
next
  case (resume s p f w d fl r)
  then have "lock_ok (dev s) d p r" by (intro osprd_resume_ok) (auto simp: system_inv_def)
  with resume show ?case
    by (auto simp: system_inv_def lock_ok_def after_def split: outcome.splits if_splits)
next
  case (signal s p f w a d fl r)
  have ok: "lock_ok (dev s) d' p r'" if "osprd_resume (dev s) (files s f) p w = (d', fl', r')" for d' fl' r'
    using signal that by (intro osprd_resume_ok) (auto simp: system_inv_def)
  from signal.hyps(3) show ?case
  proof (cases rule: osprd_interrupt_cases)
    case 1
    from ok [OF this] signal show ?thesis
      by (auto simp: system_inv_def lock_ok_def after_def split: outcome.splits if_splits)
  next
    case (2 d1)
    from ok [OF 2(1)] 2(2-) signal show ?thesis
      by (auto simp: system_inv_def lock_ok_def lock_inv_def after_def terminate_ticket_def split: if_splits)
  qed
next
  case (tryacquire s p f d fl r)
  then have "lock_ok (dev s) d p (Return r)" by (intro osprd_tryacquire_ok) (auto simp: system_inv_def)
  with tryacquire show ?case by (auto simp: system_inv_def lock_ok_def)
next
  case (release s p f d fl r wake)
  then show ?case
    using drop_lock_inv [of "dev s" "files s f" p d]
    by (fastforce simp: system_inv_def osprd_release_def wake_up_all_def split: if_splits prod.splits status.splits)
next
  case (close s p f d fl wake)
  then show ?case
    using drop_lock_inv [of "dev s" "files s f" p d]
    by (fastforce simp: system_inv_def osprd_close_last_def wake_up_all_def split: if_splits prod.splits status.splits)
qed

section \<open>Order of service\<close>

text \<open>
  An atomic path of a process holding ticket \<open>t\<close>: it keeps its ticket if it blocks and gives
  it up if it returns, and it is granted the lock only when no smaller ticket waits.
\<close>

definition served :: "u32 set \<Rightarrow> u32 \<Rightarrow> osprd_info \<Rightarrow> osprd_info \<Rightarrow> outcome \<Rightarrow> bool" where
  "served W t d d' r \<longleftrightarrow> ticket_head d' = ticket_head d \<and>
     (case r of
        Block w \<Rightarrow> tick w = t \<and> queue_inv d' W
      | Return x \<Rightarrow> queue_inv d' (W - {t}) \<and> (x = Inr () \<longrightarrow> (\<forall>t'\<in>W. unat t \<le> unat t')))"

lemma read_turn_inv:
  assumes "queue_inv d W" "t \<in> W" "read_turn d t = (d', ok)"
  shows "queue_inv d' W" "ok \<Longrightarrow> t = ticket_tail d'" "ticket_head d' = ticket_head d"
  using assms can_run_inv [OF assms(1,2), of d' ok] by (auto simp: read_turn_def split: if_splits)

lemma write_turn_inv:
  assumes "queue_inv d W" "t \<in> W" "write_turn d t = (d', ok)"
  shows "queue_inv d' W" "ok \<Longrightarrow> t = ticket_tail d'" "ticket_head d' = ticket_head d"
  using assms can_run_inv [OF assms(1,2), of d' ok] by (auto simp: write_turn_def split: if_splits)

text \<open>A process that is not let in is not let in by testing again at once.\<close>

lemma can_run_again:
  assumes q: "queue_inv d W" "t \<in> W" and r: "can_run_ticket d t = (d1, False)"
  shows "can_run_ticket d1 t = (d1, False)"
proof -
  let ?cs = "terminated_tickets d"
  define r1 where "r1 = skip_terminated ?cs t (ticket_tail d)"
  define r2 where "r2 = skip_terminated ?cs t r1"
  have d1: "d1 = d\<lparr>ticket_tail := r1\<rparr>" and ne: "t \<noteq> r1"
    using r by (auto simp: can_run_ticket_def r1_def)
  have cs: "ticket_sorted ?cs" "\<forall>c\<in>set ?cs. small c" "small t" "small (ticket_tail d)"
    "unat (ticket_tail d) \<le> unat t"
    using q queue_small [OF q(1)] by (auto simp: queue_inv_def)
  note s1 = skip_spec [OF cs(1-4) r1_def]
  have "unat r1 \<le> unat t" "r1 \<noteq> t" using s1 cs(5) ne by auto
  then have lt: "unat r1 < unat t" by (metis le_neq_implies_less word_unat_eq_iff)
  then have "small r1" using cs(3) by (simp add: small_def)
  from skip_spec [OF cs(1-3) this r2_def] s1 lt have "\<not> unat r1 < unat r2" "unat r1 \<le> unat r2" by auto
  then have "r2 = r1" by (metis le_antisym not_le word_unat_eq_iff)
  then show ?thesis using ne by (simp add: can_run_ticket_def d1 r2_def [symmetric])
qed

lemma read_turn_again:
  assumes q: "queue_inv d W" "t \<in> W" and r: "read_turn d t = (d1, False)"
  shows "read_turn d1 t = (d1, False)"
proof (cases "can_read d")
  case True
  then have "can_run_ticket d t = (d1, False)" using r by (simp add: read_turn_def)
  then have "can_run_ticket d1 t = (d1, False)" by (rule can_run_again [OF q])
  moreover have "can_read d1" using turn_keeps(2) [OF r] True by (simp add: can_read_def)
  ultimately show ?thesis by (simp add: read_turn_def)
qed (use r in \<open>auto simp: read_turn_def\<close>)

lemma write_turn_again:
  assumes q: "queue_inv d W" "t \<in> W" and r: "write_turn d t = (d1, False)"
  shows "write_turn d1 t = (d1, False)"
proof (cases "can_write d")
  case True
  then have "can_run_ticket d t = (d1, False)" using r by (simp add: write_turn_def)
  then have "can_run_ticket d1 t = (d1, False)" by (rule can_run_again [OF q])
  moreover have "can_write d1" using turn_keeps(1) [OF r] True by (simp add: can_write_def)
  ultimately show ?thesis by (simp add: write_turn_def)
qed (use r in \<open>auto simp: write_turn_def\<close>)

lemma tail_least: "queue_inv d W \<Longrightarrow> t' \<in> W \<Longrightarrow> unat (ticket_tail d) \<le> unat t'"
  by (auto simp: queue_inv_def)

lemma grant_read_served:
  assumes "queue_inv d W" "t \<in> W" "t = ticket_tail d"
  shows "queue_inv (grant_read d pid) (W - {t})" "queue_inv (grant_write d pid) (W - {t})"
  by (rule grant_inv [OF assms]; simp add: grant_read_def grant_write_def)+

lemma acquire_read_loop_served:
  assumes q: "queue_inv d W" "t \<in> W" and run: "acquire_read_loop d fl pid t = (d', fl', r)"
  shows "served W t d d' r"
proof -
  obtain d1 ok where t1: "read_turn d t = (d1, ok)" by (cases "read_turn d t")
  note i1 = read_turn_inv [OF q t1]
  obtain d2 ok2 where t2: "read_turn d1 t = (d2, ok2)" by (cases "read_turn d1 t")
  note i2 = read_turn_inv [OF i1(1) q(2) t2]
  show ?thesis
  proof (cases ok)
    case True
    then have "d' = grant_read d1 pid" "r = Return (Inr ())"
      using run t1 by (auto simp: acquire_read_loop_def)
    then show ?thesis
      using grant_read_served(1) [OF i1(1) q(2) i1(2)] True i1 tail_least [OF i1(1)]
      by (auto simp: served_def grant_read_def)
  next
    case False
    then show ?thesis using run t1 t2 i1 i2 by (auto simp: acquire_read_loop_def served_def)
  qed
qed

lemma acquire_write_loop_served:
  assumes q: "queue_inv d W" "t \<in> W" and m: "\<not> f_read fl"
    and run: "acquire_write_loop d fl pid t = (d', fl', r)"
  shows "served W t d d' r"
proof -
  obtain d1 ok where t1: "write_turn d t = (d1, ok)" by (cases "write_turn d t")
  note i1 = write_turn_inv [OF q t1]
  obtain d2 ok2 where t2: "write_turn d1 t = (d2, ok2)" by (cases "write_turn d1 t")
  note i2 = write_turn_inv [OF i1(1) q(2) t2]
  show ?thesis
  proof (cases ok)
    case True
    then have "d' = grant_write d1 pid" "r = Return (Inr ())"
      using run t1 m by (auto simp: acquire_write_loop_def acquire_read_def)
    then show ?thesis
      using grant_read_served(2) [OF i1(1) q(2) i1(2)] True i1 tail_least [OF i1(1)]
      by (auto simp: served_def grant_write_def)
  next
    case False
    then show ?thesis using run t1 t2 i1 i2 by (auto simp: acquire_write_loop_def served_def)
  qed
qed

lemma terminate_served:
  "queue_inv d W \<Longrightarrow> t \<in> W \<Longrightarrow> served W t d (terminate_ticket d t) (Return (Inl e))"
  using terminate_inv [of d W t] by (simp add: served_def)

text \<open>Files opened for reading or for writing, not both.\<close>

definition single_mode :: "filp \<Rightarrow> bool" where
  "single_mode fl \<longleftrightarrow> f_write fl \<noteq> f_read fl"

lemma osprd_acquire_served:
  assumes q: "queue_inv d W" "unat (ticket_head d) < 2 ^ 31 - 1" and m: "single_mode fl"
    and run: "osprd_acquire d fl pid = (d', fl', r)"
  shows "\<exists>d1. take_ticket d = (d1, ticket_head d) \<and> served (insert (ticket_head d) W) (ticket_head d) d1 d' r
    \<and> ticket_head d \<notin> W \<and> (\<forall>t. r = Block (WaitWrite t) \<longrightarrow> f_write fl)"
proof -
  obtain d1 t where t: "take_ticket d = (d1, t)" by (cases "take_ticket d")
  note i1 = take_ticket_inv [OF q t]
  have te: "served (insert t W) t d1 (terminate_ticket d1 t) (Return (Inl e))" for e
    by (rule terminate_served [OF i1(1)]) simp
  have sv: "served (insert t W) t d1 d' r" 
  proof (cases "pid = writer d1 \<or> pid \<in> set (readers d1)")
    case True
    then show ?thesis using run te m unfolding osprd_acquire_def t
      by (auto simp: acquire_read_def single_mode_def split: if_splits)
  next
    case False
    show ?thesis
    proof (cases "f_write fl")
      case True
      then show ?thesis
        using False run m acquire_write_loop_served [OF i1(1), of t fl pid d' fl' r]
        unfolding osprd_acquire_def t by (simp add: single_mode_def)
    next
      case w: False
      then show ?thesis
        using False run m acquire_read_loop_served [OF i1(1), of t fl pid d' fl' r]
        unfolding osprd_acquire_def t by (simp add: single_mode_def acquire_read_def)
    qed
  qed
  have "f_write fl" if "r = Block (WaitWrite x)" for x
  proof (rule ccontr)
    assume "\<not> f_write fl"
    then show False using run that unfolding osprd_acquire_def t
      by (auto simp: acquire_read_def acquire_read_loop_def split: if_splits prod.splits)
  qed
  then show ?thesis using t sv i1(2,3) by auto
qed

lemma osprd_resume_served:
  assumes q: "queue_inv d W" "tick w \<in> W" and m: "\<forall>t. w = WaitWrite t \<longrightarrow> \<not> f_read fl"
    and run: "osprd_resume d fl pid w = (d', fl', r)"
  shows "served W (tick w) d d' r \<and> (\<forall>t. r = Block (WaitWrite t) \<longrightarrow> w = WaitWrite t)"
proof (cases w)
  case (WaitWrite t)
  obtain d1 ok where t1: "write_turn d t = (d1, ok)" by (cases "write_turn d t")
  have tW: "t \<in> W" using q(2) WaitWrite by simp
  note i1 = write_turn_inv [OF q(1) tW t1]
  have "served W t d1 d' r \<Longrightarrow> served W t d d' r" using i1 by (simp add: served_def)
  moreover have "acquire_write_loop d1 fl pid t = (d', fl', r) \<Longrightarrow> r = Block (WaitWrite t') \<Longrightarrow> t' = t" for t'
    using m WaitWrite by (auto simp: acquire_write_loop_def acquire_read_def split: if_splits prod.splits)
  ultimately show ?thesis
    using run t1 i1 m acquire_write_loop_served [OF i1(1) tW, of fl pid d' fl' r] WaitWrite
    by (auto simp: osprd_resume_def served_def split: if_splits)
next
  case (WaitRead t)
  obtain d1 ok where t1: "read_turn d t = (d1, ok)" by (cases "read_turn d t")
  have tW: "t \<in> W" using q(2) WaitRead by simp
  note i1 = read_turn_inv [OF q(1) tW t1]
  have "served W t d1 d' r \<Longrightarrow> served W t d d' r" using i1 by (simp add: served_def)
  moreover have "acquire_read_loop d1 fl pid t = (d', fl', r) \<Longrightarrow> r = Block (WaitWrite t') \<Longrightarrow> False" for t'
    by (auto simp: acquire_read_loop_def split: if_splits prod.splits)
  ultimately show ?thesis
    using run t1 i1 acquire_read_loop_served [OF i1(1) tW, of fl pid d' fl' r] WaitRead
    by (auto simp: osprd_resume_def served_def split: if_splits)
qed

lemma osprd_tryacquire_served:
  assumes q: "queue_inv d W" "unat (ticket_head d) < 2 ^ 31 - 1" and m: "single_mode fl"
    and run: "osprd_tryacquire d fl pid = (d', fl', r)"
  shows "queue_inv d' W" "r = Inr () \<Longrightarrow> \<forall>t\<in>W. unat (ticket_head d) \<le> unat t"
proof -
  obtain d1 t where t: "take_ticket d = (d1, t)" by (cases "take_ticket d")
  note i1 = take_ticket_inv [OF q t]
  have W: "insert t W - {t} = W" using i1(2) by auto
  have tW: "t \<in> insert t W" by simp
  obtain d2 ok where w: "write_turn d1 t = (d2, ok)" by (cases "write_turn d1 t")
  note i2 = write_turn_inv [OF i1(1) tW w]
  obtain d3 ok3 where rd: "read_turn d1 t = (d3, ok3)" by (cases "read_turn d1 t")
  note i3 = read_turn_inv [OF i1(1) tW rd]
  have "queue_inv (terminate_ticket d1 t) W" "queue_inv (terminate_ticket d2 t) W" "queue_inv (terminate_ticket d3 t) W"
    using terminate_inv [OF i1(1) tW] terminate_inv [OF i2(1) tW] terminate_inv [OF i3(1) tW] W by simp_all
  moreover have "ok \<Longrightarrow> queue_inv (grant_write d2 pid) W" "ok3 \<Longrightarrow> queue_inv (grant_read d3 pid) W"
    using grant_read_served(2) [OF i2(1) tW i2(2)] grant_read_served(1) [OF i3(1) tW i3(2)] W by simp_all
  ultimately show "queue_inv d' W"
    using run m w rd unfolding osprd_tryacquire_def t
    by (auto simp: try_read_def single_mode_def split: if_splits)
  assume "r = Inr ()"
  then have "ok \<or> ok3"
    using run m w rd unfolding osprd_tryacquire_def t
    by (auto simp: try_read_def single_mode_def split: if_splits)
  moreover have "\<forall>t'\<in>W. unat t \<le> unat t'" if ok using tail_least [OF i2(1)] i2(2) [OF that] by auto
  moreover have "\<forall>t'\<in>W. unat t \<le> unat t'" if ok3 using tail_least [OF i3(1)] i3(2) [OF that] by auto
  moreover have "t = ticket_head d" using t by (simp add: take_ticket_def)
  ultimately show "\<forall>t\<in>W. unat (ticket_head d) \<le> unat t" by blast
qed

lemma drop_lock_queue:
  "drop_lock d fl pid = (d', fl') \<Longrightarrow> queue_inv d' W = queue_inv d W"
  by (cases "f_write fl"; cases "f_read fl")
     (auto simp: drop_lock_def queue_inv_def remove_reader_def)

text \<open>The access mode of a file never changes.\<close>

lemma modes_kept:
  "osprd_acquire d fl pid = (d', fl', r) \<Longrightarrow> f_write fl' = f_write fl \<and> f_read fl' = f_read fl"
  "osprd_resume d fl pid w = (d', fl', r) \<Longrightarrow> f_write fl' = f_write fl \<and> f_read fl' = f_read fl"
  "osprd_tryacquire d fl pid = (d', fl', r2) \<Longrightarrow> f_write fl' = f_write fl \<and> f_read fl' = f_read fl"
  "drop_lock d fl pid = (d', fl') \<Longrightarrow> f_write fl' = f_write fl \<and> f_read fl' = f_read fl"
  by (auto simp: osprd_acquire_def osprd_resume_def osprd_tryacquire_def acquire_read_def acquire_read_loop_def
      acquire_write_loop_def try_read_def drop_lock_def Let_def split: if_splits prod.splits wait.splits)

end
