(* ===== verification/Osprd_Props.thy ===== *)
theory Osprd_Props
  imports Osprd_Order
begin

text \<open>
  The properties of the RAM disk driver (RAMDisk/osprd.c), over the runs of
  \<open>osprd_step\<close>, and two runs in which the lock misbehaves.
\<close>

section \<open>The properties of the device lock\<close>

definition reachable :: "(nat \<Rightarrow> bool \<times> bool) \<Rightarrow> system \<Rightarrow> bool" where
  "reachable modes = osprd_step\<^sup>*\<^sup>* (osprd_init modes)"

text \<open>
  C5 In every reachable state of the driver, whatever the processes do and however their
  system calls interleave, a writer excludes all readers, the reader count is the length of
  the reader list, and no process is in the list twice.
\<close>

theorem osprd_mutual_exclusion:
  assumes "reachable modes s"
  shows "(0 \<le> writer (dev s) \<longrightarrow> readers (dev s) = []) \<and> num_readers (dev s) = length (readers (dev s))
    \<and> distinct (readers (dev s))"
proof -
  have "osprd_step\<^sup>*\<^sup>* (osprd_init modes) s" using assms by (simp add: reachable_def)
  then have "system_inv s"
  proof (induction rule: rtranclp_induct)
    case base
    show ?case by (simp add: system_inv_def osprd_init_def osprd_setup_def lock_inv_def)
  next
    case (step s s')
    then show ?case using osprd_step_inv by blast
  qed
  then show ?thesis by (simp add: system_inv_def lock_inv_def)
qed

text \<open>Runs in which the ticket counter stays below its sign bit.\<close>

inductive reachable_small :: "(nat \<Rightarrow> bool \<times> bool) \<Rightarrow> system \<Rightarrow> bool" for modes where
  init: "reachable_small modes (osprd_init modes)"
| step: "reachable_small modes s \<Longrightarrow> unat (ticket_head (dev s)) < 2 ^ 31 - 1 \<Longrightarrow> osprd_step s s' \<Longrightarrow>
    reachable_small modes s'"

fun ticket_of :: "status \<Rightarrow> u32 option" where
  "ticket_of Running = None"
| "ticket_of (Waiting f w a) = Some (tick w)"

definition waiting :: "(int \<Rightarrow> status) \<Rightarrow> u32 set" where
  "waiting ps = {t. \<exists>p. ticket_of (ps p) = Some t}"

definition order_inv :: "system \<Rightarrow> bool" where
  "order_inv s \<longleftrightarrow> queue_inv (dev s) (waiting (procs s))
     \<and> (\<forall>p q t. ticket_of (procs s p) = Some t \<longrightarrow> ticket_of (procs s q) = Some t \<longrightarrow> p = q)
     \<and> (\<forall>f. single_mode (files s f))
     \<and> (\<forall>p f t a. procs s p = Waiting f (WaitWrite t) a \<longrightarrow> f_write (files s f))"

lemma waiting_wake [simp]: "ticket_of (wake_up_all ps p) = ticket_of (ps p)" "waiting (wake_up_all ps) = waiting ps"
proof -
  show 1: "ticket_of (wake_up_all ps p) = ticket_of (ps p)" for p
    by (simp add: wake_up_all_def split: status.split)
  show "waiting (wake_up_all ps) = waiting ps" by (simp add: waiting_def 1)
qed

lemma waiting_upd:
  assumes "\<forall>p q t. ticket_of (ps p) = Some t \<longrightarrow> ticket_of (ps q) = Some t \<longrightarrow> p = q"
  shows "ticket_of st = None \<Longrightarrow> ticket_of (ps p) = Some t \<Longrightarrow> waiting (ps(p := st)) = waiting ps - {t}"
    "ticket_of st = None \<Longrightarrow> ticket_of (ps p) = None \<Longrightarrow> waiting (ps(p := st)) = waiting ps"
    "ticket_of st = Some t \<Longrightarrow> ticket_of (ps p) = Some t \<Longrightarrow> waiting (ps(p := st)) = waiting ps"
    "ticket_of st = Some t \<Longrightarrow> ticket_of (ps p) = None \<Longrightarrow> waiting (ps(p := st)) = insert t (waiting ps)"
  using assms by (auto simp: waiting_def split: if_splits) (metis option.inject | metis option.distinct(1))+

lemma wake_up_Waiting: "wake_up_all ps p = Waiting f w a \<Longrightarrow> \<exists>a'. ps p = Waiting f w a'"
  by (auto simp: wake_up_all_def split: status.splits)

lemma order_inv_upd:
  assumes inv: "order_inv s" and q: "queue_inv d (waiting (procs s))"
    and m: "f_write fl = f_write (files s f)" "f_read fl = f_read (files s f)"
    and ps: "ps = procs s \<or> ps = wake_up_all (procs s)"
  shows "order_inv (s\<lparr>dev := d, files := (files s)(f := fl), procs := ps\<rparr>)"
proof -
  have o: "\<forall>p q t. ticket_of (procs s p) = Some t \<longrightarrow> ticket_of (procs s q) = Some t \<longrightarrow> p = q"
    "\<forall>f. single_mode (files s f)"
    "\<forall>p f t a. procs s p = Waiting f (WaitWrite t) a \<longrightarrow> f_write (files s f)"
    using inv unfolding order_inv_def by blast+
  have t: "ticket_of (ps p) = ticket_of (procs s p)" "waiting ps = waiting (procs s)" for p
    using ps by auto
  have "f_write (((files s)(f := fl)) f')" if "ps p = Waiting f' (WaitWrite t) a" for p f' t a
  proof -
    have "\<exists>a'. procs s p = Waiting f' (WaitWrite t) a'" using ps that wake_up_Waiting by blast
    then have "f_write (files s f')" using o(3) by blast
    then show ?thesis using m by auto
  qed
  moreover have "single_mode (((files s)(f := fl)) f')" for f' using o(2) m by (simp add: single_mode_def)
  ultimately show ?thesis unfolding order_inv_def using q o(1) t by simp
qed

lemma resume_order:
  assumes p: "procs s p = Waiting f w a" and r: "osprd_resume (dev s) (files s f) p w = (d, fl, r)" and i: "order_inv s"
  shows "order_inv (s\<lparr>dev := d, files := (files s)(f := fl), procs := (procs s)(p := after f r)\<rparr>)"
proof -
  have o: "queue_inv (dev s) (waiting (procs s))" "single_mode (files s f)"
    "\<forall>p q t. ticket_of (procs s p) = Some t \<longrightarrow> ticket_of (procs s q) = Some t \<longrightarrow> p = q"
    "\<forall>t. w = WaitWrite t \<longrightarrow> f_write (files s f)"
    using i p unfolding order_inv_def by blast+
  have run: "ticket_of (procs s p) = Some (tick w)" using p by simp
  have tW: "tick w \<in> waiting (procs s)" using run by (auto simp: waiting_def)
  have m: "\<forall>t. w = WaitWrite t \<longrightarrow> \<not> f_read (files s f)" using o(2,4) by (auto simp: single_mode_def)
  have sv: "served (waiting (procs s)) (tick w) (dev s) d r"
    "\<forall>t. r = Block (WaitWrite t) \<longrightarrow> w = WaitWrite t"
    using osprd_resume_served [OF o(1) tW m r] by auto
  note md = modes_kept(2) [OF r]
  have q: "queue_inv d (waiting ((procs s)(p := after f r)))"
  proof (cases r)
    case (Return x)
    then show ?thesis
      using sv(1) waiting_upd(1) [OF o(3), of "after f r" p "tick w"] run by (auto simp: served_def after_def)
  next
    case (Block w')
    then show ?thesis
      using sv(1) waiting_upd(3) [OF o(3), of "after f r" "tick w" p] run by (auto simp: served_def after_def)
  qed
  show ?thesis
    using q i p sv md o(3,4) run
    by (auto simp: order_inv_def single_mode_def after_def served_def split: outcome.splits if_splits)
qed

lemma terminate_order:
  assumes i: "order_inv s" and p: "procs s p = Waiting f w a"
  shows "order_inv (s\<lparr>dev := terminate_ticket (dev s) (tick w), procs := (procs s)(p := Running)\<rparr>)"
proof -
  have o: "queue_inv (dev s) (waiting (procs s))"
    "\<forall>p q t. ticket_of (procs s p) = Some t \<longrightarrow> ticket_of (procs s q) = Some t \<longrightarrow> p = q"
    using i by (auto simp: order_inv_def)
  have run: "ticket_of (procs s p) = Some (tick w)" using p by simp
  have tW: "tick w \<in> waiting (procs s)" using run by (auto simp: waiting_def)
  have "queue_inv (terminate_ticket (dev s) (tick w)) (waiting ((procs s)(p := Running)))"
    using terminate_inv [OF o(1) tW] waiting_upd(1) [OF o(2), of Running p "tick w"] run by simp
  then show ?thesis using i by (auto simp: order_inv_def split: if_splits)
qed

lemma osprd_step_order:
  assumes "osprd_step s s'" "order_inv s" "unat (ticket_head (dev s)) < 2 ^ 31 - 1"
  shows "order_inv s'"
  using assms
proof (induction rule: osprd_step.induct)
  case (acquire s p f d fl r)
  have o: "queue_inv (dev s) (waiting (procs s))" "single_mode (files s f)"
    "\<forall>p q t. ticket_of (procs s p) = Some t \<longrightarrow> ticket_of (procs s q) = Some t \<longrightarrow> p = q"
    using acquire.prems(1) by (auto simp: order_inv_def)
  let ?t = "ticket_head (dev s)"
  obtain d1 where sv: "served (insert ?t (waiting (procs s))) ?t d1 d r" "?t \<notin> waiting (procs s)"
      "\<forall>t. r = Block (WaitWrite t) \<longrightarrow> f_write (files s f)"
    using osprd_acquire_served [OF o(1) acquire.prems(2) o(2) acquire.hyps(3)] by blast
  note md = modes_kept(1) [OF acquire.hyps(3)]
  have run: "ticket_of (procs s p) = None" using acquire.hyps(1) by simp
  have q: "queue_inv d (waiting ((procs s)(p := after f r)))"
  proof (cases r)
    case (Return x)
    then show ?thesis
      using sv(1,2) waiting_upd(2) [OF o(3), of "after f r" p] run by (auto simp: served_def after_def)
  next
    case (Block w)
    then show ?thesis
      using sv(1) waiting_upd(4) [OF o(3), of "after f r" ?t p] run by (auto simp: served_def after_def)
  qed
  have "ticket_of (procs s x) \<noteq> Some ?t" for x using sv(2) by (auto simp: waiting_def)
  then show ?case
    using q acquire.prems(1) acquire.hyps(1) sv(1,3) md o(3)
    by (auto simp: order_inv_def single_mode_def after_def served_def split: outcome.splits if_splits)
next
  case (resume s p f w d fl r)
  then show ?case using resume_order by blast
next
  case (signal s p f w a d fl r)
  from signal.hyps(3) show ?case
  proof (cases rule: osprd_interrupt_cases)
    case 1
    with signal show ?thesis using resume_order by blast
  next
    case (2 d1)
    have "order_inv (s\<lparr>dev := d1, files := (files s)(f := files s f), procs := (procs s)(p := after f (Block w))\<rparr>)"
      by (rule resume_order [OF signal.hyps(1) 2(1) signal.prems(1)])
    from terminate_order [OF this, of p f w False] 2(2-) show ?thesis by (simp add: after_def)
  qed
next
  case (tryacquire s p f d fl r)
  then have "queue_inv d (waiting (procs s))"
    by (intro osprd_tryacquire_served(1) [of "dev s" _ "files s f" p d fl r]) (auto simp: order_inv_def)
  from order_inv_upd [OF tryacquire.prems(1) this, of fl f "procs s"] modes_kept(3) [OF tryacquire.hyps(3)]
  show ?case by simp
next
  case (release s p f d fl r wake)
  have "queue_inv d (waiting (procs s)) \<and> f_write fl = f_write (files s f) \<and> f_read fl = f_read (files s f)"
    using release drop_lock_queue [of "dev s" "files s f" p d fl] modes_kept(4) [of "dev s" "files s f" p d fl]
    by (auto simp: order_inv_def osprd_release_def split: if_splits prod.splits)
  then show ?case by (intro order_inv_upd [OF release.prems(1)]) auto
next
  case (close s p f d fl wake)
  have "queue_inv d (waiting (procs s)) \<and> f_write fl = f_write (files s f) \<and> f_read fl = f_read (files s f)"
    using close drop_lock_queue [of "dev s" "files s f" p d fl] modes_kept(4) [of "dev s" "files s f" p d fl]
    by (auto simp: order_inv_def osprd_close_last_def split: if_splits prod.splits)
  then show ?case by (intro order_inv_upd [OF close.prems(1)]) auto
qed

lemma reachable_small_order:
  assumes "reachable_small modes s" "\<forall>f. fst (modes f) \<noteq> snd (modes f)"
  shows "order_inv s"
  using assms
proof (induction rule: reachable_small.induct)
  case init
  then show ?case
    by (simp add: order_inv_def osprd_init_def osprd_setup_def queue_inv_def ticket_sorted_def small_def
        waiting_def single_mode_def)
next
  case (step s s')
  then show ?case using osprd_step_order by blast
qed

text \<open>
  C16 First come, first served: in a run in which every file is opened either for reading or for
  writing, not for both, and less than \<open>2 ^ 31 - 1\<close> tickets have been given out, a blocked process
  that is let in has the smallest ticket of all blocked processes, so no process that asked earlier
  is still waiting; and a new request, by \<open>OSPRDIOCACQUIRE\<close> or by \<open>OSPRDIOCTRYACQUIRE\<close>, is granted
  at once only when nobody is waiting.
\<close>

theorem osprd_in_order:
  assumes "reachable_small modes s" "\<forall>f. fst (modes f) \<noteq> snd (modes f)"
    "unat (ticket_head (dev s)) < 2 ^ 31 - 1"
  shows "(\<forall>p q f w a f' w' a' d fl. procs s p = Waiting f w a \<and> procs s q = Waiting f' w' a'
      \<and> osprd_resume (dev s) (files s f) p w = (d, fl, Return (Inr ())) \<longrightarrow> unat (tick w) \<le> unat (tick w'))
    \<and> (\<forall>p f d fl q. osprd_acquire (dev s) (files s f) p = (d, fl, Return (Inr ())) \<longrightarrow> procs s q = Running)
    \<and> (\<forall>p f d fl q. osprd_tryacquire (dev s) (files s f) p = (d, fl, Inr ()) \<longrightarrow> procs s q = Running)"
proof (intro conjI allI impI, elim conjE)
  have inv: "order_inv s" by (rule reachable_small_order [OF assms(1,2)])
  then have o: "queue_inv (dev s) (waiting (procs s))" "\<forall>f. single_mode (files s f)"
    "\<forall>p f t a. procs s p = Waiting f (WaitWrite t) a \<longrightarrow> f_write (files s f)"
    unfolding order_inv_def by blast+
  have tW: "tick w \<in> waiting (procs s)" if "procs s p = Waiting f w a" for p f w a
    unfolding waiting_def using that by (intro CollectI exI [of _ p]) simp
  {
    fix p q f w a f' w' a' d fl
    assume p: "procs s p = Waiting f w a" and q: "procs s q = Waiting f' w' a'"
      and r: "osprd_resume (dev s) (files s f) p w = (d, fl, Return (Inr ()))"
    have m: "\<forall>t. w = WaitWrite t \<longrightarrow> \<not> f_read (files s f)"
      using o(2,3) p unfolding single_mode_def by blast
    from osprd_resume_served [OF o(1) tW [OF p] m r] tW [OF q]
    show "unat (tick w) \<le> unat (tick w')" by (simp add: served_def)
  }
  have nobody: "procs s q = Running" if "\<forall>t\<in>waiting (procs s). unat (ticket_head (dev s)) \<le> unat t" for q
  proof -
    have "unat t < unat (ticket_head (dev s))" if "t \<in> waiting (procs s)" for t
      using o(1) that by (simp add: queue_inv_def)
    then have "waiting (procs s) = {}" using that by (meson all_not_in_conv not_le)
    then show ?thesis using tW by (cases "procs s q") auto
  qed
  {
    fix p f d fl q
    assume r: "osprd_acquire (dev s) (files s f) p = (d, fl, Return (Inr ()))"
    obtain d1 where sv: "served (insert (ticket_head (dev s)) (waiting (procs s))) (ticket_head (dev s)) d1 d (Return (Inr ()))"
      using osprd_acquire_served [OF o(1) assms(3) _ r] o(2) by blast
    then show "procs s q = Running" by (intro nobody) (simp add: served_def)
  }
  fix p f d fl q
  assume r: "osprd_tryacquire (dev s) (files s f) p = (d, fl, Inr ())"
  show "procs s q = Running"
    using osprd_tryacquire_served(2) [OF o(1) assms(3) _ r refl] o(2) by (intro nobody) blast
qed

text \<open>
  A file opened for reading and writing locks itself out: when the device is free and it is
  the process's turn, \<open>OSPRDIOCACQUIRE\<close> takes the write lock and then waits for a read lock
  that its own write lock forbids; every wake-up finds the condition false while it is the
  writer.
\<close>

theorem acquire_read_write_blocks_itself:
  assumes "f_write fl" "f_read fl" "readers d = []" "num_readers d = 0" "writer d < 0" "0 \<le> p"
    "terminated_tickets d = []" "ticket_head d = ticket_tail d"
  shows "\<exists>d' fl'. osprd_acquire d fl p = (d', fl', Block (WaitRead (ticket_head d)))
    \<and> writer d' = p \<and> f_locked fl'
    \<and> (\<forall>d''. writer d'' = p \<longrightarrow> osprd_resume d'' fl' p (WaitRead (ticket_head d)) = (d'', fl', Block (WaitRead (ticket_head d))))"
  using assms
  by (auto simp: osprd_acquire_def take_ticket_def acquire_write_loop_def write_turn_def can_write_def
      can_run_ticket_def acquire_read_def acquire_read_loop_def grant_write_def read_turn_def can_read_def
      osprd_resume_def)

text \<open>
  In the same situation \<open>OSPRDIOCTRYACQUIRE\<close> answers \<open>-EBUSY\<close> but keeps the write lock it
  took: the device has a writer and the file is marked as locked.
\<close>

theorem tryacquire_read_write_keeps_lock:
  assumes "f_write fl" "f_read fl" "readers d = []" "num_readers d = 0" "writer d < 0" "0 \<le> p"
    "terminated_tickets d = []" "ticket_head d = ticket_tail d"
  shows "\<exists>d' fl'. osprd_tryacquire d fl p = (d', fl', Inl EBUSY) \<and> writer d' = p \<and> f_locked fl'"
  using assms
  by (auto simp: osprd_tryacquire_def take_ticket_def write_turn_def can_write_def can_run_ticket_def
      try_read_def grant_write_def read_turn_def can_read_def terminate_ticket_def)

section \<open>A lost wake-up\<close>

definition lost_wakeup :: "system \<Rightarrow> int \<Rightarrow> bool" where
  "lost_wakeup s p \<longleftrightarrow> (\<exists>f t. procs s p = Waiting f (WaitRead t) False
     \<and> can_read (dev s) \<and> t = ticket_tail (dev s))"

text \<open>The steps of a run as functions.\<close>

definition do_acquire :: "system \<Rightarrow> int \<Rightarrow> nat \<Rightarrow> system" where
  "do_acquire s p f = (let (d, fl, r) = osprd_acquire (dev s) (files s f) p
     in s\<lparr>dev := d, files := (files s)(f := fl), procs := (procs s)(p := after f r)\<rparr>)"

definition do_resume :: "system \<Rightarrow> int \<Rightarrow> nat \<Rightarrow> wait \<Rightarrow> system" where
  "do_resume s p f w = (let (d, fl, r) = osprd_resume (dev s) (files s f) p w
     in s\<lparr>dev := d, files := (files s)(f := fl), procs := (procs s)(p := after f r)\<rparr>)"

definition do_release :: "system \<Rightarrow> int \<Rightarrow> nat \<Rightarrow> system" where
  "do_release s p f = (let (d, fl, r, wake) = osprd_release (dev s) (files s f) p
     in s\<lparr>dev := d, files := (files s)(f := fl), procs := (if wake then wake_up_all (procs s) else procs s)\<rparr>)"

lemma do_steps:
  "procs s p = Running \<Longrightarrow> 0 \<le> p \<Longrightarrow> osprd_step s (do_acquire s p f)"
  "procs s p = Waiting f w True \<Longrightarrow> 0 \<le> p \<Longrightarrow> osprd_step s (do_resume s p f w)"
  "procs s p = Running \<Longrightarrow> osprd_step s (do_release s p f)"
proof -
  show "procs s p = Running \<Longrightarrow> 0 \<le> p \<Longrightarrow> osprd_step s (do_acquire s p f)"
    "procs s p = Waiting f w True \<Longrightarrow> 0 \<le> p \<Longrightarrow> osprd_step s (do_resume s p f w)"
    by (auto simp: do_acquire_def do_resume_def split: prod.splits intro: osprd_step.intros)
  assume run: "procs s p = Running"
  obtain d fl r wake where r: "osprd_release (dev s) (files s f) p = (d, fl, r, wake)"
    by (cases "osprd_release (dev s) (files s f) p")
  from osprd_step.release [OF run r] show "osprd_step s (do_release s p f)"
    by (simp add: do_release_def r)
qed

text \<open>
  Process 0 holds the write lock, 1 and 2 ask for read locks, 0 releases; 2 is scheduled
  first, finds that it is not its turn and sleeps again; then 1 gets in.
\<close>

definition lw_modes :: "nat \<Rightarrow> bool \<times> bool" where
  "lw_modes f = (f = 0, f \<noteq> 0)"

definition lw1 :: system where "lw1 = do_acquire (osprd_init lw_modes) 0 0"
definition lw2 :: system where "lw2 = do_acquire lw1 1 1"
definition lw3 :: system where "lw3 = do_acquire lw2 2 2"
definition lw4 :: system where "lw4 = do_release lw3 0 0"
definition lw5 :: system where "lw5 = do_resume lw4 2 2 (WaitRead 2)"
definition lw6 :: system where "lw6 = do_resume lw5 1 1 (WaitRead 1)"

lemmas lw_compute = do_acquire_def do_resume_def do_release_def osprd_acquire_def osprd_resume_def
  osprd_release_def take_ticket_def acquire_write_loop_def acquire_read_def acquire_read_loop_def
  write_turn_def read_turn_def can_write_def can_read_def can_run_ticket_def grant_write_def
  grant_read_def drop_lock_def remove_reader_def after_def wake_up_all_def Let_def

lemma lw1: "dev lw1 = \<lparr>ticket_head = 1, ticket_tail = 1, num_readers = 0, readers = [], writer = 0, terminated_tickets = []\<rparr>"
  "files lw1 f = \<lparr>f_write = (f = 0), f_read = (f \<noteq> 0), f_locked = (f = 0)\<rparr>" "procs lw1 p = Running"
  by (simp_all add: lw1_def osprd_init_def osprd_setup_def lw_modes_def lw_compute)

lemma lw2: "dev lw2 = \<lparr>ticket_head = 2, ticket_tail = 1, num_readers = 0, readers = [], writer = 0, terminated_tickets = []\<rparr>"
  "files lw2 f = \<lparr>f_write = (f = 0), f_read = (f \<noteq> 0), f_locked = (f = 0)\<rparr>"
  "procs lw2 p = (if p = 1 then Waiting 1 (WaitRead 1) False else Running)"
  by (simp_all add: lw2_def lw1 lw_compute)

lemma lw3: "dev lw3 = \<lparr>ticket_head = 3, ticket_tail = 1, num_readers = 0, readers = [], writer = 0, terminated_tickets = []\<rparr>"
  "files lw3 f = \<lparr>f_write = (f = 0), f_read = (f \<noteq> 0), f_locked = (f = 0)\<rparr>"
  "procs lw3 p = (if p = 1 then Waiting 1 (WaitRead 1) False else if p = 2 then Waiting 2 (WaitRead 2) False else Running)"
  by (simp_all add: lw3_def lw2 lw_compute)

lemma lw4: "dev lw4 = \<lparr>ticket_head = 3, ticket_tail = 1, num_readers = 0, readers = [], writer = -1, terminated_tickets = []\<rparr>"
  "files lw4 f = \<lparr>f_write = (f = 0), f_read = (f \<noteq> 0), f_locked = False\<rparr>"
  "procs lw4 p = (if p = 1 then Waiting 1 (WaitRead 1) True else if p = 2 then Waiting 2 (WaitRead 2) True else Running)"
  by (simp_all add: lw4_def lw3 lw_compute)

lemma lw5: "dev lw5 = \<lparr>ticket_head = 3, ticket_tail = 1, num_readers = 0, readers = [], writer = -1, terminated_tickets = []\<rparr>"
  "files lw5 f = \<lparr>f_write = (f = 0), f_read = (f \<noteq> 0), f_locked = False\<rparr>"
  "procs lw5 p = (if p = 1 then Waiting 1 (WaitRead 1) True else if p = 2 then Waiting 2 (WaitRead 2) False else Running)"
  by (simp_all add: lw5_def lw4 lw_compute)

lemma lw6: "dev lw6 = \<lparr>ticket_head = 3, ticket_tail = 2, num_readers = 1, readers = [1], writer = -1, terminated_tickets = []\<rparr>"
  "procs lw6 p = (if p = 2 then Waiting 2 (WaitRead 2) False else Running)"
  by (simp_all add: lw6_def lw5 lw_compute)

lemma lw_steps:
  "osprd_step (osprd_init lw_modes) lw1" "osprd_step lw1 lw2" "osprd_step lw2 lw3" "osprd_step lw3 lw4"
  "osprd_step lw4 lw5" "osprd_step lw5 lw6"
proof -
  show "osprd_step (osprd_init lw_modes) lw1" unfolding lw1_def
    by (rule do_steps) (simp_all add: osprd_init_def)
  show "osprd_step lw1 lw2" unfolding lw2_def by (rule do_steps) (simp_all add: lw1)
  show "osprd_step lw2 lw3" unfolding lw3_def by (rule do_steps) (simp_all add: lw2)
  show "osprd_step lw3 lw4" unfolding lw4_def by (rule do_steps) (simp_all add: lw3)
  show "osprd_step lw4 lw5" unfolding lw5_def by (rule do_steps) (simp_all add: lw4)
  show "osprd_step lw5 lw6" unfolding lw6_def by (rule do_steps) (simp_all add: lw5)
qed

lemma lw_reachable: "reachable lw_modes lw6"
  unfolding reachable_def
  using lw_steps by (meson rtranclp.rtrancl_into_rtrancl rtranclp.rtrancl_refl)

lemma lw5_reachable_small: "reachable_small lw_modes lw5"
  by (intro reachable_small.step [OF _ _ lw_steps(5)] reachable_small.step [OF _ _ lw_steps(4)]
      reachable_small.step [OF _ _ lw_steps(3)] reachable_small.step [OF _ _ lw_steps(2)]
      reachable_small.step [OF _ _ lw_steps(1)] reachable_small.init)
     (simp_all add: lw1 lw2 lw3 lw4 osprd_init_def osprd_setup_def)

theorem osprd_mutual_exclusion_witness: "num_readers (dev lw6) = length (readers (dev lw6))"
  using osprd_mutual_exclusion [OF lw_reachable] by simp

theorem osprd_in_order_witness:
  "osprd_resume (dev lw5) (files lw5 1) 1 (WaitRead 1) = (dev lw6, files lw6 1, Return (Inr ()))
    \<and> unat (tick (WaitRead 1)) \<le> unat (tick (WaitRead 2))"
proof -
  have r: "osprd_resume (dev lw5) (files lw5 1) 1 (WaitRead 1) = (dev lw6, files lw6 1, Return (Inr ()))"
    by (simp add: lw6_def lw5 lw_compute)
  have "\<forall>f. fst (lw_modes f) \<noteq> snd (lw_modes f)" by (simp add: lw_modes_def)
  from osprd_in_order [OF lw5_reachable_small this] lw5(3) [of 1] lw5(3) [of 2] r
  show ?thesis by (simp add: lw5(1))
qed

definition rw_device :: osprd_info where
  "rw_device = osprd_setup\<lparr>ticket_head := 5, ticket_tail := 5\<rparr>"

theorem acquire_read_write_blocks_itself_witness:
  "\<exists>d' fl'. osprd_acquire rw_device \<lparr>f_write = True, f_read = True, f_locked = False\<rparr> 7
      = (d', fl', Block (WaitRead 5)) \<and> writer d' = 7"
  using acquire_read_write_blocks_itself [of "\<lparr>f_write = True, f_read = True, f_locked = False\<rparr>" rw_device 7]
  by (auto simp: rw_device_def osprd_setup_def)

theorem tryacquire_read_write_keeps_lock_witness:
  "\<exists>d' fl'. osprd_tryacquire rw_device \<lparr>f_write = True, f_read = True, f_locked = False\<rparr> 7
      = (d', fl', Inl EBUSY) \<and> writer d' = 7"
  using tryacquire_read_write_keeps_lock [of "\<lparr>f_write = True, f_read = True, f_locked = False\<rparr>" rw_device 7]
  by (auto simp: rw_device_def osprd_setup_def)

text \<open>
  C26 A lost wake-up is reachable: a reader sleeps although no writer holds the device and it is
  its turn.  Granting a lock advances the tickets without waking the queue, so a reader that
  was woken too early is not woken again when the reader before it gets in.
\<close>

theorem lost_wakeup_reachable: "\<exists>modes s p. reachable modes s \<and> lost_wakeup s p"
  using lw_reachable by (intro exI [of _ lw_modes] exI [of _ lw6] exI [of _ 2]) (simp add: lost_wakeup_def lw6 can_read_def)

section \<open>Sectors\<close>

text \<open>
  A sector written and read back is the data written, but sectors overlap: the offset is the
  sector number in bytes, so writing sector \<open>s + 1\<close> overwrites all but the first byte of
  sector \<open>s\<close>.
\<close>

theorem sectors_overlap:
  assumes "length a = 512" "length b = 512"
    "osprd_process_request True d WRITE s 1 a = (d1, x, True)"
    "osprd_process_request True d1 WRITE (s + 1) 1 b = (d2, y, True)"
  shows "osprd_process_request True d1 READ s 1 buf = (d1, a, True)
    \<and> osprd_process_request True d2 READ s 1 buf = (d2, hd a # take 511 b, True)"
proof
  have d1: "d1 = mem_write d s a" and d2: "d2 = mem_write d1 (s + 1) b"
    using assms by (auto simp: osprd_process_request_def)
  show "osprd_process_request True d1 READ s 1 buf = (d1, a, True)"
    using mem_read_write [of d s a] assms(1) by (simp add: osprd_process_request_def d1)
  have "mem_read d2 s 512 = hd a # take 511 b"
  proof (rule nth_equalityI)
    fix i assume "i < length (mem_read d2 s 512)"
    then have i: "i < 512" by simp
    have "hd a = a ! 0" using assms(1) by (cases a) auto
    then show "mem_read d2 s 512 ! i = (hd a # take 511 b) ! i"
      using i assms(1,2) by (cases i) (auto simp: d2 d1 mem_write_byte)
  qed (use assms(2) in simp)
  then show "osprd_process_request True d2 READ s 1 buf = (d2, hd a # take 511 b, True)"
    by (simp add: osprd_process_request_def)
qed


theorem sectors_overlap_witness:
  "\<exists>d2. osprd_process_request True d2 READ 3 1 [] = (d2, 1 # replicate 511 2, True)"
proof -
  let ?a = "replicate 512 1 :: u8 list" and ?b = "replicate 512 2 :: u8 list"
  let ?d1 = "mem_write (\<lambda>_. 0) 3 ?a"
  have w: "osprd_process_request True (\<lambda>_. 0) WRITE 3 1 ?a = (?d1, ?a, True)"
    "osprd_process_request True ?d1 WRITE (3 + 1) 1 ?b = (mem_write ?d1 4 ?b, ?b, True)"
    by (simp_all add: osprd_process_request_def)
  have "hd ?a # take 511 ?b = 1 # replicate 511 2" by simp
  with sectors_overlap [OF _ _ w, of "[]"] show ?thesis by auto
qed

end
