(* ===== verification/Ospfs_Demo.thy ===== *)
theory Ospfs_Demo
  imports Ospfs_Grow
begin

text \<open>
  A concrete disk, given by its 32-bit cells: 400 blocks, 16 inodes from block 3 on, blocks
  390 to 399 free, and three files (empty, 266 blocks, 523 blocks).
\<close>

definition disk_of :: "(nat \<Rightarrow> u32) \<Rightarrow> mem" where
  "disk_of f = (\<lambda>a. ucast (drop_bit (8 * (a mod 4)) (f (a div 4))))"

lemma get32_disk_of:
  assumes "a mod 4 = 0" shows "get32 (disk_of f) a = f (a div 4)"
proof -
  have d: "disk_of f (a + i) = ucast (drop_bit (8 * i) (f (a div 4)))" if "i < 4" for i
  proof -
    obtain q where "a = 4 * q" using assms by (metis mod_0_imp_dvd dvdE)
    then have "(a + i) mod 4 = i" "(a + i) div 4 = a div 4" using that by simp_all
    then show ?thesis by (simp add: disk_of_def)
  qed
  have d0: "disk_of f a = ucast (f (a div 4))" using d [of 0] by simp
  have d1: "disk_of f (a + 1) = ucast (drop_bit 8 (f (a div 4)))" using d [of 1] by simp
  have d2: "disk_of f (a + 2) = ucast (drop_bit 16 (f (a div 4)))" using d [of 2] by simp
  have d3: "disk_of f (a + 3) = ucast (drop_bit 24 (f (a div 4)))" using d [of 3] by simp
  show ?thesis
  proof (rule bit_word_eqI)
    fix n assume "n < LENGTH(32)"
    then show "bit (get32 (disk_of f) a) n = bit (f (a div 4)) n"
      unfolding get32_def d0 d1 d2 d3
      by (cases "n < 8"; cases "n < 16"; cases "n < 24") (auto simp: bit_simps)
  qed
qed

definition demo_cells :: "nat \<Rightarrow> u32" where
  "demo_cells k =
     (if k = 257 then 400 else if k = 258 then 16 else if k = 259 then 3
      else if k = 524 then 0xFFC0
      else if k = 800 then 272384
      else if 804 \<le> k \<and> k < 814 then of_nat (10 + (k - 804))
      else if k = 814 then 20
      else if 5120 \<le> k \<and> k < 5376 then of_nat (21 + (k - 5120))
      else if k = 816 then 535552
      else if k = 830 then 300 else if k = 831 then 301
      else if k = 77057 then 302 else if k = 77312 then 303
      else 0)"

definition demo_disk :: mem where
  "demo_disk = disk_of demo_cells"

lemma get32_demo: "a mod 4 = 0 \<Longrightarrow> get32 demo_disk a = demo_cells (a div 4)"
  by (simp add: demo_disk_def get32_disk_of)

lemma demo_super: "os_nblocks demo_disk = 400" "os_ninodes demo_disk = 16" "os_firstinob demo_disk = 3"
  "first_data demo_disk = 4"
  by (simp_all add: os_nblocks_def os_ninodes_def os_firstinob_def get32_demo demo_cells_def first_data_def)

lemma demo_lay: "lay demo_disk"
  by (simp add: lay_def demo_super)

lemma demo_data_blk: "data_blk demo_disk b \<longleftrightarrow> 4 \<le> unat b \<and> unat b < 400"
  by (simp add: data_blk_def demo_super)

lemma demo_free: "free_set demo_disk = {390..<400}"
proof (intro set_eqI)
  fix k
  have w: "get32 demo_disk (2048 + 4 * (k div 32)) = (if k div 32 = 12 then 0xFFC0 else 0)" if "k < 400"
  proof -
    have "k div 32 < 13" using that by (simp add: div_less_iff_less_mult)
    moreover have "(2048 + 4 * (k div 32)) div 4 = 512 + k div 32" "(2048 + 4 * (k div 32)) mod 4 = 0"
      by presburger+
    ultimately show ?thesis by (auto simp: get32_demo demo_cells_def)
  qed
  show "k \<in> free_set demo_disk \<longleftrightarrow> k \<in> {390..<400}"
  proof (cases "k div 32 = 12")
    case True
    then have k: "k = 384 + k mod 32" using div_mult_mod_eq [of k 32] by linarith
    have bits: "\<forall>r\<in>set [0..<16]. bit (0xFFC0 :: u32) r = (6 \<le> r)" by code_simp
    show ?thesis
    proof (cases "k < 400")
      case True
      then have "k mod 32 < 16" using k by linarith
      then have "bit (0xFFC0 :: u32) (k mod 32) = (6 \<le> k mod 32)" using bits by simp
      moreover have "6 \<le> k mod 32 \<longleftrightarrow> 390 \<le> k" using k by linarith
      ultimately show ?thesis
        using True w \<open>k div 32 = 12\<close> by (simp add: free_set_def demo_super bitvector_test_bit)
    qed (simp add: free_set_def demo_super)
  next
    case False
    then have "\<not> (390 \<le> k \<and> k < 400)"
      using div_le_mono [of 390 k 32] div_le_mono [of k 399 32] by auto
    then show ?thesis using False w by (auto simp: free_set_def demo_super bitvector_test_bit)
  qed
qed

lemma demo_alloc_ok: "alloc_ok demo_disk"
  by (simp add: alloc_ok_def demo_lay demo_free demo_super)


text \<open>The empty file of inode 1, the file of 266 blocks of inode 2.\<close>

lemma demo_empty: "wf_file demo_disk 3136" "nblk demo_disk 3136 = 0" "used demo_disk 3136 = {}"
proof -
  have f: "oi_size demo_disk 3136 = 0" "oi_ftype demo_disk 3136 = 0" "oi_indirect demo_disk 3136 = 0"
    "oi_indirect2 demo_disk 3136 = 0"
    by (simp_all add: inode_fields get32_demo demo_cells_def)
  show n: "nblk demo_disk 3136 = 0" by (simp add: nblk_word f)
  then have "all_blocks demo_disk 3136 = []" by (simp add: all_blocks_def file_blocks_def)
  then show "wf_file demo_disk 3136" "used demo_disk 3136 = {}"
    by (simp_all add: wf_file_def f n inode_at_def demo_super used_def)
qed

lemma demo_266_fblk: "i < 266 \<Longrightarrow> fblk demo_disk 3200 i = of_nat (if i < 10 then 10 + i else 11 + i)"
proof -
  assume i: "i < 266"
  have ind: "oi_indirect demo_disk 3200 = 20" by (simp add: inode_fields get32_demo demo_cells_def)
  show ?thesis
  proof (cases "i < 10")
    case True
    have "(3216 + 4 * i) mod 4 = 0" "(3216 + 4 * i) div 4 = 804 + i" by presburger+
    with True show ?thesis by (simp add: fblk_def inode_fields get32_demo demo_cells_def)
  next
    case False
    have "(20480 + 4 * (i - 10)) mod 4 = 0" "(20480 + 4 * (i - 10)) div 4 = 5120 + (i - 10)" by presburger+
    with False i show ?thesis
      by (simp add: fblk_def ind block_entry_def ospfs_block_def get32_demo demo_cells_def)
  qed
qed

lemma demo_266: "wf_file demo_disk 3200" "nblk demo_disk 3200 = 266"
proof -
  have f: "oi_size demo_disk 3200 = 272384" "oi_ftype demo_disk 3200 = 0" "oi_indirect demo_disk 3200 = 20"
    "oi_indirect2 demo_disk 3200 = 0"
    by (simp_all add: inode_fields get32_demo demo_cells_def)
  show n: "nblk demo_disk 3200 = 266" by (simp add: nblk_word f)
  let ?g = "\<lambda>i. if i < 10 then 10 + i else 11 + i :: nat"
  have u: "unat (of_nat (?g i) :: u32) = ?g i" if "i < 266" for i
    using that by (simp add: unat_of_nat take_bit_nat_eq_self_iff)
  have fb: "file_blocks demo_disk 3200 = map (of_nat \<circ> ?g) [0..<266]"
    unfolding file_blocks_def n using demo_266_fblk by (intro map_cong) auto
  have all: "all_blocks demo_disk 3200 = map (of_nat \<circ> ?g) [0..<266] @ [20]"
    unfolding all_blocks_def n fb f by simp
  have "inj_on (of_nat \<circ> ?g :: nat \<Rightarrow> u32) (set [0..<266])"
  proof (rule inj_onI)
    fix i j assume ij: "i \<in> set [0..<266]" "j \<in> set [0..<266]"
      and eq: "(of_nat \<circ> ?g) i = ((of_nat \<circ> ?g) j :: u32)"
    have "?g i = ?g j" using arg_cong [OF eq, of unat] u [of i] u [of j] ij by simp
    then show "i = j" by (simp split: if_splits)
  qed
  moreover have "(20 :: u32) \<notin> set (map (of_nat \<circ> ?g) [0..<266])"
  proof
    assume "(20 :: u32) \<in> set (map (of_nat \<circ> ?g) [0..<266])"
    then obtain i where i: "i < 266" "(20 :: u32) = of_nat (?g i)" by auto
    have "20 = ?g i" using arg_cong [OF i(2), of unat] u [OF i(1)] by simp
    then show False by (simp split: if_splits)
  qed
  ultimately have "distinct (all_blocks demo_disk 3200)" unfolding all by (simp add: distinct_map)
  moreover have "own_blk demo_disk (of_nat (?g i))" if "i < 266" for i
    using u [OF that] that by (simp add: own_blk_def demo_data_blk demo_free demo_super split: if_splits)
  moreover have "own_blk demo_disk 20" by (simp add: own_blk_def demo_data_blk demo_free demo_super)
  ultimately show "wf_file demo_disk 3200"
    unfolding wf_file_def all by (simp add: f n inode_at_def demo_super)
qed

text \<open>The doubly-indirect file of inode 3.\<close>

lemma demo_523:
  "inode_at demo_disk 3264" "oi_indirect demo_disk 3264 = 300" "oi_indirect2 demo_disk 3264 = 301"
  "nblk demo_disk 3264 = 523" "block_entry demo_disk 301 1 = 302" "block_entry demo_disk 302 0 = 303"
  by (simp_all add: inode_at_def demo_super inode_fields get32_demo demo_cells_def nblk_word
      block_entry_def ospfs_block_def)

end
