(* ===== verification/Ospfs_Resize.thy ===== *)
theory Ospfs_Resize
  imports Ospfs_Demo
begin

text \<open>
  What \<open>add_block\<close>, \<open>remove_block\<close> and \<open>change_size\<close> (File_System/ospfsmod.c) achieve, and where
  they fail: the properties of file growth, each with an instance on the small disk.
\<close>

section \<open>Correctness of growing and shrinking\<close>

text \<open>
  The guard of \<open>free_block\<close> is one block too high when the inodes fill their blocks exactly: the
  first data block can be allocated but never freed.  With any other number of inodes the guard is
  the last inode block, and no block is lost.
\<close>

lemma first_data_block_never_freed:
  "lay m \<Longrightarrow> unat (os_ninodes m) mod 16 = 0 \<Longrightarrow> unat b = first_data m \<Longrightarrow> free_block m b = m"
proof -
  have "(n + 15) div 16 = n div 16" if "n mod 16 = 0" for n :: nat
    using that by (auto simp: mod_eq_0_iff_dvd elim!: dvdE)
  then show "lay m \<Longrightarrow> unat (os_ninodes m) mod 16 = 0 \<Longrightarrow> unat b = first_data m \<Longrightarrow> free_block m b = m"
    by (simp add: free_block_eq guard_def first_data_def)
qed

lemma guard_not_pooled:
  assumes "alloc_ok m" "wf_file m p" "unat (os_ninodes m) mod 16 \<noteq> 0"
  shows "guard m \<notin> pool m p"
  using assms guard_below [OF assms(3)]
  by (fastforce simp: pool_def alloc_ok_def used_def wf_file_def own_blk_def data_blk_def)

text \<open>
  C1 Resizing a file to at most 266 blocks when the file's own blocks and the free blocks
  suffice: \<open>change_size\<close> returns success, sets the size, keeps the file well formed, keeps
  every block that both sizes have, in place and (by the frame) unmodified, gives zeroed
  blocks for the growth, and touches nothing outside the free map, the inode, free blocks and the
  indirect block.  The blocks of the file and the free blocks are together the same as before,
  except that a released block with the number \<open>guard\<close> is lost: \<open>free_block\<close> refuses it.  That is
  the first data block of a disk whose number of inodes is a multiple of 16, and no block of the
  file on any other disk (\<open>guard_not_pooled\<close>).
\<close>

theorem change_size_correct:
  assumes "alloc_ok m" "wf_file m p" "unat (ospfs_size2nblocks t) \<le> 266"
    "blocks_needed (unat (ospfs_size2nblocks t)) \<le> card (pool m p)"
  shows "\<exists>m'. change_size m p t = Some (m', Inr ()) \<and> oi_size m' p = t \<and> wf_file m' p \<and> alloc_ok m'
    \<and> take (nblk m p) (file_blocks m' p) = take (nblk m' p) (file_blocks m p)
    \<and> (\<forall>b\<in>set (drop (nblk m p) (file_blocks m' p)). zeroed m' b)
    \<and> pool m' p = pool m p - ({guard m} \<inter> (used m p - used m' p))
    \<and> frame m m' p (free_set m \<union> own_ptrs m p)"
proof -
  from assms obtain m' where m': "change_size m p t = Some (m', Inr ())" "alloc_ok m'" "wf_file m' p"
    "oi_size m' p = t" "pool m' p = pool m p - ({guard m} \<inter> (used m p - used m' p))"
    "frame m m' p (free_set m \<union> own_ptrs m p)"
    "\<And>i. i < nblk m p \<Longrightarrow> i < nblk m' p \<Longrightarrow> file_blocks m' p ! i = file_blocks m p ! i"
    "\<And>i. nblk m p \<le> i \<Longrightarrow> i < nblk m' p \<Longrightarrow> zeroed m' (file_blocks m' p ! i)"
    by (rule change_size_spec) blast
  have "take (nblk m p) (file_blocks m' p) = take (nblk m' p) (file_blocks m p)"
    using m'(7) by (intro nth_equalityI) auto
  moreover have "\<forall>b\<in>set (drop (nblk m p) (file_blocks m' p)). zeroed m' b"
    using m'(8) by (auto simp: in_set_conv_nth)
  ultimately show ?thesis using m'(1-6) by blast
qed

theorem change_size_correct_witness:
  "\<exists>m'. change_size demo_disk 3136 2048 = Some (m', Inr ()) \<and> oi_size m' 3136 = 2048"
proof -
  have t: "unat (ospfs_size2nblocks 2048) = 2" by (simp add: ospfs_size2nblocks_def)
  have "card (pool demo_disk 3136) = 10" by (simp add: pool_def demo_free demo_empty)
  then show ?thesis
    using change_size_correct [OF demo_alloc_ok demo_empty(1), of 2048] t
    by (auto simp: blocks_needed_def)
qed

text \<open>
  C20 A growth to at most 266 blocks that the free blocks and the file's own cannot hold never
  returns: \<open>change_size\<close> undoes the partial growth on \<open>-ENOSPC\<close> and then runs the same loop again,
  forever, instead of reporting the error its comment promises.  (Beyond 266 blocks \<open>add_block\<close>
  itself goes wrong, see \<open>add_block_267_loses_block_10\<close>.)
\<close>

theorem change_size_full_disk:
  assumes "alloc_ok m" "wf_file m p" "nblk m p < unat (ospfs_size2nblocks t)"
    "unat (ospfs_size2nblocks t) \<le> 266"
    "card (pool m p) < blocks_needed (unat (ospfs_size2nblocks t))"
  shows "change_size m p t = None"
proof -
  have "stuck m p (oi_size m p) t" using assms by (simp add: stuck_def nblk_def)
  then show ?thesis by (simp add: change_size_def grow_to_stuck)
qed

theorem change_size_full_disk_witness: "change_size demo_disk 3136 20480 = None"
proof -
  have "unat (ospfs_size2nblocks 20480) = 20" by (simp add: ospfs_size2nblocks_def)
  moreover have "card (pool demo_disk 3136) = 10" by (simp add: pool_def demo_free demo_empty)
  ultimately show ?thesis
    by (intro change_size_full_disk [OF demo_alloc_ok demo_empty(1)])
       (simp_all add: demo_empty blocks_needed_def)
qed

text \<open>
  C15 \<open>add_block\<close> on a file below 266 blocks either appends one zeroed block taken from the
  free map, or returns \<open>-ENOSPC\<close> for want of free blocks and leaves every file and every allocated
  block as it was (\<open>unchanged_files\<close>).  The free map is the same then too, except in one case: when
  the only free block is the one \<open>free_block\<close> refuses, the roll-back leaves it allocated.
\<close>

theorem add_block_correct:
  assumes "alloc_ok m" "wf_file m p" "nblk m p < 266"
  shows "case add_block m p of
      (m', Inr _) \<Rightarrow> \<exists>b. grown m m' p b
    | (m', Inl e) \<Rightarrow> e = ENOSPC \<and> unchanged_files m m'
        \<and> (free_set m' = free_set m \<or> free_set m = {guard m} \<and> free_set m' = {})
        \<and> card (free_set m) + blocks_needed (nblk m p) < blocks_needed (Suc (nblk m p))"
  using assms
proof (cases rule: add_block_cases)
  case (nospace m')
  have "card (free_set m) \<le> 1" using nospace(3) by (simp add: blocks_needed_def split: if_splits)
  then have "x = guard m" if "guard m \<in> free_set m" "x \<in> free_set m" for x
    using that by (auto simp: card_le_Suc0_iff_eq)
  then have "free_set m' = free_set m \<or> free_set m = {guard m} \<and> free_set m' = {}"
    using unchanged_files_keep [OF assms(1,2) nospace(2)] by blast
  with nospace show ?thesis by simp
qed auto

theorem add_block_correct_witness:
  "\<exists>m' b. add_block demo_disk 3136 = (m', Inr ()) \<and> grown demo_disk m' 3136 b"
  using add_block_correct [OF demo_alloc_ok demo_empty(1)]
  by (auto simp: demo_empty demo_free blocks_needed_def split: prod.splits sum.splits)

text \<open>
  C21 On a file below 266 blocks \<open>remove_block\<close> undoes \<open>add_block\<close>: the file has its old blocks and
  size again and the free map is the old one, except that the block \<open>free_block\<close> refuses stays
  allocated when \<open>add_block\<close> took it.
\<close>

theorem add_remove_block:
  assumes "alloc_ok m" "wf_file m p" "nblk m p < 266" "add_block m p = (m1, Inr ())"
  shows "\<exists>m2. remove_block m1 p = (m2, Inr ()) \<and> file_blocks m2 p = file_blocks m p
    \<and> oi_size m2 p = oi_size m p \<and> wf_file m2 p
    \<and> free_set m2 = free_set m - ({guard m} \<inter> used m1 p)"
proof -
  obtain b where b: "grown m m1 p b"
    using assms(1-3) by (cases rule: add_block_cases) (use assms(4) in auto)
  then have g: "alloc_ok m1" "wf_file m1 p" "file_blocks m1 p = file_blocks m p @ [b]"
    "oi_size m1 p = oi_size m p + 1024" "pool m1 p = pool m p" "free_set m1 \<subseteq> free_set m"
    "unat b \<in> free_set m" "super m1 = super m"
    unfolding grown_def pool_def by blast+
  have "0 < nblk m1 p" using arg_cong [OF g(3), of length] by simp
  from g(1,2) this obtain m2 where m2: "remove_block m1 p = (m2, Inr ())" "shrunk m1 m2 p"
    by (rule remove_block_ok)
  then have s: "wf_file m2 p" "file_blocks m2 p = file_blocks m p" "oi_size m2 p = oi_size m p"
    "used m2 p \<subseteq> used m1 p" "free_set m2 = free_set m1 \<union> (used m1 p - used m2 p - {guard m1})"
    "own_ptrs m2 p \<subseteq> own_ptrs m1 p"
    using g(3,4) unfolding shrunk_def by simp_all
  have grow: "used m p \<subseteq> used m1 p" by (rule used_grows [OF assms(2) g(5,6)])
  have n: "nblk m2 p = nblk m p" "nblk m1 p = Suc (nblk m p)"
    using arg_cong [OF s(2), of length] arg_cong [OF g(3), of length] by simp_all
  have "own_ptrs m2 p = own_ptrs m p"
  proof (cases "10 < nblk m p")
    case True
    have "own_ptrs m p \<inter> free_set m = {}"
      using own_ptrs_used [of m p] free_used_disjoint [OF assms(2)] by blast
    moreover have "own_ptrs m p \<inter> unat ` set (file_blocks m p) = {}"
      using file_block_owned(3) [OF assms(2)] by blast
    moreover have "own_ptrs m p \<subseteq> insert (unat b) (unat ` set (file_blocks m p)) \<union> own_ptrs m1 p"
      using own_ptrs_used [of m p] grow used_split [of m1 p] unfolding g(3) by auto
    ultimately have "own_ptrs m p \<subseteq> own_ptrs m1 p" using g(7) by blast
    with s(6) show ?thesis using True n by (simp add: own_ptrs_def)
  qed (simp add: own_ptrs_def n)
  then have "used m2 p = used m p" by (simp add: used_split s(2))
  then have "free_set m2 = free_set m - ({guard m} \<inter> used m1 p)"
    using s(5) g(5,6) free_used_disjoint [OF assms(2)] free_used_disjoint [OF g(2)] grow
    unfolding pool_def super_eq(8) [OF g(8)] by blast
  with m2(1) s show ?thesis by blast
qed

theorem add_remove_block_witness:
  "\<exists>m1 m2. add_block demo_disk 3136 = (m1, Inr ()) \<and> remove_block m1 3136 = (m2, Inr ())
    \<and> free_set m2 = {390..<400}"
proof -
  have "{390..<400} - {4} \<inter> X = {390..<400 :: nat}" for X by auto
  moreover have "nblk demo_disk 3136 < 266" by (simp add: demo_empty)
  with demo_alloc_ok demo_empty(1) obtain m1 b where a: "add_block demo_disk 3136 = (m1, Inr ())"
    by (cases rule: add_block_cases) (auto simp: demo_empty demo_free blocks_needed_def)
  ultimately show ?thesis
    using add_remove_block [OF demo_alloc_ok demo_empty(1) _ a] a
    by (auto simp: demo_empty demo_free guard_def demo_super)
qed

text \<open>
  The 267th block: \<open>add_block\<close> takes the singly-indirect branch for the first 256 doubly
  indirect blocks too (\<open>indir_index(n) == 0\<close>), so the new block replaces entry 0 of the
  singly-indirect block: block 10 of the file is lost, and the doubly-indirect pointer the
  read path follows for block 266 is still null.
\<close>

theorem add_block_267_loses_block_10:
  assumes "alloc_ok m" "wf_file m p" "nblk m p = 266" "free_set m \<noteq> {}"
  shows "\<exists>m' b. add_block m p = (m', Inr ()) \<and> nblk m' p = 267 \<and> unat b \<in> free_set m
    \<and> fblk m' p 10 = b \<and> fblk m p 10 \<noteq> b \<and> oi_indirect2 m' p = 0"
  using assms(1)
proof (cases rule: allocate_block_cases)
  case full
  with assms(4) show ?thesis by simp
next
  case (got b)
  let ?d = "oi_indirect m p"
  let ?w = "ospfs_size2nblocks (oi_size m p)"
  let ?m2 = "zero_block (bitvector_clear m 2048 (unat b)) b"
  let ?m' = "set_size (set_block_entry ?m2 ?d 0 b) p (oi_size m p + 1024)"
  have lay: "lay m" and at: "inode_at m p" and i2: "oi_indirect2 m p = 0"
    using assms by (auto simp: alloc_ok_def wf_file_def)
  have d: "own_blk m ?d" using assms(2,3) by (simp add: wf_file_def all_blocks_def)
  then have N: "data_blk m ?d" "unat b < unat (os_nblocks m)" "?d \<noteq> b" "?d \<noteq> 0"
    using got(3,4) data_blk_nonzero [OF lay] by (auto simp: own_blk_def data_blk_def)
  note [simp] = fview lay at N got(4)
  have w: "?w = 266" using assms(3) by (simp add: nblk_def word_unat_eq_iff)
  have ix: "indir_index ?w = 0" "nat (direct_index ?w) = 0"
    by (simp_all add: w indir_index_def direct_index_def)
  have "oi_indirect ?m2 p = ?d" "oi_size (set_block_entry ?m2 ?d 0 b) p = oi_size m p" by simp_all
  then have run: "add_block m p = (?m', Inr ())"
    using ix got(1,2) by (simp add: add_block_def add_block_indirect_def)
  have "nblk ?m' p = 267" using size_step_gen [of m p] assms(3) by (simp add: nblk_def)
  moreover have "fblk ?m' p 10 = b" by (simp add: fblk_def)
  moreover have "fblk m p 10 \<in> set (file_blocks m p)" using assms(3) by (simp add: file_blocks_def)
  then have "unat (fblk m p 10) \<notin> free_set m" using file_block_owned(2) [OF assms(2)] by blast
  then have "fblk m p 10 \<noteq> b" using got(3) by metis
  moreover have "oi_indirect2 ?m' p = 0" using i2 by simp
  ultimately show ?thesis using run got(3) by blast
qed

theorem add_block_267_loses_block_10_witness:
  "\<exists>m' b. add_block demo_disk 3200 = (m', Inr ()) \<and> fblk m' 3200 10 = b \<and> fblk demo_disk 3200 10 \<noteq> b"
  using add_block_267_loses_block_10 [OF demo_alloc_ok demo_266] by (auto simp: demo_free)

text \<open>
  Emptying the first entry of a doubly-indirect group: instead of the emptied indirect
  block, \<open>remove_block\<close> releases and unlinks the file's singly-indirect block, so the pointers
  to blocks 10 to 265 are gone, while the emptied block stays linked.
\<close>

theorem remove_block_indirect2_drops_indirect:
  assumes "lay m" "inode_at m p" "data_blk m (oi_indirect2 m p)"
    "nblk m p = 523 + 256 * j" "j < 255"
    "data_blk m (block_entry m (oi_indirect2 m p) (Suc j))"
    "block_entry m (oi_indirect2 m p) (Suc j) \<noteq> oi_indirect2 m p"
    "data_blk m (block_entry m (block_entry m (oi_indirect2 m p) (Suc j)) 0)"
    "data_blk m (oi_indirect m p)"
  shows "\<exists>m'. remove_block m p = (m', Inr ()) \<and> oi_indirect m' p = 0
    \<and> block_entry m' (oi_indirect2 m' p) (Suc j) = block_entry m (oi_indirect2 m p) (Suc j)"
proof -
  let ?w = "ospfs_size2nblocks (oi_size m p)"
  have w1: "unat ?w = 523 + 256 * j" using assms(4) by (simp add: nblk_def)
  then have w0: "?w \<noteq> 0" by auto
  have w2: "unat (?w - 1) = 522 + 256 * j" using w1 w0 by (simp add: unat_minus_one)
  have br: "\<not> ?w - 1 < 10" "\<not> ?w - 1 < 266" "?w - 1 < 65802"
    using w2 assms(5) by (simp_all add: word_less_nat_alt)
  have ge: "266 \<le> ?w - 1" "10 \<le> ?w - 1" using w2 by (simp_all add: word_le_nat_alt)
  have "unat (?w - 1 - 266) = 256 + 256 * j"
    using w2 ge(1) by (subst unat_sub) (simp_all)
  moreover have "unat (?w - 1 - 10) = 512 + 256 * j"
    using w2 ge(2) by (subst unat_sub) (simp_all)
  moreover have "?w - 1 - 10 - 256 = ?w - 1 - 266" by simp
  ultimately have div: "unat ((?w - 1 - 10 - 256) div 256) = Suc j" 
      "unat ((?w - 1 - 10) mod 256) = 0"
    by (simp_all only: unat_div unat_mod) (simp_all add: div_eq_dividend_iff)
  have ix: "indir_index (?w - 1) = int (Suc j)" "direct_index (?w - 1) = 0"
    using br div assms(5) by (simp_all add: indir_index_def direct_index_def sint_small)
  define i2 where "i2 = oi_indirect2 m p"
  define e where "e = block_entry m i2 (Suc j)"
  define x where "x = block_entry m e 0"
  define d where "d = oi_indirect m p"
  have N: "data_blk m i2" "data_blk m e" "data_blk m x" "data_blk m d" "e \<noteq> i2"
    using assms(3,6-9) by (simp_all add: i2_def e_def x_def d_def)
  then have nz: "i2 \<noteq> 0" "e \<noteq> 0" "x \<noteq> 0" using data_blk_nonzero [OF assms(1)] by auto
  let ?m1 = "free_block m x"
  let ?m2 = "set_block_entry ?m1 e 0 0"
  let ?m3 = "set_indirect (free_block ?m2 d) p 0"
  note [simp] = fview assms(1,2) N assms(5)
  have m2: "oi_indirect ?m2 p = d" by (simp add: d_def)
  have "remove_block_indirect2 m p (?w - 1) = (?m3, Inr ())"
    using nz
    by (simp add: remove_block_indirect2_def Let_def ix nat_add_distrib i2_def [symmetric]
        e_def [symmetric] x_def [symmetric] m2)
  then have "remove_block m p = (set_size ?m3 p (oi_size ?m3 p - 1024), Inr ())"
    using br w0 by (simp add: remove_block_def Let_def del: fields_set_indirect fview)
  moreover have "oi_indirect (set_size ?m3 p v) p = 0" "oi_indirect2 (set_size ?m3 p v) p = i2"
      "block_entry (set_size ?m3 p v) i2 (Suc j) = e" for v
    using \<open>e \<noteq> i2\<close> by (simp_all add: i2_def [symmetric] e_def [symmetric])
  ultimately show ?thesis
    unfolding i2_def [symmetric] e_def [symmetric] by metis
qed

theorem remove_block_indirect2_drops_indirect_witness:
  "\<exists>m'. remove_block demo_disk 3264 = (m', Inr ()) \<and> oi_indirect m' 3264 = 0"
  using remove_block_indirect2_drops_indirect [of demo_disk 3264 0]
  by (auto simp: demo_lay demo_523 demo_523(5) [simplified] demo_data_blk)

end
