(* ===== verification/Ospfs_Rw.thy ===== *)
theory Ospfs_Rw
  imports Ospfs_File Ospfs_Demo
begin

text \<open>
  The properties of reading and writing (File_System/ospfsmod.c): both refine operations on
  the byte contents of the file, with an instance of each on the small disk.
\<close>

section \<open>The file operations\<close>

lemma demo_size: "oi_size demo_disk 3136 = 0" "oi_size demo_disk 3200 = 272384"
  by (simp_all add: inode_fields get32_demo demo_cells_def)

lemma demo_readable: "readable demo_disk 3136" "readable demo_disk 3200"
  using demo_empty demo_266 demo_lay by (simp_all add: readable_def demo_size)



text \<open>
  C3 Reading a well-formed file of at most 266 blocks (\<open>readable\<close>) from a position from 0 to its size,
  when \<open>copy_to_user\<close> succeeds (\<open>copy_all\<close>), returns exactly the bytes the file holds at the
  position, as many as asked for or left, and moves the position past them.
\<close>

theorem ospfs_read_correct:
  assumes "readable m p" "0 \<le> f" "f \<le> uint (oi_size m p)"
    "bs = take (unat count) (drop (nat f) (file_data m p))"
  shows "ospfs_read copy_all m p um buf count f
    = (mem_write um buf bs, f + int (length bs), Inr (of_nat (length bs)))"
proof -
  let ?s = "unat (oi_size m p)"
  define c where "c = (if f + uint count > uint (oi_size m p)
    then of_int (uint (oi_size m p) - f) else count)"
  have si: "uint (oi_size m p) = int ?s" by simp
  have fs: "nat f \<le> ?s" using assms(2,3) unfolding si by linarith
  have len: "length bs = min (unat count) (?s - nat f)" using assms(4) by simp
  have uc: "unat c = length bs"
  proof (cases "f + uint count > uint (oi_size m p)")
    case True
    have "unat (of_int (uint (oi_size m p) - f) :: u32) = nat (uint (oi_size m p) - f)"
    proof (cases "f = 0")
      case True
      then show ?thesis by simp
    next
      case False
      with assms(2,3) show ?thesis
        by (intro unat_of_pos [where s = "oi_size m p"]) (simp_all add: nat_less_iff)
    qed
    also have "\<dots> = ?s - nat f" unfolding si using assms(2) fs by linarith
    finally have "unat c = ?s - nat f" using True by (simp add: c_def)
    moreover have "?s < nat f + unat count"
    proof -
      have "int ?s < f + int (unat count)" using True by simp
      then show ?thesis using assms(2) by linarith
    qed
    ultimately show ?thesis unfolding len by simp
  next
    case False
    then have "f + int (unat count) \<le> int ?s" by simp
    then have "nat f + unat count \<le> ?s" using assms(2) by linarith
    then show ?thesis using False unfolding len by (simp add: c_def)
  qed
  have "nat f + (unat c - unat (0 :: u32)) \<le> ?s" unfolding uc len using fs by simp
  from read_loop_copy_all [OF assms(1,2) _ this, of um buf]
  have "read_loop copy_all m p c um buf 0 f
    = (mem_write um buf (take (length bs) (drop (nat f) (file_data m p))), f + int (length bs), Inr c)"
    using uc by simp
  moreover have "take (length bs) (drop (nat f) (file_data m p)) = bs"
    unfolding assms(4) by (simp add: min_def)
  moreover have "c = of_nat (length bs)" by (simp add: uc [symmetric])
  ultimately show ?thesis unfolding ospfs_read_def Let_def c_def [symmetric] by simp
qed

theorem ospfs_read_correct_witness:
  "ospfs_read copy_all demo_disk 3200 (\<lambda>_. 1) 0 4 0
    = (mem_write (\<lambda>_. 1) 0 (take 4 (file_data demo_disk 3200)), 4, Inr 4)"
  using ospfs_read_correct [OF demo_readable(2), of 0 _ 4 "\<lambda>_. 1" 0] by (simp add: demo_size)

text \<open>
  Reading from a position past the end of the file fails with \<open>-EIO\<close> instead of returning
  0: the remaining count is computed as an unsigned difference and wraps.
\<close>

theorem ospfs_read_past_end:
  assumes "uint (oi_size m p) < f" "f < 2 ^ 32"
  shows "ospfs_read ctu m p um buf count f = (um, f, Inl EIO)"
proof -
  let ?c = "of_int (uint (oi_size m p) - f) :: u32"
  have f0: "0 < f" using assms(1) uint_ge_0 [of "oi_size m p"] by linarith
  have gt: "uint (oi_size m p) < f + uint count" using assms(1) uint_ge_0 [of count] by linarith
  have uf: "uint (of_int f :: u32) = f" using assms(2) f0 by (simp add: uint_word_of_int_eq take_bit_int_eq_self)
  have "oi_size m p \<noteq> of_int f" using uf assms(1) by auto
  then have c0: "0 < ?c" by (simp add: word_gt_0)
  from uf have "uint (of_int f :: u32) = f" .
  then have "oi_size m p \<le> of_int f" using assms(1) by (simp add: word_le_def)
  then have "ospfs_inode_blockno m p (of_int f) = 0" by (simp add: ospfs_inode_blockno_def)
  then have "read_loop ctu m p ?c um buf 0 f = (um, f, Inl EIO)"
    using c0 by (subst read_loop.simps) simp
  then show ?thesis using gt by (simp add: ospfs_read_def)
qed

theorem ospfs_read_past_end_witness:
  "ospfs_read copy_all demo_disk 3136 (\<lambda>_. 0) 0 4 5 = ((\<lambda>_. 0), 5, Inl EIO)"
  by (rule ospfs_read_past_end) (simp_all add: demo_size)





text \<open>
  The crash simulation: with the counter at \<open>k \<ge> 0\<close>, a sequence of writes has the effect on the
  disk of its first \<open>k\<close> writes.
\<close>

record write_op =
  w_append :: bool
  w_oi :: nat
  w_buffer :: nat
  w_count :: u32
  w_pos :: int

fun run_writes :: "copy_in \<Rightarrow> mem \<Rightarrow> ospfs \<Rightarrow> write_op list \<Rightarrow> ospfs option" where
  "run_writes cfu um s [] = Some s"
| "run_writes cfu um s (w # ws) =
     Option.bind (ospfs_write cfu um (w_append w) s (w_oi w) (w_buffer w) (w_count w) (w_pos w))
       (\<lambda>(s', _). run_writes cfu um s' ws)"

lemma ospfs_write_tick:
  "ospfs_write cfu um ap s oi buf c f = Some (s', r) \<Longrightarrow>
    nwrites_to_crash s' = crash_tick (nwrites_to_crash s)"
  by (auto simp: ospfs_write_def Let_def crash_tick_def bind_eq_Some_conv
      split: if_splits prod.splits)

text \<open>
  C22 Once \<open>k\<close> writes have gone through after the counter was set to \<open>k\<close>, the disk no longer
  changes: a run of any writes from there leaves the disk of the first \<open>k\<close>.
\<close>

theorem crash_keeps_prefix:
  assumes "nwrites_to_crash s = int k"
  shows "map_option data (run_writes cfu um s ws) = map_option data (run_writes cfu um s (take k ws))"
  using assms
proof (induction ws arbitrary: s k)
  case (Cons w ws)
  show ?case
  proof (cases k)
    case 0
    have stop: "run_writes cfu um s vs = Some s" for vs
      using Cons.prems 0 by (induction vs) (simp_all add: ospfs_write_def)
    then show ?thesis using 0 by (simp only: take_0 stop)
  next
    case (Suc j)
    show ?thesis
    proof (cases "ospfs_write cfu um (w_append w) s (w_oi w) (w_buffer w) (w_count w) (w_pos w)")
      case (Some r)
      obtain s' x where r: "r = (s', x)" by (cases r)
      have "nwrites_to_crash s' = int j"
        using ospfs_write_tick [OF Some [unfolded r]] Cons.prems Suc by (simp add: crash_tick_def)
      from Cons.IH [OF this] show ?thesis using Some r Suc by simp
    qed (use Suc in simp)
  qed
qed simp

theorem crash_keeps_prefix_witness:
  "\<forall>um m v w. map_option data (run_writes copy_from_all um \<lparr>data = m, nwrites_to_crash = 1\<rparr> [v, w])
    = map_option data (run_writes copy_from_all um \<lparr>data = m, nwrites_to_crash = 1\<rparr> [v])"
proof (intro allI)
  fix um m v w
  show "map_option data (run_writes copy_from_all um \<lparr>data = m, nwrites_to_crash = 1\<rparr> [v, w])
    = map_option data (run_writes copy_from_all um \<lparr>data = m, nwrites_to_crash = 1\<rparr> [v])"
    using crash_keeps_prefix [of "\<lparr>data = m, nwrites_to_crash = 1\<rparr>" 1 copy_from_all um "[v, w]"] by simp
qed

end
