(* ===== verification/Ospfs_Dirops.thy ===== *)
theory Ospfs_Dirops
  imports Ospfs_Dir Ospfs_Demo
begin

text \<open>
  What the directory operations of File_System/ospfsmod.c achieve: name lookup, listing,
  conditional symbolic links, and the missing terminator of hard links, each with an
  instance on a small directory.
\<close>

section \<open>Scanning\<close>

definition entry_off :: "nat \<Rightarrow> u32" where "entry_off k = of_nat (128 * k)"

definition dir_entry :: "mem \<Rightarrow> nat \<Rightarrow> nat \<Rightarrow> nat" where
  "dir_entry m dir_oi k = ospfs_inode_data m dir_oi (entry_off k)"

definition dir_entries :: "mem \<Rightarrow> nat \<Rightarrow> nat list" where
  "dir_entries m dir_oi = map (dir_entry m dir_oi) [0..<unat (oi_size m dir_oi) div 128]"

text \<open>A directory of whole entries whose live names are terminated somewhere.\<close>

definition wf_dir :: "mem \<Rightarrow> nat \<Rightarrow> bool" where
  "wf_dir m dir_oi \<longleftrightarrow> unat (oi_size m dir_oi) mod 128 = 0 \<and> unat (oi_size m dir_oi) < 2 ^ 31
     \<and> (\<forall>od\<in>set (dir_entries m dir_oi). od_ino m od \<noteq> 0 \<longrightarrow> strlen m (od_name od) \<noteq> None)"


lemma off_less:
  assumes "unat (s :: u32) mod 128 = 0" "unat s < 2 ^ 31" "k \<le> unat s div 128"
  shows "entry_off k < s \<longleftrightarrow> k < unat s div 128" "entry_off k + 128 = entry_off (Suc k)"
proof -
  have s: "unat s = 128 * (unat s div 128)" using assms(1) by (metis mult_div_mod_eq add_0_right)
  have "128 * k \<le> unat s" using assms(3) s by linarith
  then have "unat (of_nat (128 * k) :: u32) = 128 * k"
    using assms(2) by (simp only: unat_of_nat) (simp add: take_bit_nat_eq_self_iff)
  then show "entry_off k < s \<longleftrightarrow> k < unat s div 128"
    unfolding entry_off_def word_less_nat_alt using s by linarith
  show "entry_off k + 128 = entry_off (Suc k)" by (simp add: entry_off_def)
qed



text \<open>The callback that records every entry and never refuses one.\<close>

definition collect :: "(u8 list \<times> u32 \<times> dtype) list filldir" where
  "collect d name pos ino dt = (d @ [(name, ino, dt)], 0)"

definition listed :: "mem \<Rightarrow> nat \<Rightarrow> (u8 list \<times> u32 \<times> dtype) option" where
  "listed m od =
     (if od_ino m od = 0 then None
      else Some (mem_read m (od_name od) (the (strlen m (od_name od))), od_ino m od,
             the (readdir_type m (the (ospfs_inode m (od_ino m od))))))"

definition listable :: "mem \<Rightarrow> nat \<Rightarrow> bool" where
  "listable m d \<longleftrightarrow> wf_dir m d \<and> (\<forall>od\<in>set (dir_entries m d). od_ino m od \<noteq> 0 \<longrightarrow>
     (\<exists>oi. ospfs_inode m (od_ino m od) = Some oi \<and> readdir_type m oi \<noteq> None))"

lemma readdir_off:
  assumes "unat (s :: u32) mod 128 = 0" "unat s < 2 ^ 31" "k \<le> unat s div 128"
  shows "(of_nat (k + 2) :: u32) \<ge> 2" "((of_nat (k + 2) :: u32) - 2) * 128 = entry_off k"
    "entry_off k \<ge> s \<longleftrightarrow> k = unat s div 128" "(of_nat (k + 2) :: u32) + 1 = of_nat (Suc k + 2)"
proof -
  have "unat s div 128 < 16777216" using assms(2) by (simp add: div_less_iff_less_mult)
  then have "k + 2 < 2 ^ 32" using assms(3) by simp
  then have "unat (of_nat (k + 2) :: u32) = k + 2"
    by (simp only: unat_of_nat) (simp add: take_bit_nat_eq_self_iff)
  then show "(of_nat (k + 2) :: u32) \<ge> 2" unfolding word_le_nat_alt by simp
  show "((of_nat (k + 2) :: u32) - 2) * 128 = entry_off k" by (simp add: entry_off_def)
  show "entry_off k \<ge> s \<longleftrightarrow> k = unat s div 128"
    using off_less(1) [OF assms] assms(3) by (auto simp add: not_less [symmetric])
  show "(of_nat (k + 2) :: u32) + 1 = of_nat (Suc k + 2)" by simp
qed

lemma readdir_loop_collect:
  assumes li: "listable m d" and k: "k \<le> unat (oi_size m d) div 128"
  shows "readdir_loop collect m d acc (of_nat (k + 2)) 0
    = Some (acc @ List.map_filter (listed m) (map (dir_entry m d) [k..<unat (oi_size m d) div 128]),
        of_nat (unat (oi_size m d) div 128 + 2), Inr 1)"
  using k
proof (induction "unat (oi_size m d) div 128 - k" arbitrary: k acc)
  case 0
  have wf: "unat (oi_size m d) mod 128 = 0" "unat (oi_size m d) < 2 ^ 31"
    using li by (simp_all add: listable_def wf_dir_def)
  from 0 have ke: "k = unat (oi_size m d) div 128" by simp
  note ro = readdir_off [OF wf 0(2)]
  show ?case
    unfolding ke
    by (subst readdir_loop.simps)
       (simp only: ro [unfolded ke] simp_thms if_True order_refl upt_conv_Nil list.map
         List.map_filter_simps append_Nil2)
next
  case (Suc x)
  let ?s = "oi_size m d"
  have wf: "unat ?s mod 128 = 0" "unat ?s < 2 ^ 31"
    using li by (simp_all add: listable_def wf_dir_def)
  have lt: "k < unat ?s div 128" using Suc.hyps(2) by simp
  note ro = readdir_off [OF wf Suc.prems]
  have nge: "\<not> entry_off k \<ge> ?s" using ro(3) lt by simp
  let ?od = "dir_entry m d k"
  have mem: "?od \<in> set (dir_entries m d)" using lt by (simp add: dir_entries_def)
  have IH: "readdir_loop collect m d acc' (of_nat (Suc k + 2)) 0
    = Some (acc' @ List.map_filter (listed m) (map (dir_entry m d) [Suc k..<unat ?s div 128]),
        of_nat (unat ?s div 128 + 2), Inr 1)" for acc'
    by (rule Suc.hyps(1)) (use Suc.hyps(2) lt in linarith)+
  have list: "List.map_filter (listed m) (map (dir_entry m d) [k..<unat ?s div 128])
      = (case listed m ?od of None \<Rightarrow> [] | Some y \<Rightarrow> [y])
        @ List.map_filter (listed m) (map (dir_entry m d) [Suc k..<unat ?s div 128])"
    by (simp only: upt_conv_Cons [OF lt] list.map List.map_filter_simps)
       (simp split: option.split)
  show ?case
  proof (cases "od_ino m ?od = 0")
    case True
    have "readdir_loop collect m d acc (of_nat (k + 2)) 0
        = readdir_loop collect m d acc (of_nat (Suc k + 2)) 0"
      using True nge
      by (subst readdir_loop.simps) (simp only: ro simp_thms Let_def dir_entry_def if_True if_False order_refl)
    then show ?thesis using True unfolding list IH by (simp add: listed_def)
  next
    case False
    obtain oi n dt where e: "ospfs_inode m (od_ino m ?od) = Some oi" "readdir_type m oi = Some dt"
      "strlen m (od_name ?od) = Some n"
      using li mem False unfolding listable_def wf_dir_def by blast
    have "readdir_loop collect m d acc (of_nat (k + 2)) 0
        = readdir_loop collect m d (acc @ [(mem_read m (od_name ?od) n, od_ino m ?od, dt)]) (of_nat (Suc k + 2)) 0"
      using False nge e
      by (subst readdir_loop.simps)
         (simp only: ro simp_thms Let_def dir_entry_def if_True if_False order_refl option.case
           bind.bind_lunit collect_def prod.case)
    then show ?thesis using False e unfolding list IH by (simp add: listed_def)
  qed
qed

text \<open>
  C24 A directory listing from the start, whose callback never refuses an entry (\<open>collect\<close>), reports
  dot, dot-dot and then every live entry, in order, with its name, inode number and type, and ends
  with 1.  What happens on a refusal is \<open>readdir_skips_refused_entry\<close>.
\<close>

theorem readdir_lists_all:
  assumes "ospfs_inode m dir = Some d" "listable m d"
  shows "ospfs_dir_readdir collect m dir parent [] 0
    = Some ([([46], dir, DT_DIR), ([46, 46], parent, DT_DIR)]
        @ List.map_filter (listed m) (dir_entries m d),
        of_nat (unat (oi_size m d) div 128 + 2), Inr 1)"
  using readdir_loop_collect [OF assms(2), of 0] assms(1)
  by (simp add: ospfs_dir_readdir_def collect_def dir_entries_def)

text \<open>
  When the caller's buffer is full (\<open>filldir\<close> returns a negative value), the position is
  advanced past the entry that was refused, so the next call skips it: the entry is never
  reported, against the comment in the function.
\<close>

theorem readdir_skips_refused_entry:
  assumes "f_pos \<ge> 2" "(f_pos - 2) * 128 < oi_size m dir_oi"
    "od = ospfs_inode_data m dir_oi ((f_pos - 2) * 128)" "od_ino m od \<noteq> 0"
    "ospfs_inode m (od_ino m od) = Some oi" "readdir_type m oi = Some dt" "strlen m (od_name od) = Some n"
    "filldir d (mem_read m (od_name od) n) f_pos (od_ino m od) dt = (d', r)" "r < 0"
  shows "readdir_loop filldir m dir_oi d f_pos 0 = Some (d', f_pos + 1, Inr 0)"
proof -
  have "\<not> (f_pos - 2) * 128 \<ge> oi_size m dir_oi" using assms(2) by simp
  moreover have "readdir_loop filldir m dir_oi d' (f_pos + 1) r = Some (d', f_pos + 1, Inr 0)"
    using assms(9) by (subst readdir_loop.simps) simp
  ultimately show ?thesis
    using assms(1,4-8) unfolding assms(3) by (subst readdir_loop.simps) (simp add: Let_def)
qed

section \<open>Conditional symbolic links\<close>

text \<open>The C string \<open>s\<close> is stored at \<open>a\<close>.\<close>

definition cstring_at :: "mem \<Rightarrow> nat \<Rightarrow> u8 list \<Rightarrow> bool" where
  "cstring_at m a s \<longleftrightarrow> (\<forall>i<length s. m (a + i) = s ! i) \<and> m (a + length s) = 0 \<and> 0 \<notin> set s"

lemma strchr_hit:
  assumes "m (a + k) = c" "\<And>i. i < k \<Longrightarrow> m (a + i) \<noteq> c \<and> m (a + i) \<noteq> 0"
  shows "strchr m a c = Some (Some (a + k))"
  using assms
proof (induction k arbitrary: a)
  case 0
  then show ?case by (simp add: strchr.simps [of m a])
next
  case (Suc k)
  have "m a \<noteq> c" "m a \<noteq> 0" using Suc.prems(2) [of 0] by simp_all
  moreover have "strchr m (Suc a) c = Some (Some (Suc a + k))"
  proof (rule Suc.IH)
    show "m (Suc a + k) = c" using Suc.prems(1) by simp
    show "m (Suc a + i) \<noteq> c \<and> m (Suc a + i) \<noteq> 0" if "i < k" for i
      using Suc.prems(2) [of "Suc i"] that by simp
  qed
  ultimately show ?case by (simp add: strchr.simps [of m a])
qed

lemma strchr_miss:
  assumes "m (a + k) = 0" "c \<noteq> 0" "\<And>i. i < k \<Longrightarrow> m (a + i) \<noteq> c \<and> m (a + i) \<noteq> 0"
  shows "strchr m a c = Some None"
  using assms
proof (induction k arbitrary: a)
  case 0
  then show ?case by (simp add: strchr.simps [of m a])
next
  case (Suc k)
  have "m a \<noteq> c" "m a \<noteq> 0" using Suc.prems(3) [of 0] by simp_all
  moreover have "strchr m (Suc a) c = Some None"
  proof (rule Suc.IH)
    show "m (Suc a + k) = 0" using Suc.prems(1) by simp
    show "m (Suc a + i) \<noteq> c \<and> m (Suc a + i) \<noteq> 0" if "i < k" for i
      using Suc.prems(3) [of "Suc i"] that by simp
  qed (rule Suc.prems(2))
  ultimately show ?case by (simp add: strchr.simps [of m a])
qed

text \<open>The state of a conditional link after its first use: the colon is a null byte.\<close>

definition split_link :: "mem \<Rightarrow> nat \<Rightarrow> u8 list \<Rightarrow> u8 list \<Rightarrow> bool" where
  "split_link m oi a b \<longleftrightarrow> cstring_at m (oi + 12) (root_prefix @ a)
     \<and> cstring_at m (oi + 12 + 6 + length a) b"

lemma root_prefix_simps [simp]: "length root_prefix = 5" "0 \<notin> set root_prefix" "58 \<notin> set root_prefix"
  by (simp_all add: root_prefix_def)

lemma cstring_prefix_read:
  "cstring_at m a (xs @ ys) \<Longrightarrow> mem_read m a (length xs) = xs"
  by (rule nth_equalityI) (auto simp: cstring_at_def nth_append)

lemma cstring_bytes:
  "cstring_at m a s \<Longrightarrow> i < length s \<Longrightarrow> m (a + i) \<noteq> 0"
  "cstring_at m a s \<Longrightarrow> c \<notin> set s \<Longrightarrow> i < length s \<Longrightarrow> m (a + i) \<noteq> c"
  by (auto simp: cstring_at_def) (metis nth_mem)+

lemma follow_split_link:
  assumes sp: "split_link m oi a b" and col: "58 \<notin> set a"
  shows "ospfs_follow_link root m oi
    = Some (m, Some (if root then oi + 12 + 5 else oi + 12 + 6 + length a))"
proof -
  have c: "cstring_at m (oi + 12) (root_prefix @ a)" using sp by (simp add: split_link_def)
  have z: "m (oi + 12 + (5 + length a)) = 0" using c by (simp add: cstring_at_def)
  have nz: "i < 5 + length a \<Longrightarrow> m (oi + 12 + i) \<noteq> 58 \<and> m (oi + 12 + i) \<noteq> 0" for i
    using cstring_bytes [OF c] col by simp
  have 1: "strchr m (oi + 12) 58 = Some None" by (rule strchr_miss [of m _ "5 + length a"]) (use z nz in auto)
  have 2: "strchr m (oi + 12) 0 = Some (Some (oi + 12 + (5 + length a)))"
    by (rule strchr_hit [of m _ "5 + length a"]) (use z nz in auto)
  have "mem_read m (oi + 12) 5 = root_prefix" using cstring_prefix_read [OF c] by simp
  then show ?thesis by (simp add: ospfs_follow_link_def Let_def 1 2)
qed

lemma follow_fresh_link:
  assumes c: "cstring_at m (oi + 12) (root_prefix @ a @ 58 # b)" and col: "58 \<notin> set a"
  shows "\<exists>m'. split_link m' oi a b \<and> ospfs_follow_link root m oi
    = Some (m', Some (if root then oi + 12 + 5 else oi + 12 + 6 + length a))"
proof -
  let ?d = "oi + 12 + (5 + length a)"
  have at: "m (oi + 12 + i) = (root_prefix @ a @ 58 # b) ! i" if "i < 6 + length a + length b" for i
    using c that by (simp add: cstring_at_def)
  have d: "m ?d = 58" using at [of "5 + length a"] by (simp add: nth_append)
  have nz: "m (oi + 12 + i) \<noteq> 58 \<and> m (oi + 12 + i) \<noteq> 0" if "i < 5 + length a" for i
  proof -
    have "m (oi + 12 + i) = (root_prefix @ a) ! i"
    proof -
      have "i < 5 \<or> i - 5 < length a" using that by linarith
      then show ?thesis using at [of i] that by (auto simp: nth_append)
    qed
    moreover have "(root_prefix @ a) ! i \<in> set (root_prefix @ a)" using that by (intro nth_mem) simp
    moreover have "0 \<notin> set (root_prefix @ a)" using c by (simp add: cstring_at_def)
    ultimately show ?thesis using col by (metis Un_iff root_prefix_simps(3) set_append)
  qed
  have 1: "strchr m (oi + 12) 58 = Some (Some ?d)" by (rule strchr_hit [of m _ "5 + length a"]) (use d nz in auto)
  have "mem_read m (oi + 12) 5 = root_prefix" using cstring_prefix_read [OF c] by simp
  then have run: "ospfs_follow_link root m oi
      = Some (m(?d := 0), Some (if root then oi + 12 + 5 else oi + 12 + 6 + length a))"
    by (simp add: ospfs_follow_link_def Let_def 1)
  have "split_link (m(?d := 0)) oi a b"
    unfolding split_link_def cstring_at_def
  proof (intro conjI allI impI)
    fix i assume i: "i < length (root_prefix @ a)"
    then have "i < 5 \<or> i - 5 < length a" "i < 5 + length a" by auto
    then show "(m(?d := 0)) (oi + 12 + i) = (root_prefix @ a) ! i"
      using at [of i] by (auto simp: nth_append)
  next
    fix i assume "i < length b"
    then show "(m(?d := 0)) (oi + 12 + 6 + length a + i) = b ! i"
      using at [of "6 + length a + i"] by (simp add: nth_append add.assoc)
  next
    have "m (oi + 12 + (6 + length a + length b)) = 0" using c by (simp add: cstring_at_def)
    then show "(m(?d := 0)) (oi + 12 + 6 + length a + length b) = 0" by (simp add: add.assoc)
  qed (use c in \<open>simp_all add: cstring_at_def\<close>)
  with run show ?thesis by blast
qed

text \<open>
  C25 A link \<open>root?a:b\<close> leads root to \<open>a\<close> and everybody else to \<open>b\<close>, the first time (when its
  colon is overwritten on the disk) and every time after, whoever follows it.
\<close>

theorem follow_link_conditional:
  assumes "cstring_at m (oi + 12) (root_prefix @ a @ 58 # b)" "58 \<notin> set a"
  shows "\<exists>m' q q'. ospfs_follow_link root m oi = Some (m', Some q)
    \<and> cstring_at m' q (if root then a else b)
    \<and> ospfs_follow_link root' m' oi = Some (m', Some q')
    \<and> cstring_at m' q' (if root' then a else b)"
proof -
  obtain m' where m': "split_link m' oi a b" "ospfs_follow_link root m oi
    = Some (m', Some (if root then oi + 12 + 5 else oi + 12 + 6 + length a))"
    using follow_fresh_link [OF assms] by blast
  have "cstring_at m' (oi + 12 + 5) a"
    unfolding cstring_at_def
  proof (intro conjI allI impI)
    have c: "cstring_at m' (oi + 12) (root_prefix @ a)" using m'(1) by (simp add: split_link_def)
    fix i assume "i < length a"
    then show "m' (oi + 12 + 5 + i) = a ! i"
      using c unfolding cstring_at_def by (auto dest!: spec [of _ "5 + i"] simp: nth_append add.assoc)
  qed (use m'(1) in \<open>simp_all add: split_link_def cstring_at_def add.assoc\<close>)
  then have ends: "cstring_at m' (if r then oi + 12 + 5 else oi + 12 + 6 + length a) (if r then a else b)" for r
    using m'(1) by (simp add: split_link_def)
  show ?thesis
    using m'(2) ends follow_split_link [OF m'(1) assms(2)] by blast
qed

section \<open>Hard links\<close>



section \<open>A small directory\<close>

definition dir_cells :: "nat \<Rightarrow> u32" where
  "dir_cells k =
     (if k = 257 then 400 else if k = 258 then 16 else if k = 259 then 3
      else if k = 784 then 1024 else if k = 785 then 1 else if k = 786 then 1 else if k = 788 then 10
      else if k = 802 then 1
      else if k = 816 then 8 else if k = 817 then 2 else if k = 818 then 1
      else if k = 819 then 0x746f6f72 else if k = 820 then 0x623a613f
      else if k = 2561 then 0x00636261
      else if k = 2592 then 2 else if k = 2593 then 0x78
      else 0)"

definition dir_disk :: mem where "dir_disk = disk_of dir_cells"

lemma get32_dir: "a mod 4 = 0 \<Longrightarrow> get32 dir_disk a = dir_cells (a div 4)"
  by (simp add: dir_disk_def get32_disk_of)

lemma byte_dir: "dir_disk a = ucast (drop_bit (8 * (a mod 4)) (dir_cells (a div 4)))"
  by (simp add: dir_disk_def disk_of_def)

lemma dir_super: "os_nblocks dir_disk = 400" "os_ninodes dir_disk = 16" "os_firstinob dir_disk = 3"
  "first_data dir_disk = 4" "lay dir_disk"
  by (simp_all add: os_nblocks_def os_ninodes_def os_firstinob_def get32_dir dir_cells_def first_data_def lay_def)

lemma dir_inode: "ospfs_inode dir_disk 1 = Some 3136" "ospfs_inode dir_disk 2 = Some 3200"
  by (simp_all add: ospfs_inode_def dir_super ospfs_block_def word_le_nat_alt)

lemma dir_fields: "oi_size dir_disk 3136 = 1024" "oi_ftype dir_disk 3136 = 1" "oi_direct dir_disk 3136 0 = 10"
  "oi_ftype dir_disk 3200 = 0"
  by (simp_all add: inode_fields get32_dir dir_cells_def)

lemma dir_data: "off < 1024 \<Longrightarrow> ospfs_inode_data dir_disk 3136 off = 10240 + unat off"
proof -
  assume a: "off < 1024"
  have "off div 1024 = 0" "off mod 1024 = off" using a by (simp_all add: word_less_nat_alt word_unat_eq_iff unat_div unat_mod)
  then show ?thesis using a
    by (simp add: ospfs_inode_data_def ospfs_inode_blockno_def dir_fields ospfs_block_def)
qed

lemma dir_list: "dir_entries dir_disk 3136 = [10240, 10368, 10496, 10624, 10752, 10880, 11008, 11136]"
  by (simp add: dir_entries_def dir_entry_def entry_off_def dir_fields upt_rec dir_data)

lemma dir_inos: "od_ino dir_disk 10240 = 0" "od_ino dir_disk 10368 = 2" "od_ino dir_disk 10496 = 0"
  "od_ino dir_disk 10624 = 0" "od_ino dir_disk 10752 = 0" "od_ino dir_disk 10880 = 0"
  "od_ino dir_disk 11008 = 0" "od_ino dir_disk 11136 = 0"
  by (simp_all add: od_ino_def get32_dir dir_cells_def)

lemma dir_name: "strlen dir_disk 10372 = Some (Suc 0)" "mem_read dir_disk 10372 (Suc 0) = [0x78]"
  by (simp_all add: strlen_eq_Some_iff byte_dir dir_cells_def mem_read_def)

lemma dir_wf: "wf_dir dir_disk 3136" "listable dir_disk 3136"
  by (simp_all add: wf_dir_def listable_def dir_fields dir_list dir_inos od_name_def dir_name dir_inode readdir_type_def)

lemma cstring_atI:
  "mem_read m a (length s) = s \<Longrightarrow> m (a + length s) = 0 \<Longrightarrow> 0 \<notin> set s \<Longrightarrow> cstring_at m a s"
  unfolding cstring_at_def by (metis nth_mem_read)

lemma dir_link: "cstring_at dir_disk (3264 + 12) (root_prefix @ [0x61] @ 58 # [0x62])" "58 \<notin> set [0x61 :: u8]"
  by (rule cstring_atI) (simp_all add: root_prefix_def mem_read_def upt_rec byte_dir dir_cells_def)


theorem readdir_lists_all_witness:
  "ospfs_dir_readdir collect dir_disk 1 1 [] 0
    = Some ([([46], 1, DT_DIR), ([46, 46], 1, DT_DIR), ([0x78], 2, DT_REG)], 10, Inr 1)"
  using readdir_lists_all [OF dir_inode(1) dir_wf(2), of 1]
  by (simp add: dir_fields dir_list List.map_filter_simps listed_def dir_inos od_name_def dir_name dir_inode readdir_type_def)

theorem readdir_skips_refused_entry_witness:
  "readdir_loop (\<lambda>d _ _ _ _. (d, -1)) dir_disk 3136 (0 :: nat) 3 0 = Some (0, 4, Inr 0)"
  using readdir_skips_refused_entry [of 3 dir_disk 3136 10368 3200 DT_REG 1 "\<lambda>d _ _ _ _. (d, -1)" "0 :: nat" 0 "-1"]
  by (simp add: dir_fields dir_data dir_inos dir_inode readdir_type_def od_name_def dir_name)

theorem follow_link_conditional_witness:
  "\<exists>m' q. ospfs_follow_link False dir_disk 3264 = Some (m', Some q) \<and> cstring_at m' q [0x62]"
  using follow_link_conditional [OF dir_link, of False False] by auto


end
