(* ===== verification/Shell_Tokenizer.thy ===== *)
theory Shell_Tokenizer
  imports Prelude
begin

text \<open>
  The tokenizer of the shell (\<open>src/Shell_Interpreter/tokenizer.c\<close>): token types, the lexer's static
  variables as a record, and one definition per function, \<open>lexer_putchar\<close> split along the cases of
  its \<open>switch\<close>.  \<open>error (1, 0, ...)\<close> is an \<open>Inl\<close>.
\<close>

section \<open>Tokens\<close>

datatype token_type =
    TOK_IF | TOK_THEN | TOK_FI | TOK_ELSE | TOK_WHILE | TOK_UNTIL | TOK_DO | TOK_DONE
  | TOK_WORD | TOK_SC | TOK_PIPE | TOK_LPAREN | TOK_RPAREN | TOK_LAB | TOK_RAB | TOK_NL | TOK_COL

record token =
  type :: token_type
  offset :: nat
  tok_line :: nat

abbreviation NUL :: char where "NUL \<equiv> CHR 0x00"
abbreviation NL :: char where "NL \<equiv> CHR 0x0A"
abbreviation TAB :: char where "TAB \<equiv> CHR 0x09"

text \<open>The C string that starts at an offset of the token buffer.\<close>

definition cstr_at :: "string \<Rightarrow> nat \<Rightarrow> string" where
  "cstr_at buf off = takeWhile (\<lambda>c. c \<noteq> NUL) (drop off buf)"

definition TokAssociations :: "(string \<times> token_type) list" where
  "TokAssociations =
     [(''if'', TOK_IF), (''then'', TOK_THEN), (''fi'', TOK_FI), (''else'', TOK_ELSE),
      (''while'', TOK_WHILE), (''until'', TOK_UNTIL), (''do'', TOK_DO), (''done'', TOK_DONE),
      ('';'', TOK_SC), (''|'', TOK_PIPE), (''('', TOK_LPAREN), ('')'', TOK_RPAREN),
      (''<'', TOK_LAB), (''>'', TOK_RAB), ([NL], TOK_NL)]"

fun is_reserved :: "token_type \<Rightarrow> bool" where
  "is_reserved TOK_WHILE = True"
| "is_reserved TOK_UNTIL = True"
| "is_reserved TOK_IF = True"
| "is_reserved TOK_LPAREN = True"
| "is_reserved TOK_THEN = True"
| "is_reserved TOK_DO = True"
| "is_reserved TOK_NL = True"
| "is_reserved _ = False"

section \<open>The lexer's state\<close>

text \<open>
  The static variables of the file and of \<open>lexer_putchar_i\<close> and \<open>lexer_putchar\<close>.
  \<open>lexerbuf\<close> holds the bytes written so far, so that \<open>buf_index\<close> is its length, and
  \<open>lexertokens\<close> the finished tokens; \<open>buf_size\<close> and \<open>tokens_count\<close> are the allocated sizes.
\<close>

record lexer =
  lexerbuf :: string
  lexertokens :: "token list"
  last_token_index :: nat
  line_num :: nat
  is_command :: int
  simple_command :: bool
  buf_size :: nat
  tokens_count :: nat
  consume_switch :: bool
  last_c :: char
  last_special :: char

abbreviation INIT_BUF_SIZE :: nat where "INIT_BUF_SIZE \<equiv> 64"

definition lexer_init :: lexer where
  "lexer_init = \<lparr>lexerbuf = [], lexertokens = [], last_token_index = 0, line_num = 1,
     is_command = 0, simple_command = False, buf_size = INIT_BUF_SIZE,
     tokens_count = INIT_BUF_SIZE, consume_switch = False, last_c = NUL, last_special = NUL\<rparr>"

text \<open>
  The errors end the program: \<open>error (1, 0, ...)\<close> prints the line and the offending character.
\<close>

datatype syntax_error = Unexpected_char char | Unexpected_newline | Invalid_character char | Not_valid char
  | Unexpected_token | Invalid_token | Expected_fi | Expected_then | Expected_done | Expected_do
  | Expected_rparen | Invalid_redirection

type_synonym parse_error = "nat \<times> syntax_error"

text \<open>The change of the nesting counter a token type makes.\<close>

fun nesting :: "token_type \<Rightarrow> int" where
  "nesting TOK_IF = 1"
| "nesting TOK_WHILE = 1"
| "nesting TOK_UNTIL = 1"
| "nesting TOK_LPAREN = 1"
| "nesting TOK_FI = -1"
| "nesting TOK_DONE = -1"
| "nesting TOK_RPAREN = -1"
| "nesting _ = 0"

definition lexer_assign_type :: "nat \<Rightarrow> lexer \<Rightarrow> token_type \<times> lexer" where
  "lexer_assign_type off st =
     (if simple_command st then (TOK_WORD, st)
      else case map_of TokAssociations (cstr_at (lexerbuf st) off) of
        Some ty \<Rightarrow> (ty, st\<lparr>is_command := is_command st + nesting ty\<rparr>)
      | None \<Rightarrow> (TOK_WORD, st\<lparr>simple_command := True\<rparr>))"

definition grow_buf :: "lexer \<Rightarrow> lexer" where
  "grow_buf st = (if length (lexerbuf st) = buf_size st then st\<lparr>buf_size := buf_size st * 2\<rparr> else st)"

definition finish_token :: "lexer \<Rightarrow> lexer" where
  "finish_token st =
     (let st = (if length (lexertokens st) = tokens_count st
                then st\<lparr>tokens_count := tokens_count st * 2\<rparr> else st);
          st = st\<lparr>lexerbuf := lexerbuf st @ [NUL]\<rparr>;
          (ty, st) = lexer_assign_type (last_token_index st) st;
          tok = \<lparr>type = ty, offset = last_token_index st, tok_line = line_num st\<rparr>
      in st\<lparr>lexertokens := lexertokens st @ [tok], last_token_index := length (lexerbuf st)\<rparr>)"

definition lexer_putchar_i :: "char \<Rightarrow> lexer \<Rightarrow> lexer" where
  "lexer_putchar_i c st =
     (if c = NUL then
        if lexerbuf st = [] \<or> last (lexerbuf st) = NUL then st
        else grow_buf (finish_token st)
      else grow_buf (st\<lparr>lexerbuf := lexerbuf st @ [c]\<rparr>))"

text \<open>\<open>strchr\<close> also finds the null character: at the terminator of the string.\<close>

definition strchr_hit :: "string \<Rightarrow> char \<Rightarrow> bool" where
  "strchr_hit s c \<longleftrightarrow> c \<in> set s \<or> c = NUL"

definition isalnum :: "char \<Rightarrow> bool" where
  "isalnum c = (let n = of_char c :: nat in 48 \<le> n \<and> n \<le> 57 \<or> 65 \<le> n \<and> n \<le> 90 \<or> 97 \<le> n \<and> n \<le> 122)"

definition valid_char :: "char \<Rightarrow> bool" where
  "valid_char c = (isalnum c \<or> strchr_hit ''!%+,-./:@^_'' c)"

text \<open>
  The type of the token before the end of the list; without any token the code reads in front
  of the array, and \<open>stray\<close> is what it finds there.
\<close>

definition last_type :: "(lexer \<Rightarrow> token_type) \<Rightarrow> lexer \<Rightarrow> token_type" where
  "last_type stray st = (if lexertokens st = [] then stray st else type (last (lexertokens st)))"

definition delimiter :: "char \<Rightarrow> lexer \<Rightarrow> parse_error + lexer" where
  "delimiter c st =
     (if strchr_hit ''<>'' (last_c st) then Inl (line_num st, Unexpected_char c)
      else Inr (lexer_putchar_i NUL (lexer_putchar_i c
             ((lexer_putchar_i NUL st)\<lparr>simple_command := False\<rparr>))))"

definition redirect_char :: "char \<Rightarrow> lexer \<Rightarrow> parse_error + lexer" where
  "redirect_char c st =
     (if strchr_hit ''<>'' (last_c st) then Inl (line_num st, Unexpected_char c)
      else Inr ((lexer_putchar_i NUL (lexer_putchar_i c
             ((lexer_putchar_i NUL st)\<lparr>simple_command := False\<rparr>)))\<lparr>simple_command := True\<rparr>))"

definition newline_rest :: "(lexer \<Rightarrow> token_type) \<Rightarrow> lexer \<Rightarrow> parse_error + lexer" where
  "newline_rest stray st =
     (if strchr_hit [NL, CHR ''('', CHR ''|''] (last_c st) \<or> is_reserved (last_type stray st)
         \<or> last_special st = CHR '';'' \<and> is_command st \<noteq> 0 then Inr st
      else if is_command st > 0 \<and> \<not> is_reserved (last_type stray st) then
        Inr (lexer_putchar_i NUL (lexer_putchar_i CHR '';'' st))
      else delimiter NL st)"

definition newline_char :: "(lexer \<Rightarrow> token_type) \<Rightarrow> lexer \<Rightarrow> parse_error + lexer" where
  "newline_char stray st =
     (if strchr_hit ''<>'' (last_c st) \<and> last_c st \<noteq> NUL then Inl (line_num st, Unexpected_newline)
      else newline_rest stray
             ((lexer_putchar_i NUL (st\<lparr>line_num := line_num st + 1\<rparr>))\<lparr>simple_command := False\<rparr>))"

definition comment_char :: "char \<Rightarrow> lexer \<Rightarrow> parse_error + lexer" where
  "comment_char c st =
     (let st = st\<lparr>simple_command := False\<rparr> in
      if strchr_hit ('' '' @ [TAB, NL] @ '';|()'') (last_c st) then Inr (st\<lparr>consume_switch := True\<rparr>)
      else Inl (line_num st, Invalid_character c))"

definition putchar_switch :: "(lexer \<Rightarrow> token_type) \<Rightarrow> char \<Rightarrow> lexer \<Rightarrow> parse_error + lexer" where
  "putchar_switch stray c st =
     (if c = CHR '' '' \<or> c = TAB then Inr (lexer_putchar_i NUL st)
      else if c = CHR ''>'' \<or> c = CHR ''<'' then redirect_char c st
      else if c = NL then newline_char stray st
      else if c = CHR ''|'' \<or> c = CHR '';'' \<or> c = CHR ''('' \<or> c = CHR '')'' then delimiter c st
      else if c = CHR ''#'' then comment_char c st
      else if valid_char c then Inr (lexer_putchar_i c st)
      else Inl (line_num st, Not_valid c))"

definition lexer_putchar :: "(lexer \<Rightarrow> token_type) \<Rightarrow> char \<Rightarrow> lexer \<Rightarrow> parse_error + lexer" where
  "lexer_putchar stray c st =
     (if consume_switch st \<and> c \<noteq> NL then Inr st
      else case putchar_switch stray c (st\<lparr>consume_switch := False\<rparr>) of
        Inl e \<Rightarrow> Inl e
      | Inr st \<Rightarrow> Inr (st\<lparr>last_special := (if strchr_hit ('' '' @ [TAB, NL]) c then last_special st else c),
                          last_c := c\<rparr>))"

text \<open>The loop of \<open>make_command_stream\<close> over the input and its final null character.\<close>

fun lex_chars :: "(lexer \<Rightarrow> token_type) \<Rightarrow> string \<Rightarrow> lexer \<Rightarrow> parse_error + lexer" where
  "lex_chars stray [] st = Inr st"
| "lex_chars stray (c # cs) st =
     (case lexer_putchar stray c st of Inl e \<Rightarrow> Inl e | Inr st \<Rightarrow> lex_chars stray cs st)"

definition tokenize :: "(lexer \<Rightarrow> token_type) \<Rightarrow> string \<Rightarrow> parse_error + lexer" where
  "tokenize stray input =
     (case lex_chars stray (takeWhile (\<lambda>c. c \<noteq> CHR 0xFF) input) lexer_init of
        Inl e \<Rightarrow> Inl e
      | Inr st \<Rightarrow> lexer_putchar stray NUL st)"

definition token_texts :: "lexer \<Rightarrow> string list" where
  "token_texts st = map (\<lambda>t. cstr_at (lexerbuf st) (offset t)) (lexertokens st)"

end
