(* ===== verification/Shell_Parser.thy ===== *)
theory Shell_Parser
  imports Shell_Tokenizer
begin

text \<open>
  The parser (\<open>parser.c\<close>) and the command stream (\<open>read-command.c\<close>).  The recursive functions are
  one mutual definition over the code's half-open ranges of token positions; their termination,
  for any contents of memory, is proved from the ranges the scanning loops return.
\<close>

section \<open>Commands\<close>

record command_info =
  c_status :: int
  c_input :: "string option"
  c_output :: "string option"

datatype command =
    IF_COMMAND command_info command command "command option"
  | PIPE_COMMAND command_info command command
  | SEQUENCE_COMMAND command_info command command
  | SIMPLE_COMMAND command_info "string list"
  | SUBSHELL_COMMAND command_info command
  | UNTIL_COMMAND command_info command command
  | WHILE_COMMAND command_info command command

definition new_info :: command_info where
  "new_info = \<lparr>c_status = -1, c_input = None, c_output = None\<rparr>"

text \<open>Sequencing of calls that may end the program with an error.\<close>

definition and_then :: "'e + 'a \<Rightarrow> ('a \<Rightarrow> 'e + 'b) \<Rightarrow> 'e + 'b" where
  "and_then r f = (case r of Inl e \<Rightarrow> Inl e | Inr x \<Rightarrow> f x)"

lemma and_then_simps [simp]: "and_then (Inl e) f = Inl e" "and_then (Inr x) f = f x"
  by (simp_all add: and_then_def)

lemma and_then_cong [fundef_cong]:
  "r = r' \<Longrightarrow> (\<And>x. r' = Inr x \<Longrightarrow> f x = f' x) \<Longrightarrow> and_then r f = and_then r' f'"
  by (simp add: and_then_def split: sum.splits)

section \<open>The token array\<close>

text \<open>
  The parser sees the array as the memory it lies in, because it reads positions in front of
  the array and behind the last token: \<open>stray\<close> gives what lies there.
\<close>

definition token_array :: "(int \<Rightarrow> token) \<Rightarrow> token list \<Rightarrow> int \<Rightarrow> token" where
  "token_array stray ts i = (if 0 \<le> i \<and> i < int (length ts) then ts ! nat i else stray i)"

section \<open>The scanning loops\<close>

function scan_back :: "token_type \<Rightarrow> (int \<Rightarrow> token) \<Rightarrow> int \<Rightarrow> int \<Rightarrow> int \<Rightarrow> int option" where
  "scan_back ty tk start i in_command =
     (if in_command = 0 \<and> type (tk i) = ty then Some i
      else if i > start then scan_back ty tk start (i - 1) (in_command - nesting (type (tk i)))
      else None)"
  by pat_completeness auto
termination by (relation "measure (\<lambda>(_, _, start, i, _). nat (i - start))") auto

function scan_if :: "(int \<Rightarrow> token) \<Rightarrow> int \<Rightarrow> int \<Rightarrow> int \<Rightarrow> int \<Rightarrow> int \<Rightarrow> int \<Rightarrow> int \<times> int \<times> int" where
  "scan_if tk start end index in_command then_index else_index =
     (let ty = type (tk index);
          here = in_command = 0 \<and> index \<noteq> start + 1;
          then_index = (if here \<and> ty = TOK_THEN then index else then_index);
          else_index = (if here \<and> ty = TOK_ELSE then index else else_index)
      in if here \<and> ty = TOK_FI then (then_index, else_index, index)
         else if index < end then
           scan_if tk start end (index + 1) (in_command + nesting ty) then_index else_index
         else (then_index, else_index, -1))"
  by pat_completeness auto
termination by (relation "measure (\<lambda>(_, _, end, index, _). nat (end - index))") auto

function scan_do :: "(int \<Rightarrow> token) \<Rightarrow> int \<Rightarrow> int \<Rightarrow> int \<Rightarrow> int \<Rightarrow> int \<Rightarrow> int \<times> int" where
  "scan_do tk start end index in_command do_index =
     (let ty = type (tk index);
          here = in_command = 0 \<and> index \<noteq> start + 1;
          do_index = (if here \<and> ty = TOK_DO then index else do_index)
      in if here \<and> ty = TOK_DONE then (do_index, index)
         else if index < end then scan_do tk start end (index + 1) (in_command + nesting ty) do_index
         else (do_index, -1))"
  by pat_completeness auto
termination by (relation "measure (\<lambda>(_, _, end, index, _). nat (end - index))") auto

function scan_rparen :: "(int \<Rightarrow> token) \<Rightarrow> int \<Rightarrow> int \<Rightarrow> int \<Rightarrow> int" where
  "scan_rparen tk end index in_command =
     (if in_command = 0 \<and> type (tk index) = TOK_RPAREN then index
      else if index < end then scan_rparen tk end (index + 1) (in_command + nesting (type (tk index)))
      else -1)"
  by pat_completeness auto
termination by (relation "measure (\<lambda>(_, end, index, _). nat (end - index))") auto

function scan_words :: "(int \<Rightarrow> token) \<Rightarrow> int \<Rightarrow> int \<Rightarrow> int" where
  "scan_words tk end index =
     (if type (tk index) \<noteq> TOK_WORD then index
      else if index < end then scan_words tk end (index + 1)
      else index + 1)"
  by pat_completeness auto
termination by (relation "measure (\<lambda>(_, end, index). nat (end - index))") auto

declare scan_back.simps [simp del] scan_if.simps [simp del] scan_do.simps [simp del]
  scan_rparen.simps [simp del] scan_words.simps [simp del]

section \<open>Redirections and simple commands\<close>

function add_redirects :: "string \<Rightarrow> (int \<Rightarrow> token) \<Rightarrow> command_info \<Rightarrow> int \<Rightarrow> int \<Rightarrow> parse_error + command_info" where
  "add_redirects buf tk comm start end =
     (if start \<ge> end then Inr comm
      else if type (tk start) = TOK_LAB \<and> end > start + 1 then
        if c_input comm = None
        then add_redirects buf tk (comm\<lparr>c_input := Some (cstr_at buf (offset (tk (start + 1))))\<rparr>) (start + 2) end
        else Inl (tok_line (tk start), Invalid_redirection)
      else if type (tk start) = TOK_RAB \<and> end > start + 1 then
        if c_output comm = None
        then add_redirects buf tk (comm\<lparr>c_output := Some (cstr_at buf (offset (tk (start + 1))))\<rparr>) (start + 2) end
        else Inl (tok_line (tk start), Invalid_redirection)
      else Inl (tok_line (tk start), Unexpected_token))"
  by pat_completeness auto
termination by (relation "measure (\<lambda>(_, _, _, start, end). nat (end - start))") auto

declare add_redirects.simps [simp del]

definition magical_word_parser :: "string \<Rightarrow> (int \<Rightarrow> token) \<Rightarrow> int \<Rightarrow> int \<Rightarrow> parse_error + command" where
  "magical_word_parser buf tk start end =
     (let index = scan_words tk end start;
          word = map (\<lambda>i. cstr_at buf (offset (tk (start + int i)))) [0..<nat (index - start)]
      in and_then (add_redirects buf tk new_info index end) (\<lambda>c. Inr (SIMPLE_COMMAND c word)))"

section \<open>The recursive parser\<close>

text \<open>What the scans return, for the termination of the parser.\<close>

lemma scan_back_range:
  "scan_back ty tk start i d = Some j \<Longrightarrow> type (tk j) = ty \<and> j \<le> i \<and> (start \<le> j \<or> j = i)"
proof (induction ty tk start i d rule: scan_back.induct)
  case (1 ty tk start i d)
  note unf = scan_back.simps [of ty tk start i d]
  consider "d = 0 \<and> type (tk i) = ty" | "\<not> (d = 0 \<and> type (tk i) = ty)" "i > start"
    | "\<not> (d = 0 \<and> type (tk i) = ty)" "\<not> i > start" by blast
  then show ?case
  proof cases
    case 2
    then have "scan_back ty tk start (i - 1) (d - nesting (type (tk i))) = Some j"
      using "1.prems" unf by auto
    from "1.IH" [OF 2 this] show ?thesis using 2 by auto
  qed (use "1.prems" unf in auto)
qed

lemma scan_if_range:
  "scan_if tk start end index d t e = (t', e', f) \<Longrightarrow>
     start + 1 \<le> index \<and> (index = start + 1 \<or> index \<le> end)
       \<and> (t \<noteq> -1 \<longrightarrow> start + 2 \<le> t \<and> t \<le> end) \<and> (e \<noteq> -1 \<longrightarrow> start + 2 \<le> e \<and> e \<le> end) \<Longrightarrow>
     (t' \<noteq> -1 \<longrightarrow> start + 2 \<le> t' \<and> t' \<le> end) \<and> (e' \<noteq> -1 \<longrightarrow> start + 2 \<le> e' \<and> e' \<le> end) \<and> (f \<noteq> -1 \<longrightarrow> f \<le> end)"
proof (induction tk start "end" index d t e rule: scan_if.induct)
  case (1 tk start "end" index d t e)
  define here where "here = (d = 0 \<and> index \<noteq> start + 1)"
  define t1 where "t1 = (if here \<and> type (tk index) = TOK_THEN then index else t)"
  define e1 where "e1 = (if here \<and> type (tk index) = TOK_ELSE then index else e)"
  have t1: "t1 \<noteq> -1 \<longrightarrow> start + 2 \<le> t1 \<and> t1 \<le> end" and e1: "e1 \<noteq> -1 \<longrightarrow> start + 2 \<le> e1 \<and> e1 \<le> end"
    using "1.prems"(2) by (auto simp: t1_def e1_def here_def)
  note unf = scan_if.simps [of tk start "end" index d t e, folded here_def, unfolded Let_def, folded t1_def e1_def]
  consider "here \<and> type (tk index) = TOK_FI" | "\<not> (here \<and> type (tk index) = TOK_FI)" "index < end"
    | "\<not> (here \<and> type (tk index) = TOK_FI)" "\<not> index < end" by blast
  then show ?case
  proof cases
    case 1
    then show ?thesis using "1.prems" unf t1 e1 by (auto simp: here_def)
  next
    case 2
    have eq: "scan_if tk start end (index + 1) (d + nesting (type (tk index))) t1 e1 = (t', e', f)"
      using "1.prems"(1) unf 2 by auto
    show ?thesis
      by (rule "1.IH" [OF refl refl refl refl, folded here_def, folded t1_def e1_def, OF 2 eq])
        (use 2 t1 e1 "1.prems"(2) in simp)
  next
    case 3
    then show ?thesis using "1.prems" unf t1 e1 by auto
  qed
qed

lemma scan_do_range:
  "scan_do tk start end index d t = (t', f) \<Longrightarrow>
     start + 1 \<le> index \<and> (index = start + 1 \<or> index \<le> end) \<and> (t \<noteq> -1 \<longrightarrow> start + 2 \<le> t \<and> t \<le> end) \<Longrightarrow>
     (t' \<noteq> -1 \<longrightarrow> start + 2 \<le> t' \<and> t' \<le> end) \<and> (f \<noteq> -1 \<longrightarrow> f \<le> end)"
proof (induction tk start "end" index d t rule: scan_do.induct)
  case (1 tk start "end" index d t)
  define here where "here = (d = 0 \<and> index \<noteq> start + 1)"
  define t1 where "t1 = (if here \<and> type (tk index) = TOK_DO then index else t)"
  have t1: "t1 \<noteq> -1 \<longrightarrow> start + 2 \<le> t1 \<and> t1 \<le> end"
    using "1.prems"(2) by (auto simp: t1_def here_def)
  note unf = scan_do.simps [of tk start "end" index d t, folded here_def, unfolded Let_def, folded t1_def]
  consider "here \<and> type (tk index) = TOK_DONE" | "\<not> (here \<and> type (tk index) = TOK_DONE)" "index < end"
    | "\<not> (here \<and> type (tk index) = TOK_DONE)" "\<not> index < end" by blast
  then show ?case
  proof cases
    case 1
    then show ?thesis using "1.prems" unf t1 by (auto simp: here_def)
  next
    case 2
    have eq: "scan_do tk start end (index + 1) (d + nesting (type (tk index))) t1 = (t', f)"
      using "1.prems"(1) unf 2 by auto
    show ?thesis
      by (rule "1.IH" [OF refl refl refl, folded here_def, folded t1_def, OF 2 eq])
        (use 2 t1 "1.prems"(2) in simp)
  next
    case 3
    then show ?thesis using "1.prems" unf t1 by auto
  qed
qed

lemma scan_rparen_range:
  "scan_rparen tk end index d = r \<Longrightarrow> r \<noteq> -1 \<Longrightarrow> type (tk r) = TOK_RPAREN \<and> index \<le> r \<and> (r \<le> end \<or> r = index)"
proof (induction tk "end" index d rule: scan_rparen.induct)
  case (1 tk "end" index d)
  note unf = scan_rparen.simps [of tk "end" index d]
  consider "d = 0 \<and> type (tk index) = TOK_RPAREN" | "\<not> (d = 0 \<and> type (tk index) = TOK_RPAREN)" "index < end"
    | "\<not> (d = 0 \<and> type (tk index) = TOK_RPAREN)" "\<not> index < end" by blast
  then show ?case
  proof cases
    case 2
    then have "scan_rparen tk end (index + 1) (d + nesting (type (tk index))) = r"
      using "1.prems" unf by auto
    from "1.IH" [OF 2 this "1.prems"(2)] show ?thesis using 2 by auto
  qed (use "1.prems" unf in auto)
qed

lemma scan_if_bounds:
  "(t, e, f) = scan_if tk start end (start + 1) 0 (-1) (-1) \<Longrightarrow>
     (t \<noteq> -1 \<longrightarrow> start + 2 \<le> t \<and> t \<le> end) \<and> (e \<noteq> -1 \<longrightarrow> start + 2 \<le> e \<and> e \<le> end) \<and> (f \<noteq> -1 \<longrightarrow> f \<le> end)"
  using scan_if_range [of tk start "end" "start + 1" 0 "-1" "-1" t e f] by simp

lemma scan_do_bounds:
  "(t, f) = scan_do tk start end (start + 1) 0 (-1) \<Longrightarrow>
     (t \<noteq> -1 \<longrightarrow> start + 2 \<le> t \<and> t \<le> end) \<and> (f \<noteq> -1 \<longrightarrow> f \<le> end)"
  using scan_do_range [of tk start "end" "start + 1" 0 "-1" t f] by simp

lemma scan_back_inner:
  "scan_back ty tk start (end - 1) 0 = Some i \<Longrightarrow> type (tk (end - 1)) \<noteq> ty \<Longrightarrow> start \<le> i \<and> i < end - 1"
proof -
  assume sc: "scan_back ty tk start (end - 1) 0 = Some i" and ne: "type (tk (end - 1)) \<noteq> ty"
  have r: "type (tk i) = ty \<and> i \<le> end - 1 \<and> (start \<le> i \<or> i = end - 1)" by (rule scan_back_range [OF sc])
  then have "i \<noteq> end - 1" using ne by auto
  then show ?thesis using r by auto
qed

function parse and check_fail_parse and magical_if_parser and magical_while_until_parser
  and magical_subshell_parser
  where
  "parse buf (tk :: int \<Rightarrow> token) start end =
     (if type (tk (end - 1)) \<in> {TOK_SC, TOK_PIPE, TOK_LAB, TOK_RAB}
      then Inl (tok_line (tk (end - 1)), Unexpected_token)
      else case scan_back TOK_SC tk start (end - 1) 0 of
        Some i \<Rightarrow> and_then (parse buf tk start i) (\<lambda>l.
                   and_then (parse buf tk (i + 1) end) (\<lambda>r. Inr (SEQUENCE_COMMAND new_info l r)))
      | None \<Rightarrow> (case scan_back TOK_PIPE tk start (end - 1) 0 of
        Some i \<Rightarrow> and_then (parse buf tk start i) (\<lambda>l.
                   and_then (parse buf tk (i + 1) end) (\<lambda>r. Inr (PIPE_COMMAND new_info l r)))
      | None \<Rightarrow>
          if type (tk start) = TOK_IF then magical_if_parser buf tk start end
          else if type (tk start) = TOK_WHILE \<or> type (tk start) = TOK_UNTIL
          then magical_while_until_parser buf tk start end
          else if type (tk start) = TOK_LPAREN then magical_subshell_parser buf tk start end
          else if type (tk start) = TOK_WORD then magical_word_parser buf tk start end
          else Inl (tok_line (tk start), Invalid_token)))"
| "check_fail_parse buf tk start end =
     (if type (tk (end - 1)) = TOK_SC then parse buf tk start (end - 1) else parse buf tk start end)"
| "magical_if_parser buf tk start end =
     (case scan_if tk start end (start + 1) 0 (-1) (-1) of (then_index, else_index, fi_index) \<Rightarrow>
        if fi_index = -1 then Inl (tok_line (tk start), Expected_fi)
        else if then_index = -1 then Inl (tok_line (tk start), Expected_then)
        else and_then (check_fail_parse buf tk (start + 1) then_index) (\<lambda>c0.
          if else_index \<noteq> -1 then
            and_then (check_fail_parse buf tk (then_index + 1) else_index) (\<lambda>c1.
            and_then (check_fail_parse buf tk (else_index + 1) fi_index) (\<lambda>c2.
            and_then (add_redirects buf tk new_info (fi_index + 1) end) (\<lambda>ci.
              Inr (IF_COMMAND ci c0 c1 (Some c2)))))
          else
            and_then (check_fail_parse buf tk (then_index + 1) fi_index) (\<lambda>c1.
            and_then (add_redirects buf tk new_info (fi_index + 1) end) (\<lambda>ci.
              Inr (IF_COMMAND ci c0 c1 None)))))"
| "magical_while_until_parser buf tk start end =
     (if type (tk start) \<noteq> TOK_UNTIL \<and> type (tk start) \<noteq> TOK_WHILE
      then Inl (tok_line (tk start), Invalid_token)
      else case scan_do tk start end (start + 1) 0 (-1) of (do_index, done_index) \<Rightarrow>
        if done_index = -1 then Inl (tok_line (tk start), Expected_done)
        else if do_index = -1 then Inl (tok_line (tk start), Expected_do)
        else and_then (check_fail_parse buf tk (start + 1) do_index) (\<lambda>c0.
          and_then (check_fail_parse buf tk (do_index + 1) done_index) (\<lambda>c1.
          and_then (add_redirects buf tk new_info (done_index + 1) end) (\<lambda>ci.
            Inr (if type (tk start) = TOK_UNTIL then UNTIL_COMMAND ci c0 c1 else WHILE_COMMAND ci c0 c1)))))"
| "magical_subshell_parser buf tk start end =
     (let rparen_index = scan_rparen tk end (start + 1) 0 in
      if rparen_index = -1 then Inl (tok_line (tk start), Expected_rparen)
      else and_then (check_fail_parse buf tk (start + 1) rparen_index) (\<lambda>c0.
        and_then (add_redirects buf tk new_info (rparen_index + 1) end) (\<lambda>ci.
          Inr (SUBSHELL_COMMAND ci c0))))"
  by pat_completeness auto
termination
  apply (relation "measure (\<lambda>x. case x of
     Inl (Inl (_, tk, start, end)) \<Rightarrow> 8 * nat (end - start) + (if type (tk start) = TOK_LPAREN then 5 else 1)
   | Inl (Inr (_, tk, start, end)) \<Rightarrow> 8 * nat (end - start) + (if type (tk start) = TOK_LPAREN then 6 else 2)
   | Inr (Inl (_, tk, start, end)) \<Rightarrow> 8 * nat (end - start)
   | Inr (Inr (Inl (_, tk, start, end))) \<Rightarrow> 8 * nat (end - start)
   | Inr (Inr (Inr (_, tk, start, end))) \<Rightarrow> 8 * nat (end - start) + 4)")
  apply simp_all
  apply (auto dest!: scan_back_inner)[4]
  apply (force dest!: scan_if_bounds)+
  apply (force dest!: scan_do_bounds)+
  subgoal for tk start "end" using scan_rparen_range [OF refl, of tk "end" "start + 1" 0] by auto
  done

declare parse.simps [simp del] check_fail_parse.simps [simp del] magical_if_parser.simps [simp del]
  magical_while_until_parser.simps [simp del] magical_subshell_parser.simps [simp del]

section \<open>The command stream\<close>

text \<open>\<open>index\<close> and \<open>num\<close> are the code's unsigned counters; the first token exists, so \<open>num - 1\<close> does not wrap.\<close>

function scan_line :: "(int \<Rightarrow> token) \<Rightarrow> int \<Rightarrow> int \<Rightarrow> int" where
  "scan_line tk num index =
     (if index < num \<and> type (tk index) \<noteq> TOK_NL then scan_line tk num (index + 1) else index)"
  by pat_completeness auto
termination by (relation "measure (\<lambda>(_, num, index). nat (num - index))") auto

declare scan_line.simps [simp del]

lemma scan_line_ge: "index \<le> scan_line tk num index"
proof (induction tk num index rule: scan_line.induct)
  case (1 tk num index)
  then show ?case by (subst scan_line.simps) (cases "index < num \<and> type (tk index) \<noteq> TOK_NL", auto)
qed

definition parse_line :: "string \<Rightarrow> (int \<Rightarrow> token) \<Rightarrow> int \<Rightarrow> int \<Rightarrow> parse_error + command" where
  "parse_line buf tk start index =
     (if type (tk (index - 1)) = TOK_SC then parse buf tk start (index - 1) else parse buf tk start index)"

function stream_loop :: "string \<Rightarrow> (int \<Rightarrow> token) \<Rightarrow> int \<Rightarrow> int \<Rightarrow> parse_error + command list" where
  "stream_loop buf tk num index =
     (let nl = scan_line tk num index in
      and_then (parse_line buf tk index nl) (\<lambda>c.
        if nl + 1 \<ge> num - 1 then Inr [c]
        else and_then (stream_loop buf tk num (nl + 1)) (\<lambda>cs. Inr (c # cs))))"
  by pat_completeness auto
termination
proof (relation "measure (\<lambda>(_, _, num, index). nat (num - index))")
  fix buf tk and num index "nl" :: int and x
  assume "nl = scan_line tk num index" and "\<not> num - 1 \<le> nl + 1"
  then show "((buf, tk, num, nl + 1), buf, tk, num, index) \<in> measure (\<lambda>(_, _, num, index). nat (num - index))"
    using scan_line_ge [of index tk num] by simp
qed simp

declare stream_loop.simps [simp del]

record command_stream =
  command_tree_list :: "command list"
  read_index :: nat

definition make_command_stream ::
    "(lexer \<Rightarrow> token_type) \<Rightarrow> (int \<Rightarrow> token) \<Rightarrow> string \<Rightarrow> parse_error + command_stream option" where
  "make_command_stream stray_type stray script =
     and_then (tokenize stray_type script) (\<lambda>st.
       if lexertokens st = [] then Inr None
       else and_then (stream_loop (lexerbuf st) (token_array stray (lexertokens st))
                        (int (length (lexertokens st))) 0)
              (\<lambda>cs. Inr (Some \<lparr>command_tree_list = cs, read_index = 0\<rparr>)))"

definition read_command_stream :: "command_stream option \<Rightarrow> command option \<times> command_stream option" where
  "read_command_stream s =
     (case s of
        None \<Rightarrow> (None, None)
      | Some st \<Rightarrow>
          if read_index st < length (command_tree_list st)
          then (Some (command_tree_list st ! read_index st), Some (st\<lparr>read_index := read_index st + 1\<rparr>))
          else (None, Some st))"

end
