(* ===== verification/Shell_Syntax.thy ===== *)
theory Shell_Syntax
  imports Shell_Parser
begin

text \<open>
  The grammar as a function from commands to tokens (\<open>flat\<close>) and the trees it covers
  (\<open>wf_command\<close>), with the scans of the parser over a segment of the array that spells a command:
  what is nested is passed over.  The forward scans share one locale.
\<close>

section \<open>Commands as sequences of tokens\<close>

abbreviation IF_tok where "IF_tok \<equiv> (TOK_IF, ''if'')"
abbreviation THEN_tok where "THEN_tok \<equiv> (TOK_THEN, ''then'')"
abbreviation ELSE_tok where "ELSE_tok \<equiv> (TOK_ELSE, ''else'')"
abbreviation FI_tok where "FI_tok \<equiv> (TOK_FI, ''fi'')"
abbreviation WHILE_tok where "WHILE_tok \<equiv> (TOK_WHILE, ''while'')"
abbreviation UNTIL_tok where "UNTIL_tok \<equiv> (TOK_UNTIL, ''until'')"
abbreviation DO_tok where "DO_tok \<equiv> (TOK_DO, ''do'')"
abbreviation DONE_tok where "DONE_tok \<equiv> (TOK_DONE, ''done'')"
abbreviation SC_tok where "SC_tok \<equiv> (TOK_SC, '';'')"
abbreviation PIPE_tok where "PIPE_tok \<equiv> (TOK_PIPE, ''|'')"
abbreviation LPAREN_tok where "LPAREN_tok \<equiv> (TOK_LPAREN, ''('')"
abbreviation RPAREN_tok where "RPAREN_tok \<equiv> (TOK_RPAREN, '')'')"
abbreviation LAB_tok where "LAB_tok \<equiv> (TOK_LAB, ''<'')"
abbreviation RAB_tok where "RAB_tok \<equiv> (TOK_RAB, ''>'')"

definition redirs :: "command_info \<Rightarrow> (token_type \<times> string) list" where
  "redirs ci = (case c_input ci of None \<Rightarrow> [] | Some f \<Rightarrow> [LAB_tok, (TOK_WORD, f)])
     @ (case c_output ci of None \<Rightarrow> [] | Some f \<Rightarrow> [RAB_tok, (TOK_WORD, f)])"

fun flat :: "command \<Rightarrow> (token_type \<times> string) list" where
  "flat (SIMPLE_COMMAND ci ws) = map (Pair TOK_WORD) ws @ redirs ci"
| "flat (SEQUENCE_COMMAND ci l r) = flat l @ SC_tok # flat r"
| "flat (PIPE_COMMAND ci l r) = flat l @ PIPE_tok # flat r"
| "flat (SUBSHELL_COMMAND ci c) = LPAREN_tok # flat c @ RPAREN_tok # redirs ci"
| "flat (IF_COMMAND ci a b None) = IF_tok # flat a @ SC_tok # THEN_tok # flat b @ SC_tok # FI_tok # redirs ci"
| "flat (IF_COMMAND ci a b (Some e)) =
     IF_tok # flat a @ SC_tok # THEN_tok # flat b @ SC_tok # ELSE_tok # flat e @ SC_tok # FI_tok # redirs ci"
| "flat (WHILE_COMMAND ci a b) = WHILE_tok # flat a @ SC_tok # DO_tok # flat b @ SC_tok # DONE_tok # redirs ci"
| "flat (UNTIL_COMMAND ci a b) = UNTIL_tok # flat a @ SC_tok # DO_tok # flat b @ SC_tok # DONE_tok # redirs ci"

fun is_sequence :: "command \<Rightarrow> bool" where
  "is_sequence (SEQUENCE_COMMAND _ _ _) = True"
| "is_sequence _ = False"

fun is_pipe :: "command \<Rightarrow> bool" where
  "is_pipe (PIPE_COMMAND _ _ _) = True"
| "is_pipe _ = False"

text \<open>
  The trees the grammar has: sequences and pipes associate to the left, pipes bind tighter, and
  neither has redirections of its own; no command has run.
\<close>

fun wf_command :: "command \<Rightarrow> bool" where
  "wf_command (SIMPLE_COMMAND ci ws) \<longleftrightarrow> c_status ci = -1 \<and> ws \<noteq> []"
| "wf_command (SEQUENCE_COMMAND ci l r) \<longleftrightarrow> ci = new_info \<and> wf_command l \<and> wf_command r \<and> \<not> is_sequence r"
| "wf_command (PIPE_COMMAND ci l r) \<longleftrightarrow> ci = new_info \<and> wf_command l \<and> wf_command r
     \<and> \<not> is_sequence l \<and> \<not> is_sequence r \<and> \<not> is_pipe r"
| "wf_command (SUBSHELL_COMMAND ci c) \<longleftrightarrow> c_status ci = -1 \<and> wf_command c"
| "wf_command (IF_COMMAND ci a b None) \<longleftrightarrow> c_status ci = -1 \<and> wf_command a \<and> wf_command b"
| "wf_command (IF_COMMAND ci a b (Some e)) \<longleftrightarrow> c_status ci = -1 \<and> wf_command a \<and> wf_command b \<and> wf_command e"
| "wf_command (WHILE_COMMAND ci a b) \<longleftrightarrow> c_status ci = -1 \<and> wf_command a \<and> wf_command b"
| "wf_command (UNTIL_COMMAND ci a b) \<longleftrightarrow> c_status ci = -1 \<and> wf_command a \<and> wf_command b"

section \<open>Nesting\<close>

definition net :: "(token_type \<times> string) list \<Rightarrow> int" where
  "net xs = sum_list (map (nesting \<circ> fst) xs)"

lemma net_simps [simp]: "net [] = 0" "net (x # xs) = nesting (fst x) + net xs" "net (xs @ ys) = net xs + net ys"
  by (simp_all add: net_def)

text \<open>No token of \<open>H\<close> at depth 0: what a forward scan passes over.\<close>

fun quiet :: "token_type set \<Rightarrow> int \<Rightarrow> (token_type \<times> string) list \<Rightarrow> bool" where
  "quiet H d [] \<longleftrightarrow> True"
| "quiet H d (x # xs) \<longleftrightarrow> \<not> (d = 0 \<and> fst x \<in> H) \<and> quiet H (d + nesting (fst x)) xs"

text \<open>The same for a scan from the end; the list is reversed.\<close>

fun quiet_back :: "token_type \<Rightarrow> int \<Rightarrow> (token_type \<times> string) list \<Rightarrow> bool" where
  "quiet_back ty d [] \<longleftrightarrow> True"
| "quiet_back ty d (x # xs) \<longleftrightarrow> \<not> (d = 0 \<and> fst x = ty) \<and> quiet_back ty (d - nesting (fst x)) xs"

lemma quiet_append [simp]: "quiet H d (xs @ ys) \<longleftrightarrow> quiet H d xs \<and> quiet H (d + net xs) ys"
  by (induction xs arbitrary: d) (auto simp: algebra_simps)

lemma net_rev [simp]: "net (rev xs) = net xs"
  by (induction xs) auto

lemma quiet_back_append [simp]:
  "quiet_back ty d (xs @ ys) \<longleftrightarrow> quiet_back ty d xs \<and> quiet_back ty (d - net xs) ys"
  by (induction xs arbitrary: d) (auto simp: algebra_simps)

abbreviation closers :: "token_type set" where
  "closers \<equiv> {TOK_THEN, TOK_ELSE, TOK_FI, TOK_DO, TOK_DONE, TOK_RPAREN}"

lemma net_words [simp]: "net (map (Pair TOK_WORD) ws) = 0"
  by (induction ws) auto

lemma quiet_words [simp]: "quiet closers d (map (Pair TOK_WORD) ws)"
  by (induction ws arbitrary: d) auto

lemma quiet_back_words [simp]: "ty \<noteq> TOK_WORD \<Longrightarrow> quiet_back ty d (rev (map (Pair TOK_WORD) ws))"
  by (induction ws arbitrary: d) auto

lemma redirs_quiet [simp]: "net (redirs ci) = 0" "quiet closers d (redirs ci)"
  "ty \<in> {TOK_SC, TOK_PIPE} \<Longrightarrow> quiet_back ty d (rev (redirs ci))"
  by (auto simp: redirs_def split: option.splits)

lemma net_flat [simp]: "net (flat c) = 0"
  by (induction c rule: flat.induct) auto

lemma quiet_flat: "0 \<le> d \<Longrightarrow> quiet closers d (flat c)"
  by (induction c arbitrary: d rule: flat.induct) auto

lemma quiet_back_SC: "wf_command c \<Longrightarrow> 0 \<le> d \<Longrightarrow> d \<noteq> 0 \<or> \<not> is_sequence c \<Longrightarrow> quiet_back TOK_SC d (rev (flat c))"
  by (induction c arbitrary: d rule: flat.induct) auto

lemma quiet_back_PIPE:
  "wf_command c \<Longrightarrow> 0 \<le> d \<Longrightarrow> d \<noteq> 0 \<or> \<not> is_sequence c \<and> \<not> is_pipe c \<Longrightarrow> quiet_back TOK_PIPE d (rev (flat c))"
  by (induction c arbitrary: d rule: flat.induct) auto

lemma redirs_last [simp]: "redirs ci \<noteq> [] \<Longrightarrow> fst (last (redirs ci)) = TOK_WORD"
  by (auto simp: redirs_def split: option.splits)

lemma flat_nonempty [simp]: "wf_command c \<Longrightarrow> flat c \<noteq> []"
  by (cases c rule: flat.cases) auto

lemma flat_last:
  "wf_command c \<Longrightarrow> fst (last (flat c)) \<in> {TOK_WORD, TOK_RPAREN, TOK_FI, TOK_DONE}"
  by (induction c rule: flat.induct) (auto simp: last_append last_map)

section \<open>A segment of the token array\<close>

fun seg :: "string \<Rightarrow> (int \<Rightarrow> token) \<Rightarrow> int \<Rightarrow> (token_type \<times> string) list \<Rightarrow> bool" where
  "seg buf tk i [] \<longleftrightarrow> True"
| "seg buf tk i (x # xs) \<longleftrightarrow> type (tk i) = fst x \<and> cstr_at buf (offset (tk i)) = snd x \<and> seg buf tk (i + 1) xs"

lemma seg_append [simp]:
  "seg buf tk i (xs @ ys) \<longleftrightarrow> seg buf tk i xs \<and> seg buf tk (i + int (length xs)) ys"
  by (induction xs arbitrary: i) (auto simp: algebra_simps)

lemma seg_last: "seg buf tk i xs \<Longrightarrow> xs \<noteq> [] \<Longrightarrow> type (tk (i + int (length xs) - 1)) = fst (last xs)"
  by (cases xs rule: rev_cases) auto

lemma seg_hd: "seg buf tk i xs \<Longrightarrow> xs \<noteq> [] \<Longrightarrow> type (tk i) = fst (hd xs)"
  by (cases xs) auto

section \<open>The scans over a segment\<close>

lemma scan_back_over:
  "seg buf tk j xs \<Longrightarrow> quiet_back ty d (rev xs) \<Longrightarrow> start < j \<Longrightarrow>
   scan_back ty tk start (j + int (length xs) - 1) d = scan_back ty tk start (j - 1) (d - net xs)"
proof (induction xs arbitrary: d rule: rev_induct)
  case (snoc x xs)
  have "scan_back ty tk start (j + int (length xs)) d = scan_back ty tk start (j + int (length xs) - 1) (d - nesting (fst x))"
    using snoc.prems by (subst scan_back.simps) auto
  also have "\<dots> = scan_back ty tk start (j - 1) (d - nesting (fst x) - net xs)"
    using snoc by auto
  finally show ?case by (simp add: algebra_simps)
qed simp

lemma scan_back_none:
  "seg buf tk start xs \<Longrightarrow> quiet_back ty d (rev xs) \<Longrightarrow> xs \<noteq> [] \<Longrightarrow>
   scan_back ty tk start (start + int (length xs) - 1) d = None"
proof -
  assume s: "seg buf tk start xs" and q: "quiet_back ty d (rev xs)" and ne: "xs \<noteq> []"
  then obtain x ys where xs: "xs = x # ys" by (cases xs) auto
  have "scan_back ty tk start (start + 1 + int (length ys) - 1) d = scan_back ty tk start (start + 1 - 1) (d - net ys)"
    by (rule scan_back_over [of buf]) (use s q xs in auto)
  also have "\<dots> = None" using s q xs by (subst scan_back.simps) auto
  finally show ?thesis by (simp add: xs algebra_simps)
qed

text \<open>
  The three forward scans share a contract: away from a closer at depth 0 they step over the
  token and adjust the depth.
\<close>

locale forward_scan =
  fixes scan :: "(int \<Rightarrow> token) \<Rightarrow> int \<Rightarrow> int \<Rightarrow> int \<Rightarrow> 'r"
  assumes step: "\<not> (d = 0 \<and> type (tk i) \<in> closers) \<Longrightarrow> i < end \<Longrightarrow>
    scan tk end i d = scan tk end (i + 1) (d + nesting (type (tk i)))"
begin

lemma over:
  "seg buf tk i xs \<Longrightarrow> quiet closers d xs \<Longrightarrow> i + int (length xs) \<le> end \<Longrightarrow>
   scan tk end i d = scan tk end (i + int (length xs)) (d + net xs)"
proof (induction xs arbitrary: i d)
  case (Cons x xs)
  have "scan tk end i d = scan tk end (i + 1) (d + nesting (fst x))"
    using Cons.prems step [of d tk i "end"] by auto
  also have "\<dots> = scan tk end (i + 1 + int (length xs)) (d + nesting (fst x) + net xs)"
    using Cons by auto
  finally show ?case by (simp add: algebra_simps)
qed simp

lemma over_flat:
  assumes "seg buf tk i (flat c)" and "j = i + int (length (flat c))" and "j \<le> end"
  shows "scan tk end i 0 = scan tk end j 0"
  using over [OF assms(1) quiet_flat, of 0 "end"] assms(2,3) by simp

end

interpretation if_scan: forward_scan "\<lambda>tk end i d. scan_if tk start end i d t e" for start t e
proof
  fix d i "end" :: int and tk :: "int \<Rightarrow> token"
  assume "\<not> (d = 0 \<and> type (tk i) \<in> closers)" and "i < end"
  then show "scan_if tk start end i d t e = scan_if tk start end (i + 1) (d + nesting (type (tk i))) t e"
    by (subst scan_if.simps) (auto simp: Let_def)
qed

interpretation do_scan: forward_scan "\<lambda>tk end i d. scan_do tk start end i d t" for start t
proof
  fix d i "end" :: int and tk :: "int \<Rightarrow> token"
  assume "\<not> (d = 0 \<and> type (tk i) \<in> closers)" and "i < end"
  then show "scan_do tk start end i d t = scan_do tk start end (i + 1) (d + nesting (type (tk i))) t"
    by (subst scan_do.simps) (auto simp: Let_def)
qed

interpretation rparen_scan: forward_scan scan_rparen
proof
  fix d i "end" :: int and tk :: "int \<Rightarrow> token"
  assume "\<not> (d = 0 \<and> type (tk i) \<in> closers)" and "i < end"
  then show "scan_rparen tk end i d = scan_rparen tk end (i + 1) (d + nesting (type (tk i)))"
    by (subst scan_rparen.simps) auto
qed

lemma scan_words_over:
  "seg buf tk i (map (Pair TOK_WORD) ws) \<Longrightarrow> i + int (length ws) \<le> end \<Longrightarrow>
   type (tk (i + int (length ws))) \<noteq> TOK_WORD \<Longrightarrow> scan_words tk end i = i + int (length ws)"
proof (induction ws arbitrary: i)
  case (Cons w ws)
  have "scan_words tk end i = scan_words tk end (i + 1)"
    using Cons.prems by (subst scan_words.simps) auto
  also have "\<dots> = i + 1 + int (length ws)"
    using Cons by (auto simp: algebra_simps)
  finally show ?case by simp
qed (auto simp: scan_words.simps)

lemma add_redirects_redirs:
  assumes "seg buf tk i (redirs ci)" and "c_status ci = -1" and e: "end = i + int (length (redirs ci))"
  shows "add_redirects buf tk new_info i end = Inr ci"
proof -
  obtain s ip op where ci: "ci = \<lparr>c_status = s, c_input = ip, c_output = op\<rparr>" by (cases ci) auto
  show ?thesis using assms
    by (cases ip; cases op) (simp_all add: ci redirs_def new_info_def add_redirects.simps algebra_simps)
qed

end
