(* ===== verification/Shell_Lex.thy ===== *)
theory Shell_Lex
  imports Shell_Tokenizer
begin

text \<open>
  What the lexer does.  \<open>lexes\<close> relates its state to the tokens read so far; it holds after any
  accepted input, which gives the shape of the token buffer and the bounds of both arrays.  The
  second half follows the lexer over a line of blank-separated tokens.
\<close>

section \<open>Tokens and the buffer that holds their texts\<close>

definition flatz :: "string list \<Rightarrow> string" where
  "flatz ts = concat (map (\<lambda>t. t @ [NUL]) ts)"

fun offs :: "nat \<Rightarrow> string list \<Rightarrow> nat list" where
  "offs k [] = []"
| "offs k (t # ts) = k # offs (k + length t + 1) ts"

lemma flatz_simps [simp]:
  "flatz [] = []" "flatz (t # ts) = t @ NUL # flatz ts" "flatz (xs @ ys) = flatz xs @ flatz ys"
  by (simp_all add: flatz_def)

lemma flatz_empty [simp]: "flatz ts = [] \<longleftrightarrow> ts = []"
  by (cases ts) auto

lemma last_flatz [simp]: "ts \<noteq> [] \<Longrightarrow> last (flatz ts) = NUL"
  by (induction ts rule: rev_induct) auto

lemma offs_snoc [simp]: "offs k (ts @ [t]) = offs k ts @ [k + length (flatz ts)]"
  by (induction ts arbitrary: k) auto

lemma length_offs [simp]: "length (offs k ts) = length ts"
  by (induction ts arbitrary: k) auto

lemma cstr_at_prefix:
  "NUL \<notin> set t \<Longrightarrow> cstr_at (xs @ t @ NUL # ys) (length xs) = t"
  by (subst cstr_at_def, simp, subst takeWhile_append2) auto

lemma cstr_at_offs:
  assumes "\<forall>t\<in>set ts. NUL \<notin> set t"
  shows "map (cstr_at (pre @ flatz ts @ post)) (offs (length pre) ts) = ts"
  using assms
proof (induction ts arbitrary: pre)
  case (Cons t ts)
  have "map (cstr_at ((pre @ t @ [NUL]) @ flatz ts @ post)) (offs (length (pre @ t @ [NUL])) ts) = ts"
    by (rule Cons.IH) (use Cons.prems in auto)
  then show ?case using cstr_at_prefix [of t pre "flatz ts @ post"] Cons.prems by simp
qed simp

text \<open>
  What the lexer has recognised: \<open>lexes st tks p\<close> says that the finished tokens are \<open>tks\<close> (types
  and texts), that \<open>p\<close> is the text of the unfinished token, that the texts lie null-terminated
  one after the other in the buffer, and that neither array is written past its allocation.
\<close>

definition lexes :: "lexer \<Rightarrow> (token_type \<times> string) list \<Rightarrow> string \<Rightarrow> bool" where
  "lexes st tks p \<longleftrightarrow>
     lexerbuf st = flatz (map snd tks) @ p
     \<and> last_token_index st = length (flatz (map snd tks))
     \<and> map type (lexertokens st) = map fst tks
     \<and> map offset (lexertokens st) = offs 0 (map snd tks)
     \<and> (\<forall>t\<in>set (map snd tks). t \<noteq> [] \<and> NUL \<notin> set t) \<and> NUL \<notin> set p
     \<and> is_command st = sum_list (map (nesting \<circ> fst) tks)
     \<and> length (lexerbuf st) < buf_size st
     \<and> length (lexertokens st) \<le> tokens_count st \<and> 0 < tokens_count st"

definition classify :: "bool \<Rightarrow> string \<Rightarrow> token_type" where
  "classify s p = (if s then TOK_WORD else case map_of TokAssociations p of Some ty \<Rightarrow> ty | None \<Rightarrow> TOK_WORD)"

definition stays_simple :: "bool \<Rightarrow> string \<Rightarrow> bool" where
  "stays_simple s p \<longleftrightarrow> s \<or> map_of TokAssociations p = None"

lemma lexes_simps [simp]:
  "lexes (st\<lparr>simple_command := b\<rparr>) tks p = lexes st tks p"
  "lexes (st\<lparr>line_num := l\<rparr>) tks p = lexes st tks p"
  "lexes (st\<lparr>consume_switch := cs\<rparr>) tks p = lexes st tks p"
  "lexes (st\<lparr>last_c := c\<rparr>) tks p = lexes st tks p"
  "lexes (st\<lparr>last_special := c\<rparr>) tks p = lexes st tks p"
  by (simp_all add: lexes_def)

lemma lexes_init: "lexes lexer_init [] []"
  by (simp add: lexes_def lexer_init_def)

lemma lexes_texts: "lexes st tks p \<Longrightarrow> token_texts st = map snd tks"
proof -
  assume a: "lexes st tks p"
  have "token_texts st = map (cstr_at (lexerbuf st)) (map offset (lexertokens st))"
    by (simp add: token_texts_def)
  also have "\<dots> = map snd tks"
    using a cstr_at_offs [of "map snd tks" "[]" p] by (simp add: lexes_def)
  finally show ?thesis .
qed

lemma lexes_last_type: "lexes st tks p \<Longrightarrow> last_type stray st = (if tks = [] then stray st else fst (last tks))"
proof -
  assume "lexes st tks p"
  then have "map type (lexertokens st) = map fst tks" by (simp add: lexes_def)
  then show ?thesis unfolding last_type_def by (metis last_map list.map_disc_iff)
qed

text \<open>The fields that \<open>lexer_putchar_i\<close> leaves alone.\<close>

definition same_mode :: "lexer \<Rightarrow> lexer \<Rightarrow> bool" where
  "same_mode st st' \<longleftrightarrow> line_num st' = line_num st \<and> consume_switch st' = consume_switch st
     \<and> last_c st' = last_c st \<and> last_special st' = last_special st"

lemma grow_buf_simps [simp]:
  "lexerbuf (grow_buf st) = lexerbuf st" "lexertokens (grow_buf st) = lexertokens st"
  "last_token_index (grow_buf st) = last_token_index st" "is_command (grow_buf st) = is_command st"
  "simple_command (grow_buf st) = simple_command st" "tokens_count (grow_buf st) = tokens_count st"
  "same_mode st' (grow_buf st) = same_mode st' st"
  by (simp_all add: grow_buf_def same_mode_def)

lemma grow_buf_size: "length (lexerbuf st) \<le> buf_size st \<Longrightarrow> 0 < buf_size st \<Longrightarrow>
  length (lexerbuf st) < buf_size (grow_buf st)"
  by (simp add: grow_buf_def)

lemma putchar_i_char:
  assumes "lexes st tks p" and "c \<noteq> NUL"
  shows "lexes (lexer_putchar_i c st) tks (p @ [c])"
    and "simple_command (lexer_putchar_i c st) = simple_command st"
    and "same_mode st (lexer_putchar_i c st)"
proof -
  let ?s = "st\<lparr>lexerbuf := lexerbuf st @ [c]\<rparr>"
  have "length (lexerbuf ?s) < buf_size (grow_buf ?s)"
    by (rule grow_buf_size) (use assms in \<open>auto simp: lexes_def\<close>)
  then show "lexes (lexer_putchar_i c st) tks (p @ [c])"
    using assms by (auto simp: lexes_def lexer_putchar_i_def)
  show "simple_command (lexer_putchar_i c st) = simple_command st"
    using assms(2) by (simp add: lexer_putchar_i_def)
  show "same_mode st (lexer_putchar_i c st)"
    using assms(2) by (simp add: lexer_putchar_i_def same_mode_def [of _ "_\<lparr>lexerbuf := _\<rparr>"])
qed

lemma putchar_i_nul_idle:
  assumes "lexes st tks []" shows "lexer_putchar_i NUL st = st"
  using assms by (auto simp: lexes_def lexer_putchar_i_def)

lemma putchar_i_nul:
  assumes "lexes st tks p" and "p \<noteq> []"
  shows "lexes (lexer_putchar_i NUL st) (tks @ [(classify (simple_command st) p, p)]) []"
    and "simple_command (lexer_putchar_i NUL st) = stays_simple (simple_command st) p"
    and "same_mode st (lexer_putchar_i NUL st)"
proof -
  let ?s = "finish_token st"
  have np: "NUL \<notin> set p" and buf: "lexerbuf st = flatz (map snd tks) @ p"
    and lti: "last_token_index st = length (flatz (map snd tks))"
    using assms by (simp_all add: lexes_def)
  have nz: "last p \<noteq> NUL" using np assms(2) last_in_set by fastforce
  then have eq: "lexer_putchar_i NUL st = grow_buf ?s"
    using assms(2) buf by (simp add: lexer_putchar_i_def)
  have tx: "cstr_at (flatz (map snd tks) @ p @ [NUL]) (length (flatz (map snd tks))) = p"
    using cstr_at_prefix [of p "flatz (map snd tks)" "[]"] np by simp
  have size: "length (lexerbuf ?s) < buf_size (grow_buf ?s)"
    by (rule grow_buf_size)
      (use assms tx buf lti in \<open>auto simp: lexes_def finish_token_def lexer_assign_type_def Let_def split: option.splits\<close>)
  show "lexes (lexer_putchar_i NUL st) (tks @ [(classify (simple_command st) p, p)]) []"
    unfolding eq using assms size tx
    by (auto simp: lexes_def finish_token_def lexer_assign_type_def Let_def classify_def
        split: option.splits)
  show "simple_command (lexer_putchar_i NUL st) = stays_simple (simple_command st) p"
    unfolding eq using tx buf lti
    by (auto simp: finish_token_def lexer_assign_type_def Let_def stays_simple_def split: option.splits)
  show "same_mode st (lexer_putchar_i NUL st)"
    unfolding eq by (auto simp: finish_token_def lexer_assign_type_def Let_def same_mode_def grow_buf_def split: option.splits)
qed

text \<open>The tokens after a null character.\<close>

definition flushed :: "bool \<Rightarrow> (token_type \<times> string) list \<Rightarrow> string \<Rightarrow> (token_type \<times> string) list" where
  "flushed s tks p = (if p = [] then tks else tks @ [(classify s p, p)])"

lemma putchar_i_flush:
  assumes "lexes st tks p"
  shows "lexes (lexer_putchar_i NUL st) (flushed (simple_command st) tks p) []"
    and "same_mode st (lexer_putchar_i NUL st)"
    and "simple_command (lexer_putchar_i NUL st) = (if p = [] then simple_command st else stays_simple (simple_command st) p)"
  using putchar_i_nul [OF assms] putchar_i_nul_idle [of st tks] assms by (cases "p = []"; simp add: flushed_def same_mode_def)+




section \<open>Every accepted input fills the buffer with its tokens\<close>

definition separator :: "char \<Rightarrow> bool" where
  "separator c \<longleftrightarrow> c \<in> set ('' '' @ [TAB, NL] @ '';|()'') \<or> c = NUL"

definition lex_ok :: "lexer \<Rightarrow> bool" where
  "lex_ok st \<longleftrightarrow> (\<exists>tks p. lexes st tks p \<and> (consume_switch st \<or> separator (last_c st) \<longrightarrow> p = []))"

lemma putchar_i_flush_ex:
  assumes "lexes st tks p" shows "\<exists>tks'. lexes (lexer_putchar_i NUL st) tks' []"
  using putchar_i_flush(1) [OF assms] by blast

lemma operator_ex:
  assumes "lexes st tks p" and "c \<noteq> NUL"
  shows "\<exists>tks'. lexes (lexer_putchar_i NUL (lexer_putchar_i c
           ((lexer_putchar_i NUL st)\<lparr>simple_command := False\<rparr>))) tks' []"
proof -
  obtain t1 where "lexes ((lexer_putchar_i NUL st)\<lparr>simple_command := False\<rparr>) t1 []"
    using putchar_i_flush_ex [OF assms(1)] by auto
  from putchar_i_char(1) [OF this assms(2)] show ?thesis by (rule putchar_i_flush_ex)
qed

lemma delimiter_ex:
  "lexes st tks p \<Longrightarrow> c \<noteq> NUL \<Longrightarrow> delimiter c st = Inr st' \<Longrightarrow> \<exists>tks'. lexes st' tks' []"
  using operator_ex [of st tks p c] by (auto simp: delimiter_def split: if_splits)

lemma newline_rest_ex:
  assumes "lexes s t1 []" and "newline_rest stray s = Inr st'"
  shows "\<exists>tks'. lexes st' tks' []"
proof -
  have "st' = s \<or> st' = lexer_putchar_i NUL (lexer_putchar_i CHR '';'' s) \<or> delimiter NL s = Inr st'"
    using assms(2) by (auto simp: newline_rest_def split: if_splits)
  then consider "st' = s" | "st' = lexer_putchar_i NUL (lexer_putchar_i CHR '';'' s)" | "delimiter NL s = Inr st'"
    by blast
  then show ?thesis
  proof cases
    case 1 then show ?thesis using assms(1) by blast
  next
    case 2 then show ?thesis
      using putchar_i_flush_ex [OF putchar_i_char(1) [OF assms(1), of "CHR '';''"]] by simp
  next
    case 3 then show ?thesis by (rule delimiter_ex [OF assms(1), rotated]) simp
  qed
qed

lemma newline_ex:
  assumes "lexes st tks p" and "newline_char stray st = Inr st'"
  shows "\<exists>tks'. lexes st' tks' []"
proof -
  let ?l = "st\<lparr>line_num := line_num st + 1\<rparr>"
  have "lexes ?l tks p" using assms(1) by simp
  from putchar_i_flush_ex [OF this] obtain t1 where
    "lexes ((lexer_putchar_i NUL ?l)\<lparr>simple_command := False\<rparr>) t1 []" by auto
  from newline_rest_ex [OF this] show ?thesis
    using assms(2) unfolding newline_char_def by (metis sum.distinct(1))
qed

lemma putchar_switch_ok:
  assumes l: "lexes st tks p" and sep: "separator (last_c st) \<longrightarrow> p = []"
    and sw: "putchar_switch stray c st = Inr st'" and nc: "\<not> consume_switch st"
  shows "\<exists>tks' p'. lexes st' tks' p' \<and> (consume_switch st' \<or> separator c \<longrightarrow> p' = [])"
proof -
  consider (blank) "c = CHR '' '' \<or> c = TAB" | (redir) "c = CHR ''>'' \<or> c = CHR ''<''" | (nl) "c = NL"
    | (op) "c = CHR ''|'' \<or> c = CHR '';'' \<or> c = CHR ''('' \<or> c = CHR '')''" | (com) "c = CHR ''#''"
    | (word) "\<not> (c = CHR '' '' \<or> c = TAB)" "\<not> (c = CHR ''>'' \<or> c = CHR ''<'')" "c \<noteq> NL"
        "\<not> (c = CHR ''|'' \<or> c = CHR '';'' \<or> c = CHR ''('' \<or> c = CHR '')'')" "c \<noteq> CHR ''#''"
    by blast
  then show ?thesis
  proof cases
    case blank
    then have "st' = lexer_putchar_i NUL st" using sw by (auto simp: putchar_switch_def)
    then show ?thesis using putchar_i_flush_ex [OF l] by blast
  next
    case redir
    then have "redirect_char c st = Inr st'" using sw by (auto simp: putchar_switch_def)
    then have "st' = (lexer_putchar_i NUL (lexer_putchar_i c
             ((lexer_putchar_i NUL st)\<lparr>simple_command := False\<rparr>)))\<lparr>simple_command := True\<rparr>"
      by (simp add: redirect_char_def split: if_splits)
    moreover have "c \<noteq> NUL" using redir by auto
    ultimately show ?thesis using operator_ex [OF l, of c] by auto
  next
    case nl
    then have "newline_char stray st = Inr st'" using sw by (simp add: putchar_switch_def)
    then show ?thesis using newline_ex [OF l] by blast
  next
    case op
    then have "delimiter c st = Inr st'" using sw by (auto simp: putchar_switch_def)
    moreover have "c \<noteq> NUL" using op by auto
    ultimately show ?thesis using delimiter_ex [OF l] by blast
  next
    case com
    then have "comment_char c st = Inr st'" using sw by (simp add: putchar_switch_def)
    then have st': "st' = st\<lparr>simple_command := False, consume_switch := True\<rparr>" and "separator (last_c st)"
      by (auto simp: comment_char_def Let_def separator_def strchr_hit_def split: if_splits)
    then have "p = []" using sep by simp
    then show ?thesis using l unfolding st' by (intro exI [of _ tks] exI [of _ "[]"]) simp
  next
    case word
    then have st': "st' = lexer_putchar_i c st"
      using sw by (simp add: putchar_switch_def split: if_splits)
    show ?thesis
    proof (cases "c = NUL")
      case True
      then show ?thesis using putchar_i_flush_ex [OF l] unfolding st' by blast
    next
      case False
      then have "\<not> separator c" using word by (auto simp: separator_def)
      moreover have "\<not> consume_switch st'"
        using putchar_i_char(3) [OF l False] nc unfolding st' by (simp add: same_mode_def)
      ultimately show ?thesis using putchar_i_char(1) [OF l False] unfolding st' by blast
    qed
  qed
qed

lemma lex_ok_step: "lex_ok st \<Longrightarrow> lexer_putchar stray c st = Inr st' \<Longrightarrow> lex_ok st'"
proof -
  assume ok: "lex_ok st" and step: "lexer_putchar stray c st = Inr st'"
  obtain tks p where l: "lexes st tks p" and e: "consume_switch st \<or> separator (last_c st) \<longrightarrow> p = []"
    using ok unfolding lex_ok_def by blast
  show "lex_ok st'"
  proof (cases "consume_switch st \<and> c \<noteq> NL")
    case True
    then show ?thesis using step ok by (simp add: lexer_putchar_def)
  next
    case False
    then obtain st1 where st1: "putchar_switch stray c (st\<lparr>consume_switch := False\<rparr>) = Inr st1"
      and st': "st' = st1\<lparr>last_special := (if strchr_hit ('' '' @ [TAB, NL]) c then last_special st1 else c),
        last_c := c\<rparr>"
      using step by (auto simp: lexer_putchar_def split: sum.splits)
    obtain tks' p' where "lexes st1 tks' p'" "consume_switch st1 \<or> separator c \<longrightarrow> p' = []"
      using putchar_switch_ok [OF _ _ st1, of tks p] l e by auto
    then show ?thesis unfolding lex_ok_def st' by auto
  qed
qed

lemma lex_ok_chars: "lex_ok st \<Longrightarrow> lex_chars stray cs st = Inr st' \<Longrightarrow> lex_ok st'"
  by (induction cs arbitrary: st) (auto split: sum.splits intro: lex_ok_step)

lemma tokenize_lexes:
  assumes "tokenize stray input = Inr st" shows "\<exists>tks. lexes st tks []"
proof -
  obtain st1 where s1: "lex_chars stray (takeWhile (\<lambda>c. c \<noteq> CHR 0xFF) input) lexer_init = Inr st1"
    and s2: "lexer_putchar stray NUL st1 = Inr st"
    using assms by (auto simp: tokenize_def split: sum.splits)
  have ok1: "lex_ok st1"
    by (rule lex_ok_chars [OF _ s1]) (use lexes_init in \<open>auto simp: lex_ok_def\<close>)
  show ?thesis
  proof (cases "consume_switch st1")
    case True
    then have "st = st1" using s2 by (simp add: lexer_putchar_def)
    then show ?thesis using ok1 True by (auto simp: lex_ok_def)
  next
    case False
    then have "last_c st = NUL" using s2 by (auto simp: lexer_putchar_def split: sum.splits)
    then show ?thesis using lex_ok_step [OF ok1 s2] by (auto simp: lex_ok_def separator_def)
  qed
qed

text \<open>
  C27 Whatever the input, when it is accepted the token buffer holds exactly the texts of the
  tokens, each not empty and terminated by a null, one after the other at the recorded
  offsets; the nesting counter is the openers minus the closers; and neither array was written
  beyond its allocation.
\<close>
theorem tokenize_buffer:
  assumes "tokenize stray input = Inr st"
  shows "lexerbuf st = flatz (token_texts st)
    \<and> map offset (lexertokens st) = offs 0 (token_texts st)
    \<and> (\<forall>t\<in>set (token_texts st). t \<noteq> [] \<and> NUL \<notin> set t)
    \<and> is_command st = sum_list (map (nesting \<circ> type) (lexertokens st))
    \<and> length (lexerbuf st) < buf_size st \<and> length (lexertokens st) \<le> tokens_count st"
proof -
  obtain tks where l: "lexes st tks []" using tokenize_lexes [OF assms] by blast
  have "sum_list (map (nesting \<circ> type) (lexertokens st)) = sum_list (map nesting (map type (lexertokens st)))"
    by simp
  also have "\<dots> = sum_list (map (nesting \<circ> fst) tks)" using l by (simp add: lexes_def)
  finally show ?thesis using l lexes_texts [OF l] by (auto simp: lexes_def)
qed

section \<open>Lexing a line of tokens\<close>

definition word_char :: "char \<Rightarrow> bool" where
  "word_char c \<longleftrightarrow> valid_char c \<and> c \<noteq> NUL"

abbreviation operator_texts :: "string set" where
  "operator_texts \<equiv> {''|'', '';'', ''('', '')''}"

abbreviation redirect_texts :: "string set" where
  "redirect_texts \<equiv> {''<'', ''>''}"

definition is_word :: "string \<Rightarrow> bool" where
  "is_word w \<longleftrightarrow> w \<noteq> [] \<and> (\<forall>c\<in>set w. word_char c)"

text \<open>The type a text gets and whether the texts after it are all words.\<close>

definition token_class :: "bool \<Rightarrow> string \<Rightarrow> token_type" where
  "token_class s t = classify (s \<and> t \<notin> operator_texts \<union> redirect_texts) t"

definition then_simple :: "bool \<Rightarrow> string \<Rightarrow> bool" where
  "then_simple s t \<longleftrightarrow> t \<in> redirect_texts \<or> t \<notin> operator_texts \<and> stays_simple s t"

fun lexed :: "bool \<Rightarrow> string list \<Rightarrow> (token_type \<times> string) list" where
  "lexed s [] = []"
| "lexed s (t # ts) = (token_class s t, t) # lexed (then_simple s t) ts"

definition spaced :: "string list \<Rightarrow> string" where
  "spaced ts = concat (map (\<lambda>t. t @ '' '') ts)"

lemma spaced_simps [simp]: "spaced [] = []" "spaced (t # ts) = t @ CHR '' '' # spaced ts"
  by (simp_all add: spaced_def)

lemma word_char_special:
  "word_char c \<Longrightarrow> c \<noteq> CHR '' '' \<and> c \<noteq> TAB \<and> c \<noteq> NL \<and> c \<noteq> CHR ''<'' \<and> c \<noteq> CHR ''>'' \<and> c \<noteq> CHR ''|''
     \<and> c \<noteq> CHR '';'' \<and> c \<noteq> CHR ''('' \<and> c \<noteq> CHR '')'' \<and> c \<noteq> CHR ''#'' \<and> c \<noteq> NUL"
  by (auto simp: word_char_def valid_char_def isalnum_def strchr_hit_def)

lemma lex_chars_append:
  "lex_chars stray (xs @ ys) st = (case lex_chars stray xs st of Inl e \<Rightarrow> Inl e | Inr st \<Rightarrow> lex_chars stray ys st)"
  by (induction xs arbitrary: st) (auto split: sum.splits)

text \<open>A state of the lexer outside comments, in which \<open>tks\<close> and the unfinished \<open>p\<close> are read.\<close>

definition at_token :: "lexer \<Rightarrow> (token_type \<times> string) list \<Rightarrow> string \<Rightarrow> bool \<Rightarrow> char \<Rightarrow> bool" where
  "at_token st tks p s c \<longleftrightarrow> lexes st tks p \<and> \<not> consume_switch st \<and> simple_command st = s \<and> last_c st = c"

lemma lexer_putchar_run:
  assumes "putchar_switch stray c st = Inr st'" and "\<not> consume_switch st" and "\<not> consume_switch st'"
    and "lexes st' tks p"
  shows "\<exists>st''. lexer_putchar stray c st = Inr st'' \<and> at_token st'' tks p (simple_command st') c"
proof -
  have same: "st\<lparr>consume_switch := False\<rparr> = st" using assms(2) by simp
  define x where "x = (if strchr_hit ('' '' @ [TAB, NL]) c then last_special st' else c)"
  have "lexer_putchar stray c st = Inr (st'\<lparr>last_special := x, last_c := c\<rparr>)"
    unfolding lexer_putchar_def same assms(1) x_def by (simp only: assms(2) if_False sum.case simp_thms)
  moreover have "at_token (st'\<lparr>last_special := x, last_c := c\<rparr>) tks p (simple_command st') c"
    using assms(3,4) by (simp add: at_token_def)
  ultimately show ?thesis by blast
qed

lemma lex_word_char:
  assumes "at_token st tks p s c0" and "word_char c"
  shows "\<exists>st'. lexer_putchar stray c st = Inr st' \<and> at_token st' tks (p @ [c]) s c"
proof -
  have l: "lexes st tks p" and e: "\<not> consume_switch st" "simple_command st = s"
    using assms(1) by (simp_all add: at_token_def)
  have nz: "c \<noteq> NUL" using assms(2) by (simp add: word_char_def)
  have sw: "putchar_switch stray c st = Inr (lexer_putchar_i c st)"
    using word_char_special [OF assms(2)] assms(2) by (simp add: putchar_switch_def word_char_def)
  note ch = putchar_i_char [OF l nz]
  have "\<not> consume_switch (lexer_putchar_i c st)" using ch(3) e by (simp add: same_mode_def)
  from lexer_putchar_run [OF sw e(1) this ch(1)] show ?thesis using ch(2) e by simp
qed

lemma lex_word_chars:
  "at_token st tks p s c0 \<Longrightarrow> \<forall>c\<in>set w. word_char c \<Longrightarrow>
   \<exists>st' c'. lex_chars stray w st = Inr st' \<and> at_token st' tks (p @ w) s c' \<and> (w \<noteq> [] \<longrightarrow> word_char c')"
proof (induction w arbitrary: st p c0)
  case (Cons c w)
  obtain st1 where s1: "lexer_putchar stray c st = Inr st1" "at_token st1 tks (p @ [c]) s c"
    using lex_word_char [OF Cons.prems(1), of c stray] Cons.prems(2) by auto
  obtain st2 c' where "lex_chars stray w st1 = Inr st2" "at_token st2 tks ((p @ [c]) @ w) s c'" "w \<noteq> [] \<longrightarrow> word_char c'"
    using Cons.IH [OF s1(2)] Cons.prems(2) by auto
  then show ?case using s1 Cons.prems(2) by (cases "w = []") (auto simp: at_token_def)
qed auto

lemma lex_blank:
  assumes "at_token st tks p s c0"
  shows "\<exists>st'. lexer_putchar stray CHR '' '' st = Inr st'
    \<and> at_token st' (flushed s tks p) [] (if p = [] then s else stays_simple s p) CHR '' ''"
proof -
  have l: "lexes st tks p" and e: "\<not> consume_switch st" "simple_command st = s"
    using assms(1) by (simp_all add: at_token_def)
  have sw: "putchar_switch stray CHR '' '' st = Inr (lexer_putchar_i NUL st)"
    by (simp add: putchar_switch_def)
  note fl = putchar_i_flush [OF l]
  have "\<not> consume_switch (lexer_putchar_i NUL st)" using fl(2) e by (simp add: same_mode_def)
  from lexer_putchar_run [OF sw e(1) this fl(1)] show ?thesis unfolding fl(3) e(2) .
qed

text \<open>The single-character tokens end the token before them and are tokens themselves.\<close>

lemma operator_tokens:
  assumes "lexes st tks []" and "c \<noteq> NUL"
  defines "st' \<equiv> lexer_putchar_i NUL (lexer_putchar_i c ((lexer_putchar_i NUL st)\<lparr>simple_command := False\<rparr>))"
  shows "lexes st' (tks @ [(classify False [c], [c])]) []" and "simple_command st' = stays_simple False [c]"
    and "same_mode st st'"
proof -
  let ?s = "st\<lparr>simple_command := False\<rparr>"
  have idle: "lexer_putchar_i NUL st = st" by (rule putchar_i_nul_idle [OF assms(1)])
  have s: "lexes ?s tks []" using assms(1) by simp
  note ch = putchar_i_char [OF s assms(2)]
  have c1: "lexes (lexer_putchar_i c ?s) tks [c]" using ch(1) by simp
  note fl = putchar_i_nul [OF c1]
  show "lexes st' (tks @ [(classify False [c], [c])]) []" "simple_command st' = stays_simple False [c]"
    "same_mode st st'"
    using ch fl unfolding st'_def idle by (simp_all add: same_mode_def)
qed

lemma lex_operator:
  assumes "at_token st tks [] s c0" and "c0 \<notin> {CHR ''<'', CHR ''>'', NUL}" and "[c] \<in> operator_texts"
  shows "\<exists>st'. lexer_putchar stray c st = Inr st' \<and> at_token st' (tks @ [(classify False [c], [c])]) [] False c"
proof -
  let ?s = "lexer_putchar_i NUL (lexer_putchar_i c ((lexer_putchar_i NUL st)\<lparr>simple_command := False\<rparr>))"
  have l: "lexes st tks []" and e: "\<not> consume_switch st" "last_c st = c0"
    using assms(1) by (simp_all add: at_token_def)
  have nz: "c \<noteq> NUL" using assms(3) by auto
  have nh: "\<not> strchr_hit ''<>'' (last_c st)" using assms(2) e by (auto simp: strchr_hit_def)
  have sw: "putchar_switch stray c st = Inr ?s"
    using assms(3) nh by (auto simp: putchar_switch_def delimiter_def)
  have ns: "\<not> stays_simple False [c]" using assms(3) by (auto simp: stays_simple_def TokAssociations_def)
  note op = operator_tokens [OF l nz]
  have "\<not> consume_switch ?s" using op(3) e by (simp add: same_mode_def)
  from lexer_putchar_run [OF sw e(1) this op(1)] show ?thesis using op(2) ns by simp
qed

lemma lex_redirect:
  assumes "at_token st tks [] s c0" and "c0 \<notin> {CHR ''<'', CHR ''>'', NUL}" and "[c] \<in> redirect_texts"
  shows "\<exists>st'. lexer_putchar stray c st = Inr st' \<and> at_token st' (tks @ [(classify False [c], [c])]) [] True c"
proof -
  let ?s = "lexer_putchar_i NUL (lexer_putchar_i c ((lexer_putchar_i NUL st)\<lparr>simple_command := False\<rparr>))"
  have l: "lexes st tks []" and e: "\<not> consume_switch st" "last_c st = c0"
    using assms(1) by (simp_all add: at_token_def)
  have nz: "c \<noteq> NUL" using assms(3) by auto
  have nh: "\<not> strchr_hit ''<>'' (last_c st)" using assms(2) e by (auto simp: strchr_hit_def)
  have sw: "putchar_switch stray c st = Inr (?s\<lparr>simple_command := True\<rparr>)"
    using assms(3) nh by (auto simp: putchar_switch_def redirect_char_def)
  note op = operator_tokens [OF l nz]
  have nc: "\<not> consume_switch (?s\<lparr>simple_command := True\<rparr>)" using op(3) e by (simp add: same_mode_def)
  have lx: "lexes (?s\<lparr>simple_command := True\<rparr>) (tks @ [(classify False [c], [c])]) []" using op(1) by simp
  from lexer_putchar_run [OF sw e(1) nc lx] show ?thesis by simp
qed

definition is_item :: "string \<Rightarrow> bool" where
  "is_item t \<longleftrightarrow> is_word t \<or> t \<in> operator_texts \<union> redirect_texts"

lemma word_not_operator: "is_word t \<Longrightarrow> t \<notin> operator_texts \<union> redirect_texts"
proof
  assume w: "is_word t" and "t \<in> operator_texts \<union> redirect_texts"
  then obtain c where t: "t = [c]" and c: "c \<in> {CHR ''|'', CHR '';'', CHR ''('', CHR '')'', CHR ''<'', CHR ''>''}"
    by auto
  have "word_char c" using w by (simp add: is_word_def t)
  from word_char_special [OF this] c show False by simp
qed

lemma lex_item:
  assumes "at_token st tks [] s c0" and "is_item t"
    and "is_word t \<or> c0 \<notin> {CHR ''<'', CHR ''>'', NUL}"
  shows "\<exists>st'. lex_chars stray (t @ '' '') st = Inr st'
    \<and> at_token st' (tks @ [(token_class s t, t)]) [] (then_simple s t) CHR '' ''"
proof (cases "is_word t")
  case True
  obtain st1 c1 where s1: "lex_chars stray t st = Inr st1" "at_token st1 tks t s c1"
    using lex_word_chars [OF assms(1)] True by (force simp: is_word_def)
  have "t \<noteq> []" using True by (simp add: is_word_def)
  then show ?thesis
    using lex_blank [OF s1(2), of stray] s1(1) word_not_operator [OF True]
    by (auto simp: lex_chars_append flushed_def token_class_def then_simple_def)
next
  case False
  then have op: "t \<in> operator_texts \<union> redirect_texts" and c0: "c0 \<notin> {CHR ''<'', CHR ''>'', NUL}"
    using assms by (auto simp: is_item_def)
  then obtain c where t: "t = [c]" by auto
  have tc: "token_class s t = classify False [c]" using op by (auto simp: token_class_def t)
  obtain st1 where s1: "lexer_putchar stray c st = Inr st1"
    "at_token st1 (tks @ [(classify False [c], [c])]) [] (then_simple s t) c"
    using lex_operator [OF assms(1) c0, of c stray] lex_redirect [OF assms(1) c0, of c stray] op
    unfolding then_simple_def t by (cases "[c] \<in> operator_texts") auto
  show ?thesis using lex_blank [OF s1(2), of stray] s1(1) tc by (auto simp: t flushed_def)
qed

lemma lex_items:
  "at_token st tks [] s c0 \<Longrightarrow> \<forall>t\<in>set ts. is_item t \<Longrightarrow>
   ts = [] \<or> is_word (hd ts) \<or> c0 \<notin> {CHR ''<'', CHR ''>'', NUL} \<Longrightarrow>
   \<exists>st' s'. lex_chars stray (spaced ts) st = Inr st'
     \<and> at_token st' (tks @ lexed s ts) [] s' (if ts = [] then c0 else CHR '' '')"
proof (induction ts arbitrary: st tks s c0)
  case (Cons t ts)
  obtain st1 where s1: "lex_chars stray (t @ '' '') st = Inr st1"
    "at_token st1 (tks @ [(token_class s t, t)]) [] (then_simple s t) CHR '' ''"
    using lex_item [OF Cons.prems(1)] Cons.prems(2,3) by force
  obtain st2 s2 where s2: "lex_chars stray (spaced ts) st1 = Inr st2"
    "at_token st2 ((tks @ [(token_class s t, t)]) @ lexed (then_simple s t) ts) [] s2 CHR '' ''"
    using Cons.IH [OF s1(2)] Cons.prems(2) by force
  have "spaced (t # ts) = (t @ '' '') @ spaced ts" by simp
  then have "lex_chars stray (spaced (t # ts)) st = Inr st2"
    using s1(1) s2(1) by (simp only: lex_chars_append sum.case)
  then show ?case using s2(2) by auto
qed auto

text \<open>A newline outside every nested command, behind a token that can end a command.\<close>

lemma lex_newline:
  assumes "at_token st tks [] s CHR '' ''" and "tks \<noteq> []" and "\<not> is_reserved (fst (last tks))"
    and "sum_list (map (nesting \<circ> fst) tks) = 0"
  shows "\<exists>st'. lexer_putchar stray NL st = Inr st' \<and> at_token st' (tks @ [(TOK_NL, [NL])]) [] False NL"
proof -
  let ?l = "st\<lparr>line_num := line_num st + 1\<rparr>" and ?s = "st\<lparr>line_num := line_num st + 1, simple_command := False\<rparr>"
  let ?n = "lexer_putchar_i NUL (lexer_putchar_i NL ((lexer_putchar_i NUL ?s)\<lparr>simple_command := False\<rparr>))"
  have l: "lexes ?l tks []" and e: "\<not> consume_switch st" "last_c st = CHR '' ''"
    using assms(1) by (simp_all add: at_token_def)
  have idle: "lexer_putchar_i NUL ?l = ?l" by (rule putchar_i_nul_idle [OF l])
  have ls: "lexes ?s tks []" using l by simp
  have lt: "last_type stray ?s = fst (last tks)" using lexes_last_type [OF ls] assms(2) by simp
  have ic: "is_command ?s = 0" using ls assms(4) by (simp add: lexes_def)
  have "newline_rest stray ?s = delimiter NL ?s"
    unfolding newline_rest_def lt ic using assms(3) e by (simp add: strchr_hit_def)
  also have "\<dots> = Inr ?n" using e by (simp add: delimiter_def strchr_hit_def)
  finally have nr: "newline_rest stray ?s = Inr ?n" .
  have sw: "putchar_switch stray NL st = Inr ?n"
  proof -
    have "putchar_switch stray NL st = newline_char stray st" by (simp add: putchar_switch_def)
    also have "\<dots> = newline_rest stray (?l\<lparr>simple_command := False\<rparr>)"
      unfolding newline_char_def idle using e by (simp add: strchr_hit_def)
    also have "\<dots> = Inr ?n" using nr by simp
    finally show ?thesis .
  qed
  have cl: "classify False [NL] = TOK_NL" "\<not> stays_simple False [NL]"
    by (simp_all add: classify_def stays_simple_def TokAssociations_def)
  note op = operator_tokens [OF ls, of NL]
  have "\<not> consume_switch ?n" using op(3) e by (simp add: same_mode_def)
  from lexer_putchar_run [OF sw e(1) this op(1)] show ?thesis using op(2) cl by simp
qed

end
