(* ===== verification/Shell_Roundtrip.thy ===== *)
theory Shell_Roundtrip
  imports Shell_Syntax Shell_Lex
begin

text \<open>
  The parser reads back every command of the grammar (\<open>parses_flat\<close>), the command stream every list
  of them, and the lexer gives the texts of a command their types (\<open>spells_flat\<close>).
\<close>

section \<open>Parsing a segment that spells a command\<close>

definition parses :: "string \<Rightarrow> (int \<Rightarrow> token) \<Rightarrow> command \<Rightarrow> bool" where
  "parses buf tk c \<longleftrightarrow>
     (\<forall>s e. 0 \<le> s \<longrightarrow> seg buf tk s (flat c) \<longrightarrow> e = s + int (length (flat c)) \<longrightarrow> type (tk e) \<noteq> TOK_WORD \<longrightarrow>
          parse buf tk s e = Inr c)"

lemma parsesD:
  "parses buf tk c \<Longrightarrow> 0 \<le> s \<Longrightarrow> seg buf tk s (flat c) \<Longrightarrow> e = s + int (length (flat c)) \<Longrightarrow> type (tk e) \<noteq> TOK_WORD \<Longrightarrow>
   parse buf tk s e = Inr c"
  by (simp add: parses_def)

lemma end_token:
  assumes "wf_command c" and "seg buf tk s (flat c)" and "e = s + int (length (flat c))"
  shows "type (tk (e - 1)) \<in> {TOK_WORD, TOK_RPAREN, TOK_FI, TOK_DONE}"
  using seg_last [OF assms(2)] flat_last [OF assms(1)] assms(1,3) by simp

text \<open>A condition and its trailing semicolon, as \<open>check_fail_parse\<close> takes it.\<close>

lemma check_fail_parse_flat:
  assumes "parses buf tk c" and "0 \<le> s" and "seg buf tk s (flat c)"
    and "i = s + int (length (flat c))" and "type (tk i) = TOK_SC" and "e = i + 1"
  shows "check_fail_parse buf tk s e = Inr c"
  using parsesD [OF assms(1-4)] assms(5,6) by (simp add: check_fail_parse.simps)

lemma check_fail_parse_flat_end:
  assumes "parses buf tk c" and "0 \<le> s" and "wf_command c" and "seg buf tk s (flat c)"
    and "e = s + int (length (flat c))" and "type (tk e) \<noteq> TOK_WORD"
  shows "check_fail_parse buf tk s e = Inr c"
  using parsesD [OF assms(1,2,4,5,6)] end_token [OF assms(3,4,5)] by (auto simp: check_fail_parse.simps)

lemma parse_last_ok:
  assumes "type (tk (e - 1)) \<in> {TOK_WORD, TOK_RPAREN, TOK_FI, TOK_DONE}"
  shows "parse buf tk s e =
     (case scan_back TOK_SC tk s (e - 1) 0 of
        Some i \<Rightarrow> and_then (parse buf tk s i) (\<lambda>l.
                   and_then (parse buf tk (i + 1) e) (\<lambda>r. Inr (SEQUENCE_COMMAND new_info l r)))
      | None \<Rightarrow> (case scan_back TOK_PIPE tk s (e - 1) 0 of
        Some i \<Rightarrow> and_then (parse buf tk s i) (\<lambda>l.
                   and_then (parse buf tk (i + 1) e) (\<lambda>r. Inr (PIPE_COMMAND new_info l r)))
      | None \<Rightarrow>
          if type (tk s) = TOK_IF then magical_if_parser buf tk s e
          else if type (tk s) = TOK_WHILE \<or> type (tk s) = TOK_UNTIL
          then magical_while_until_parser buf tk s e
          else if type (tk s) = TOK_LPAREN then magical_subshell_parser buf tk s e
          else if type (tk s) = TOK_WORD then magical_word_parser buf tk s e
          else Inl (tok_line (tk s), Invalid_token)))"
proof -
  have "type (tk (e - 1)) \<notin> {TOK_SC, TOK_PIPE, TOK_LAB, TOK_RAB}" using assms by auto
  then show ?thesis by (simp only: parse.simps [of buf tk s e] if_False)
qed

lemma parse_single:
  assumes "wf_command c" and "\<not> is_sequence c" and "\<not> is_pipe c" and s: "seg buf tk s (flat c)"
    and e: "e = s + int (length (flat c))"
  shows "parse buf tk s e =
    (if type (tk s) = TOK_IF then magical_if_parser buf tk s e
     else if type (tk s) = TOK_WHILE \<or> type (tk s) = TOK_UNTIL then magical_while_until_parser buf tk s e
     else if type (tk s) = TOK_LPAREN then magical_subshell_parser buf tk s e
     else if type (tk s) = TOK_WORD then magical_word_parser buf tk s e
     else Inl (tok_line (tk s), Invalid_token))"
proof -
  have 1: "scan_back TOK_SC tk s (e - 1) 0 = None"
    using scan_back_none [OF s, of TOK_SC 0] quiet_back_SC [OF assms(1), of 0] assms(1,2) e by simp
  have 2: "scan_back TOK_PIPE tk s (e - 1) 0 = None"
    using scan_back_none [OF s, of TOK_PIPE 0] quiet_back_PIPE [OF assms(1), of 0] assms(1-3) e by simp
  show ?thesis
    unfolding parse_last_ok [of tk e buf s, OF end_token [OF assms(1) s e]] 1 2 by simp
qed

lemma scan_back_from_op:
  assumes "seg buf tk s (flat l)" and "wf_command l" and "\<not> is_sequence l" and i: "i = s + int (length (flat l))"
    and op: "type (tk i) = TOK_PIPE"
  shows "scan_back TOK_SC tk s i 0 = None"
proof -
  have "s < i" using assms(2) by (simp add: i)
  then have "scan_back TOK_SC tk s i 0 = scan_back TOK_SC tk s (i - 1) 0"
    using op by (subst scan_back.simps) simp
  also have "\<dots> = None"
    using scan_back_none [OF assms(1), of TOK_SC 0] quiet_back_SC [OF assms(2), of 0] assms(2,3) i by simp
  finally show ?thesis .
qed

lemma scan_back_to_op:
  assumes sr: "seg buf tk (i + 1) (flat r)" and wr: "wf_command r" "\<not> is_sequence r"
    and ty: "ty = TOK_SC \<or> ty = TOK_PIPE \<and> \<not> is_pipe r" and e: "e = i + 1 + int (length (flat r))" and "s \<le> i"
  shows "scan_back ty tk s (e - 1) 0 = scan_back ty tk s i 0"
proof -
  have "quiet_back ty 0 (rev (flat r))"
    using quiet_back_SC [OF wr(1), of 0] quiet_back_PIPE [OF wr(1), of 0] wr(2) ty by auto
  from scan_back_over [OF sr this, of s] show ?thesis using assms(6) by (simp add: e)
qed

lemma parse_sequence:
  assumes pl: "parses buf tk l" and pr: "parses buf tk r" and s: "0 \<le> s"
    and sl: "seg buf tk s (flat l)" and i: "i = s + int (length (flat l))" and op: "type (tk i) = TOK_SC"
    and sr: "seg buf tk (i + 1) (flat r)" and wr: "wf_command r" "\<not> is_sequence r"
    and e: "e = i + 1 + int (length (flat r))" and te: "type (tk e) \<noteq> TOK_WORD"
  shows "parse buf tk s e = Inr (SEQUENCE_COMMAND new_info l r)"
proof -
  have si: "s \<le> i" and i0: "0 \<le> i + 1" using i s by auto
  have "scan_back TOK_SC tk s (e - 1) 0 = scan_back TOK_SC tk s i 0"
    by (rule scan_back_to_op [OF sr wr _ e si]) simp
  also have "\<dots> = Some i" using op by (subst scan_back.simps) simp
  finally have hit: "scan_back TOK_SC tk s (e - 1) 0 = Some i" .
  have "parse buf tk s i = Inr l" using parsesD [OF pl s sl i] op by simp
  then show ?thesis
    using parsesD [OF pr i0 sr e te] unfolding parse_last_ok [of tk e buf s, OF end_token [OF wr(1) sr e]] hit by simp
qed

lemma parse_pipe:
  assumes pl: "parses buf tk l" and pr: "parses buf tk r" and s: "0 \<le> s"
    and sl: "seg buf tk s (flat l)" and wl: "wf_command l" "\<not> is_sequence l"
    and i: "i = s + int (length (flat l))" and op: "type (tk i) = TOK_PIPE"
    and sr: "seg buf tk (i + 1) (flat r)" and wr: "wf_command r" "\<not> is_sequence r" and np: "\<not> is_pipe r"
    and e: "e = i + 1 + int (length (flat r))" and te: "type (tk e) \<noteq> TOK_WORD"
  shows "parse buf tk s e = Inr (PIPE_COMMAND new_info l r)"
proof -
  have si: "s \<le> i" and i0: "0 \<le> i + 1" using i s by auto
  have "scan_back TOK_PIPE tk s (e - 1) 0 = scan_back TOK_PIPE tk s i 0"
    by (rule scan_back_to_op [OF sr wr _ e si]) (simp add: np)
  also have "\<dots> = Some i" using op by (subst scan_back.simps) simp
  finally have hit: "scan_back TOK_PIPE tk s (e - 1) 0 = Some i" .
  have "scan_back TOK_SC tk s (e - 1) 0 = scan_back TOK_SC tk s i 0"
    by (rule scan_back_to_op [OF sr wr _ e si]) simp
  then have miss: "scan_back TOK_SC tk s (e - 1) 0 = None"
    using scan_back_from_op [OF sl wl i op] by simp
  have "parse buf tk s i = Inr l" using parsesD [OF pl s sl i] op by simp
  then show ?thesis
    using parsesD [OF pr i0 sr e te] unfolding parse_last_ok [of tk e buf s, OF end_token [OF wr(1) sr e]] hit miss by simp
qed

lemma words_of_seg:
  "seg buf tk s (map (Pair TOK_WORD) ws) \<Longrightarrow>
   map (\<lambda>i. cstr_at buf (offset (tk (s + int i)))) [0..<length ws] = ws"
proof (induction ws arbitrary: s)
  case (Cons w ws)
  have "map (\<lambda>i. cstr_at buf (offset (tk (s + int i)))) [0..<length (w # ws)] =
    cstr_at buf (offset (tk s)) # map (\<lambda>i. cstr_at buf (offset (tk (s + 1 + int i)))) [0..<length ws]"
    unfolding list.size(4) add_Suc_right add_0_right upt_conv_Cons [OF zero_less_Suc] list.map(2) map_Suc_upt [symmetric] map_map
    by (simp add: algebra_simps)
  also have "\<dots> = w # ws" using Cons.IH [of "s + 1"] Cons.prems by simp
  finally show ?case .
qed simp

lemma magical_word_flat:
  assumes sw: "seg buf tk s (map (Pair TOK_WORD) ws)" and i: "i = s + int (length ws)"
    and sr: "seg buf tk i (redirs ci)" and st: "c_status ci = -1"
    and e: "e = i + int (length (redirs ci))" and te: "type (tk e) \<noteq> TOK_WORD"
  shows "magical_word_parser buf tk s e = Inr (SIMPLE_COMMAND ci ws)"
proof -
  have "type (tk i) \<noteq> TOK_WORD"
  proof (cases "redirs ci")
    case Nil then show ?thesis using e te by simp
  next
    case (Cons x xs)
    then have "type (tk i) = fst x" using sr by simp
    moreover have "fst x \<noteq> TOK_WORD" using Cons by (auto simp: redirs_def split: option.splits)
    ultimately show ?thesis by simp
  qed
  then have sc: "scan_words tk e s = i" using scan_words_over [OF sw, of e] e i by simp
  have len: "nat (i - s) = length ws" using i by simp
  show ?thesis
    unfolding magical_word_parser_def sc len Let_def words_of_seg [OF sw] add_redirects_redirs [OF sr st e] by simp
qed

lemma magical_subshell_flat:
  assumes p: "parses buf tk c" and s: "0 \<le> s" and sc: "seg buf tk (s + 1) (flat c)" and wf: "wf_command c"
    and r: "r = s + 1 + int (length (flat c))" and tr: "type (tk r) = TOK_RPAREN"
    and sr: "seg buf tk (r + 1) (redirs ci)" and st: "c_status ci = -1" and e: "e = r + 1 + int (length (redirs ci))"
  shows "magical_subshell_parser buf tk s e = Inr (SUBSHELL_COMMAND ci c)"
proof -
  have "scan_rparen tk e (s + 1) 0 = scan_rparen tk e r 0"
    by (rule rparen_scan.over_flat [OF sc r]) (use e in simp)
  also have "\<dots> = r" using tr by (subst scan_rparen.simps) simp
  finally have rp: "scan_rparen tk e (s + 1) 0 = r" .
  have s1: "0 \<le> s + 1" and "r \<noteq> -1" using s r by auto
  then show ?thesis
    using check_fail_parse_flat_end [OF p s1 wf sc r] tr add_redirects_redirs [OF sr st e]
    unfolding magical_subshell_parser.simps [of buf tk s e] rp Let_def by simp
qed

text \<open>The loop commands; positions of the tokens are given one by one.\<close>

lemma magical_while_flat:
  assumes pa: "parses buf tk a" and pb: "parses buf tk b" and s: "0 \<le> s"
    and ts: "type (tk s) = TOK_WHILE \<or> type (tk s) = TOK_UNTIL"
    and sa: "seg buf tk (s + 1) (flat a)" and wa: "wf_command a" and i: "i = s + 1 + int (length (flat a))"
    and sc1: "type (tk i) = TOK_SC" and tdo: "type (tk (i + 1)) = TOK_DO"
    and sb: "seg buf tk (i + 2) (flat b)" and j: "j = i + 2 + int (length (flat b))"
    and sc2: "type (tk j) = TOK_SC" and tdone: "type (tk (j + 1)) = TOK_DONE"
    and sr: "seg buf tk (j + 2) (redirs ci)" and st: "c_status ci = -1" and e: "e = j + 2 + int (length (redirs ci))"
  shows "magical_while_until_parser buf tk s e =
    Inr ((if type (tk s) = TOK_UNTIL then UNTIL_COMMAND else WHILE_COMMAND) ci a b)"
proof -
  have len: "0 < int (length (flat a))" using wa by simp
  have "scan_do tk s e (s + 1) 0 (-1) = scan_do tk s e i 0 (-1)"
    by (rule do_scan.over_flat [OF sa i]) (use e j in simp)
  also have "\<dots> = scan_do tk s e (i + 1) 0 (-1)"
    using sc1 e i j by (subst scan_do.simps) (simp add: Let_def)
  also have "\<dots> = scan_do tk s e (i + 2) 0 (i + 1)"
    using tdo e i j len by (subst scan_do.simps) (simp add: Let_def)
  also have "\<dots> = scan_do tk s e j 0 (i + 1)"
    by (rule do_scan.over_flat [OF sb j]) (use e in simp)
  also have "\<dots> = scan_do tk s e (j + 1) 0 (i + 1)"
    using sc2 e i j by (subst scan_do.simps) (simp add: Let_def)
  also have "\<dots> = (i + 1, j + 1)"
    using tdone i j len by (subst scan_do.simps) (simp add: Let_def)
  finally have sd: "scan_do tk s e (s + 1) 0 (-1) = (i + 1, j + 1)" .
  have s1: "0 \<le> s + 1" and i2: "0 \<le> i + 2" and ne: "i + 1 \<noteq> -1" "j + 1 \<noteq> -1" using s i j by auto
  have a: "check_fail_parse buf tk (s + 1) (i + 1) = Inr a"
    by (rule check_fail_parse_flat [OF pa s1 sa i sc1 refl])
  have b: "check_fail_parse buf tk (i + 2) (j + 1) = Inr b"
    by (rule check_fail_parse_flat [OF pb i2 sb j sc2 refl])
  have eqs: "i + 1 + 1 = i + 2" "j + 1 + 1 = j + 2" by simp_all
  then show ?thesis
    using a b add_redirects_redirs [OF sr st e] ne ts
    unfolding magical_while_until_parser.simps [of buf tk s e] sd prod.case eqs by auto
qed

lemma magical_if_flat:
  assumes pa: "parses buf tk a" and pb: "parses buf tk b" and s: "0 \<le> s"
    and sa: "seg buf tk (s + 1) (flat a)" and wa: "wf_command a" and i: "i = s + 1 + int (length (flat a))"
    and sc1: "type (tk i) = TOK_SC" and tthen: "type (tk (i + 1)) = TOK_THEN"
    and sb: "seg buf tk (i + 2) (flat b)" and j: "j = i + 2 + int (length (flat b))"
    and sc2: "type (tk j) = TOK_SC" and tfi: "type (tk (j + 1)) = TOK_FI"
    and sr: "seg buf tk (j + 2) (redirs ci)" and st: "c_status ci = -1" and e: "e = j + 2 + int (length (redirs ci))"
  shows "magical_if_parser buf tk s e = Inr (IF_COMMAND ci a b None)"
proof -
  have len: "0 < int (length (flat a))" using wa by simp
  have "scan_if tk s e (s + 1) 0 (-1) (-1) = scan_if tk s e i 0 (-1) (-1)"
    by (rule if_scan.over_flat [OF sa i]) (use e j in simp)
  also have "\<dots> = scan_if tk s e (i + 1) 0 (-1) (-1)"
    using sc1 e i j by (subst scan_if.simps) (simp add: Let_def)
  also have "\<dots> = scan_if tk s e (i + 2) 0 (i + 1) (-1)"
    using tthen e i j len by (subst scan_if.simps) (simp add: Let_def)
  also have "\<dots> = scan_if tk s e j 0 (i + 1) (-1)"
    by (rule if_scan.over_flat [OF sb j]) (use e in simp)
  also have "\<dots> = scan_if tk s e (j + 1) 0 (i + 1) (-1)"
    using sc2 e i j by (subst scan_if.simps) (simp add: Let_def)
  also have "\<dots> = (i + 1, -1, j + 1)"
    using tfi i j len by (subst scan_if.simps) (simp add: Let_def)
  finally have sd: "scan_if tk s e (s + 1) 0 (-1) (-1) = (i + 1, -1, j + 1)" .
  have s1: "0 \<le> s + 1" and i2: "0 \<le> i + 2" and ne: "i + 1 \<noteq> -1" "j + 1 \<noteq> -1" using s i j by auto
  have a: "check_fail_parse buf tk (s + 1) (i + 1) = Inr a"
    by (rule check_fail_parse_flat [OF pa s1 sa i sc1 refl])
  have b: "check_fail_parse buf tk (i + 2) (j + 1) = Inr b"
    by (rule check_fail_parse_flat [OF pb i2 sb j sc2 refl])
  have eqs: "i + 1 + 1 = i + 2" "j + 1 + 1 = j + 2" by simp_all
  then show ?thesis
    using a b add_redirects_redirs [OF sr st e] ne
    unfolding magical_if_parser.simps [of buf tk s e] sd prod.case eqs by auto
qed

lemma magical_if_else_flat:
  assumes pa: "parses buf tk a" and pb: "parses buf tk b" and pc: "parses buf tk c" and s: "0 \<le> s"
    and sa: "seg buf tk (s + 1) (flat a)" and wa: "wf_command a" and i: "i = s + 1 + int (length (flat a))"
    and sc1: "type (tk i) = TOK_SC" and tthen: "type (tk (i + 1)) = TOK_THEN"
    and sb: "seg buf tk (i + 2) (flat b)" and j: "j = i + 2 + int (length (flat b))"
    and sc2: "type (tk j) = TOK_SC" and telse: "type (tk (j + 1)) = TOK_ELSE"
    and sc: "seg buf tk (j + 2) (flat c)" and k: "k = j + 2 + int (length (flat c))"
    and sc3: "type (tk k) = TOK_SC" and tfi: "type (tk (k + 1)) = TOK_FI"
    and sr: "seg buf tk (k + 2) (redirs ci)" and st: "c_status ci = -1" and e: "e = k + 2 + int (length (redirs ci))"
  shows "magical_if_parser buf tk s e = Inr (IF_COMMAND ci a b (Some c))"
proof -
  have len: "0 < int (length (flat a))" using wa by simp
  have "scan_if tk s e (s + 1) 0 (-1) (-1) = scan_if tk s e i 0 (-1) (-1)"
    by (rule if_scan.over_flat [OF sa i]) (use e j k in simp)
  also have "\<dots> = scan_if tk s e (i + 1) 0 (-1) (-1)"
    using sc1 e i j k by (subst scan_if.simps) (simp add: Let_def)
  also have "\<dots> = scan_if tk s e (i + 2) 0 (i + 1) (-1)"
    using tthen e i j k len by (subst scan_if.simps) (simp add: Let_def)
  also have "\<dots> = scan_if tk s e j 0 (i + 1) (-1)"
    by (rule if_scan.over_flat [OF sb j]) (use e k in simp)
  also have "\<dots> = scan_if tk s e (j + 1) 0 (i + 1) (-1)"
    using sc2 e i j k by (subst scan_if.simps) (simp add: Let_def)
  also have "\<dots> = scan_if tk s e (j + 2) 0 (i + 1) (j + 1)"
    using telse e i j k len by (subst scan_if.simps) (simp add: Let_def)
  also have "\<dots> = scan_if tk s e k 0 (i + 1) (j + 1)"
    by (rule if_scan.over_flat [OF sc k]) (use e in simp)
  also have "\<dots> = scan_if tk s e (k + 1) 0 (i + 1) (j + 1)"
    using sc3 e i j k by (subst scan_if.simps) (simp add: Let_def)
  also have "\<dots> = (i + 1, j + 1, k + 1)"
    using tfi i j k len by (subst scan_if.simps) (simp add: Let_def)
  finally have sd: "scan_if tk s e (s + 1) 0 (-1) (-1) = (i + 1, j + 1, k + 1)" .
  have s1: "0 \<le> s + 1" and i2: "0 \<le> i + 2" and j2: "0 \<le> j + 2"
    and ne: "i + 1 \<noteq> -1" "j + 1 \<noteq> -1" "k + 1 \<noteq> -1" using s i j k by auto
  have a: "check_fail_parse buf tk (s + 1) (i + 1) = Inr a"
    by (rule check_fail_parse_flat [OF pa s1 sa i sc1 refl])
  have b: "check_fail_parse buf tk (i + 2) (j + 1) = Inr b"
    by (rule check_fail_parse_flat [OF pb i2 sb j sc2 refl])
  have c: "check_fail_parse buf tk (j + 2) (k + 1) = Inr c"
    by (rule check_fail_parse_flat [OF pc j2 sc k sc3 refl])
  have eqs: "i + 1 + 1 = i + 2" "j + 1 + 1 = j + 2" "k + 1 + 1 = k + 2" by simp_all
  then show ?thesis
    using a b c add_redirects_redirs [OF sr st e] ne
    unfolding magical_if_parser.simps [of buf tk s e] sd prod.case eqs by auto
qed

section \<open>The parser reads back every command\<close>

lemma parses_flat: "wf_command c \<Longrightarrow> parses buf tk c"
proof (induction c rule: wf_command.induct)
  case (1 ci ws)
  show ?case unfolding parses_def
  proof (intro allI impI)
    fix s e :: int
    assume s: "0 \<le> s" and g: "seg buf tk s (flat (SIMPLE_COMMAND ci ws))"
      and e: "e = s + int (length (flat (SIMPLE_COMMAND ci ws)))" and te: "type (tk e) \<noteq> TOK_WORD"
    define i where "i = s + int (length ws)"
    have "type (tk s) = TOK_WORD" using g 1 by (cases ws) auto
    moreover have "magical_word_parser buf tk s e = Inr (SIMPLE_COMMAND ci ws)"
      by (rule magical_word_flat [OF _ i_def]) (use g 1 e te i_def in auto)
    ultimately show "parse buf tk s e = Inr (SIMPLE_COMMAND ci ws)"
      using parse_single [OF 1 _ _ g e] by simp
  qed
next
  case (2 ci l r)
  show ?case unfolding parses_def
  proof (intro allI impI)
    fix s e :: int
    assume s: "0 \<le> s" and g: "seg buf tk s (flat (SEQUENCE_COMMAND ci l r))"
      and e: "e = s + int (length (flat (SEQUENCE_COMMAND ci l r)))" and te: "type (tk e) \<noteq> TOK_WORD"
    define i where "i = s + int (length (flat l))"
    have ci: "ci = new_info" using "2.prems" by simp
    show "parse buf tk s e = Inr (SEQUENCE_COMMAND ci l r)" unfolding ci
      by (rule parse_sequence [of _ _ _ _ s i]) (use g 2 e te s i_def in \<open>auto simp: algebra_simps\<close>)
  qed
next
  case (3 ci l r)
  show ?case unfolding parses_def
  proof (intro allI impI)
    fix s e :: int
    assume s: "0 \<le> s" and g: "seg buf tk s (flat (PIPE_COMMAND ci l r))"
      and e: "e = s + int (length (flat (PIPE_COMMAND ci l r)))" and te: "type (tk e) \<noteq> TOK_WORD"
    define i where "i = s + int (length (flat l))"
    have ci: "ci = new_info" using "3.prems" by simp
    show "parse buf tk s e = Inr (PIPE_COMMAND ci l r)" unfolding ci
      by (rule parse_pipe [of _ _ _ _ s i]) (use g 3 e te s i_def in \<open>auto simp: algebra_simps\<close>)
  qed
next
  case (4 ci c)
  show ?case unfolding parses_def
  proof (intro allI impI)
    fix s e :: int
    assume s: "0 \<le> s" and g: "seg buf tk s (flat (SUBSHELL_COMMAND ci c))"
      and e: "e = s + int (length (flat (SUBSHELL_COMMAND ci c)))" and te: "type (tk e) \<noteq> TOK_WORD"
    define r where "r = s + 1 + int (length (flat c))"
    have "magical_subshell_parser buf tk s e = Inr (SUBSHELL_COMMAND ci c)"
      by (rule magical_subshell_flat [OF _ s _ _ r_def]) (use g 4 e r_def in \<open>auto simp: algebra_simps\<close>)
    then show "parse buf tk s e = Inr (SUBSHELL_COMMAND ci c)"
      using parse_single [OF "4.prems" _ _ g e] g by simp
  qed
next
  case (5 ci a b)
  show ?case unfolding parses_def
  proof (intro allI impI)
    fix s e :: int
    assume s: "0 \<le> s" and g: "seg buf tk s (flat (IF_COMMAND ci a b None))"
      and e: "e = s + int (length (flat (IF_COMMAND ci a b None)))" and te: "type (tk e) \<noteq> TOK_WORD"
    define i where "i = s + 1 + int (length (flat a))"
    define j where "j = i + 2 + int (length (flat b))"
    have "magical_if_parser buf tk s e = Inr (IF_COMMAND ci a b None)"
      by (rule magical_if_flat [OF _ _ s _ _ i_def _ _ _ j_def])
        (use g 5 e i_def j_def in \<open>auto simp: algebra_simps\<close>)
    then show "parse buf tk s e = Inr (IF_COMMAND ci a b None)"
      using parse_single [OF "5.prems" _ _ g e] g by simp
  qed
next
  case (6 ci a b c)
  show ?case unfolding parses_def
  proof (intro allI impI)
    fix s e :: int
    assume s: "0 \<le> s" and g: "seg buf tk s (flat (IF_COMMAND ci a b (Some c)))"
      and e: "e = s + int (length (flat (IF_COMMAND ci a b (Some c))))" and te: "type (tk e) \<noteq> TOK_WORD"
    define i where "i = s + 1 + int (length (flat a))"
    define j where "j = i + 2 + int (length (flat b))"
    define k where "k = j + 2 + int (length (flat c))"
    have "magical_if_parser buf tk s e = Inr (IF_COMMAND ci a b (Some c))"
      by (rule magical_if_else_flat [OF _ _ _ s _ _ i_def _ _ _ j_def _ _ _ k_def])
        (use g 6 e i_def j_def k_def in \<open>auto simp: algebra_simps\<close>)
    then show "parse buf tk s e = Inr (IF_COMMAND ci a b (Some c))"
      using parse_single [OF "6.prems" _ _ g e] g by simp
  qed
next
  case (7 ci a b)
  show ?case unfolding parses_def
  proof (intro allI impI)
    fix s e :: int
    assume s: "0 \<le> s" and g: "seg buf tk s (flat (WHILE_COMMAND ci a b))"
      and e: "e = s + int (length (flat (WHILE_COMMAND ci a b)))" and te: "type (tk e) \<noteq> TOK_WORD"
    define i where "i = s + 1 + int (length (flat a))"
    define j where "j = i + 2 + int (length (flat b))"
    have ts: "type (tk s) = TOK_WHILE" using g by simp
    have "magical_while_until_parser buf tk s e =
      Inr ((if type (tk s) = TOK_UNTIL then UNTIL_COMMAND else WHILE_COMMAND) ci a b)"
      by (rule magical_while_flat [OF _ _ s _ _ _ i_def _ _ _ j_def])
        (use g 7 e i_def j_def ts in \<open>auto simp: algebra_simps\<close>)
    then show "parse buf tk s e = Inr (WHILE_COMMAND ci a b)"
      using parse_single [OF "7.prems" _ _ g e] ts by simp
  qed
next
  case (8 ci a b)
  show ?case unfolding parses_def
  proof (intro allI impI)
    fix s e :: int
    assume s: "0 \<le> s" and g: "seg buf tk s (flat (UNTIL_COMMAND ci a b))"
      and e: "e = s + int (length (flat (UNTIL_COMMAND ci a b)))" and te: "type (tk e) \<noteq> TOK_WORD"
    define i where "i = s + 1 + int (length (flat a))"
    define j where "j = i + 2 + int (length (flat b))"
    have ts: "type (tk s) = TOK_UNTIL" using g by simp
    have "magical_while_until_parser buf tk s e =
      Inr ((if type (tk s) = TOK_UNTIL then UNTIL_COMMAND else WHILE_COMMAND) ci a b)"
      by (rule magical_while_flat [OF _ _ s _ _ _ i_def _ _ _ j_def])
        (use g 8 e i_def j_def ts in \<open>auto simp: algebra_simps\<close>)
    then show "parse buf tk s e = Inr (UNTIL_COMMAND ci a b)"
      using parse_single [OF "8.prems" _ _ g e] ts by simp
  qed
qed

section \<open>Scripts\<close>

abbreviation NL_tok where "NL_tok \<equiv> (TOK_NL, [NL])"

definition script_tokens :: "command list \<Rightarrow> (token_type \<times> string) list" where
  "script_tokens cs = concat (map (\<lambda>c. flat c @ [NL_tok]) cs)"

lemma script_tokens_simps [simp]:
  "script_tokens [] = []" "script_tokens (c # cs) = flat c @ NL_tok # script_tokens cs"
  by (simp_all add: script_tokens_def)

lemma flat_no_newline: "x \<in> set (flat c) \<Longrightarrow> fst x \<noteq> TOK_NL"
  by (induction c rule: flat.induct) (auto simp: redirs_def split: option.splits)

lemma scan_line_over:
  "seg buf tk i xs \<Longrightarrow> \<forall>x\<in>set xs. fst x \<noteq> TOK_NL \<Longrightarrow> i + int (length xs) < num \<Longrightarrow>
   type (tk (i + int (length xs))) = TOK_NL \<Longrightarrow> scan_line tk num i = i + int (length xs)"
proof (induction xs arbitrary: i)
  case (Cons x xs)
  have "scan_line tk num i = scan_line tk num (i + 1)"
    using Cons.prems by (subst scan_line.simps) auto
  also have "\<dots> = i + 1 + int (length xs)"
    using Cons by (auto simp: algebra_simps)
  finally show ?case by simp
qed (auto simp: scan_line.simps)

lemma parse_line_flat:
  assumes w: "wf_command c" and s: "0 \<le> s" and g: "seg buf tk s (flat c)" and e: "e = s + int (length (flat c))"
    and nl: "type (tk e) = TOK_NL"
  shows "parse_line buf tk s e = Inr c"
  using end_token [OF w g e] parsesD [OF parses_flat [OF w] s g e] nl by (auto simp: parse_line_def)

text \<open>
  The loop stops at the last token as well as behind it: one more token behind the last newline
  is never parsed.
\<close>

lemma stream_loop_flat:
  "cs \<noteq> [] \<Longrightarrow> \<forall>c\<in>set cs. wf_command c \<Longrightarrow> 0 \<le> i \<Longrightarrow> seg buf tk i (script_tokens cs) \<Longrightarrow>
   num = i + int (length (script_tokens cs)) + n \<Longrightarrow> 0 \<le> n \<Longrightarrow> n \<le> 1 \<Longrightarrow> stream_loop buf tk num i = Inr cs"
proof (induction cs arbitrary: i)
  case (Cons c cs)
  define e where "e = i + int (length (flat c))"
  have w: "wf_command c" and g: "seg buf tk i (flat c)" and nl: "type (tk e) = TOK_NL"
    and gs: "seg buf tk (e + 1) (script_tokens cs)" and num: "num = e + 1 + int (length (script_tokens cs)) + n"
    using Cons.prems by (auto simp: e_def algebra_simps)
  have n: "0 \<le> n" "n \<le> 1" by fact+
  have sl: "scan_line tk num i = e"
    using scan_line_over [OF g, of num] flat_no_newline nl num n by (auto simp: e_def)
  have pl: "parse_line buf tk i e = Inr c"
    by (rule parse_line_flat [OF w Cons.prems(3) g e_def nl])
  show ?case
  proof (cases "cs = []")
    case True
    then show ?thesis using num n unfolding stream_loop.simps [of buf tk num i] Let_def sl pl by simp
  next
    case False
    then obtain d ds where cs: "cs = d # ds" by (cases cs) auto
    have "flat d \<noteq> []" using Cons.prems(2) cs by simp
    then have "int (length (script_tokens cs)) \<ge> 2" using cs by (cases "flat d") auto
    then have "\<not> e + 1 \<ge> num - 1" using num n by simp
    moreover have "stream_loop buf tk num (e + 1) = Inr cs"
      by (rule Cons.IH [OF False _ _ gs num n]) (use Cons.prems in \<open>auto simp: e_def\<close>)
    ultimately show ?thesis unfolding stream_loop.simps [of buf tk num i] Let_def sl pl by simp
  qed
qed simp

section \<open>Lexing the text of a command\<close>

text \<open>
  The texts of words and of redirected files consist of word characters, and no simple command
  starts with a reserved word.
\<close>

definition texts_ok :: "command_info \<Rightarrow> bool" where
  "texts_ok ci \<longleftrightarrow> (\<forall>f. c_input ci = Some f \<or> c_output ci = Some f \<longrightarrow> is_word f)"

fun lex_command :: "command \<Rightarrow> bool" where
  "lex_command (SIMPLE_COMMAND ci ws) \<longleftrightarrow> texts_ok ci \<and> ws \<noteq> [] \<and> (\<forall>w\<in>set ws. is_word w)
     \<and> map_of TokAssociations (hd ws) = None"
| "lex_command (SEQUENCE_COMMAND ci l r) \<longleftrightarrow> lex_command l \<and> lex_command r"
| "lex_command (PIPE_COMMAND ci l r) \<longleftrightarrow> lex_command l \<and> lex_command r"
| "lex_command (SUBSHELL_COMMAND ci c) \<longleftrightarrow> texts_ok ci \<and> lex_command c"
| "lex_command (IF_COMMAND ci a b None) \<longleftrightarrow> texts_ok ci \<and> lex_command a \<and> lex_command b"
| "lex_command (IF_COMMAND ci a b (Some e)) \<longleftrightarrow> texts_ok ci \<and> lex_command a \<and> lex_command b \<and> lex_command e"
| "lex_command (WHILE_COMMAND ci a b) \<longleftrightarrow> texts_ok ci \<and> lex_command a \<and> lex_command b"
| "lex_command (UNTIL_COMMAND ci a b) \<longleftrightarrow> texts_ok ci \<and> lex_command a \<and> lex_command b"

text \<open>\<open>spells xs\<close>: read after a delimiter, the texts of \<open>xs\<close> are given the types of \<open>xs\<close>.\<close>

definition spells_from :: "bool \<Rightarrow> (token_type \<times> string) list \<Rightarrow> bool \<Rightarrow> bool" where
  "spells_from s xs s' \<longleftrightarrow> (\<forall>ts. lexed s (map snd xs @ ts) = xs @ lexed s' ts)"

lemma spells_append: "spells_from s xs s1 \<Longrightarrow> spells_from s1 ys s2 \<Longrightarrow> spells_from s (xs @ ys) s2"
  by (simp add: spells_from_def)

lemma spells_Nil: "spells_from s [] s"
  by (simp add: spells_from_def)

lemma spells_Cons:
  "token_class s (snd x) = fst x \<Longrightarrow> spells_from (then_simple s (snd x)) xs s' \<Longrightarrow> spells_from s (x # xs) s'"
  by (cases x) (simp add: spells_from_def)

lemma word_class:
  assumes "is_word w" shows "token_class True w = TOK_WORD" and "then_simple True w"
  using word_not_operator [OF assms] by (simp_all add: token_class_def then_simple_def classify_def stays_simple_def)

lemma spells_words: "\<forall>w\<in>set ws. is_word w \<Longrightarrow> spells_from True (map (Pair TOK_WORD) ws) True"
  by (induction ws) (auto intro!: spells_Cons spells_Nil simp: word_class)

lemma redirect_class [simp]:
  "token_class s ''<'' = TOK_LAB" "then_simple s ''<''" "token_class s ''>'' = TOK_RAB" "then_simple s ''>''"
  by (simp_all add: token_class_def then_simple_def classify_def TokAssociations_def)

lemma spells_redirs: "texts_ok ci \<Longrightarrow> \<exists>s'. spells_from s (redirs ci) s'"
  unfolding redirs_def texts_ok_def
  by (cases "c_input ci"; cases "c_output ci")
    (auto intro!: exI spells_Cons spells_Nil simp: word_class)

lemma keyword_class [simp]:
  "token_class False ''if'' = TOK_IF" "\<not> then_simple False ''if''"
  "token_class False ''then'' = TOK_THEN" "\<not> then_simple False ''then''"
  "token_class False ''else'' = TOK_ELSE" "\<not> then_simple False ''else''"
  "token_class False ''fi'' = TOK_FI" "\<not> then_simple False ''fi''"
  "token_class False ''while'' = TOK_WHILE" "\<not> then_simple False ''while''"
  "token_class False ''until'' = TOK_UNTIL" "\<not> then_simple False ''until''"
  "token_class False ''do'' = TOK_DO" "\<not> then_simple False ''do''"
  "token_class False ''done'' = TOK_DONE" "\<not> then_simple False ''done''"
  by (simp_all add: token_class_def then_simple_def classify_def stays_simple_def TokAssociations_def)

lemma operator_class [simp]:
  "token_class s '';'' = TOK_SC" "\<not> then_simple s '';''"
  "token_class s ''|'' = TOK_PIPE" "\<not> then_simple s ''|''"
  "token_class s ''('' = TOK_LPAREN" "\<not> then_simple s ''(''"
  "token_class s '')'' = TOK_RPAREN" "\<not> then_simple s '')''"
  by (simp_all add: token_class_def then_simple_def classify_def stays_simple_def TokAssociations_def)

lemma spells_mid:
  "\<exists>s1. spells_from s xs s1 \<Longrightarrow> (\<And>s1. \<exists>s'. spells_from s1 ys s') \<Longrightarrow> \<exists>s'. spells_from s (xs @ ys) s'"
  using spells_append by blast

lemma spells_step:
  "token_class s (snd x) = fst x \<Longrightarrow> \<exists>s'. spells_from (then_simple s (snd x)) xs s' \<Longrightarrow> \<exists>s'. spells_from s (x # xs) s'"
  using spells_Cons by blast

lemma spells_flat: "lex_command c \<Longrightarrow> \<exists>s'. spells_from False (flat c) s'"
proof (induction c rule: lex_command.induct)
  case (1 ci ws)
  then obtain w ws' where ws: "ws = w # ws'" by (cases ws) auto
  have w: "is_word w" "map_of TokAssociations w = None" using 1 by (auto simp: ws)
  have c: "token_class False w = TOK_WORD" "then_simple False w"
    using w word_not_operator [OF w(1)]
    by (simp_all add: token_class_def then_simple_def classify_def stays_simple_def)
  have "\<exists>s'. spells_from True (map (Pair TOK_WORD) ws' @ redirs ci) s'"
    by (rule spells_mid) (use 1 ws spells_words spells_redirs in auto)
  then show ?case unfolding ws by (auto intro!: spells_step simp: c)
qed (auto intro!: spells_step spells_mid spells_redirs)

end
