(* ===== verification/Shell_Stream.thy ===== *)
theory Shell_Stream
  imports Shell_Roundtrip
begin

text \<open>
  The whole path from the characters of a script to its commands: what is read back, and three kinds
  of input on which \<open>make_command_stream\<close> does something else than a shell should.
\<close>

section \<open>From the text of a script to its commands\<close>

definition render :: "command \<Rightarrow> string" where
  "render c = spaced (map snd (flat c)) @ [NL]"

definition script_text :: "command list \<Rightarrow> string" where
  "script_text cs = concat (map render cs)"

lemma script_text_simps [simp]: "script_text [] = []" "script_text (c # cs) = render c @ script_text cs"
  by (simp_all add: script_text_def)

lemma seg_iff:
  "seg buf tk i xs \<longleftrightarrow> (\<forall>k<length xs. type (tk (i + int k)) = fst (xs ! k)
     \<and> cstr_at buf (offset (tk (i + int k))) = snd (xs ! k))"
  by (induction xs arbitrary: i) (simp_all add: All_less_Suc2 algebra_simps)

lemma seg_of_lexes:
  assumes "lexes st tks p"
  shows "seg (lexerbuf st) (token_array stray (lexertokens st)) 0 tks"
proof -
  have t: "map type (lexertokens st) = map fst tks" using assms by (simp add: lexes_def)
  have x: "map (\<lambda>t. cstr_at (lexerbuf st) (offset t)) (lexertokens st) = map snd tks"
    using lexes_texts [OF assms] by (simp add: token_texts_def)
  have len: "length (lexertokens st) = length tks" using t map_eq_imp_length_eq by blast
  show ?thesis
    unfolding seg_iff using len nth_map [of _ "lexertokens st" type] nth_map [of _ tks fst]
      nth_map [of _ "lexertokens st" "\<lambda>t. cstr_at (lexerbuf st) (offset t)"] nth_map [of _ tks snd] t x
    by (auto simp: token_array_def)
qed

lemma keyword_items [simp]:
  "is_word ''if''" "is_word ''then''" "is_word ''else''" "is_word ''fi''"
  "is_word ''while''" "is_word ''until''" "is_word ''do''" "is_word ''done''"
  by (simp_all add: is_word_def word_char_def valid_char_def isalnum_def)

lemma redirs_items: "texts_ok ci \<Longrightarrow> x \<in> set (redirs ci) \<Longrightarrow> is_item (snd x)"
  by (auto simp: redirs_def texts_ok_def is_item_def split: option.splits)

lemma flat_items: "lex_command c \<Longrightarrow> x \<in> set (flat c) \<Longrightarrow> is_item (snd x)"
  by (induction c rule: lex_command.induct) (auto simp: is_item_def dest: redirs_items [unfolded is_item_def])

lemma lexed_flat: "lex_command c \<Longrightarrow> lexed False (map snd (flat c)) = flat c"
  using spells_flat [of c] unfolding spells_from_def by (metis append_Nil2 lexed.simps(1))

lemma lex_line:
  assumes "at_token st tks [] False c0" and net: "net tks = 0"
    and first: "is_word (snd (hd (flat c))) \<or> c0 \<notin> {CHR ''<'', CHR ''>'', NUL}"
    and wf: "wf_command c" and lx: "lex_command c"
  shows "\<exists>st'. lex_chars stray (render c) st = Inr st' \<and> at_token st' (tks @ flat c @ [NL_tok]) [] False NL"
proof -
  have ne: "flat c \<noteq> []" using wf by simp
  have items: "\<forall>t\<in>set (map snd (flat c)). is_item t" using flat_items [OF lx] by auto
  obtain st1 s1 where s1: "lex_chars stray (spaced (map snd (flat c))) st = Inr st1"
    "at_token st1 (tks @ flat c) [] s1 CHR '' ''"
    using lex_items [OF assms(1) items, of stray] first ne lexed_flat [OF lx] by (auto simp: hd_map)
  have "fst (last (tks @ flat c)) \<in> {TOK_WORD, TOK_RPAREN, TOK_FI, TOK_DONE}"
    using flat_last [OF wf] ne by simp
  then have nr: "\<not> is_reserved (fst (last (tks @ flat c)))" by auto
  have "sum_list (map (nesting \<circ> fst) (tks @ flat c)) = 0" using net net_flat [of c] by (simp add: net_def)
  from lex_newline [OF s1(2) _ nr this, of stray] ne obtain st2 where
    "lexer_putchar stray NL st1 = Inr st2" "at_token st2 ((tks @ flat c) @ [NL_tok]) [] False NL" by auto
  then show ?thesis using s1(1) by (simp add: render_def lex_chars_append)
qed

lemma lex_lines:
  "at_token st tks [] False c0 \<Longrightarrow> net tks = 0 \<Longrightarrow>
   cs = [] \<or> is_word (snd (hd (flat (hd cs)))) \<or> c0 \<notin> {CHR ''<'', CHR ''>'', NUL} \<Longrightarrow>
   \<forall>c\<in>set cs. wf_command c \<and> lex_command c \<Longrightarrow>
   \<exists>st' c'. lex_chars stray (script_text cs) st = Inr st' \<and> at_token st' (tks @ script_tokens cs) [] False c'"
proof (induction cs arbitrary: st tks c0)
  case (Cons c cs)
  obtain st1 where s1: "lex_chars stray (render c) st = Inr st1" "at_token st1 (tks @ flat c @ [NL_tok]) [] False NL"
    using lex_line [OF Cons.prems(1,2)] Cons.prems(3,4) by force
  have "\<exists>st' c'. lex_chars stray (script_text cs) st1 = Inr st'
      \<and> at_token st' ((tks @ flat c @ [NL_tok]) @ script_tokens cs) [] False c'"
    by (rule Cons.IH [OF s1(2)]) (use Cons.prems in auto)
  then show ?case using s1(1) by (auto simp: lex_chars_append)
qed auto

lemma word_char_not_eof: "word_char c \<Longrightarrow> c \<noteq> CHR 0xFF"
  by (auto simp: word_char_def valid_char_def isalnum_def strchr_hit_def)

lemma item_not_eof: "is_item t \<Longrightarrow> c \<in> set t \<Longrightarrow> c \<noteq> CHR 0xFF"
  using word_char_not_eof by (auto simp: is_item_def is_word_def)

lemma script_not_eof: "\<forall>c\<in>set cs. lex_command c \<Longrightarrow> x \<in> set (script_text cs) \<Longrightarrow> x \<noteq> CHR 0xFF"
  by (induction cs) (auto simp: render_def spaced_def split: if_splits dest: flat_items item_not_eof)

lemma lex_script:
  assumes "\<forall>c\<in>set cs. wf_command c \<and> lex_command c" and "cs \<noteq> []" and "is_word (snd (hd (flat (hd cs))))"
  shows "\<exists>st c. lex_chars stray (script_text cs) lexer_init = Inr st \<and> at_token st (script_tokens cs) [] False c"
proof -
  have init: "at_token lexer_init [] [] False NUL"
    using lexes_init by (simp add: at_token_def lexer_init_def)
  then show ?thesis using lex_lines [OF init, of cs stray] assms by auto
qed

text \<open>The null character that \<open>make_command_stream\<close> sends at the end.\<close>

lemma lex_end:
  assumes "at_token st tks p s c0"
  shows "\<exists>st'. lexer_putchar stray NUL st = Inr st' \<and> lexes st' (flushed s tks p) []"
proof -
  have l: "lexes st tks p" and nc: "\<not> consume_switch st" and s: "simple_command st = s"
    using assms by (auto simp: at_token_def)
  have sw: "putchar_switch stray NUL st = Inr (lexer_putchar_i NUL st)"
    by (simp add: putchar_switch_def valid_char_def strchr_hit_def)
  note fl = putchar_i_flush [OF l]
  have "\<not> consume_switch (lexer_putchar_i NUL st)" using fl(2) nc by (simp add: same_mode_def)
  from lexer_putchar_run [OF sw nc this fl(1)] show ?thesis using s by (auto simp: at_token_def)
qed

lemma tokenize_script:
  assumes "\<forall>c\<in>set cs. wf_command c \<and> lex_command c" and "cs \<noteq> []" and "is_word (snd (hd (flat (hd cs))))"
    and w: "\<forall>c\<in>set w. word_char c"
  shows "\<exists>st. tokenize stray (script_text cs @ w) = Inr st \<and> lexes st (flushed False (script_tokens cs) w) []"
proof -
  obtain st1 c1 where s1: "lex_chars stray (script_text cs) lexer_init = Inr st1"
    "at_token st1 (script_tokens cs) [] False c1"
    using lex_script [OF assms(1-3)] by blast
  obtain st2 c2 where s2: "lex_chars stray w st1 = Inr st2" "at_token st2 (script_tokens cs) w False c2"
    using lex_word_chars [OF s1(2) w] by force
  obtain st3 where s3: "lexer_putchar stray NUL st2 = Inr st3" "lexes st3 (flushed False (script_tokens cs) w) []"
    using lex_end [OF s2(2)] by blast
  have eof: "takeWhile (\<lambda>c. c \<noteq> CHR 0xFF) (script_text cs @ w) = script_text cs @ w"
    using script_not_eof [of cs] assms(1) w word_char_not_eof by (auto simp: takeWhile_eq_all_conv)
  show ?thesis using s1(1) s2(1) s3 unfolding tokenize_def eof by (simp add: lex_chars_append)
qed

lemma stream_of_script:
  assumes "cs \<noteq> []" and "\<forall>c\<in>set cs. wf_command c \<and> lex_command c" and "is_word (snd (hd (flat (hd cs))))"
  shows "make_command_stream stray_type stray (script_text cs)
    = Inr (Some \<lparr>command_tree_list = cs, read_index = 0\<rparr>)"
proof -
  obtain st where st: "tokenize stray_type (script_text cs) = Inr st" and l: "lexes st (script_tokens cs) []"
    using tokenize_script [OF assms(2,1,3), of "[]" stray_type] by (auto simp: flushed_def)
  have len: "length (lexertokens st) = length (script_tokens cs)"
    using l unfolding lexes_def by (metis length_map)
  have "stream_loop (lexerbuf st) (token_array stray (lexertokens st)) (int (length (lexertokens st))) 0 = Inr cs"
    by (rule stream_loop_flat [OF assms(1), where n = 0]) (use assms(2) seg_of_lexes [OF l] len in auto)
  moreover have "lexertokens st \<noteq> []" using len assms(1) by (cases cs) auto
  ultimately show ?thesis by (simp add: make_command_stream_def st)
qed

text \<open>
  C7 A script is read back: write a non-empty list of commands of the grammar, the first of which
  begins with a word (a reserved word included, a parenthesis not: the reader refuses a script that
  begins with a subshell), one on a line with blanks between the tokens and a newline after each;
  then lexing and parsing the text gives exactly these commands in order, whatever lies around the
  token array.
\<close>
theorem make_command_stream_roundtrip:
  assumes "cs \<noteq> []" and "\<forall>c\<in>set cs. wf_command c \<and> lex_command c" and "is_word (snd (hd (flat (hd cs))))"
  shows "make_command_stream stray_type stray (script_text cs)
    = Inr (Some \<lparr>command_tree_list = cs, read_index = 0\<rparr>)"
  using assms by (rule stream_of_script)

definition demo_script :: "command list" where
  "demo_script =
     [WHILE_COMMAND \<lparr>c_status = -1, c_input = Some ''in'', c_output = None\<rparr>
        (PIPE_COMMAND new_info (SIMPLE_COMMAND new_info [''cat'', ''x'']) (SIMPLE_COMMAND new_info [''grep'', ''y'']))
        (SUBSHELL_COMMAND \<lparr>c_status = -1, c_input = None, c_output = Some ''out''\<rparr>
          (SEQUENCE_COMMAND new_info (SIMPLE_COMMAND new_info ['':'']) (SIMPLE_COMMAND new_info [''ls'', ''-l'']))),
      SUBSHELL_COMMAND new_info (IF_COMMAND new_info (SIMPLE_COMMAND new_info [''true''])
        (SIMPLE_COMMAND new_info [''a'']) (Some (SIMPLE_COMMAND new_info [''b''])))]"

theorem make_command_stream_roundtrip_witness:
  "make_command_stream (\<lambda>_. TOK_IF) (\<lambda>_. \<lparr>type = TOK_WORD, offset = 0, tok_line = 0\<rparr>) (script_text demo_script)
    = Inr (Some \<lparr>command_tree_list = demo_script, read_index = 0\<rparr>)"
proof (rule make_command_stream_roundtrip)
  show "demo_script \<noteq> []" by (simp add: demo_script_def)
  show "\<forall>c\<in>set demo_script. wf_command c \<and> lex_command c"
    by (simp add: demo_script_def new_info_def texts_ok_def is_word_def word_char_def valid_char_def isalnum_def
        strchr_hit_def TokAssociations_def)
  show "is_word (snd (hd (flat (hd demo_script))))" by (simp add: demo_script_def)
qed

text \<open>
  A last line of a single word without a newline is dropped without an error: the commands
  before it are returned and the word is not among them.
\<close>
theorem last_word_dropped:
  assumes "cs \<noteq> []" and "\<forall>c\<in>set cs. wf_command c \<and> lex_command c" and "is_word (snd (hd (flat (hd cs))))"
    and "is_word w"
  shows "make_command_stream stray_type stray (script_text cs @ w)
    = Inr (Some \<lparr>command_tree_list = cs, read_index = 0\<rparr>)"
proof -
  let ?ts = "script_tokens cs @ [(classify False w, w)]"
  obtain st where st: "tokenize stray_type (script_text cs @ w) = Inr st" and l: "lexes st ?ts []"
    using tokenize_script [OF assms(2,1,3), of w stray_type] assms(4) by (auto simp: flushed_def is_word_def)
  have len: "length (lexertokens st) = length ?ts"
    using l unfolding lexes_def by (metis length_map)
  have "seg (lexerbuf st) (token_array stray (lexertokens st)) 0 ?ts" by (rule seg_of_lexes [OF l])
  then have "stream_loop (lexerbuf st) (token_array stray (lexertokens st)) (int (length (lexertokens st))) 0 = Inr cs"
    by (intro stream_loop_flat [OF assms(1), where n = 1]) (use assms(2) len in auto)
  moreover have "lexertokens st \<noteq> []" using len by auto
  ultimately show ?thesis by (simp add: make_command_stream_def st)
qed

theorem last_word_dropped_witness:
  "make_command_stream (\<lambda>_. TOK_IF) (\<lambda>_. \<lparr>type = TOK_WORD, offset = 0, tok_line = 0\<rparr>)
     (script_text [SIMPLE_COMMAND new_info [''echo'', ''a'']] @ ''reboot'')
    = Inr (Some \<lparr>command_tree_list = [SIMPLE_COMMAND new_info [''echo'', ''a'']], read_index = 0\<rparr>)"
  by (rule last_word_dropped)
    (simp_all add: new_info_def texts_ok_def is_word_def word_char_def valid_char_def isalnum_def TokAssociations_def)

text \<open>
  A script whose first character is an operator is refused: \<open>strchr("<>", last_c)\<close> finds the
  null character \<open>last_c\<close> starts as, so that a leading subshell is a syntax error.
\<close>
theorem leading_operator_refused:
  "make_command_stream stray_type stray (CHR ''('' # rest) = Inl (1, Unexpected_char CHR ''('')
   \<and> make_command_stream stray_type stray (CHR ''<'' # rest) = Inl (1, Unexpected_char CHR ''<'')"
  by (simp add: make_command_stream_def tokenize_def lexer_putchar_def lexer_init_def putchar_switch_def
      delimiter_def redirect_char_def strchr_hit_def)

text \<open>
  A word list that ends at the end of the input is followed by whatever lies behind the token
  array: when that looks like a word, the command gets one word more.
\<close>
theorem unterminated_line_overread:
  assumes "type (stray 2) = TOK_WORD"
  shows "make_command_stream stray_type stray ''echo a''
    = Inr (Some \<lparr>command_tree_list =
        [SIMPLE_COMMAND new_info [''echo'', ''a'', cstr_at (''echo'' @ NUL # ''a'' @ [NUL]) (offset (stray 2))]],
        read_index = 0\<rparr>)"
proof -
  let ?ts = "[(TOK_WORD, ''echo''), (TOK_WORD, ''a'')]"
  have init: "at_token lexer_init [] [] False NUL"
    using lexes_init by (simp add: at_token_def lexer_init_def)
  have wc: "\<forall>c\<in>set ''echo''. word_char c" "\<forall>c\<in>set ''a''. word_char c"
    by (simp_all add: word_char_def valid_char_def isalnum_def)
  have cl: "flushed False [] ''echo'' = [(TOK_WORD, ''echo'')]" "stays_simple False ''echo''"
    "flushed True [(TOK_WORD, ''echo'')] ''a'' = ?ts"
    by (simp_all add: flushed_def classify_def stays_simple_def TokAssociations_def)
  obtain s1 c1 where s1: "lex_chars stray_type ''echo'' lexer_init = Inr s1" "at_token s1 [] ''echo'' False c1"
    using lex_word_chars [OF init wc(1), of stray_type] by auto
  obtain s2 where s2: "lexer_putchar stray_type CHR '' '' s1 = Inr s2"
    "at_token s2 [(TOK_WORD, ''echo'')] [] True CHR '' ''"
    using lex_blank [OF s1(2), of stray_type] cl(1,2) by auto
  obtain s3 c3 where s3: "lex_chars stray_type ''a'' s2 = Inr s3" "at_token s3 [(TOK_WORD, ''echo'')] ''a'' True c3"
    using lex_word_chars [OF s2(2) wc(2), of stray_type] by auto
  obtain st where st: "lexer_putchar stray_type NUL s3 = Inr st" "lexes st ?ts []"
    using lex_end [OF s3(2), of stray_type] cl(3) by auto
  have "lex_chars stray_type (''echo'' @ '' '' @ ''a'') lexer_init = Inr s3"
    unfolding lex_chars_append using s1(1) s2(1) s3(1) by simp
  then have tok: "tokenize stray_type ''echo a'' = Inr st"
    using st(1) by (simp add: tokenize_def)
  define tk where "tk = token_array stray (lexertokens st)"
  have len: "length (lexertokens st) = 2" using st(2) unfolding lexes_def by (metis length_map length_Cons list.size(3) numeral_2_eq_2)
  have g: "seg (lexerbuf st) tk 0 ?ts" unfolding tk_def by (rule seg_of_lexes [OF st(2)])
  have buf: "lexerbuf st = ''echo'' @ NUL # ''a'' @ [NUL]" using st(2) by (simp add: lexes_def)
  have t0: "type (tk 0) = TOK_WORD" "cstr_at (lexerbuf st) (offset (tk 0)) = ''echo''"
    and t1: "type (tk 1) = TOK_WORD" "cstr_at (lexerbuf st) (offset (tk 1)) = ''a''"
    using g by simp_all
  have t2: "tk 2 = stray 2" using len by (simp add: tk_def token_array_def)
  have sl: "scan_line tk 2 0 = 2" using t0 t1 by (simp add: scan_line.simps)
  have sw: "scan_words tk 2 0 = 3" using t0 t1 t2 assms by (simp add: scan_words.simps)
  have sb: "scan_back TOK_SC tk 0 1 0 = None" "scan_back TOK_PIPE tk 0 1 0 = None"
    using t0 t1 by (simp_all add: scan_back.simps)
  have mw: "magical_word_parser (lexerbuf st) tk 0 2 = Inr (SIMPLE_COMMAND new_info
      [''echo'', ''a'', cstr_at (lexerbuf st) (offset (stray 2))])"
    using t0 t1 t2 by (simp add: magical_word_parser_def sw add_redirects.simps upt_rec)
  have "parse_line (lexerbuf st) tk 0 2 = parse (lexerbuf st) tk 0 2" using t1 by (simp add: parse_line_def)
  also have "\<dots> = magical_word_parser (lexerbuf st) tk 0 2"
    using t0 t1 sb unfolding parse.simps [of _ tk 0 2] by simp
  finally have "stream_loop (lexerbuf st) tk 2 0 = Inr [SIMPLE_COMMAND new_info
      [''echo'', ''a'', cstr_at (lexerbuf st) (offset (stray 2))]]"
    unfolding stream_loop.simps [of _ tk 2 0] Let_def sl mw by simp
  then show ?thesis
    using len unfolding make_command_stream_def tok and_then_simps tk_def buf by (cases "lexertokens st") auto
qed

theorem unterminated_line_overread_witness:
  "make_command_stream (\<lambda>_. TOK_IF) (\<lambda>_. \<lparr>type = TOK_WORD, offset = 0, tok_line = 0\<rparr>) ''echo a''
    = Inr (Some \<lparr>command_tree_list = [SIMPLE_COMMAND new_info [''echo'', ''a'', ''echo'']], read_index = 0\<rparr>)"
  using unterminated_line_overread [of "\<lambda>_. \<lparr>type = TOK_WORD, offset = 0, tok_line = 0\<rparr>" "\<lambda>_. TOK_IF"]
  by (simp add: cstr_at_def)

text \<open>The bounds of \<open>tokenize_buffer\<close> on the text of the script above.\<close>

theorem tokenize_buffer_witness:
  "\<exists>st. tokenize (\<lambda>_. TOK_IF) (script_text demo_script) = Inr st
     \<and> token_texts st = map snd (script_tokens demo_script) \<and> lexerbuf st = flatz (token_texts st)
     \<and> length (lexerbuf st) < buf_size st"
proof -
  have "\<forall>c\<in>set demo_script. wf_command c \<and> lex_command c"
    by (simp add: demo_script_def new_info_def texts_ok_def is_word_def word_char_def valid_char_def isalnum_def
        strchr_hit_def TokAssociations_def)
  from tokenize_script [OF this, of "[]" "\<lambda>_. TOK_IF"] obtain st where
    st: "tokenize (\<lambda>_. TOK_IF) (script_text demo_script) = Inr st" "lexes st (script_tokens demo_script) []"
    by (auto simp: demo_script_def flushed_def)
  from tokenize_buffer [OF st(1)] st lexes_texts [OF st(2)] show ?thesis by auto
qed

end
