(* ===== verification/Shell_Exec.thy ===== *)
theory Shell_Exec
  imports Shell_Parser
begin

text \<open>
  The executor (\<open>execute-command.c\<close>).  The system calls are a record of parameters; a process is its
  descriptor table, the log flag and the world.  Fuel bounds the depth of calls and the rounds of
  loops.  Statuses are kept in the tree, as the code does.
\<close>

section \<open>The system the shell runs on\<close>

datatype wait_status = WExited nat | WSignaled nat | WStopped nat

text \<open>
  The state of a process: its descriptor table (slot \<open>i\<close> is descriptor \<open>i\<close>), whether the log can
  still be written (\<open>can_write\<close>), and the world outside.
\<close>

record ('w, 'f) proc =
  fds :: "'f option list"
  log_writable :: bool
  world :: 'w

text \<open>
  The system calls whose effect is outside the program.  \<open>os_pipe\<close> gives the two ends, or nothing
  when \<open>pipe\<close> fails; then the array \<open>fd\<close> keeps the numbers it happens to hold (\<open>os_stray\<close>).
  \<open>os_exec\<close> is \<open>execvp\<close> with the open descriptors of the process, from the start of the program to its
  end (programs that never end are outside the model), \<open>None\<close> when it fails; \<open>os_par\<close> runs the two sides of a pipe to their ends;
  \<open>os_fork k\<close> says whether a fork succeeds when \<open>k\<close> children of the command already run;
  \<open>os_log\<close> writes a line of the log and says whether all of it was written.
\<close>

record ('w, 'f) os =
  os_open_in :: "string \<Rightarrow> 'w \<Rightarrow> 'w \<times> 'f option"
  os_open_out :: "string \<Rightarrow> 'w \<Rightarrow> 'w \<times> 'f option"
  os_pipe :: "'w \<Rightarrow> 'w \<times> ('f \<times> 'f) option"
  os_stray :: "'w \<Rightarrow> int \<times> int"
  os_fork :: "nat \<Rightarrow> 'w \<Rightarrow> bool"
  os_exec :: "string list \<Rightarrow> (nat \<Rightarrow> 'f option) \<Rightarrow> 'w \<Rightarrow> ('w \<times> wait_status) option"
  os_not_found :: "string list \<Rightarrow> 'w \<Rightarrow> 'w"
  os_par :: "('w \<Rightarrow> ('w \<times> wait_status) option) \<Rightarrow> ('w \<Rightarrow> ('w \<times> wait_status) option) \<Rightarrow> 'w
               \<Rightarrow> ('w \<times> wait_status \<times> wait_status) option"
  os_log :: "string list option \<Rightarrow> 'w \<Rightarrow> 'w \<times> bool"

text \<open>The lowest free descriptor, as \<open>open\<close> and \<open>pipe\<close> choose it.\<close>

definition fd_get :: "'f option list \<Rightarrow> nat \<Rightarrow> 'f option" where
  "fd_get t i = (if i < length t then t ! i else None)"

fun fd_alloc :: "'f option list \<Rightarrow> 'f \<Rightarrow> nat \<times> 'f option list" where
  "fd_alloc [] d = (0, [Some d])"
| "fd_alloc (None # t) d = (0, Some d # t)"
| "fd_alloc (Some e # t) d = (case fd_alloc t d of (i, t') \<Rightarrow> (Suc i, Some e # t'))"

definition fd_close :: "'f option list \<Rightarrow> int \<Rightarrow> 'f option list" where
  "fd_close t i = (if 0 \<le> i then t[nat i := None] else t)"

text \<open>\<open>dup2(i, j)\<close> behind the code's test for -1; a closed \<open>i\<close> changes nothing.\<close>

definition redirect_fd :: "int \<Rightarrow> nat \<Rightarrow> 'f option list \<Rightarrow> 'f option list" where
  "redirect_fd i j t =
     (if i \<noteq> -1 \<and> 0 \<le> i \<and> fd_get t (nat i) \<noteq> None
      then (t @ replicate (Suc j - length t) None)[j := fd_get t (nat i)] else t)"

section \<open>Commands and their status\<close>

primrec info :: "command \<Rightarrow> command_info" where
  "info (IF_COMMAND ci _ _ _) = ci"
| "info (PIPE_COMMAND ci _ _) = ci"
| "info (SEQUENCE_COMMAND ci _ _) = ci"
| "info (SIMPLE_COMMAND ci _) = ci"
| "info (SUBSHELL_COMMAND ci _) = ci"
| "info (UNTIL_COMMAND ci _ _) = ci"
| "info (WHILE_COMMAND ci _ _) = ci"

definition command_status :: "command \<Rightarrow> int" where
  "command_status c = c_status (info c)"

primrec set_status :: "int \<Rightarrow> command \<Rightarrow> command" where
  "set_status s (IF_COMMAND ci a b c) = IF_COMMAND (ci\<lparr>c_status := s\<rparr>) a b c"
| "set_status s (PIPE_COMMAND ci a b) = PIPE_COMMAND (ci\<lparr>c_status := s\<rparr>) a b"
| "set_status s (SEQUENCE_COMMAND ci a b) = SEQUENCE_COMMAND (ci\<lparr>c_status := s\<rparr>) a b"
| "set_status s (SIMPLE_COMMAND ci w) = SIMPLE_COMMAND (ci\<lparr>c_status := s\<rparr>) w"
| "set_status s (SUBSHELL_COMMAND ci a) = SUBSHELL_COMMAND (ci\<lparr>c_status := s\<rparr>) a"
| "set_status s (UNTIL_COMMAND ci a b) = UNTIL_COMMAND (ci\<lparr>c_status := s\<rparr>) a b"
| "set_status s (WHILE_COMMAND ci a b) = WHILE_COMMAND (ci\<lparr>c_status := s\<rparr>) a b"

fun wait_value :: "wait_status \<Rightarrow> int" where
  "wait_value (WExited n) = int n"
| "wait_value (WSignaled n) = int n"
| "wait_value (WStopped n) = int n"

text \<open>
  An execution returns with the tree, whose statuses it has set, or the process ends: after an
  \<open>exec\<close> command or a fatal error.  \<open>None\<close> is an execution that has not returned within the fuel.
\<close>

datatype ('w, 'f) exec_result = Done command "('w, 'f) proc" | Exit 'w wait_status

type_synonym ('w, 'f) executor = "command \<Rightarrow> int \<Rightarrow> int \<Rightarrow> ('w, 'f) proc \<Rightarrow> ('w, 'f) exec_result option"

fun exec_bind :: "('w, 'f) exec_result option \<Rightarrow> (command \<Rightarrow> ('w, 'f) proc \<Rightarrow> ('w, 'f) exec_result option)
    \<Rightarrow> ('w, 'f) exec_result option" where
  "exec_bind None f = None"
| "exec_bind (Some (Exit w s)) f = Some (Exit w s)"
| "exec_bind (Some (Done c p)) f = f c p"

section \<open>Redirections, the log, children\<close>

definition open_redirection :: "(string \<Rightarrow> 'w \<Rightarrow> 'w \<times> 'f option) \<Rightarrow> string option \<Rightarrow> int \<Rightarrow> ('w, 'f) proc
    \<Rightarrow> int \<times> ('w, 'f) proc" where
  "open_redirection opn file fd p =
     (case file of
        None \<Rightarrow> (fd, p)
      | Some f \<Rightarrow>
          (case opn f (world p) of
             (w, None) \<Rightarrow> (-1, p\<lparr>world := w\<rparr>)
           | (w, Some d) \<Rightarrow> (case fd_alloc (fds p) d of (i, t) \<Rightarrow> (int i, p\<lparr>fds := t, world := w\<rparr>))))"

definition open_files :: "('w, 'f) os \<Rightarrow> command_info \<Rightarrow> int \<Rightarrow> int \<Rightarrow> ('w, 'f) proc \<Rightarrow> int \<times> int \<times> ('w, 'f) proc" where
  "open_files os ci inp outp p =
     (case open_redirection (os_open_in os) (c_input ci) inp p of (inp, p) \<Rightarrow>
        case open_redirection (os_open_out os) (c_output ci) outp p of (outp, p) \<Rightarrow> (inp, outp, p))"

definition close_files :: "command_info \<Rightarrow> int \<Rightarrow> int \<Rightarrow> ('w, 'f) proc \<Rightarrow> ('w, 'f) proc" where
  "close_files ci inp outp p =
     (let p = (if c_input ci = None then p else p\<lparr>fds := fd_close (fds p) inp\<rparr>)
      in if c_output ci = None then p else p\<lparr>fds := fd_close (fds p) outp\<rparr>)"

definition write_log :: "('w, 'f) os \<Rightarrow> string list option \<Rightarrow> ('w, 'f) proc \<Rightarrow> ('w, 'f) proc" where
  "write_log os entry p =
     (if \<not> log_writable p then p
      else case os_log os entry (world p) of (w, written) \<Rightarrow> p\<lparr>world := w, log_writable := written\<rparr>)"

text \<open>A forked child: executes the command and exits with its status, of which eight bits remain.\<close>

definition run_child :: "('w, 'f) executor \<Rightarrow> command \<Rightarrow> int \<Rightarrow> int \<Rightarrow> ('w, 'f) proc \<Rightarrow> 'w \<Rightarrow> ('w \<times> wait_status) option" where
  "run_child rec c inp outp p w =
     (case rec c inp outp (p\<lparr>world := w\<rparr>) of
        None \<Rightarrow> None
      | Some (Exit w s) \<Rightarrow> Some (w, s)
      | Some (Done c p) \<Rightarrow> Some (world p, WExited (nat (command_status c mod 256))))"

definition run_program :: "('w, 'f) os \<Rightarrow> string list \<Rightarrow> int \<Rightarrow> int \<Rightarrow> ('w, 'f) proc \<Rightarrow> 'w \<times> wait_status" where
  "run_program os words inp outp p =
     (case os_exec os words (fd_get (redirect_fd outp 1 (redirect_fd inp 0 (fds p)))) (world p) of
        Some r \<Rightarrow> r
      | None \<Rightarrow> (os_not_found os words (world p), WExited 127))"

section \<open>The execute functions\<close>

definition execute_sequence :: "('w, 'f) executor \<Rightarrow> command_info \<Rightarrow> command \<Rightarrow> command \<Rightarrow> int \<Rightarrow> int \<Rightarrow> ('w, 'f) proc
    \<Rightarrow> ('w, 'f) exec_result option" where
  "execute_sequence rec ci a b inp outp p =
     exec_bind (rec a inp outp p) (\<lambda>a p.
     exec_bind (rec b inp outp p) (\<lambda>b p.
       Some (Done (SEQUENCE_COMMAND (ci\<lparr>c_status := command_status b\<rparr>) a b) p)))"

text \<open>\<open>pipe (fd)\<close>, whose result the code does not check: the two numbers in \<open>fd\<close>.\<close>

definition make_pipe :: "('w, 'f) os \<Rightarrow> ('w, 'f) proc \<Rightarrow> int \<times> int \<times> ('w, 'f) proc" where
  "make_pipe os p =
     (case os_pipe os (world p) of
        (w, None) \<Rightarrow> (case os_stray os w of (f0, f1) \<Rightarrow> (f0, f1, p\<lparr>world := w\<rparr>))
      | (w, Some (d0, d1)) \<Rightarrow>
          (case fd_alloc (fds p) d0 of (f0, t) \<Rightarrow>
           case fd_alloc t d1 of (f1, t) \<Rightarrow> (int f0, int f1, p\<lparr>world := w, fds := t\<rparr>)))"

definition execute_pipe :: "('w, 'f) os \<Rightarrow> ('w, 'f) executor \<Rightarrow> command_info \<Rightarrow> command \<Rightarrow> command \<Rightarrow> int \<Rightarrow> int
    \<Rightarrow> ('w, 'f) proc \<Rightarrow> ('w, 'f) exec_result option" where
  "execute_pipe os rec ci a b inp outp p =
     (case make_pipe os p of (f0, f1, p) \<Rightarrow>
        if \<not> os_fork os 0 (world p) \<or> \<not> os_fork os 1 (world p) then Some (Exit (world p) (WExited 1))
        else
          (case os_par os (run_child rec a inp f1 (p\<lparr>fds := fd_close (fds p) f0\<rparr>))
                          (run_child rec b f0 outp (p\<lparr>fds := fd_close (fds p) f1\<rparr>)) (world p) of
             None \<Rightarrow> None
           | Some (w, sl, sr) \<Rightarrow>
               let p = p\<lparr>world := w, fds := fd_close (fd_close (fds p) f0) f1\<rparr>;
                   p = write_log os None (write_log os None p);
                   b = set_status (wait_value sr) b
               in Some (Done (PIPE_COMMAND (ci\<lparr>c_status := command_status b\<rparr>) a b) p)))"

definition execute_subshell :: "('w, 'f) os \<Rightarrow> ('w, 'f) executor \<Rightarrow> command_info \<Rightarrow> command \<Rightarrow> int \<Rightarrow> int
    \<Rightarrow> ('w, 'f) proc \<Rightarrow> ('w, 'f) exec_result option" where
  "execute_subshell os rec ci a inp outp p =
     (case open_files os ci inp outp p of (inp, outp, p) \<Rightarrow>
        if \<not> os_fork os 0 (world p) then Some (Exit (world p) (WExited 1))
        else case run_child rec a inp outp p (world p) of
          None \<Rightarrow> None
        | Some (w, s) \<Rightarrow>
            Some (Done (SUBSHELL_COMMAND (ci\<lparr>c_status := wait_value s\<rparr>) a)
                    (close_files ci inp outp (write_log os None (p\<lparr>world := w\<rparr>)))))"

definition execute_if :: "('w, 'f) os \<Rightarrow> ('w, 'f) executor \<Rightarrow> command_info \<Rightarrow> command \<Rightarrow> command \<Rightarrow> command option
    \<Rightarrow> int \<Rightarrow> int \<Rightarrow> ('w, 'f) proc \<Rightarrow> ('w, 'f) exec_result option" where
  "execute_if os rec ci a b c inp outp p =
     (case open_files os ci inp outp p of (inp, outp, p) \<Rightarrow>
        exec_bind (rec a inp outp p) (\<lambda>a p.
          if command_status a = 0 then
            exec_bind (rec b inp outp p) (\<lambda>b p.
              Some (Done (IF_COMMAND (ci\<lparr>c_status := command_status b\<rparr>) a b c) (close_files ci inp outp p)))
          else case c of
            Some c \<Rightarrow> exec_bind (rec c inp outp p) (\<lambda>c p.
              Some (Done (IF_COMMAND (ci\<lparr>c_status := command_status c\<rparr>) a b (Some c)) (close_files ci inp outp p)))
          | None \<Rightarrow>
              Some (Done (IF_COMMAND (ci\<lparr>c_status := command_status a\<rparr>) a b None) (close_files ci inp outp p))))"

text \<open>
  The loop of \<open>execute_while\<close> (\<open>while_zero\<close>) and of \<open>execute_until\<close>: the body runs as long as the
  test on the condition's status holds.
\<close>

primrec loop_rounds :: "nat \<Rightarrow> ('w, 'f) executor \<Rightarrow> bool \<Rightarrow> command \<Rightarrow> command \<Rightarrow> int \<Rightarrow> int \<Rightarrow> ('w, 'f) proc
    \<Rightarrow> (command \<Rightarrow> command \<Rightarrow> ('w, 'f) proc \<Rightarrow> ('w, 'f) exec_result option) \<Rightarrow> ('w, 'f) exec_result option" where
  "loop_rounds 0 rec while_zero a b inp outp p k = None"
| "loop_rounds (Suc n) rec while_zero a b inp outp p k =
     exec_bind (rec a inp outp p) (\<lambda>a p.
       if (command_status a = 0) = while_zero then
         exec_bind (rec b inp outp p) (\<lambda>b p. loop_rounds n rec while_zero a b inp outp p k)
       else k a b p)"

definition loop_end :: "bool \<Rightarrow> command_info \<Rightarrow> int \<Rightarrow> int \<Rightarrow> command \<Rightarrow> command \<Rightarrow> ('w, 'f) proc
    \<Rightarrow> ('w, 'f) exec_result option" where
  "loop_end while_zero ci inp outp a b p =
     (let s = (if command_status b \<noteq> -1 then command_status b else command_status a)
      in Some (Done ((if while_zero then WHILE_COMMAND else UNTIL_COMMAND) (ci\<lparr>c_status := s\<rparr>) a b)
                 (close_files ci inp outp p)))"

definition execute_loop :: "nat \<Rightarrow> bool \<Rightarrow> ('w, 'f) os \<Rightarrow> ('w, 'f) executor \<Rightarrow> command_info \<Rightarrow> command \<Rightarrow> command
    \<Rightarrow> int \<Rightarrow> int \<Rightarrow> ('w, 'f) proc \<Rightarrow> ('w, 'f) exec_result option" where
  "execute_loop n while_zero os rec ci a b inp outp p =
     (case open_files os ci inp outp p of (inp, outp, p) \<Rightarrow>
        loop_rounds n rec while_zero a b inp outp p (loop_end while_zero ci inp outp))"

definition execute_simple :: "('w, 'f) os \<Rightarrow> command_info \<Rightarrow> string list \<Rightarrow> int \<Rightarrow> int \<Rightarrow> ('w, 'f) proc
    \<Rightarrow> ('w, 'f) exec_result option" where
  "execute_simple os ci words inp outp p =
     (case open_files os ci inp outp p of (inp, outp, p) \<Rightarrow>
        if words = [] then Some (Exit (world p) (WSignaled 11))
        else if hd words = '':'' then
          Some (Done (SIMPLE_COMMAND (ci\<lparr>c_status := 0\<rparr>) words) (write_log os (Some words) p))
        else if hd words = ''exec'' then
          (case run_program os (tl words) inp outp p of (w, s) \<Rightarrow> Some (Exit w s))
        else if \<not> os_fork os 0 (world p) then Some (Exit (world p) (WExited 1))
        else case run_program os words inp outp p of
          (w, s) \<Rightarrow>
            Some (Done (SIMPLE_COMMAND (ci\<lparr>c_status := wait_value s\<rparr>) words)
                    (close_files ci inp outp (write_log os (Some words) (p\<lparr>world := w\<rparr>)))))"

primrec recursive_execute :: "nat \<Rightarrow> ('w, 'f) os \<Rightarrow> ('w, 'f) executor" where
  "recursive_execute 0 os c inp outp p = None"
| "recursive_execute (Suc n) os c inp outp p =
     (case c of
        SEQUENCE_COMMAND ci a b \<Rightarrow> execute_sequence (recursive_execute n os) ci a b inp outp p
      | PIPE_COMMAND ci a b \<Rightarrow> execute_pipe os (recursive_execute n os) ci a b inp outp p
      | SUBSHELL_COMMAND ci a \<Rightarrow> execute_subshell os (recursive_execute n os) ci a inp outp p
      | IF_COMMAND ci a b c \<Rightarrow> execute_if os (recursive_execute n os) ci a b c inp outp p
      | WHILE_COMMAND ci a b \<Rightarrow> execute_loop n True os (recursive_execute n os) ci a b inp outp p
      | UNTIL_COMMAND ci a b \<Rightarrow> execute_loop n False os (recursive_execute n os) ci a b inp outp p
      | SIMPLE_COMMAND ci words \<Rightarrow> execute_simple os ci words inp outp p)"

definition execute_command :: "nat \<Rightarrow> ('w, 'f) os \<Rightarrow> command \<Rightarrow> ('w, 'f) proc \<Rightarrow> ('w, 'f) exec_result option" where
  "execute_command n os c p = recursive_execute n os c (-1) (-1) p"

end
