(* ===== verification/Shell_Reference.thy ===== *)
theory Shell_Reference
  imports Shell_Exec Shell_Syntax
begin

text \<open>
  The semantics the executor should have, with files instead of descriptor numbers, scoped
  redirections, and statuses as results instead of fields of the tree; and what it means for the
  executor to be faithful to it on a command.
\<close>

section \<open>The reference semantics\<close>

text \<open>
  What a command computes, without descriptor numbers and without statuses in the tree.  A command
  is evaluated with the open files \<open>T\<close> of its process and with the files its standard input and
  output are redirected to (\<open>None\<close>: not redirected); redirections are scoped, so there is nothing to
  close and the outcome has no descriptors: it is the status, whether the log can still be written,
  and the world, or the end of the process.  A loop remembers the status of its last round; when no
  round ran its status is the condition's.
\<close>

datatype 'w outcome = Value int bool 'w | Ended 'w wait_status

type_synonym ('w, 'f) evaluator =
  "command \<Rightarrow> (nat \<Rightarrow> 'f option) \<Rightarrow> 'f option \<Rightarrow> 'f option \<Rightarrow> bool \<Rightarrow> 'w \<Rightarrow> 'w outcome option"

fun val_bind :: "'w outcome option \<Rightarrow> (int \<Rightarrow> bool \<Rightarrow> 'w \<Rightarrow> 'w outcome option) \<Rightarrow> 'w outcome option" where
  "val_bind None f = None"
| "val_bind (Some (Ended w s)) f = Some (Ended w s)"
| "val_bind (Some (Value v l w)) f = f v l w"

definition ref_log :: "('w, 'f) os \<Rightarrow> string list option \<Rightarrow> bool \<times> 'w \<Rightarrow> bool \<times> 'w" where
  "ref_log os entry = (\<lambda>(l, w). if l then prod.swap (os_log os entry w) else (l, w))"

text \<open>A new file takes the lowest free descriptor.\<close>

definition first_free :: "(nat \<Rightarrow> 'f option) \<Rightarrow> nat" where
  "first_free T = (LEAST i. T i = None)"

definition attach :: "'f \<Rightarrow> (nat \<Rightarrow> 'f option) \<Rightarrow> (nat \<Rightarrow> 'f option)" where
  "attach d T = T(first_free T := Some d)"

text \<open>
  A redirection replaces the file its command would have used; when the file cannot be opened, the
  command is not redirected at all, not even as its caller is (\<open>failed_input_ignored\<close>).
\<close>

definition ref_redirect :: "(string \<Rightarrow> 'w \<Rightarrow> 'w \<times> 'f option) \<Rightarrow> string option \<Rightarrow> 'f option \<times> (nat \<Rightarrow> 'f option) \<times> 'w
    \<Rightarrow> 'f option \<times> (nat \<Rightarrow> 'f option) \<times> 'w" where
  "ref_redirect opn file = (\<lambda>(h, T, w).
     case file of
       None \<Rightarrow> (h, T, w)
     | Some f \<Rightarrow> (case opn f w of
          (w, None) \<Rightarrow> (None, T, w)
        | (w, Some d) \<Rightarrow> (Some d, attach d T, w)))"

definition ref_files :: "('w, 'f) os \<Rightarrow> command_info \<Rightarrow> 'f option \<Rightarrow> 'f option \<Rightarrow> (nat \<Rightarrow> 'f option) \<Rightarrow> 'w
    \<Rightarrow> 'f option \<times> 'f option \<times> (nat \<Rightarrow> 'f option) \<times> 'w" where
  "ref_files os ci i k T w =
     (let (i, T, w) = ref_redirect (os_open_in os) (c_input ci) (i, T, w);
          (k, T, w) = ref_redirect (os_open_out os) (c_output ci) (k, T, w)
      in (i, k, T, w))"

text \<open>A program sees its redirected files as descriptors 0 and 1 and the open files besides.\<close>

definition ref_program :: "('w, 'f) os \<Rightarrow> string list \<Rightarrow> 'f option \<Rightarrow> 'f option \<Rightarrow> (nat \<Rightarrow> 'f option) \<Rightarrow> 'w
    \<Rightarrow> 'w \<times> wait_status" where
  "ref_program os words i k T w =
     (case os_exec os words (T(0 := if i = None then T 0 else i, 1 := if k = None then T 1 else k)) w of
        Some r \<Rightarrow> r
      | None \<Rightarrow> (os_not_found os words w, WExited 127))"

definition ref_status :: "wait_status \<Rightarrow> int" where
  "ref_status s = (case s of WExited n \<Rightarrow> int n | WSignaled n \<Rightarrow> int n | WStopped n \<Rightarrow> int n)"

definition ref_simple :: "('w, 'f) os \<Rightarrow> command_info \<Rightarrow> string list \<Rightarrow> (nat \<Rightarrow> 'f option) \<Rightarrow> 'f option \<Rightarrow> 'f option
    \<Rightarrow> bool \<Rightarrow> 'w \<Rightarrow> 'w outcome" where
  "ref_simple os ci words T i k l w =
     (case ref_files os ci i k T w of (i, k, T, w) \<Rightarrow>
        case words of
          [] \<Rightarrow> Ended w (WSignaled 11)
        | cmd # args \<Rightarrow>
            if cmd = '':'' then case_prod (Value 0) (ref_log os (Some words) (l, w))
            else if cmd = ''exec'' then case_prod Ended (ref_program os args i k T w)
            else if \<not> os_fork os 0 w then Ended w (WExited 1)
            else case ref_program os words i k T w of
              (w, s) \<Rightarrow> case_prod (Value (ref_status s)) (ref_log os (Some words) (l, w)))"

definition ref_child :: "('w, 'f) evaluator \<Rightarrow> command \<Rightarrow> (nat \<Rightarrow> 'f option) \<Rightarrow> 'f option \<Rightarrow> 'f option \<Rightarrow> bool \<Rightarrow> 'w
    \<Rightarrow> ('w \<times> wait_status) option" where
  "ref_child ev c T i k l w =
     (case ev c T i k l w of
        None \<Rightarrow> None
      | Some (Ended w s) \<Rightarrow> Some (w, s)
      | Some (Value v l w) \<Rightarrow> Some (w, WExited (nat (v mod 256))))"

text \<open>The sides of a pipe run in processes of their own, each with its end of the pipe.\<close>

definition ref_pipe :: "('w, 'f) os \<Rightarrow> ('w, 'f) evaluator \<Rightarrow> command \<Rightarrow> command \<Rightarrow> (nat \<Rightarrow> 'f option) \<Rightarrow> 'f option
    \<Rightarrow> 'f option \<Rightarrow> bool \<Rightarrow> 'w \<Rightarrow> 'w outcome option" where
  "ref_pipe os ev a b T i k l w =
     (case os_pipe os w of
        (w, None) \<Rightarrow> Some (Ended w (WExited 1))
      | (w, Some (d0, d1)) \<Rightarrow>
          if \<not> os_fork os 0 w \<or> \<not> os_fork os 1 w then Some (Ended w (WExited 1))
          else let f0 = first_free T; f1 = first_free (attach d0 T)
            in case os_par os (ref_child ev a (T(f1 := Some d1)) i (Some d1) l) (ref_child ev b (T(f0 := Some d0)) (Some d0) k l) w of
                 None \<Rightarrow> None
               | Some (w, sl, sr) \<Rightarrow>
                   Some (case_prod (Value (ref_status sr)) (ref_log os None (ref_log os None (l, w)))))"

definition ref_subshell :: "('w, 'f) os \<Rightarrow> ('w, 'f) evaluator \<Rightarrow> command_info \<Rightarrow> command \<Rightarrow> (nat \<Rightarrow> 'f option)
    \<Rightarrow> 'f option \<Rightarrow> 'f option \<Rightarrow> bool \<Rightarrow> 'w \<Rightarrow> 'w outcome option" where
  "ref_subshell os ev ci a T i k l w =
     (case ref_files os ci i k T w of (i, k, T, w) \<Rightarrow>
        if \<not> os_fork os 0 w then Some (Ended w (WExited 1))
        else case ref_child ev a T i k l w of
          None \<Rightarrow> None
        | Some (w, s) \<Rightarrow> Some (case_prod (Value (ref_status s)) (ref_log os None (l, w))))"

definition ref_if :: "('w, 'f) os \<Rightarrow> ('w, 'f) evaluator \<Rightarrow> command_info \<Rightarrow> command \<Rightarrow> command \<Rightarrow> command option
    \<Rightarrow> (nat \<Rightarrow> 'f option) \<Rightarrow> 'f option \<Rightarrow> 'f option \<Rightarrow> bool \<Rightarrow> 'w \<Rightarrow> 'w outcome option" where
  "ref_if os ev ci a b c T i k l w =
     (case ref_files os ci i k T w of (i, k, T, w) \<Rightarrow>
        val_bind (ev a T i k l w) (\<lambda>v l w.
          if v = 0 then ev b T i k l w
          else case c of Some c \<Rightarrow> ev c T i k l w | None \<Rightarrow> Some (Value v l w)))"

primrec ref_rounds :: "nat \<Rightarrow> ('w, 'f) evaluator \<Rightarrow> bool \<Rightarrow> command \<Rightarrow> command \<Rightarrow> (nat \<Rightarrow> 'f option) \<Rightarrow> 'f option
    \<Rightarrow> 'f option \<Rightarrow> int option \<Rightarrow> bool \<Rightarrow> 'w \<Rightarrow> 'w outcome option" where
  "ref_rounds 0 ev while_zero a b T i k prev l w = None"
| "ref_rounds (Suc n) ev while_zero a b T i k prev l w =
     val_bind (ev a T i k l w) (\<lambda>v l w.
       if (v = 0) = while_zero then
         val_bind (ev b T i k l w) (\<lambda>v l w. ref_rounds n ev while_zero a b T i k (Some v) l w)
       else Some (Value (case prev of Some s \<Rightarrow> s | None \<Rightarrow> v) l w))"

definition ref_loop :: "nat \<Rightarrow> bool \<Rightarrow> ('w, 'f) os \<Rightarrow> ('w, 'f) evaluator \<Rightarrow> command_info \<Rightarrow> command \<Rightarrow> command
    \<Rightarrow> (nat \<Rightarrow> 'f option) \<Rightarrow> 'f option \<Rightarrow> 'f option \<Rightarrow> bool \<Rightarrow> 'w \<Rightarrow> 'w outcome option" where
  "ref_loop n while_zero os ev ci a b T i k l w =
     (case ref_files os ci i k T w of (i, k, T, w) \<Rightarrow> ref_rounds n ev while_zero a b T i k None l w)"

primrec evaluate :: "nat \<Rightarrow> ('w, 'f) os \<Rightarrow> ('w, 'f) evaluator" where
  "evaluate 0 os c T i k l w = None"
| "evaluate (Suc n) os c T i k l w =
     (case c of
        SEQUENCE_COMMAND ci a b \<Rightarrow>
          val_bind (evaluate n os a T i k l w) (\<lambda>_ l w. evaluate n os b T i k l w)
      | PIPE_COMMAND ci a b \<Rightarrow> ref_pipe os (evaluate n os) a b T i k l w
      | SUBSHELL_COMMAND ci a \<Rightarrow> ref_subshell os (evaluate n os) ci a T i k l w
      | IF_COMMAND ci a b c \<Rightarrow> ref_if os (evaluate n os) ci a b c T i k l w
      | WHILE_COMMAND ci a b \<Rightarrow> ref_loop n True os (evaluate n os) ci a b T i k l w
      | UNTIL_COMMAND ci a b \<Rightarrow> ref_loop n False os (evaluate n os) ci a b T i k l w
      | SIMPLE_COMMAND ci words \<Rightarrow> Some (ref_simple os ci words T i k l w))"

section \<open>Trees up to their statuses\<close>

definition same_info :: "command_info \<Rightarrow> command_info \<Rightarrow> bool" where
  "same_info ci ci' \<longleftrightarrow> c_input ci = c_input ci' \<and> c_output ci = c_output ci'"

fun same_tree :: "command \<Rightarrow> command \<Rightarrow> bool" where
  "same_tree (SEQUENCE_COMMAND ci a b) (SEQUENCE_COMMAND ci' a' b') \<longleftrightarrow> same_tree a a' \<and> same_tree b b'"
| "same_tree (PIPE_COMMAND ci a b) (PIPE_COMMAND ci' a' b') \<longleftrightarrow> same_tree a a' \<and> same_tree b b'"
| "same_tree (SUBSHELL_COMMAND ci a) (SUBSHELL_COMMAND ci' a') \<longleftrightarrow> same_info ci ci' \<and> same_tree a a'"
| "same_tree (IF_COMMAND ci a b None) (IF_COMMAND ci' a' b' None) \<longleftrightarrow> same_info ci ci' \<and> same_tree a a' \<and> same_tree b b'"
| "same_tree (IF_COMMAND ci a b (Some c)) (IF_COMMAND ci' a' b' (Some c')) \<longleftrightarrow>
     same_info ci ci' \<and> same_tree a a' \<and> same_tree b b' \<and> same_tree c c'"
| "same_tree (WHILE_COMMAND ci a b) (WHILE_COMMAND ci' a' b') \<longleftrightarrow> same_info ci ci' \<and> same_tree a a' \<and> same_tree b b'"
| "same_tree (UNTIL_COMMAND ci a b) (UNTIL_COMMAND ci' a' b') \<longleftrightarrow> same_info ci ci' \<and> same_tree a a' \<and> same_tree b b'"
| "same_tree (SIMPLE_COMMAND ci ws) (SIMPLE_COMMAND ci' ws') \<longleftrightarrow> same_info ci ci' \<and> ws = ws'"
| "same_tree _ _ \<longleftrightarrow> False"

text \<open>
  No loop inside a loop, unless a child process runs it; the body of every loop is marked as not
  yet executed; and no command \<open>:\<close> has a redirection (its files stay open).
\<close>

fun regular :: "bool \<Rightarrow> command \<Rightarrow> bool" where
  "regular inside (SEQUENCE_COMMAND ci a b) \<longleftrightarrow> regular inside a \<and> regular inside b"
| "regular inside (PIPE_COMMAND ci a b) \<longleftrightarrow> regular False a \<and> regular False b"
| "regular inside (SUBSHELL_COMMAND ci a) \<longleftrightarrow> regular False a"
| "regular inside (IF_COMMAND ci a b None) \<longleftrightarrow> regular inside a \<and> regular inside b"
| "regular inside (IF_COMMAND ci a b (Some c)) \<longleftrightarrow> regular inside a \<and> regular inside b \<and> regular inside c"
| "regular inside (WHILE_COMMAND ci a b) \<longleftrightarrow> \<not> inside \<and> command_status b = -1 \<and> regular True a \<and> regular True b"
| "regular inside (UNTIL_COMMAND ci a b) \<longleftrightarrow> \<not> inside \<and> command_status b = -1 \<and> regular True a \<and> regular True b"
| "regular inside (SIMPLE_COMMAND ci ws) \<longleftrightarrow> (ws \<noteq> [] \<and> hd ws = '':'' \<longrightarrow> c_input ci = None \<and> c_output ci = None)"

lemma same_info_refl [simp]: "same_info ci ci" by (simp add: same_info_def)

lemma same_info_status [simp]:
  "same_info (ci\<lparr>c_status := s\<rparr>) ci' = same_info ci ci'" "same_info ci (ci'\<lparr>c_status := s\<rparr>) = same_info ci ci'"
  by (simp_all add: same_info_def)

lemma same_tree_refl [simp]: "same_tree c c"
  by (induction c rule: flat.induct) auto

lemma same_tree_if: "same_tree (IF_COMMAND ci a b c) (IF_COMMAND ci' a' b' c') \<longleftrightarrow>
    same_info ci ci' \<and> same_tree a a' \<and> same_tree b b' \<and> rel_option same_tree c c'"
  by (cases c; cases c') auto

lemma regular_if: "regular x (IF_COMMAND ci a b c) \<longleftrightarrow>
    regular x a \<and> regular x b \<and> pred_option (regular x) c"
  by (cases c) auto

lemma same_tree_set_status [simp]: "same_tree a (set_status s b) = same_tree a b"
  by (cases "(a, b)" rule: same_tree.cases) auto

lemma regular_set_status [simp]: "regular x (set_status s c) = regular x c"
  by (cases c rule: flat.cases) auto

lemma command_status_set [simp]: "command_status (set_status s c) = s"
  by (cases c) (simp_all add: command_status_def)

lemma regular_False: "regular True c \<Longrightarrow> regular False c"
  by (induction c rule: flat.induct) auto

lemma same_info_files:
  assumes "same_info ci ci'"
  shows "open_files os ci = open_files os ci'" and "close_files ci = close_files ci'"
  using assms by (intro ext; simp add: same_info_def open_files_def close_files_def)+

lemma wait_value_nonneg [simp]: "0 \<le> wait_value s"
  by (cases s) auto

lemma ref_status_value: "ref_status s = wait_value s"
  by (cases s) (simp_all add: ref_status_def)

section \<open>Descriptors\<close>

text \<open>Descriptor tables as functions: what \<open>open\<close>, \<open>close\<close> and \<open>dup2\<close> do to the open files.\<close>

lemma fd_get_Cons: "fd_get (x # xs) j = (case j of 0 \<Rightarrow> x | Suc j \<Rightarrow> fd_get xs j)"
  by (cases j) (auto simp: fd_get_def)

lemma fd_alloc_get:
  "fd_alloc t d = (k, t') \<Longrightarrow> fd_get t k = None \<and> (\<forall>j<k. fd_get t j \<noteq> None) \<and> fd_get t' = (fd_get t)(k := Some d)"
proof (induction t d arbitrary: k t' rule: fd_alloc.induct)
  case (3 e t d)
  then obtain i t1 where it: "fd_alloc t d = (i, t1)" "k = Suc i" "t' = Some e # t1" by (auto split: prod.splits)
  show ?case using "3.IH" [OF it(1)] it(2,3) by (auto simp: fd_get_Cons fun_eq_iff split: nat.splits)
qed (auto simp: fd_get_def nth_Cons' fun_eq_iff)

lemma fd_get_close: "fd_get (fd_close t i) j = (if i = int j then None else fd_get t j)"
  by (auto simp: fd_get_def fd_close_def nth_list_update)

lemma fd_get_redirect:
  "fd_get (redirect_fd i j t)
     = (if i \<noteq> -1 \<and> 0 \<le> i \<and> fd_get t (nat i) \<noteq> None then (fd_get t)(j := fd_get t (nat i)) else fd_get t)"
  by (auto simp: fd_get_def redirect_fd_def fun_eq_iff nth_list_update nth_append)

lemma fd_alloc_attach:
  assumes "fd_alloc t d = (k, t')"
  shows "k = first_free (fd_get t)" "fd_get t' = attach d (fd_get t)" "fd_get t k = None"
proof -
  note g = fd_alloc_get [OF assms]
  then show k: "k = first_free (fd_get t)"
    unfolding first_free_def by (intro Least_equality [symmetric]) (auto simp: not_less [symmetric])
  with g show "fd_get t' = attach d (fd_get t)" "fd_get t k = None" by (simp_all add: attach_def)
qed

lemma write_log_fds [simp]: "fds (write_log os e p) = fds p"
  by (simp add: write_log_def split: prod.splits)

lemma write_log_ref:
  "log_writable (write_log os e p) = fst (ref_log os e (log_writable p, world p))"
  "world (write_log os e p) = snd (ref_log os e (log_writable p, world p))"
  by (simp_all add: write_log_def ref_log_def split: prod.splits)

text \<open>
  The descriptor a command was given (\<open>-1\<close>: none) for the file its input or output comes from.
  Descriptor 0 is open, so that no file of a redirection is descriptor 0.
\<close>

definition handle :: "(nat \<Rightarrow> 'f option) \<Rightarrow> int \<Rightarrow> 'f option \<Rightarrow> bool" where
  "handle T i h \<longleftrightarrow> (if i = -1 then h = None else 0 < i \<and> T (nat i) = h \<and> h \<noteq> None)"

lemma handle_none [simp]: "handle T (-1) None"
  by (simp add: handle_def)

lemma handle_new: "T 0 \<noteq> None \<Longrightarrow> T k = None \<Longrightarrow> handle (T(k := Some d)) (int k) (Some d)"
  by (auto simp: handle_def intro: gr0I)

lemma handle_old: "handle T i h \<Longrightarrow> T k = None \<Longrightarrow> handle (T(k := d)) i h"
  by (auto simp: handle_def split: if_splits)

definition std_open :: "('w, 'f) proc \<Rightarrow> bool" where
  "std_open p \<longleftrightarrow> fd_get (fds p) 0 \<noteq> None"

lemma redirection_ref:
  assumes op: "open_redirection opn file i p = (i', q)" and std: "std_open p"
    and h: "handle (fd_get (fds p)) i h" and g: "handle (fd_get (fds p)) j g"
  shows "\<exists>h'. ref_redirect opn file (h, fd_get (fds p), world p) = (h', fd_get (fds q), world q)
    \<and> handle (fd_get (fds q)) i' h' \<and> handle (fd_get (fds q)) j g \<and> std_open q \<and> log_writable q = log_writable p
    \<and> (file \<noteq> None \<longrightarrow> i' = -1 \<or> (\<exists>k. i' = int k \<and> fd_get (fds p) k = None))
    \<and> (file = None \<longrightarrow> fds q = fds p) \<and> (\<forall>j. i' \<noteq> int j \<longrightarrow> fd_get (fds q) j = fd_get (fds p) j)"
proof (cases "file")
  case None
  then show ?thesis using assms by (simp add: open_redirection_def ref_redirect_def)
next
  case (Some f)
  obtain w r where r: "opn f (world p) = (w, r)" by fastforce
  show ?thesis
  proof (cases r)
    case None
    then show ?thesis using assms Some r by (auto simp: open_redirection_def ref_redirect_def std_open_def)
  next
    case d: (Some d)
    obtain k t where a: "fd_alloc (fds p) d = (k, t)" by fastforce
    note A = fd_alloc_attach [OF a]
    have q: "i' = int k" "q = p\<lparr>fds := t, world := w\<rparr>" using op Some r d a by (auto simp: open_redirection_def)
    have T: "fd_get (fds q) = (fd_get (fds p))(k := Some d)" using A by (simp add: q attach_def)
    have "k \<noteq> 0" using std A(3) unfolding std_open_def by metis
    then have "handle (fd_get (fds q)) i' (Some d)" "handle (fd_get (fds q)) j g" "std_open q"
      using std handle_new [of "fd_get (fds p)" k d] handle_old [OF g A(3)] A(3) unfolding T q(1) std_open_def by auto
    then show ?thesis using A T Some r d q by (auto simp: ref_redirect_def)
  qed
qed

text \<open>Files opened by a command are closed again by it, whatever has happened in between.\<close>

definition same_fds :: "('w, 'f) proc \<Rightarrow> ('w, 'f) proc \<Rightarrow> bool" where
  "same_fds p q \<longleftrightarrow> fd_get (fds p) = fd_get (fds q)"

lemma same_fds_refl [simp]: "same_fds p p" by (simp add: same_fds_def)
lemma same_fds_trans: "same_fds p q \<Longrightarrow> same_fds q r \<Longrightarrow> same_fds p r" by (simp add: same_fds_def)

lemma open_redirection_get:
  assumes "open_redirection opn file fd p = (i, q)"
  shows "(file \<noteq> None \<longrightarrow> i = -1 \<or> (\<exists>k. i = int k \<and> fd_get (fds p) k = None))
    \<and> (file = None \<longrightarrow> fd_get (fds q) = fd_get (fds p))
    \<and> (\<forall>j. i \<noteq> int j \<longrightarrow> fd_get (fds q) j = fd_get (fds p) j)"
  using assms unfolding open_redirection_def
  by (auto split: option.splits prod.splits dest: fd_alloc_get)

lemma open_close_files:
  assumes op: "open_files os ci inp outp p = (i, k, q)" and q: "same_fds q q'"
  shows "same_fds p (close_files ci i k q')"
proof -
  obtain p1 where 1: "open_redirection (os_open_in os) (c_input ci) inp p = (i, p1)"
    and 2: "open_redirection (os_open_out os) (c_output ci) outp p1 = (k, q)"
    using op by (auto simp: open_files_def split: prod.splits)
  note g1 = open_redirection_get [OF 1] and g2 = open_redirection_get [OF 2]
  have q': "fd_get (fds q') = fd_get (fds q)" using q by (simp add: same_fds_def)
  have "fd_get (fds p) j = fd_get (fds (close_files ci i k q')) j" for j
    using g1 g2 q' by (auto simp: close_files_def Let_def fd_get_close)
  then show ?thesis by (auto simp: same_fds_def)
qed

lemma close_files_other [simp]:
  "world (close_files ci i k p) = world p" "log_writable (close_files ci i k p) = log_writable p"
  by (simp_all add: close_files_def Let_def)

lemma files_ref:
  assumes std: "std_open p" and h: "handle (fd_get (fds p)) inp hi" "handle (fd_get (fds p)) outp ho"
  obtains i k q hi' ho' where "open_files os ci inp outp p = (i, k, q)"
    "ref_files os ci hi ho (fd_get (fds p)) (world p) = (hi', ho', fd_get (fds q), world q)"
    "std_open q" "handle (fd_get (fds q)) i hi'" "handle (fd_get (fds q)) k ho'" "log_writable q = log_writable p"
    "\<forall>q'. same_fds q q' \<longrightarrow> same_fds p (close_files ci i k q')"
proof -
  obtain i p1 where 1: "open_redirection (os_open_in os) (c_input ci) inp p = (i, p1)" by fastforce
  from redirection_ref [OF 1 std h] obtain hi' where
    r1: "ref_redirect (os_open_in os) (c_input ci) (hi, fd_get (fds p), world p) = (hi', fd_get (fds p1), world p1)"
      "handle (fd_get (fds p1)) i hi'" "handle (fd_get (fds p1)) outp ho" "std_open p1" "log_writable p1 = log_writable p"
    by blast
  obtain k q where 2: "open_redirection (os_open_out os) (c_output ci) outp p1 = (k, q)" by fastforce
  from redirection_ref [OF 2 r1(4,3,2)] obtain ho' where
    r2: "ref_redirect (os_open_out os) (c_output ci) (ho, fd_get (fds p1), world p1) = (ho', fd_get (fds q), world q)"
      "handle (fd_get (fds q)) k ho'" "handle (fd_get (fds q)) i hi'" "std_open q" "log_writable q = log_writable p1"
    by blast
  have op: "open_files os ci inp outp p = (i, k, q)" using 1 2 by (simp add: open_files_def)
  show ?thesis
    by (rule that [OF op _ r2(4,3,2)]) (simp_all add: ref_files_def r1 r2 open_close_files [OF op])
qed

lemma program_ref:
  assumes "handle (fd_get (fds p)) inp hi" "handle (fd_get (fds p)) outp ho"
  shows "run_program os ws inp outp p = ref_program os ws hi ho (fd_get (fds p)) (world p)"
proof -
  let ?T = "fd_get (fds p)"
  have "fd_get (redirect_fd outp 1 (redirect_fd inp 0 (fds p)))
      = ?T(0 := if hi = None then ?T 0 else hi, 1 := if ho = None then ?T 1 else ho)"
    using assms unfolding handle_def by (auto simp: fd_get_redirect fun_eq_iff split: if_splits)
  then show ?thesis by (simp add: run_program_def ref_program_def)
qed

text \<open>The result of an execution without the tree and the descriptors.\<close>

fun result_of :: "('w, 'f) exec_result \<Rightarrow> 'w outcome" where
  "result_of (Done c p) = Value (command_status c) (log_writable p) (world p)"
| "result_of (Exit w s) = Ended w s"

text \<open>
  An executor is faithful to an evaluator on a command when both have the same outcome, the tree that
  is returned differs in its statuses only, and the open files are the ones from before.
\<close>

definition agree :: "('w, 'f) exec_result option \<Rightarrow> 'w outcome option \<Rightarrow> bool \<Rightarrow> command \<Rightarrow> ('w, 'f) proc \<Rightarrow> bool" where
  "agree r e inside c p \<longleftrightarrow> map_option result_of r = e
     \<and> (\<forall>c'' p'. r = Some (Done c'' p') \<longrightarrow>
          same_tree c c'' \<and> 0 \<le> command_status c'' \<and> (inside \<longrightarrow> regular True c'') \<and> same_fds p p')"

definition faithful :: "('w, 'f) executor \<Rightarrow> ('w, 'f) evaluator \<Rightarrow> bool \<Rightarrow> command \<Rightarrow> bool" where
  "faithful rec ev inside c \<longleftrightarrow>
     (\<forall>c' inp outp p hi ho. same_tree c c' \<longrightarrow> regular inside c' \<longrightarrow> std_open p \<longrightarrow>
        handle (fd_get (fds p)) inp hi \<longrightarrow> handle (fd_get (fds p)) outp ho \<longrightarrow>
        agree (rec c' inp outp p) (ev c (fd_get (fds p)) hi ho (log_writable p) (world p)) inside c p)"

lemma faithfulD:
  "faithful rec ev inside c \<Longrightarrow> same_tree c c' \<Longrightarrow> regular inside c' \<Longrightarrow> std_open p \<Longrightarrow>
   handle (fd_get (fds p)) inp hi \<Longrightarrow> handle (fd_get (fds p)) outp ho \<Longrightarrow>
   agree (rec c' inp outp p) (ev c (fd_get (fds p)) hi ho (log_writable p) (world p)) inside c p"
  unfolding faithful_def by blast

lemma agree_cases:
  assumes "agree r e inside c p"
  obtains "r = None" "e = None"
    | w s where "r = Some (Exit w s)" "e = Some (Ended w s)"
    | c'' p' where "r = Some (Done c'' p')" "e = Some (Value (command_status c'') (log_writable p') (world p'))"
        "same_tree c c''" "0 \<le> command_status c''" "inside \<longrightarrow> regular True c''" "same_fds p p'"
proof (cases r)
  case None then show ?thesis using that(1) assms by (simp add: agree_def)
next
  case (Some x)
  then show ?thesis using assms that(2,3) by (cases x) (auto simp: agree_def)
qed

lemma same_fds_keeps:
  assumes "same_fds p q"
  shows "fd_get (fds q) = fd_get (fds p)" "std_open q = std_open p"
  using assms by (simp_all add: same_fds_def std_open_def)

lemma child_faithful:
  assumes "faithful rec ev False c" and "same_tree c c'" and "regular False c'" and "std_open p"
    and "handle (fd_get (fds p)) inp hi" "handle (fd_get (fds p)) outp ho"
  shows "run_child rec c' inp outp p = ref_child ev c (fd_get (fds p)) hi ho (log_writable p)"
proof
  fix w
  have "agree (rec c' inp outp (p\<lparr>world := w\<rparr>)) (ev c (fd_get (fds p)) hi ho (log_writable p) w) False c (p\<lparr>world := w\<rparr>)"
    using faithfulD [OF assms(1-3), where p = "p\<lparr>world := w\<rparr>" and inp = inp and outp = outp and hi = hi and ho = ho] assms(4-)
    by (simp add: std_open_def)
  then show "run_child rec c' inp outp p w = ref_child ev c (fd_get (fds p)) hi ho (log_writable p) w"
    by (cases rule: agree_cases) (simp_all add: run_child_def ref_child_def)
qed

end
