(* ===== verification/Shell_Exec_Props.thy ===== *)
theory Shell_Exec_Props
  imports Shell_Reference
begin

text \<open>
  The executor follows the reference semantics, returns the descriptor table it was given, and
  what it does on a failed redirection and on a loop inside a loop.
\<close>

section \<open>Execution follows the reference semantics\<close>

text \<open>
  In this section the state of the process and the descriptors of the command are fixed: \<open>hi\<close> and
  \<open>ho\<close> are the files behind \<open>inp\<close> and \<open>outp\<close>.
\<close>

lemma agree_None [simp]: "agree None None x c p"
  by (simp add: agree_def)

lemma agree_Exit [simp]: "agree (Some (Exit w s)) (Some (Ended w s)) x c p"
  by (simp add: agree_def)

lemma agree_Done:
  "agree (Some (Done c' p')) e x c p \<longleftrightarrow> e = Some (Value (command_status c') (log_writable p') (world p'))
     \<and> same_tree c c' \<and> 0 \<le> command_status c' \<and> (x \<longrightarrow> regular True c') \<and> same_fds p p'"
  by (auto simp: agree_def)

text \<open>A second command, executed in the state the first has left.\<close>

lemma faithful_next:
  assumes "faithful rec ev x c" "same_tree c c'" "regular x c'" "same_fds p q" "std_open p"
    "handle (fd_get (fds p)) inp hi" "handle (fd_get (fds p)) outp ho"
  shows "agree (rec c' inp outp q) (ev c (fd_get (fds p)) hi ho (log_writable q) (world q)) x c q"
  using faithfulD [OF assms(1-3), of q inp hi outp ho] assms(5-) same_fds_keeps [OF assms(4)] by simp

lemma sequence_faithful:
  assumes a: "faithful rec ev x a" and b: "faithful rec ev x b"
    and t: "same_tree a a'" "same_tree b b'" and l: "regular x a'" "regular x b'"
    and p: "std_open p" "handle (fd_get (fds p)) inp hi" "handle (fd_get (fds p)) outp ho"
  shows "agree (execute_sequence rec ci' a' b' inp outp p)
      (val_bind (ev a (fd_get (fds p)) hi ho (log_writable p) (world p)) (\<lambda>_ l w. ev b (fd_get (fds p)) hi ho l w))
      x (SEQUENCE_COMMAND ci a b) p"
proof (cases rule: agree_cases [OF faithfulD [OF a t(1) l(1) p]])
  case (3 a2 p2)
  show ?thesis
    by (cases rule: agree_cases [OF faithful_next [OF b t(2) l(2) 3(6) p]])
      (use 3 in \<open>auto simp: execute_sequence_def command_status_def agree_Done intro: same_fds_trans\<close>)
qed (simp_all add: execute_sequence_def)

text \<open>The system calls \<open>pipe\<close> of a run all succeed.\<close>

definition pipes_open :: "('w, 'f) os \<Rightarrow> bool" where
  "pipes_open os \<longleftrightarrow> (\<forall>w. snd (os_pipe os w) \<noteq> None)"

text \<open>The two ends of a pipe, and the open files of its sides.\<close>

lemma make_pipe_ends:
  assumes "pipes_open os" "std_open p"
  obtains w d0 d1 f0 f1 q where "os_pipe os (world p) = (w, Some (d0, d1))"
    "make_pipe os p = (int f0, int f1, q)" "world q = w" "log_writable q = log_writable p"
    "f0 = first_free (fd_get (fds p))" "f1 = first_free (attach d0 (fd_get (fds p)))"
    "fd_get (fds p) f0 = None" "fd_get (fds p) f1 = None" "f0 \<noteq> f1" "f0 \<noteq> 0" "f1 \<noteq> 0"
    "fd_get (fds q) = (fd_get (fds p))(f0 := Some d0, f1 := Some d1)"
proof -
  obtain w d0 d1 where 0: "os_pipe os (world p) = (w, Some (d0, d1))"
    using assms(1) unfolding pipes_open_def by (metis option.exhaust prod.exhaust snd_conv)
  obtain f0 t0 where 1: "fd_alloc (fds p) d0 = (f0, t0)" by fastforce
  obtain f1 t where 2: "fd_alloc t0 d1 = (f1, t)" by fastforce
  note A = fd_alloc_attach [OF 1] and B = fd_alloc_attach [OF 2]
  have T0: "fd_get t0 = (fd_get (fds p))(f0 := Some d0)" using A by (simp add: attach_def)
  have f: "f0 \<noteq> f1" "fd_get (fds p) f1 = None" using B(3) unfolding T0 by (auto split: if_splits)
  have z: "f0 \<noteq> 0" "f1 \<noteq> 0" using A(3) f(2) assms(2) unfolding std_open_def by metis+
  have T: "fd_get t = (fd_get (fds p))(f0 := Some d0, f1 := Some d1)" using B T0 by (simp add: attach_def)
  show ?thesis
    by (rule that [OF 0, of f0 f1 "p\<lparr>world := w, fds := t\<rparr>"])
      (use 0 1 2 A B f z T in \<open>simp_all add: make_pipe_def\<close>)
qed

lemma pipe_faithful:
  assumes os: "pipes_open os" and a: "faithful rec ev False a" and b: "faithful rec ev False b"
    and t: "same_tree a a'" "same_tree b b'" and l: "regular False a'" "regular False b'"
    and p: "std_open p" "handle (fd_get (fds p)) inp hi" "handle (fd_get (fds p)) outp ho"
  shows "agree (execute_pipe os rec ci' a' b' inp outp p)
      (ref_pipe os ev a b (fd_get (fds p)) hi ho (log_writable p) (world p)) x (PIPE_COMMAND ci a b) p"
proof -
  let ?T = "fd_get (fds p)"
  obtain w d0 d1 f0 f1 q where m: "os_pipe os (world p) = (w, Some (d0, d1))"
    "make_pipe os p = (int f0, int f1, q)" "world q = w" "log_writable q = log_writable p"
    and f: "f0 = first_free ?T" "f1 = first_free (attach d0 ?T)"
    and n: "?T f0 = None" "?T f1 = None" "f0 \<noteq> f1" "f0 \<noteq> 0" "f1 \<noteq> 0"
    and T: "fd_get (fds q) = ?T(f0 := Some d0, f1 := Some d1)"
    by (rule make_pipe_ends [OF os p(1)])
  let ?l = "q\<lparr>fds := fd_close (fds q) (int f0)\<rparr>" and ?r = "q\<lparr>fds := fd_close (fds q) (int f1)\<rparr>"
  have Tl: "fd_get (fds ?l) = ?T(f1 := Some d1)" and Tr: "fd_get (fds ?r) = ?T(f0 := Some d0)"
    using n T by (auto simp: fun_eq_iff fd_get_close)
  have std: "std_open ?l" "std_open ?r"
    using p(1) n Tl Tr unfolding std_open_def by (metis fun_upd_apply)+
  have hl: "handle (fd_get (fds ?l)) inp hi" "handle (fd_get (fds ?l)) (int f1) (Some d1)"
    and hr: "handle (fd_get (fds ?r)) (int f0) (Some d0)" "handle (fd_get (fds ?r)) outp ho"
    unfolding Tl Tr using handle_old [OF p(2) n(2)] handle_old [OF p(3) n(1)] p(1) n
    by (auto simp: std_open_def intro: handle_new)
  note cl = child_faithful [OF a t(1) l(1) std(1) hl, unfolded Tl]
  note cr = child_faithful [OF b t(2) l(2) std(2) hr, unfolded Tr]
  have same: "same_fds p (q\<lparr>world := w', fds := fd_close (fd_close (fds q) (int f0)) (int f1)\<rparr>)" for w'
    using n T by (auto simp: same_fds_def fun_eq_iff fd_get_close)
  show ?thesis
    unfolding execute_pipe_def ref_pipe_def m prod.case option.case
    using cl cr m(3,4) t l same f
    by (auto simp: agree_Done Let_def command_status_def [of "PIPE_COMMAND _ _ _"] write_log_ref ref_status_value
        same_fds_def split: prod.splits option.splits)
qed

lemma subshell_faithful:
  assumes a: "faithful rec ev False a" and t: "same_tree a a'" and l: "regular False a'" and ci: "same_info ci ci'"
    and p: "std_open p" "handle (fd_get (fds p)) inp hi" "handle (fd_get (fds p)) outp ho"
  shows "agree (execute_subshell os rec ci' a' inp outp p)
      (ref_subshell os ev ci a (fd_get (fds p)) hi ho (log_writable p) (world p)) x (SUBSHELL_COMMAND ci a) p"
proof -
  obtain i k q hi' ho' where op: "open_files os ci inp outp p = (i, k, q)"
    "ref_files os ci hi ho (fd_get (fds p)) (world p) = (hi', ho', fd_get (fds q), world q)"
    and q: "std_open q" "handle (fd_get (fds q)) i hi'" "handle (fd_get (fds q)) k ho'" "log_writable q = log_writable p"
    and fin0: "\<forall>q'. same_fds q q' \<longrightarrow> same_fds p (close_files ci i k q')"
    by (rule files_ref [OF p, of os ci])
  note fin = fin0 [rule_format]
  note c = child_faithful [OF a t l q(1-3)]
  have "same_fds p (close_files ci i k (write_log os None (q\<lparr>world := w\<rparr>)))" for w
    by (rule fin) (simp add: same_fds_def)
  then show ?thesis
    unfolding execute_subshell_def ref_subshell_def same_info_files [OF ci, symmetric] op prod.case c
    using t l ci q(4)
    by (auto simp: agree_Done command_status_def [of "SUBSHELL_COMMAND _ _"] write_log_ref ref_status_value
        split: prod.splits option.splits)
qed

lemma simple_faithful:
  assumes ci: "same_info ci ci'" and l: "regular x (SIMPLE_COMMAND ci' ws)"
    and p: "std_open p" "handle (fd_get (fds p)) inp hi" "handle (fd_get (fds p)) outp ho"
  shows "agree (execute_simple os ci' ws inp outp p)
      (Some (ref_simple os ci ws (fd_get (fds p)) hi ho (log_writable p) (world p))) x (SIMPLE_COMMAND ci ws) p"
proof -
  obtain i k q hi' ho' where op: "open_files os ci inp outp p = (i, k, q)"
    "ref_files os ci hi ho (fd_get (fds p)) (world p) = (hi', ho', fd_get (fds q), world q)"
    and q: "std_open q" "handle (fd_get (fds q)) i hi'" "handle (fd_get (fds q)) k ho'" "log_writable q = log_writable p"
    and fin0: "\<forall>q'. same_fds q q' \<longrightarrow> same_fds p (close_files ci i k q')"
    by (rule files_ref [OF p, of os ci])
  note fin = fin0 [rule_format]
  have run: "run_program os ws' i k q = ref_program os ws' hi' ho' (fd_get (fds q)) (world q)" for ws'
    by (rule program_ref [OF q(2,3)])
  have same: "same_fds p (close_files ci i k (write_log os e (q\<lparr>world := w\<rparr>)))" for e w
    by (rule fin) (simp add: same_fds_def)
  have colon: "q = p" if "ws \<noteq> []" "hd ws = '':''"
    using that l op(1) ci by (simp add: open_files_def open_redirection_def same_info_def)
  show ?thesis
    unfolding execute_simple_def ref_simple_def same_info_files [OF ci, symmetric] op prod.case run
    using ci q(4) same colon l
    by (cases ws) (auto simp: agree_Done command_status_def write_log_ref ref_status_value same_fds_def same_info_def
        split: prod.splits option.splits)
qed

lemma regular_inside: "(x \<longrightarrow> regular True c) \<Longrightarrow> (x \<longrightarrow> regular x c)"
  by (cases x) auto

lemma if_faithful:
  assumes a: "faithful rec ev x a" and b: "faithful rec ev x b"
    and c: "\<forall>c0\<in>set_option c. faithful rec ev x c0"
    and t: "same_tree (IF_COMMAND ci a b c) (IF_COMMAND ci' a' b' c')" and l: "regular x (IF_COMMAND ci' a' b' c')"
    and p: "std_open p" "handle (fd_get (fds p)) inp hi" "handle (fd_get (fds p)) outp ho"
  shows "agree (execute_if os rec ci' a' b' c' inp outp p)
      (ref_if os ev ci a b c (fd_get (fds p)) hi ho (log_writable p) (world p)) x (IF_COMMAND ci a b c) p"
proof -
  have ci: "same_info ci ci'" and ta: "same_tree a a'" and tb: "same_tree b b'" and tc: "rel_option same_tree c c'"
    using t unfolding same_tree_if by blast+
  have la: "regular x a'" and lb: "regular x b'" and lc: "pred_option (regular x) c'"
    using l unfolding regular_if by blast+
  obtain i k q hi' ho' where op: "open_files os ci inp outp p = (i, k, q)"
    "ref_files os ci hi ho (fd_get (fds p)) (world p) = (hi', ho', fd_get (fds q), world q)"
    and q: "std_open q" "handle (fd_get (fds q)) i hi'" "handle (fd_get (fds q)) k ho'" and log: "log_writable q = log_writable p"
    and fin0: "\<forall>q'. same_fds q q' \<longrightarrow> same_fds p (close_files ci i k q')"
    by (rule files_ref [OF p, of os ci])
  note fin = fin0 [rule_format]
  note unf = execute_if_def ref_if_def same_info_files [OF ci, symmetric] op prod.case log [symmetric]
  have st: "command_status (IF_COMMAND ci0 a0 b0 c0) = c_status ci0" for ci0 a0 b0 c0 by (simp add: command_status_def)
  show ?thesis
  proof (cases rule: agree_cases [OF faithfulD [OF a ta la q]])
    case ra: (3 a2 p2)
    have rx: "x \<longrightarrow> regular x a2" using ra(5) by (rule regular_inside)
    show ?thesis
    proof (cases "command_status a2 = 0")
      case True
      show ?thesis
      proof (cases rule: agree_cases [OF faithful_next [OF b tb lb ra(6) q]])
        case rb: (3 b2 p3)
        then show ?thesis using ra True ci tc lc fin [OF same_fds_trans [OF ra(6) rb(6)]]
          by (cases x) (simp_all add: unf st same_tree_if regular_if agree_Done)
      qed (use ra True in \<open>simp_all add: unf\<close>)
    next
      case False
      show ?thesis
      proof (cases c')
        case None
        then have "c = None" using tc by (cases c) auto
        then show ?thesis using None ra False ci tb lb fin [OF ra(6)]
          by (cases x) (simp_all add: unf st same_tree_if regular_if agree_Done)
      next
        case (Some d')
        then obtain d where d: "c = Some d" using tc by (cases c) auto
        have fd: "faithful rec ev x d" "same_tree d d'" "regular x d'" using c tc lc Some d by auto
        show ?thesis
        proof (cases rule: agree_cases [OF faithful_next [OF fd ra(6) q]])
          case rd: (3 d2 p3)
          then show ?thesis using ra False ci tb lb Some d fin [OF same_fds_trans [OF ra(6) rd(6)]]
            by (cases x) (simp_all add: unf st same_tree_if regular_if agree_Done)
        qed (use ra False Some d in \<open>simp_all add: unf\<close>)
      qed
    qed
  qed (simp_all add: unf)
qed

text \<open>The rounds of a loop, and the status the loop ends with.\<close>

lemma rounds_faithful:
  assumes a: "faithful rec ev True a" and b: "faithful rec ev True b" and ci: "same_info ci ci'"
    and p: "std_open p" "handle (fd_get (fds p)) inp hi" "handle (fd_get (fds p)) outp ho"
    and fin: "\<And>q'. same_fds p q' \<Longrightarrow> same_fds p0 (close_files ci' inp outp q')"
  shows "same_tree a a' \<Longrightarrow> same_tree b b' \<Longrightarrow> regular True a' \<Longrightarrow> regular True b' \<Longrightarrow> same_fds p q \<Longrightarrow>
    command_status b' = (case prev of Some s \<Rightarrow> s | None \<Rightarrow> -1) \<Longrightarrow> (\<forall>s. prev = Some s \<longrightarrow> 0 \<le> s) \<Longrightarrow>
    agree (loop_rounds n rec z a' b' inp outp q (loop_end z ci' inp outp))
      (ref_rounds n ev z a b (fd_get (fds p)) hi ho prev (log_writable q) (world q))
      False ((if z then WHILE_COMMAND else UNTIL_COMMAND) ci a b) p0"
proof (induction n arbitrary: a' b' prev q)
  case (Suc n)
  show ?case
  proof (cases rule: agree_cases [OF faithful_next [OF a Suc.prems(1,3,5) p]])
    case ra: (3 a2 p2)
    have s2: "same_fds p p2" by (rule same_fds_trans [OF Suc.prems(5) ra(6)])
    show ?thesis
    proof (cases "(command_status a2 = 0) = z")
      case True
      show ?thesis
      proof (cases rule: agree_cases [OF faithful_next [OF b Suc.prems(2,4) s2 p]])
        case rb: (3 b2 p3)
        have la: "regular True a2" and lb: "regular True b2" using ra(5) rb(5) by simp_all
        show ?thesis
          using Suc.IH [OF ra(3) rb(3) la lb same_fds_trans [OF s2 rb(6)], of "Some (command_status b2)"]
            ra(1,2) rb(1,2,4) True by simp
      qed (use ra True in simp_all)
    next
      case False
      then show ?thesis
        using ra Suc.prems fin [OF s2] ci
        by (cases prev; cases z) (auto simp: loop_end_def Let_def command_status_def agree_Done)
    qed
  qed simp_all
qed simp

lemma loop_faithful:
  assumes a: "faithful rec ev True a" and b: "faithful rec ev True b" and ci: "same_info ci ci'"
    and t: "same_tree a a'" "same_tree b b'" and l: "regular True a'" "regular True b'" "command_status b' = -1"
    and p: "std_open p" "handle (fd_get (fds p)) inp hi" "handle (fd_get (fds p)) outp ho"
  shows "agree (execute_loop n z os rec ci' a' b' inp outp p)
      (ref_loop n z os ev ci a b (fd_get (fds p)) hi ho (log_writable p) (world p))
      False ((if z then WHILE_COMMAND else UNTIL_COMMAND) ci a b) p"
proof -
  obtain i k q hi' ho' where op: "open_files os ci inp outp p = (i, k, q)"
    "ref_files os ci hi ho (fd_get (fds p)) (world p) = (hi', ho', fd_get (fds q), world q)"
    and q: "std_open q" "handle (fd_get (fds q)) i hi'" "handle (fd_get (fds q)) k ho'" and log: "log_writable q = log_writable p"
    and fin0: "\<forall>q'. same_fds q q' \<longrightarrow> same_fds p (close_files ci i k q')"
    by (rule files_ref [OF p, of os ci])
  note fin = fin0 [rule_format]
  have "command_status b' = (case None of Some s \<Rightarrow> s | None \<Rightarrow> -1)" using l(3) by simp
  from rounds_faithful [OF a b ci q fin [unfolded same_info_files(2) [OF ci]] t l(1,2) same_fds_refl this, of n z]
  show ?thesis
    unfolding execute_loop_def ref_loop_def same_info_files [OF ci, symmetric] op prod.case log [symmetric] by simp
qed

lemma execute_faithful:
  assumes "pipes_open os"
  shows "faithful (recursive_execute n os) (evaluate n os) x0 c0"
proof (induction n arbitrary: x0 c0)
  case 0
  show ?case by (simp add: faithful_def)
next
  case (Suc n x c)
  let ?r = "recursive_execute n os" and ?e = "evaluate n os"
  show ?case
    unfolding faithful_def
  proof (intro allI impI)
    fix c' inp outp and p :: "('a, 'b) proc" and hi ho
    assume t: "same_tree c c'" and l: "regular x c'"
      and p: "std_open p" "handle (fd_get (fds p)) inp hi" "handle (fd_get (fds p)) outp ho"
    show "agree (recursive_execute (Suc n) os c' inp outp p)
      (evaluate (Suc n) os c (fd_get (fds p)) hi ho (log_writable p) (world p)) x c p"
    proof (cases c')
      case (SEQUENCE_COMMAND ci' a' b')
      then obtain ci a b where c: "c = SEQUENCE_COMMAND ci a b" using t by (cases c rule: flat.cases) auto
      show ?thesis
        using sequence_faithful [OF Suc.IH [of x a] Suc.IH [of x b] _ _ _ _ p, of a' b' ci' ci] t l SEQUENCE_COMMAND
        by (simp add: c)
    next
      case (PIPE_COMMAND ci' a' b')
      then obtain ci a b where c: "c = PIPE_COMMAND ci a b" using t by (cases c rule: flat.cases) auto
      show ?thesis
        using pipe_faithful [OF assms Suc.IH [of False a] Suc.IH [of False b] _ _ _ _ p, of a' b' ci' x ci] t l PIPE_COMMAND
        by (simp add: c)
    next
      case (SUBSHELL_COMMAND ci' a')
      then obtain ci a where c: "c = SUBSHELL_COMMAND ci a" using t by (cases c rule: flat.cases) auto
      show ?thesis
        using subshell_faithful [OF Suc.IH [of False a] _ _ _ p, of a' ci ci' os x] t l SUBSHELL_COMMAND
        by (simp add: c)
    next
      case (IF_COMMAND ci' a' b' d')
      then obtain ci a b d where c: "c = IF_COMMAND ci a b d" using t by (cases c rule: flat.cases) auto
      have "\<forall>c0\<in>set_option d. faithful ?r ?e x c0" using Suc.IH by blast
      from if_faithful [OF Suc.IH [of x a] Suc.IH [of x b] this _ _ p, of ci ci' a' b' d' os] show ?thesis
        using t l IF_COMMAND by (simp add: c)
    next
      case (WHILE_COMMAND ci' a' b')
      then obtain ci a b where c: "c = WHILE_COMMAND ci a b" using t by (cases c rule: flat.cases) auto
      have "\<not> x" using l WHILE_COMMAND by simp
      then show ?thesis
        using loop_faithful [OF Suc.IH [of True a] Suc.IH [of True b] _ _ _ _ _ _ p, of ci ci' a' b' n True os] t l WHILE_COMMAND
        by (simp add: c)
    next
      case (UNTIL_COMMAND ci' a' b')
      then obtain ci a b where c: "c = UNTIL_COMMAND ci a b" using t by (cases c rule: flat.cases) auto
      have "\<not> x" using l UNTIL_COMMAND by simp
      then show ?thesis
        using loop_faithful [OF Suc.IH [of True a] Suc.IH [of True b] _ _ _ _ _ _ p, of ci ci' a' b' n False os] t l UNTIL_COMMAND
        by (simp add: c)
    next
      case (SIMPLE_COMMAND ci' ws)
      then obtain ci where c: "c = SIMPLE_COMMAND ci ws" using t by (cases c rule: flat.cases) auto
      show ?thesis
        using simple_faithful [of ci ci' x ws, OF _ _ p, of os] t l SIMPLE_COMMAND by (simp add: c)
    qed
  qed
qed

text \<open>
  C6 Executing a command has the outcome of the reference semantics - the same status, log state and
  effects on the world, or the same end of the process, or no result within the fuel in both.  The
  conditions: the loops of the command are not nested inside loops (child processes apart) and have
  not run before, no \<open>:\<close> command is redirected, \<open>pipe\<close> does not fail, and descriptor 0 is open.
  The reference knows neither descriptors to redirect and close nor statuses in the tree: that the
  code redirects the right files, closes what it opened, and stores every status where it is read,
  is what the theorem says.
\<close>
theorem execute_matches_reference:
  assumes "regular False c" and "pipes_open os" and "std_open p"
  shows "map_option result_of (execute_command n os c p)
    = evaluate n os c (fd_get (fds p)) None None (log_writable p) (world p)"
  using faithfulD [OF execute_faithful [OF assms(2)] same_tree_refl assms(1,3) handle_none handle_none, of n]
  by (simp add: execute_command_def agree_def)

section \<open>Descriptors\<close>

text \<open>The command \<open>:\<close> returns before its files are closed; everywhere else they are.\<close>

fun closes_files :: "command \<Rightarrow> bool" where
  "closes_files (SIMPLE_COMMAND ci ws) \<longleftrightarrow> ws \<noteq> [] \<and> hd ws = '':'' \<longrightarrow> c_input ci = None \<and> c_output ci = None"
| "closes_files (SEQUENCE_COMMAND ci a b) \<longleftrightarrow> closes_files a \<and> closes_files b"
| "closes_files (PIPE_COMMAND ci a b) \<longleftrightarrow> True"
| "closes_files (SUBSHELL_COMMAND ci a) \<longleftrightarrow> True"
| "closes_files (IF_COMMAND ci a b None) \<longleftrightarrow> closes_files a \<and> closes_files b"
| "closes_files (IF_COMMAND ci a b (Some c)) \<longleftrightarrow> closes_files a \<and> closes_files b \<and> closes_files c"
| "closes_files (WHILE_COMMAND ci a b) \<longleftrightarrow> closes_files a \<and> closes_files b"
| "closes_files (UNTIL_COMMAND ci a b) \<longleftrightarrow> closes_files a \<and> closes_files b"

lemma exec_bind_Done:
  "exec_bind r f = Some (Done c p) \<longleftrightarrow> (\<exists>c0 p0. r = Some (Done c0 p0) \<and> f c0 p0 = Some (Done c p))"
  by (cases r; simp; rename_tac x; case_tac x; simp)

definition keeps_fds :: "('w, 'f) executor \<Rightarrow> bool" where
  "keeps_fds rec \<longleftrightarrow> (\<forall>c inp outp p c' p'. closes_files c \<longrightarrow> rec c inp outp p = Some (Done c' p') \<longrightarrow>
     closes_files c' \<and> same_fds p p')"

lemma keeps_fdsD:
  "keeps_fds rec \<Longrightarrow> rec c inp outp p = Some (Done c' p') \<Longrightarrow> closes_files c \<Longrightarrow> closes_files c' \<and> same_fds p p'"
  unfolding keeps_fds_def by blast

lemma rounds_keep_fds:
  assumes k: "keeps_fds rec"
  shows "loop_rounds n rec z a b inp outp p (loop_end z ci inp outp) = Some (Done c' p') \<Longrightarrow>
    closes_files a \<Longrightarrow> closes_files b \<Longrightarrow>
    closes_files c' \<and> (\<exists>q. same_fds p q \<and> p' = close_files ci inp outp q)"
proof (induction n arbitrary: a b p)
  case (Suc n)
  then obtain a2 p2 where a: "rec a inp outp p = Some (Done a2 p2)" by (auto simp: exec_bind_Done)
  note ka = keeps_fdsD [OF k a Suc.prems(2)]
  show ?case
  proof (cases "(command_status a2 = 0) = z")
    case True
    then obtain b2 p3 where b: "rec b inp outp p2 = Some (Done b2 p3)"
      and r: "loop_rounds n rec z a2 b2 inp outp p3 (loop_end z ci inp outp) = Some (Done c' p')"
      using Suc.prems(1) a by (auto simp: exec_bind_Done)
    note kb = keeps_fdsD [OF k b Suc.prems(3)]
    show ?thesis using Suc.IH [OF r] ka kb same_fds_trans by blast
  next
    case False
    then have "loop_end z ci inp outp a2 b p2 = Some (Done c' p')" using Suc.prems(1) a by simp
    then show ?thesis using ka Suc.prems(3) by (auto simp: loop_end_def Let_def split: if_splits)
  qed
qed simp

lemma pipe_keeps_fds:
  assumes os: "pipes_open os" and r: "execute_pipe os rec ci a b inp outp p = Some (Done c' p')"
  shows "closes_files c' \<and> same_fds p p'"
proof -
  obtain w d0 d1 where 0: "os_pipe os (world p) = (w, Some (d0, d1))"
    using os unfolding pipes_open_def by (metis option.exhaust prod.exhaust snd_conv)
  obtain f0 t0 where 1: "fd_alloc (fds p) d0 = (f0, t0)" by fastforce
  obtain f1 t where 2: "fd_alloc t0 d1 = (f1, t)" by fastforce
  have c': "closes_files c'" and f: "fds p' = fd_close (fd_close t (int f0)) (int f1)"
    using r 0 1 2 by (auto simp: execute_pipe_def make_pipe_def Let_def split: if_splits option.splits prod.splits)
  have "fd_get (fds p) j = fd_get (fds p') j" for j
    using fd_alloc_get [OF 1] fd_alloc_get [OF 2] unfolding f by (auto simp: fd_get_close)
  then show ?thesis using c' by (auto simp: same_fds_def)
qed

text \<open>
  When \<open>pipe\<close> fails, the shell does not notice: it closes whatever descriptors the numbers in the
  uninitialised array belong to.
\<close>

lemma failed_pipe_closes_stray:
  assumes "os_pipe os (world p) = (w, None)" "os_stray os w = (f0, f1)"
    and "execute_pipe os rec ci a b inp outp p = Some (Done c' p')"
  shows "fd_get (fds p') j = (if int j = f0 \<or> int j = f1 then None else fd_get (fds p) j)"
  using assms
  by (auto simp: execute_pipe_def make_pipe_def Let_def fd_get_close split: if_splits option.splits prod.splits)

lemma simple_keeps_fds:
  assumes r: "execute_simple os ci ws inp outp p = Some (Done c' p')" and c: "closes_files (SIMPLE_COMMAND ci ws)"
  shows "closes_files c' \<and> same_fds p p'"
proof -
  obtain i k q where op: "open_files os ci inp outp p = (i, k, q)" by (cases "open_files os ci inp outp p") auto
  have "ws \<noteq> []" using r op by (auto simp: execute_simple_def)
  show ?thesis
  proof (cases "hd ws = '':''")
    case True
    then have "q = p" using c \<open>ws \<noteq> []\<close> op by (auto simp: open_files_def open_redirection_def)
    then show ?thesis using r op True c \<open>ws \<noteq> []\<close> by (auto simp: execute_simple_def same_fds_def)
  next
    case False
    then obtain w where c': "closes_files c'" and p': "p' = close_files ci i k (write_log os (Some ws) (q\<lparr>world := w\<rparr>))"
      using r op \<open>ws \<noteq> []\<close> by (auto simp: execute_simple_def split: if_splits prod.splits)
    have "same_fds q (write_log os (Some ws) (q\<lparr>world := w\<rparr>))" by (simp add: same_fds_def)
    then show ?thesis unfolding p' using c' open_close_files [OF op] by blast
  qed
qed

lemma subshell_keeps_fds:
  assumes r: "execute_subshell os rec ci a inp outp p = Some (Done c' p')"
  shows "closes_files c' \<and> same_fds p p'"
proof -
  obtain i k q where op: "open_files os ci inp outp p = (i, k, q)" by (cases "open_files os ci inp outp p") auto
  obtain w where c': "closes_files c'" and p': "p' = close_files ci i k (write_log os None (q\<lparr>world := w\<rparr>))"
    using r op by (auto simp: execute_subshell_def split: if_splits prod.splits option.splits)
  have "same_fds q (write_log os None (q\<lparr>world := w\<rparr>))" by (simp add: same_fds_def)
  then show ?thesis unfolding p' using c' open_close_files [OF op] by blast
qed

lemma loop_keeps_fds:
  assumes k: "keeps_fds rec" and r: "execute_loop n z os rec ci a b inp outp p = Some (Done c' p')"
    and c: "closes_files a" "closes_files b"
  shows "closes_files c' \<and> same_fds p p'"
proof -
  obtain i j q where op: "open_files os ci inp outp p = (i, j, q)" by (cases "open_files os ci inp outp p") auto
  have "loop_rounds n rec z a b i j q (loop_end z ci i j) = Some (Done c' p')"
    using r op by (simp add: execute_loop_def)
  from rounds_keep_fds [OF k this c] show ?thesis using open_close_files [OF op] by blast
qed

lemma if_keeps_fds:
  assumes k: "keeps_fds rec" and r: "execute_if os rec ci a b c inp outp p = Some (Done c' p')"
    and cl: "closes_files (IF_COMMAND ci a b c)"
  shows "closes_files c' \<and> same_fds p p'"
proof -
  have ca: "closes_files a" and cb: "closes_files b" and cc: "pred_option closes_files c"
    using cl by (cases c; simp)+
  obtain i j q where op: "open_files os ci inp outp p = (i, j, q)" by (cases "open_files os ci inp outp p") auto
  obtain a2 p2 where a: "rec a i j q = Some (Done a2 p2)" using r op by (auto simp: execute_if_def exec_bind_Done)
  note ka = keeps_fdsD [OF k a ca]
  have clIF: "closes_files (IF_COMMAND ci0 x y z) \<longleftrightarrow> closes_files x \<and> closes_files y \<and> pred_option closes_files z"
    for ci0 x y z by (cases z) auto
  have fin: "same_fds q p3 \<Longrightarrow> same_fds p (close_files ci i j p3)" for p3 by (rule open_close_files [OF op])
  show ?thesis
  proof (cases "command_status a2 = 0")
    case True
    then obtain b2 p3 where b: "rec b i j p2 = Some (Done b2 p3)"
      and c': "c' = IF_COMMAND (ci\<lparr>c_status := command_status b2\<rparr>) a2 b2 c" "p' = close_files ci i j p3"
      using r op a by (auto simp: execute_if_def exec_bind_Done)
    show ?thesis unfolding c' clIF using keeps_fdsD [OF k b cb] ka cc fin same_fds_trans by blast
  next
    case False
    show ?thesis
    proof (cases c)
      case None
      then have "c' = IF_COMMAND (ci\<lparr>c_status := command_status a2\<rparr>) a2 b None" "p' = close_files ci i j p2"
        using r op a False by (auto simp: execute_if_def)
      then show ?thesis using ka cb fin by (simp add: clIF)
    next
      case (Some d)
      then obtain d2 p3 where d: "rec d i j p2 = Some (Done d2 p3)"
        and c': "c' = IF_COMMAND (ci\<lparr>c_status := command_status d2\<rparr>) a2 b (Some d2)" "p' = close_files ci i j p3"
        using r op a False by (auto simp: execute_if_def exec_bind_Done)
      have "closes_files d" using cc Some by simp
      note kd = keeps_fdsD [OF k d this]
      then have "same_fds q p3" using ka same_fds_trans by blast
      then show ?thesis unfolding c' clIF using kd ka cb fin by simp
    qed
  qed
qed

lemma execute_keeps_fds: "pipes_open os \<Longrightarrow> keeps_fds (recursive_execute n os)"
proof (induction n)
  case 0
  show ?case by (simp add: keeps_fds_def)
next
  case (Suc n)
  note IH = Suc.IH [OF Suc.prems]
  show ?case
    unfolding keeps_fds_def
  proof (intro allI impI)
    fix c inp outp and p :: "('a, 'b) proc" and c' p'
    assume c: "closes_files c" and r: "recursive_execute (Suc n) os c inp outp p = Some (Done c' p')"
    show "closes_files c' \<and> same_fds p p'"
    proof (cases c)
      case (SEQUENCE_COMMAND ci a b)
      then obtain a2 p2 b2 where a: "recursive_execute n os a inp outp p = Some (Done a2 p2)"
        and b: "recursive_execute n os b inp outp p2 = Some (Done b2 p')"
        and c': "c' = SEQUENCE_COMMAND (ci\<lparr>c_status := command_status b2\<rparr>) a2 b2"
        using r by (auto simp: execute_sequence_def exec_bind_Done)
      have "closes_files a" "closes_files b" using c SEQUENCE_COMMAND by simp_all
      then show ?thesis using keeps_fdsD [OF IH a] keeps_fdsD [OF IH b] same_fds_trans unfolding c' by auto
    next
      case (PIPE_COMMAND ci a b)
      then show ?thesis using r pipe_keeps_fds [OF Suc.prems] by simp
    next
      case (SUBSHELL_COMMAND ci a)
      then show ?thesis using r subshell_keeps_fds by simp
    next
      case (IF_COMMAND ci a b d)
      then show ?thesis using r if_keeps_fds [OF IH] c by simp
    next
      case (WHILE_COMMAND ci a b)
      then show ?thesis using r loop_keeps_fds [OF IH] c by simp
    next
      case (UNTIL_COMMAND ci a b)
      then show ?thesis using r loop_keeps_fds [OF IH] c by simp
    next
      case (SIMPLE_COMMAND ci ws)
      then show ?thesis using r simple_keeps_fds c by simp
    qed
  qed
qed

text \<open>
  C28 As long as \<open>pipe\<close> does not fail, every file a command opens, pipes included, is closed when it
  returns, whatever the other system calls answered: the descriptor table is the one from before.
  The only commands excluded are redirected \<open>:\<close> commands run by the shell itself.
\<close>
theorem descriptors_restored:
  assumes "pipes_open os" and "closes_files c" and "execute_command n os c p = Some (Done c' p')"
  shows "fd_get (fds p') = fd_get (fds p)"
  using keeps_fdsD [OF execute_keeps_fds [OF assms(1)] assms(3) [unfolded execute_command_def] assms(2)]
  by (simp add: same_fds_def)

lemma colon_leaks_descriptor:
  assumes "os_open_in os f (world p) = (w, Some d)" and "fd_alloc (fds p) d = (k, t)"
  shows "\<exists>c' p'. execute_command (Suc n) os (SIMPLE_COMMAND (new_info\<lparr>c_input := Some f\<rparr>) ['':'']) p = Some (Done c' p')
    \<and> fd_get (fds p) k = None \<and> fd_get (fds p') k = Some d"
  using assms fd_alloc_get [OF assms(2)]
  by (simp add: execute_command_def execute_simple_def open_files_def open_redirection_def new_info_def)

section \<open>Failed redirections\<close>

text \<open>
  The result of \<open>open\<close> is not checked: a simple command whose input file cannot be opened is
  run all the same, and as if it had no redirection and its caller none either - it reads the
  standard input of the shell.
\<close>
theorem failed_input_ignored:
  fixes p :: "('w, 'f) proc"
  assumes "os_open_in os f (world p) = (w, None)"
  shows "map_option result_of (recursive_execute (Suc n) os (SIMPLE_COMMAND (ci\<lparr>c_input := Some f\<rparr>) ws) inp outp p)
    = map_option result_of (recursive_execute (Suc n) os (SIMPLE_COMMAND (ci\<lparr>c_input := None\<rparr>) ws) (-1) outp (p\<lparr>world := w\<rparr>))"
proof -
  obtain k q where op: "open_redirection (os_open_out os) (c_output ci) outp (p\<lparr>world := w\<rparr>) = (k, q)"
    by (cases "open_redirection (os_open_out os) (c_output ci) outp (p\<lparr>world := w\<rparr>)") auto
  have 1: "open_files os (ci\<lparr>c_input := Some f\<rparr>) inp outp p = (-1, k, q)"
    using assms op by (simp add: open_files_def open_redirection_def)
  have 2: "open_files os (ci\<lparr>c_input := None\<rparr>) (-1) outp (p\<lparr>world := w\<rparr>) = (-1, k, q)"
    using op by (simp add: open_files_def open_redirection_def)
  have 3: "close_files (ci\<lparr>c_input := Some f\<rparr>) (-1) k x = close_files (ci\<lparr>c_input := None\<rparr>) (-1) k x"
    for x :: "('w, 'f) proc" by (simp add: close_files_def fd_close_def)
  show ?thesis
    unfolding recursive_execute.simps command.case execute_simple_def 1 2 prod.case
    using 3 by (auto simp: command_status_def split: prod.splits)
qed

section \<open>Examples\<close>

text \<open>
  A system for the examples: the world lists the exit statuses of the programs still to run, no
  file named \<open>missing\<close> can be opened, and the sides of a pipe run one after the other.
\<close>

definition demo_os :: "(nat list, unit) os" where
  "demo_os = \<lparr>
     os_open_in = (\<lambda>f w. (w, if f = ''missing'' then None else Some ())),
     os_open_out = (\<lambda>f w. (w, Some ())),
     os_pipe = (\<lambda>w. (w, Some ((), ()))),
     os_stray = (\<lambda>w. (-1, -1)),
     os_fork = (\<lambda>_ _. True),
     os_exec = (\<lambda>ws t w. case w of [] \<Rightarrow> None | n # w \<Rightarrow> Some (w, WExited n)),
     os_not_found = (\<lambda>ws w. w),
     os_par = (\<lambda>l r w. Option.bind (l w) (\<lambda>(w, sl). Option.bind (r w) (\<lambda>(w, sr). Some (w, sl, sr)))),
     os_log = (\<lambda>e w. (w, True))\<rparr>"

definition demo_proc :: "nat list \<Rightarrow> (nat list, unit) proc" where
  "demo_proc w = \<lparr>fds = [Some (), Some (), Some ()], log_writable = False, world = w\<rparr>"

definition simple_command :: "string \<Rightarrow> command" where
  "simple_command w = SIMPLE_COMMAND new_info [w]"

definition demo_loop :: command where
  "demo_loop = WHILE_COMMAND new_info (simple_command ''a'')
     (SUBSHELL_COMMAND \<lparr>c_status = -1, c_input = Some ''f'', c_output = Some ''g''\<rparr>
       (UNTIL_COMMAND new_info (simple_command ''b'') (simple_command ''c'')))"

lemmas run_defs = execute_command_def demo_os_def demo_proc_def simple_command_def new_info_def
  execute_loop_def open_files_def open_redirection_def loop_end_def execute_simple_def
  run_program_def redirect_fd_def fd_get_def fd_close_def close_files_def write_log_def execute_subshell_def
  run_child_def command_status_def Let_def

lemma demo_system: "pipes_open demo_os" "std_open (demo_proc w)"
  by (simp_all add: pipes_open_def demo_os_def std_open_def demo_proc_def fd_get_def)

theorem execute_matches_reference_witness:
  "map_option result_of (execute_command 9 demo_os demo_loop (demo_proc [0, 1, 7, 0, 1]))
     = evaluate 9 demo_os demo_loop (fd_get [Some (), Some (), Some ()]) None None False [0, 1, 7, 0, 1]
   \<and> map_option result_of (execute_command 9 demo_os demo_loop (demo_proc [0, 1, 7, 0, 1])) = Some (Value 7 False [])"
proof
  have "regular False demo_loop" by (simp add: demo_loop_def simple_command_def command_status_def new_info_def)
  from execute_matches_reference [OF this demo_system, of 9 "[0, 1, 7, 0, 1]"]
  show "map_option result_of (execute_command 9 demo_os demo_loop (demo_proc [0, 1, 7, 0, 1]))
     = evaluate 9 demo_os demo_loop (fd_get [Some (), Some (), Some ()]) None None False [0, 1, 7, 0, 1]"
    by (simp add: demo_proc_def)
  show "map_option result_of (execute_command 9 demo_os demo_loop (demo_proc [0, 1, 7, 0, 1])) = Some (Value 7 False [])"
    by (simp add: run_defs demo_loop_def eval_nat_numeral)
qed

theorem descriptors_restored_witness:
  "\<exists>c' p'. execute_command 9 demo_os demo_loop (demo_proc [0, 1, 7, 0, 1]) = Some (Done c' p')
     \<and> fd_get (fds p') = fd_get (fds (demo_proc [0, 1, 7, 0, 1]))"
proof -
  have cl: "closes_files demo_loop" by (simp add: demo_loop_def simple_command_def new_info_def)
  have "\<exists>c' p'. execute_command 9 demo_os demo_loop (demo_proc [0, 1, 7, 0, 1]) = Some (Done c' p')"
    by (simp add: run_defs demo_loop_def eval_nat_numeral)
  then obtain c' p' where r: "execute_command 9 demo_os demo_loop (demo_proc [0, 1, 7, 0, 1]) = Some (Done c' p')"
    by blast
  from descriptors_restored [OF demo_system(1) cl r] r show ?thesis by blast
qed

theorem failed_input_ignored_witness:
  "map_option result_of (recursive_execute 1 demo_os
       (SIMPLE_COMMAND (new_info\<lparr>c_input := Some ''missing''\<rparr>) [''rm'']) (-1) (-1) (demo_proc [3]))
   = Some (Value 3 False [])"
proof -
  have "os_open_in demo_os ''missing'' (world (demo_proc [3])) = ([3], None)"
    by (simp add: demo_os_def demo_proc_def)
  from failed_input_ignored [OF this, of 0 new_info "[''rm'']" "-1" "-1"] show ?thesis
    by (simp add: run_defs eval_nat_numeral)
qed

text \<open>
  A loop inside a loop can end with the status of an earlier execution: the inner loop's body
  ran in the first round of the outer loop and ended with 7; in the second round it does not run
  and the inner loop's status should be its condition's, 1, but the 7 still stored in the tree is
  taken.
\<close>
theorem nested_loop_stale_status:
  "let c = WHILE_COMMAND new_info (simple_command ''a'')
             (WHILE_COMMAND new_info (simple_command ''b'') (simple_command ''c''));
       w = [0, 0, 7, 1, 0, 1, 1]
   in map_option result_of (execute_command 9 demo_os c (demo_proc w)) = Some (Value 7 False [])
      \<and> evaluate 9 demo_os c T None None False w = Some (Value 1 False [])"
  by (simp add: run_defs ref_loop_def ref_simple_def ref_files_def ref_redirect_def ref_program_def ref_log_def
      ref_status_def eval_nat_numeral)

end
