(* ===== verification/Shell_Print.thy ===== *)
theory Shell_Print
  imports Shell_Stream Shell_Exec
begin

text \<open>
  The printer (\<open>print-command.c\<close>) as a function to strings, and the tokens it prints.
\<close>

section \<open>Printing a command\<close>

text \<open>\<open>printf ("%*s", indent, "")\<close>.\<close>

definition spaces :: "nat \<Rightarrow> string" where
  "spaces n = replicate n CHR '' ''"

definition print_redirections :: "command_info \<Rightarrow> string" where
  "print_redirections ci = (case c_input ci of None \<Rightarrow> [] | Some f \<Rightarrow> CHR ''<'' # f)
     @ (case c_output ci of None \<Rightarrow> [] | Some f \<Rightarrow> CHR ''>'' # f)"

text \<open>The words of a simple command; the parser makes none without a word.\<close>

definition print_words :: "string list \<Rightarrow> string" where
  "print_words ws = (case ws of [] \<Rightarrow> [] | w # ws \<Rightarrow> w @ concat (map (\<lambda>w. CHR '' '' # w) ws))"

text \<open>A child of the other binary kind is indented further.\<close>

definition deeper :: "(command \<Rightarrow> bool) \<Rightarrow> nat \<Rightarrow> command \<Rightarrow> nat" where
  "deeper same indent c = indent + 2 * (if same c then 0 else 1)"

fun command_indented_print :: "nat \<Rightarrow> command \<Rightarrow> string" where
  "command_indented_print n (IF_COMMAND ci a b c) =
     spaces n @ ''if'' @ [NL] @ command_indented_print (n + 2) a
     @ [NL] @ spaces n @ ''then'' @ [NL] @ command_indented_print (n + 2) b
     @ (case c of None \<Rightarrow> [] | Some c \<Rightarrow> [NL] @ spaces n @ ''else'' @ [NL] @ command_indented_print (n + 2) c)
     @ [NL] @ spaces n @ ''fi'' @ print_redirections ci"
| "command_indented_print n (WHILE_COMMAND ci a b) =
     spaces n @ ''while'' @ [NL] @ command_indented_print (n + 2) a
     @ [NL] @ spaces n @ ''do'' @ [NL] @ command_indented_print (n + 2) b
     @ [NL] @ spaces n @ ''done'' @ print_redirections ci"
| "command_indented_print n (UNTIL_COMMAND ci a b) =
     spaces n @ ''until'' @ [NL] @ command_indented_print (n + 2) a
     @ [NL] @ spaces n @ ''do'' @ [NL] @ command_indented_print (n + 2) b
     @ [NL] @ spaces n @ ''done'' @ print_redirections ci"
| "command_indented_print n (SEQUENCE_COMMAND ci a b) =
     command_indented_print (deeper is_sequence n a) a
     @ '' '' @ [CHR 0x5C, NL] @ spaces n @ '';'' @ [NL]
     @ command_indented_print (deeper is_sequence n b) b @ print_redirections ci"
| "command_indented_print n (PIPE_COMMAND ci a b) =
     command_indented_print (deeper is_pipe n a) a
     @ '' '' @ [CHR 0x5C, NL] @ spaces n @ ''|'' @ [NL]
     @ command_indented_print (deeper is_pipe n b) b @ print_redirections ci"
| "command_indented_print n (SIMPLE_COMMAND ci ws) = spaces n @ print_words ws @ print_redirections ci"
| "command_indented_print n (SUBSHELL_COMMAND ci c) =
     spaces n @ ''('' @ [NL] @ command_indented_print (n + 1) c @ [NL] @ spaces n @ '')'' @ print_redirections ci"

definition print_command :: "command \<Rightarrow> string" where
  "print_command c = command_indented_print 2 c @ [NL]"

section \<open>What is printed\<close>

text \<open>The tokens of a command without the semicolons in front of reserved words.\<close>

fun visible :: "command \<Rightarrow> string list" where
  "visible (SIMPLE_COMMAND ci ws) = ws @ map snd (redirs ci)"
| "visible (SEQUENCE_COMMAND ci l r) = visible l @ '';'' # visible r"
| "visible (PIPE_COMMAND ci l r) = visible l @ ''|'' # visible r"
| "visible (SUBSHELL_COMMAND ci c) = ''('' # visible c @ '')'' # map snd (redirs ci)"
| "visible (IF_COMMAND ci a b None) = ''if'' # visible a @ ''then'' # visible b @ ''fi'' # map snd (redirs ci)"
| "visible (IF_COMMAND ci a b (Some e)) =
     ''if'' # visible a @ ''then'' # visible b @ ''else'' # visible e @ ''fi'' # map snd (redirs ci)"
| "visible (WHILE_COMMAND ci a b) = ''while'' # visible a @ ''do'' # visible b @ ''done'' # map snd (redirs ci)"
| "visible (UNTIL_COMMAND ci a b) = ''until'' # visible a @ ''do'' # visible b @ ''done'' # map snd (redirs ci)"

definition inked :: "string \<Rightarrow> string" where
  "inked s = filter (\<lambda>c. c \<notin> {CHR '' '', NL, CHR 0x5C}) s"

lemma inked_simps [simp]: "inked [] = []" "inked (xs @ ys) = inked xs @ inked ys"
  "inked (c # cs) = (if c \<in> {CHR '' '', NL, CHR 0x5C} then inked cs else c # inked cs)"
  by (simp_all add: inked_def)

lemma inked_spaces [simp]: "inked (spaces n) = []"
  by (simp add: inked_def spaces_def)

lemma word_char_inked: "word_char c \<Longrightarrow> c \<noteq> CHR '' '' \<and> c \<noteq> NL \<and> c \<noteq> CHR 0x5C"
  by (auto simp: word_char_def valid_char_def isalnum_def strchr_hit_def)

lemma inked_word: "is_word w \<Longrightarrow> inked w = w"
proof -
  assume "is_word w"
  then have "\<forall>c\<in>set w. word_char c" by (simp add: is_word_def)
  then have "\<forall>c\<in>set w. c \<notin> {CHR '' '', NL, CHR 0x5C}"
    using word_char_inked by blast
  then show ?thesis by (simp add: inked_def)
qed

lemma inked_words: "\<forall>w\<in>set ws. is_word w \<Longrightarrow> inked (print_words ws) = concat ws"
proof (cases ws)
  case (Cons w ws')
  assume "\<forall>w\<in>set ws. is_word w"
  moreover have "\<forall>w\<in>set us. is_word w \<Longrightarrow> inked (concat (map (\<lambda>w. CHR '' '' # w) us)) = concat us" for us
    by (induction us) (auto simp: inked_word)
  ultimately show ?thesis using Cons by (simp add: print_words_def inked_word)
qed (simp add: print_words_def)

lemma inked_redirections: "texts_ok ci \<Longrightarrow> inked (print_redirections ci) = concat (map snd (redirs ci))"
  by (auto simp: print_redirections_def redirs_def texts_ok_def inked_word split: option.splits)

lemma print_no_redirections [simp]: "print_redirections new_info = []"
  by (simp add: print_redirections_def new_info_def)

lemma inked_command: "wf_command c \<Longrightarrow> lex_command c \<Longrightarrow> inked (command_indented_print n c) = concat (visible c)"
  by (induction c arbitrary: n rule: wf_command.induct)
    (auto simp: inked_words inked_redirections)

text \<open>
  What \<open>print_command\<close> prints of a parsed command is, blanks, newlines and the continuation
  backslashes aside, exactly the command's tokens in order, with only the semicolons before
  \<open>then\<close>, \<open>else\<close>, \<open>fi\<close>, \<open>do\<close> and \<open>done\<close> left out.
\<close>
theorem print_command_tokens:
  assumes "wf_command c" and "lex_command c"
  shows "inked (print_command c) = concat (visible c)
    \<and> filter (\<lambda>t. t \<noteq> '';'') (visible c) = filter (\<lambda>t. t \<noteq> '';'') (map snd (flat c))"
proof -
  have "filter (\<lambda>t. t \<noteq> '';'') (visible c) = filter (\<lambda>t. t \<noteq> '';'') (map snd (flat c))"
    by (induction c rule: flat.induct) (auto simp: comp_def)
  then show ?thesis using inked_command [OF assms] by (simp add: print_command_def)
qed

theorem print_command_tokens_witness:
  "inked (print_command (hd demo_script))
    = ''whilecatx|grepydo(:;ls-l)>outdone<in''"
proof -
  have "wf_command (hd demo_script)" "lex_command (hd demo_script)"
    by (simp_all add: demo_script_def new_info_def texts_ok_def is_word_def word_char_def valid_char_def isalnum_def
        strchr_hit_def TokAssociations_def)
  from print_command_tokens [OF this] show ?thesis
    by (simp add: demo_script_def redirs_def new_info_def)
qed

end
