(* ===== verification/Shell_Log.thy ===== *)
theory Shell_Log
  imports Shell_Exec_Props Shell_Print
begin

text \<open>
  The lines \<open>write_log\<close> (\<open>execute-command.c\<close>) puts into the log, in a buffer of 1024 bytes.
\<close>

section \<open>A line of the log\<close>

text \<open>
  \<open>snprintf\<close> of a text to the buffer from \<open>k\<close> on, with room for \<open>room\<close> bytes: the text is cut and
  ended by a null character.  The buffer has 1024 bytes of what the stack held.
\<close>

definition snprintf_at :: "nat \<Rightarrow> nat \<Rightarrow> string \<Rightarrow> string \<Rightarrow> string" where
  "snprintf_at k room s buf =
     (if room = 0 then buf
      else let cut = take (room - 1) s
           in take k buf @ cut @ CHR 0x00 # drop (k + length cut + 1) buf)"

text \<open>
  The loop over the arguments.  \<open>added\<close> is declared inside the loop: when there is no room left its
  value is the one the memory held, \<open>junk i\<close>.  \<open>None\<close> is the fatal error.
\<close>

fun log_args :: "(nat \<Rightarrow> int) \<Rightarrow> nat \<Rightarrow> string list \<Rightarrow> int \<Rightarrow> string \<Rightarrow> (int \<times> string) option" where
  "log_args junk i [] num_chars buf = Some (num_chars, buf)"
| "log_args junk i (w # ws) num_chars buf =
     (case (if 1023 - num_chars > 0
            then (int (length w) + 1, snprintf_at (nat num_chars) (nat (1023 - num_chars)) (CHR '' '' # w) buf)
            else (junk i, buf)) of
        (added, buf) \<Rightarrow> if added < 0 then None else log_args junk (i + 1) ws (num_chars + added) buf)"

text \<open>
  The bytes \<open>write_log\<close> hands to \<open>write\<close> (a newline follows); \<open>stamp\<close> are the four formatted numbers
  with the blank after each, \<open>pid\<close> the formatted process number.
\<close>

definition log_line :: "(nat \<Rightarrow> int) \<Rightarrow> string \<Rightarrow> string \<Rightarrow> string list option \<Rightarrow> string \<Rightarrow> string option" where
  "log_line junk stamp pid entry buf =
     (let first = stamp @ (case entry of None \<Rightarrow> ''['' @ pid @ '']'' | Some ws \<Rightarrow> hd ws);
          buf = snprintf_at 0 1023 first buf
      in case log_args junk 0 (case entry of None \<Rightarrow> [] | Some ws \<Rightarrow> tl ws) (int (length first)) buf of
           None \<Rightarrow> None
         | Some (num_chars, buf) \<Rightarrow>
             if num_chars < 0 then None else Some (take (nat (min num_chars 1023)) buf))"


lemma length_snprintf_at [simp]:
  "k + room \<le> length buf \<Longrightarrow> length (snprintf_at k room s buf) = length buf"
  by (auto simp: snprintf_at_def Let_def)








text \<open>A name that fills the buffer and a negative value in memory end the shell.\<close>

lemma log_line_fatal:
  assumes "1023 \<le> length (stamp @ w)" "junk 0 < 0"
  shows "log_line junk stamp pid (Some (w # a # ws)) buf = None"
  using assms by (simp add: log_line_def Let_def)

end
