(* ===== verification/Shell_Main.thy ===== *)
theory Shell_Main
  imports Shell_Log
begin

text \<open>
  The main program (\<open>main.c\<close>) and the checked allocation (\<open>alloc.c\<close>): options, the loop that reads
  and prints or executes the commands, the exit status.  The theorems put the parts of the shell
  together.
\<close>

section \<open>Allocation that ends the shell\<close>

text \<open>\<open>None\<close> is the fatal error \<open>memory exhausted\<close>; \<open>malloc\<close> and \<open>realloc\<close> are parameters.\<close>

definition check_nonnull :: "'p option \<Rightarrow> 'p option" where
  "check_nonnull p = p"

definition checked_malloc :: "(64 word \<Rightarrow> 'p option) \<Rightarrow> 64 word \<Rightarrow> 'p option" where
  "checked_malloc malloc n = check_nonnull (malloc (if n \<noteq> 0 then n else 1))"

definition checked_realloc :: "('p \<Rightarrow> 64 word \<Rightarrow> 'p option) \<Rightarrow> 'p \<Rightarrow> 64 word \<Rightarrow> 'p option" where
  "checked_realloc realloc p n = check_nonnull (realloc p (if n \<noteq> 0 then n else 1))"

definition checked_grow_alloc :: "('p \<Rightarrow> 64 word \<Rightarrow> 'p option) \<Rightarrow> 'p \<Rightarrow> 64 word \<Rightarrow> ('p \<times> 64 word) option" where
  "checked_grow_alloc realloc p n =
     (let maxi = -1
      in if n = maxi then None
         else let n = (if n < maxi div 2 then 2 * n else maxi)
              in map_option (\<lambda>q. (q, n)) (checked_realloc realloc p n))"

text \<open>Every growth but that of size 0 grows, and the size never wraps around.\<close>

lemma checked_grow_alloc_grows:
  assumes "checked_grow_alloc realloc p n = Some (q, n')"
  shows "unat n' = min (2 * unat n) (2 ^ 64 - 1) \<or> unat n' = 2 ^ 64 - 1" "n \<noteq> 0 \<Longrightarrow> n < n'"
proof -
  have m: "unat (-1 :: 64 word) = 2 ^ 64 - 1" by (simp add: unsigned_minus_1_eq_mask mask_eq_exp_minus_1)
  have d: "unat ((-1 :: 64 word) div 2) = 2 ^ 63 - 1" by (simp add: unat_div m)
  from assms have n: "n \<noteq> -1" "n' = (if n < -1 div 2 then 2 * n else -1)"
    by (auto simp: checked_grow_alloc_def Let_def split: if_splits)
  have "unat n < 2 ^ 64" using unsigned_less [of n] by simp
  then have u: "unat n < 2 ^ 64 - 1" using n(1) by (simp add: word_unat_eq_iff m)
  have "unat (2 * n) = 2 * unat n" if "n < -1 div 2"
  proof -
    have "unat n < 2 ^ 63 - 1" using that d by (simp add: word_less_nat_alt)
    then show ?thesis by (simp add: unat_word_ariths)
  qed
  then show "unat n' = min (2 * unat n) (2 ^ 64 - 1) \<or> unat n' = 2 ^ 64 - 1" "n \<noteq> 0 \<Longrightarrow> n < n'"
    using n(2) u m by (auto simp: word_less_nat_alt unat_gt_0 split: if_splits)
qed

section \<open>The main program\<close>

text \<open>
  The options as \<open>getopt\<close> returns them, and what the program asks of the system besides the
  executor's calls: \<open>os_script\<close> opens the script and gives its text, \<open>os_profile\<close> opens the log,
  and \<open>os_log0\<close> writes the last line to descriptor 0, where \<open>log_file\<close> points to as long as no
  command has been executed.
\<close>

datatype opt = Opt_p string | Opt_t | Opt_other

record ('w, 'f) main_os =
  os_script :: "string \<Rightarrow> 'w \<Rightarrow> 'w \<times> ('f \<times> string) option"
  os_profile :: "string \<Rightarrow> 'w \<Rightarrow> 'w \<times> 'f option"
  os_log0 :: "'w \<Rightarrow> 'w \<times> bool"

text \<open>The switch over the options; \<open>None\<close> is the usage message.\<close>

fun options :: "opt list \<Rightarrow> string option \<Rightarrow> bool \<Rightarrow> (string option \<times> bool) option" where
  "options [] profile_name print_tree = Some (profile_name, print_tree)"
| "options (Opt_p f # os) profile_name print_tree = options os (Some f) print_tree"
| "options (Opt_t # os) profile_name print_tree = options os profile_name True"
| "options (Opt_other # os) profile_name print_tree = None"

text \<open>\<open>printf ("# %d\n", n)\<close>.\<close>

fun decimal_string :: "nat \<Rightarrow> string" where
  "decimal_string n = (if n < 10 then [] else decimal_string (n div 10)) @ [char_of (48 + n mod 10)]"

declare decimal_string.simps [simp del]

definition number_line :: "nat \<Rightarrow> string" where
  "number_line n = ''# '' @ decimal_string n @ [NL]"

text \<open>
  The loop of \<open>main\<close>.  Its result is the end of the process, or the last command executed, with
  what has been printed; \<open>None\<close> when a command has not returned within the fuel.
\<close>

function command_loop :: "nat \<Rightarrow> ('w, 'f) os \<Rightarrow> bool \<Rightarrow> command_stream option \<Rightarrow> nat \<Rightarrow> command option \<Rightarrow> string
    \<Rightarrow> ('w, 'f) proc \<Rightarrow> ('w \<times> wait_status + command option \<times> string \<times> ('w, 'f) proc) option" where
  "command_loop n os print_tree s command_number last_command out p =
     (case read_command_stream s of
        (None, s) \<Rightarrow> Some (Inr (last_command, out, p))
      | (Some c, s) \<Rightarrow>
          if print_tree
          then command_loop n os print_tree s (command_number + 1) last_command
                 (out @ number_line command_number @ print_command c) p
          else (case execute_command n os c p of
                  None \<Rightarrow> None
                | Some (Exit w st) \<Rightarrow> Some (Inl (w, st))
                | Some (Done c p) \<Rightarrow> command_loop n os print_tree s command_number (Some c) out p))"
  by pat_completeness auto
termination
  by (relation "measure (\<lambda>(n, os, t, s, _). case s of None \<Rightarrow> 0
        | Some st \<Rightarrow> length (command_tree_list st) - read_index st)")
    (auto simp: read_command_stream_def split: option.splits if_splits)

declare command_loop.simps [simp del]

definition final_log :: "('w, 'f) main_os \<Rightarrow> ('w, 'f) os \<Rightarrow> bool \<Rightarrow> ('w, 'f) proc \<Rightarrow> ('w, 'f) proc" where
  "final_log mos os executed p =
     (if executed then write_log os None p
      else if \<not> log_writable p then p
      else case os_log0 mos (world p) of (w, written) \<Rightarrow> p\<lparr>world := w, log_writable := written\<rparr>)"

text \<open>\<open>prepare_profiling\<close> sets \<open>can_write\<close> before it opens the file.\<close>

definition open_profile :: "('w, 'f) main_os \<Rightarrow> string option \<Rightarrow> ('w, 'f) proc \<Rightarrow> bool \<times> ('w, 'f) proc" where
  "open_profile mos profile_name p =
     (case profile_name of
        None \<Rightarrow> (True, p)
      | Some f \<Rightarrow>
          (case os_profile mos f (world p) of
             (w, None) \<Rightarrow> (False, p\<lparr>world := w, log_writable := True\<rparr>)
           | (w, Some d) \<Rightarrow> (True, p\<lparr>world := w, log_writable := True, fds := snd (fd_alloc (fds p) d)\<rparr>)))"

text \<open>
  The program returns the world, its exit status and what it has printed.  \<open>args\<close> are the arguments
  after the options.
\<close>

definition shell_main :: "(lexer \<Rightarrow> token_type) \<Rightarrow> (int \<Rightarrow> token) \<Rightarrow> ('w, 'f) main_os \<Rightarrow> ('w, 'f) os \<Rightarrow> nat \<Rightarrow> opt list
    \<Rightarrow> string list \<Rightarrow> ('w, 'f) proc \<Rightarrow> ('w \<times> wait_status \<times> string) option" where
  "shell_main stray_type stray mos os n opts args p =
     (case options opts None False of
        None \<Rightarrow> Some (world p, WExited 1, [])
      | Some (profile_name, print_tree) \<Rightarrow>
        if length args \<noteq> 1 then Some (world p, WExited 1, [])
        else case os_script mos (hd args) (world p) of
          (w, None) \<Rightarrow> Some (w, WExited 1, [])
        | (w, Some (d, script)) \<Rightarrow>
            let p = p\<lparr>world := w, fds := snd (fd_alloc (fds p) d)\<rparr>
            in case make_command_stream stray_type stray script of
                 Inl e \<Rightarrow> Some (w, WExited 1, [])
               | Inr s \<Rightarrow>
                 (case open_profile mos profile_name p of
                    (False, p) \<Rightarrow> Some (world p, WExited 1, [])
                  | (True, p) \<Rightarrow>
                      (case command_loop n os print_tree s 1 None [] p of
                         None \<Rightarrow> None
                       | Some (Inl (w, st)) \<Rightarrow> Some (w, st, [])
                       | Some (Inr (last_command, out, p)) \<Rightarrow>
                           let p = final_log mos os (last_command \<noteq> None) p;
                               status = (if profile_name \<noteq> None \<and> \<not> log_writable p then 1
                                         else case last_command of
                                                None \<Rightarrow> 0
                                              | Some c \<Rightarrow> if print_tree then 0 else command_status c)
                           in Some (world p, WExited (nat (status mod 256)), out))))"

section \<open>Properties\<close>

text \<open>The commands of a script with their numbers, as \<open>-t\<close> prints them.\<close>

fun numbered :: "nat \<Rightarrow> command list \<Rightarrow> string" where
  "numbered i [] = []"
| "numbered i (c # cs) = number_line i @ print_command c @ numbered (i + 1) cs"

lemma read_next:
  "read_command_stream (Some \<lparr>command_tree_list = cs, read_index = k\<rparr>)
    = (if k < length cs then (Some (cs ! k), Some \<lparr>command_tree_list = cs, read_index = k + 1\<rparr>)
       else (None, Some \<lparr>command_tree_list = cs, read_index = k\<rparr>))"
  by (simp add: read_command_stream_def)

lemma print_loop:
  "command_loop n os True (Some \<lparr>command_tree_list = cs, read_index = k\<rparr>) i last_command out p
    = Some (Inr (last_command, out @ numbered i (drop k cs), p))"
proof (induction "length cs - k" arbitrary: k i out)
  case 0
  then show ?case by (simp add: command_loop.simps [of _ _ _ "Some _"] read_next)
next
  case (Suc m)
  then have k: "k < length cs" "m = length cs - (k + 1)" by simp_all
  show ?case
    by (subst command_loop.simps) (use k Suc.hyps(1) [OF k(2)] in \<open>simp add: read_next Cons_nth_drop_Suc [symmetric]\<close>)
qed

text \<open>
  The commands of a script run one after the other in the reference semantics, each with the open
  files \<open>T\<close> of the shell and without a redirection from outside.
\<close>

fun evaluate_all :: "nat \<Rightarrow> ('w, 'f) os \<Rightarrow> int \<Rightarrow> (nat \<Rightarrow> 'f option) \<Rightarrow> command list \<Rightarrow> bool \<Rightarrow> 'w \<Rightarrow> 'w outcome option" where
  "evaluate_all n os v T [] l w = Some (Value v l w)"
| "evaluate_all n os v T (c # cs) l w =
     val_bind (evaluate n os c T None None l w) (\<lambda>v l w. evaluate_all n os v T cs l w)"

definition last_status :: "command option \<Rightarrow> int" where
  "last_status c = (case c of None \<Rightarrow> 0 | Some c \<Rightarrow> command_status c)"

text \<open>What the loop of \<open>main\<close> comes to, without the tree and the descriptors.\<close>

definition loop_result :: "('w \<times> wait_status + command option \<times> string \<times> ('w, 'f) proc) \<Rightarrow> 'w outcome" where
  "loop_result r = (case r of
     Inl (w, st) \<Rightarrow> Ended w st
   | Inr (c, out, p) \<Rightarrow> Value (last_status c) (log_writable p) (world p))"

definition ran :: "bool \<Rightarrow> string \<Rightarrow> 'w \<times> wait_status + command option \<times> string \<times> ('w, 'f) proc \<Rightarrow> bool" where
  "ran executed out r \<longleftrightarrow> (\<forall>c' o' p. r = Inr (c', o', p) \<longrightarrow> o' = out \<and> (executed \<longrightarrow> c' \<noteq> None))"

lemma execute_loop_evaluates:
  assumes "\<forall>c\<in>set cs. regular False c" and os: "pipes_open os" and p0: "std_open p0"
  shows "same_fds p0 p \<Longrightarrow>
    map_option loop_result (command_loop n os False (Some \<lparr>command_tree_list = cs, read_index = k\<rparr>) i last_command out p)
      = evaluate_all n os (last_status last_command) (fd_get (fds p0)) (drop k cs) (log_writable p) (world p)
    \<and> pred_option (ran (last_command \<noteq> None \<or> k < length cs) out)
        (command_loop n os False (Some \<lparr>command_tree_list = cs, read_index = k\<rparr>) i last_command out p)"
proof (induction "length cs - k" arbitrary: k last_command p)
  case 0
  then show ?case
    by (subst (1 2) command_loop.simps) (auto simp: read_next loop_result_def ran_def)
next
  case (Suc m)
  then have k: "k < length cs" "m = length cs - (k + 1)" by simp_all
  let ?c = "cs ! k"
  have d: "drop k cs = ?c # drop (k + 1) cs" using k(1) by (simp add: Cons_nth_drop_Suc)
  have ok: "regular False ?c" using assms(1) k(1) by simp
  have rd: "read_command_stream (Some \<lparr>command_tree_list = cs, read_index = k\<rparr>)
      = (Some ?c, Some \<lparr>command_tree_list = cs, read_index = k + 1\<rparr>)" using k(1) by (simp add: read_next)
  note loop = command_loop.simps [of n os False "Some \<lparr>command_tree_list = cs, read_index = k\<rparr>", unfolded rd]
  note step = faithful_next [OF execute_faithful [OF os, of n False ?c] same_tree_refl ok Suc.prems p0 handle_none handle_none]
  show ?case
  proof (cases rule: agree_cases [OF step])
    case 1
    then show ?thesis by (simp add: loop d execute_command_def)
  next
    case (2 w s)
    then show ?thesis by (simp add: loop d execute_command_def loop_result_def ran_def)
  next
    case (3 c' p')
    have l: "command_loop n os False (Some \<lparr>command_tree_list = cs, read_index = k\<rparr>) i last_command out p
        = command_loop n os False (Some \<lparr>command_tree_list = cs, read_index = k + 1\<rparr>) i (Some c') out p'"
      by (simp add: loop execute_command_def 3(1))
    then show ?thesis
      using Suc.hyps(1) [OF k(2) same_fds_trans [OF Suc.prems 3(6)], of "Some c'"] k(1)
      by (simp add: l d 3(2) last_status_def)
  qed
qed

text \<open>A number in decimal notation; the digits have the codes 48 to 57.\<close>

definition digits :: "char set" where
  "digits = {c. of_char c \<in> {48..57::nat}}"

definition decimal_value :: "string \<Rightarrow> nat" where
  "decimal_value = foldl (\<lambda>v c. 10 * v + (of_char c - 48)) 0"

definition decimal :: "nat \<Rightarrow> string \<Rightarrow> bool" where
  "decimal n s \<longleftrightarrow> s \<noteq> [] \<and> set s \<subseteq> digits \<and> (hd s = CHR ''0'' \<longrightarrow> s = ''0'') \<and> decimal_value s = n"

lemma digit_of_char:
  fixes n :: nat
  assumes "n < 10"
  shows "(char_of (48 + n) :: char) \<in> digits" "of_char (char_of (48 + n) :: char) = 48 + n"
    "0 < n \<Longrightarrow> (char_of (48 + n) :: char) \<noteq> CHR ''0''"
proof -
  show o: "of_char (char_of (48 + n) :: char) = 48 + n" using assms by simp
  then show "(char_of (48 + n) :: char) \<in> digits" using assms by (simp add: digits_def)
  show "(char_of (48 + n) :: char) \<noteq> CHR ''0''" if "0 < n"
  proof
    assume "(char_of (48 + n) :: char) = CHR ''0''"
    then have "48 + n = of_char (CHR ''0'')" using o by metis
    then show False using that by simp
  qed
qed

lemma decimal_string_positive: "0 < n \<Longrightarrow> decimal_string n \<noteq> [] \<and> set (decimal_string n) \<subseteq> digits
    \<and> hd (decimal_string n) \<noteq> CHR ''0'' \<and> decimal_value (decimal_string n) = n"
proof (induction n rule: decimal_string.induct)
  case (1 n)
  show ?case
  proof (cases "n < 10")
    case True
    then have "decimal_string n = [char_of (48 + n)]" by (simp add: decimal_string.simps)
    then show ?thesis using 1(2) digit_of_char [OF True] by (simp add: decimal_value_def)
  next
    case False
    then have d: "decimal_string n = decimal_string (n div 10) @ [char_of (48 + n mod 10)]"
      by (subst decimal_string.simps) simp
    have "0 < n div 10" using False by (simp add: div_greater_zero_iff)
    note IH = 1(1) [OF False this]
    have "n mod 10 < 10" by simp
    note digit_of_char [OF this]
    with IH show ?thesis unfolding d by (simp add: decimal_value_def)
  qed
qed

lemma decimal_string_ok: "0 < n \<Longrightarrow> decimal n (decimal_string n)"
  using decimal_string_positive [of n] unfolding decimal_def by blast

lemma inked_decimal: "0 < n \<Longrightarrow> inked (decimal_string n) = decimal_string n"
proof -
  assume "0 < n"
  then have "set (decimal_string n) \<subseteq> digits" using decimal_string_positive by blast
  moreover have "digits \<inter> {CHR '' '', NL, CHR 0x5C} = {}" by (simp add: digits_def)
  ultimately show ?thesis unfolding inked_def by (intro filter_True) blast
qed

text \<open>What the listing of a script says, blanks, newlines and continuation backslashes aside.\<close>

definition listing :: "string list \<Rightarrow> command list \<Rightarrow> string" where
  "listing numbers cs = concat (map2 (\<lambda>d c. CHR ''#'' # d @ concat (visible c)) numbers cs)"

lemma inked_numbered:
  "\<forall>c\<in>set cs. wf_command c \<and> lex_command c \<Longrightarrow> 0 < i \<Longrightarrow>
   inked (numbered i cs) = listing (map decimal_string [i..<i + length cs]) cs"
proof (induction cs arbitrary: i)
  case (Cons c cs)
  have "[i..<i + length (c # cs)] = i # [Suc i..<Suc i + length cs]" by (simp add: upt_rec)
  then show ?case using Cons inked_decimal [OF Cons.prems(2)] print_command_tokens [of c]
    by (simp add: listing_def number_line_def del: upt_Suc)
qed (simp add: listing_def)

text \<open>
  C29 The shell with \<open>-t\<close> (and no log) lists the commands of its script: the exit status is 0, no
  system call but the opening of the script is made (the world is the one after it), and what is
  printed for each command is, blanks, newlines and continuation backslashes aside, a \<open>#\<close>, the
  command's number from 1 in decimal notation, and the command's tokens in order.  The script is the
  canonical text of a list of commands, one on a line, each ended by a newline, and begins with a
  word: a script that begins with a parenthesis is refused by the reader.
\<close>
theorem shell_prints_script:
  assumes "cs \<noteq> []" and "\<forall>c\<in>set cs. wf_command c \<and> lex_command c" and "is_word (snd (hd (flat (hd cs))))"
    and "options opts None False = Some (None, True)"
    and "os_script mos f (world p) = (w, Some (d, script_text cs))" and "\<not> log_writable p"
  shows "\<exists>out numbers. shell_main stray_type stray mos os n opts [f] p = Some (w, WExited 0, out)
    \<and> inked out = listing numbers cs \<and> list_all2 decimal [1..<1 + length cs] numbers"
proof (intro exI conjI)
  show "shell_main stray_type stray mos os n opts [f] p = Some (w, WExited 0, numbered 1 cs)"
    using assms print_loop [of n os cs 0]
    by (simp add: shell_main_def stream_of_script open_profile_def final_log_def Let_def)
  show "inked (numbered 1 cs) = listing (map decimal_string [1..<1 + length cs]) cs"
    using assms(2) by (rule inked_numbered) simp
  show "list_all2 decimal [1..<1 + length cs] (map decimal_string [1..<1 + length cs])"
    unfolding list_all2_conv_all_nth by (auto intro: decimal_string_ok simp del: upt_Suc)
qed

text \<open>
  C8 The shell without \<open>-t\<close> runs the commands of its script in order, each as the reference
  semantics says, and exits with the status of the last one, or with 1 when the log that was asked
  for could not be written; a fatal error in a command, or \<open>exec\<close>, is the end of the shell.  The
  script is the canonical text of a list of commands, one on a line, each ended by a newline, that
  begins with a word and has no loop inside a loop of the same process and no redirected \<open>:\<close>
  (\<open>regular\<close>); descriptor 0 is open when the commands start, and the system call \<open>pipe\<close> does not
  fail.
\<close>
theorem shell_runs_script:
  assumes "cs \<noteq> []" and "\<forall>c\<in>set cs. wf_command c \<and> lex_command c" and "is_word (snd (hd (flat (hd cs))))"
    and "\<forall>c\<in>set cs. regular False c"
    and "options opts None False = Some (prof, False)"
    and "os_script mos f (world p) = (w, Some (d, script_text cs))"
    and "open_profile mos prof (p\<lparr>world := w, fds := snd (fd_alloc (fds p) d)\<rparr>) = (True, p')"
    and "pipes_open os" and "std_open p'"
  shows "shell_main stray_type stray mos os n opts [f] p =
    map_option (\<lambda>r. case r of
        Ended w st \<Rightarrow> (w, st, [])
      | Value v l w \<Rightarrow> let (l, w) = ref_log os None (l, w)
                       in (w, WExited (nat ((if prof \<noteq> None \<and> \<not> l then 1 else v) mod 256)), []))
      (evaluate_all n os 0 (fd_get (fds p')) cs (log_writable p') (world p'))"
proof -
  let ?loop = "command_loop n os False (Some \<lparr>command_tree_list = cs, read_index = 0\<rparr>) 1 None [] p'"
  have m: "shell_main stray_type stray mos os n opts [f] p =
    (case ?loop of
       None \<Rightarrow> None
     | Some (Inl (w, st)) \<Rightarrow> Some (w, st, [])
     | Some (Inr (c, out, p)) \<Rightarrow>
         let p = final_log mos os (c \<noteq> None) p
         in Some (world p, WExited (nat ((if prof \<noteq> None \<and> \<not> log_writable p then 1 else last_status c) mod 256)), out))"
    using assms(1-7) by (simp add: shell_main_def stream_of_script del: One_nat_def)
      (auto simp: last_status_def Let_def split: option.split sum.split)
  have e: "map_option loop_result ?loop = evaluate_all n os 0 (fd_get (fds p')) cs (log_writable p') (world p')"
    and r: "pred_option (ran True []) ?loop"
    using execute_loop_evaluates [OF assms(4,8,9) same_fds_refl, of n 0 1 None "[]"] assms(1)
    by (simp_all add: last_status_def [of None])
  show ?thesis
    unfolding m e [symmetric] using r
    by (auto simp: loop_result_def ran_def final_log_def write_log_ref Let_def split: option.splits sum.splits prod.splits)
qed

section \<open>Examples\<close>

definition demo_main_os :: "command list \<Rightarrow> (nat list, unit) main_os" where
  "demo_main_os cs = \<lparr>os_script = (\<lambda>f w. (w, Some ((), script_text cs))), os_profile = (\<lambda>f w. (w, Some ())),
     os_log0 = (\<lambda>w. (w, True))\<rparr>"

theorem shell_prints_script_witness:
  "\<exists>out numbers. shell_main (\<lambda>_. TOK_IF) (\<lambda>_. \<lparr>type = TOK_WORD, offset = 0, tok_line = 0\<rparr>) (demo_main_os demo_script)
      demo_os 0 [Opt_t] [''s''] (demo_proc [0, 3]) = Some ([0, 3], WExited 0, out)
    \<and> inked out = listing numbers demo_script \<and> list_all2 decimal [1..<1 + length demo_script] numbers"
proof (rule shell_prints_script)
  show "demo_script \<noteq> []" by (simp add: demo_script_def)
  show "\<forall>c\<in>set demo_script. wf_command c \<and> lex_command c"
    by (simp add: demo_script_def new_info_def texts_ok_def is_word_def word_char_def valid_char_def isalnum_def
        strchr_hit_def TokAssociations_def)
  show "is_word (snd (hd (flat (hd demo_script))))" by (simp add: demo_script_def)
qed (simp_all add: demo_main_os_def demo_proc_def)

theorem shell_runs_script_witness:
  "shell_main (\<lambda>_. TOK_IF) (\<lambda>_. \<lparr>type = TOK_WORD, offset = 0, tok_line = 0\<rparr>)
     (demo_main_os [simple_command ''a'', simple_command ''b'']) demo_os 1 [Opt_p ''log''] [''s''] (demo_proc [0, 3])
   = Some ([], WExited 3, [])"
proof -
  let ?cs = "[simple_command ''a'', simple_command ''b'']"
  let ?p = "demo_proc [0, 3]\<lparr>fds := [Some (), Some (), Some (), Some (), Some ()], log_writable := True\<rparr>"
  have wf: "\<forall>c\<in>set ?cs. wf_command c \<and> lex_command c"
    by (simp add: simple_command_def new_info_def texts_ok_def is_word_def word_char_def valid_char_def isalnum_def
        strchr_hit_def TokAssociations_def)
  have word: "is_word (snd (hd (flat (hd ?cs))))"
    by (simp add: simple_command_def is_word_def word_char_def valid_char_def isalnum_def strchr_hit_def TokAssociations_def)
  have std: "std_open ?p" by (simp add: std_open_def fd_get_def)
  have prof: "open_profile (demo_main_os ?cs) (Some ''log'') (demo_proc [0, 3]\<lparr>world := [0, 3],
      fds := snd (fd_alloc (fds (demo_proc [0, 3])) ())\<rparr>) = (True, ?p)"
    by (simp add: open_profile_def demo_main_os_def demo_proc_def)
  show ?thesis
    by (subst shell_runs_script [OF _ wf word _ _ _ prof demo_system(1) std])
      (simp_all add: demo_main_os_def demo_proc_def simple_command_def new_info_def ref_simple_def ref_files_def
        ref_redirect_def ref_program_def ref_log_def ref_status_def demo_os_def)
qed

section \<open>Fuel\<close>

text \<open>
  The fuel bounds the nesting and the rounds of the loops.  For a command without loops, as long as
  every program it runs ends (a program that does not is outside the model, whose \<open>exec\<close> has a
  result), fuel for its depth of nesting is enough.
\<close>

fun no_loops :: "command \<Rightarrow> bool" where
  "no_loops (SEQUENCE_COMMAND ci a b) \<longleftrightarrow> no_loops a \<and> no_loops b"
| "no_loops (PIPE_COMMAND ci a b) \<longleftrightarrow> no_loops a \<and> no_loops b"
| "no_loops (SUBSHELL_COMMAND ci a) \<longleftrightarrow> no_loops a"
| "no_loops (IF_COMMAND ci a b None) \<longleftrightarrow> no_loops a \<and> no_loops b"
| "no_loops (IF_COMMAND ci a b (Some c)) \<longleftrightarrow> no_loops a \<and> no_loops b \<and> no_loops c"
| "no_loops (WHILE_COMMAND ci a b) \<longleftrightarrow> False"
| "no_loops (UNTIL_COMMAND ci a b) \<longleftrightarrow> False"
| "no_loops (SIMPLE_COMMAND ci ws) \<longleftrightarrow> True"

fun nesting_depth :: "command \<Rightarrow> nat" where
  "nesting_depth (SEQUENCE_COMMAND ci a b) = Suc (max (nesting_depth a) (nesting_depth b))"
| "nesting_depth (PIPE_COMMAND ci a b) = Suc (max (nesting_depth a) (nesting_depth b))"
| "nesting_depth (SUBSHELL_COMMAND ci a) = Suc (nesting_depth a)"
| "nesting_depth (IF_COMMAND ci a b None) = Suc (max (nesting_depth a) (nesting_depth b))"
| "nesting_depth (IF_COMMAND ci a b (Some c)) = Suc (max (nesting_depth a) (max (nesting_depth b) (nesting_depth c)))"
| "nesting_depth (WHILE_COMMAND ci a b) = Suc (max (nesting_depth a) (nesting_depth b))"
| "nesting_depth (UNTIL_COMMAND ci a b) = Suc (max (nesting_depth a) (nesting_depth b))"
| "nesting_depth (SIMPLE_COMMAND ci ws) = 1"

text \<open>A pipe ends when both of its sides do.\<close>

definition pipes_end :: "('w, 'f) os \<Rightarrow> bool" where
  "pipes_end os \<longleftrightarrow> (\<forall>l r w. (\<forall>w. l w \<noteq> None) \<longrightarrow> (\<forall>w. r w \<noteq> None) \<longrightarrow> os_par os l r w \<noteq> None)"

lemma exec_bind_returns: "r \<noteq> None \<Longrightarrow> (\<And>c p. r = Some (Done c p) \<Longrightarrow> f c p \<noteq> None) \<Longrightarrow> exec_bind r f \<noteq> None"
  by (cases "(r, f)" rule: exec_bind.cases) auto

lemma run_child_returns: "(\<And>p. rec c inp outp p \<noteq> None) \<Longrightarrow> run_child rec c inp outp p w \<noteq> None"
  by (simp add: run_child_def split: option.split exec_result.split)

lemma execute_returns:
  assumes "pipes_end os"
  shows "no_loops c \<Longrightarrow> nesting_depth c \<le> n \<Longrightarrow> recursive_execute n os c inp outp p \<noteq> None"
proof (induction n arbitrary: c inp outp p)
  case 0
  then show ?case by (cases c rule: nesting_depth.cases) auto
next
  case (Suc n)
  note IH = Suc.IH
  show ?case
  proof (cases c)
    case (SEQUENCE_COMMAND ci a b)
    with Suc.prems have r: "recursive_execute n os a inp outp q \<noteq> None" "recursive_execute n os b inp outp q \<noteq> None" for q
      using IH [of a] IH [of b] by auto
    show ?thesis unfolding SEQUENCE_COMMAND recursive_execute.simps command.case execute_sequence_def
      by (intro exec_bind_returns r) simp
  next
    case (PIPE_COMMAND ci a b)
    with Suc.prems have r: "recursive_execute n os a i o' q \<noteq> None" "recursive_execute n os b i o' q \<noteq> None" for i o' q
      using IH [of a] IH [of b] by auto
    have e: "os_par os (run_child (recursive_execute n os) a i o' q) (run_child (recursive_execute n os) b i' o'' q') w \<noteq> None"
      for i o' q i' o'' q' w
      using assms r by (simp add: pipes_end_def run_child_returns del: not_None_eq)
    show ?thesis unfolding PIPE_COMMAND recursive_execute.simps command.case execute_pipe_def
      by (auto simp: Let_def dest: e [THEN notE] split: prod.split option.split)
  next
    case (SUBSHELL_COMMAND ci a)
    with Suc.prems have "recursive_execute n os a i o' q \<noteq> None" for i o' q using IH [of a] by auto
    then have e: "run_child (recursive_execute n os) a i o' q w \<noteq> None" for i o' q w by (rule run_child_returns)
    show ?thesis unfolding SUBSHELL_COMMAND recursive_execute.simps command.case execute_subshell_def
      by (auto dest: e [THEN notE] split: prod.split option.split)
  next
    case (IF_COMMAND ci a b e)
    with Suc.prems have r: "recursive_execute n os a i o' q \<noteq> None" "recursive_execute n os b i o' q \<noteq> None"
      "e = Some d \<Longrightarrow> recursive_execute n os d i o' q \<noteq> None" for i o' q d
      using IH [of a] IH [of b] IH [of d] by (cases e; auto)+
    obtain i o' q where f: "open_files os ci inp outp p = (i, o', q)" by (cases "open_files os ci inp outp p")
    have k: "(if t then x else case e of None \<Rightarrow> y | Some d \<Rightarrow> z d) \<noteq> None"
      if "x \<noteq> None" "y \<noteq> None" "\<And>d. e = Some d \<Longrightarrow> z d \<noteq> None" for t x z and y :: "('a, 'b) exec_result option"
      using that by (cases e) (simp_all del: not_None_eq)
    show ?thesis unfolding IF_COMMAND recursive_execute.simps command.case execute_if_def f prod.case
      by (intro exec_bind_returns k r) simp_all
  next
    case (SIMPLE_COMMAND ci ws)
    then show ?thesis by (auto simp: execute_simple_def split: prod.split)
  qed (use Suc.prems in auto)
qed

end
