(* ===== verification/Weensy_Lib.thy ===== *)
theory Weensy_Lib
  imports Prelude
begin

text \<open>
  The library of the two WeensyOS kernels (weensyos1/lib.c, of which weensyos2/lib.c is a
  copy): the memory functions and that they implement the memory operations of the
  prelude, and the formatted output to the console, which stays on the console.
\<close>

section \<open>Memory functions\<close>

text \<open>
  \<open>while (n-- > 0) *d++ = *s++;\<close>: the loop of \<open>memcpy\<close>, and of \<open>memmove\<close> when the
  destination does not start inside the source.
\<close>

primrec copy_up :: "mem \<Rightarrow> nat \<Rightarrow> nat \<Rightarrow> nat \<Rightarrow> mem" where
  "copy_up m d s 0 = m"
| "copy_up m d s (Suc n) = copy_up (m(d := m s)) (d + 1) (s + 1) n"

text \<open>\<open>while (n-- > 0) *--d = *--s;\<close>, with both pointers one past the end.\<close>

primrec copy_down :: "mem \<Rightarrow> nat \<Rightarrow> nat \<Rightarrow> nat \<Rightarrow> mem" where
  "copy_down m d s 0 = m"
| "copy_down m d s (Suc n) = copy_down (m(d - 1 := m (s - 1))) (d - 1) (s - 1) n"

definition memcpy :: "mem \<Rightarrow> nat \<Rightarrow> nat \<Rightarrow> u32 \<Rightarrow> mem" where
  "memcpy m dst src n = copy_up m dst src (unat n)"

definition memmove :: "mem \<Rightarrow> nat \<Rightarrow> nat \<Rightarrow> u32 \<Rightarrow> mem" where
  "memmove m dst src n =
     (if src < dst \<and> src + unat n > dst then copy_down m (dst + unat n) (src + unat n) (unat n)
      else copy_up m dst src (unat n))"

primrec set_bytes :: "mem \<Rightarrow> nat \<Rightarrow> u8 \<Rightarrow> nat \<Rightarrow> mem" where
  "set_bytes m p c 0 = m"
| "set_bytes m p c (Suc n) = set_bytes (m(p := c)) (p + 1) c n"

definition memset :: "mem \<Rightarrow> nat \<Rightarrow> u32 \<Rightarrow> u32 \<Rightarrow> mem" where
  "memset m v c n = set_bytes m v (ucast c) (unat n)"

text \<open>
  \<open>strlen\<close> and \<open>strnlen\<close> read bytes through a pointer, given here as the function from
  the offset to the byte, so that they apply to memory and to a local buffer alike.
  \<open>strlen\<close> does not return when there is no null byte.
\<close>

partial_function (option) lib_strlen :: "(nat \<Rightarrow> u8) \<Rightarrow> nat \<Rightarrow> nat option" where
  "lib_strlen s n = (if s n \<noteq> 0 then lib_strlen s (n + 1) else Some n)"

function lib_strnlen :: "(nat \<Rightarrow> u8) \<Rightarrow> nat \<Rightarrow> nat \<Rightarrow> nat" where
  "lib_strnlen s n maxlen =
     (if n < maxlen \<and> s n \<noteq> 0 then lib_strnlen s (n + 1) maxlen else n)"
  by pat_completeness auto
termination by (relation "measure (\<lambda>(_, n, maxlen). maxlen - n)") auto

declare lib_strnlen.simps [simp del]

subsection \<open>They implement the abstract memory operations\<close>

lemma shift: "Suc d \<le> x \<Longrightarrow> Suc (s + x - Suc d) = s + x - (d :: nat)"
  by arith

lemma copy_up_byte:
  "s + n \<le> d \<or> d \<le> s \<Longrightarrow> copy_up m d s n x = (if d \<le> x \<and> x < d + n then m (s + (x - d)) else m x)"
proof (induction n arbitrary: m d s)
  case (Suc n)
  have IH: "copy_up (m(d := m s)) (d + 1) (s + 1) n x
      = (if d + 1 \<le> x \<and> x < d + 1 + n then (m(d := m s)) (s + 1 + (x - (d + 1))) else (m(d := m s)) x)"
    by (rule Suc.IH) (use Suc.prems in auto)
  show ?case
    unfolding copy_up.simps IH using Suc.prems by (auto simp: not_le less_Suc_eq shift)
qed auto

lemma copy_down_byte:
  "s \<le> d \<Longrightarrow> n \<le> s \<Longrightarrow> copy_down m d s n x
     = (if d - n \<le> x \<and> x < d then m (s - (d - x)) else m x)"
proof (induction n arbitrary: m d s)
  case (Suc n)
  have IH: "copy_down (m(d - 1 := m (s - 1))) (d - 1) (s - 1) n x
      = (if d - 1 - n \<le> x \<and> x < d - 1 then (m(d - 1 := m (s - 1))) (s - 1 - (d - 1 - x))
         else (m(d - 1 := m (s - 1))) x)"
    by (rule Suc.IH) (use Suc.prems in auto)
  show ?case
    unfolding copy_down.simps IH using Suc.prems by auto
qed auto

lemma memcpy_writes:
  assumes "src + unat n \<le> dst \<or> dst \<le> src"
  shows "memcpy m dst src n = mem_write m dst (mem_read m src (unat n))"
  using assms by (auto simp: memcpy_def copy_up_byte mem_write_byte fun_eq_iff)

text \<open>
  \<open>memmove\<close> is right for every overlap: afterwards the destination holds the bytes the
  source held before the call, and no other byte has changed.
\<close>

lemma memmove_writes: "memmove m dst src n = mem_write m dst (mem_read m src (unat n))"
proof
  fix x
  show "memmove m dst src n x = mem_write m dst (mem_read m src (unat n)) x"
  proof (cases "src < dst \<and> src + unat n > dst")
    case True
    then have "memmove m dst src n x = copy_down m (dst + unat n) (src + unat n) (unat n) x"
      by (simp add: memmove_def)
    also have "\<dots> = mem_write m dst (mem_read m src (unat n)) x"
      using True by (subst copy_down_byte) (auto simp: mem_write_byte)
    finally show ?thesis .
  next
    case False
    then show ?thesis
      unfolding memmove_def by (auto simp: copy_up_byte mem_write_byte)
  qed
qed

lemma set_bytes_fill: "set_bytes m p c n = mem_fill m p c n"
  by (induction n arbitrary: m p) (auto simp: mem_fill_def fun_eq_iff)

lemma memset_fill: "memset m v c n = mem_fill m v (ucast c) (unat n)"
  by (simp add: memset_def set_bytes_fill)

lemma lib_strlen_from: "lib_strlen (\<lambda>i. m (p + i)) n = strlen_from m p n"
proof -
  have A: "lib_strlen (\<lambda>i. m (p + i)) n = Some k" if "strlen_from m p n = Some k" for n k
  proof -
    from strlen_from_SomeD [OF that]
    have k: "n \<le> k" "m (p + k) = 0" "\<And>i. n \<le> i \<Longrightarrow> i < k \<Longrightarrow> m (p + i) \<noteq> 0" by auto
    then show ?thesis
      by (induction n rule: inc_induct) (subst lib_strlen.simps; simp)+
  qed
  have B: "s = (\<lambda>i. m (p + i)) \<longrightarrow> strlen_from m p n = Some k" if "lib_strlen s n = Some k" for s n k
  proof (rule lib_strlen.raw_induct [OF _ that])
    fix f s n k
    assume "\<And>s n k. f s n = Some k \<Longrightarrow> s = (\<lambda>i. m (p + i)) \<longrightarrow> strlen_from m p n = Some k"
      and "(if s n \<noteq> 0 then f s (n + 1) else Some n) = Some k"
    then show "s = (\<lambda>i. m (p + i)) \<longrightarrow> strlen_from m p n = Some k"
      by (subst strlen_from.simps) (auto split: if_splits)
  qed
  show ?thesis using A B by (metis not_Some_eq)
qed

lemma lib_strlen_memory: "lib_strlen (\<lambda>i. m (p + i)) 0 = strlen m p"
  by (simp add: lib_strlen_from strlen_def)

lemma lib_strnlen_least:
  assumes "n \<le> k" "k \<le> maxlen" "\<forall>i. n \<le> i \<and> i < k \<longrightarrow> s i \<noteq> 0" "k < maxlen \<longrightarrow> s k = 0"
  shows "lib_strnlen s n maxlen = k"
  using assms
proof (induction n rule: inc_induct)
  case base
  then show ?case by (subst lib_strnlen.simps) auto
next
  case (step n)
  then show ?case by (subst lib_strnlen.simps) auto
qed

lemma lib_strnlen_le: "n \<le> maxlen \<Longrightarrow> lib_strnlen s n maxlen \<le> maxlen"
  by (induction s n maxlen rule: lib_strnlen.induct) (subst lib_strnlen.simps; simp)

section \<open>The console\<close>

text \<open>
  The CGA console is 80 * 25 cells of two bytes, a character and its color, at
  \<open>CONSOLE_BEGIN\<close>; a cursor is the address of a cell.
\<close>

definition CONSOLE_BEGIN :: nat where "CONSOLE_BEGIN = 0xB8000"

definition CONSOLE_END :: nat where "CONSOLE_END = CONSOLE_BEGIN + 2 * (80 * 25)"

definition put16 :: "mem \<Rightarrow> nat \<Rightarrow> u16 \<Rightarrow> mem" where
  "put16 m a v = m(a := ucast v, a + 1 := ucast (drop_bit 8 v))"

definition get16 :: "mem \<Rightarrow> nat \<Rightarrow> u16" where
  "get16 m a = ucast (m a) OR push_bit 8 (ucast (m (a + 1)))"

text \<open>\<open>*cursor = c | color\<close>: the \<open>int\<close> is truncated to the cell's 16 bits.\<close>

definition cell :: "u8 \<Rightarrow> u32 \<Rightarrow> u16" where
  "cell c color = ucast (ucast c OR color)"

text \<open>\<open>for (; pos != 80; pos++) *cursor++ = ' ' | color;\<close>, \<open>n\<close> cells in all.\<close>

primrec blank_cells :: "mem \<Rightarrow> nat \<Rightarrow> u32 \<Rightarrow> nat \<Rightarrow> mem \<times> nat" where
  "blank_cells m cursor color 0 = (m, cursor)"
| "blank_cells m cursor color (Suc n) = blank_cells (put16 m cursor (cell 0x20 color)) (cursor + 2) color n"

definition console_putc :: "mem \<Rightarrow> nat \<Rightarrow> u8 \<Rightarrow> u32 \<Rightarrow> mem \<times> nat" where
  "console_putc m cursor c color =
     (let cursor = (if cursor \<ge> CONSOLE_END then CONSOLE_BEGIN else cursor)
      in if c = 0x0A then blank_cells m cursor color (80 - (cursor - CONSOLE_BEGIN) div 2 mod 80)
         else (put16 m cursor (cell c color), cursor + 2))"

subsection \<open>Numbers\<close>

definition upper_digits :: "u8 list" where
  "upper_digits = map (of_nat \<circ> of_char) ''0123456789ABCDEF''"

definition lower_digits :: "u8 list" where
  "lower_digits = map (of_nat \<circ> of_char) ''0123456789abcdef''"

text \<open>
  \<open>fill_numbuf\<close> fills a buffer backwards from its end.  The buffer is a function from
  the index to the byte, so that a step over its front end would show as a negative
  index.  \<open>numbuf_digits\<close> is the \<open>do ... while (val != 0)\<close> loop.
\<close>

partial_function (option) numbuf_digits ::
    "(int \<Rightarrow> u8) \<Rightarrow> int \<Rightarrow> u32 \<Rightarrow> u32 \<Rightarrow> u8 list \<Rightarrow> ((int \<Rightarrow> u8) \<times> int) option" where
  "numbuf_digits buf i val base digits =
     (let i' = i - 1; buf' = buf(i' := digits ! unat (val mod base)); val' = val div base
      in if val' \<noteq> 0 then numbuf_digits buf' i' val' base digits else Some (buf', i'))"

definition fill_numbuf ::
    "(int \<Rightarrow> u8) \<Rightarrow> int \<Rightarrow> u32 \<Rightarrow> u32 \<Rightarrow> u8 list \<Rightarrow> int \<Rightarrow> ((int \<Rightarrow> u8) \<times> int) option" where
  "fill_numbuf buf numbuf_end val base digits precision =
     (let i = numbuf_end - 1; buf = buf(i := 0)
      in if precision \<noteq> 0 \<or> val \<noteq> 0 then numbuf_digits buf i val base digits else Some (buf, i))"

text \<open>The value the bytes from \<open>i\<close> to \<open>j\<close> spell in a base, by their places in \<open>digits\<close>.\<close>

definition digit_value :: "u8 list \<Rightarrow> u8 \<Rightarrow> nat" where
  "digit_value digits c = length (takeWhile (\<lambda>d. d \<noteq> c) digits)"

definition spelled :: "u8 list \<Rightarrow> nat \<Rightarrow> u8 list \<Rightarrow> nat" where
  "spelled digits base cs = foldl (\<lambda>v c. base * v + digit_value digits c) 0 cs"

lemma digit_value_nth:
  "distinct digits \<Longrightarrow> k < length digits \<Longrightarrow> digit_value digits (digits ! k) = k"
proof (induction digits arbitrary: k)
  case (Cons d digits)
  then show ?case by (cases k) (auto simp: digit_value_def)
qed simp

lemma digits_props:
  "distinct upper_digits" "length upper_digits = 16" "0 \<notin> set upper_digits"
  "distinct lower_digits" "length lower_digits = 16" "0 \<notin> set lower_digits"
  by (simp_all add: upper_digits_def lower_digits_def)

lemma spelled_snoc: "spelled digits base (cs @ [c]) = base * spelled digits base cs + digit_value digits c"
  by (simp add: spelled_def)

text \<open>One round of the loop after another writes the digits from the last to the first.\<close>

function digit_list :: "u8 list \<Rightarrow> nat \<Rightarrow> nat \<Rightarrow> u8 list" where
  "digit_list digits base v =
     (if base < 2 then [] else
      (if v div base = 0 then [] else digit_list digits base (v div base)) @ [digits ! (v mod base)])"
  by pat_completeness auto
termination
proof (relation "measure (\<lambda>(_, _, v). v)")
  fix digits :: "u8 list" and base v :: nat
  assume "\<not> base < 2" "v div base \<noteq> 0"
  then have "1 < base" "0 < v" by (auto intro: Nat.gr0I)
  then show "((digits, base, v div base), (digits, base, v)) \<in> measure (\<lambda>(_, _, v). v)" by simp
qed simp

declare digit_list.simps [simp del]

definition put_front :: "(int \<Rightarrow> u8) \<Rightarrow> int \<Rightarrow> u8 list \<Rightarrow> int \<Rightarrow> u8" where
  "put_front buf i cs = (\<lambda>x. if i - int (length cs) \<le> x \<and> x < i then cs ! nat (x - (i - int (length cs))) else buf x)"

lemma put_front_Nil: "put_front buf i [] = buf"
  by (auto simp: put_front_def fun_eq_iff)

lemma put_front_snoc: "put_front buf i (cs @ [c]) = put_front (buf(i - 1 := c)) (i - 1) cs"
  by (auto simp: put_front_def fun_eq_iff nth_append nat_less_iff intro!: arg_cong [where f = "(!) cs"])

lemma numbuf_digits_list:
  assumes "2 \<le> unat base"
  shows "numbuf_digits buf i val base digits
    = Some (put_front buf i (digit_list digits (unat base) (unat val)),
        i - int (length (digit_list digits (unat base) (unat val))))"
proof (induction "unat val" arbitrary: buf i val rule: less_induct)
  case less
  note step = numbuf_digits.simps [of buf i val base digits, unfolded Let_def]
  show ?case
  proof (cases "val div base = 0")
    case True
    then have "unat val div unat base = 0" by (metis unat_0 unat_div)
    then have "digit_list digits (unat base) (unat val) = [] @ [digits ! (unat val mod unat base)]"
      using assms by (subst digit_list.simps) simp
    with True show ?thesis
      by (simp add: step put_front_snoc [of _ _ "[]", simplified] put_front_Nil unat_mod)
  next
    case False
    then have nz: "unat val div unat base \<noteq> 0" by (metis unat_div unat_eq_zero)
    then have "unat val \<noteq> 0" by (metis div_0)
    then have "unat (val div base) < unat val" using assms by (simp add: unat_div)
    note IH = less [OF this]
    have dl: "digit_list digits (unat base) (unat val)
        = digit_list digits (unat base) (unat (val div base)) @ [digits ! unat (val mod base)]"
      using assms nz by (subst digit_list.simps) (simp add: unat_div unat_mod)
    show ?thesis
      unfolding dl put_front_snoc step using False by (simp add: IH)
  qed
qed

lemma digit_list_spelled:
  assumes "distinct digits" "base \<le> length digits" "2 \<le> base"
  shows "spelled digits base (digit_list digits base v) = v"
proof (induction v rule: less_induct)
  case (less v)
  have d: "digit_value digits (digits ! (v mod base)) = v mod base"
    using assms by (intro digit_value_nth) (auto intro: less_le_trans [OF mod_less_divisor])
  show ?case
  proof (cases "v div base = 0")
    case True
    then have "v < base" using assms by (auto simp: div_eq_0_iff)
    with True d show ?thesis
      using assms by (subst digit_list.simps) (simp add: spelled_def)
  next
    case False
    then have "v \<noteq> 0" by (metis div_0)
    then have "v div base < v" using assms by simp
    from less [OF this] False d show ?thesis
      using assms by (subst digit_list.simps) (simp add: spelled_snoc)
  qed
qed

lemma digit_list_length:
  assumes "2 \<le> base" "v < base ^ k" "0 < k"
  shows "length (digit_list digits base v) \<le> k"
  using assms(2,3)
proof (induction k arbitrary: v)
  case (Suc k)
  show ?case
  proof (cases "v div base = 0")
    case True
    with assms(1) show ?thesis by (subst digit_list.simps) simp
  next
    case False
    have "v div base < base ^ k" using Suc.prems assms(1) by (simp add: less_mult_imp_div_less mult.commute)
    moreover have "0 < k"
    proof (rule ccontr)
      assume "\<not> 0 < k"
      with Suc.prems False show False by simp
    qed
    ultimately have "length (digit_list digits base (v div base)) \<le> k" by (rule Suc.IH)
    with False assms(1) show ?thesis by (subst digit_list.simps) simp
  qed
qed simp

lemma digit_list_nonzero:
  assumes "0 \<notin> set digits" "base \<le> length digits"
  shows "0 \<notin> set (digit_list digits base v)"
proof (induction v rule: less_induct)
  case (less v)
  show ?case
  proof (cases "base < 2")
    case True
    then show ?thesis by (subst digit_list.simps) simp
  next
    case False
    then have "v mod base < length digits"
      using assms(2) by (intro less_le_trans [OF mod_less_divisor]) auto
    then have "digits ! (v mod base) \<noteq> 0" using assms(1) by (metis nth_mem)
    moreover have "0 \<notin> set (digit_list digits base (v div base))" if "v div base \<noteq> 0"
    proof -
      have "v \<noteq> 0" using that by (metis div_0)
      then have "v div base < v" using False by simp
      then show ?thesis by (rule less)
    qed
    ultimately show ?thesis by (subst digit_list.simps) auto
  qed
qed

text \<open>
  The bytes of a number in \<open>numbuf\<close>: what the \<open>len\<close> bytes from \<open>i\<close> on are.
\<close>

definition buf_bytes :: "(int \<Rightarrow> u8) \<Rightarrow> int \<Rightarrow> int \<Rightarrow> u8 list" where
  "buf_bytes buf i j = map buf [i..j - 1]"

lemma buf_bytes_put_front:
  "buf_bytes (put_front buf j cs) (j - int (length cs)) j = cs"
  by (rule nth_equalityI) (auto simp: buf_bytes_def put_front_def)

lemma word_digits_bound:
  assumes "base = 10 \<or> base = (16 :: u32)"
  shows "length (digit_list digits (unat base) (unat (val :: u32))) \<le> 10"
proof -
  have b: "unat base = 10 \<or> unat base = 16" using assms by auto
  have "unat val < 4294967296" using unsigned_less [of val] by simp
  then have "unat val < unat base ^ 10" using b by auto
  then show ?thesis using b by (intro digit_list_length) auto
qed

text \<open>
  A number printed into the 20 bytes of \<open>numbuf\<close>, in either base the printer uses, is a
  null-terminated string inside the buffer: it starts at index 9 or later and ends
  before the null at 19, holds no other null, and spells the number; only with
  precision 0 the number 0 is the empty string.
\<close>

lemma fill_numbuf_spells:
  assumes "base = 10 \<or> base = 16" "digits = upper_digits \<or> digits = lower_digits"
  shows "\<exists>buf' i. fill_numbuf buf 20 val base digits precision = Some (buf', i)
    \<and> 9 \<le> i \<and> i \<le> 19 \<and> buf' 19 = 0 \<and> 0 \<notin> set (buf_bytes buf' i 19)
    \<and> spelled digits (unat base) (buf_bytes buf' i 19) = unat val
    \<and> (i = 19 \<longleftrightarrow> val = 0 \<and> precision = 0)
    \<and> (\<forall>x. x < 9 \<or> 20 \<le> x \<longrightarrow> buf' x = buf x)"
proof (cases "precision \<noteq> 0 \<or> val \<noteq> 0")
  case True
  let ?cs = "digit_list digits (unat base) (unat val)"
  let ?b = "put_front (buf(19 := 0)) 19 ?cs"
  have b: "unat base = 10 \<or> unat base = 16" using assms(1) by auto
  have d: "distinct digits" "length digits = 16" "0 \<notin> set digits" using assms(2) digits_props by auto
  have len: "length ?cs \<le> 10" using word_digits_bound [OF assms(1)] .
  have pos: "0 < length ?cs" using b by (subst digit_list.simps) auto
  have f: "fill_numbuf buf 20 val base digits precision = Some (?b, 19 - int (length ?cs))"
    using True b numbuf_digits_list [of base "buf(19 := 0)" 19 val digits]
    by (auto simp: fill_numbuf_def Let_def)
  have 1: "buf_bytes ?b (19 - int (length ?cs)) 19 = ?cs" by (rule buf_bytes_put_front)
  have 2: "spelled digits (unat base) ?cs = unat val"
    using b d by (intro digit_list_spelled) auto
  have 3: "0 \<notin> set ?cs" using b d by (intro digit_list_nonzero) auto
  have 4: "\<forall>x. x < 9 \<or> 20 \<le> x \<longrightarrow> ?b x = buf x" using len by (auto simp: put_front_def)
  have 5: "?b 19 = 0" by (simp add: put_front_def)
  show ?thesis
    by (rule exI [where x = ?b], rule exI [where x = "19 - int (length ?cs)"])
      (use f 1 2 3 4 5 len pos True in auto)
next
  case False
  then have "fill_numbuf buf 20 val base digits precision = Some (buf(19 := 0), 19)"
    by (simp add: fill_numbuf_def)
  with False show ?thesis by (simp add: buf_bytes_def spelled_def)
qed

section \<open>Formatted output\<close>

text \<open>
  A format string is the list of its bytes up to the terminating null.  \<open>va_arg\<close> reads
  the next 32-bit slot of the caller's stack: \<open>va\<close> gives the slots and \<open>k\<close> counts them.
  The string to print is either in memory or in the local \<open>numbuf\<close>.  The width and the
  precision are C \<open>int\<close>s, whose overflow C leaves undefined.
\<close>

definition FLAG_ZERO :: u32 where "FLAG_ZERO = 2"
definition FLAG_LEFTJUSTIFY :: u32 where "FLAG_LEFTJUSTIFY = 4"
definition FLAG_SPACEPOSITIVE :: u32 where "FLAG_SPACEPOSITIVE = 8"
definition FLAG_PLUSPOSITIVE :: u32 where "FLAG_PLUSPOSITIVE = 16"

definition flag_chars :: "u8 list" where
  "flag_chars = map (of_nat \<circ> of_char) ''#0- +''"

fun format_flags :: "u8 list \<Rightarrow> u32 \<Rightarrow> u8 list \<times> u32" where
  "format_flags [] flags = ([], flags)"
| "format_flags (c # cs) flags =
     (let flagc = length (takeWhile (\<lambda>x. x \<noteq> c) flag_chars)
      in if flagc = length flag_chars then (c # cs, flags)
         else format_flags cs (flags OR push_bit flagc 1))"

definition digit_char :: "u8 \<Rightarrow> bool" where
  "digit_char c \<longleftrightarrow> 0x30 \<le> c \<and> c \<le> 0x39"

fun format_number :: "u8 list \<Rightarrow> int \<Rightarrow> u8 list \<times> int" where
  "format_number [] n = ([], n)"
| "format_number (c # cs) n =
     (if digit_char c then format_number cs (10 * n + int (unat c) - 0x30) else (c # cs, n))"

definition format_width :: "u8 list \<Rightarrow> (nat \<Rightarrow> u32) \<Rightarrow> nat \<Rightarrow> u8 list \<times> int \<times> nat" where
  "format_width fmt va k =
     (case fmt of [] \<Rightarrow> ([], -1, k)
      | c # cs \<Rightarrow>
          if digit_char c \<and> c \<noteq> 0x30 then (let (rest, width) = format_number fmt 0 in (rest, width, k))
          else if c = 0x2A then (cs, sint (va k), k + 1)
          else (fmt, -1, k))"

definition format_precision :: "u8 list \<Rightarrow> (nat \<Rightarrow> u32) \<Rightarrow> nat \<Rightarrow> u8 list \<times> int \<times> nat" where
  "format_precision fmt va k =
     (if fmt = [] \<or> hd fmt \<noteq> 0x2E then (fmt, -1, k)
      else let fmt = List.tl fmt;
               (rest, precision, k) =
                 (if fmt \<noteq> [] \<and> digit_char (hd fmt)
                  then (let (rest, p) = format_number fmt 0 in (rest, p, k))
                  else if fmt \<noteq> [] \<and> hd fmt = 0x2A then (List.tl fmt, sint (va k), k + 1)
                  else (fmt, -1, k))
           in (rest, if precision < 0 then 0 else precision, k))"

datatype data = InMemory nat | Numbuf "int \<Rightarrow> u8" int

definition data_byte :: "mem \<Rightarrow> data \<Rightarrow> nat \<Rightarrow> u8" where
  "data_byte m d i = (case d of InMemory p \<Rightarrow> m (p + i) | Numbuf buf j \<Rightarrow> buf (j + int i))"

text \<open>
  The main conversion character (\<open>0\<close> at the end of the format): a new color, or the
  string to print, whether it is a number and whether that is negative.
\<close>

datatype conversion = Color u32 | Print data bool bool

definition number :: "u32 \<Rightarrow> u32 \<Rightarrow> u8 list \<Rightarrow> int \<Rightarrow> bool \<Rightarrow> conversion option" where
  "number val base digits precision negative =
     map_option (\<lambda>(buf, i). Print (Numbuf buf i) True negative)
       (fill_numbuf (\<lambda>_. 0) 20 val base digits precision)"

definition numbuf_char :: "u8 \<Rightarrow> conversion" where
  "numbuf_char c = Print (Numbuf ((\<lambda>_. 0)(0 := c, 1 := 0)) 0) False False"

definition format_conversion :: "u8 \<Rightarrow> int \<Rightarrow> (nat \<Rightarrow> u32) \<Rightarrow> nat \<Rightarrow> (conversion \<times> nat) option" where
  "format_conversion c precision va k =
     (if c = 0x64 then
        let x = sint (va k)
        in map_option (\<lambda>r. (r, k + 1)) (number (word_of_int (if x > 0 then x else - x)) 10 upper_digits precision (x < 0))
      else if c = 0x75 then map_option (\<lambda>r. (r, k + 1)) (number (va k) 10 upper_digits precision False)
      else if c = 0x78 then map_option (\<lambda>r. (r, k + 1)) (number (va k) 16 lower_digits precision False)
      else if c = 0x58 then map_option (\<lambda>r. (r, k + 1)) (number (va k) 16 upper_digits precision False)
      else if c = 0x73 then Some (Print (InMemory (unat (va k))) False False, k + 1)
      else if c = 0x43 then Some (Color (va k), k + 1)
      else if c = 0x63 then Some (numbuf_char (ucast (va k)), k + 1)
      else Some (numbuf_char (if c \<noteq> 0 then c else 0x25), k))"

text \<open>\<open>for (; n > 0; --n) cursor = console_putc(cursor, c, color);\<close>\<close>

primrec putc_times :: "mem \<Rightarrow> nat \<Rightarrow> u8 \<Rightarrow> u32 \<Rightarrow> nat \<Rightarrow> mem \<times> nat" where
  "putc_times m cursor c color 0 = (m, cursor)"
| "putc_times m cursor c color (Suc n) =
     (let (m, cursor) = console_putc m cursor c color in putc_times m cursor c color n)"

text \<open>\<open>for (; len > 0; ++data, --len) cursor = console_putc(cursor, *data, color);\<close>\<close>

primrec put_data :: "mem \<Rightarrow> nat \<Rightarrow> data \<Rightarrow> nat \<Rightarrow> u32 \<Rightarrow> nat \<Rightarrow> mem \<times> nat" where
  "put_data m cursor d i color 0 = (m, cursor)"
| "put_data m cursor d i color (Suc n) =
     (let (m, cursor) = console_putc m cursor (data_byte m d i) color
      in put_data m cursor d (i + 1) color n)"

definition sign_char :: "u32 \<Rightarrow> bool \<Rightarrow> bool \<Rightarrow> u8" where
  "sign_char flags numeric negative =
     (if numeric \<and> negative then 0x2D
      else if flags AND FLAG_PLUSPOSITIVE \<noteq> 0 then 0x2B
      else if flags AND FLAG_SPACEPOSITIVE \<noteq> 0 then 0x20
      else 0)"

text \<open>The loops at the end of a conversion: padding, sign, zeros, the bytes, padding.\<close>

definition put_field :: "mem \<Rightarrow> nat \<Rightarrow> u32 \<Rightarrow> bool \<Rightarrow> int \<Rightarrow> u8 \<Rightarrow> int \<Rightarrow> data \<Rightarrow> nat \<Rightarrow> mem \<times> nat" where
  "put_field m cursor color left width sign zeros d len =
     (let (m, cursor) = (if left then (m, cursor) else putc_times m cursor 0x20 color (nat width));
          (m, cursor) = (if sign \<noteq> 0 then console_putc m cursor sign color else (m, cursor));
          (m, cursor) = putc_times m cursor 0x30 color (nat zeros);
          (m, cursor) = put_data m cursor d 0 color len
      in if left then putc_times m cursor 0x20 color (nat width) else (m, cursor))"

definition print_field :: "mem \<Rightarrow> nat \<Rightarrow> u32 \<Rightarrow> u32 \<Rightarrow> int \<Rightarrow> int \<Rightarrow> data \<Rightarrow> bool \<Rightarrow> bool \<Rightarrow> (mem \<times> nat) option" where
  "print_field m cursor color flags width precision d numeric negative =
     map_option
       (\<lambda>n. let len = int n;
                sign = sign_char flags numeric negative;
                signs = (if sign \<noteq> 0 then 1 else 0);
                zeros = (if numeric \<and> precision > len then precision - len
                         else if flags AND (FLAG_ZERO OR FLAG_LEFTJUSTIFY) = FLAG_ZERO
                              \<and> numeric \<and> precision < 0 \<and> len + signs < width
                         then width - len - signs
                         else 0)
            in put_field m cursor color (flags AND FLAG_LEFTJUSTIFY \<noteq> 0)
                 (width - (len + zeros + signs)) sign zeros d n)
       (if precision \<ge> 0 then Some (lib_strnlen (data_byte m d) 0 (nat precision))
        else lib_strlen (data_byte m d) 0)"

text \<open>What follows a \<open>%\<close>: the new memory, cursor and color, the rest of the format and the next slot.\<close>

definition format_item ::
    "mem \<Rightarrow> nat \<Rightarrow> u32 \<Rightarrow> u8 list \<Rightarrow> (nat \<Rightarrow> u32) \<Rightarrow> nat \<Rightarrow> ((mem \<times> nat) \<times> u32 \<times> u8 list \<times> nat) option" where
  "format_item m cursor color fmt va k =
     (let (fmt, flags) = format_flags fmt 0;
          (fmt, width, k) = format_width fmt va k;
          (fmt, precision, k) = format_precision fmt va k
      in case format_conversion (case fmt of [] \<Rightarrow> 0 | c # _ \<Rightarrow> c) precision va k of
           None \<Rightarrow> None
         | Some (Color color', k) \<Rightarrow> Some ((m, cursor), color', List.tl fmt, k)
         | Some (Print d numeric negative, k) \<Rightarrow>
             map_option (\<lambda>mc. (mc, color, List.tl fmt, k))
               (print_field m cursor color flags width precision d numeric negative))"

lemma format_flags_length: "length (fst (format_flags fmt flags)) \<le> length fmt"
  by (induction fmt flags rule: format_flags.induct) (auto simp: Let_def)

lemma format_number_length: "length (fst (format_number fmt n)) \<le> length fmt"
  by (induction fmt n rule: format_number.induct) auto

lemma format_width_length: "length (fst (format_width fmt va k)) \<le> length fmt"
  using format_number_length [of fmt 0]
  by (auto simp: format_width_def split: list.splits prod.splits)

lemma format_precision_length: "length (fst (format_precision fmt va k)) \<le> length fmt"
  using format_number_length [of "List.tl fmt" 0]
  by (cases fmt) (auto simp: format_precision_def Let_def split: prod.splits)

lemma format_item_length:
  assumes "format_item m cursor color fmt va k = Some (mc, color', rest, k')"
  shows "length rest \<le> length fmt"
proof -
  obtain f1 flags where f1: "format_flags fmt 0 = (f1, flags)" by fastforce
  obtain f2 width k2 where f2: "format_width f1 va k = (f2, width, k2)" by (metis prod_cases3)
  obtain f3 precision k3 where f3: "format_precision f2 va k2 = (f3, precision, k3)" by (metis prod_cases3)
  have "length f3 \<le> length fmt"
    using format_flags_length [of fmt 0] format_width_length [of f1 va k] format_precision_length [of f2 va k2]
    by (simp add: f1 f2 f3)
  moreover have "rest = List.tl f3"
    using assms by (auto simp: format_item_def f1 f2 f3 split: option.splits conversion.splits)
  ultimately show ?thesis by simp
qed

function console_vprintf ::
    "mem \<Rightarrow> nat \<Rightarrow> u32 \<Rightarrow> u8 list \<Rightarrow> (nat \<Rightarrow> u32) \<Rightarrow> nat \<Rightarrow> (mem \<times> nat) option" where
  "console_vprintf m cursor color [] va k = Some (m, cursor)"
| "console_vprintf m cursor color (c # fmt) va k =
     (if c \<noteq> 0x25 then
        let (m, cursor) = console_putc m cursor c color in console_vprintf m cursor color fmt va k
      else case format_item m cursor color fmt va k of
             None \<Rightarrow> None
           | Some ((m, cursor), color, rest, k) \<Rightarrow> console_vprintf m cursor color rest va k)"
  by pat_completeness auto
termination
  by (relation "measure (\<lambda>(_, _, _, fmt, _, _). length fmt)")
    (auto dest: format_item_length)

definition console_printf :: "mem \<Rightarrow> nat \<Rightarrow> u32 \<Rightarrow> u8 list \<Rightarrow> (nat \<Rightarrow> u32) \<Rightarrow> (mem \<times> nat) option" where
  "console_printf m cursor color fmt va = console_vprintf m cursor color fmt va 0"

section \<open>The printer stays on the console\<close>

definition in_console :: "nat \<Rightarrow> bool" where
  "in_console c \<longleftrightarrow> CONSOLE_BEGIN \<le> c \<and> c \<le> CONSOLE_END \<and> even c"

definition console_only :: "mem \<Rightarrow> mem \<Rightarrow> bool" where
  "console_only m m' \<longleftrightarrow> (\<forall>x. x < CONSOLE_BEGIN \<or> CONSOLE_END \<le> x \<longrightarrow> m' x = m x)"

text \<open>The outcome \<open>r\<close> of printing on memory \<open>m\<close> is confined to the console.\<close>

definition confined :: "mem \<Rightarrow> mem \<times> nat \<Rightarrow> bool" where
  "confined m r \<longleftrightarrow> in_console (snd r) \<and> console_only m (fst r)"

lemma confined_refl: "in_console c \<Longrightarrow> confined m (m, c)"
  by (simp add: confined_def console_only_def)

lemma confined_trans: "confined m (m', c) \<Longrightarrow> confined m' r \<Longrightarrow> confined m r"
  by (auto simp: confined_def console_only_def)

lemma confined_in: "confined m (m', c) \<Longrightarrow> in_console c"
  by (simp add: confined_def)

lemma console_bounds: "CONSOLE_BEGIN = 753664" "CONSOLE_END = 757664"
  by (simp_all add: CONSOLE_BEGIN_def CONSOLE_END_def)

lemma put16_confined:
  "in_console c \<Longrightarrow> c < CONSOLE_END \<Longrightarrow> confined m (put16 m c v, c + 2)"
  by (auto simp: confined_def console_only_def in_console_def put16_def console_bounds elim!: evenE)

lemma blank_cells_confined:
  "in_console c \<Longrightarrow> c + 2 * n \<le> CONSOLE_END \<Longrightarrow> confined m (blank_cells m c color n)"
proof (induction n arbitrary: m c)
  case (Suc n)
  then have "confined m (put16 m c (cell 0x20 color), c + 2)" by (intro put16_confined) auto
  moreover from this have "confined (put16 m c (cell 0x20 color)) (blank_cells (put16 m c (cell 0x20 color)) (c + 2) color n)"
    using Suc.prems by (intro Suc.IH confined_in) auto
  ultimately show ?case by (auto intro: confined_trans)
qed (simp add: confined_refl)

lemma row_end:
  assumes "CONSOLE_BEGIN \<le> c" "c < CONSOLE_END" "even c"
  shows "c + 2 * (80 - (c - CONSOLE_BEGIN) div 2 mod 80) \<le> CONSOLE_END"
proof -
  define k where "k = (c - CONSOLE_BEGIN) div 2"
  have c: "c = CONSOLE_BEGIN + 2 * k" and k: "k < 2000"
    using assms by (auto simp: k_def console_bounds)
  have "k div 80 < 25" using k by (simp add: less_mult_imp_div_less)
  then have "80 * (k div 80) + 80 \<le> 2000" by simp
  moreover have "k = 80 * (k div 80) + k mod 80" by simp
  moreover have "k mod 80 < 80" by simp
  ultimately have "k + (80 - k mod 80) \<le> 2000" by linarith
  then show ?thesis using c by (simp add: console_bounds)
qed

lemma console_putc_confined:
  assumes "in_console c" shows "confined m (console_putc m c ch color)"
proof -
  define c' where "c' = (if c \<ge> CONSOLE_END then CONSOLE_BEGIN else c)"
  have c': "in_console c'" "c' < CONSOLE_END"
    using assms by (auto simp: c'_def in_console_def console_bounds)
  then have "confined m (blank_cells m c' color (80 - (c' - CONSOLE_BEGIN) div 2 mod 80))"
    by (intro blank_cells_confined row_end) (auto simp: in_console_def)
  moreover have "confined m (put16 m c' (cell ch color), c' + 2)"
    using c' by (rule put16_confined)
  ultimately show ?thesis
    by (simp add: console_putc_def c'_def Let_def)
qed

lemma confined_step:
  "in_console c \<Longrightarrow> (\<And>m' c'. console_putc m c ch color = (m', c') \<Longrightarrow> confined m (m', c') \<Longrightarrow> in_console c' \<Longrightarrow> confined m' (f m' c'))
     \<Longrightarrow> confined m (let (m, c) = console_putc m c ch color in f m c)"
proof -
  assume c: "in_console c"
    and f: "\<And>m' c'. console_putc m c ch color = (m', c') \<Longrightarrow> confined m (m', c') \<Longrightarrow> in_console c' \<Longrightarrow> confined m' (f m' c')"
  obtain m' c' where pc: "console_putc m c ch color = (m', c')" by fastforce
  then have "confined m (m', c')" using console_putc_confined [OF c, of m ch color] by simp
  with f [OF pc this confined_in [OF this]] pc show ?thesis by (auto intro: confined_trans)
qed

lemma putc_times_confined: "in_console c \<Longrightarrow> confined m (putc_times m c ch color n)"
proof (induction n arbitrary: m c)
  case (Suc n)
  show ?case unfolding putc_times.simps by (rule confined_step [OF Suc.prems]) (rule Suc.IH)
qed (simp add: confined_refl)

lemma put_data_confined: "in_console c \<Longrightarrow> confined m (put_data m c d i color n)"
proof (induction n arbitrary: m c i)
  case (Suc n)
  show ?case unfolding put_data.simps by (rule confined_step [OF Suc.prems]) (rule Suc.IH)
qed (simp add: confined_refl)

lemma put_field_confined:
  assumes "in_console c" shows "confined m (put_field m c color left w sign z d n)"
proof -
  obtain m1 c1 where 1: "(if left then (m, c) else putc_times m c 0x20 color (nat w)) = (m1, c1)" by fastforce
  obtain m2 c2 where 2: "(if sign \<noteq> 0 then console_putc m1 c1 sign color else (m1, c1)) = (m2, c2)" by fastforce
  obtain m3 c3 where 3: "putc_times m2 c2 0x30 color (nat z) = (m3, c3)" by fastforce
  obtain m4 c4 where 4: "put_data m3 c3 d 0 color n = (m4, c4)" by fastforce
  have "confined m (m1, c1)"
    using 1 assms(1) putc_times_confined [OF assms(1), of m "0x20" color "nat w"] by (auto intro: confined_refl split: if_splits)
  moreover from this have "confined m1 (m2, c2)"
    using 2 console_putc_confined [OF confined_in, of m m1 c1 m1 sign color]
    by (auto intro: confined_refl confined_in split: if_splits)
  moreover from this have "confined m2 (m3, c3)"
    using putc_times_confined [OF confined_in] 3 by metis
  moreover from this have "confined m3 (m4, c4)"
    using put_data_confined [OF confined_in] 4 by metis
  moreover from this have "confined m4 (put_field m c color left w sign z d n)"
    using putc_times_confined [OF confined_in, of m3 m4 c4 m4 "0x20" color "nat w"]
    by (auto simp: put_field_def 1 2 3 4 intro: confined_refl confined_in)
  ultimately show ?thesis by (blast intro: confined_trans)
qed

lemma print_field_confined:
  assumes "in_console c" "print_field m c color flags width precision d numeric negative = Some r"
  shows "confined m r"
  using assms(2) by (auto simp: print_field_def Let_def put_field_confined [OF assms(1)])

lemma format_item_confined:
  assumes "in_console c" "format_item m c color fmt va k = Some (r, color', rest, k')"
  shows "confined m r"
  using assms(2) unfolding format_item_def Let_def
  by (auto split: prod.splits option.splits conversion.splits intro: confined_refl [OF assms(1)]
      dest: print_field_confined [OF assms(1)])

subsection \<open>It returns when every string ends\<close>

definition strings_end :: "mem \<Rightarrow> bool" where
  "strings_end m \<longleftrightarrow> (\<forall>p. \<exists>q\<ge>p. m q = 0)"

lemma strings_end_confined: "strings_end m \<Longrightarrow> confined m (m', c) \<Longrightarrow> strings_end m'"
  unfolding strings_end_def
proof
  fix p
  assume "\<forall>p. \<exists>q\<ge>p. m q = 0" and c: "confined m (m', c)"
  then obtain q where "q \<ge> p + CONSOLE_END" "m q = 0" by blast
  moreover from this c have "m' q = m q" by (simp add: confined_def console_only_def)
  ultimately show "\<exists>q\<ge>p. m' q = 0" by (intro exI [of _ q]) auto
qed

lemma strings_end_strlen: "strings_end m \<Longrightarrow> \<exists>n. lib_strlen (data_byte m (InMemory p)) 0 = Some n"
proof -
  assume "strings_end m"
  then obtain q where "m (p + (q - p)) = 0" unfolding strings_end_def by (metis le_add_diff_inverse)
  then have "\<exists>k. m (p + k) = 0" by blast
  then have "m (p + (LEAST k. m (p + k) = 0)) = 0" by (rule LeastI_ex)
  moreover have "\<forall>i < (LEAST k. m (p + k) = 0). m (p + i) \<noteq> 0" using not_less_Least by blast
  ultimately have "strlen m p = Some (LEAST k. m (p + k) = 0)" by (simp add: strlen_eq_Some_iff)
  moreover have "data_byte m (InMemory p) = (\<lambda>i. m (p + i))" by (simp add: data_byte_def fun_eq_iff)
  ultimately show ?thesis by (simp add: lib_strlen_memory)
qed

lemma lib_strlen_reaches: "s (n + k) = 0 \<Longrightarrow> \<exists>l. lib_strlen s n = Some l"
proof (induction k arbitrary: n)
  case (Suc k)
  from Suc.IH [of "n + 1"] Suc.prems show ?case by (subst lib_strlen.simps) simp
qed (subst lib_strlen.simps; simp)

text \<open>Every string a conversion hands on ends: in memory by assumption, in \<open>numbuf\<close> by its null.\<close>

lemma conversion_ends:
  assumes "strings_end m" "format_conversion c precision va k = Some (Print d numeric negative, k')"
  shows "\<exists>n. lib_strlen (data_byte m d) 0 = Some n"
proof -
  have nb: "\<exists>n. lib_strlen (data_byte m d) 0 = Some n"
    if num: "number val base digits precision neg = Some (Print d numeric negative)"
      and b: "base = 10 \<or> base = 16" "digits = upper_digits \<or> digits = lower_digits" for val base digits neg
  proof -
    from fill_numbuf_spells [OF b, of "\<lambda>_. 0" val precision]
    obtain buf i where "fill_numbuf (\<lambda>_. 0) 20 val base digits precision = Some (buf, i)" "i \<le> 19" "buf 19 = 0"
      by blast
    with num have "data_byte m d (0 + nat (19 - i)) = 0" by (auto simp: number_def data_byte_def)
    then show ?thesis by (rule lib_strlen_reaches)
  qed
  have ch: "\<exists>n. lib_strlen (data_byte m d) 0 = Some n" if "numbuf_char x = Print d numeric negative" for x
    by (rule lib_strlen_reaches [of _ _ 1]) (use that in \<open>auto simp: numbuf_char_def data_byte_def\<close>)
  show ?thesis
    using assms(2) strings_end_strlen [OF assms(1)] nb ch
    unfolding format_conversion_def Let_def
    by (auto split: if_splits simp del: of_int_minus)
qed

lemma conversion_Some: "\<exists>r. format_conversion c precision va k = Some r"
proof -
  have "\<exists>r. number val base digits precision neg = Some r"
    if b: "base = 10 \<or> base = 16" "digits = upper_digits \<or> digits = lower_digits" for val base digits neg
    using fill_numbuf_spells [OF b, of "\<lambda>_. 0" val precision] by (auto simp: number_def)
  then show ?thesis
    unfolding format_conversion_def Let_def by auto
qed

lemma format_item_Some:
  assumes "strings_end m" shows "\<exists>r. format_item m c color fmt va k = Some r"
proof -
  obtain f1 flags where f1: "format_flags fmt 0 = (f1, flags)" by fastforce
  obtain f2 width k2 where f2: "format_width f1 va k = (f2, width, k2)" by (metis prod_cases3)
  obtain f3 precision k3 where f3: "format_precision f2 va k2 = (f3, precision, k3)" by (metis prod_cases3)
  obtain cv k4 where cv: "format_conversion (case f3 of [] \<Rightarrow> 0 | c # _ \<Rightarrow> c) precision va k3 = Some (cv, k4)"
    using conversion_Some by (metis surj_pair)
  show ?thesis
  proof (cases cv)
    case (Color x)
    with cv show ?thesis by (simp add: format_item_def f1 f2 f3)
  next
    case (Print d numeric negative)
    with conversion_ends [OF assms cv [unfolded Print]]
    have "\<exists>r. print_field m c color flags width precision d numeric negative = Some r"
      unfolding print_field_def by (cases "precision \<ge> 0") (simp_all only: if_True if_False option.map ex_simps simp_thms, blast+)
    with cv Print show ?thesis by (auto simp: format_item_def f1 f2 f3)
  qed
qed

lemma console_printf_confined_run:
  assumes "in_console c" "strings_end m"
  shows "\<exists>m' c'. console_printf m c color fmt va = Some (m', c') \<and> in_console c' \<and> console_only m m'"
proof -
  have "\<exists>r. console_vprintf m c color fmt va k = Some r \<and> confined m r" for k
    using assms
  proof (induction m c color fmt va k rule: console_vprintf.induct)
    case (1 m c color va k)
    then show ?case by (simp add: confined_refl)
  next
    case (2 m c color ch fmt va k)
    show ?case
    proof (cases "ch = 0x25")
      case True
      obtain m' c' color' rest k' where fi: "format_item m c color fmt va k = Some ((m', c'), color', rest, k')"
        using format_item_Some [OF 2(4), of c color fmt va k] by (metis surj_pair)
      have conf: "confined m (m', c')" by (rule format_item_confined [OF 2(3) fi])
      have "\<exists>r. console_vprintf m' c' color' rest va k' = Some r \<and> confined m' r"
        by (rule 2(2) [OF _ fi refl refl refl refl]) (use True conf 2(4) in \<open>auto intro: confined_in strings_end_confined\<close>)
      with True fi conf show ?thesis by (auto intro: confined_trans)
    next
      case False
      obtain m' c' where pc: "console_putc m c ch color = (m', c')" by fastforce
      then have conf: "confined m (m', c')" using console_putc_confined [OF 2(3), of m ch color] by simp
      have "\<exists>r. console_vprintf m' c' color fmt va k = Some r \<and> confined m' r"
        by (rule 2(1) [OF False pc [symmetric] refl]) (use conf 2(4) in \<open>auto intro: confined_in strings_end_confined\<close>)
      with False pc conf show ?thesis by (auto intro: confined_trans)
    qed
  qed
  from this [of 0] show ?thesis by (auto simp: console_printf_def confined_def)
qed

text \<open>
  C36 Printing with any format, arguments, widths and precisions returns, leaves the
  cursor on the console, and changes no byte outside the console, provided the strings
  in memory are null-terminated.
\<close>

theorem console_printf_confined:
  assumes "in_console c" "strings_end m"
  shows "\<exists>m' c'. console_printf m c color fmt va = Some (m', c') \<and> in_console c' \<and> console_only m m'"
  by (rule console_printf_confined_run [OF assms])

theorem console_printf_confined_witness:
  "in_console CONSOLE_BEGIN \<and> strings_end (\<lambda>_. 0)
    \<and> (\<exists>m' c'. console_printf (\<lambda>_. 0) CONSOLE_BEGIN 0x700 [0x25, 0x64, 0x0A] (\<lambda>_. 7) = Some (m', c') \<and> in_console c')"
proof -
  have "in_console CONSOLE_BEGIN" "strings_end (\<lambda>_. 0)"
    by (auto simp: in_console_def strings_end_def console_bounds)
  with console_printf_confined [OF this, of "0x700" "[0x25, 0x64, 0x0A]" "\<lambda>_. 7"] show ?thesis by blast
qed

end
