(* ===== verification/Weensy_Machine.thy ===== *)
theory Weensy_Machine
  imports Weensy_Lib "HOL-Library.Signed_Division"
begin

text \<open>
  What the two WeensyOS kernels share: registers (x86.h), process descriptors, the console
  and keyboard of mpos-x86.c, the program loader (mpos-loader.c), and the loop that looks
  for the next process.
\<close>

section \<open>Registers and processes\<close>

record registers =
  reg_edi :: u32
  reg_esi :: u32
  reg_ebp :: u32
  reg_original_esp :: u32
  reg_ebx :: u32
  reg_edx :: u32
  reg_ecx :: u32
  reg_eax :: u32
  reg_es :: u16
  reg_padding1 :: u16
  reg_ds :: u16
  reg_padding2 :: u16
  reg_intno :: u32
  reg_err :: u32
  reg_eip :: u32
  reg_cs :: u16
  reg_padding3 :: u16
  reg_eflags :: u32
  reg_esp :: u32
  reg_ss :: u16
  reg_padding4 :: u16

definition zero_registers :: registers where
  "zero_registers = \<lparr>reg_edi = 0, reg_esi = 0, reg_ebp = 0, reg_original_esp = 0, reg_ebx = 0,
     reg_edx = 0, reg_ecx = 0, reg_eax = 0, reg_es = 0, reg_padding1 = 0, reg_ds = 0,
     reg_padding2 = 0, reg_intno = 0, reg_err = 0, reg_eip = 0, reg_cs = 0, reg_padding3 = 0,
     reg_eflags = 0, reg_esp = 0, reg_ss = 0, reg_padding4 = 0\<rparr>"

datatype procstate = P_EMPTY | P_RUNNABLE | P_BLOCKED | P_ZOMBIE

text \<open>
  The four members both kernels' process descriptors begin with; each kernel extends the
  record by its own.  A process table is a function from the index, so that an index
  outside the table would read the memory around it, not a default.  \<open>current\<close> is a
  pointer into the table and is given by its index.
\<close>

record process =
  p_pid :: int
  p_registers :: registers
  p_state :: procstate
  p_exit_status :: u32

record 'p kernel =
  proc_array :: "int \<Rightarrow> 'p"
  current :: int
  memory :: mem
  cursorpos :: nat

definition upd_proc :: "int \<Rightarrow> ('p \<Rightarrow> 'p) \<Rightarrow> ('p, 'z) kernel_scheme \<Rightarrow> ('p, 'z) kernel_scheme" where
  "upd_proc i f k = k\<lparr>proc_array := (proc_array k)(i := f (proc_array k i))\<rparr>"

lemma upd_proc_simps [simp]:
  "proc_array (upd_proc i f k) = (proc_array k)(i := f (proc_array k i))"
  "current (upd_proc i f k) = current k" "memory (upd_proc i f k) = memory k"
  "cursorpos (upd_proc i f k) = cursorpos k"
  by (simp_all add: upd_proc_def)

text \<open>
  How a kernel entry ends: it never returns, it hands the processor to a process (\<open>Run\<close>,
  by \<open>run\<close>), or stays in a loop without effect (\<open>Spin\<close>), or in a loop that goes on
  changing the state (\<open>Forever\<close>).
\<close>

datatype 'k outcome = Run 'k | Spin 'k | Forever

definition run :: "int \<Rightarrow> ('p, 'z) kernel_scheme \<Rightarrow> ('p, 'z) kernel_scheme outcome" where
  "run p k = Run (k\<lparr>current := p\<rparr>)"

definition set_eax :: "u32 \<Rightarrow> 'z process_scheme \<Rightarrow> 'z process_scheme" where
  "set_eax v = p_registers_update (reg_eax_update (\<lambda>_. v))"

section \<open>Processor and console set-up\<close>

definition SEGSEL_APP_CODE :: u16 where "SEGSEL_APP_CODE = 0x18"
definition SEGSEL_APP_DATA :: u16 where "SEGSEL_APP_DATA = 0x20"

definition special_registers_init :: "registers" where
  "special_registers_init = zero_registers\<lparr>reg_cs := SEGSEL_APP_CODE OR 3, reg_ds := SEGSEL_APP_DATA OR 3,
     reg_es := SEGSEL_APP_DATA OR 3, reg_ss := SEGSEL_APP_DATA OR 3\<rparr>"

text \<open>The screen is filled with blanks; the writes to the display's ports are listed.\<close>

definition console_clear :: "mem \<Rightarrow> mem \<times> nat \<times> (nat \<times> nat) list" where
  "console_clear m = (fst (blank_cells m CONSOLE_BEGIN 0x0700 (80 * 25)), CONSOLE_BEGIN,
     [(0x3D4, 14), (0x3D5, 0 div 256), (0x3D4, 15), (0x3D5, 0 mod 256)])"

text \<open>
  \<open>console_read_digit\<close>, given what the status port and the data port read: the scan
  codes of the digit row and of the keypad.
\<close>

definition console_read_digit :: "u8 \<Rightarrow> u8 \<Rightarrow> int" where
  "console_read_digit status data =
     (if status AND 0x01 = 0 then -1
      else if data \<ge> 0x02 \<and> data \<le> 0x0A then int (unat data) - 0x02 + 1
      else if data = 0x0B then 0
      else if data \<ge> 0x47 \<and> data \<le> 0x49 then int (unat data) - 0x47 + 7
      else if data \<ge> 0x4B \<and> data \<le> 0x4D then int (unat data) - 0x4B + 4
      else if data \<ge> 0x4F \<and> data \<le> 0x51 then int (unat data) - 0x4F + 1
      else if data = 0x53 then 0
      else -1)"

lemma console_read_digit_range: "console_read_digit status data \<in> {-1..9}"
  by (auto simp: console_read_digit_def word_le_def)

section \<open>The program loader\<close>

record Elf =
  e_magic :: u32
  e_elf :: "u8 list"
  e_type :: u16
  e_machine :: u16
  e_version :: u32
  e_entry :: u32
  e_phoff :: u32
  e_shoff :: u32
  e_flags :: u32
  e_ehsize :: u16
  e_phentsize :: u16
  e_phnum :: u16
  e_shentsize :: u16
  e_shnum :: u16
  e_shstrndx :: u16

text \<open>The file header and a program header as the structures lie in memory.\<close>

definition elf_at :: "mem \<Rightarrow> nat \<Rightarrow> Elf" where
  "elf_at m a = \<lparr>e_magic = get32 m a, e_elf = mem_read m (a + 4) 12, e_type = get16 m (a + 16),
     e_machine = get16 m (a + 18), e_version = get32 m (a + 20), e_entry = get32 m (a + 24),
     e_phoff = get32 m (a + 28), e_shoff = get32 m (a + 32), e_flags = get32 m (a + 36),
     e_ehsize = get16 m (a + 40), e_phentsize = get16 m (a + 42), e_phnum = get16 m (a + 44),
     e_shentsize = get16 m (a + 46), e_shnum = get16 m (a + 48), e_shstrndx = get16 m (a + 50)\<rparr>"

record Proghdr =
  p_type :: u32
  p_offset :: u32
  p_va :: u32
  p_pa :: u32
  p_filesz :: u32
  p_memsz :: u32
  p_flags :: u32
  p_align :: u32

definition proghdr_at :: "mem \<Rightarrow> nat \<Rightarrow> Proghdr" where
  "proghdr_at m a = \<lparr>p_type = get32 m a, p_offset = get32 m (a + 4), p_va = get32 m (a + 8),
     p_pa = get32 m (a + 12), p_filesz = get32 m (a + 16), p_memsz = get32 m (a + 20),
     p_flags = get32 m (a + 24), p_align = get32 m (a + 28)\<rparr>"

definition ELF_MAGIC :: u32 where "ELF_MAGIC = 0x464C457F"
definition ELF_PROG_LOAD :: u32 where "ELF_PROG_LOAD = 1"
definition PAGESIZE :: u32 where "PAGESIZE = 4096"

lemma unat_below_Suc: "a < b \<Longrightarrow> unat (a + 1 :: u32) = unat a + 1"
proof -
  assume "a < b"
  then have "unat a + unat (1 :: u32) < 2 ^ 32"
    using unsigned_less [of b, where ?'a = nat] by (simp add: word_less_nat_alt)
  then show ?thesis using unat_add_lem [of a 1] by simp
qed

function clear_bss :: "mem \<Rightarrow> u32 \<Rightarrow> u32 \<Rightarrow> mem" where
  "clear_bss m end_va memsz =
     (if end_va < memsz then clear_bss (m(unat end_va := 0)) (end_va + 1) memsz else m)"
  by pat_completeness auto
termination
proof (relation "measure (\<lambda>(_, end_va, memsz). unat memsz - unat end_va)")
  fix m :: mem and end_va memsz :: u32
  assume "end_va < memsz"
  then have "unat (end_va + 1) = unat end_va + 1" by (rule unat_below_Suc)
  with \<open>end_va < memsz\<close>
  show "((m(unat end_va := 0), end_va + 1, memsz), m, end_va, memsz)
      \<in> measure (\<lambda>(_, end_va, memsz). unat memsz - unat end_va)"
    by (simp add: word_less_nat_alt)
qed simp

declare clear_bss.simps [simp del]

definition copyseg :: "mem \<Rightarrow> u32 \<Rightarrow> nat \<Rightarrow> u32 \<Rightarrow> u32 \<Rightarrow> mem" where
  "copyseg m dst src filesz memsz =
     (let va = dst;
          end_va = va + filesz;
          memsz = memsz + va;
          va = va AND NOT (PAGESIZE - 1);
          m = memcpy m (unat va) src (end_va - va)
      in clear_bss m end_va memsz)"

text \<open>The loop over the program headers: \<open>n\<close> headers from address \<open>ph\<close> on.\<close>

primrec load_segments :: "mem \<Rightarrow> nat \<Rightarrow> nat \<Rightarrow> nat \<Rightarrow> mem" where
  "load_segments m elf_header ph 0 = m"
| "load_segments m elf_header ph (Suc n) =
     (let h = proghdr_at m ph;
          m = (if p_type h = ELF_PROG_LOAD
               then copyseg m (p_va h) (elf_header + unat (p_offset h)) (p_filesz h) (p_memsz h)
               else m)
      in load_segments m elf_header (ph + 32) n)"

text \<open>
  \<open>loader_panic\<close> shows an exclamation mark and stays in a loop.  The images (\<open>begin\<close>
  of each \<open>ramimages\<close> entry) are placed by the linker.
\<close>

definition loader_panic :: "mem \<Rightarrow> mem" where
  "loader_panic m = put16 m 0xB8000 (0x21 OR 0x700)"

definition program_loader :: "nat list \<Rightarrow> mem \<Rightarrow> int \<Rightarrow> mem + (mem \<times> u32)" where
  "program_loader ramimages m program_id =
     (if program_id < 0 \<or> program_id \<ge> int (length ramimages) then Inl (loader_panic m)
      else let elf_header = ramimages ! nat program_id
        in if e_magic (elf_at m elf_header) \<noteq> ELF_MAGIC then Inl (loader_panic m)
           else let e = elf_at m elf_header;
                    m = load_segments m elf_header (elf_header + unat (e_phoff e)) (unat (e_phnum e))
             in Inr (m, e_entry (elf_at m elf_header)))"

lemma clear_bss_fill:
  "clear_bss m end_va memsz = mem_fill m (unat end_va) 0 (unat memsz - unat end_va)"
proof (induction m end_va memsz rule: clear_bss.induct)
  case (1 m end_va memsz)
  show ?case
  proof (cases "end_va < memsz")
    case True
    then have u: "unat (end_va + 1) = unat end_va + 1" by (rule unat_below_Suc)
    from True have "unat end_va < unat memsz" by (simp add: word_less_nat_alt)
    then show ?thesis
      unfolding clear_bss.simps [of m end_va memsz] 1 [OF True]
      using True by (auto simp: u mem_fill_def fun_eq_iff)
  next
    case False
    then show ?thesis by (subst clear_bss.simps) (auto simp: mem_fill_def word_less_nat_alt fun_eq_iff)
  qed
qed

text \<open>
  For a page-aligned segment that does not wrap around the address space and lies apart
  from its source, the loader does what its comment says: the file's bytes, then zeros.
\<close>

lemma copyseg_loads:
  assumes "va AND NOT (PAGESIZE - 1) = va" "filesz \<le> memsz" "unat va + unat memsz < 2 ^ 32"
    and "src + unat filesz \<le> unat va \<or> unat va \<le> src"
  shows "copyseg m va src filesz memsz =
    mem_fill (mem_write m (unat va) (mem_read m src (unat filesz)))
      (unat va + unat filesz) 0 (unat memsz - unat filesz)"
proof -
  have f: "unat filesz \<le> unat memsz" using assms(2) by (simp add: word_le_nat_alt)
  have 1: "unat (va + filesz) = unat va + unat filesz"
    using assms(3) f by (intro unat_add_lem [THEN iffD1]) simp
  have 2: "unat (memsz + va) = unat memsz + unat va"
    using assms(3) by (intro unat_add_lem [THEN iffD1]) simp
  show ?thesis
    using assms(4) by (simp add: copyseg_def Let_def assms(1) clear_bss_fill memcpy_writes 1 2)
qed

text \<open>
  For an unaligned segment it does not: the copy starts at the page boundary below the
  segment, so the first byte of the file lands there and not at the segment's address.
\<close>

lemma copyseg_unaligned:
  assumes "unat va = page + off" "unat (va AND NOT (PAGESIZE - 1)) = page" "0 < off"
    and "unat va + unat filesz < 2 ^ 32" "memsz = filesz"
    and "unat va + unat filesz \<le> src"
  shows "copyseg m va src filesz memsz
    = mem_write m page (mem_read m src (off + unat filesz))"
proof -
  have 1: "unat (va + filesz) = unat va + unat filesz"
    using assms(4) by (intro unat_add_lem [THEN iffD1]) simp
  have "unat (va + filesz - (va AND NOT (PAGESIZE - 1))) = unat (va + filesz) - page"
    using assms(1,2) 1 by (subst unat_sub) (simp_all add: word_le_nat_alt)
  then have 2: "unat (va + filesz - (va AND NOT (PAGESIZE - 1))) = off + unat filesz"
    using 1 assms(1) by simp
  have "src + unat (va + filesz - (va AND NOT (PAGESIZE - 1))) \<le> unat (va AND NOT (PAGESIZE - 1))
      \<or> unat (va AND NOT (PAGESIZE - 1)) \<le> src"
    using assms(1,6) by (simp add: assms(2))
  note mc = memcpy_writes [OF this]
  have "unat (filesz + va) - unat (va + filesz) = 0" by (simp add: add.commute)
  then show ?thesis
    unfolding copyseg_def Let_def clear_bss_fill assms(5) add.commute [of filesz va] mc
    unfolding 2 assms(2) by (auto simp: mem_fill_def fun_eq_iff)
qed

section \<open>The search for the next process\<close>

text \<open>
  \<open>while (1) { pid = (pid + 1) % NPROCS; if (...) run(&proc_array[pid]); }\<close>: the loop both
  kernels schedule with.  It does not end when no process passes the test.
\<close>

partial_function (option) next_pid :: "int \<Rightarrow> (int \<Rightarrow> bool) \<Rightarrow> int \<Rightarrow> int option" where
  "next_pid nprocs ok pid =
     (let pid = (pid + 1) smod nprocs in if ok pid then Some pid else next_pid nprocs ok pid)"

text \<open>How many steps after \<open>from\<close> the search looks at \<open>pid\<close>, from 1 to \<open>nprocs\<close>.\<close>

definition turn :: "int \<Rightarrow> int \<Rightarrow> int \<Rightarrow> int" where
  "turn nprocs start pid = (pid - start - 1) mod nprocs + 1"

lemma smod_mod: "0 \<le> a \<Longrightarrow> 0 < n \<Longrightarrow> (a :: int) smod n = a mod n"
  by (auto simp: signed_modulo_int_def sgn_if)

lemma next_pid_ok: "next_pid n ok pid = Some p \<Longrightarrow> ok p"
proof (rule next_pid.raw_induct [where P = "\<lambda>n ok pid p. ok p"])
  fix f :: "int \<Rightarrow> (int \<Rightarrow> bool) \<Rightarrow> int \<Rightarrow> int option" and n ok pid p
  assume "\<And>n ok pid p. f n ok pid = Some p \<Longrightarrow> ok p"
    and "(let pid = (pid + 1) smod n in if ok pid then Some pid else f n ok pid) = Some p"
  then show "ok p" by (auto simp: Let_def split: if_splits)
qed

lemma next_pid_least:
  assumes "0 < n" "0 \<le> pid" "ok ((pid + 1 + int d) mod n)" "\<forall>e<d. \<not> ok ((pid + 1 + int e) mod n)"
  shows "next_pid n ok pid = Some ((pid + 1 + int d) mod n)"
  using assms(2-4)
proof (induction d arbitrary: pid)
  case 0
  have "0 \<le> pid + 1" using 0(1) by linarith
  from smod_mod [OF this assms(1)] have e: "(pid + 1) smod n = (pid + 1) mod n" .
  have "ok ((pid + 1) mod n)" using 0(2) by (simp only: semiring_1_class.of_nat_0 add_0_right)
  moreover have "(pid + 1 + int 0) mod n = (pid + 1) mod n" by (simp only: semiring_1_class.of_nat_0 add_0_right)
  ultimately show ?case
    unfolding next_pid.simps [of n ok pid] Let_def e by (simp only: if_True)
next
  case (Suc d)
  let ?p = "(pid + 1) mod n"
  have 1: "\<not> ok ?p" using Suc.prems(3) by (metis add_0_right semiring_1_class.of_nat_0 zero_less_Suc)
  have shift: "(?p + 1 + int e) mod n = (pid + 1 + int (Suc e)) mod n" for e
    using mod_add_left_eq [of "pid + 1" n "1 + int e"] by (simp add: add.assoc)
  have "next_pid n ok ?p = Some ((?p + 1 + int d) mod n)"
  proof (rule Suc.IH)
    show "0 \<le> ?p" using assms(1) by simp
    show "ok ((?p + 1 + int d) mod n)" unfolding shift by (rule Suc.prems(2))
    show "\<forall>e<d. \<not> ok ((?p + 1 + int e) mod n)"
    proof (intro allI impI)
      fix e assume "e < d"
      then have "Suc e < Suc d" by simp
      with Suc.prems(3) show "\<not> ok ((?p + 1 + int e) mod n)" unfolding shift by blast
    qed
  qed
  moreover have "next_pid n ok pid = next_pid n ok ?p"
    unfolding next_pid.simps [of n ok pid] Let_def using smod_mod [of "pid + 1" n] Suc.prems(1) assms(1) 1 by simp
  ultimately show ?case unfolding shift by simp
qed

lemma next_pid_first:
  assumes "0 < n" "0 \<le> pid" "0 \<le> q" "q < n" "ok q"
  obtains p where "next_pid n ok pid = Some p" "ok p" "0 \<le> p" "p < n"
    "\<And>r. 0 \<le> r \<Longrightarrow> r < n \<Longrightarrow> ok r \<Longrightarrow> turn n pid p \<le> turn n pid r"
proof -
  have reach: "(pid + 1 + int (nat (turn n pid r - 1))) mod n = r" if "0 \<le> r" "r < n" for r
  proof -
    have "0 \<le> (r - pid - 1) mod n" using assms(1) by simp
    then have "(pid + 1 + int (nat (turn n pid r - 1))) mod n = (pid + 1 + (r - pid - 1) mod n) mod n"
      by (simp add: turn_def)
    also have "\<dots> = r mod n" by (metis (no_types, opaque_lifting) mod_add_right_eq diff_diff_eq add_diff_cancel_left' diff_add_cancel add.commute)
    finally show ?thesis using that by simp
  qed
  define d where "d = (LEAST d. ok ((pid + 1 + int d) mod n))"
  have "ok ((pid + 1 + int (nat (turn n pid q - 1))) mod n)" using reach [OF assms(3,4)] assms(5) by simp
  then have okd: "ok ((pid + 1 + int d) mod n)" unfolding d_def by (rule LeastI)
  have least: "\<And>e. ok ((pid + 1 + int e) mod n) \<Longrightarrow> d \<le> e" unfolding d_def by (rule Least_le)
  let ?p = "(pid + 1 + int d) mod n"
  have p: "0 \<le> ?p" "?p < n" using assms(1) by auto
  have "next_pid n ok pid = Some ?p"
    by (rule next_pid_least [where d = d]) (use assms(1,2) okd in simp_all, use least in \<open>auto simp: not_le [symmetric]\<close>)
  moreover have "turn n pid ?p \<le> turn n pid r" if r: "0 \<le> r" "r < n" "ok r" for r
  proof -
    have "d \<le> nat (turn n pid r - 1)" by (rule least, subst reach [OF r(1,2)], rule r(3))
    moreover have "turn n pid r \<ge> 1" using assms(1) by (simp add: turn_def)
    ultimately have "int d + 1 \<le> turn n pid r" by linarith
    moreover have "turn n pid ?p = int d mod n + 1"
    proof -
      have "(?p - pid - 1) mod n = ((pid + 1 + int d) - pid - 1) mod n" by (simp only: mod_simps diff_diff_eq)
      then show ?thesis by (simp add: turn_def)
    qed
    moreover have "int d mod n \<le> int d" by (simp add: zmod_le_nonneg_dividend)
    ultimately show ?thesis by linarith
  qed
  ultimately show thesis using that okd p by blast
qed

lemma next_pid_None:
  assumes "0 < n" "\<And>p. 0 \<le> p \<Longrightarrow> p < n \<Longrightarrow> \<not> ok p" "0 \<le> pid"
  shows "next_pid n ok pid = None"
proof (cases "next_pid n ok pid")
  case (Some p)
  then have "0 \<le> pid \<longrightarrow> 0 < n \<longrightarrow> 0 \<le> p \<and> p < n \<and> ok p"
  proof (rule next_pid.raw_induct [where P = "\<lambda>n ok pid p. 0 \<le> pid \<longrightarrow> 0 < n \<longrightarrow> 0 \<le> p \<and> p < n \<and> ok p", rotated])
    fix f :: "int \<Rightarrow> (int \<Rightarrow> bool) \<Rightarrow> int \<Rightarrow> int option" and n ok pid p
    assume IH: "\<And>n ok pid p. f n ok pid = Some p \<Longrightarrow> 0 \<le> pid \<longrightarrow> 0 < n \<longrightarrow> 0 \<le> p \<and> p < n \<and> ok p"
      and eq: "(let pid = (pid + 1) smod n in if ok pid then Some pid else f n ok pid) = Some p"
    show "0 \<le> pid \<longrightarrow> 0 < n \<longrightarrow> 0 \<le> p \<and> p < n \<and> ok p"
    proof (intro impI)
      assume "0 \<le> pid" "0 < n"
      then have "(pid + 1) smod n = (pid + 1) mod n" "0 \<le> (pid + 1) mod n" "(pid + 1) mod n < n"
        by (simp_all add: smod_mod)
      with eq IH [of n ok "(pid + 1) mod n" p] \<open>0 < n\<close> show "0 \<le> p \<and> p < n \<and> ok p"
        by (auto simp: Let_def split: if_splits)
    qed
  qed
  with assms show ?thesis by blast
qed

lemma turn_range: "0 < n \<Longrightarrow> 1 \<le> turn n s p \<and> turn n s p \<le> n"
  using pos_mod_bound [of n "p - s - 1"] pos_mod_sign [of n "p - s - 1"] unfolding turn_def by linarith

lemma turn_inj:
  assumes "0 \<le> p" "p < n" "0 \<le> q" "q < n" "turn n s p = turn n s q" shows "p = q"
proof -
  have "(p - s - 1) mod n = (q - s - 1) mod n" using assms(5) by (simp add: turn_def)
  then have "n dvd (p - s - 1) - (q - s - 1)" by (rule mod_eq_dvd_iff [THEN iffD1])
  then have "n dvd p - q" by simp
  moreover have "\<bar>p - q\<bar> < n" using assms by linarith
  ultimately show ?thesis using zdvd_imp_le [of n "\<bar>p - q\<bar>"] by fastforce
qed

end
