(* ===== verification/Mpos_Kernel.thy ===== *)
theory Mpos_Kernel
  imports Weensy_Machine
begin

text \<open>
  The kernel of MiniprocOS (weensyos1/mpos-kern.c).  A call of \<open>run\<close> or \<open>schedule\<close> does
  not return in C, so the functions that end in one return the outcome of the whole
  kernel entry.
\<close>

definition NPROCS :: int where "NPROCS = 16"
definition PROC1_STACK_ADDR :: int where "PROC1_STACK_ADDR = 0x280000"
definition PROC_STACK_SIZE :: int where "PROC_STACK_SIZE = 0x040000"

record mpos_process = process +
  p_wait :: int

type_synonym mpos_kernel = "mpos_process kernel"

section \<open>Scheduling\<close>

definition mpos_schedule :: "mpos_kernel \<Rightarrow> mpos_kernel outcome" where
  "mpos_schedule k =
     (case next_pid NPROCS (\<lambda>pid. p_state (proc_array k pid) = P_RUNNABLE)
             (p_pid (proc_array k (current k))) of
        None \<Rightarrow> Spin k
      | Some pid \<Rightarrow> run pid k)"

section \<open>New processes\<close>

text \<open>\<open>for (i; i < NPROCS; i++)\<close> from 1 on: the first empty descriptor.\<close>

definition find_empty :: "mpos_kernel \<Rightarrow> int option" where
  "find_empty k = List.find (\<lambda>i. p_state (proc_array k i) = P_EMPTY) [1..NPROCS - 1]"

text \<open>The address above the stack of process \<open>pid\<close>, in 32 bits.\<close>

definition stack_top :: "int \<Rightarrow> u32" where
  "stack_top pid = word_of_int (PROC1_STACK_ADDR + pid * PROC_STACK_SIZE)"

definition do_thread :: "mpos_kernel \<Rightarrow> int \<Rightarrow> mpos_kernel \<times> u32" where
  "do_thread k parent =
     (case find_empty k of
        None \<Rightarrow> (k, -1)
      | Some child \<Rightarrow>
          let k = upd_proc child (p_state_update (\<lambda>_. P_RUNNABLE)) k;
              k = upd_proc child (p_registers_update (\<lambda>_. p_registers (proc_array k parent))) k;
              k = upd_proc child (p_registers_update
                    (reg_eip_update (\<lambda>_. reg_eax (p_registers (proc_array k parent))))) k;
              k = upd_proc child (p_registers_update
                    (reg_esp_update (\<lambda>_. stack_top (p_pid (proc_array k child))))) k;
              k = upd_proc child (p_exit_status_update (\<lambda>_. 0)) k;
              k = upd_proc child (set_eax 0) k
          in (k, word_of_int (p_pid (proc_array k child))))"

text \<open>The call of \<open>memcpy\<close> is given the tops of the two stacks as the addresses.\<close>

definition copy_stack :: "mpos_kernel \<Rightarrow> int \<Rightarrow> int \<Rightarrow> mpos_kernel" where
  "copy_stack k dest src =
     (let src_stack_top = stack_top (p_pid (proc_array k src));
          src_stack_bottom = reg_esp (p_registers (proc_array k src));
          dest_stack_top = stack_top (p_pid (proc_array k dest));
          dest_stack_bottom = dest_stack_top + (src_stack_bottom - src_stack_top);
          k = k\<lparr>memory := memcpy (memory k) (unat dest_stack_top) (unat src_stack_top)
                            (src_stack_top - src_stack_bottom)\<rparr>
      in upd_proc dest (p_registers_update (reg_esp_update (\<lambda>_. dest_stack_bottom))) k)"

definition do_fork :: "mpos_kernel \<Rightarrow> int \<Rightarrow> mpos_kernel \<times> u32" where
  "do_fork k parent =
     (case find_empty k of
        None \<Rightarrow> (k, -1)
      | Some child \<Rightarrow>
          let k = upd_proc child (p_state_update (\<lambda>_. P_RUNNABLE)) k;
              k = upd_proc child (p_registers_update (\<lambda>_. p_registers (proc_array k parent))) k;
              k = upd_proc child (p_exit_status_update (\<lambda>_. 0)) k;
              k = copy_stack k child parent;
              k = upd_proc child (set_eax 0) k
          in (k, word_of_int (p_pid (proc_array k child))))"

section \<open>Ending processes\<close>

text \<open>
  The lines \<open>INT_SYS_EXIT\<close> and \<open>do_kill\<close> share: the process waiting for \<open>p\<close> is made
  runnable with the exit status in \<open>eax\<close>, the descriptor of \<open>p\<close> is emptied, and the
  waiting process runs.
\<close>

definition wake_waiter :: "mpos_kernel \<Rightarrow> int \<Rightarrow> mpos_kernel outcome" where
  "wake_waiter k p =
     (let w = p_wait (proc_array k p);
          k = upd_proc w (p_state_update (\<lambda>_. P_RUNNABLE)) k;
          k = upd_proc w (set_eax (p_exit_status (proc_array k p))) k;
          k = upd_proc p (p_state_update (\<lambda>_. P_EMPTY)) k
      in run (p_wait (proc_array k p)) k)"

definition do_exit :: "mpos_kernel \<Rightarrow> mpos_kernel outcome" where
  "do_exit k =
     (let c = current k;
          k = upd_proc c (p_state_update (\<lambda>_. P_ZOMBIE)) k;
          k = upd_proc c (p_exit_status_update (\<lambda>_. reg_eax (p_registers (proc_array k c)))) k
      in if p_wait (proc_array k c) \<noteq> 0 then wake_waiter k c else mpos_schedule k)"

text \<open>
  \<open>do_kill\<close> never comes back to its caller: every path ends in \<open>schedule\<close> or \<open>run\<close>.
\<close>

definition do_kill :: "mpos_kernel \<Rightarrow> int \<Rightarrow> mpos_kernel outcome" where
  "do_kill k caller =
     (let p = sint (reg_eax (p_registers (proc_array k caller)))
      in if p \<le> 0 \<or> p \<ge> NPROCS \<or> p_state (proc_array k p) = P_EMPTY then mpos_schedule k
         else let k = upd_proc p (p_state_update (\<lambda>_. P_ZOMBIE)) k;
                  k = upd_proc p (p_exit_status_update (\<lambda>_. -1)) k
           in if p_wait (proc_array k p) \<noteq> 0 then wake_waiter k p else mpos_schedule k)"

text \<open>
  \<open>sys_wait\<close>.  The line that should empty the descriptor of a zombie compares where it
  should assign, and so has no effect.
\<close>

definition do_wait :: "mpos_kernel \<Rightarrow> mpos_kernel outcome" where
  "do_wait k =
     (let c = current k;
          p = sint (reg_eax (p_registers (proc_array k c)));
          k = (if p \<le> 0 \<or> p \<ge> NPROCS \<or> p = p_pid (proc_array k c) \<or> p_state (proc_array k p) = P_EMPTY
               then upd_proc c (set_eax (-1)) k
               else if p_state (proc_array k p) = P_ZOMBIE
               then upd_proc c (set_eax (p_exit_status (proc_array k p))) k
               else let k = upd_proc c (p_state_update (\<lambda>_. P_BLOCKED)) k
                 in upd_proc p (p_wait_update (\<lambda>_. p_pid (proc_array k c))) k)
      in mpos_schedule k)"

section \<open>The interrupt handler\<close>

definition mpos_interrupt :: "registers \<Rightarrow> mpos_kernel \<Rightarrow> mpos_kernel outcome" where
  "mpos_interrupt reg k =
     (let c = current k;
          k = upd_proc c (p_registers_update (\<lambda>_. reg)) k;
          intno = reg_intno reg
      in if intno = 53 then
           (let (k, r) = do_thread k c in run c (upd_proc c (set_eax r) k))
         else if intno = 54 then do_kill k c
         else if intno = 48 then
           run c (upd_proc c (set_eax (word_of_int (p_pid (proc_array k c)))) k)
         else if intno = 49 then
           (let (k, r) = do_fork k c in run c (upd_proc c (set_eax r) k))
         else if intno = 50 then mpos_schedule k
         else if intno = 51 then do_exit k
         else if intno = 52 then do_wait k
         else Spin k)"

section \<open>Start\<close>

definition cstring :: "string \<Rightarrow> u8 list" where
  "cstring s = map (of_nat \<circ> of_char) s"

text \<open>\<open>do ... while (whichprocess != 1 && whichprocess != 2)\<close>; \<open>keys n\<close> is what the two
  keyboard ports read in round \<open>n\<close>.\<close>

partial_function (option) read_choice :: "(nat \<Rightarrow> u8 \<times> u8) \<Rightarrow> nat \<Rightarrow> int option" where
  "read_choice keys n =
     (let whichprocess = (case keys n of (status, data) \<Rightarrow> console_read_digit status data)
      in if whichprocess \<noteq> 1 \<and> whichprocess \<noteq> 2 then read_choice keys (n + 1) else Some whichprocess)"

definition empty_process :: "int \<Rightarrow> mpos_process" where
  "empty_process i = \<lparr>p_pid = i, p_registers = zero_registers, p_state = P_EMPTY, p_exit_status = 0, p_wait = 0\<rparr>"

definition start_prompt :: "u8 list" where
  "start_prompt = cstring ''Type '' @ [39, 49, 39] @ cstring '' to run mpos-app, or '' @ [39, 50, 39]
     @ cstring '' to run mpos-app2.''"

definition mpos_start :: "nat list \<Rightarrow> (nat \<Rightarrow> u8 \<times> u8) \<Rightarrow> mpos_kernel \<Rightarrow> mpos_kernel outcome" where
  "mpos_start ramimages keys k =
     (let k = k\<lparr>proc_array := \<lambda>i. if 0 \<le> i \<and> i < NPROCS then empty_process i else proc_array k i,
                current := 1\<rparr>;
          k = upd_proc 1 (p_registers_update (\<lambda>_. special_registers_init)) k;
          (m, cursor, _) = console_clear (memory k)
      in case console_printf m cursor 0x0700 start_prompt (\<lambda>_. 0) of
           None \<Rightarrow> Forever
         | Some (m, _) \<Rightarrow>
           (case read_choice keys 0 of
              None \<Rightarrow> Forever
            | Some whichprocess \<Rightarrow>
              let (m, cursor, _) = console_clear m
              in case program_loader ramimages m (whichprocess - 1) of
                   Inl m \<Rightarrow> Spin (k\<lparr>memory := m, cursorpos := cursor\<rparr>)
                 | Inr (m, entry) \<Rightarrow>
                     let k = k\<lparr>memory := m, cursorpos := cursor\<rparr>;
                         k = upd_proc 1 (p_registers_update (reg_eip_update (\<lambda>_. entry))) k;
                         k = upd_proc 1 (p_registers_update
                               (reg_esp_update (\<lambda>_. word_of_int (PROC1_STACK_ADDR + PROC_STACK_SIZE)))) k;
                         k = upd_proc 1 (p_state_update (\<lambda>_. P_RUNNABLE)) k
                     in run 1 k))"

end
