(* ===== verification/Weensy_Scheduler.thy ===== *)
theory Weensy_Scheduler
  imports Weensy_Machine
begin

text \<open>
  The contract of a process scheduler and of a round-robin scheduler, as locales; the
  kernels interpret them on their own scheduling functions.
\<close>

section \<open>The contract of a scheduler\<close>

text \<open>
  \<open>pick k\<close> is the process a scheduler hands the processor to, \<open>ready\<close> the processes it may
  choose from, and \<open>rank\<close> the order of preference: the ready process of least rank is
  picked, and nothing is picked only when nothing is ready.
\<close>

locale scheduler =
  fixes nprocs :: int
    and good :: "'k \<Rightarrow> bool"
    and ready :: "'k \<Rightarrow> int \<Rightarrow> bool"
    and rank :: "'k \<Rightarrow> int \<Rightarrow> int"
    and pick :: "'k \<Rightarrow> int option"
  assumes pick_ready: "good k \<Longrightarrow> pick k = Some p \<Longrightarrow> 0 \<le> p \<and> p < nprocs \<and> ready k p"
    and pick_first: "good k \<Longrightarrow> pick k = Some p \<Longrightarrow> 0 \<le> q \<Longrightarrow> q < nprocs \<Longrightarrow> ready k q \<Longrightarrow> rank k p \<le> rank k q"
    and pick_none: "good k \<Longrightarrow> pick k = None \<Longrightarrow> 0 \<le> q \<Longrightarrow> q < nprocs \<Longrightarrow> \<not> ready k q"
    and rank_inj: "good k \<Longrightarrow> 0 \<le> p \<Longrightarrow> p < nprocs \<Longrightarrow> 0 \<le> q \<Longrightarrow> q < nprocs \<Longrightarrow> rank k p = rank k q \<Longrightarrow> p = q"
begin

lemma pick_iff:
  assumes "good k"
  shows "pick k = Some p \<longleftrightarrow> 0 \<le> p \<and> p < nprocs \<and> ready k p
    \<and> (\<forall>q. 0 \<le> q \<and> q < nprocs \<and> ready k q \<longrightarrow> rank k p \<le> rank k q)"
proof
  assume "pick k = Some p"
  with assms pick_ready pick_first
  show "0 \<le> p \<and> p < nprocs \<and> ready k p \<and> (\<forall>q. 0 \<le> q \<and> q < nprocs \<and> ready k q \<longrightarrow> rank k p \<le> rank k q)"
    by blast
next
  assume p: "0 \<le> p \<and> p < nprocs \<and> ready k p \<and> (\<forall>q. 0 \<le> q \<and> q < nprocs \<and> ready k q \<longrightarrow> rank k p \<le> rank k q)"
  then obtain r where r: "pick k = Some r" using pick_none [OF assms, of p] by (cases "pick k") auto
  with pick_ready [OF assms r] pick_first [OF assms r, of p] p have "rank k p = rank k r" by force
  with rank_inj [OF assms, of p r] pick_ready [OF assms r] p r show "pick k = Some p" by simp
qed

lemma pick_None_iff: "good k \<Longrightarrow> pick k = None \<longleftrightarrow> (\<forall>q. 0 \<le> q \<and> q < nprocs \<longrightarrow> \<not> ready k q)"
  using pick_none pick_ready by (metis not_None_eq)

end

text \<open>
  A round-robin scheduler prefers the processes that come first after the one that has
  run last, \<open>here k\<close>.  A step runs the process picked and leaves the others as ready as
  they were.
\<close>

locale round_robin = scheduler nprocs good ready "\<lambda>k. turn nprocs (here k)" pick
  for nprocs :: int and good :: "'k \<Rightarrow> bool" and ready :: "'k \<Rightarrow> int \<Rightarrow> bool" and here :: "'k \<Rightarrow> int"
    and pick :: "'k \<Rightarrow> int option" +
  fixes step :: "'k \<Rightarrow> 'k \<Rightarrow> bool"
  assumes nprocs_pos: "0 < nprocs"
    and step_picks: "good k \<Longrightarrow> step k k' \<Longrightarrow> pick k = Some (here k')"
    and step_good: "good k \<Longrightarrow> step k k' \<Longrightarrow> good k'"
    and step_ready: "good k \<Longrightarrow> step k k' \<Longrightarrow> 0 \<le> q \<Longrightarrow> q < nprocs \<Longrightarrow> ready k' q = ready k q"
begin

lemma step_closer:
  assumes "good k" "step k k'" "0 \<le> q" "q < nprocs" "ready k q" "here k' \<noteq> q"
  shows "turn nprocs (here k') q < turn nprocs (here k) q"
proof -
  let ?h = "here k" let ?p = "here k'"
  have p: "0 \<le> ?p" "?p < nprocs" "turn nprocs ?h ?p \<le> turn nprocs ?h q"
    using pick_ready [OF assms(1) step_picks [OF assms(1,2)]]
      pick_first [OF assms(1) step_picks [OF assms(1,2)] assms(3-5)] by auto
  with turn_inj [of ?p nprocs q ?h] assms(3,4,6) have less: "turn nprocs ?h ?p < turn nprocs ?h q" by force
  have "(q - ?p - 1) mod nprocs = ((q - ?h - 1) mod nprocs - (?p - ?h - 1) mod nprocs - 1) mod nprocs"
  proof -
    have m: "(a mod n - b mod n - 1) mod n = (a - b - 1) mod n" for a b n :: int
      by (metis mod_diff_eq mod_diff_left_eq)
    have "(q - ?h - 1) - (?p - ?h - 1) - 1 = q - ?p - 1" by simp
    with m [of "q - ?h - 1" nprocs "?p - ?h - 1"] show ?thesis by simp
  qed
  also have "\<dots> = (turn nprocs ?h q - turn nprocs ?h ?p - 1) mod nprocs"
    by (simp add: turn_def)
  also have "\<dots> = turn nprocs ?h q - turn nprocs ?h ?p - 1"
    using less turn_range [OF nprocs_pos, of ?h q] turn_range [OF nprocs_pos, of ?h ?p]
    by (intro mod_pos_pos_trivial) auto
  finally have "turn nprocs ?p q = turn nprocs ?h q - turn nprocs ?h ?p" by (simp add: turn_def [of nprocs ?p q])
  then show ?thesis using turn_range [OF nprocs_pos, of ?h ?p] by linarith
qed

lemma ready_runs:
  assumes "good (ks 0)" "0 \<le> q" "q < nprocs" "ready (ks 0) q"
    and "\<forall>i < nat (turn nprocs (here (ks 0)) q). step (ks i) (ks (Suc i))"
  shows "\<exists>i. 1 \<le> i \<and> i \<le> nat (turn nprocs (here (ks 0)) q) \<and> here (ks i) = q"
  using assms
proof (induction "nat (turn nprocs (here (ks 0)) q)" arbitrary: ks rule: less_induct)
  case less
  have t: "1 \<le> turn nprocs (here (ks 0)) q" using turn_range [OF nprocs_pos] by blast
  then have s: "step (ks 0) (ks (Suc 0))" using less.prems(5) by simp
  show ?case
  proof (cases "here (ks (Suc 0)) = q")
    case True
    then show ?thesis using t by (intro exI [of _ "Suc 0"]) simp
  next
    case False
    note closer = step_closer [OF less.prems(1) s less.prems(2-4) False]
    define ks' where "ks' i = ks (Suc i)" for i
    have "\<exists>i. 1 \<le> i \<and> i \<le> nat (turn nprocs (here (ks' 0)) q) \<and> here (ks' i) = q"
    proof (rule less.hyps)
      show "nat (turn nprocs (here (ks' 0)) q) < nat (turn nprocs (here (ks 0)) q)"
        using closer t unfolding ks'_def by linarith
      show "good (ks' 0)" unfolding ks'_def by (rule step_good [OF less.prems(1) s])
      show "ready (ks' 0) q" unfolding ks'_def using step_ready [OF less.prems(1) s less.prems(2,3)] less.prems(4) by simp
      show "\<forall>i < nat (turn nprocs (here (ks' 0)) q). step (ks' i) (ks' (Suc i))"
        unfolding ks'_def using less.prems(5) closer t by auto
    qed (use less.prems in auto)
    then obtain i where "i \<le> nat (turn nprocs (here (ks' 0)) q)" "here (ks (Suc i)) = q"
      unfolding ks'_def by blast
    then show ?thesis using closer t unfolding ks'_def by (intro exI [of _ "Suc i"]) auto
  qed
qed

lemma ready_runs_in_time:
  assumes "good (ks 0)" "0 \<le> q" "q < nprocs" "ready (ks 0) q" "\<forall>i < nat nprocs. step (ks i) (ks (Suc i))"
  shows "\<exists>i. 1 \<le> i \<and> i \<le> nat nprocs \<and> here (ks i) = q"
proof -
  have t: "turn nprocs (here (ks 0)) q \<le> nprocs" using turn_range [OF nprocs_pos] by blast
  have "\<exists>i. 1 \<le> i \<and> i \<le> nat (turn nprocs (here (ks 0)) q) \<and> here (ks i) = q"
    by (rule ready_runs [of ks, OF assms(1-4)]) (use assms(5) t in auto)
  then obtain i where "1 \<le> i" "i \<le> nat (turn nprocs (here (ks 0)) q)" "here (ks i) = q" by blast
  with t show ?thesis by (intro exI [of _ i]) linarith
qed

end

end
