(* ===== verification/Mpos_Table.thy ===== *)
theory Mpos_Table
  imports Mpos_Kernel Weensy_Scheduler
begin

text \<open>
  MiniprocOS: the process table stays well-formed, and the scheduler is round robin.
\<close>

section \<open>The process table\<close>

text \<open>
  Descriptor \<open>i\<close> has process ID \<open>i\<close>, no one waits for itself, the waiting process is a
  descriptor of the table, descriptor 0 stays empty, and the process that runs is
  runnable.
\<close>

definition entry_ok :: "int \<Rightarrow> mpos_process \<Rightarrow> bool" where
  "entry_ok i e \<longleftrightarrow> p_pid e = i \<and> 0 \<le> p_wait e \<and> p_wait e < NPROCS \<and> p_wait e \<noteq> i"

definition entries_ok :: "mpos_kernel \<Rightarrow> bool" where
  "entries_ok k \<longleftrightarrow> (\<forall>i. 1 \<le> i \<and> i < NPROCS \<longrightarrow> entry_ok i (proc_array k i))
     \<and> p_state (proc_array k 0) = P_EMPTY \<and> 1 \<le> current k \<and> current k < NPROCS"

definition table_ok :: "mpos_kernel \<Rightarrow> bool" where
  "table_ok k \<longleftrightarrow> entries_ok k \<and> p_state (proc_array k (current k)) = P_RUNNABLE"

abbreviation runnable :: "mpos_kernel \<Rightarrow> int \<Rightarrow> bool" where
  "runnable k p \<equiv> p_state (proc_array k p) = P_RUNNABLE"

lemma entry_okD:
  assumes "entries_ok k" "1 \<le> i" "i < NPROCS"
  shows "p_pid (proc_array k i) = i" "0 \<le> p_wait (proc_array k i)" "p_wait (proc_array k i) < NPROCS"
    "p_wait (proc_array k i) \<noteq> i"
  using assms by (auto simp: entries_ok_def entry_ok_def)

lemma entries_okD:
  assumes "entries_ok k"
  shows "p_state (proc_array k 0) = P_EMPTY" "1 \<le> current k" "current k < NPROCS" "p_pid (proc_array k (current k)) = current k"
  using assms by (auto simp: entries_ok_def entry_ok_def)

lemma entries_ok_upd:
  assumes "entries_ok k" "1 \<le> i" "i < NPROCS" "entry_ok i (proc_array k i) \<Longrightarrow> entry_ok i (f (proc_array k i))"
  shows "entries_ok (upd_proc i f k)"
  using assms by (auto simp: entries_ok_def)

lemma entries_ok_keep [simp]:
  "1 \<le> i \<Longrightarrow> i < NPROCS \<Longrightarrow> entries_ok k \<Longrightarrow> entries_ok (upd_proc i (p_state_update g) k)"
  "1 \<le> i \<Longrightarrow> i < NPROCS \<Longrightarrow> entries_ok k \<Longrightarrow> entries_ok (upd_proc i (p_registers_update h) k)"
  "1 \<le> i \<Longrightarrow> i < NPROCS \<Longrightarrow> entries_ok k \<Longrightarrow> entries_ok (upd_proc i (p_exit_status_update e) k)"
  "1 \<le> i \<Longrightarrow> i < NPROCS \<Longrightarrow> entries_ok k \<Longrightarrow> entries_ok (upd_proc i (set_eax v) k)"
  "entries_ok k \<Longrightarrow> entries_ok (k\<lparr>memory := m\<rparr>)"
  by (auto intro!: entries_ok_upd simp: entry_ok_def set_eax_def) (auto simp: entries_ok_def)

subsection \<open>The scheduler is round robin\<close>

definition mpos_pick :: "mpos_kernel \<Rightarrow> int option" where
  "mpos_pick k = next_pid NPROCS (runnable k) (p_pid (proc_array k (current k)))"

definition yields :: "mpos_kernel \<Rightarrow> mpos_kernel \<Rightarrow> bool" where
  "yields k k' \<longleftrightarrow> (\<exists>reg. reg_intno reg = 50 \<and> mpos_interrupt reg k = Run k')"

lemma mpos_schedule_pick:
  "mpos_schedule k = (case mpos_pick k of None \<Rightarrow> Spin k | Some p \<Rightarrow> Run (k\<lparr>current := p\<rparr>))"
  by (simp add: mpos_schedule_def mpos_pick_def run_def split: option.split)

lemma mpos_pick_cases:
  assumes "entries_ok k" "0 \<le> q" "q < NPROCS" "runnable k q"
  obtains p where "mpos_pick k = Some p" "runnable k p" "0 \<le> p" "p < NPROCS"
    "\<And>r. 0 \<le> r \<Longrightarrow> r < NPROCS \<Longrightarrow> runnable k r \<Longrightarrow> turn NPROCS (current k) p \<le> turn NPROCS (current k) r"
  using next_pid_first [of NPROCS "current k" q "runnable k"] assms entries_okD [OF assms(1)]
  by (auto simp: mpos_pick_def NPROCS_def)

lemma mpos_pick_none:
  assumes "entries_ok k" "\<And>q. 0 \<le> q \<Longrightarrow> q < NPROCS \<Longrightarrow> \<not> runnable k q"
  shows "mpos_pick k = None"
  unfolding mpos_pick_def using assms entries_okD [OF assms(1)]
  by (intro next_pid_None) (auto simp: NPROCS_def)

lemma mpos_pick_some:
  assumes "entries_ok k" "mpos_pick k = Some p"
  shows "0 \<le> p" "p < NPROCS" "runnable k p"
    "\<And>r. 0 \<le> r \<Longrightarrow> r < NPROCS \<Longrightarrow> runnable k r \<Longrightarrow> turn NPROCS (current k) p \<le> turn NPROCS (current k) r"
proof -
  obtain q where "0 \<le> q" "q < NPROCS" "runnable k q"
    using mpos_pick_none [OF assms(1)] assms(2) by fastforce
  from mpos_pick_cases [OF assms(1) this] assms(2)
  show "0 \<le> p" "p < NPROCS" "runnable k p"
    "\<And>r. 0 \<le> r \<Longrightarrow> r < NPROCS \<Longrightarrow> runnable k r \<Longrightarrow> turn NPROCS (current k) p \<le> turn NPROCS (current k) r"
    by auto
qed

lemma schedule_table_ok:
  assumes "entries_ok k" "mpos_schedule k = Run k'"
  shows "table_ok k'"
proof -
  from assms(2) obtain p where p: "mpos_pick k = Some p" "k' = k\<lparr>current := p\<rparr>"
    by (auto simp: mpos_schedule_pick split: option.splits)
  note s = mpos_pick_some [OF assms(1) p(1)]
  have "p \<noteq> 0" using s(3) entries_okD(1) [OF assms(1)] by auto
  with s assms(1) p(2) show ?thesis by (auto simp: table_ok_def entries_ok_def)
qed

lemma schedule_Run:
  assumes "entries_ok k" "0 \<le> q" "q < NPROCS" "runnable k q"
  shows "\<exists>p. mpos_schedule k = Run (k\<lparr>current := p\<rparr>)"
  by (rule mpos_pick_cases [OF assms]) (auto simp: mpos_schedule_pick)

lemma yields_iff:
  "yields k k' \<longleftrightarrow> (\<exists>reg p. reg_intno reg = 50 \<and> mpos_pick k = Some p
     \<and> k' = (upd_proc (current k) (p_registers_update (\<lambda>_. reg)) k)\<lparr>current := p\<rparr>)"
proof -
  have pick: "mpos_pick (upd_proc (current k) (p_registers_update (\<lambda>_. reg)) k) = mpos_pick k" for reg
    unfolding mpos_pick_def upd_proc_simps
    by (intro arg_cong2 [where f = "next_pid NPROCS"]) (auto simp: fun_eq_iff)
  show ?thesis
    unfolding yields_def mpos_interrupt_def Let_def
    by (auto simp: mpos_schedule_pick pick split: option.splits)
qed

interpretation mpos_rr: round_robin NPROCS table_ok runnable current mpos_pick yields
proof
  fix k p q
  assume k: "table_ok k" "mpos_pick k = Some p"
  then have e: "entries_ok k" by (simp add: table_ok_def)
  show "0 \<le> p \<and> p < NPROCS \<and> runnable k p" using mpos_pick_some [OF e k(2)] by simp
  show "turn NPROCS (current k) p \<le> turn NPROCS (current k) q" if "0 \<le> q" "q < NPROCS" "runnable k q"
    using mpos_pick_some(4) [OF e k(2)] that by blast
next
  fix k q
  assume "table_ok k" "mpos_pick k = None" "0 \<le> q" "q < NPROCS"
  then show "\<not> runnable k q" by (metis mpos_pick_cases option.distinct(1) table_ok_def)
next
  fix k :: mpos_kernel and p q
  assume "0 \<le> p" "p < NPROCS" "0 \<le> q" "q < NPROCS" "turn NPROCS (current k) p = turn NPROCS (current k) q"
  then show "p = q" by (rule turn_inj)
next
  show "0 < NPROCS" by (simp add: NPROCS_def)
next
  fix k k'
  assume k: "table_ok k" "yields k k'"
  from k(2) show "mpos_pick k = Some (current k')" by (auto simp: yields_iff)
  from k(1) have "entries_ok k" by (simp add: table_ok_def)
  moreover from k(2) obtain reg where "mpos_schedule (upd_proc (current k) (p_registers_update (\<lambda>_. reg)) k) = Run k'"
    by (auto simp: yields_def mpos_interrupt_def Let_def)
  ultimately show "table_ok k'"
    by (intro schedule_table_ok [of "upd_proc (current k) (p_registers_update (\<lambda>_. reg)) k"] entries_ok_keep)
      (auto simp: entries_okD)
  fix q
  from k(2) show "runnable k' q = runnable k q" by (auto simp: yields_iff split: if_splits)
qed

text \<open>
  C34 No runnable process starves: when the processes keep yielding, one after the other,
  every runnable process is given the processor within \<open>NPROCS\<close> yields.
\<close>

theorem yield_fair:
  assumes "table_ok (ks 0)" "\<forall>i < nat NPROCS. yields (ks i) (ks (Suc i))"
    and "0 \<le> q" "q < NPROCS" "p_state (proc_array (ks 0) q) = P_RUNNABLE"
  shows "\<exists>i. 1 \<le> i \<and> i \<le> nat NPROCS \<and> current (ks i) = q"
  by (rule mpos_rr.ready_runs_in_time) (use assms in auto)

section \<open>Every kernel entry keeps the table well-formed\<close>

lemma find_empty_Some:
  assumes "find_empty k = Some d"
  shows "1 \<le> d" "d < NPROCS" "p_state (proc_array k d) = P_EMPTY"
  using assms unfolding find_empty_def find_Some_iff by (auto simp: NPROCS_def)

lemma wake_waiter_Run:
  assumes "entries_ok k" "1 \<le> p" "p < NPROCS" "p_wait (proc_array k p) = w" "w \<noteq> 0"
  defines "k' \<equiv> (upd_proc p (p_state_update (\<lambda>_. P_EMPTY))
      (upd_proc w (set_eax (p_exit_status (proc_array k p))) (upd_proc w (p_state_update (\<lambda>_. P_RUNNABLE)) k)))\<lparr>current := w\<rparr>"
  shows "wake_waiter k p = Run k'" "table_ok k'"
proof -
  note w = entry_okD [OF assms(1-3), unfolded assms(4)]
  have w1: "1 \<le> w" using w assms(5) by simp
  have "p_exit_status (proc_array (upd_proc w (p_state_update (\<lambda>_. P_RUNNABLE)) k) p) = p_exit_status (proc_array k p)"
    using w by simp
  then show "wake_waiter k p = Run k'"
    using w by (simp add: wake_waiter_def Let_def run_def k'_def assms(4) set_eax_def)
  have "entries_ok (upd_proc p (p_state_update (\<lambda>_. P_EMPTY))
      (upd_proc w (set_eax (p_exit_status (proc_array k p))) (upd_proc w (p_state_update (\<lambda>_. P_RUNNABLE)) k)))"
    by (intro entries_ok_keep) (use assms w w1 in auto)
  then show "table_ok k'"
    using w w1 by (auto simp: k'_def table_ok_def entries_ok_def set_eax_def)
qed

lemma do_thread_ok:
  assumes "table_ok k"
  shows "table_ok (upd_proc (current k) (set_eax v) (fst (do_thread k (current k))))"
    and "current (fst (do_thread k (current k))) = current k"
proof -
  have e: "entries_ok k" "1 \<le> current k" "current k < NPROCS" "runnable k (current k)"
    using assms entries_okD by (auto simp: table_ok_def)
  have "entries_ok (fst (do_thread k (current k))) \<and> current (fst (do_thread k (current k))) = current k
      \<and> runnable (fst (do_thread k (current k))) (current k)"
  proof (cases "find_empty k")
    case (Some d)
    note d = find_empty_Some [OF this]
    show ?thesis
      unfolding do_thread_def Some option.case Let_def fst_conv
      using e d by (intro conjI entries_ok_keep) (auto simp: set_eax_def)
  qed (use e in \<open>simp add: do_thread_def\<close>)
  then show "table_ok (upd_proc (current k) (set_eax v) (fst (do_thread k (current k))))"
    "current (fst (do_thread k (current k))) = current k"
    using e by (auto simp: table_ok_def set_eax_def intro!: entries_ok_keep [unfolded set_eax_def])
qed

lemma copy_stack_simps [simp]:
  "current (copy_stack k d s) = current k"
  "p_state (proc_array (copy_stack k d s) i) = p_state (proc_array k i)"
  "p_pid (proc_array (copy_stack k d s) i) = p_pid (proc_array k i)"
  "p_wait (proc_array (copy_stack k d s) i) = p_wait (proc_array k i)"
  by (simp_all add: copy_stack_def Let_def)

lemma entries_ok_copy_stack [simp]: "entries_ok k \<Longrightarrow> entries_ok (copy_stack k d s)"
  by (simp add: entries_ok_def entry_ok_def)

lemma do_fork_ok:
  assumes "table_ok k"
  shows "table_ok (upd_proc (current k) (set_eax v) (fst (do_fork k (current k))))"
    and "current (fst (do_fork k (current k))) = current k"
proof -
  have e: "entries_ok k" "1 \<le> current k" "current k < NPROCS" "runnable k (current k)"
    using assms entries_okD by (auto simp: table_ok_def)
  have "entries_ok (fst (do_fork k (current k))) \<and> current (fst (do_fork k (current k))) = current k
      \<and> runnable (fst (do_fork k (current k))) (current k)"
  proof (cases "find_empty k")
    case (Some d)
    note d = find_empty_Some [OF this]
    show ?thesis
      unfolding do_fork_def Some option.case Let_def fst_conv
      using e d by (intro conjI entries_ok_keep entries_ok_copy_stack) (auto simp: set_eax_def)
  qed (use e in \<open>simp add: do_fork_def\<close>)
  then show "table_ok (upd_proc (current k) (set_eax v) (fst (do_fork k (current k))))"
    "current (fst (do_fork k (current k))) = current k"
    using e by (auto simp: table_ok_def set_eax_def intro!: entries_ok_keep [unfolded set_eax_def])
qed

lemma do_exit_ok:
  assumes "entries_ok k" "do_exit k = Run k'" shows "table_ok k'"
proof -
  define k2 where "k2 = upd_proc (current k) (p_exit_status_update (\<lambda>_. reg_eax (p_registers (proc_array k (current k)))))
      (upd_proc (current k) (p_state_update (\<lambda>_. P_ZOMBIE)) k)"
  have k2: "entries_ok k2" "current k2 = current k"
    using assms(1) entries_okD [OF assms(1)] by (auto simp: k2_def)
  have d: "do_exit k = (if p_wait (proc_array k2 (current k)) \<noteq> 0 then wake_waiter k2 (current k) else mpos_schedule k2)"
    by (simp add: do_exit_def Let_def k2_def)
  show ?thesis
    using assms(2) schedule_table_ok [OF k2(1)] wake_waiter_Run [OF k2(1) entries_okD(2,3) [OF assms(1)] refl]
    unfolding d by (auto split: if_splits)
qed

lemma do_kill_ok:
  assumes "entries_ok k" "do_kill k c = Run k'" shows "table_ok k'"
proof -
  define p where "p = sint (reg_eax (p_registers (proc_array k c)))"
  define k2 where "k2 = upd_proc p (p_exit_status_update (\<lambda>_. - 1)) (upd_proc p (p_state_update (\<lambda>_. P_ZOMBIE)) k)"
  have d: "do_kill k c = (if p \<le> 0 \<or> p \<ge> NPROCS \<or> p_state (proc_array k p) = P_EMPTY then mpos_schedule k
      else if p_wait (proc_array k2 p) \<noteq> 0 then wake_waiter k2 p else mpos_schedule k2)"
    by (simp add: do_kill_def Let_def k2_def p_def)
  show ?thesis
  proof (cases "p \<le> 0 \<or> p \<ge> NPROCS \<or> p_state (proc_array k p) = P_EMPTY")
    case True
    with assms d show ?thesis by (auto intro: schedule_table_ok)
  next
    case False
    then have p: "1 \<le> p" "p < NPROCS" by auto
    then have k2: "entries_ok k2" using assms(1) by (auto simp: k2_def)
    show ?thesis
      using assms(2) False schedule_table_ok [OF k2] wake_waiter_Run [OF k2 p refl]
      unfolding d by (auto split: if_splits)
  qed
qed

lemma do_wait_ok:
  assumes "entries_ok k" "do_wait k = Run k'" shows "table_ok k'"
proof -
  define c where "c = current k"
  define p where "p = sint (reg_eax (p_registers (proc_array k c)))"
  have c: "1 \<le> c" "c < NPROCS" "p_pid (proc_array k c) = c" using entries_okD [OF assms(1)] by (auto simp: c_def)
  have "entries_ok (upd_proc p (p_wait_update (\<lambda>_. c)) (upd_proc c (p_state_update (\<lambda>_. P_BLOCKED)) k))"
    if "\<not> p \<le> 0" "\<not> p \<ge> NPROCS" "p \<noteq> c"
    by (rule entries_ok_upd) (use that c assms(1) in \<open>auto simp: entry_ok_def\<close>)
  note blocked = this
  have eax: "entries_ok (upd_proc c (set_eax v) k)" for v
    using c assms(1) by (intro entries_ok_keep)
  have pid: "p_pid (proc_array (upd_proc c (p_state_update (\<lambda>_. P_BLOCKED)) k) c) = c"
    using c by simp
  show ?thesis
  proof (cases "p \<le> 0 \<or> p \<ge> NPROCS \<or> p = c \<or> p_state (proc_array k p) = P_EMPTY")
    case True
    with assms(2) have "mpos_schedule (upd_proc c (set_eax (- 1)) k) = Run k'"
      unfolding do_wait_def Let_def c_def [symmetric] p_def [symmetric] c(3) by simp
    then show ?thesis by (rule schedule_table_ok [OF eax])
  next
    case False
    note refuse = this
    show ?thesis
    proof (cases "p_state (proc_array k p) = P_ZOMBIE")
      case True
      with refuse assms(2) have "mpos_schedule (upd_proc c (set_eax (p_exit_status (proc_array k p))) k) = Run k'"
        unfolding do_wait_def Let_def c_def [symmetric] p_def [symmetric] c(3) by simp
      then show ?thesis by (rule schedule_table_ok [OF eax])
    next
      case False
      with refuse assms(2)
      have "mpos_schedule (upd_proc p (p_wait_update (\<lambda>_. c)) (upd_proc c (p_state_update (\<lambda>_. P_BLOCKED)) k)) = Run k'"
        unfolding do_wait_def Let_def c_def [symmetric] p_def [symmetric] c(3) pid by simp
      with blocked refuse show ?thesis by (metis schedule_table_ok)
    qed
  qed
qed

theorem interrupt_table_ok:
  assumes "table_ok k" "mpos_interrupt reg k = Run k'"
  shows "table_ok k'"
proof -
  define c where "c = current k"
  define k1 where "k1 = upd_proc c (p_registers_update (\<lambda>_. reg)) k"
  have c: "1 \<le> c" "c < NPROCS" using assms(1) entries_okD by (auto simp: c_def table_ok_def)
  have t1: "table_ok k1" using assms(1) c by (auto simp: table_ok_def k1_def c_def)
  then have e1: "entries_ok k1" and c1: "current k1 = c" by (auto simp: table_ok_def k1_def c_def)
  have run_c: "run c k2 = Run k2" if "current k2 = c" for k2 :: mpos_kernel
    using that by (cases k2) (simp add: run_def)
  have eax: "run c (upd_proc c (set_eax v) k2) = Run (upd_proc c (set_eax v) k2)" if "current k2 = c"
    for v and k2 :: mpos_kernel using that by (intro run_c) simp
  obtain k2 r2 where 2: "do_thread k1 c = (k2, r2)" by fastforce
  obtain k3 r3 where 3: "do_fork k1 c = (k3, r3)" by fastforce
  note thread = do_thread_ok [OF t1, unfolded c1 2 fst_conv] and fork = do_fork_ok [OF t1, unfolded c1 3 fst_conv]
  have "table_ok (upd_proc c (set_eax v) k1)" for v
    using t1 c c1 e1 by (auto simp: table_ok_def set_eax_def intro!: entries_ok_keep [unfolded set_eax_def])
  then show ?thesis
    using assms(2) thread fork do_kill_ok [OF e1] do_exit_ok [OF e1] do_wait_ok [OF e1] schedule_table_ok [OF e1]
    unfolding mpos_interrupt_def Let_def c_def [symmetric] k1_def [symmetric] 2 3 prod.case
      eax [OF thread(2)] eax [OF fork(2)] eax [OF c1]
    by (auto split: if_splits)
qed

end
