(* ===== verification/Mpos_Props.thy ===== *)
theory Mpos_Props
  imports Mpos_Table
begin

text \<open>
  MiniprocOS: reachable states, waiting and exiting, zombies, fork.
\<close>

section \<open>Runs of the kernel\<close>

text \<open>
  What happens between two kernel entries is up to the applications: they share all of
  memory, the cursor included, and the kernel's own data is taken to be out of their reach.
\<close>

inductive mpos_reachable :: "nat list \<Rightarrow> mpos_kernel \<Rightarrow> bool" for ramimages where
  start: "mpos_start ramimages keys k0 = Run k \<Longrightarrow> mpos_reachable ramimages k"
| enter: "mpos_reachable ramimages k \<Longrightarrow> mpos_interrupt reg k = Run k' \<Longrightarrow> mpos_reachable ramimages k'"
| user: "mpos_reachable ramimages k \<Longrightarrow> mpos_reachable ramimages (k\<lparr>memory := m, cursorpos := c\<rparr>)"

lemma start_table_ok:
  assumes "mpos_start ramimages keys k0 = Run k" shows "table_ok k"
  using assms unfolding mpos_start_def
  by (auto simp: Let_def run_def table_ok_def entries_ok_def entry_ok_def empty_process_def NPROCS_def
      split: option.splits sum.splits prod.splits if_splits)

text \<open>
  C33 In every state the kernel reaches, whatever the applications do, the process table is
  well-formed: each descriptor carries its own index as its process ID, the process
  recorded as waiting for it is another descriptor of the table, descriptor 0 is unused,
  and the process that is handed the processor is runnable.
\<close>

theorem reachable_table_ok:
  assumes "mpos_reachable ramimages k" shows "table_ok k"
  using assms
proof (induction rule: mpos_reachable.induct)
  case (start keys k0 k)
  then show ?case by (rule start_table_ok)
next
  case (enter k reg k')
  show ?case by (rule interrupt_table_ok [OF enter.IH enter.hyps(2)])
next
  case (user k m c)
  then show ?case by (simp add: table_ok_def entries_ok_def)
qed

section \<open>Waiting for a process\<close>

text \<open>System calls that end no process and wait for none: getpid, fork, yield, new thread.\<close>

definition quiet :: "mpos_kernel \<Rightarrow> mpos_kernel \<Rightarrow> bool" where
  "quiet k k' \<longleftrightarrow> (\<exists>reg. reg_intno reg \<in> {48, 49, 50, 53} \<and> mpos_interrupt reg k = Run k')"

lemma schedule_same: "mpos_schedule k = Run k' \<Longrightarrow> proc_array k' = proc_array k"
  by (auto simp: mpos_schedule_pick split: option.splits)

lemma run_same: "run c k = Run k' \<Longrightarrow> proc_array k' = proc_array k"
  by (auto simp: run_def)

lemma do_thread_others:
  "p_state (proc_array k i) \<noteq> P_EMPTY \<Longrightarrow> proc_array (fst (do_thread k c)) i = proc_array k i"
  by (auto simp: do_thread_def Let_def dest: find_empty_Some(3) split: option.split)

lemma do_fork_others:
  "p_state (proc_array k i) \<noteq> P_EMPTY \<Longrightarrow> proc_array (fst (do_fork k c)) i = proc_array k i"
  by (auto simp: do_fork_def copy_stack_def Let_def dest: find_empty_Some(3) split: option.split)

lemma quiet_effect:
  assumes "quiet k k'" "p_state (proc_array k i) \<noteq> P_EMPTY"
  shows "p_state (proc_array k' i) = p_state (proc_array k i)" "p_wait (proc_array k' i) = p_wait (proc_array k i)"
proof -
  obtain reg where reg: "reg_intno reg \<in> {48, 49, 50, 53}" "mpos_interrupt reg k = Run k'"
    using assms(1) by (auto simp: quiet_def)
  define c where "c = current k"
  define k1 where "k1 = upd_proc c (p_registers_update (\<lambda>_. reg)) k"
  have k1: "p_state (proc_array k1 i) = p_state (proc_array k i)" "p_wait (proc_array k1 i) = p_wait (proc_array k i)"
    by (auto simp: k1_def)
  obtain k2 r2 where 2: "do_thread k1 c = (k2, r2)" by fastforce
  obtain k3 r3 where 3: "do_fork k1 c = (k3, r3)" by fastforce
  have o: "proc_array k2 i = proc_array k1 i" "proc_array k3 i = proc_array k1 i"
    using do_thread_others [of k1 i c] do_fork_others [of k1 i c] 2 3 assms(2) k1 by auto
  have "p_state (proc_array k' i) = p_state (proc_array k1 i) \<and> p_wait (proc_array k' i) = p_wait (proc_array k1 i)"
    using reg o unfolding mpos_interrupt_def Let_def c_def [symmetric] k1_def [symmetric] 2 3 prod.case
    by (auto simp: set_eax_def dest!: schedule_same run_same split: if_splits)
  with k1 show "p_state (proc_array k' i) = p_state (proc_array k i)" "p_wait (proc_array k' i) = p_wait (proc_array k i)"
    by auto
qed

lemma quiet_steps_effect:
  assumes "quiet\<^sup>*\<^sup>* k k'" "p_state (proc_array k i) \<noteq> P_EMPTY"
  shows "p_state (proc_array k' i) = p_state (proc_array k i) \<and> p_wait (proc_array k' i) = p_wait (proc_array k i)"
  using assms by (induction rule: rtranclp_induct) (auto simp: quiet_effect)

lemma quiet_steps_table_ok: "quiet\<^sup>*\<^sup>* k k' \<Longrightarrow> table_ok k \<Longrightarrow> table_ok k'"
  by (induction rule: rtranclp_induct) (auto simp: quiet_def dest: interrupt_table_ok)

lemma exit_wakes:
  assumes "table_ok k" "p_wait (proc_array k (current k)) = a" "a \<noteq> 0" "reg_intno reg = 51"
  shows "\<exists>k'. mpos_interrupt reg k = Run k' \<and> current k' = a \<and> p_state (proc_array k' a) = P_RUNNABLE
    \<and> reg_eax (p_registers (proc_array k' a)) = reg_eax reg \<and> p_state (proc_array k' (current k)) = P_EMPTY"
proof -
  define b where "b = current k"
  define k2 where "k2 = upd_proc b (p_exit_status_update (\<lambda>_. reg_eax reg))
      (upd_proc b (p_state_update (\<lambda>_. P_ZOMBIE)) (upd_proc b (p_registers_update (\<lambda>_. reg)) k))"
  have b: "1 \<le> b" "b < NPROCS" "entries_ok k" using assms(1) entries_okD by (auto simp: b_def table_ok_def)
  then have k2: "entries_ok k2" by (simp add: k2_def)
  have w: "p_wait (proc_array k2 b) = a" using assms(2) by (simp add: k2_def b_def)
  have "mpos_interrupt reg k = wake_waiter k2 b"
    using assms(3,4) w by (simp add: mpos_interrupt_def do_exit_def Let_def b_def k2_def)
  with wake_waiter_Run [OF k2 b(1,2) w assms(3)] entry_okD(4) [OF k2 b(1,2)] w
  show ?thesis by (auto simp: k2_def b_def set_eax_def)
qed

text \<open>
  C9 \<open>sys_wait\<close> on another, runnable process blocks the caller until that process exits, however many
  of the calls \<open>sys_getpid\<close>, \<open>sys_fork\<close>, \<open>sys_yield\<close> and \<open>sys_newthread\<close> come in between, by whichever
  processes and in whatever order (\<open>quiet\<close>; another \<open>sys_wait\<close> or a \<open>sys_kill\<close> may take the wake-up
  away and is not covered); the exit then hands the processor to the caller, runnable again and with the exit
  status as the result of its call, and frees the descriptor of the process that exited.
\<close>

theorem wait_exit_delivers:
  assumes "table_ok k" "a = current k" "reg_intno reg = 52" "sint (reg_eax reg) = b"
    and "1 \<le> b" "b < NPROCS" "b \<noteq> a" "p_state (proc_array k b) = P_RUNNABLE"
    and "mpos_interrupt reg k = Run k1" "quiet\<^sup>*\<^sup>* k1 k2" "current k2 = b" "reg_intno reg' = 51"
  shows "\<exists>k3. mpos_interrupt reg' k2 = Run k3 \<and> current k3 = a \<and> p_state (proc_array k3 a) = P_RUNNABLE
    \<and> reg_eax (p_registers (proc_array k3 a)) = reg_eax reg' \<and> p_state (proc_array k3 b) = P_EMPTY
    \<and> p_state (proc_array k2 a) = P_BLOCKED"
proof -
  have a: "1 \<le> a" "a < NPROCS" "p_pid (proc_array k a) = a" using assms(1,2) entries_okD by (auto simp: table_ok_def)
  define k0 where "k0 = upd_proc b (p_wait_update (\<lambda>_. a)) (upd_proc a (p_state_update (\<lambda>_. P_BLOCKED))
      (upd_proc a (p_registers_update (\<lambda>_. reg)) k))"
  have "mpos_interrupt reg k = mpos_schedule k0"
    using assms(2-8) a(3) by (simp add: mpos_interrupt_def do_wait_def Let_def k0_def)
  then have "proc_array k1 = proc_array k0" using assms(9) schedule_same by metis
  then have k1: "p_state (proc_array k1 a) = P_BLOCKED" "p_state (proc_array k1 b) = P_RUNNABLE"
    "p_wait (proc_array k1 b) = a" using assms(7,8) by (auto simp: k0_def)
  have t1: "table_ok k1" by (rule interrupt_table_ok [OF assms(1,9)])
  have k2: "table_ok k2" "p_state (proc_array k2 a) = P_BLOCKED" "p_wait (proc_array k2 b) = a"
    using quiet_steps_table_ok [OF assms(10) t1] quiet_steps_effect [OF assms(10)] k1 by auto
  with exit_wakes [of k2 a reg'] assms(11,12) a(1) show ?thesis by auto
qed

section \<open>Zombies\<close>

text \<open>Process \<open>p\<close> has ended, no one was waiting for it, and it waits for no one.\<close>

definition left_zombie :: "mpos_kernel \<Rightarrow> int \<Rightarrow> bool" where
  "left_zombie k p \<longleftrightarrow> p_state (proc_array k p) = P_ZOMBIE \<and> p_wait (proc_array k p) = 0
     \<and> (\<forall>q. 1 \<le> q \<and> q < NPROCS \<longrightarrow> p_wait (proc_array k q) \<noteq> p)"

lemma wake_waiter_zombie:
  assumes "entries_ok k" "1 \<le> x" "x < NPROCS" "p_wait (proc_array k x) \<noteq> 0" "wake_waiter k x = Run k'" "left_zombie k p"
  shows "left_zombie k' p"
  using wake_waiter_Run [OF assms(1-3) refl assms(4)] assms(2-6)
  by (auto simp: left_zombie_def set_eax_def)

lemma schedule_zombie: "mpos_schedule k = Run k' \<Longrightarrow> left_zombie k p \<Longrightarrow> left_zombie k' p"
  by (simp add: left_zombie_def schedule_same)

lemma do_thread_wait: "p_wait (proc_array (fst (do_thread k c)) i) = p_wait (proc_array k i)"
  by (auto simp: do_thread_def Let_def set_eax_def split: option.split)

lemma do_fork_wait: "p_wait (proc_array (fst (do_fork k c)) i) = p_wait (proc_array k i)"
  by (auto simp: do_fork_def copy_stack_def Let_def set_eax_def split: option.split)

lemma do_exit_zombie:
  assumes "entries_ok k" "do_exit k = Run k'" "left_zombie k p" "current k \<noteq> p"
  shows "left_zombie k' p"
proof -
  define k2 where "k2 = upd_proc (current k) (p_exit_status_update (\<lambda>_. reg_eax (p_registers (proc_array k (current k)))))
      (upd_proc (current k) (p_state_update (\<lambda>_. P_ZOMBIE)) k)"
  have c: "1 \<le> current k" "current k < NPROCS" using entries_okD [OF assms(1)] by auto
  have k2: "entries_ok k2" "left_zombie k2 p" using assms c by (auto simp: k2_def left_zombie_def)
  have d: "do_exit k = (if p_wait (proc_array k2 (current k)) \<noteq> 0 then wake_waiter k2 (current k) else mpos_schedule k2)"
    by (simp add: do_exit_def Let_def k2_def)
  show ?thesis
    using assms(2) schedule_zombie [OF _ k2(2)] wake_waiter_zombie [OF k2(1) c _ _ k2(2)]
    unfolding d by (auto split: if_splits)
qed

lemma do_kill_zombie:
  assumes "entries_ok k" "do_kill k c = Run k'" "left_zombie k p" "1 \<le> p" "p < NPROCS"
  shows "left_zombie k' p"
proof -
  define x where "x = sint (reg_eax (p_registers (proc_array k c)))"
  define k2 where "k2 = upd_proc x (p_exit_status_update (\<lambda>_. - 1)) (upd_proc x (p_state_update (\<lambda>_. P_ZOMBIE)) k)"
  have d: "do_kill k c = (if x \<le> 0 \<or> x \<ge> NPROCS \<or> p_state (proc_array k x) = P_EMPTY then mpos_schedule k
      else if p_wait (proc_array k2 x) \<noteq> 0 then wake_waiter k2 x else mpos_schedule k2)"
    by (simp add: do_kill_def Let_def k2_def x_def)
  show ?thesis
  proof (cases "x \<le> 0 \<or> x \<ge> NPROCS \<or> p_state (proc_array k x) = P_EMPTY")
    case True
    with assms(2,3) d show ?thesis by (auto intro: schedule_zombie)
  next
    case False
    then have x: "1 \<le> x" "x < NPROCS" by auto
    have k2: "entries_ok k2" "left_zombie k2 p" using assms x by (auto simp: k2_def left_zombie_def)
    show ?thesis
      using assms(2) False schedule_zombie [OF _ k2(2)] wake_waiter_zombie [OF k2(1) x _ _ k2(2)]
      unfolding d by (auto split: if_splits)
  qed
qed

lemma do_wait_zombie:
  assumes "entries_ok k" "do_wait k = Run k'" "left_zombie k p" "current k \<noteq> p"
  shows "left_zombie k' p"
proof -
  define c where "c = current k"
  define x where "x = sint (reg_eax (p_registers (proc_array k c)))"
  have c: "1 \<le> c" "c \<noteq> p" "p_pid (proc_array k c) = c" using assms(1,4) entries_okD by (auto simp: c_def)
  have 1: "left_zombie (upd_proc c (set_eax v) k) p" for v
    using assms(3) c by (auto simp: left_zombie_def set_eax_def)
  have 2: "left_zombie (upd_proc x (p_wait_update (\<lambda>_. c)) (upd_proc c (p_state_update (\<lambda>_. P_BLOCKED)) k)) p"
    if "p_state (proc_array k x) \<noteq> P_ZOMBIE"
    using assms(3) c that by (auto simp: left_zombie_def)
  have pid: "p_pid (proc_array (upd_proc c (p_state_update (\<lambda>_. P_BLOCKED)) k) c) = c"
    using c by simp
  show ?thesis
    using assms(2) 1 2 unfolding do_wait_def Let_def c_def [symmetric] x_def [symmetric] c(3) pid
    by (auto split: if_splits intro: schedule_zombie)
qed

lemma interrupt_zombie:
  assumes "table_ok k" "mpos_interrupt reg k = Run k'" "left_zombie k p" "1 \<le> p" "p < NPROCS"
  shows "left_zombie k' p"
proof -
  define c where "c = current k"
  define k1 where "k1 = upd_proc c (p_registers_update (\<lambda>_. reg)) k"
  have c: "1 \<le> c" "c < NPROCS" "p_pid (proc_array k c) = c" "runnable k c" and e: "entries_ok k"
    using assms(1) entries_okD by (auto simp: table_ok_def c_def)
  have e1: "entries_ok k1" using e c by (simp add: k1_def)
  have cp: "c \<noteq> p" using c assms(3) by (auto simp: left_zombie_def)
  have c1: "current k1 \<noteq> p" using cp by (simp add: k1_def c_def)
  have z1: "left_zombie k1 p" using assms(3) cp by (auto simp: left_zombie_def k1_def)
  obtain k2 r2 where 2: "do_thread k1 c = (k2, r2)" by fastforce
  obtain k3 r3 where 3: "do_fork k1 c = (k3, r3)" by fastforce
  have z2: "left_zombie k2 p" "left_zombie k3 p"
    using z1 do_thread_others [of k1 p c] do_fork_others [of k1 p c] do_thread_wait [of k1 c] do_fork_wait [of k1 c] 2 3
    by (auto simp: left_zombie_def)
  have eax: "left_zombie (upd_proc c (set_eax v) k') p" if "left_zombie k' p" for v and k' :: mpos_kernel
    using that cp by (auto simp: left_zombie_def set_eax_def)
  have cur: "left_zombie (k'\<lparr>current := c\<rparr>) p \<longleftrightarrow> left_zombie k' p" for k' :: mpos_kernel and c
    by (simp add: left_zombie_def)
  show ?thesis
    using assms(2) z1 z2 do_exit_zombie [OF e1 _ z1 c1] do_kill_zombie [OF e1 _ z1 assms(4,5)] do_wait_zombie [OF e1 _ z1 c1]
      schedule_zombie [OF _ z1]
    unfolding mpos_interrupt_def Let_def c_def [symmetric] k1_def [symmetric] 2 3 prod.case run_def
    by (auto split: if_splits simp: eax cur)
qed

text \<open>
  A process that ended before anyone waited for it keeps its descriptor for good: whatever
  system calls follow, \<open>sys_wait\<close> for it included, its descriptor is a zombie and is never
  empty again, so that no new process can take it.
\<close>

theorem zombie_never_freed:
  assumes "table_ok k" "1 \<le> p" "p < NPROCS" "p_state (proc_array k p) = P_ZOMBIE"
    and "p_wait (proc_array k p) = 0" "\<forall>q. 1 \<le> q \<and> q < NPROCS \<longrightarrow> p_wait (proc_array k q) \<noteq> p"
    and "(\<lambda>k k'. \<exists>reg. mpos_interrupt reg k = Run k')\<^sup>*\<^sup>* k k'"
  shows "p_state (proc_array k' p) = P_ZOMBIE"
proof -
  have "table_ok k' \<and> left_zombie k' p"
    using assms(7)
  proof (induction rule: rtranclp_induct)
    case base
    then show ?case using assms by (simp add: left_zombie_def)
  next
    case (step k1 k2)
    then show ?case using interrupt_table_ok interrupt_zombie assms(2,3) by blast
  qed
  then show ?thesis by (simp add: left_zombie_def)
qed

section \<open>Fork\<close>

lemma unat_stack_top:
  assumes "0 \<le> p" "p < NPROCS"
  shows "int (unat (stack_top p)) = PROC1_STACK_ADDR + p * PROC_STACK_SIZE"
proof -
  have "PROC1_STACK_ADDR + p * PROC_STACK_SIZE < 2 ^ 32" "0 \<le> PROC1_STACK_ADDR + p * PROC_STACK_SIZE"
    using assms by (auto simp: NPROCS_def PROC1_STACK_ADDR_def PROC_STACK_SIZE_def)
  then show ?thesis
    by (simp add: stack_top_def unsigned_of_int take_bit_int_eq_self del: of_int_add of_int_mult)
qed

text \<open>
  \<open>sys_fork\<close> gives the child the parent's registers with 0 in \<open>eax\<close> and a stack pointer as
  far below the top of its own stack as the parent's is below the top of the parent's
  stack, and returns the child's process ID to the parent.  But no byte of the child's
  stack region is written: what is copied are the bytes above the two stack tops.
\<close>

theorem fork_copies_above_stack:
  assumes "table_ok k" "c = current k" "reg_intno reg = 49" "find_empty k = Some d"
    and "int (unat (stack_top c)) - PROC_STACK_SIZE \<le> int (unat (reg_esp reg))" "reg_esp reg \<le> stack_top c"
  shows "\<exists>k'. mpos_interrupt reg k = Run k' \<and> current k' = c
    \<and> reg_eax (p_registers (proc_array k' c)) = word_of_int d
    \<and> p_state (proc_array k' d) = P_RUNNABLE
    \<and> p_registers (proc_array k' d) = reg\<lparr>reg_esp := stack_top d - (stack_top c - reg_esp reg), reg_eax := 0\<rparr>
    \<and> memory k' = mem_write (memory k) (unat (stack_top d))
        (mem_read (memory k) (unat (stack_top c)) (unat (stack_top c) - unat (reg_esp reg)))
    \<and> (\<forall>x. unat (stack_top d) - nat PROC_STACK_SIZE \<le> x \<and> x < unat (stack_top d) \<longrightarrow> memory k' x = memory k x)"
proof -
  define k1 where "k1 = upd_proc c (p_registers_update (\<lambda>_. reg)) k"
  have c: "1 \<le> c" "c < NPROCS" "p_pid (proc_array k c) = c" "runnable k c"
    using assms(1,2) entries_okD by (auto simp: table_ok_def)
  note d = find_empty_Some [OF assms(4)]
  have cd: "c \<noteq> d" using c(4) d(3) by auto
  have pd: "p_pid (proc_array k d) = d" using assms(1) d entry_okD(1) by (auto simp: table_ok_def)
  have fe: "find_empty k1 = Some d"
  proof -
    have "(\<lambda>i. p_state (proc_array k1 i) = P_EMPTY) = (\<lambda>i. p_state (proc_array k i) = P_EMPTY)"
      by (auto simp: k1_def fun_eq_iff)
    with assms(4) show ?thesis by (simp add: find_empty_def)
  qed
  have len: "unat (stack_top c - reg_esp reg) = unat (stack_top c) - unat (reg_esp reg)"
    using assms(6) by (subst unat_sub) simp_all
  have tops: "int (unat (stack_top c)) = PROC1_STACK_ADDR + c * PROC_STACK_SIZE"
    "int (unat (stack_top d)) = PROC1_STACK_ADDR + d * PROC_STACK_SIZE"
    by (rule unat_stack_top; use c d in simp)+
  have "unat (stack_top c) + unat (stack_top c - reg_esp reg) \<le> unat (stack_top d)
      \<or> unat (stack_top d) \<le> unat (stack_top c)"
  proof (cases "c < d")
    case True
    then have "int (unat (stack_top c)) + PROC_STACK_SIZE \<le> int (unat (stack_top d))"
      unfolding tops PROC_STACK_SIZE_def by simp
    moreover have "int (unat (stack_top c - reg_esp reg)) \<le> PROC_STACK_SIZE"
      unfolding len using assms(5) unfolding PROC_STACK_SIZE_def by arith
    ultimately show ?thesis by linarith
  next
    case False
    then have "int (unat (stack_top d)) \<le> int (unat (stack_top c))" unfolding tops PROC_STACK_SIZE_def by simp
    then show ?thesis by linarith
  qed
  note cpy = memcpy_writes [OF this, of "memory k", unfolded len]
  have mem: "mem_write m a bs x = m x" if "x < a" for m a bs x using that by (simp add: mem_write_byte)
  have "stack_top d + (reg_esp reg - stack_top c) = stack_top d - (stack_top c - reg_esp reg)" by simp
  then show ?thesis
    unfolding mpos_interrupt_def Let_def do_fork_def run_def
    using cd c(3) pd cpy assms(2,3) fe k1_def
    by (auto simp: copy_stack_def Let_def set_eax_def mem)
qed

section \<open>The properties at work\<close>

text \<open>A table with processes 1 and 2 runnable and 3 a zombie; 1 runs.\<close>

definition demo_registers :: registers where
  "demo_registers = zero_registers\<lparr>reg_intno := 50, reg_eax := 2, reg_esp := 0x2BFF00\<rparr>"

definition demo_kernel :: mpos_kernel where
  "demo_kernel = \<lparr>proc_array = \<lambda>i. (empty_process i)\<lparr>p_registers := demo_registers,
       p_state := if i = 1 \<or> i = 2 then P_RUNNABLE else if i = 3 then P_ZOMBIE else P_EMPTY\<rparr>,
     current = 1, memory = \<lambda>_. 0, cursorpos = CONSOLE_BEGIN\<rparr>"

lemma demo_table_ok: "table_ok demo_kernel" "table_ok (demo_kernel\<lparr>current := 2\<rparr>)"
  by (auto simp: demo_kernel_def table_ok_def entries_ok_def entry_ok_def empty_process_def NPROCS_def)

lemma demo_pick: "mpos_pick demo_kernel = Some 2" "mpos_pick (demo_kernel\<lparr>current := 2\<rparr>) = Some 1"
  by (auto simp: mpos_rr.pick_iff demo_table_ok) (auto simp: demo_kernel_def NPROCS_def turn_def split: if_splits)

lemma demo_yields: "yields demo_kernel (demo_kernel\<lparr>current := 2\<rparr>)" "yields (demo_kernel\<lparr>current := 2\<rparr>) demo_kernel"
proof -
  have s: "upd_proc i (p_registers_update (\<lambda>_. demo_registers)) (demo_kernel\<lparr>current := c\<rparr>) = demo_kernel\<lparr>current := c\<rparr>" for i c
    by (auto simp: upd_proc_def demo_kernel_def fun_eq_iff)
  have c: "demo_kernel\<lparr>current := 1\<rparr> = demo_kernel" "current demo_kernel = 1" by (simp_all add: demo_kernel_def)
  have i: "reg_intno demo_registers = 50" by (simp add: demo_registers_def)
  show "yields demo_kernel (demo_kernel\<lparr>current := 2\<rparr>)"
    unfolding yields_iff using demo_pick(1) s [of 1 1] i by (intro exI [of _ demo_registers] exI [of _ 2]) (simp add: c)
  show "yields (demo_kernel\<lparr>current := 2\<rparr>) demo_kernel"
    unfolding yields_iff using demo_pick(2) s [of 2 2] i by (intro exI [of _ demo_registers] exI [of _ 1]) (simp add: c)
qed

theorem yield_fair_witness:
  "\<exists>i. 1 \<le> i \<and> i \<le> nat NPROCS \<and> current (if even i then demo_kernel else demo_kernel\<lparr>current := 2\<rparr>) = 2"
  by (rule yield_fair [of "\<lambda>i. if even i then demo_kernel else demo_kernel\<lparr>current := 2\<rparr>" 2])
    (auto simp: demo_table_ok demo_yields NPROCS_def, simp add: demo_kernel_def)

lemma demo_find_empty: "find_empty demo_kernel = Some 4"
  by (simp add: find_empty_def demo_kernel_def NPROCS_def upto_rec1)

theorem fork_copies_above_stack_witness:
  "\<exists>k'. mpos_interrupt (demo_registers\<lparr>reg_intno := 49\<rparr>) demo_kernel = Run k'
    \<and> reg_esp (p_registers (proc_array k' 4)) = 0x37FF00"
  using fork_copies_above_stack [OF demo_table_ok(1) refl _ demo_find_empty, of "demo_registers\<lparr>reg_intno := 49\<rparr>"]
  by (auto simp: stack_top_def PROC1_STACK_ADDR_def PROC_STACK_SIZE_def demo_registers_def)
    (auto simp: demo_kernel_def)

text \<open>Process 1 waits for process 2, which exits with status 7.\<close>

lemma demo_wait:
  "\<exists>k1. mpos_interrupt (demo_registers\<lparr>reg_intno := 52\<rparr>) demo_kernel = Run k1 \<and> current k1 = 2"
proof -
  define k0 where "k0 = upd_proc 2 (p_wait_update (\<lambda>_. 1)) (upd_proc 1 (p_state_update (\<lambda>_. P_BLOCKED))
      (upd_proc 1 (p_registers_update (\<lambda>_. demo_registers\<lparr>reg_intno := 52\<rparr>)) demo_kernel))"
  have 1: "mpos_interrupt (demo_registers\<lparr>reg_intno := 52\<rparr>) demo_kernel = mpos_schedule k0"
    by (simp add: mpos_interrupt_def do_wait_def Let_def k0_def demo_kernel_def demo_registers_def NPROCS_def empty_process_def)
  have e: "entries_ok k0"
    by (auto simp: k0_def demo_kernel_def entries_ok_def entry_ok_def empty_process_def NPROCS_def)
  have r: "runnable k0 q \<longleftrightarrow> q = 2" for q by (auto simp: k0_def demo_kernel_def)
  obtain p where p: "mpos_schedule k0 = Run (k0\<lparr>current := p\<rparr>)"
    using schedule_Run [OF e, of 2] r by (auto simp: NPROCS_def)
  with schedule_table_ok [OF e p] r have "p = 2" by (simp add: table_ok_def)
  with 1 p show ?thesis by simp
qed

theorem wait_exit_delivers_witness:
  "\<exists>k1 k3. mpos_interrupt (demo_registers\<lparr>reg_intno := 52\<rparr>) demo_kernel = Run k1
    \<and> mpos_interrupt (demo_registers\<lparr>reg_intno := 51, reg_eax := 7\<rparr>) k1 = Run k3
    \<and> current k3 = 1 \<and> reg_eax (p_registers (proc_array k3 1)) = 7 \<and> p_state (proc_array k3 2) = P_EMPTY"
proof -
  obtain k1 where k1: "mpos_interrupt (demo_registers\<lparr>reg_intno := 52\<rparr>) demo_kernel = Run k1" "current k1 = 2"
    using demo_wait by blast
  have "1 = current demo_kernel" "p_state (proc_array demo_kernel 2) = P_RUNNABLE" by (simp_all add: demo_kernel_def)
  from wait_exit_delivers [OF demo_table_ok(1) this(1) _ _ _ _ _ this(2) k1(1) rtranclp.rtrancl_refl k1(2), of "demo_registers\<lparr>reg_intno := 51, reg_eax := 7\<rparr>"]
  show ?thesis using k1(1) by (auto simp: demo_registers_def NPROCS_def)
qed

text \<open>Process 1 collects the status of the zombie 3, which stays a zombie.\<close>

theorem zombie_never_freed_witness:
  "\<exists>k'. mpos_interrupt (demo_registers\<lparr>reg_intno := 52, reg_eax := 3\<rparr>) demo_kernel = Run k'
    \<and> p_state (proc_array k' 3) = P_ZOMBIE"
proof -
  let ?r = "demo_registers\<lparr>reg_intno := 52, reg_eax := 3\<rparr>"
  let ?k = "upd_proc 1 (set_eax 0) (upd_proc 1 (p_registers_update (\<lambda>_. ?r)) demo_kernel)"
  have 1: "mpos_interrupt ?r demo_kernel = mpos_schedule ?k"
    by (simp add: mpos_interrupt_def do_wait_def Let_def demo_kernel_def NPROCS_def empty_process_def)
  have "entries_ok ?k"
    by (auto simp: demo_kernel_def entries_ok_def entry_ok_def empty_process_def NPROCS_def set_eax_def)
  moreover have "runnable ?k 2" by (simp add: demo_kernel_def)
  ultimately obtain k' where k': "mpos_schedule ?k = Run k'" using schedule_Run [of ?k 2] by (auto simp: NPROCS_def)
  have "p_state (proc_array k' 3) = P_ZOMBIE"
    by (rule zombie_never_freed [OF demo_table_ok(1), of 3])
      (use 1 k' in \<open>auto simp: NPROCS_def demo_kernel_def empty_process_def\<close>)
  with 1 k' show ?thesis by auto
qed

text \<open>
  A machine whose keyboard answers 1 and whose first image, at address 0, is an empty
  program: the kernel starts.
\<close>

definition demo_memory :: mem where "demo_memory = put32 (\<lambda>_. 0) 0 ELF_MAGIC"

lemma demo_memory_strings: "strings_end demo_memory"
  unfolding strings_end_def
proof
  fix p show "\<exists>q\<ge>p. demo_memory q = 0"
    by (intro exI [of _ "p + 4"]) (simp add: demo_memory_def put32_byte_other)
qed

theorem reachable_table_ok_witness: "\<exists>k. mpos_reachable [0] k \<and> table_ok k"
proof -
  have b: "in_console CONSOLE_BEGIN" by (simp add: in_console_def console_bounds)
  obtain m1 cs where 1: "console_clear demo_memory = (m1, CONSOLE_BEGIN, cs)" by (simp add: console_clear_def)
  have c1: "console_only m m'" if "console_clear m = (m', c, cs)" for m m' c cs
  proof -
    have "confined m (blank_cells m CONSOLE_BEGIN 0x700 2000)"
      by (rule blank_cells_confined [OF b]) (simp add: console_bounds)
    with that show ?thesis by (auto simp: console_clear_def confined_def)
  qed
  have s1: "strings_end m1"
    using strings_end_confined [OF demo_memory_strings, of m1 CONSOLE_BEGIN] c1 [OF 1] b by (simp add: confined_def)
  obtain m2 c2 where 2: "console_printf m1 CONSOLE_BEGIN 0x0700 start_prompt (\<lambda>_. 0) = Some (m2, c2)" "console_only m1 m2"
    using console_printf_confined_run [OF b s1] by blast
  obtain m3 cs3 where 3: "console_clear m2 = (m3, CONSOLE_BEGIN, cs3)" by (simp add: console_clear_def)
  have same: "m3 x = demo_memory x" if "x < CONSOLE_BEGIN" for x
    using that c1 [OF 1] 2(2) c1 [OF 3] by (simp add: console_only_def)
  have magic: "e_magic (elf_at m3 0) = ELF_MAGIC"
  proof -
    have "get32 m3 0 = get32 demo_memory 0" by (rule get32_cong) (simp add: same console_bounds)
    then show ?thesis by (simp add: elf_at_def demo_memory_def)
  qed
  have phnum: "e_phnum (elf_at m3 0) = 0"
    by (simp add: elf_at_def get16_def same console_bounds demo_memory_def put32_byte_other)
  obtain m4 e where 4: "program_loader [0] m3 0 = Inr (m4, e)"
    using magic phnum by (simp add: program_loader_def Let_def)
  have key: "read_choice (\<lambda>_. (1, 2)) 0 = Some 1"
    by (subst read_choice.simps) (simp add: console_read_digit_def)
  obtain k where "mpos_start [0] (\<lambda>_. (1, 2)) (demo_kernel\<lparr>memory := demo_memory\<rparr>) = Run k"
    unfolding mpos_start_def by (simp add: Let_def 1 2 3 4 key run_def)
  then have "mpos_reachable [0] k" by (rule mpos_reachable.start)
  with reachable_table_ok [OF this] show ?thesis by blast
qed

end
