(* ===== verification/Schedos_Kernel.thy ===== *)
theory Schedos_Kernel
  imports Weensy_Machine
begin

text \<open>
  The kernel of SchedOS (weensyos2/schedos-kern.c) and the set-up of schedos-x86.c: five
  scheduling algorithms, the interrupt handler and the start.
\<close>

definition SNPROCS :: int where "SNPROCS = 5"
definition PROC1_START :: int where "PROC1_START = 0x200000"
definition PROC_SIZE :: int where "PROC_SIZE = 0x100000"

record schedos_process = process +
  p_priority :: int
  p_share :: int
  p_share_runs :: int
  p_queue :: int

record schedos_kernel = "schedos_process kernel" +
  scheduling_algorithm :: int
  multi_level_queue :: bool

definition is_runnable :: "schedos_kernel \<Rightarrow> int \<Rightarrow> bool" where
  "is_runnable k pid \<longleftrightarrow> p_state (proc_array k pid) = P_RUNNABLE"

definition has_exited :: "schedos_kernel \<Rightarrow> int \<Rightarrow> bool" where
  "has_exited k pid \<longleftrightarrow> p_state (proc_array k pid) = P_ZOMBIE \<or> p_state (proc_array k pid) = P_EMPTY"

definition current_pid :: "schedos_kernel \<Rightarrow> int" where
  "current_pid k = p_pid (proc_array k (current k))"

section \<open>The scheduling algorithms\<close>

text \<open>Algorithms 0 and 1 return to algorithm 4 when the multi-level queue sent them here.\<close>

definition back_to_queues :: "schedos_kernel \<Rightarrow> schedos_kernel" where
  "back_to_queues k = (if multi_level_queue k then k\<lparr>scheduling_algorithm := 4\<rparr> else k)"

definition schedule_round_robin :: "schedos_kernel \<Rightarrow> schedos_kernel outcome" where
  "schedule_round_robin k =
     (case next_pid SNPROCS (is_runnable k) (current_pid k) of
        None \<Rightarrow> Spin k
      | Some pid \<Rightarrow> run pid (back_to_queues k))"

text \<open>
  One round of \<open>for (pid = 1; pid < NPROCS; pid++)\<close>; it changes nothing when no process is
  runnable, so the endless repetition around it finds nothing either.
\<close>

definition schedule_by_pid :: "schedos_kernel \<Rightarrow> schedos_kernel outcome" where
  "schedule_by_pid k =
     (case List.find (is_runnable k) [1..SNPROCS - 1] of
        None \<Rightarrow> Spin k
      | Some pid \<Rightarrow> run pid (back_to_queues k))"

text \<open>The loop that looks for the smallest priority, from \<open>i\<close> on.\<close>

definition smallest_priority :: "schedos_kernel \<Rightarrow> int \<Rightarrow> int" where
  "smallest_priority k smallest =
     foldl (\<lambda>s i. if is_runnable k i \<and> p_priority (proc_array k i) < s then p_priority (proc_array k i) else s)
       smallest [1..SNPROCS - 1]"

text \<open>
  The first loop of algorithm 2 tests \<open>pid\<close> and advances \<open>i\<close>: it does nothing when the
  current process has not exited, and never ends when it has.
\<close>

definition schedule_by_priority :: "schedos_kernel \<Rightarrow> schedos_kernel outcome" where
  "schedule_by_priority k =
     (let pid = current_pid k
      in if has_exited k pid then Spin k
         else let smallest = smallest_priority k (p_priority (proc_array k pid))
           in case next_pid SNPROCS (\<lambda>pid. is_runnable k pid \<and> p_priority (proc_array k pid) \<le> smallest) pid of
                None \<Rightarrow> Spin k
              | Some pid \<Rightarrow> run pid k)"

partial_function (option) share_loop :: "schedos_kernel \<Rightarrow> int \<Rightarrow> schedos_kernel option" where
  "share_loop k pid =
     (if is_runnable k pid then
        if p_share_runs (proc_array k pid) \<ge> p_share (proc_array k pid)
        then share_loop (upd_proc pid (p_share_runs_update (\<lambda>_. 0)) k) ((pid + 1) smod SNPROCS)
        else Some ((upd_proc pid (p_share_runs_update (\<lambda>n. n + 1)) k)\<lparr>current := pid\<rparr>)
      else share_loop k ((pid + 1) smod SNPROCS))"

definition schedule_by_share :: "schedos_kernel \<Rightarrow> schedos_kernel outcome" where
  "schedule_by_share k = (case share_loop k (current_pid k) of None \<Rightarrow> Forever | Some k \<Rightarrow> Run k)"

text \<open>\<open>while (...ZOMBIE || ...EMPTY) pid = (pid + 1) % NPROCS;\<close>\<close>

partial_function (option) skip_exited :: "schedos_kernel \<Rightarrow> int \<Rightarrow> int option" where
  "skip_exited k pid =
     (if has_exited k pid then skip_exited k ((pid + 1) smod SNPROCS) else Some pid)"

text \<open>The loops of algorithm 4: unblock and find the smallest queue; block the other queues.\<close>

definition unblock_step :: "schedos_kernel \<times> int \<Rightarrow> int \<Rightarrow> schedos_kernel \<times> int" where
  "unblock_step = (\<lambda>(k, s) i.
     let k = (if p_state (proc_array k i) = P_BLOCKED then upd_proc i (p_state_update (\<lambda>_. P_RUNNABLE)) k else k);
         s = (if is_runnable k i \<and> p_queue (proc_array k i) < s then p_queue (proc_array k i) else s)
     in (k, s))"

definition unblock_queues :: "schedos_kernel \<Rightarrow> int \<Rightarrow> schedos_kernel \<times> int" where
  "unblock_queues k smallest = foldl unblock_step (k, smallest) [1..SNPROCS - 1]"

definition block_step :: "int \<Rightarrow> schedos_kernel \<Rightarrow> int \<Rightarrow> schedos_kernel" where
  "block_step smallest k i =
     (if is_runnable k i \<and> p_queue (proc_array k i) \<noteq> smallest
      then upd_proc i (p_state_update (\<lambda>_. P_BLOCKED)) k else k)"

definition block_queues :: "schedos_kernel \<Rightarrow> int \<Rightarrow> schedos_kernel" where
  "block_queues k smallest = foldl (block_step smallest) k [1..SNPROCS - 1]"

definition announce :: "schedos_kernel \<Rightarrow> u8 list \<Rightarrow> int \<Rightarrow> schedos_kernel outcome" where
  "announce k fmt n =
     (case console_printf (memory k) (cursorpos k) 0x100 fmt (\<lambda>_. word_of_int n) of
        None \<Rightarrow> Forever
      | Some (m, cursor) \<Rightarrow> Spin (k\<lparr>memory := m, cursorpos := cursor\<rparr>))"

definition invalid_queue_text :: "u8 list" where
  "invalid_queue_text = [10] @ map (of_nat \<circ> of_char) ''Invalid queue number: %d'' @ [10]"

definition unknown_algorithm_text :: "u8 list" where
  "unknown_algorithm_text = [10] @ map (of_nat \<circ> of_char) ''Unknown scheduling algorithm %d'' @ [10]"

text \<open>
  \<open>schedule\<close>.  Algorithm 4 sets the algorithm to the queue number, 0 or 1, and calls
  \<open>schedule\<close> again, which then starts from the current process.
\<close>

function schedos_schedule :: "schedos_kernel \<Rightarrow> schedos_kernel outcome" where
  "schedos_schedule k =
     (if scheduling_algorithm k = 0 then schedule_round_robin k
      else if scheduling_algorithm k = 1 then schedule_by_pid k
      else if scheduling_algorithm k = 2 then schedule_by_priority k
      else if scheduling_algorithm k = 3 then schedule_by_share k
      else if scheduling_algorithm k = 4 then
        (case skip_exited k (current_pid k) of
           None \<Rightarrow> Spin k
         | Some pid \<Rightarrow>
             let (k, smallest) = unblock_queues k (p_queue (proc_array k pid));
                 k = block_queues k smallest
             in if smallest = 0 \<or> smallest = 1
                then schedos_schedule (k\<lparr>scheduling_algorithm := smallest\<rparr>)
                else announce k invalid_queue_text smallest)
      else announce k unknown_algorithm_text (scheduling_algorithm k))"
  by pat_completeness auto
termination by (relation "measure (\<lambda>k. if scheduling_algorithm k = 4 then 1 else 0)") auto

declare schedos_schedule.simps [simp del]

section \<open>The interrupt handler\<close>

definition schedos_exit :: "schedos_kernel \<Rightarrow> registers \<Rightarrow> schedos_kernel outcome" where
  "schedos_exit k reg =
     (let c = current k;
          k = upd_proc c (p_state_update (\<lambda>_. P_ZOMBIE)) k;
          k = upd_proc c (p_exit_status_update (\<lambda>_. reg_eax reg)) k
      in schedos_schedule k)"

definition schedos_interrupt :: "registers \<Rightarrow> schedos_kernel \<Rightarrow> schedos_kernel outcome" where
  "schedos_interrupt reg k =
     (let c = current k;
          k = upd_proc c (p_registers_update (\<lambda>_. reg)) k;
          intno = reg_intno reg
      in if intno = 48 then schedos_schedule k
         else if intno = 49 then schedos_exit k reg
         else if intno = 50 then run c (upd_proc c (p_priority_update (\<lambda>_. sint (reg_eax reg))) k)
         else if intno = 51 then run c (upd_proc c (p_share_update (\<lambda>_. sint (reg_eax reg))) k)
         else if intno = 52 then
           run c (k\<lparr>memory := put16 (memory k) (cursorpos k) (ucast (reg_eax reg)),
                    cursorpos := cursorpos k + 2\<rparr>)
         else if intno = 53 then run c (upd_proc c (p_queue_update (\<lambda>_. sint (reg_eax reg))) k)
         else if intno = 32 then schedos_schedule k
         else Spin k)"

section \<open>Start\<close>

definition EFLAGS_IF :: u32 where "EFLAGS_IF = 0x200"

definition schedos_special_registers_init :: registers where
  "schedos_special_registers_init = special_registers_init\<lparr>reg_eflags := EFLAGS_IF\<rparr>"

text \<open>The writes to the ports of the interrupt controllers and of the timer, in order.\<close>

definition TIMER_DIV :: "nat \<Rightarrow> nat" where "TIMER_DIV x = (1193182 + x div 2) div x"

definition interrupt_controller_init :: "bool \<Rightarrow> (nat \<times> nat) list" where
  "interrupt_controller_init allow_clock_interrupt =
     [(0x21, 0xFF), (0xA1, 0xFF),
      (0x20, 0x11), (0x21, 32), (0x21, 4), (0x21, 0x3),
      (0xA0, 0x11), (0xA1, 32 + 8), (0xA1, 2), (0xA1, 0x01),
      (0x20, 0x68), (0x20, 0x0a), (0xA0, 0x68), (0xA0, 0x0a),
      (0x21, if allow_clock_interrupt then 0xFE else 0xFF), (0xA1, 0xFF)]
     @ (if allow_clock_interrupt
        then [(0x43, 0x00 OR 0x04 OR 0x30), (0x40, TIMER_DIV 1000 mod 256), (0x40, TIMER_DIV 1000 div 256)]
        else [])"

definition zero_process :: "int \<Rightarrow> schedos_process" where
  "zero_process i = \<lparr>p_pid = i, p_registers = zero_registers, p_state = P_EMPTY, p_exit_status = 0,
     p_priority = 0, p_share = 0, p_share_runs = 0, p_queue = 0\<rparr>"

text \<open>The loop that loads the applications, from descriptor \<open>i\<close> on; \<open>None\<close> when the loader gives up.\<close>

function load_processes :: "nat list \<Rightarrow> int \<Rightarrow> schedos_kernel \<Rightarrow> schedos_kernel + schedos_kernel" where
  "load_processes ramimages i k =
     (if i < SNPROCS then
        let k = upd_proc i (p_registers_update (\<lambda>_. schedos_special_registers_init)) k;
            k = upd_proc i (p_registers_update
                  (reg_esp_update (\<lambda>_. word_of_int (PROC1_START + i * PROC_SIZE)))) k
        in case program_loader ramimages (memory k) (i - 1) of
             Inl m \<Rightarrow> Inl (k\<lparr>memory := m\<rparr>)
           | Inr (m, entry) \<Rightarrow>
               let k = upd_proc i (p_registers_update (reg_eip_update (\<lambda>_. entry))) (k\<lparr>memory := m\<rparr>);
                   k = upd_proc i (p_state_update (\<lambda>_. P_RUNNABLE)) k
               in load_processes ramimages (i + 1) k
      else Inr k)"
  by pat_completeness auto
termination by (relation "measure (\<lambda>(_, i, _). nat (SNPROCS - i))") (auto simp: SNPROCS_def)

declare load_processes.simps [simp del]

definition schedos_start :: "nat list \<Rightarrow> schedos_kernel \<Rightarrow> schedos_kernel outcome" where
  "schedos_start ramimages k =
     (let (m, cursor, _) = console_clear (memory k);
          k = k\<lparr>memory := m, cursorpos := cursor,
                proc_array := \<lambda>i. if 0 \<le> i \<and> i < SNPROCS then zero_process i else proc_array k i\<rparr>;
          k = upd_proc 1 (p_queue_update (\<lambda>_. 0)) k;
          k = upd_proc 2 (p_queue_update (\<lambda>_. 1)) k;
          k = upd_proc 3 (p_queue_update (\<lambda>_. 0)) k;
          k = upd_proc 4 (p_queue_update (\<lambda>_. 1)) k
      in case load_processes ramimages 1 k of
           Inl k \<Rightarrow> Spin k
         | Inr k \<Rightarrow>
             let k = k\<lparr>cursorpos := 0xB8000, scheduling_algorithm := 0\<rparr>;
                 k = k\<lparr>multi_level_queue := (scheduling_algorithm k = 4)\<rparr>;
                 k = upd_proc 1 (p_share_runs_update (\<lambda>n. n + 1)) k
             in run 1 k)"

end
