(* ===== verification/Schedos_Props.thy ===== *)
theory Schedos_Props
  imports Schedos_Kernel Weensy_Scheduler
begin

text \<open>
  SchedOS: which process each scheduling algorithm picks.
\<close>

section \<open>Which process runs next\<close>

definition sched_ok :: "schedos_kernel \<Rightarrow> bool" where
  "sched_ok k \<longleftrightarrow> (\<forall>i. 0 \<le> i \<and> i < SNPROCS \<longrightarrow> p_pid (proc_array k i) = i)
     \<and> p_state (proc_array k 0) = P_EMPTY \<and> 1 \<le> current k \<and> current k < SNPROCS"

lemma sched_okD:
  assumes "sched_ok k"
  shows "current_pid k = current k" "\<not> is_runnable k 0" "has_exited k 0" "0 \<le> current k" "1 \<le> current k" "current k < SNPROCS"
  using assms by (auto simp: sched_ok_def current_pid_def is_runnable_def has_exited_def)

definition rr_pick :: "schedos_kernel \<Rightarrow> int option" where
  "rr_pick k = next_pid SNPROCS (is_runnable k) (current_pid k)"

definition pid_pick :: "schedos_kernel \<Rightarrow> int option" where
  "pid_pick k = List.find (is_runnable k) [1..SNPROCS - 1]"

definition priority_pick :: "schedos_kernel \<Rightarrow> int option" where
  "priority_pick k = next_pid SNPROCS
     (\<lambda>pid. is_runnable k pid \<and> p_priority (proc_array k pid) \<le> smallest_priority k (p_priority (proc_array k (current_pid k))))
     (current_pid k)"

lemma rr_pick_some:
  assumes "sched_ok k" "rr_pick k = Some p"
  shows "0 \<le> p \<and> p < SNPROCS \<and> is_runnable k p"
    "0 \<le> q \<Longrightarrow> q < SNPROCS \<Longrightarrow> is_runnable k q \<Longrightarrow> turn SNPROCS (current k) p \<le> turn SNPROCS (current k) q"
proof -
  note c = sched_okD [OF assms(1)]
  have n: "0 < SNPROCS" by (simp add: SNPROCS_def)
  obtain r where r: "0 \<le> r" "r < SNPROCS" "is_runnable k r"
    using next_pid_None [OF n, of "is_runnable k" "current k"] assms(2) c by (auto simp: rr_pick_def)
  show "0 \<le> p \<and> p < SNPROCS \<and> is_runnable k p"
    "0 \<le> q \<Longrightarrow> q < SNPROCS \<Longrightarrow> is_runnable k q \<Longrightarrow> turn SNPROCS (current k) p \<le> turn SNPROCS (current k) q"
    by (rule next_pid_first [where ok = "is_runnable k", OF n c(4) r], use assms(2) c in \<open>auto simp: rr_pick_def\<close>)+
qed

lemma rr_pick_none:
  assumes "sched_ok k" "rr_pick k = None" "0 \<le> q" "q < SNPROCS"
  shows "\<not> is_runnable k q"
proof
  assume "is_runnable k q"
  with assms(3,4) show False
    by (rule next_pid_first [where pid = "current k" and n = SNPROCS and ok = "is_runnable k", rotated 2])
      (use assms(2) sched_okD [OF assms(1)] in \<open>auto simp: rr_pick_def SNPROCS_def\<close>)
qed

lemma schedule_round_robin_pick:
  "schedule_round_robin k = (case rr_pick k of None \<Rightarrow> Spin k | Some p \<Rightarrow> Run ((back_to_queues k)\<lparr>current := p\<rparr>))"
  by (simp add: schedule_round_robin_def rr_pick_def run_def split: option.split)

lemma back_to_queues_simps [simp]:
  "proc_array (back_to_queues k) = proc_array k" "current (back_to_queues k) = current k"
  "memory (back_to_queues k) = memory k" "multi_level_queue (back_to_queues k) = multi_level_queue k"
  by (simp_all add: back_to_queues_def)

interpretation sched_rr: round_robin SNPROCS sched_ok is_runnable current rr_pick
  "\<lambda>k k'. schedule_round_robin k = Run k'"
proof
  fix k p q
  assume k: "sched_ok k" "rr_pick k = Some p"
  show "0 \<le> p \<and> p < SNPROCS \<and> is_runnable k p" using rr_pick_some [OF k] by blast
  show "turn SNPROCS (current k) p \<le> turn SNPROCS (current k) q" if "0 \<le> q" "q < SNPROCS" "is_runnable k q"
    using rr_pick_some(2) [OF k that] .
next
  fix k q
  assume "sched_ok k" "rr_pick k = None" "0 \<le> q" "q < SNPROCS"
  then show "\<not> is_runnable k q" by (rule rr_pick_none)
next
  fix k :: schedos_kernel and p q
  assume "0 \<le> p" "p < SNPROCS" "0 \<le> q" "q < SNPROCS" "turn SNPROCS (current k) p = turn SNPROCS (current k) q"
  then show "p = q" by (rule turn_inj)
next
  show "0 < SNPROCS" by (simp add: SNPROCS_def)
next
  fix k k'
  assume k: "sched_ok k" "schedule_round_robin k = Run k'"
  then obtain p where p: "rr_pick k = Some p" "k' = (back_to_queues k)\<lparr>current := p\<rparr>"
    by (auto simp: schedule_round_robin_pick split: option.splits)
  then show "rr_pick k = Some (current k')" by simp
  from rr_pick_some(1) [OF k(1) p(1)] sched_okD(2) [OF k(1)] have "1 \<le> p" "p < SNPROCS"
    by (auto simp: order_le_less)
  with k(1) p(2) show "sched_ok k'" by (simp add: sched_ok_def)
  fix q
  from p(2) show "is_runnable k' q = is_runnable k q" by (simp add: is_runnable_def)
qed

interpretation sched_pid: scheduler SNPROCS sched_ok is_runnable "\<lambda>_ p. p" pid_pick
proof
  fix k p q
  assume k: "sched_ok k" "pid_pick k = Some p"
  show p: "0 \<le> p \<and> p < SNPROCS \<and> is_runnable k p"
    using k(2) unfolding pid_pick_def find_Some_iff by auto
  show "p \<le> q" if q: "0 \<le> q" "q < SNPROCS" "is_runnable k q"
  proof (rule ccontr)
    assume "\<not> p \<le> q"
    moreover have "q \<noteq> 0" using q(3) sched_okD(2) [OF k(1)] by auto
    ultimately have q1: "1 \<le> q" "q < p" using q by auto
    obtain i where i: "i < length [1..SNPROCS - 1]" "[1..SNPROCS - 1] ! i = p" "\<forall>j<i. \<not> is_runnable k ([1..SNPROCS - 1] ! j)"
      using k(2) unfolding pid_pick_def find_Some_iff by auto
    then have "nat (q - 1) < i" using q1 by (auto simp: nth_upto)
    with i(3) have "\<not> is_runnable k ([1..SNPROCS - 1] ! nat (q - 1))" by blast
    moreover have "[1..SNPROCS - 1] ! nat (q - 1) = q" using q1 q by (simp add: nth_upto)
    ultimately show False using q(3) by simp
  qed
next
  fix k q
  assume k: "sched_ok k" "pid_pick k = None" "0 \<le> q" "q < SNPROCS"
  show "\<not> is_runnable k q"
  proof (cases "q = 0")
    case False
    with k show ?thesis unfolding pid_pick_def find_None_iff by auto
  qed (use sched_okD(2) [OF k(1)] in simp)
qed

subsection \<open>Priorities\<close>

lemma smallest_fold:
  fixes r :: "int \<Rightarrow> bool" and f :: "int \<Rightarrow> int" and xs :: "int list"
  defines "g \<equiv> \<lambda>s. foldl (\<lambda>s i. if r i \<and> f i < s then f i else s) s xs"
  shows "g s \<le> s" "\<forall>i\<in>set xs. r i \<longrightarrow> g s \<le> f i" "g s = s \<or> (\<exists>i\<in>set xs. r i \<and> g s = f i)"
proof -
  have "g s \<le> s \<and> (\<forall>i\<in>set xs. r i \<longrightarrow> g s \<le> f i) \<and> (g s = s \<or> (\<exists>i\<in>set xs. r i \<and> g s = f i))"
    unfolding g_def
  proof (induction xs arbitrary: s)
    case (Cons x xs)
    let ?s = "if r x \<and> f x < s then f x else s"
    from Cons [of ?s] show ?case by auto
  qed simp
  then show "g s \<le> s" "\<forall>i\<in>set xs. r i \<longrightarrow> g s \<le> f i" "g s = s \<or> (\<exists>i\<in>set xs. r i \<and> g s = f i)" by auto
qed

text \<open>Priority first, then the order of the round.\<close>

definition priority_rank :: "schedos_kernel \<Rightarrow> int \<Rightarrow> int" where
  "priority_rank k p = p_priority (proc_array k p) * SNPROCS + turn SNPROCS (current k) p"

lemma priority_rank_le:
  "priority_rank k p \<le> priority_rank k q \<longleftrightarrow>
     p_priority (proc_array k p) < p_priority (proc_array k q)
     \<or> p_priority (proc_array k p) = p_priority (proc_array k q) \<and> turn SNPROCS (current k) p \<le> turn SNPROCS (current k) q"
proof -
  have "1 \<le> turn SNPROCS (current k) r \<and> turn SNPROCS (current k) r \<le> 5" for r
    using turn_range [of SNPROCS "current k" r] by (simp add: SNPROCS_def)
  from this [of p] this [of q] show ?thesis by (auto simp: priority_rank_def SNPROCS_def)
qed

definition priority_ok :: "schedos_kernel \<Rightarrow> bool" where
  "priority_ok k \<longleftrightarrow> sched_ok k \<and> is_runnable k (current k)"

lemma priority_pick_first:
  assumes "priority_ok k"
  obtains p where "priority_pick k = Some p" "0 \<le> p" "p < SNPROCS" "is_runnable k p"
    "\<And>q. 0 \<le> q \<Longrightarrow> q < SNPROCS \<Longrightarrow> is_runnable k q \<Longrightarrow> priority_rank k p \<le> priority_rank k q"
proof -
  have k: "sched_ok k" "is_runnable k (current k)" using assms by (auto simp: priority_ok_def)
  note c = sched_okD [OF k(1)]
  define prio where "prio i = p_priority (proc_array k i)" for i
  define s where "s = smallest_priority k (prio (current k))"
  have s: "s \<le> prio (current k)" "\<forall>i\<in>set [1..SNPROCS - 1]. is_runnable k i \<longrightarrow> s \<le> prio i"
    "s = prio (current k) \<or> (\<exists>i\<in>set [1..SNPROCS - 1]. is_runnable k i \<and> s = prio i)"
    unfolding s_def smallest_priority_def prio_def by (rule smallest_fold)+
  have le: "s \<le> prio q" if "0 \<le> q" "q < SNPROCS" "is_runnable k q" for q
    using that s(2) c(2) by (cases "q = 0") auto
  let ?ok = "\<lambda>pid. is_runnable k pid \<and> prio pid \<le> s"
  have pp: "priority_pick k = next_pid SNPROCS ?ok (current k)"
    by (simp add: priority_pick_def c(1) s_def prio_def)
  have "\<exists>r. 0 \<le> r \<and> r < SNPROCS \<and> is_runnable k r \<and> prio r = s"
    using s(3)
  proof
    assume "s = prio (current k)"
    then show ?thesis using k(2) c by (intro exI [of _ "current k"]) simp
  next
    assume "\<exists>i\<in>set [1..SNPROCS - 1]. is_runnable k i \<and> s = prio i"
    then obtain i where "i \<in> set [1..SNPROCS - 1]" "is_runnable k i" "s = prio i" by blast
    then show ?thesis by (intro exI [of _ i]) simp
  qed
  then obtain r where r: "0 \<le> r" "r < SNPROCS" "is_runnable k r" "prio r = s" by blast
  have n: "0 < SNPROCS" by (simp add: SNPROCS_def)
  have "?ok r" using r by simp
  from next_pid_first [OF n c(4) r(1,2), of ?ok, OF this]
  obtain p where p: "next_pid SNPROCS ?ok (current k) = Some p" "?ok p" "0 \<le> p" "p < SNPROCS"
    "\<And>q. 0 \<le> q \<Longrightarrow> q < SNPROCS \<Longrightarrow> ?ok q \<Longrightarrow> turn SNPROCS (current k) p \<le> turn SNPROCS (current k) q"
    by blast
  have "priority_rank k p \<le> priority_rank k q" if q: "0 \<le> q" "q < SNPROCS" "is_runnable k q" for q
  proof -
    have "prio p = s" using p(2-4) le by fastforce
    then show ?thesis
      using le [OF q] p(5) [OF q(1,2)] q(3) unfolding priority_rank_le prio_def [symmetric] by (cases "prio q = s") auto
  qed
  with that p pp show thesis by auto
qed

interpretation sched_priority: scheduler SNPROCS priority_ok is_runnable priority_rank priority_pick
proof
  fix k p q
  assume k: "priority_ok k" "priority_pick k = Some p"
  show "0 \<le> p \<and> p < SNPROCS \<and> is_runnable k p" using priority_pick_first [OF k(1)] k(2) by auto
  show "priority_rank k p \<le> priority_rank k q" if "0 \<le> q" "q < SNPROCS" "is_runnable k q"
    using priority_pick_first [OF k(1)] k(2) that by auto
next
  fix k q
  assume k: "priority_ok k" "priority_pick k = None"
  obtain p where "priority_pick k = Some p" by (rule priority_pick_first [OF k(1)])
  with k(2) show "\<not> is_runnable k q" by simp
next
  fix k p q
  assume "0 \<le> p" "p < SNPROCS" "0 \<le> q" "q < SNPROCS" "priority_rank k p = priority_rank k q"
  note eq = this
  from eq(5) have "turn SNPROCS (current k) p = turn SNPROCS (current k) q"
    using priority_rank_le [of k p q] priority_rank_le [of k q p] by linarith
  with eq(1-4) show "p = q" by (rule turn_inj)
qed

text \<open>What each algorithm prefers: the order of the round, the process ID, or the priority.\<close>

definition preference :: "schedos_kernel \<Rightarrow> int \<Rightarrow> int" where
  "preference k p =
     (if scheduling_algorithm k = 0 then turn SNPROCS (current k) p
      else if scheduling_algorithm k = 1 then p
      else priority_rank k p)"

lemma pick_unfold:
  assumes "scheduling_algorithm k \<in> {0, 1, 2}" "priority_ok k"
  shows "schedos_schedule k =
    (let k' = (if scheduling_algorithm k = 2 then k else back_to_queues k) in
     case (if scheduling_algorithm k = 0 then rr_pick k else if scheduling_algorithm k = 1 then pid_pick k else priority_pick k) of
       None \<Rightarrow> Spin k
     | Some p \<Rightarrow> Run (k'\<lparr>current := p\<rparr>))"
proof -
  have "\<not> has_exited k (current_pid k)"
    using assms(2) sched_okD(1) by (auto simp: priority_ok_def has_exited_def is_runnable_def)
  with assms(1) show ?thesis
    by (subst schedos_schedule.simps)
      (auto simp: schedule_round_robin_pick schedule_by_pid_def pid_pick_def schedule_by_priority_def priority_pick_def
        run_def Let_def split: option.split)
qed

text \<open>
  C10 While the current process is runnable, \<open>schedule\<close> under each of the first three
  algorithms picks exactly the most preferred runnable process: the next one in the
  round, the one with the smallest process ID, or the next one in the round among those
  whose priority number is smallest.
\<close>

theorem schedule_picks_preferred:
  assumes "sched_ok k" "p_state (proc_array k (current k)) = P_RUNNABLE" "scheduling_algorithm k \<in> {0, 1, 2}"
  shows "(\<exists>k'. schedos_schedule k = Run k' \<and> current k' = p) \<longleftrightarrow>
    0 \<le> p \<and> p < SNPROCS \<and> p_state (proc_array k p) = P_RUNNABLE
    \<and> (\<forall>q. 0 \<le> q \<and> q < SNPROCS \<and> p_state (proc_array k q) = P_RUNNABLE \<longrightarrow> preference k p \<le> preference k q)"
proof -
  have ok: "priority_ok k" using assms by (simp add: priority_ok_def is_runnable_def)
  have run: "(\<exists>k'. schedos_schedule k = Run k' \<and> current k' = p) \<longleftrightarrow> pick = Some p"
    if "pick = (if scheduling_algorithm k = 0 then rr_pick k else if scheduling_algorithm k = 1 then pid_pick k
      else priority_pick k)" for pick
    unfolding pick_unfold [OF assms(3) ok] that [symmetric] by (auto simp: Let_def split: option.splits)
  consider "scheduling_algorithm k = 0" | "scheduling_algorithm k = 1" | "scheduling_algorithm k = 2"
    using assms(3) by auto
  then show ?thesis
  proof cases
    case 1
    then show ?thesis
      using run [of "rr_pick k"] sched_rr.pick_iff [OF assms(1), of p] by (simp add: preference_def is_runnable_def)
  next
    case 2
    then show ?thesis
      using run [of "pid_pick k"] sched_pid.pick_iff [OF assms(1), of p] by (simp add: preference_def is_runnable_def)
  next
    case 3
    then show ?thesis
      using run [of "priority_pick k"] sched_priority.pick_iff [OF ok, of p] by (simp add: preference_def is_runnable_def)
  qed
qed


section \<open>The multi-level queue\<close>

text \<open>A process that has not exited: algorithm 4 leaves it blocked or runnable.\<close>

definition alive :: "schedos_kernel \<Rightarrow> int \<Rightarrow> bool" where
  "alive k p \<longleftrightarrow> 0 \<le> p \<and> p < SNPROCS \<and> \<not> has_exited k p"

lemma not_exited: "\<not> has_exited k p \<longleftrightarrow> p_state (proc_array k p) = P_RUNNABLE \<or> p_state (proc_array k p) = P_BLOCKED"
  by (cases "p_state (proc_array k p)") (auto simp: has_exited_def)

lemma skip_exited_alive:
  assumes "0 \<le> pid" "pid < SNPROCS" "\<not> has_exited k ((pid + int d) mod SNPROCS)"
  shows "\<exists>p. skip_exited k pid = Some p \<and> alive k p"
  using assms
proof (induction d arbitrary: pid)
  case 0
  then have "\<not> has_exited k pid" by simp
  with 0 show ?case by (subst skip_exited.simps) (simp add: alive_def)
next
  case (Suc d)
  show ?case
  proof (cases "has_exited k pid")
    case True
    let ?p = "(pid + 1) mod SNPROCS"
    have "(?p + int d) mod SNPROCS = (pid + int (Suc d)) mod SNPROCS"
      using mod_add_left_eq [of "pid + 1" SNPROCS "int d"] by (simp add: algebra_simps)
    then have "\<exists>p. skip_exited k ?p = Some p \<and> alive k p"
      using Suc.prems(3) by (intro Suc.IH) (auto simp: SNPROCS_def simp del: of_nat_Suc)
    moreover have "(pid + 1) smod SNPROCS = ?p" using Suc.prems(1) by (intro smod_mod) (auto simp: SNPROCS_def)
    ultimately show ?thesis using True by (subst skip_exited.simps) simp
  next
    case False
    with Suc.prems show ?thesis by (subst skip_exited.simps) (simp add: alive_def)
  qed
qed

abbreviation set_state :: "procstate \<Rightarrow> schedos_process \<Rightarrow> schedos_process" where
  "set_state st \<equiv> p_state_update (\<lambda>_. st)"

lemma unblock_steps:
  assumes "distinct xs"
  shows "fst (foldl unblock_step (k, s) xs) = k\<lparr>proc_array := \<lambda>i. if i \<in> set xs \<and> p_state (proc_array k i) = P_BLOCKED
           then set_state P_RUNNABLE (proc_array k i) else proc_array k i\<rparr>
    \<and> snd (foldl unblock_step (k, s) xs)
        = foldl (\<lambda>s i. if \<not> has_exited k i \<and> p_queue (proc_array k i) < s then p_queue (proc_array k i) else s) s xs"
  using assms
proof (induction xs arbitrary: k s)
  case Nil
  then show ?case by simp
next
  case (Cons x xs)
  define k' where "k' = k\<lparr>proc_array := \<lambda>i. if i = x \<and> p_state (proc_array k i) = P_BLOCKED
      then set_state P_RUNNABLE (proc_array k i) else proc_array k i\<rparr>"
  define s' where "s' = (if \<not> has_exited k x \<and> p_queue (proc_array k x) < s then p_queue (proc_array k x) else s)"
  have k': "(if p_state (proc_array k x) = P_BLOCKED then upd_proc x (set_state P_RUNNABLE) k else k) = k'"
    by (cases k) (auto simp: k'_def upd_proc_def fun_eq_iff)
  have "is_runnable k' x \<longleftrightarrow> \<not> has_exited k x" "p_queue (proc_array k' i) = p_queue (proc_array k i)"
    "has_exited k' i \<longleftrightarrow> has_exited k i" for i
    by (cases "p_state (proc_array k x)"; auto simp: k'_def is_runnable_def has_exited_def)+
  note same = this
  have step: "unblock_step (k, s) x = (k', s')"
    by (simp add: unblock_step_def Let_def k' same s'_def)
  from Cons.prems have x: "x \<notin> set xs" "distinct xs" by auto
  show ?case
  proof
    have "fst (foldl unblock_step (k, s) (x # xs)) = k'\<lparr>proc_array := \<lambda>i. if i \<in> set xs \<and> p_state (proc_array k' i) = P_BLOCKED
        then set_state P_RUNNABLE (proc_array k' i) else proc_array k' i\<rparr>"
      unfolding foldl_Cons step using Cons.IH [OF x(2), of k' s'] by blast
    also have "\<dots> = k\<lparr>proc_array := \<lambda>i. if i \<in> set (x # xs) \<and> p_state (proc_array k i) = P_BLOCKED
        then set_state P_RUNNABLE (proc_array k i) else proc_array k i\<rparr>"
      using x(1) by (auto simp: k'_def fun_eq_iff)
    finally show "fst (foldl unblock_step (k, s) (x # xs)) = k\<lparr>proc_array := \<lambda>i. if i \<in> set (x # xs) \<and> p_state (proc_array k i) = P_BLOCKED
        then set_state P_RUNNABLE (proc_array k i) else proc_array k i\<rparr>" .
    have "snd (foldl unblock_step (k, s) (x # xs))
        = foldl (\<lambda>s i. if \<not> has_exited k' i \<and> p_queue (proc_array k' i) < s then p_queue (proc_array k' i) else s) s' xs"
      unfolding foldl_Cons step using Cons.IH [OF x(2), of k' s'] by blast
    then show "snd (foldl unblock_step (k, s) (x # xs))
        = foldl (\<lambda>s i. if \<not> has_exited k i \<and> p_queue (proc_array k i) < s then p_queue (proc_array k i) else s) s (x # xs)"
      by (simp only: same foldl_Cons s'_def)
  qed
qed

lemma block_steps:
  assumes "distinct xs"
  shows "foldl (block_step s) k xs = k\<lparr>proc_array := \<lambda>i. if i \<in> set xs \<and> is_runnable k i \<and> p_queue (proc_array k i) \<noteq> s
     then set_state P_BLOCKED (proc_array k i) else proc_array k i\<rparr>"
  using assms
proof (induction xs arbitrary: k)
  case Nil
  then show ?case by simp
next
  case (Cons x xs)
  define k' where "k' = k\<lparr>proc_array := \<lambda>i. if i = x \<and> is_runnable k i \<and> p_queue (proc_array k i) \<noteq> s
      then set_state P_BLOCKED (proc_array k i) else proc_array k i\<rparr>"
  have step: "block_step s k x = k'"
    by (cases k) (auto simp: k'_def block_step_def upd_proc_def fun_eq_iff)
  from Cons.prems have x: "x \<notin> set xs" "distinct xs" by auto
  show ?case
    unfolding foldl_Cons step using Cons.IH [OF x(2), of k'] x(1)
    by (auto simp: k'_def is_runnable_def fun_eq_iff)
qed

text \<open>The state in which algorithm 4 hands over to the algorithm of queue \<open>s\<close>.\<close>

definition queue_selected :: "schedos_kernel \<Rightarrow> int \<Rightarrow> schedos_kernel" where
  "queue_selected k s = k\<lparr>proc_array := \<lambda>i. if 1 \<le> i \<and> alive k i
     then set_state (if p_queue (proc_array k i) = s then P_RUNNABLE else P_BLOCKED) (proc_array k i)
     else proc_array k i\<rparr>"

lemma queues_effect:
  assumes "unblock_queues k q = (k', s)"
  shows "block_queues k' s = queue_selected k s"
    and "s = foldl (\<lambda>s i. if \<not> has_exited k i \<and> p_queue (proc_array k i) < s then p_queue (proc_array k i) else s) q [1..SNPROCS - 1]"
proof -
  have d: "distinct [1..SNPROCS - 1]" by simp
  have k': "k' = k\<lparr>proc_array := \<lambda>i. if i \<in> set [1..SNPROCS - 1] \<and> p_state (proc_array k i) = P_BLOCKED
      then set_state P_RUNNABLE (proc_array k i) else proc_array k i\<rparr>"
    and s: "s = foldl (\<lambda>s i. if \<not> has_exited k i \<and> p_queue (proc_array k i) < s then p_queue (proc_array k i) else s) q [1..SNPROCS - 1]"
    using unblock_steps [OF d, of k q] assms by (auto simp: unblock_queues_def)
  show "s = foldl (\<lambda>s i. if \<not> has_exited k i \<and> p_queue (proc_array k i) < s then p_queue (proc_array k i) else s) q [1..SNPROCS - 1]"
    by (rule s)
  have "(if i \<in> set [1..SNPROCS - 1] \<and> is_runnable k' i \<and> p_queue (proc_array k' i) \<noteq> s
      then set_state P_BLOCKED (proc_array k' i) else proc_array k' i)
    = (if 1 \<le> i \<and> alive k i then set_state (if p_queue (proc_array k i) = s then P_RUNNABLE else P_BLOCKED) (proc_array k i)
       else proc_array k i)" for i
    by (cases "p_state (proc_array k i)") (auto simp: k' is_runnable_def alive_def has_exited_def)
  then show "block_queues k' s = queue_selected k s"
    unfolding block_queues_def block_steps [OF d] queue_selected_def by (simp add: k')
qed

text \<open>
  With the multi-level queue, as long as a process has not exited and the smallest queue
  number among such processes is 0 or 1, \<open>schedule\<close> runs a process of that queue, unblocks
  it if an earlier call had blocked it, and is back in algorithm 4 afterwards.
\<close>

theorem queue_schedule:
  assumes "sched_ok k" "scheduling_algorithm k = 4" "multi_level_queue k"
    and "alive k q" "\<forall>p. alive k p \<longrightarrow> p_queue (proc_array k q) \<le> p_queue (proc_array k p)"
    and "p_queue (proc_array k q) = 0 \<or> p_queue (proc_array k q) = 1"
  shows "\<exists>k'. schedos_schedule k = Run k' \<and> alive k (current k') \<and> p_state (proc_array k' (current k')) = P_RUNNABLE
    \<and> p_queue (proc_array k (current k')) = p_queue (proc_array k q) \<and> scheduling_algorithm k' = 4"
proof -
  note c = sched_okD [OF assms(1)]
  define s where "s = p_queue (proc_array k q)"
  have q: "1 \<le> q" "q < SNPROCS" "\<not> has_exited k q"
    using assms(4) c(3) by (auto simp: alive_def order_le_less)
  have "(current k + int (nat ((q - current k) mod SNPROCS))) mod SNPROCS = q"
  proof -
    have "(current k + (q - current k) mod SNPROCS) mod SNPROCS = (current k + (q - current k)) mod SNPROCS"
      by (rule mod_add_right_eq)
    then show ?thesis using q by (simp add: SNPROCS_def)
  qed
  then obtain p where p: "skip_exited k (current_pid k) = Some p" "alive k p"
    using skip_exited_alive [OF c(4,6)] q(3) c(1) by metis
  obtain k1 s1 where 1: "unblock_queues k (p_queue (proc_array k p)) = (k1, s1)" by fastforce
  note eff = queues_effect [OF 1]
  have "s1 \<le> p_queue (proc_array k p)" "\<forall>i\<in>set [1..SNPROCS - 1]. \<not> has_exited k i \<longrightarrow> s1 \<le> p_queue (proc_array k i)"
    "s1 = p_queue (proc_array k p) \<or> (\<exists>i\<in>set [1..SNPROCS - 1]. \<not> has_exited k i \<and> s1 = p_queue (proc_array k i))"
    unfolding eff(2) by (rule smallest_fold)+
  note min = this
  have al: "alive k i" if "i \<in> set [1..SNPROCS - 1]" "\<not> has_exited k i" for i using that by (auto simp: alive_def)
  have "q \<in> set [1..SNPROCS - 1]" using q by simp
  with min(2) q(3) have "s1 \<le> s" unfolding s_def by blast
  moreover have "s \<le> s1" using min(3) al p(2) assms(5) unfolding s_def by metis
  ultimately have s1: "s1 = s" by simp
  define k2 where "k2 = (queue_selected k s)\<lparr>scheduling_algorithm := s\<rparr>"
  have blocked: "block_queues k1 s = queue_selected k s" using eff(1) by (simp only: s1)
  have s01: "s = 0 \<or> s = 1" using assms(6) by (simp add: s_def)
  then have sched: "schedos_schedule k = schedos_schedule k2"
    by (subst schedos_schedule.simps) (simp add: assms(2) p(1) 1 s1 blocked k2_def)
  have run2: "is_runnable k2 i \<longleftrightarrow> alive k i \<and> p_queue (proc_array k i) = s" if "0 \<le> i" "i < SNPROCS" for i
    using that c(3) by (cases "i = 0") (auto simp: k2_def queue_selected_def is_runnable_def alive_def has_exited_def)
  have ok2: "sched_ok k2" using assms(1) c(3) by (auto simp: sched_ok_def k2_def queue_selected_def alive_def)
  have rq: "is_runnable k2 q" using run2 [of q] q assms(4) by (simp add: s_def)
  have m2: "multi_level_queue k2" "scheduling_algorithm k2 = s" using assms(3) by (simp_all add: k2_def queue_selected_def)
  define pick where "pick = (if s = 0 then rr_pick k2 else pid_pick k2)"
  have "pick \<noteq> None"
    using sched_rr.pick_none [OF ok2, of q] sched_pid.pick_none [OF ok2, of q] rq q by (auto simp: pick_def)
  then obtain r where r: "pick = Some r" by blast
  have rr: "0 \<le> r \<and> r < SNPROCS \<and> is_runnable k2 r"
    using sched_rr.pick_ready [OF ok2, of r] sched_pid.pick_ready [OF ok2, of r] r by (auto simp: pick_def split: if_splits)
  have "schedos_schedule k2 = Run ((back_to_queues k2)\<lparr>current := r\<rparr>)"
    using r m2(2) s01
    by (subst schedos_schedule.simps) (auto simp: pick_def schedule_round_robin_pick schedule_by_pid_def pid_pick_def run_def split: if_splits)
  then show ?thesis
    using sched rr run2 [of r] m2(1) by (auto simp: back_to_queues_def is_runnable_def s_def)
qed

section \<open>The properties at work\<close>

text \<open>Processes 1 and 2 are runnable, 1 runs, and 2 has the smaller priority number.\<close>

definition demo_sched :: "int \<Rightarrow> schedos_kernel" where
  "demo_sched algorithm = \<lparr>proc_array = \<lambda>i. (zero_process i)\<lparr>p_state := if i = 1 \<or> i = 2 then P_RUNNABLE else P_EMPTY,
       p_priority := 5 - i, p_queue := 2 - i\<rparr>,
     current = 1, memory = \<lambda>_. 0, cursorpos = CONSOLE_BEGIN,
     scheduling_algorithm = algorithm, multi_level_queue = (algorithm = 4)\<rparr>"

lemma demo_sched_ok: "sched_ok (demo_sched a)" "p_state (proc_array (demo_sched a) (current (demo_sched a))) = P_RUNNABLE"
  by (auto simp: sched_ok_def demo_sched_def zero_process_def SNPROCS_def)

theorem schedule_picks_preferred_witness:
  "\<exists>k'. schedos_schedule (demo_sched 2) = Run k' \<and> current k' = 2"
proof -
  have "preference (demo_sched 2) 2 \<le> preference (demo_sched 2) q" if "q = 1 \<or> q = 2" for q
    using that by (auto simp: preference_def priority_rank_def demo_sched_def turn_def SNPROCS_def)
  then show ?thesis
    using schedule_picks_preferred [OF demo_sched_ok, of 2 2]
    by (auto simp: demo_sched_def [of 2] SNPROCS_def split: if_splits)
qed


theorem queue_schedule_witness:
  "\<exists>k'. schedos_schedule (demo_sched 4) = Run k' \<and> p_queue (proc_array (demo_sched 4) (current k')) = 0 \<and> scheduling_algorithm k' = 4"
proof -
  have a: "alive (demo_sched 4) p \<longleftrightarrow> p = 1 \<or> p = 2" for p
    by (auto simp: alive_def has_exited_def demo_sched_def SNPROCS_def)
  have "p_queue (proc_array (demo_sched 4) p) = 2 - p" for p by (simp add: demo_sched_def)
  then show ?thesis
    using queue_schedule [OF demo_sched_ok(1), of 4 2] a by (auto simp: demo_sched_def [of 4])
qed

end
