(* ===== verification/Peer_Format.thy ===== *)
theory Peer_Format
  imports Prelude "HOL-Library.Signed_Division"
begin

text \<open>
  writescan.c: the messages peers exchange.  Quoting, the formatted writer, the scanner, and
  the proof that what the writer sends the scanner reads back; a peer of a tracker's answer.
\<close>

section \<open>Characters\<close>

text \<open>The classes of \<open>ctype.h\<close> in the C locale.\<close>

definition is_digit8 :: "u8 \<Rightarrow> bool" where
  "is_digit8 c \<longleftrightarrow> 0x30 \<le> c \<and> c \<le> 0x39"

definition is_alnum8 :: "u8 \<Rightarrow> bool" where
  "is_alnum8 c \<longleftrightarrow> is_digit8 c \<or> 0x41 \<le> c \<and> c \<le> 0x5A \<or> 0x61 \<le> c \<and> c \<le> 0x7A"

definition is_xdigit8 :: "u8 \<Rightarrow> bool" where
  "is_xdigit8 c \<longleftrightarrow> is_digit8 c \<or> 0x41 \<le> c \<and> c \<le> 0x46 \<or> 0x61 \<le> c \<and> c \<le> 0x66"

definition is_space8 :: "u8 \<Rightarrow> bool" where
  "is_space8 c \<longleftrightarrow> c = 0x20 \<or> 0x09 \<le> c \<and> c \<le> 0x0D"

definition to_lower8 :: "u8 \<Rightarrow> u8" where
  "to_lower8 c = (if 0x41 \<le> c \<and> c \<le> 0x5A then c + 0x20 else c)"

definition bytes_of :: "string \<Rightarrow> u8 list" where
  "bytes_of s = map (of_nat \<circ> of_char) s"

section \<open>Quoting\<close>

definition quote_safe :: "u8 \<Rightarrow> bool" where
  "quote_safe c \<longleftrightarrow> is_alnum8 c \<or> c \<in> {0x24, 0x2D, 0x5F, 0x2E, 0x2B, 0x21, 0x2A, 0x27, 0x28, 0x29, 0x2C}"

definition hex_digits :: "u8 list" where
  "hex_digits = bytes_of ''0123456789ABCDEF''"

text \<open>
  \<open>http_quote\<close> of a C string, given by its bytes; \<open>alloc\<close> tells which sizes \<open>malloc\<close>
  finds room for, and a null pointer is \<open>None\<close>.
\<close>

fun quote_bytes :: "u8 list \<Rightarrow> u8 list" where
  "quote_bytes [] = []"
| "quote_bytes (c # s) =
     (if quote_safe c then c # quote_bytes s
      else 0x25 # hex_digits ! unat (c div 16) # hex_digits ! unat (c AND 15) # quote_bytes s)"

definition http_quote :: "(nat \<Rightarrow> bool) \<Rightarrow> u8 list option \<Rightarrow> errno + u8 list" where
  "http_quote alloc s =
     (case s of
        None \<Rightarrow> Inl EINVAL
      | Some s \<Rightarrow> if \<not> alloc (3 * length s + 1) then Inl ENOMEM else Inr (quote_bytes s))"

definition xvalue :: "u8 \<Rightarrow> int" where
  "xvalue c = (if 0x30 \<le> c \<and> c \<le> 0x39 then int (unat c) - 0x30 else int (unat (to_lower8 c)) - 0x61 + 10)"

section \<open>Writing messages\<close>

text \<open>\<open>sprintf\<close> of \<open>%d\<close> and \<open>inet_ntoa\<close>; an address is given in host byte order.\<close>

function decimal :: "nat \<Rightarrow> u8 list" where
  "decimal n = (if n < 10 then [] else decimal (n div 10)) @ [of_nat (0x30 + n mod 10)]"
  by pat_completeness auto
termination by (relation "measure id") auto

declare decimal.simps [simp del]

definition signed_decimal :: "int \<Rightarrow> u8 list" where
  "signed_decimal i = (if i < 0 then 0x2D # decimal (nat (- i)) else decimal (nat i))"

definition dotted_quad :: "u32 \<Rightarrow> u8 list" where
  "dotted_quad a = decimal (unat (drop_bit 24 a)) @ [0x2E] @ decimal (unat (drop_bit 16 a) mod 256) @ [0x2E]
     @ decimal (unat (drop_bit 8 a) mod 256) @ [0x2E] @ decimal (unat a mod 256)"

text \<open>
  The message under construction: the bytes in the buffer, its capacity, and whether memory has
  been used wrongly: a write has gone past the capacity, or the null pointer that a failed
  \<open>http_quote\<close> returns has been handed to \<open>strlen\<close>.
\<close>

record message =
  msg_bytes :: "u8 list"
  msg_capacity :: nat
  msg_overrun :: bool

definition ensure_buf :: "(nat \<Rightarrow> bool) \<Rightarrow> message \<Rightarrow> nat \<Rightarrow> message option" where
  "ensure_buf alloc m len =
     (if len \<ge> msg_capacity m then
        if \<not> alloc (len + 2048) then None else Some (m\<lparr>msg_capacity := len + 2048\<rparr>)
      else Some m)"

text \<open>Storing \<open>bs\<close> behind the message, and the null byte that \<open>strcpy\<close> and \<open>sprintf\<close> add.\<close>

definition put_bytes :: "message \<Rightarrow> u8 list \<Rightarrow> nat \<Rightarrow> message" where
  "put_bytes m bs extra =
     m\<lparr>msg_bytes := msg_bytes m @ bs,
       msg_overrun := msg_overrun m \<or> length (msg_bytes m) + length bs + extra > msg_capacity m\<rparr>"

datatype warg = WStr "u8 list" | WInt int | WAddr u32

text \<open>Make room for \<open>room\<close> bytes behind the message, then store.\<close>

definition store :: "(nat \<Rightarrow> bool) \<Rightarrow> nat \<Rightarrow> u8 list \<Rightarrow> nat \<Rightarrow> message \<Rightarrow> message option" where
  "store alloc room bs extra m =
     map_option (\<lambda>m. put_bytes m bs extra) (ensure_buf alloc m (length (msg_bytes m) + room))"

text \<open>
  The loop over the format: \<open>None\<close> when memory runs out.  An argument of another type than
  the format asks for, or a missing one, is undefined in C and has no result here.  The loop
  ends at the null pointer of a failed \<open>http_quote\<close>, with the message marked.
\<close>

fun build_message :: "(nat \<Rightarrow> bool) \<Rightarrow> u8 list \<Rightarrow> warg list \<Rightarrow> message \<Rightarrow> message option" where
  "build_message alloc [] args m = Some m"
| "build_message alloc [c] args m = store alloc 1 [c] 0 m"
| "build_message alloc (c # d # f) args m =
     (if c = 0x25 \<and> d = 0x73 then
        (case args of
           WStr str # args \<Rightarrow>
             (case http_quote alloc (Some str) of
                Inl _ \<Rightarrow> Some (m\<lparr>msg_overrun := True\<rparr>)
              | Inr q \<Rightarrow> Option.bind (store alloc (length q) q 1 m) (build_message alloc f args))
         | _ \<Rightarrow> None)
      else if c = 0x25 \<and> d = 0x64 then
        (case args of
           WInt i # args \<Rightarrow> Option.bind (store alloc 10 (signed_decimal i) 1 m) (build_message alloc f args)
         | _ \<Rightarrow> None)
      else if c = 0x25 \<and> d = 0x49 then
        (case args of
           WAddr a # args \<Rightarrow> Option.bind (store alloc 16 (dotted_quad a) 1 m) (build_message alloc f args)
         | _ \<Rightarrow> None)
      else if c = 0x25 \<and> d = 0x25 then Option.bind (store alloc 1 [0x25] 0 m) (build_message alloc f args)
      else Option.bind (store alloc 1 [c] 0 m) (build_message alloc (d # f) args))"

definition writef_message :: "(nat \<Rightarrow> bool) \<Rightarrow> u8 list \<Rightarrow> warg list \<Rightarrow> message option" where
  "writef_message alloc fmt args =
     Option.bind (ensure_buf alloc \<lparr>msg_bytes = [], msg_capacity = 0, msg_overrun = False\<rparr> 1024)
       (build_message alloc fmt args)"

section \<open>Scanning messages\<close>

text \<open>
  The input is the memory from \<open>s\<close> on, \<open>e\<close> the position of its end.  The scanner compares
  positions with \<open>e\<close> for equality only, so once it has stepped over the end it goes on
  reading memory.
\<close>

partial_function (option) scan_string :: "(nat \<Rightarrow> u8) \<Rightarrow> nat \<Rightarrow> nat \<Rightarrow> u8 list \<Rightarrow> (u8 list \<times> nat) option" where
  "scan_string b e s str =
     (if s \<noteq> e \<and> \<not> is_space8 (b s) then
        if b s = 0x25 \<and> is_xdigit8 (b (s + 1)) \<and> is_xdigit8 (b (s + 2))
        then scan_string b e (s + 3) (str @ [word_of_int (xvalue (b (s + 1)) * 16 + xvalue (b (s + 2)))])
        else scan_string b e (s + 1) (str @ [b s])
      else Some (str, s))"

partial_function (option) scan_octet :: "(nat \<Rightarrow> u8) \<Rightarrow> nat \<Rightarrow> nat \<Rightarrow> int \<Rightarrow> (int \<times> nat) option" where
  "scan_octet b e s x =
     (if s \<noteq> e \<and> is_digit8 (b s) \<and> x \<le> 255
      then scan_octet b e (s + 1) ((if x < 0 then 0 else 10 * x) + (int (unat (b s)) - 0x30))
      else Some (x, s))"

text \<open>The four rounds of \<open>%I\<close>, the number of rounds left as an argument; \<open>Inl\<close> is the jump to \<open>exit\<close>.\<close>

fun scan_addr :: "(nat \<Rightarrow> u8) \<Rightarrow> nat \<Rightarrow> nat \<Rightarrow> u32 \<Rightarrow> nat \<Rightarrow> (unit + u32 \<times> nat) option" where
  "scan_addr b e s value 0 = Some (Inr (value, s))"
| "scan_addr b e s value (Suc left) =
     (case scan_octet b e s (-1) of
        None \<Rightarrow> None
      | Some (x, s) \<Rightarrow>
          if x < 0 \<or> x > 255 \<or> left > 0 \<and> (s = e \<or> b s \<noteq> 0x2E) then Some (Inl ())
          else scan_addr b e (s + (if left > 0 then 1 else 0)) (push_bit 8 value + word_of_int x) left)"

definition INT_MAX :: int where "INT_MAX = 2147483647"

partial_function (option) scan_digits :: "(nat \<Rightarrow> u8) \<Rightarrow> nat \<Rightarrow> nat \<Rightarrow> int \<Rightarrow> (int \<times> nat) option" where
  "scan_digits b e s value =
     (if s \<noteq> e \<and> is_digit8 (b s) \<and> value < (INT_MAX - (int (unat (b s)) - 0x30)) sdiv 10
      then scan_digits b e (s + 1) (10 * value + (int (unat (b s)) - 0x30))
      else Some (value, s))"

partial_function (option) skip_spaces :: "(nat \<Rightarrow> u8) \<Rightarrow> nat \<Rightarrow> nat \<Rightarrow> nat option" where
  "skip_spaces b e s = (if s \<noteq> e \<and> is_space8 (b s) then skip_spaces b e (s + 1) else Some s)"

datatype scanned = SStr "u8 list" | SAddr u32 | SInt int | SCount nat

text \<open>
  \<open>osp2p_vsnscanf\<close>: whether it returns 0, and what it has stored.  The jump to \<open>exit\<close>
  happens with the format not at its end, so it returns -1.
\<close>

partial_function (option) vsnscanf ::
    "(nat \<Rightarrow> u8) \<Rightarrow> nat \<Rightarrow> u8 list \<Rightarrow> nat \<Rightarrow> scanned list \<Rightarrow> (bool \<times> scanned list) option" where
  "vsnscanf b e fmt s out =
     (case fmt of
        [] \<Rightarrow> Some (True, out)
      | c # f \<Rightarrow>
          if c = 0x25 \<and> f \<noteq> [] \<and> hd f = 0x73 then
            Option.bind (scan_string b e s [])
              (\<lambda>r. case r of (str, s) \<Rightarrow> vsnscanf b e (List.tl f) s (out @ [SStr str]))
          else if c = 0x25 \<and> f \<noteq> [] \<and> hd f = 0x49 then
            Option.bind (scan_addr b e s 0 4)
              (\<lambda>r. case r of Inl _ \<Rightarrow> Some (False, out)
                   | Inr (a, s) \<Rightarrow> vsnscanf b e (List.tl f) s (out @ [SAddr a]))
          else if c = 0x25 \<and> f \<noteq> [] \<and> hd f = 0x64 then
            (if s = e \<or> \<not> is_digit8 (b s) then Some (False, out)
             else Option.bind (scan_digits b e s 0)
               (\<lambda>r. case r of (value, s) \<Rightarrow>
                  if s \<noteq> e \<and> is_digit8 (b s) then Some (False, out)
                  else vsnscanf b e (List.tl f) s (out @ [SInt value])))
          else if c = 0x25 \<and> f \<noteq> [] \<and> hd f = 0x6E then
            vsnscanf b e (List.tl f) s (out @ [SCount s])
          else if c = 0x25 \<and> f \<noteq> [] \<and> hd f = 0x25 then
            (if s = e \<or> b s \<noteq> 0x25 then Some (False, out) else vsnscanf b e (List.tl f) (s + 1) out)
          else if is_space8 c then
            (if s = e \<or> \<not> is_space8 (b s) then Some (False, out)
             else Option.bind (skip_spaces b e s) (\<lambda>s. vsnscanf b e (dropWhile is_space8 fmt) s out))
          else if s = e \<or> b s \<noteq> c then Some (False, out)
          else vsnscanf b e f (s + 1) out)"

definition snscanf :: "(nat \<Rightarrow> u8) \<Rightarrow> nat \<Rightarrow> u8 list \<Rightarrow> (bool \<times> scanned list) option" where
  "snscanf b len fmt = vsnscanf b len fmt 0 []"

definition parse_peer_format :: "u8 list" where
  "parse_peer_format = bytes_of ''PEER %s %I:%d''"

section \<open>What is written is read back\<close>

text \<open>The memory from \<open>s\<close> on starts with the bytes \<open>bs\<close>.\<close>

definition reads :: "(nat \<Rightarrow> u8) \<Rightarrow> nat \<Rightarrow> u8 list \<Rightarrow> bool" where
  "reads b s bs \<longleftrightarrow> (\<forall>i < length bs. b (s + i) = bs ! i)"

lemma reads_Nil [simp]: "reads b s []"
  by (simp add: reads_def)

lemma reads_Cons [simp]: "reads b s (c # bs) \<longleftrightarrow> b s = c \<and> reads b (Suc s) bs"
  by (auto simp: reads_def less_Suc_eq_0_disj)

lemma reads_append [simp]: "reads b s (xs @ ys) \<longleftrightarrow> reads b s xs \<and> reads b (s + length xs) ys"
  by (induction xs arbitrary: s) auto

subsection \<open>Quoting\<close>

lemma hex_digits_props:
  assumes "k < 16"
  shows "is_xdigit8 (hex_digits ! k)" "xvalue (hex_digits ! k) = int k"
proof -
  have "\<forall>k\<in>{0..<16}. is_xdigit8 (hex_digits ! k) \<and> xvalue (hex_digits ! k) = int k"
    by (simp add: atLeastLessThan_upt upt_rec hex_digits_def bytes_of_def is_xdigit8_def is_digit8_def xvalue_def to_lower8_def)
  with assms show "is_xdigit8 (hex_digits ! k)" "xvalue (hex_digits ! k) = int k" by auto
qed

lemma nibbles: "word_of_int (int (unat (c div 16)) * 16 + int (unat (c AND 15))) = (c :: u8)"
proof -
  have "c AND 15 = c mod 16"
    using take_bit_eq_mod [of 4 c] take_bit_eq_mask [of 4 c] by (simp add: mask_eq_exp_minus_1)
  then have "unat (c AND 15) = unat c mod 16" by (simp add: unat_mod)
  moreover have "unat (c div 16) = unat c div 16" by (simp add: unat_div)
  ultimately have "int (unat (c div 16)) * 16 + int (unat (c AND 15)) = int (unat c)"
    by (metis add.commute mod_mult_div_eq mult.commute of_nat_add of_nat_mult of_nat_numeral)
  then show ?thesis by simp
qed

lemma quote_safe_props: "quote_safe c \<Longrightarrow> \<not> is_space8 c \<and> c \<noteq> 0x25"
  by (auto simp: quote_safe_def is_alnum8_def is_digit8_def is_space8_def word_le_nat_alt unat_arith_simps)

lemma scan_string_step:
  "s \<noteq> e \<Longrightarrow> \<not> is_space8 (b s) \<Longrightarrow> b s \<noteq> 0x25 \<Longrightarrow> scan_string b e s str = scan_string b e (s + 1) (str @ [b s])"
  "s \<noteq> e \<Longrightarrow> b s = 0x25 \<Longrightarrow> is_xdigit8 (b (s + 1)) \<Longrightarrow> is_xdigit8 (b (s + 2))
    \<Longrightarrow> scan_string b e s str = scan_string b e (s + 3) (str @ [word_of_int (xvalue (b (s + 1)) * 16 + xvalue (b (s + 2)))])"
  by (simp_all add: scan_string.simps [of b e s str] is_space8_def)

text \<open>What the scanner reads back from a quoted string, up to the white space after it.\<close>

lemma scan_string_quote:
  assumes "reads b s (quote_bytes str)" "s + length (quote_bytes str) \<le> e"
    and "s + length (quote_bytes str) = e \<or> is_space8 (b (s + length (quote_bytes str)))"
  shows "scan_string b e s acc = Some (acc @ str, s + length (quote_bytes str))"
  using assms
proof (induction str arbitrary: s acc)
  case Nil
  then show ?case by (auto simp: scan_string.simps [of b e s acc])
next
  case (Cons c str)
  show ?case
  proof (cases "quote_safe c")
    case True
    have "scan_string b e s acc = scan_string b e (s + 1) (acc @ [b s])"
      by (rule scan_string_step) (use Cons.prems True quote_safe_props in auto)
    also have "\<dots> = Some ((acc @ [b s]) @ str, (s + 1) + length (quote_bytes str))"
      by (rule Cons.IH) (use Cons.prems True in auto)
    finally show ?thesis using Cons.prems True by simp
  next
    case False
    let ?h = "hex_digits ! unat (c div 16)" and ?l = "hex_digits ! unat (c AND 15)"
    have k: "unat (c div 16) < 16" "unat (c AND 15) < 16"
    proof -
      show "unat (c div 16) < 16" using unsigned_less [of c, where ?'a = nat] by (simp add: unat_div)
      have "c AND 15 \<le> 15" by (rule word_and_le1)
      then show "unat (c AND 15) < 16" by (simp add: word_le_nat_alt)
    qed
    have r: "b s = 0x25" "b (s + 1) = ?h" "b (s + 2) = ?l" "reads b (s + 3) (quote_bytes str)"
      using Cons.prems(1) False by (auto simp: eval_nat_numeral)
    have "scan_string b e s acc = scan_string b e (s + 3) (acc @ [word_of_int (xvalue (b (s + 1)) * 16 + xvalue (b (s + 2)))])"
      by (rule scan_string_step(2)) (use Cons.prems False r hex_digits_props k in auto)
    also have "\<dots> = scan_string b e (s + 3) (acc @ [c])"
      by (simp only: r hex_digits_props(2) [OF k(1)] hex_digits_props(2) [OF k(2)] nibbles)
    also have "\<dots> = Some ((acc @ [c]) @ str, (s + 3) + length (quote_bytes str))"
      by (rule Cons.IH) (use Cons.prems False r(4) in \<open>auto simp: eval_nat_numeral\<close>)
    finally show ?thesis using False by simp
  qed
qed

lemma quote_bytes_start: "str \<noteq> [] \<Longrightarrow> \<exists>c cs. quote_bytes str = c # cs \<and> \<not> is_space8 c"
proof (cases str)
  case (Cons c s)
  have "\<not> is_space8 0x25" by (simp add: is_space8_def)
  with Cons quote_safe_props [of c] show ?thesis by (cases "quote_safe c") auto
qed simp

subsection \<open>Numbers and addresses\<close>

definition dig :: "u8 \<Rightarrow> int" where "dig c = int (unat c) - 0x30"

lemma digit_code: "k < 10 \<Longrightarrow> unat (of_nat (0x30 + k) :: u8) = 0x30 + k"
  by (subst unat_of_nat) simp

lemma decimal_digits: "\<forall>c \<in> set (decimal n). is_digit8 c"
proof (induction n rule: decimal.induct)
  case (1 n)
  have "n mod 10 < 10" by simp
  then have "is_digit8 (of_nat (0x30 + n mod 10))"
    using digit_code [of "n mod 10"] by (simp add: is_digit8_def word_le_nat_alt del: of_nat_add)
  with 1 show ?case by (subst decimal.simps) auto
qed

lemma decimal_nonempty: "decimal n \<noteq> []"
  by (subst decimal.simps) simp

definition octet_value :: "int \<Rightarrow> u8 list \<Rightarrow> int" where
  "octet_value x ds = foldl (\<lambda>x d. (if x < 0 then 0 else 10 * x) + dig d) x ds"

lemma decimal_value: "octet_value (-1) (decimal n) = int n"
proof (induction n rule: decimal.induct)
  case (1 n)
  have d: "dig (of_nat (0x30 + n mod 10)) = int (n mod 10)"
    using digit_code [of "n mod 10"] by (simp add: dig_def del: of_nat_add unat_of_nat)
  show ?case
  proof (cases "n < 10")
    case True
    with d show ?thesis by (subst decimal.simps) (simp add: octet_value_def)
  next
    case False
    with 1 [OF False] d show ?thesis
      by (subst decimal.simps) (simp add: octet_value_def zmod_int zdiv_int del: of_nat_add)
  qed
qed

lemma octet_value_ge:
  assumes "\<forall>c\<in>set ds. is_digit8 c" shows "x \<le> octet_value x ds"
  using assms
proof (induction ds arbitrary: x)
  case (Cons d ds)
  then have "0 \<le> dig d" by (auto simp: is_digit8_def dig_def word_le_def)
  with Cons.IH [of "(if x < 0 then 0 else 10 * x) + dig d"] Cons.prems show ?case
    by (auto simp: octet_value_def split: if_splits)
qed (simp add: octet_value_def)

text \<open>The end of a run of digits: the end of the input or a character that is none.\<close>

definition no_digit :: "(nat \<Rightarrow> u8) \<Rightarrow> nat \<Rightarrow> nat \<Rightarrow> bool" where
  "no_digit b e s \<longleftrightarrow> s = e \<or> \<not> is_digit8 (b s)"

lemma scan_octet_value:
  assumes "reads b s ds" "\<forall>c\<in>set ds. is_digit8 c" "s + length ds \<le> e" "no_digit b e (s + length ds)"
    and "octet_value x ds \<le> 255"
  shows "scan_octet b e s x = Some (octet_value x ds, s + length ds)"
  using assms
proof (induction ds arbitrary: s x)
  case Nil
  then show ?case by (auto simp: scan_octet.simps [of b e s x] octet_value_def no_digit_def)
next
  case (Cons d ds)
  let ?x = "(if x < 0 then 0 else 10 * x) + dig d"
  have x: "x \<le> 255" using Cons.prems(5) octet_value_ge [OF Cons.prems(2), of x] by linarith
  have "scan_octet b e s x = scan_octet b e (s + 1) ?x"
    using Cons.prems x by (simp add: scan_octet.simps [of b e s x] dig_def)
  also have "\<dots> = Some (octet_value ?x ds, (s + 1) + length ds)"
    by (rule Cons.IH) (use Cons.prems in \<open>auto simp: octet_value_def\<close>)
  finally show ?case by (simp add: octet_value_def)
qed

lemma scan_octet_decimal:
  assumes "reads b s (decimal n)" "n < 256" "s + length (decimal n) \<le> e" "no_digit b e (s + length (decimal n))"
  shows "scan_octet b e s (-1) = Some (int n, s + length (decimal n))"
  using scan_octet_value [OF assms(1) decimal_digits assms(3,4), of "-1"] assms(2) by (simp add: decimal_value)

lemma scan_digits_value:
  assumes "reads b s ds" "\<forall>c\<in>set ds. is_digit8 c" "s + length ds \<le> e" "no_digit b e (s + length ds)"
    and "0 \<le> x" "octet_value x ds \<le> 65535"
  shows "scan_digits b e s x = Some (octet_value x ds, s + length ds)"
  using assms
proof (induction ds arbitrary: s x)
  case Nil
  then show ?case by (auto simp: scan_digits.simps [of b e s x] octet_value_def no_digit_def)
next
  case (Cons d ds)
  let ?x = "10 * x + dig d"
  have d: "0 \<le> dig d" "dig d \<le> 9" using Cons.prems(2) by (auto simp: is_digit8_def dig_def word_le_def)
  have v: "octet_value x (d # ds) = octet_value ?x ds" using Cons.prems(5) by (simp add: octet_value_def)
  then have "?x \<le> 65535" using Cons.prems octet_value_ge [of ds ?x] by auto
  then have "x < (INT_MAX - dig d) sdiv 10"
    using d by (simp add: INT_MAX_def signed_divide_int_def sgn_if)
  then have "scan_digits b e s x = scan_digits b e (s + 1) ?x"
    using Cons.prems by (simp add: scan_digits.simps [of b e s x] dig_def)
  also have "\<dots> = Some (octet_value ?x ds, (s + 1) + length ds)"
    by (rule Cons.IH) (use Cons.prems d v in auto)
  finally show ?case using v by simp
qed

lemma scan_digits_decimal:
  assumes "reads b s (decimal n)" "n \<le> 65535" "s + length (decimal n) \<le> e" "no_digit b e (s + length (decimal n))"
  shows "scan_digits b e s 0 = Some (int n, s + length (decimal n))"
proof -
  have "octet_value 0 (decimal n) = octet_value (-1) (decimal n)"
    using decimal_nonempty [of n] by (cases "decimal n") (auto simp: octet_value_def)
  then show ?thesis
    using scan_digits_value [OF assms(1) decimal_digits assms(3,4), of 0] assms(2) by (simp add: decimal_value)
qed

subsection \<open>The message a format stands for\<close>

text \<open>
  What \<open>osp2p_writef\<close> should send: the format with every conversion replaced by the text of
  its argument; \<open>None\<close> when an argument is missing or of another type.
\<close>

fun argument_text :: "u8 \<Rightarrow> warg \<Rightarrow> u8 list option" where
  "argument_text d (WStr str) = (if d = 0x73 then Some (quote_bytes str) else None)"
| "argument_text d (WInt i) = (if d = 0x64 then Some (signed_decimal i) else None)"
| "argument_text d (WAddr a) = (if d = 0x49 then Some (dotted_quad a) else None)"

fun render :: "u8 list \<Rightarrow> warg list \<Rightarrow> u8 list option" where
  "render [] args = Some []"
| "render [c] args = Some [c]"
| "render (c # d # f) args =
     (if c = 0x25 \<and> d \<in> {0x73, 0x64, 0x49} then
        (case args of
           [] \<Rightarrow> None
         | a # args \<Rightarrow> Option.bind (argument_text d a) (\<lambda>t. map_option ((@) t) (render f args)))
      else if c = 0x25 \<and> d = 0x25 then map_option ((#) 0x25) (render f args)
      else map_option ((#) c) (render (d # f) args))"

text \<open>Integers whose decimal text has at most ten characters, for which room is made.\<close>

fun short_int :: "warg \<Rightarrow> bool" where
  "short_int (WInt i) \<longleftrightarrow> length (signed_decimal i) \<le> 10"
| "short_int _ \<longleftrightarrow> True"

lemma length_decimal: "n < 10 ^ k \<Longrightarrow> 0 < k \<Longrightarrow> length (decimal n) \<le> k"
proof (induction k arbitrary: n)
  case (Suc k)
  show ?case
  proof (cases "n < 10")
    case True
    then show ?thesis by (subst decimal.simps) simp
  next
    case False
    with Suc.prems have "0 < k" by (cases k) auto
    moreover have "n div 10 < 10 ^ k" using Suc.prems by (simp add: less_mult_imp_div_less mult.commute)
    ultimately have "length (decimal (n div 10)) \<le> k" by (intro Suc.IH)
    with False show ?thesis by (subst decimal.simps) simp
  qed
qed simp

lemma length_dotted_quad: "length (dotted_quad a) \<le> 15"
proof -
  have d: "length (decimal n) \<le> 3" if "n < 256" for n using length_decimal [of n 3] that by simp
  have "unat (drop_bit 24 a) < 256" using unsigned_less [of a, where ?'a = nat] by (simp add: drop_bit_eq_div unat_div less_mult_imp_div_less)
  from d [OF this] d [of "unat (drop_bit 16 a) mod 256"] d [of "unat (drop_bit 8 a) mod 256"] d [of "unat a mod 256"]
  show ?thesis by (simp add: dotted_quad_def)
qed

lemma store_Some:
  "\<exists>m'. store (\<lambda>_. True) room bs extra m = Some m' \<and> msg_bytes m' = msg_bytes m @ bs
     \<and> (length bs + extra \<le> room + 1 \<longrightarrow> msg_overrun m' = msg_overrun m)"
  by (auto simp: store_def ensure_buf_def put_bytes_def)

lemma build_message_renders:
  assumes "render fmt args = Some t"
  shows "\<exists>m'. build_message (\<lambda>_. True) fmt args m = Some m' \<and> msg_bytes m' = msg_bytes m @ t
     \<and> (list_all short_int args \<longrightarrow> msg_overrun m' = msg_overrun m)"
  using assms
proof (induction fmt args arbitrary: m t rule: render.induct)
  case (2 c args)
  then show ?case using store_Some [of 1 "[c]" 0 m] by auto
next
  case (3 c d f args)
  have follow: "\<exists>m'. Option.bind (store (\<lambda>_. True) room bs extra m) (build_message (\<lambda>_. True) f' args') = Some m'
      \<and> msg_bytes m' = msg_bytes m @ bs @ t' \<and> (list_all short_int args' \<and> length bs + extra \<le> room + 1 \<longrightarrow> msg_overrun m' = msg_overrun m)"
    if "\<And>m. \<exists>m'. build_message (\<lambda>_. True) f' args' m = Some m' \<and> msg_bytes m' = msg_bytes m @ t'
      \<and> (list_all short_int args' \<longrightarrow> msg_overrun m' = msg_overrun m)" for room bs extra f' args' t'
  proof -
    obtain m1 where "store (\<lambda>_. True) room bs extra m = Some m1" "msg_bytes m1 = msg_bytes m @ bs"
      "length bs + extra \<le> room + 1 \<longrightarrow> msg_overrun m1 = msg_overrun m"
      using store_Some by blast
    with that [of m1] show ?thesis by auto
  qed
  consider (conv) "c = 0x25" "d \<in> {0x73, 0x64, 0x49}" | (percent) "c = 0x25" "d = 0x25"
    | (lit) "\<not> (c = 0x25 \<and> d \<in> {0x73, 0x64, 0x49})" "\<not> (c = 0x25 \<and> d = 0x25)" by blast
  then show ?case
  proof cases
    case conv
    then obtain a args' t1 t2 where a: "args = a # args'" "argument_text d a = Some t1" "render f args' = Some t2" "t = t1 @ t2"
      using 3(4) by (auto split: list.splits bind_splits)
    have IH: "\<exists>m'. build_message (\<lambda>_. True) f args' m = Some m' \<and> msg_bytes m' = msg_bytes m @ t2
      \<and> (list_all short_int args' \<longrightarrow> msg_overrun m' = msg_overrun m)" for m
      using 3(1) [of a args' t1] a conv by auto
    note n = follow [OF IH]
    show ?thesis
    proof (cases a)
      case (WStr str)
      with a have "d = 0x73" "t1 = quote_bytes str" by (auto split: if_splits)
      with n [of "length t1" t1 1] a WStr conv(1) show ?thesis by (auto simp: http_quote_def)
    next
      case (WInt i)
      with a have "d = 0x64" "t1 = signed_decimal i" by (auto split: if_splits)
      with n [of 10 t1 1] a WInt conv(1) show ?thesis by auto
    next
      case (WAddr i)
      with a have "d = 0x49" "t1 = dotted_quad i" by (auto split: if_splits)
      with n [of 16 t1 1] a WAddr conv(1) length_dotted_quad [of i] show ?thesis by auto
    qed
  next
    case percent
    then obtain t2 where t2: "render f args = Some t2" "t = 0x25 # t2" using 3(4) by auto
    have "\<exists>m'. build_message (\<lambda>_. True) f args m = Some m' \<and> msg_bytes m' = msg_bytes m @ t2
      \<and> (list_all short_int args \<longrightarrow> msg_overrun m' = msg_overrun m)" for m
      using 3(2) t2 percent by auto
    from follow [OF this, of 1 "[0x25]" 0] percent t2 show ?thesis by auto
  next
    case lit
    then obtain t2 where t2: "render (d # f) args = Some t2" "t = c # t2" using 3(4) by (auto split: if_splits)
    have "\<exists>m'. build_message (\<lambda>_. True) (d # f) args m = Some m' \<and> msg_bytes m' = msg_bytes m @ t2
      \<and> (list_all short_int args \<longrightarrow> msg_overrun m' = msg_overrun m)" for m
      using 3(3) t2 lit by auto
    from follow [OF this, of 1 "[c]" 0] lit t2 show ?thesis by auto
  qed
qed simp

text \<open>
  With memory to allocate, \<open>osp2p_writef\<close> sends exactly the rendered message, and stays
  inside its buffer when every integer has at most ten characters.
\<close>

lemma writef_renders:
  assumes "render fmt args = Some t"
  shows "\<exists>m. writef_message (\<lambda>_. True) fmt args = Some m \<and> msg_bytes m = t
     \<and> (list_all short_int args \<longrightarrow> \<not> msg_overrun m)"
  using build_message_renders [OF assms, of "\<lparr>msg_bytes = [], msg_capacity = 3072, msg_overrun = False\<rparr>"]
  by (auto simp: writef_message_def ensure_buf_def)

subsection \<open>The scanner on the parts of a message\<close>

lemma vsn_literal:
  assumes "\<forall>c\<in>set lit. c \<noteq> 0x25 \<and> \<not> is_space8 c" "reads b s lit" "s + length lit \<le> e"
  shows "vsnscanf b e (lit @ f) s out = vsnscanf b e f (s + length lit) out"
  using assms
proof (induction lit arbitrary: s)
  case (Cons c lit)
  have "vsnscanf b e ((c # lit) @ f) s out = vsnscanf b e (lit @ f) (s + 1) out"
    using Cons.prems by (simp add: vsnscanf.simps [of b e "c # _" s out])
  also have "\<dots> = vsnscanf b e f ((s + 1) + length lit) out"
    by (rule Cons.IH) (use Cons.prems in auto)
  finally show ?case by simp
qed simp

lemma vsn_space:
  assumes "is_space8 c" "is_space8 (b s)" "s < e" "s + 1 = e \<or> \<not> is_space8 (b (s + 1))" "f = [] \<or> \<not> is_space8 (hd f)"
  shows "vsnscanf b e (c # f) s out = vsnscanf b e f (s + 1) out"
proof -
  have c: "c \<noteq> 0x25" using assms(1) by (auto simp: is_space8_def)
  have "skip_spaces b e s = skip_spaces b e (s + 1)"
    using assms by (simp add: skip_spaces.simps [of b e s])
  also have "\<dots> = Some (s + 1)" using assms(4) by (auto simp: skip_spaces.simps [of b e "Suc s"])
  finally have "skip_spaces b e s = Some (s + 1)" .
  moreover have "dropWhile is_space8 (c # f) = f" using assms(1,5) by (cases f) auto
  ultimately show ?thesis using assms c by (simp add: vsnscanf.simps [of b e "c # f" s out])
qed

lemma vsn_string:
  assumes "reads b s (quote_bytes str)" "s + length (quote_bytes str) \<le> e"
    and "s + length (quote_bytes str) = e \<or> is_space8 (b (s + length (quote_bytes str)))"
  shows "vsnscanf b e (0x25 # 0x73 # f) s out = vsnscanf b e f (s + length (quote_bytes str)) (out @ [SStr str])"
  using scan_string_quote [OF assms, of "[]"] by (simp add: vsnscanf.simps [of b e "0x25 # 0x73 # f" s out])

lemma vsn_int:
  assumes "reads b s (decimal n)" "n \<le> 65535" "s + length (decimal n) \<le> e" "no_digit b e (s + length (decimal n))"
  shows "vsnscanf b e (0x25 # 0x64 # f) s out = vsnscanf b e f (s + length (decimal n)) (out @ [SInt (int n)])"
proof -
  have "s \<noteq> e" "is_digit8 (b s)"
    using assms(1,3) decimal_nonempty [of n] decimal_digits [of n] by (cases "decimal n"; auto)+
  then show ?thesis
    using scan_digits_decimal [OF assms] assms(4)
    by (auto simp: vsnscanf.simps [of b e "0x25 # 0x64 # f" s out] no_digit_def)
qed

lemma quad_value:
  "push_bit 8 (push_bit 8 (push_bit 8 (push_bit 8 0 + word_of_int (int (unat (drop_bit 24 a))))
     + word_of_int (int (unat (drop_bit 16 a) mod 256))) + word_of_int (int (unat (drop_bit 8 a) mod 256)))
     + word_of_int (int (unat a mod 256)) = (a :: u32)"
proof -
  define n where "n = unat a"
  have n: "n < 2 ^ 32" using unsigned_less [of a, where ?'a = nat] by (simp add: n_def)
  have o: "unat (drop_bit 24 a) = n div 2 ^ 24" "unat (drop_bit 16 a) = n div 2 ^ 16" "unat (drop_bit 8 a) = n div 2 ^ 8"
    by (simp_all add: n_def unat_drop_bit_eq drop_bit_eq_div unat_div)
  have "((n div 2 ^ 24 * 256 + n div 2 ^ 16 mod 256) * 256 + n div 2 ^ 8 mod 256) * 256 + n mod 256 = n"
  proof -
    have "n div 2 ^ 24 = n div 256 div 256 div 256" "n div 2 ^ 16 = n div 256 div 256" "n div 2 ^ 8 = n div 256"
      by (simp_all add: div_mult2_eq [symmetric])
    then show ?thesis by simp
  qed
  then have "word_of_nat (((n div 2 ^ 24 * 256 + n div 2 ^ 16 mod 256) * 256 + n div 2 ^ 8 mod 256) * 256 + n mod 256) = (word_of_nat n :: u32)"
    by (rule arg_cong)
  then show ?thesis
    unfolding o n_def [symmetric] by (simp add: push_bit_eq_mult n_def algebra_simps)
qed

lemma vsn_addr:
  assumes r: "reads b s (dotted_quad a)" and e: "s + length (dotted_quad a) \<le> e"
    and n: "no_digit b e (s + length (dotted_quad a))"
  shows "vsnscanf b e (0x25 # 0x49 # f) s out = vsnscanf b e f (s + length (dotted_quad a)) (out @ [SAddr a])"
proof -
  let ?n1 = "unat (drop_bit 24 a)" and ?n2 = "unat (drop_bit 16 a) mod 256"
    and ?n3 = "unat (drop_bit 8 a) mod 256" and ?n4 = "unat a mod 256"
  have n1: "?n1 < 256" using unsigned_less [of a, where ?'a = nat]
    by (simp add: drop_bit_eq_div unat_div less_mult_imp_div_less)
  have l: "?n2 < 256" "?n3 < 256" "?n4 < 256" by simp_all
  define s2 where "s2 = Suc (s + length (decimal ?n1))"
  define s3 where "s3 = Suc (s2 + length (decimal ?n2))"
  define s4 where "s4 = Suc (s3 + length (decimal ?n3))"
  have s5: "s + length (dotted_quad a) = s4 + length (decimal ?n4)"
    by (simp add: dotted_quad_def s2_def s3_def s4_def)
  have r': "reads b s (decimal ?n1)" "b (s + length (decimal ?n1)) = 0x2E" "reads b s2 (decimal ?n2)"
    "b (s2 + length (decimal ?n2)) = 0x2E" "reads b s3 (decimal ?n3)" "b (s3 + length (decimal ?n3)) = 0x2E"
    "reads b s4 (decimal ?n4)"
    using r by (simp_all add: dotted_quad_def s2_def s3_def s4_def add.assoc)
  have dot: "no_digit b e p" if "b p = 0x2E" for p using that by (simp add: no_digit_def is_digit8_def)
  have le: "s + length (decimal ?n1) < e" "s2 + length (decimal ?n2) < e" "s3 + length (decimal ?n3) < e"
    "s4 + length (decimal ?n4) \<le> e"
    using e s5 by (auto simp: s2_def s3_def s4_def)
  note o = scan_octet_decimal [OF r'(1) n1 _ dot [OF r'(2)]] scan_octet_decimal [OF r'(3) l(1) _ dot [OF r'(4)]]
    scan_octet_decimal [OF r'(5) l(2) _ dot [OF r'(6)]] scan_octet_decimal [OF r'(7) l(3) le(4) n [unfolded s5]]
  define v1 where "v1 = push_bit 8 (0 :: u32) + word_of_int (int ?n1)"
  define v2 where "v2 = push_bit 8 v1 + word_of_int (int ?n2)"
  define v3 where "v3 = push_bit 8 v2 + word_of_int (int ?n3)"
  have a: "push_bit 8 v3 + word_of_int (int ?n4) = a"
    unfolding v3_def v2_def v1_def by (rule quad_value)
  have step: "scan_addr b e p v (Suc (Suc k)) = scan_addr b e (Suc q) (push_bit 8 v + word_of_int (int x)) (Suc k)"
    if "scan_octet b e p (-1) = Some (int x, q)" "x < 256" "b q = 0x2E" "q < e" for p q v x k
    using that by (simp del: of_nat_less_iff)
  have "scan_addr b e s 0 4 = scan_addr b e s 0 (Suc (Suc (Suc (Suc 0))))"
    by (rule arg_cong [where f = "scan_addr b e s 0"]) simp
  also have "\<dots> = scan_addr b e s2 v1 (Suc (Suc (Suc 0)))"
    unfolding s2_def v1_def by (rule step) (use o le n1 r' in auto)
  also have "\<dots> = scan_addr b e s3 v2 (Suc (Suc 0))"
    unfolding s3_def v2_def by (rule step) (use o le l r' in auto)
  also have "\<dots> = scan_addr b e s4 v3 (Suc 0)"
    unfolding s4_def v3_def by (rule step) (use o le l r' in auto)
  also have "\<dots> = Some (Inr (a, s4 + length (decimal ?n4)))"
    using o(4) a l by (simp del: of_nat_less_iff)
  finally show ?thesis
    by (simp add: vsnscanf.simps [of b e "0x25 # 0x49 # f" s out] s5)
qed

section \<open>Requests\<close>

definition get_format :: "u8 list" where
  "get_format = bytes_of ''GET %s OSP2P'' @ [0x0A]"

lemma get_format_parts: "get_format = bytes_of ''GET'' @ 0x20 # 0x25 # 0x73 # 0x20 # bytes_of ''OSP2P'' @ [0x0A]"
  by (simp add: get_format_def bytes_of_def)

lemma literals: "\<forall>c\<in>set (bytes_of ''GET''). c \<noteq> 0x25 \<and> \<not> is_space8 c" "\<forall>c\<in>set (bytes_of ''OSP2P''). c \<noteq> 0x25 \<and> \<not> is_space8 c"
  "\<forall>c\<in>set (bytes_of ''PEER''). c \<noteq> 0x25 \<and> \<not> is_space8 c" "\<forall>c\<in>set (bytes_of '':''). c \<noteq> 0x25 \<and> \<not> is_space8 c"
  by (simp_all add: bytes_of_def is_space8_def)

lemma render_get: "render get_format [WStr name] = Some (bytes_of ''GET '' @ quote_bytes name @ bytes_of '' OSP2P'' @ [0x0A])"
  by (simp add: get_format_def bytes_of_def)

text \<open>A request read from memory, whatever lies behind it.\<close>

lemma get_request_read:
  assumes "name \<noteq> []" "reads b 0 (bytes_of ''GET '' @ quote_bytes name @ bytes_of '' OSP2P'' @ [0x0A])"
  shows "snscanf b (length (quote_bytes name) + 11) get_format = Some (True, [SStr name])"
proof -
  let ?l = "length (quote_bytes name)" and ?e = "length (quote_bytes name) + 11"
  obtain c cs where q: "quote_bytes name = c # cs" "\<not> is_space8 c" using quote_bytes_start [OF assms(1)] by blast
  have r: "reads b 0 (bytes_of ''GET'')" "b 3 = 0x20" "reads b 4 (quote_bytes name)" "b (4 + ?l) = 0x20"
    "reads b (5 + ?l) (bytes_of ''OSP2P'')" "b (10 + ?l) = 0x0A"
    using assms(2) by (simp_all add: bytes_of_def eval_nat_numeral)
  have o: "b (5 + ?l) = 0x4F" using r(5) by (simp add: bytes_of_def)
  have b4: "b 4 = c" using r(3) q by simp
  have len: "length (bytes_of ''GET'') = 3" "length (bytes_of ''OSP2P'') = 5" by (simp_all add: bytes_of_def)
  have "vsnscanf b ?e get_format 0 [] = vsnscanf b ?e (0x20 # 0x25 # 0x73 # 0x20 # bytes_of ''OSP2P'' @ [0x0A]) 3 []"
    unfolding get_format_parts using vsn_literal [OF literals(1), of b 0 ?e] r(1) len by simp
  also have "\<dots> = vsnscanf b ?e (0x25 # 0x73 # 0x20 # bytes_of ''OSP2P'' @ [0x0A]) (3 + 1) []"
    by (rule vsn_space) (use r b4 q in \<open>auto simp: is_space8_def\<close>)
  also have "\<dots> = vsnscanf b ?e (0x20 # bytes_of ''OSP2P'' @ [0x0A]) (4 + ?l) [SStr name]"
    using vsn_string [of b 4 name ?e] r by (simp add: is_space8_def)
  also have "\<dots> = vsnscanf b ?e (bytes_of ''OSP2P'' @ [0x0A]) (4 + ?l + 1) [SStr name]"
    by (rule vsn_space) (use r o in \<open>auto simp: is_space8_def bytes_of_def\<close>)
  also have "\<dots> = vsnscanf b ?e [0x0A] (10 + ?l) [SStr name]"
    using vsn_literal [OF literals(2), of b "5 + ?l" ?e] r len by simp
  also have "\<dots> = vsnscanf b ?e [] (10 + ?l + 1) [SStr name]"
    by (rule vsn_space) (use r in \<open>auto simp: is_space8_def\<close>)
  also have "\<dots> = Some (True, [SStr name])"
    by (simp add: vsnscanf.simps [of b ?e "[]"])
  finally show ?thesis by (simp add: snscanf_def)
qed

text \<open>
  C38 What \<open>osp2p_writef\<close> sends for a request of any non-empty file name, blanks and percent signs
  included, is read back by \<open>osp2p_snscanf\<close> as that name, wherever the message lies in memory
  and whatever lies behind it; the writer stays inside its buffer.
\<close>
theorem get_request_roundtrip:
  assumes "name \<noteq> []"
  shows "\<exists>m. writef_message (\<lambda>_. True) get_format [WStr name] = Some m \<and> \<not> msg_overrun m
    \<and> (\<forall>b. reads b 0 (msg_bytes m) \<longrightarrow> snscanf b (length (msg_bytes m)) get_format = Some (True, [SStr name]))"
proof -
  from writef_renders [OF render_get, of name] obtain m
    where m: "writef_message (\<lambda>_. True) get_format [WStr name] = Some m" "\<not> msg_overrun m"
      "msg_bytes m = bytes_of ''GET '' @ quote_bytes name @ bytes_of '' OSP2P'' @ [0x0A]" by auto
  have "length (msg_bytes m) = length (quote_bytes name) + 11" by (simp add: m(3) bytes_of_def)
  with get_request_read [OF assms] m(1,2) show ?thesis by (metis m(3))
qed

theorem get_request_roundtrip_witness:
  "\<exists>m. writef_message (\<lambda>_. True) get_format [WStr (bytes_of ''a b%'')] = Some m \<and> \<not> msg_overrun m
    \<and> (\<forall>b. reads b 0 (msg_bytes m) \<longrightarrow> snscanf b (length (msg_bytes m)) get_format = Some (True, [SStr (bytes_of ''a b%'')]))"
  by (rule get_request_roundtrip) (simp add: bytes_of_def)

section \<open>Peers\<close>

record peer =
  peer_alias :: "u8 list"
  peer_addr :: u32
  peer_port :: int

text \<open>
  \<open>parse_peer\<close> on the \<open>len\<close> bytes of \<open>b\<close>; \<open>room\<close> tells whether \<open>malloc\<close> succeeds.  The inner
  \<open>None\<close> is the null pointer, the outer one a scan that does not return.
\<close>

definition parse_peer :: "bool \<Rightarrow> (nat \<Rightarrow> u8) \<Rightarrow> nat \<Rightarrow> peer option option" where
  "parse_peer room b len =
     (if \<not> room then Some None
      else map_option (\<lambda>r. case r of
             (True, [SStr al, SAddr a, SInt p]) \<Rightarrow>
               if p > 0 \<and> p \<le> 65535 then Some \<lparr>peer_alias = al, peer_addr = a, peer_port = p\<rparr> else None
           | _ \<Rightarrow> None) (snscanf b len parse_peer_format))"

lemma parse_peer_format_parts:
  "parse_peer_format = bytes_of ''PEER'' @ 0x20 # 0x25 # 0x73 # 0x20 # 0x25 # 0x49 # bytes_of '':'' @ 0x25 # 0x64 # []"
  by (simp add: parse_peer_format_def bytes_of_def)

text \<open>The line that names a peer.\<close>

definition peer_line :: "peer \<Rightarrow> u8 list" where
  "peer_line p = bytes_of ''PEER '' @ quote_bytes (peer_alias p) @ 0x20 # dotted_quad (peer_addr p)
     @ 0x3A # signed_decimal (peer_port p)"

lemma render_peer:
  "render parse_peer_format [WStr (peer_alias p), WAddr (peer_addr p), WInt (peer_port p)] = Some (peer_line p)"
  by (simp add: parse_peer_format_def bytes_of_def peer_line_def)

lemma dotted_quad_start: "\<exists>d ds. dotted_quad a = d # ds \<and> is_digit8 d"
  using decimal_nonempty [of "unat (drop_bit 24 a)"] decimal_digits [of "unat (drop_bit 24 a)"]
  by (cases "decimal (unat (drop_bit 24 a))") (auto simp: dotted_quad_def)

lemma digit_no_space: "is_digit8 c \<Longrightarrow> \<not> is_space8 c"
  by (auto simp: is_digit8_def is_space8_def word_le_nat_alt)

lemma peer_line_scan:
  assumes al: "peer_alias p \<noteq> []" and p: "0 < peer_port p" "peer_port p \<le> 65535" and r: "reads b 0 (peer_line p)"
  shows "snscanf b (length (peer_line p)) parse_peer_format
    = Some (True, [SStr (peer_alias p), SAddr (peer_addr p), SInt (peer_port p)])"
proof -
  define n where "n = nat (peer_port p)"
  have sd: "signed_decimal (peer_port p) = decimal n" and n: "n \<le> 65535" "int n = peer_port p"
    using p by (auto simp: signed_decimal_def n_def)
  let ?q = "quote_bytes (peer_alias p)" and ?a = "dotted_quad (peer_addr p)" and ?e = "length (peer_line p)"
  define s2 where "s2 = 5 + length ?q"
  define s3 where "s3 = s2 + length ?a"
  have e: "?e = s3 + 2 + length (decimal n)"
    by (simp add: peer_line_def bytes_of_def sd s2_def s3_def)
  obtain c cs where q: "?q = c # cs" "\<not> is_space8 c" using quote_bytes_start [OF al] by blast
  obtain d ds where a: "?a = d # ds" "is_digit8 d" using dotted_quad_start by blast
  have r': "reads b 0 (bytes_of ''PEER'')" "b 4 = 0x20" "reads b 5 ?q" "b s2 = 0x20" "reads b (s2 + 1) ?a"
    "b (s3 + 1) = 0x3A" "reads b (s3 + 2) (decimal n)"
    using r by (simp_all add: peer_line_def bytes_of_def sd s2_def s3_def eval_nat_numeral)
  have b5: "b 5 = c" and b6: "b (s2 + 1) = d" using r' q a by simp_all
  have len: "length (bytes_of ''PEER'') = 4" "length (bytes_of '':'') = 1" "bytes_of '':'' = [0x3A]"
    by (simp_all add: bytes_of_def)
  let ?f4 = "bytes_of '':'' @ 0x25 # 0x64 # []"
  have "vsnscanf b ?e parse_peer_format 0 [] = vsnscanf b ?e (0x20 # 0x25 # 0x73 # 0x20 # 0x25 # 0x49 # ?f4) 4 []"
    unfolding parse_peer_format_parts using vsn_literal [OF literals(3), of b 0 ?e] r'(1) len e s2_def s3_def by simp
  also have "\<dots> = vsnscanf b ?e (0x25 # 0x73 # 0x20 # 0x25 # 0x49 # ?f4) (4 + 1) []"
    by (rule vsn_space) (use r' b5 q e s2_def s3_def in \<open>auto simp: is_space8_def\<close>)
  also have "\<dots> = vsnscanf b ?e (0x20 # 0x25 # 0x49 # ?f4) s2 [SStr (peer_alias p)]"
    using vsn_string [of b 5 "peer_alias p" ?e] r' e by (simp add: is_space8_def s2_def s3_def)
  also have "\<dots> = vsnscanf b ?e (0x25 # 0x49 # ?f4) (s2 + 1) [SStr (peer_alias p)]"
    by (rule vsn_space) (use r' b6 a digit_no_space e s3_def in \<open>auto simp: is_space8_def\<close>)
  also have "\<dots> = vsnscanf b ?e ?f4 (s3 + 1) [SStr (peer_alias p), SAddr (peer_addr p)]"
    using vsn_addr [of b "s2 + 1" "peer_addr p" ?e] r' e by (simp add: s3_def no_digit_def is_digit8_def)
  also have "\<dots> = vsnscanf b ?e (0x25 # 0x64 # []) (s3 + 2) [SStr (peer_alias p), SAddr (peer_addr p)]"
    using vsn_literal [OF literals(4), of b "s3 + 1" ?e] r' e len by simp
  also have "\<dots> = vsnscanf b ?e [] ?e [SStr (peer_alias p), SAddr (peer_addr p), SInt (int n)]"
    using vsn_int [of b "s3 + 2" n ?e] r' n e by (simp add: no_digit_def)
  also have "\<dots> = Some (True, [SStr (peer_alias p), SAddr (peer_addr p), SInt (peer_port p)])"
    by (simp add: vsnscanf.simps [of b ?e "[]"] n)
  finally show ?thesis by (simp add: snscanf_def)
qed

lemma short_port: "0 < i \<Longrightarrow> i \<le> 65535 \<Longrightarrow> short_int (WInt i)"
  using length_decimal [of "nat i" 10] by (simp add: signed_decimal_def)

text \<open>
  A peer with a non-empty alias and a port from 1 to 65535, written by \<open>osp2p_writef\<close> in the
  tracker's format, is parsed back by \<open>parse_peer\<close>, wherever the line lies in memory and
  whatever lies behind it.
\<close>
theorem peer_line_roundtrip:
  assumes "peer_alias p \<noteq> []" "0 < peer_port p" "peer_port p \<le> 65535"
  shows "\<exists>m. writef_message (\<lambda>_. True) parse_peer_format [WStr (peer_alias p), WAddr (peer_addr p), WInt (peer_port p)] = Some m
    \<and> \<not> msg_overrun m \<and> (\<forall>b. reads b 0 (msg_bytes m) \<longrightarrow> parse_peer True b (length (msg_bytes m)) = Some (Some p))"
proof -
  from writef_renders [OF render_peer [of p]] short_port [OF assms(2,3)] obtain m
    where m: "writef_message (\<lambda>_. True) parse_peer_format [WStr (peer_alias p), WAddr (peer_addr p), WInt (peer_port p)] = Some m"
      "\<not> msg_overrun m" "msg_bytes m = peer_line p" by auto
  with peer_line_scan [OF assms] assms show ?thesis by (auto simp: parse_peer_def)
qed

theorem peer_line_roundtrip_witness:
  "\<exists>m. writef_message (\<lambda>_. True) parse_peer_format [WStr [0x61], WAddr 0x0A020304, WInt 80] = Some m
    \<and> \<not> msg_overrun m \<and> (\<forall>b. reads b 0 (msg_bytes m) \<longrightarrow>
         parse_peer True b (length (msg_bytes m)) = Some (Some \<lparr>peer_alias = [0x61], peer_addr = 0x0A020304, peer_port = 80\<rparr>))"
  using peer_line_roundtrip [of "\<lparr>peer_alias = [0x61], peer_addr = 0x0A020304, peer_port = 80\<rparr>"] by simp

end
