(* ===== verification/Peer_Os.thy ===== *)
theory Peer_Os
  imports Peer_Format
begin

text \<open>
  The system calls of the peer-to-peer client, as a record of functions over an unknown
  world, the log of the calls made, and the write loop of writescan.c.
\<close>

section \<open>The operating system\<close>

text \<open>
  The system calls the peer makes, over a world \<open>'w\<close> of which nothing is known.  A failed call
  gives its \<open>errno\<close>; \<open>EWOULDBLOCK\<close> is \<open>EAGAIN\<close>, as on Linux.  \<open>os_files\<close> lists the current
  directory, each name with whether it is a regular file.  The last three fields are memory
  the program reads without having written it: fresh from \<open>malloc\<close>, behind a task's buffer,
  and on the stack behind a string without a null byte.
\<close>

record 'w os =
  os_alloc :: "nat \<Rightarrow> bool"
  os_read :: "int \<Rightarrow> nat \<Rightarrow> 'w \<Rightarrow> (errno + u8 list) \<times> 'w"
  os_write :: "int \<Rightarrow> u8 list \<Rightarrow> 'w \<Rightarrow> (errno + nat) \<times> 'w"
  os_close :: "int \<Rightarrow> 'w \<Rightarrow> 'w"
  os_open :: "u8 list \<Rightarrow> bool \<Rightarrow> 'w \<Rightarrow> (errno + int) \<times> 'w"
  os_unlink :: "u8 list \<Rightarrow> 'w \<Rightarrow> 'w"
  os_realpath :: "u8 list \<Rightarrow> 'w \<Rightarrow> u8 list option \<times> 'w"
  os_getcwd :: "'w \<Rightarrow> u8 list option \<times> 'w"
  os_rewind :: "int \<Rightarrow> 'w \<Rightarrow> 'w"
  os_socket :: "'w \<Rightarrow> (errno + int) \<times> 'w"
  os_cloexec :: "int \<Rightarrow> 'w \<Rightarrow> errno option \<times> 'w"
  os_reuseaddr :: "int \<Rightarrow> 'w \<Rightarrow> errno option \<times> 'w"
  os_bind :: "int \<Rightarrow> u16 \<Rightarrow> 'w \<Rightarrow> errno option \<times> 'w"
  os_listen :: "int \<Rightarrow> nat \<Rightarrow> 'w \<Rightarrow> errno option \<times> 'w"
  os_connect :: "int \<Rightarrow> u32 \<Rightarrow> u16 \<Rightarrow> 'w \<Rightarrow> errno option \<times> 'w"
  os_accept :: "int \<Rightarrow> 'w \<Rightarrow> (errno + int) \<times> 'w"
  os_getsockname :: "int \<Rightarrow> 'w \<Rightarrow> u32 option \<times> 'w"
  os_files :: "'w \<Rightarrow> (u8 list \<times> bool) list option \<times> 'w"
  os_junk :: "nat \<Rightarrow> u8"
  os_behind :: "nat \<Rightarrow> u8"
  os_stack :: "u8 list"

text \<open>
  What the calls promise: a read gives no more bytes than asked for, a write takes no more
  than offered, and \<open>open\<close> and \<open>socket\<close> give descriptors that are not negative.
\<close>

definition os_ok :: "'w os \<Rightarrow> bool" where
  "os_ok os \<longleftrightarrow>
     (\<forall>fd n w bs w'. os_read os fd n w = (Inr bs, w') \<longrightarrow> length bs \<le> n)
     \<and> (\<forall>fd bs w k w'. os_write os fd bs w = (Inr k, w') \<longrightarrow> k \<le> length bs)
     \<and> (\<forall>p c w fd w'. os_open os p c w = (Inr fd, w') \<longrightarrow> 0 \<le> fd)
     \<and> (\<forall>w fd w'. os_socket os w = (Inr fd, w') \<longrightarrow> 0 \<le> fd)"

text \<open>
  The calls that matter to a peer's partners and to its disk, in the order they are made.
  \<open>listen_addr\<close> and \<open>listen_port\<close> are the program's global variables.
\<close>

datatype io_event =
    Read_from int "u8 list"
  | Wrote_to int "u8 list"
  | Opened "u8 list" bool int
  | Closed int
  | Unlinked "u8 list"
  | Connected u32 int
  | Resolved "u8 list" "u8 list"
  | Working_dir "u8 list"

record 'w env =
  world :: 'w
  trace :: "io_event list"
  listen_addr :: u32
  listen_port :: int

definition logged :: "io_event \<Rightarrow> 'w \<Rightarrow> 'w env \<Rightarrow> 'w env" where
  "logged ev w e = e\<lparr>world := w, trace := trace e @ [ev]\<rparr>"

definition sys_read :: "'w os \<Rightarrow> int \<Rightarrow> nat \<Rightarrow> 'w env \<Rightarrow> (errno + u8 list) \<times> 'w env" where
  "sys_read os fd n e =
     (case os_read os fd n (world e) of
        (Inl err, w) \<Rightarrow> (Inl err, e\<lparr>world := w\<rparr>)
      | (Inr bs, w) \<Rightarrow> (Inr bs, logged (Read_from fd bs) w e))"

definition sys_write :: "'w os \<Rightarrow> int \<Rightarrow> u8 list \<Rightarrow> 'w env \<Rightarrow> (errno + nat) \<times> 'w env" where
  "sys_write os fd bs e =
     (case os_write os fd bs (world e) of
        (Inl err, w) \<Rightarrow> (Inl err, e\<lparr>world := w\<rparr>)
      | (Inr k, w) \<Rightarrow> (Inr k, logged (Wrote_to fd (take k bs)) w e))"

definition sys_close :: "'w os \<Rightarrow> int \<Rightarrow> 'w env \<Rightarrow> 'w env" where
  "sys_close os fd e = logged (Closed fd) (os_close os fd (world e)) e"

definition sys_unlink :: "'w os \<Rightarrow> u8 list \<Rightarrow> 'w env \<Rightarrow> 'w env" where
  "sys_unlink os p e = logged (Unlinked p) (os_unlink os p (world e)) e"

definition sys_open :: "'w os \<Rightarrow> u8 list \<Rightarrow> bool \<Rightarrow> 'w env \<Rightarrow> (errno + int) \<times> 'w env" where
  "sys_open os p create e =
     (case os_open os p create (world e) of
        (Inl err, w) \<Rightarrow> (Inl err, e\<lparr>world := w\<rparr>)
      | (Inr fd, w) \<Rightarrow> (Inr fd, logged (Opened p create fd) w e))"

definition sys_realpath :: "'w os \<Rightarrow> u8 list \<Rightarrow> 'w env \<Rightarrow> u8 list option \<times> 'w env" where
  "sys_realpath os p e =
     (case os_realpath os p (world e) of
        (None, w) \<Rightarrow> (None, e\<lparr>world := w\<rparr>)
      | (Some q, w) \<Rightarrow> (Some q, logged (Resolved p q) w e))"

definition sys_getcwd :: "'w os \<Rightarrow> 'w env \<Rightarrow> u8 list option \<times> 'w env" where
  "sys_getcwd os e =
     (case os_getcwd os (world e) of
        (None, w) \<Rightarrow> (None, e\<lparr>world := w\<rparr>)
      | (Some d, w) \<Rightarrow> (Some d, logged (Working_dir d) w e))"

definition sys_connect :: "'w os \<Rightarrow> int \<Rightarrow> u32 \<Rightarrow> int \<Rightarrow> 'w env \<Rightarrow> errno option \<times> 'w env" where
  "sys_connect os fd a p e =
     (case os_connect os fd a (word_of_int p) (world e) of (r, w) \<Rightarrow> (r, logged (Connected a p) w e))"

text \<open>A call that leaves no event.\<close>

definition sys_call :: "('w \<Rightarrow> 'a \<times> 'w) \<Rightarrow> 'w env \<Rightarrow> 'a \<times> 'w env" where
  "sys_call f e = (case f (world e) of (r, w) \<Rightarrow> (r, e\<lparr>world := w\<rparr>))"

text \<open>The bytes read from and written to a descriptor, in order.\<close>

fun received :: "int \<Rightarrow> io_event list \<Rightarrow> u8 list" where
  "received fd [] = []"
| "received fd (Read_from f bs # tr) = (if f = fd then bs else []) @ received fd tr"
| "received fd (_ # tr) = received fd tr"

fun sent :: "int \<Rightarrow> io_event list \<Rightarrow> u8 list" where
  "sent fd [] = []"
| "sent fd (Wrote_to f bs # tr) = (if f = fd then bs else []) @ sent fd tr"
| "sent fd (_ # tr) = sent fd tr"

lemma received_append [simp]: "received fd (xs @ ys) = received fd xs @ received fd ys"
  by (induction fd xs rule: received.induct) auto

lemma sent_append [simp]: "sent fd (xs @ ys) = sent fd xs @ sent fd ys"
  by (induction fd xs rule: sent.induct) auto

lemma os_ok_write: "os_ok os \<Longrightarrow> os_write os fd bs w = (Inr k, w') \<Longrightarrow> k \<le> length bs"
  unfolding os_ok_def by blast

lemma os_ok_read: "os_ok os \<Longrightarrow> os_read os fd n w = (Inr bs, w') \<Longrightarrow> length bs \<le> n"
  unfolding os_ok_def by blast

section \<open>Sending a message\<close>

text \<open>The write loop of \<open>osp2p_writef\<close> on the bytes not yet written.\<close>

partial_function (option) write_all :: "'w os \<Rightarrow> int \<Rightarrow> u8 list \<Rightarrow> 'w env \<Rightarrow> (errno option \<times> 'w env) option" where
  "write_all os fd bs e =
     (if bs = [] then Some (None, e)
      else case sys_write os fd bs e of
        (Inl err, e) \<Rightarrow> if err = EINTR \<or> err = EAGAIN then write_all os fd bs e else Some (Some err, e)
      | (Inr amt, e) \<Rightarrow> if amt = 0 then Some (Some ECANCELED, e) else write_all os fd (drop amt bs) e)"

text \<open>
  \<open>osp2p_writef\<close>; \<open>None\<close> also when the message has used memory wrongly: what the process does then
  is not defined.
\<close>

definition osp2p_writef :: "'w os \<Rightarrow> int \<Rightarrow> u8 list \<Rightarrow> warg list \<Rightarrow> 'w env \<Rightarrow> (errno option \<times> 'w env) option" where
  "osp2p_writef os fd fmt args e =
     (case writef_message (os_alloc os) fmt args of
        None \<Rightarrow> Some (Some ENOMEM, e)
      | Some m \<Rightarrow> if msg_overrun m then None else write_all os fd (msg_bytes m) e)"

text \<open>Some of \<open>bs\<close> has been sent to \<open>fd\<close>, all of it without an error, and nothing else has happened.\<close>

definition sending :: "int \<Rightarrow> u8 list \<Rightarrow> 'w env \<Rightarrow> errno option \<times> 'w env \<Rightarrow> bool" where
  "sending fd bs e re \<longleftrightarrow> (\<exists>tr rest. trace (snd re) = trace e @ tr \<and> bs = sent fd tr @ rest
     \<and> (fst re = None \<longrightarrow> rest = []) \<and> (\<forall>g. received g tr = []) \<and> (\<forall>g. g \<noteq> fd \<longrightarrow> sent g tr = []))"

lemma write_all_sends:
  fixes os :: "'w os"
  assumes "write_all os fd bs e = Some re"
  shows "sending fd bs e re"
proof (rule write_all.raw_induct [where P = "\<lambda>os fd bs e re. sending fd bs e re", OF _ assms])
  fix f :: "'w os \<Rightarrow> int \<Rightarrow> u8 list \<Rightarrow> 'w env \<Rightarrow> (errno option \<times> 'w env) option" and os fd bs e re
  assume IH: "\<And>os fd bs e re. f os fd bs e = Some re \<Longrightarrow> sending fd bs e re"
    and eq: "(if bs = [] then Some (None, e)
      else case sys_write os fd bs e of
        (Inl err, e) \<Rightarrow> if err = EINTR \<or> err = EAGAIN then f os fd bs e else Some (Some err, e)
      | (Inr amt, e) \<Rightarrow> if amt = 0 then Some (Some ECANCELED, e) else f os fd (drop amt bs) e) = Some re"
  show "sending fd bs e re"
  proof (cases "bs = []")
    case True
    with eq show ?thesis by (auto simp: sending_def)
  next
    case ne: False
    show ?thesis
    proof (cases "os_write os fd bs (world e)")
      case (Pair x w)
      show ?thesis
      proof (cases x)
        case (Inl err)
        with eq ne Pair have "f os fd bs (e\<lparr>world := w\<rparr>) = Some re \<or> re = (Some err, e\<lparr>world := w\<rparr>)"
          by (auto simp: sys_write_def split: if_splits)
        then show ?thesis using IH [of os fd bs "e\<lparr>world := w\<rparr>" re] by (auto simp: sending_def)
      next
        case (Inr k)
        let ?e = "logged (Wrote_to fd (take k bs)) w e"
        have tr: "trace ?e = trace e @ [Wrote_to fd (take k bs)]" by (simp add: logged_def)
        from eq ne Pair Inr consider "k = 0" "re = (Some ECANCELED, ?e)" | "f os fd (drop k bs) ?e = Some re"
          by (auto simp: sys_write_def split: if_splits)
        then show ?thesis
        proof cases
          case 1
          with tr show ?thesis by (auto simp: sending_def)
        next
          case 2
          from IH [OF this] obtain tr' rest where *: "trace (snd re) = trace ?e @ tr'" "drop k bs = sent fd tr' @ rest"
            "fst re = None \<longrightarrow> rest = []" "\<forall>g. received g tr' = []" "\<forall>g. g \<noteq> fd \<longrightarrow> sent g tr' = []"
            by (auto simp: sending_def)
          let ?tr = "Wrote_to fd (take k bs) # tr'"
          have "trace (snd re) = trace e @ ?tr" "bs = sent fd ?tr @ rest" "\<forall>g. received g ?tr = []" "\<forall>g. g \<noteq> fd \<longrightarrow> sent g ?tr = []"
            using * tr append_take_drop_id [of k bs] by auto
          with *(3) show ?thesis unfolding sending_def by metis
        qed
      qed
    qed
  qed
qed

end
