(* ===== verification/Peer_Task.thy ===== *)
theory Peer_Task
  imports Peer_Os
begin

text \<open>
  The task of osppeer.c and its ring buffer.  The buffer refines a queue of bytes; the locale
  \<open>byte_relay\<close> states the contract the transfer loops rely on.
\<close>

section \<open>Tasks\<close>

datatype task_type = TASK_TRACKER | TASK_PEER_LISTEN | TASK_UPLOAD | TASK_DOWNLOAD

definition TASKBUFSIZ :: nat where "TASKBUFSIZ = 32768"
definition FILENAMESIZ :: nat where "FILENAMESIZ = 256"
definition MAX_FILE_SIZE :: nat where "MAX_FILE_SIZE = TASKBUFSIZ * FILENAMESIZ"
definition MAX_SAMPLES :: nat where "MAX_SAMPLES = 10"
definition MIN_RATE :: u32 where "MIN_RATE = 32"

text \<open>
  \<open>names\<close> is the memory of the two file names, \<open>filename\<close> at 0 and \<open>disk_filename\<close> at
  \<open>FILENAMESIZ\<close>; behind them lies the pointer to the peer list, and \<open>name_overrun\<close> says that
  a string has been stored over it.  \<open>total_written\<close> is a \<open>size_t\<close> that does not wrap for
  the sizes the program lets through.
\<close>

record task =
  task_type :: task_type
  peer_fd :: int
  disk_fd :: int
  buf :: "nat \<Rightarrow> u8"
  head :: u32
  tail :: u32
  total_written :: nat
  names :: "nat \<Rightarrow> u8"
  peer_list :: "peer list"
  name_overrun :: bool

definition strncpy :: "(nat \<Rightarrow> u8) \<Rightarrow> nat \<Rightarrow> u8 list \<Rightarrow> nat \<Rightarrow> (nat \<Rightarrow> u8)" where
  "strncpy m d s n = (\<lambda>i. if d \<le> i \<and> i < d + n then (if i - d < length s then s ! (i - d) else 0) else m i)"

text \<open>Storing a string with its null byte.\<close>

definition store_name :: "nat \<Rightarrow> u8 list \<Rightarrow> task \<Rightarrow> task" where
  "store_name d s t =
     t\<lparr>names := mem_write (names t) d (s @ [0]),
       name_overrun := name_overrun t \<or> d + length s + 1 > 2 * FILENAMESIZ\<rparr>"

text \<open>The string at \<open>d\<close>, up to its null byte.\<close>

definition c_string :: "(nat \<Rightarrow> u8) \<Rightarrow> nat \<Rightarrow> u8 list option" where
  "c_string m d = map_option (mem_read m d) (strlen m d)"

text \<open>The size of a task on x86-64; \<open>malloc\<close> leaves what it finds in the buffer and in the names.\<close>

definition task_size :: nat where "task_size = 33320"

definition task_new :: "'w os \<Rightarrow> task_type \<Rightarrow> task option" where
  "task_new os ty =
     (if os_alloc os task_size then
        Some \<lparr>task_type = ty, peer_fd = -1, disk_fd = -1, buf = os_junk os, head = 0, tail = 0, total_written = 0,
          names = strncpy (strncpy (os_junk os) 0 [] FILENAMESIZ) FILENAMESIZ [] FILENAMESIZ,
          peer_list = [], name_overrun = False\<rparr>
      else None)"

definition task_pop_peer :: "'w os \<Rightarrow> task \<Rightarrow> 'w env \<Rightarrow> task \<times> 'w env" where
  "task_pop_peer os t e =
     (let e = (if peer_fd t \<ge> 0 then sys_close os (peer_fd t) e else e);
          e = (if disk_fd t \<ge> 0 then sys_close os (disk_fd t) e else e)
      in (t\<lparr>peer_fd := -1, disk_fd := -1, head := 0, tail := 0, total_written := 0,
            names := strncpy (names t) FILENAMESIZ [] FILENAMESIZ, peer_list := List.tl (peer_list t)\<rparr>, e))"

lemma length_tl_less: "List.tl xs = y # ys \<Longrightarrow> length xs - Suc 0 < length xs"
  by (cases xs) auto

function task_free :: "'w os \<Rightarrow> task \<Rightarrow> 'w env \<Rightarrow> 'w env" where
  "task_free os t e =
     (case task_pop_peer os t e of (t, e) \<Rightarrow> if peer_list t \<noteq> [] then task_free os t e else e)"
  by pat_completeness auto
termination
  by (relation "measure (\<lambda>(os, t, e). length (peer_list t))")
     (auto simp: task_pop_peer_def Let_def neq_Nil_conv split: if_splits intro: length_tl_less)

declare task_free.simps [simp del]

section \<open>The task buffer\<close>

datatype taskbufresult = TBUF_ERROR | TBUF_END | TBUF_OK | TBUF_AGAIN

definition ring_pos :: "u32 \<Rightarrow> nat" where
  "ring_pos w = unat w mod TASKBUFSIZ"

definition read_room :: "task \<Rightarrow> nat" where
  "read_room t =
     (if head t = tail t \<or> ring_pos (head t) < ring_pos (tail t)
      then TASKBUFSIZ - ring_pos (tail t) else ring_pos (head t) - ring_pos (tail t))"

definition read_to_taskbuf :: "'w os \<Rightarrow> int \<Rightarrow> task \<Rightarrow> 'w env \<Rightarrow> taskbufresult \<times> task \<times> 'w env" where
  "read_to_taskbuf os fd t e =
     (case sys_read os fd (read_room t) e of
        (Inl err, e) \<Rightarrow> (if err = EINTR \<or> err = EAGAIN then TBUF_AGAIN else TBUF_ERROR, t, e)
      | (Inr bs, e) \<Rightarrow>
          if bs = [] then (TBUF_END, t, e)
          else (TBUF_OK, t\<lparr>buf := mem_write (buf t) (ring_pos (tail t)) bs, tail := tail t + of_nat (length bs)\<rparr>, e))"

definition write_chunk :: "task \<Rightarrow> u8 list" where
  "write_chunk t =
     (if ring_pos (head t) < ring_pos (tail t)
      then mem_read (buf t) (ring_pos (head t)) (ring_pos (tail t) - ring_pos (head t))
      else mem_read (buf t) (ring_pos (head t)) (TASKBUFSIZ - ring_pos (head t)))"

definition write_from_taskbuf :: "'w os \<Rightarrow> int \<Rightarrow> task \<Rightarrow> 'w env \<Rightarrow> taskbufresult \<times> task \<times> 'w env" where
  "write_from_taskbuf os fd t e =
     (if head t = tail t then (TBUF_END, t, e)
      else case sys_write os fd (write_chunk t) e of
        (Inl err, e) \<Rightarrow> (if err = EINTR \<or> err = EAGAIN then TBUF_AGAIN else TBUF_ERROR, t, e)
      | (Inr amt, e) \<Rightarrow>
          if amt = 0 then (TBUF_END, t, e)
          else (TBUF_OK, t\<lparr>head := head t + of_nat amt, total_written := total_written t + amt\<rparr>, e))"

subsection \<open>The buffer as a queue of bytes\<close>

text \<open>How many bytes are in the buffer, the bytes themselves, and the invariant of the counters.\<close>

definition fill :: "task \<Rightarrow> nat" where
  "fill t = unat (tail t - head t)"

definition contents :: "task \<Rightarrow> u8 list" where
  "contents t = map (\<lambda>k. buf t ((unat (head t) + k) mod TASKBUFSIZ)) [0..<fill t]"

definition ring_ok :: "task \<Rightarrow> bool" where
  "ring_ok t \<longleftrightarrow> fill t \<le> TASKBUFSIZ"

lemma length_contents [simp]: "length (contents t) = fill t"
  by (simp add: contents_def)

lemma fill_0: "fill t = 0 \<longleftrightarrow> head t = tail t"
  by (auto simp: fill_def unat_eq_0)

lemma contents_Nil [simp]: "contents t = [] \<longleftrightarrow> head t = tail t"
  using fill_0 [of t] by (auto simp: contents_def)

lemma unat_add_mod: "unat ((a :: u32) + b) mod TASKBUFSIZ = (unat a + unat b) mod TASKBUFSIZ"
  by (simp add: unat_word_ariths TASKBUFSIZ_def mod_mod_cancel)

lemma tail_ring_pos: "ring_pos (tail t) = (unat (head t) + fill t) mod TASKBUFSIZ"
  using unat_add_mod [of "head t" "tail t - head t"] by (simp add: ring_pos_def fill_def)

lemma ring_pos_cases:
  assumes "ring_ok t"
  shows "ring_pos (tail t) = (if ring_pos (head t) + fill t < TASKBUFSIZ then ring_pos (head t) + fill t
     else ring_pos (head t) + fill t - TASKBUFSIZ)" "ring_pos (head t) < TASKBUFSIZ"
proof -
  show "ring_pos (head t) < TASKBUFSIZ" by (simp add: ring_pos_def TASKBUFSIZ_def)
  moreover have "ring_pos (tail t) = (ring_pos (head t) + fill t) mod TASKBUFSIZ"
    unfolding tail_ring_pos by (simp add: ring_pos_def mod_add_left_eq)
  ultimately show "ring_pos (tail t) = (if ring_pos (head t) + fill t < TASKBUFSIZ then ring_pos (head t) + fill t
     else ring_pos (head t) + fill t - TASKBUFSIZ)"
    using assms by (auto simp: ring_ok_def le_mod_geq)
qed

text \<open>A read asks for no more than what is free, and for nothing only when the buffer is full.\<close>

lemma read_room_fits:
  assumes "ring_ok t"
  shows "read_room t \<le> TASKBUFSIZ - fill t" "read_room t + ring_pos (tail t) \<le> TASKBUFSIZ"
    "read_room t = 0 \<longleftrightarrow> fill t = TASKBUFSIZ"
proof -
  have f: "fill t \<le> TASKBUFSIZ" using assms by (simp add: ring_ok_def)
  have rr: "read_room t = (if fill t = 0 \<or> ring_pos (head t) < ring_pos (tail t)
      then TASKBUFSIZ - ring_pos (tail t) else ring_pos (head t) - ring_pos (tail t))"
    unfolding read_room_def fill_0 ..
  have pos: "0 < TASKBUFSIZ" by (simp add: TASKBUFSIZ_def)
  note c = ring_pos_cases [OF assms]
  have "read_room t \<le> TASKBUFSIZ - fill t \<and> read_room t + ring_pos (tail t) \<le> TASKBUFSIZ
    \<and> (read_room t = 0 \<longleftrightarrow> fill t = TASKBUFSIZ)"
  proof (cases "ring_pos (head t) + fill t < TASKBUFSIZ")
    case True
    then have p: "ring_pos (tail t) = ring_pos (head t) + fill t" using c by simp
    then have "read_room t = TASKBUFSIZ - ring_pos (tail t)" by (simp add: rr)
    with p True show ?thesis by simp
  next
    case False
    then have p: "ring_pos (tail t) = ring_pos (head t) + fill t - TASKBUFSIZ" using c by simp
    then have "\<not> (fill t = 0 \<or> ring_pos (head t) < ring_pos (tail t))" using False f c(2) by linarith
    then have "read_room t = ring_pos (head t) - ring_pos (tail t)" unfolding rr by (rule if_not_P)
    then have "read_room t = TASKBUFSIZ - fill t" using p f False c(2) by linarith
    with p f False c(2) show ?thesis by linarith
  qed
  then show "read_room t \<le> TASKBUFSIZ - fill t" "read_room t + ring_pos (tail t) \<le> TASKBUFSIZ"
    "read_room t = 0 \<longleftrightarrow> fill t = TASKBUFSIZ" by blast+
qed

lemma nth_contents: "k < fill t \<Longrightarrow> contents t ! k = buf t ((ring_pos (head t) + k) mod TASKBUFSIZ)"
  by (simp add: contents_def ring_pos_def mod_add_left_eq)

lemma write_chunk_prefix:
  assumes "ring_ok t" "head t \<noteq> tail t"
  shows "write_chunk t = take (length (write_chunk t)) (contents t)" "write_chunk t \<noteq> []"
    "length (write_chunk t) \<le> fill t"
proof -
  have f: "0 < fill t" using assms(2) fill_0 [of t] by simp
  have len: "length (write_chunk t) = (if ring_pos (head t) < ring_pos (tail t)
      then ring_pos (tail t) - ring_pos (head t) else TASKBUFSIZ - ring_pos (head t))"
    by (simp add: write_chunk_def)
  have l: "length (write_chunk t) \<le> fill t" "ring_pos (head t) + length (write_chunk t) \<le> TASKBUFSIZ" "0 < length (write_chunk t)"
    unfolding len using ring_pos_cases [OF assms(1)] assms f by (auto simp: ring_ok_def split: if_splits)
  then show "write_chunk t \<noteq> []" "length (write_chunk t) \<le> fill t" by (metis length_greater_0_conv, metis)
  show "write_chunk t = take (length (write_chunk t)) (contents t)"
  proof (rule nth_equalityI)
    fix i assume i: "i < length (write_chunk t)"
    then have "write_chunk t ! i = buf t (ring_pos (head t) + i)"
      by (auto simp: write_chunk_def split: if_splits)
    with i l show "write_chunk t ! i = take (length (write_chunk t)) (contents t) ! i"
      by (simp add: nth_contents)
  qed (use l in simp)
qed

text \<open>The effect of a read and of a write on the queue.\<close>

lemma put_contents:
  assumes "ring_ok t" "length bs \<le> read_room t"
  defines "t' \<equiv> t\<lparr>buf := mem_write (buf t) (ring_pos (tail t)) bs, tail := tail t + of_nat (length bs)\<rparr>"
  shows "ring_ok t'" "contents t' = contents t @ bs"
proof -
  note rr = read_room_fits [OF assms(1)]
  have le: "length bs \<le> TASKBUFSIZ - fill t" "fill t \<le> TASKBUFSIZ" using rr assms by (auto simp: ring_ok_def)
  then have small: "fill t + length bs < 2 ^ 32" by (simp add: TASKBUFSIZ_def)
  have buf': "buf t' = mem_write (buf t) (ring_pos (tail t)) bs" by (simp add: t'_def)
  have "tail t' - head t' = of_nat (fill t + length bs)"
    by (simp add: t'_def fill_def)
  then have fill': "fill t' = fill t + length bs"
    using small by (simp only: fill_def unat_of_nat) simp
  with le show "ring_ok t'" by (simp add: ring_ok_def)
  show "contents t' = contents t @ bs"
  proof (rule nth_equalityI)
    fix i assume "i < length (contents t')"
    then have i: "i < fill t + length bs" by (simp add: fill')
    have nth': "contents t' ! i = buf t' ((ring_pos (head t) + i) mod TASKBUFSIZ)"
      using i by (subst nth_contents) (simp_all add: fill', simp add: t'_def)
    note c = ring_pos_cases [OF assms(1)]
    show "contents t' ! i = (contents t @ bs) ! i"
    proof (cases "i < fill t")
      case True
      let ?p = "(ring_pos (head t) + i) mod TASKBUFSIZ"
      have p: "?p = (if ring_pos (head t) + i < TASKBUFSIZ then ring_pos (head t) + i else ring_pos (head t) + i - TASKBUFSIZ)"
        using c True le by (auto simp: le_mod_geq)
      have "\<not> (ring_pos (tail t) \<le> ?p \<and> ?p < ring_pos (tail t) + length bs)"
        using c True le rr assms(2) unfolding p by (auto split: if_splits)
      then have "buf t' ?p = buf t ?p" unfolding buf' mem_write_byte by (rule if_not_P)
      with True nth' show ?thesis by (simp add: nth_append nth_contents)
    next
      case False
      then obtain j where j: "i = fill t + j" "j < length bs" using i by (metis add_less_cancel_left le_add_diff_inverse not_less)
      have "ring_pos (tail t) + j < TASKBUFSIZ" using rr(2) assms(2) j by linarith
      then have "(ring_pos (tail t) + j) mod TASKBUFSIZ = ring_pos (tail t) + j" by simp
      then have "(ring_pos (head t) + i) mod TASKBUFSIZ = ring_pos (tail t) + j"
        by (metis add.assoc j(1) mod_add_left_eq ring_pos_def tail_ring_pos)
      with j nth' show ?thesis by (simp add: nth_append buf' mem_write_byte)
    qed
  qed (simp add: fill')
qed

lemma drop_contents:
  assumes "ring_ok t" "k \<le> fill t"
  shows "ring_ok (t\<lparr>head := head t + of_nat k, total_written := w\<rparr>)"
    "contents (t\<lparr>head := head t + of_nat k, total_written := w\<rparr>) = drop k (contents t)"
proof -
  let ?t = "t\<lparr>head := head t + of_nat k, total_written := w\<rparr>"
  have k: "k < 2 ^ 32" using assms by (simp add: ring_ok_def TASKBUFSIZ_def)
  have uk: "unat (of_nat k :: u32) = k" using k by (simp add: unat_of_nat)
  have "tail ?t - head ?t = (tail t - head t) - of_nat k" by simp
  then have "fill ?t = unat ((tail t - head t) - of_nat k)" unfolding fill_def by (rule arg_cong)
  also have "\<dots> = unat (tail t - head t) - unat (of_nat k :: u32)"
    by (rule unat_sub) (use assms(2) in \<open>simp add: word_le_nat_alt uk fill_def\<close>)
  finally have fill': "fill ?t = fill t - k" unfolding uk fill_def .
  with assms show "ring_ok ?t" by (simp add: ring_ok_def)
  show "contents ?t = drop k (contents t)"
  proof (rule nth_equalityI)
    fix i assume "i < length (contents ?t)"
    then have i: "i < fill t - k" by (simp add: fill')
    have "contents ?t ! i = buf t ((ring_pos (head t + of_nat k) + i) mod TASKBUFSIZ)"
      using i by (subst nth_contents) (simp_all add: fill')
    also have "(ring_pos (head t + of_nat k) + i) mod TASKBUFSIZ = (ring_pos (head t) + (k + i)) mod TASKBUFSIZ"
      by (simp add: ring_pos_def unat_add_mod uk mod_add_left_eq add.assoc)
    also have "buf t \<dots> = contents t ! (k + i)" using i by (subst nth_contents) auto
    finally show "contents ?t ! i = drop k (contents t) ! i" using i assms(2) by simp
  qed (simp add: fill')
qed

subsection \<open>Relaying\<close>

text \<open>
  What the transfer loops rely on: a buffer whose reads append what they receive and whose
  writes take off the front what they send.
\<close>

locale byte_relay =
  fixes get put :: "'w os \<Rightarrow> int \<Rightarrow> task \<Rightarrow> 'w env \<Rightarrow> taskbufresult \<times> task \<times> 'w env"
    and queued :: "task \<Rightarrow> u8 list" and valid :: "task \<Rightarrow> bool"
  assumes get_law: "os_ok os \<Longrightarrow> valid t \<Longrightarrow> get os fd t e = (r, t', e') \<Longrightarrow>
      valid t' \<and> (\<exists>ev. trace e' = trace e @ ev \<and> queued t' = queued t @ received fd ev
        \<and> (\<forall>g. g \<noteq> fd \<longrightarrow> received g ev = []) \<and> (\<forall>g. sent g ev = []))"
    and put_law: "os_ok os \<Longrightarrow> valid t \<Longrightarrow> put os fd t e = (r, t', e') \<Longrightarrow>
      valid t' \<and> (\<exists>ev. trace e' = trace e @ ev \<and> queued t = sent fd ev @ queued t'
        \<and> (\<forall>g. g \<noteq> fd \<longrightarrow> sent g ev = []) \<and> (\<forall>g. received g ev = []))"
begin

text \<open>Since \<open>tr\<close>, what came from \<open>src\<close> is what went to \<open>dst\<close> and what is still queued.\<close>

definition relayed :: "io_event list \<Rightarrow> int \<Rightarrow> int \<Rightarrow> task \<Rightarrow> 'w env \<Rightarrow> bool" where
  "relayed tr src dst t e \<longleftrightarrow> valid t
     \<and> (\<exists>ev. trace e = tr @ ev \<and> received src ev = sent dst ev @ queued t)"

lemma relayed_start: "valid t \<Longrightarrow> queued t = [] \<Longrightarrow> relayed (trace e) src dst t e"
  by (auto simp: relayed_def)

lemma relayed_get:
  assumes "os_ok os" "relayed tr src dst t e" "get os src t e = (r, t', e')"
  shows "relayed tr src dst t' e'"
proof -
  from assms(2) obtain ev where ev: "valid t" "trace e = tr @ ev" "received src ev = sent dst ev @ queued t"
    by (auto simp: relayed_def)
  from get_law [OF assms(1) ev(1) assms(3)] obtain ev' where "valid t'" "trace e' = trace e @ ev'"
    "queued t' = queued t @ received src ev'" "\<forall>g. sent g ev' = []" by blast
  with ev have "valid t'" "trace e' = tr @ (ev @ ev')" "received src (ev @ ev') = sent dst (ev @ ev') @ queued t'" by auto
  then show ?thesis unfolding relayed_def by blast
qed

lemma relayed_put:
  assumes "os_ok os" "relayed tr src dst t e" "put os dst t e = (r, t', e')"
  shows "relayed tr src dst t' e'"
proof -
  from assms(2) obtain ev where ev: "valid t" "trace e = tr @ ev" "received src ev = sent dst ev @ queued t"
    by (auto simp: relayed_def)
  from put_law [OF assms(1) ev(1) assms(3)] obtain ev' where "valid t'" "trace e' = trace e @ ev'"
    "queued t = sent dst ev' @ queued t'" "\<forall>g. received g ev' = []" by blast
  with ev have "valid t'" "trace e' = tr @ (ev @ ev')" "received src (ev @ ev') = sent dst (ev @ ev') @ queued t'" by auto
  then show ?thesis unfolding relayed_def by blast
qed

lemma relayed_done: "relayed tr src dst t e \<Longrightarrow> queued t = [] \<Longrightarrow>
    \<exists>ev. trace e = tr @ ev \<and> sent dst ev = received src ev"
  unfolding relayed_def by auto

lemma relayed_prefix: "relayed tr src dst t e \<Longrightarrow>
    \<exists>ev rest. trace e = tr @ ev \<and> received src ev = sent dst ev @ rest"
  unfolding relayed_def by auto

end

lemma read_to_taskbuf_law:
  assumes "os_ok os" "ring_ok t" "read_to_taskbuf os fd t e = (r, t', e')"
  shows "ring_ok t' \<and> (\<exists>ev. trace e' = trace e @ ev \<and> contents t' = contents t @ received fd ev
    \<and> (\<forall>g. g \<noteq> fd \<longrightarrow> received g ev = []) \<and> (\<forall>g. sent g ev = []))"
proof (cases "os_read os fd (read_room t) (world e)")
  case (Pair x w)
  show ?thesis
  proof (cases x)
    case (Inl err)
    with assms Pair have "t' = t" "trace e' = trace e" by (auto simp: read_to_taskbuf_def sys_read_def)
    with assms(2) show ?thesis by auto
  next
    case (Inr bs)
    let ?ev = "[Read_from fd bs]"
    have tr: "trace e' = trace e @ ?ev"
      using assms(3) Pair Inr by (auto simp: read_to_taskbuf_def sys_read_def logged_def split: if_splits)
    show ?thesis
    proof (cases "bs = []")
      case True
      with assms(3) Pair Inr have "t' = t" by (auto simp: read_to_taskbuf_def sys_read_def)
      with tr True assms(2) show ?thesis by auto
    next
      case False
      with assms(3) Pair Inr have t': "t' = t\<lparr>buf := mem_write (buf t) (ring_pos (tail t)) bs, tail := tail t + of_nat (length bs)\<rparr>"
        by (auto simp: read_to_taskbuf_def sys_read_def)
      have "length bs \<le> read_room t" by (rule os_ok_read [OF assms(1), of fd "read_room t" "world e" bs w]) (use Pair Inr in simp)
      from put_contents [OF assms(2) this] t' tr show ?thesis by auto
    qed
  qed
qed

lemma write_from_taskbuf_law:
  assumes "os_ok os" "ring_ok t" "write_from_taskbuf os fd t e = (r, t', e')"
  shows "ring_ok t' \<and> (\<exists>ev. trace e' = trace e @ ev \<and> contents t = sent fd ev @ contents t'
    \<and> (\<forall>g. g \<noteq> fd \<longrightarrow> sent g ev = []) \<and> (\<forall>g. received g ev = []))"
proof (cases "head t = tail t")
  case True
  with assms show ?thesis by (auto simp: write_from_taskbuf_def)
next
  case ne: False
  show ?thesis
  proof (cases "os_write os fd (write_chunk t) (world e)")
    case (Pair x w)
    show ?thesis
    proof (cases x)
      case (Inl err)
      with assms Pair ne have "t' = t" "trace e' = trace e" by (auto simp: write_from_taskbuf_def sys_write_def)
      with assms(2) show ?thesis by auto
    next
      case (Inr k)
      let ?ev = "[Wrote_to fd (take k (write_chunk t))]"
      note wc = write_chunk_prefix [OF assms(2) ne]
      have k: "k \<le> length (write_chunk t)"
        by (rule os_ok_write [OF assms(1), of fd _ "world e" k w]) (use Pair Inr in simp)
      then have front: "take k (write_chunk t) = take k (contents t)"
        using wc(1) by (metis min.absorb1 take_take)
      have tr: "trace e' = trace e @ ?ev"
        using assms(3) Pair Inr ne by (auto simp: write_from_taskbuf_def sys_write_def logged_def split: if_splits)
      have "t' = (if k = 0 then t else t\<lparr>head := head t + of_nat k, total_written := total_written t + k\<rparr>)"
        using assms(3) Pair Inr ne by (auto simp: write_from_taskbuf_def sys_write_def split: if_splits)
      then have "ring_ok t' \<and> contents t' = drop k (contents t)"
        using drop_contents [OF assms(2), of k "total_written t + k"] k wc(3) assms(2) by auto
      with tr front show ?thesis by auto
    qed
  qed
qed

interpretation task_relay: byte_relay read_to_taskbuf write_from_taskbuf contents ring_ok
proof unfold_locales
  fix os :: "'a os" and t fd e r t' e'
  show "os_ok os \<Longrightarrow> ring_ok t \<Longrightarrow> read_to_taskbuf os fd t e = (r, t', e') \<Longrightarrow>
      ring_ok t' \<and> (\<exists>ev. trace e' = trace e @ ev \<and> contents t' = contents t @ received fd ev
        \<and> (\<forall>g. g \<noteq> fd \<longrightarrow> received g ev = []) \<and> (\<forall>g. sent g ev = []))"
    by (rule read_to_taskbuf_law)
  show "os_ok os \<Longrightarrow> ring_ok t \<Longrightarrow> write_from_taskbuf os fd t e = (r, t', e') \<Longrightarrow>
      ring_ok t' \<and> (\<exists>ev. trace e' = trace e @ ev \<and> contents t = sent fd ev @ contents t'
        \<and> (\<forall>g. g \<noteq> fd \<longrightarrow> sent g ev = []) \<and> (\<forall>g. received g ev = []))"
    by (rule write_from_taskbuf_law)
qed

end
