(* ===== verification/Peer_Tracker.thy ===== *)
theory Peer_Tracker
  imports Peer_Task
begin

text \<open>
  Sockets, the conversation with the tracker, and the start of a download (osppeer.c).
\<close>

text \<open>
  A function that may end the process returns \<open>Died\<close> when it does: by \<open>die\<close>, by a failed
  assertion, or by following the null pointer of a failed allocation.
\<close>

datatype 'a exec = Died | Done 'a

section \<open>Sockets\<close>

text \<open>\<open>open_socket\<close>; a listening socket for the address 0.  The \<open>errno\<close> is that of the failing call.\<close>

definition open_socket :: "'w os \<Rightarrow> u32 \<Rightarrow> int \<Rightarrow> 'w env \<Rightarrow> (errno + int) \<times> 'w env" where
  "open_socket os addr port e =
     (case sys_call (os_socket os) e of
        (Inl err, e) \<Rightarrow> (Inl err, e)
      | (Inr fd, e) \<Rightarrow>
          (case sys_call (os_cloexec os fd) e of
             (Some err, e) \<Rightarrow> (Inl err, sys_close os fd e)
           | (None, e) \<Rightarrow>
               (case sys_call (os_reuseaddr os fd) e of
                  (Some err, e) \<Rightarrow> (Inl err, sys_close os fd e)
                | (None, e) \<Rightarrow>
                    if addr = 0 then
                      (case sys_call (os_bind os fd (word_of_int port)) e of
                         (Some err, e) \<Rightarrow> (Inl err, sys_close os fd e)
                       | (None, e) \<Rightarrow>
                           (case sys_call (os_listen os fd 4) e of
                              (Some err, e) \<Rightarrow> (Inl err, sys_close os fd e)
                            | (None, e) \<Rightarrow> (Inr fd, e)))
                    else
                      (case sys_connect os fd addr port e of
                         (Some err, e) \<Rightarrow> (Inl err, sys_close os fd e)
                       | (None, e) \<Rightarrow> (Inr fd, e)))))"

section \<open>The tracker\<close>

text \<open>
  The \<open>for\<close> loop of \<open>read_tracker_response\<close>: \<open>Inr\<close> the result of the function, or \<open>Inl\<close> the
  position and the split position with which it goes on to read.
\<close>

function scan_response :: "(nat \<Rightarrow> u8) \<Rightarrow> nat \<Rightarrow> nat \<Rightarrow> nat option \<Rightarrow> nat \<times> nat option + nat" where
  "scan_response b len pos split =
     (if pos + 3 < len then
        if (pos = 0 \<or> b (pos - 1) = 0x0A) \<and> is_digit8 (b pos) \<and> is_digit8 (b (pos + 1)) \<and> is_digit8 (b (pos + 2)) then
          (let split' = (case split of None \<Rightarrow> pos | Some s \<Rightarrow> s)
           in if pos + 4 \<ge> len then Inl (pos, Some split')
              else if is_space8 (b (pos + 3)) \<and> b (len - 1) = 0x0A then Inr split'
              else scan_response b len (pos + 1) (Some split'))
        else scan_response b len (pos + 1) split
      else Inl (pos, split))"
  by pat_completeness auto
termination by (relation "measure (\<lambda>(b, len, pos, split). len - pos)") auto

declare scan_response.simps [simp del]

text \<open>
  The null byte behind the response may go one byte past the buffer, into \<open>head\<close>, which is 0.
\<close>

partial_function (option) await_response :: "'w os \<Rightarrow> task \<Rightarrow> nat \<Rightarrow> nat option \<Rightarrow> 'w env \<Rightarrow> (nat exec \<times> task \<times> 'w env) option" where
  "await_response os t pos split e =
     (case scan_response (buf t) (unat (tail t)) pos split of
        Inr s \<Rightarrow> Some (Done s, t\<lparr>buf := (buf t)(unat (tail t) := 0)\<rparr>, e)
      | Inl (pos, split) \<Rightarrow>
          (case read_to_taskbuf os (peer_fd t) t e of
             (r, t, e) \<Rightarrow>
               if r = TBUF_ERROR \<or> r = TBUF_END then Some (Died, t, e)
               else await_response os t pos split e))"

definition read_tracker_response :: "'w os \<Rightarrow> task \<Rightarrow> 'w env \<Rightarrow> (nat exec \<times> task \<times> 'w env) option" where
  "read_tracker_response os t e = await_response os (t\<lparr>head := 0, tail := 0\<rparr>) 0 None e"

definition start_tracker :: "'w os \<Rightarrow> u32 \<Rightarrow> int \<Rightarrow> 'w env \<Rightarrow> (task exec \<times> 'w env) option" where
  "start_tracker os addr port e =
     (case task_new os TASK_TRACKER of
        None \<Rightarrow> Some (Died, e)
      | Some t \<Rightarrow>
          (case open_socket os addr port e of
             (Inl _, e) \<Rightarrow> Some (Died, e)
           | (Inr fd, e) \<Rightarrow>
               (case sys_call (os_getsockname os fd) e of
                  (a, e) \<Rightarrow>
                    map_option (\<lambda>(r, t, e). (case r of Died \<Rightarrow> Died | Done _ \<Rightarrow> Done t, e))
                      (read_tracker_response os (t\<lparr>peer_fd := fd\<rparr>)
                         (case a of None \<Rightarrow> e | Some a \<Rightarrow> e\<lparr>listen_addr := a\<rparr>)))))"

text \<open>The search for a free port, on the ports still to try.\<close>

fun listen_ports :: "'w os \<Rightarrow> nat list \<Rightarrow> 'w env \<Rightarrow> int exec \<times> 'w env" where
  "listen_ports os [] e = (Died, e)"
| "listen_ports os (p # ps) e =
     (case open_socket os 0 (int p) (e\<lparr>listen_port := int p\<rparr>) of
        (Inr fd, e) \<Rightarrow> (Done fd, e)
      | (Inl err, e) \<Rightarrow> if err \<noteq> EADDRINUSE then (Died, e) else listen_ports os ps e)"

definition start_listen :: "'w os \<Rightarrow> 'w env \<Rightarrow> task exec \<times> 'w env" where
  "start_listen os e =
     (case listen_ports os [11112..<13000] e of
        (Died, e) \<Rightarrow> (Died, e)
      | (Done fd, e) \<Rightarrow>
          (case task_new os TASK_PEER_LISTEN of
             None \<Rightarrow> (Died, e)
           | Some t \<Rightarrow> (Done (t\<lparr>peer_fd := fd\<rparr>), e)))"

definition task_listen :: "'w os \<Rightarrow> task \<Rightarrow> 'w env \<Rightarrow> task option exec \<times> 'w env" where
  "task_listen os l e =
     (if task_type l \<noteq> TASK_PEER_LISTEN then (Died, e)
      else case sys_call (os_accept os (peer_fd l)) e of
        (Inl err, e) \<Rightarrow> if err = EINTR \<or> err = EAGAIN then (Done None, e) else (Died, e)
      | (Inr fd, e) \<Rightarrow>
          (case task_new os TASK_UPLOAD of
             None \<Rightarrow> (Died, e)
           | Some t \<Rightarrow> (Done (Some (t\<lparr>peer_fd := fd\<rparr>)), e)))"

subsection \<open>Registering files\<close>

definition addr_format :: "u8 list" where "addr_format = bytes_of ''ADDR %s %I:%d'' @ [0x0A]"
definition have_format :: "u8 list" where "have_format = bytes_of ''HAVE %s'' @ [0x0A]"
definition want_format :: "u8 list" where "want_format = bytes_of ''WANT %s'' @ [0x0A]"

text \<open>The directory entries that are not reported.\<close>

definition skip_entry :: "u8 list \<times> bool \<Rightarrow> bool" where
  "skip_entry ent =
     (let name = fst ent; namelen = length name
      in \<not> snd ent
        \<or> namelen > 2 \<and> name ! (namelen - 2) = 0x2E \<and> (name ! (namelen - 1) = 0x63 \<or> name ! (namelen - 1) = 0x68)
        \<or> namelen > 1 \<and> name ! (namelen - 1) = 0x7E)"

fun have_files :: "'w os \<Rightarrow> (u8 list \<times> bool) list \<Rightarrow> task \<Rightarrow> 'w env \<Rightarrow> (unit exec \<times> task \<times> 'w env) option" where
  "have_files os [] t e = Some (Done (), t, e)"
| "have_files os (ent # ents) t e =
     (if skip_entry ent then have_files os ents t e
      else Option.bind (osp2p_writef os (peer_fd t) have_format [WStr (fst ent)] e)
        (\<lambda>(_, e). Option.bind (read_tracker_response os t e)
          (\<lambda>(r, t, e). case r of Died \<Rightarrow> Some (Died, t, e) | Done _ \<Rightarrow> have_files os ents t e)))"

definition register_files :: "'w os \<Rightarrow> task \<Rightarrow> u8 list \<Rightarrow> 'w env \<Rightarrow> (unit exec \<times> task \<times> 'w env) option" where
  "register_files os t myalias e =
     (if task_type t \<noteq> TASK_TRACKER then Some (Died, t, e)
      else Option.bind (osp2p_writef os (peer_fd t) addr_format [WStr myalias, WAddr (listen_addr e), WInt (listen_port e)] e)
        (\<lambda>(_, e). Option.bind (read_tracker_response os t e)
          (\<lambda>(r, t, e).
             case r of
               Died \<Rightarrow> Some (Died, t, e)
             | Done messagepos \<Rightarrow>
                 if buf t messagepos \<noteq> 0x32 then Some (Done (), t, e)
                 else (case sys_call (os_files os) e of
                         (None, e) \<Rightarrow> Some (Died, t, e)
                       | (Some ents, e) \<Rightarrow> have_files os ents t e))))"

section \<open>Starting a download\<close>

definition peer_size :: nat where "peer_size = 32784"

text \<open>
  The lines of the data portion, from \<open>s1\<close> up to \<open>messagepos\<close>: \<open>memchr\<close> finds the next end of
  line.  Each peer goes to the front of the list.
\<close>

function parse_peers :: "'w os \<Rightarrow> (nat \<Rightarrow> u8) \<Rightarrow> nat \<Rightarrow> nat \<Rightarrow> peer list \<Rightarrow> peer list exec option" where
  "parse_peers os b messagepos s1 ps =
     (case List.find (\<lambda>i. b i = 0x0A) [s1..<messagepos] of
        None \<Rightarrow> Some (if s1 \<noteq> messagepos then Died else Done ps)
      | Some s2 \<Rightarrow>
          (case parse_peer (os_alloc os peer_size) (\<lambda>i. b (s1 + i)) (s2 - s1) of
             None \<Rightarrow> None
           | Some None \<Rightarrow> Some Died
           | Some (Some p) \<Rightarrow> parse_peers os b messagepos (s2 + 1) (p # ps)))"
  by pat_completeness auto
termination
  by (relation "measure (\<lambda>(os, b, m, s1, ps). m - s1)")
     (auto simp: find_Some_iff2 find_Some_iff)

declare parse_peers.simps [simp del]

text \<open>
  The length check reads the name of the new task, which is empty.  The null byte stored at
  \<open>filename[FILENAMESIZ]\<close> is the first of \<open>disk_filename\<close>.
\<close>

definition start_download :: "'w os \<Rightarrow> task \<Rightarrow> u8 list \<Rightarrow> 'w env \<Rightarrow> (task option exec \<times> task \<times> 'w env) option" where
  "start_download os tr filename e =
     (if task_type tr \<noteq> TASK_TRACKER then Some (Died, tr, e)
      else Option.bind (osp2p_writef os (peer_fd tr) want_format [WStr filename] e)
        (\<lambda>(_, e). Option.bind (read_tracker_response os tr e)
          (\<lambda>(r, tr, e).
             case r of
               Died \<Rightarrow> Some (Died, tr, e)
             | Done messagepos \<Rightarrow>
                 if buf tr messagepos \<noteq> 0x32 then Some (Done None, tr, e)
                 else (case task_new os TASK_DOWNLOAD of
                         None \<Rightarrow> Some (Done None, tr, e)
                       | Some t \<Rightarrow>
                           Option.bind (strlen (names t) 0)
                             (\<lambda>len. if len > FILENAMESIZ then Some (Done (Some t), tr, e)
                               else let names' = (strncpy (names t) 0 filename (FILENAMESIZ - 1))(FILENAMESIZ := 0)
                                    in map_option
                                         (\<lambda>r. (case r of Died \<Rightarrow> Died | Done ps \<Rightarrow> Done (Some (t\<lparr>names := names', peer_list := ps\<rparr>)), tr, e))
                                         (parse_peers os (buf tr) messagepos 0 []))))))"

end
