(* ===== verification/Peer_Transfer.thy ===== *)
theory Peer_Transfer
  imports Peer_Tracker
begin

text \<open>
  Uploads and downloads (osppeer.c), with the evil modes.
\<close>

section \<open>Uploads\<close>

text \<open>
  The transfer loop of \<open>task_upload\<close>: whether it ends at the end of the file, or by the jump
  to \<open>exit\<close>.
\<close>

partial_function (option) upload_loop :: "int \<Rightarrow> 'w os \<Rightarrow> task \<Rightarrow> 'w env \<Rightarrow> (bool \<times> task \<times> 'w env) option" where
  "upload_loop evil_mode os t e =
     (case write_from_taskbuf os (peer_fd t) t e of
        (r, t, e) \<Rightarrow>
          if r = TBUF_ERROR then Some (False, t, e)
          else case read_to_taskbuf os (disk_fd t) t e of
            (r, t, e) \<Rightarrow>
              if r = TBUF_ERROR then Some (False, t, e)
              else if r = TBUF_END \<and> head t = tail t then
                (if evil_mode = 4 then upload_loop evil_mode os t (e\<lparr>world := os_rewind os (disk_fd t) (world e)\<rparr>)
                 else Some (True, t, e))
              else upload_loop evil_mode os t e)"

lemma buffer_keeps_fds:
  "write_from_taskbuf os fd t e = (r, t', e') \<Longrightarrow> peer_fd t' = peer_fd t \<and> disk_fd t' = disk_fd t \<and> names t' = names t
    \<and> peer_list t' = peer_list t \<and> tail t' = tail t"
  "read_to_taskbuf os fd t e = (r, t', e') \<Longrightarrow> peer_fd t' = peer_fd t \<and> disk_fd t' = disk_fd t \<and> names t' = names t
    \<and> peer_list t' = peer_list t \<and> head t' = head t \<and> total_written t' = total_written t"
  by (auto simp: write_from_taskbuf_def read_to_taskbuf_def split: prod.splits sum.splits if_splits)

lemma relayed_world: "task_relay.relayed tr a b t (e\<lparr>world := w\<rparr>) = task_relay.relayed tr a b t e"
  by (simp add: task_relay.relayed_def)

lemma upload_loop_relays:
  fixes os :: "'w os"
  assumes "upload_loop evil os t e = Some re" "os_ok os"
    and "task_relay.relayed tr (disk_fd t) (peer_fd t) t e"
  shows "task_relay.relayed tr (disk_fd t) (peer_fd t) (fst (snd re)) (snd (snd re))
    \<and> (fst re \<longrightarrow> contents (fst (snd re)) = [] \<and> evil \<noteq> 4)"
proof -
  have "os_ok os \<longrightarrow> task_relay.relayed tr (disk_fd t) (peer_fd t) t e \<longrightarrow>
    task_relay.relayed tr (disk_fd t) (peer_fd t) (fst (snd re)) (snd (snd re)) \<and> (fst re \<longrightarrow> contents (fst (snd re)) = [] \<and> evil \<noteq> 4)"
  proof (rule upload_loop.raw_induct [where P = "\<lambda>evil os t e re. os_ok os \<longrightarrow> task_relay.relayed tr (disk_fd t) (peer_fd t) t e \<longrightarrow>
      task_relay.relayed tr (disk_fd t) (peer_fd t) (fst (snd re)) (snd (snd re)) \<and> (fst re \<longrightarrow> contents (fst (snd re)) = [] \<and> evil \<noteq> 4)",
      OF _ assms(1)], intro impI)
    fix f :: "int \<Rightarrow> 'w os \<Rightarrow> task \<Rightarrow> 'w env \<Rightarrow> (bool \<times> task \<times> 'w env) option" and evil os t e re
    assume IH: "\<And>evil os t e re. f evil os t e = Some re \<Longrightarrow> os_ok os \<longrightarrow> task_relay.relayed tr (disk_fd t) (peer_fd t) t e \<longrightarrow>
        task_relay.relayed tr (disk_fd t) (peer_fd t) (fst (snd re)) (snd (snd re)) \<and> (fst re \<longrightarrow> contents (fst (snd re)) = [] \<and> evil \<noteq> 4)"
      and eq: "(case write_from_taskbuf os (peer_fd t) t e of
        (r, t, e) \<Rightarrow>
          if r = TBUF_ERROR then Some (False, t, e)
          else case read_to_taskbuf os (disk_fd t) t e of
            (r, t, e) \<Rightarrow>
              if r = TBUF_ERROR then Some (False, t, e)
              else if r = TBUF_END \<and> head t = tail t then
                (if evil = 4 then f evil os t (e\<lparr>world := os_rewind os (disk_fd t) (world e)\<rparr>)
                 else Some (True, t, e))
              else f evil os t e) = Some re"
      and os: "os_ok os" and rel: "task_relay.relayed tr (disk_fd t) (peer_fd t) t e"
    obtain r1 t1 e1 where w: "write_from_taskbuf os (peer_fd t) t e = (r1, t1, e1)" by (cases "write_from_taskbuf os (peer_fd t) t e") auto
    have fd1: "peer_fd t1 = peer_fd t" "disk_fd t1 = disk_fd t" using buffer_keeps_fds(1) [OF w] by auto
    have rel1: "task_relay.relayed tr (disk_fd t) (peer_fd t) t1 e1" by (rule task_relay.relayed_put [OF os rel w])
    obtain r2 t2 e2 where r: "read_to_taskbuf os (disk_fd t1) t1 e1 = (r2, t2, e2)" by (cases "read_to_taskbuf os (disk_fd t1) t1 e1") auto
    have fd2: "peer_fd t2 = peer_fd t" "disk_fd t2 = disk_fd t" using buffer_keeps_fds(2) [OF r] fd1 by auto
    have rel2: "task_relay.relayed tr (disk_fd t) (peer_fd t) t2 e2"
      by (rule task_relay.relayed_get [OF os rel1]) (use r fd1 in simp)
    have eq': "(if r1 = TBUF_ERROR then Some (False, t1, e1) else if r2 = TBUF_ERROR then Some (False, t2, e2)
        else if r2 = TBUF_END \<and> head t2 = tail t2 then
          (if evil = 4 then f evil os t2 (e2\<lparr>world := os_rewind os (disk_fd t2) (world e2)\<rparr>) else Some (True, t2, e2))
        else f evil os t2 e2) = Some re"
      using eq unfolding w prod.case r .
    consider "re = (False, t1, e1)" | "re = (False, t2, e2)" | "re = (True, t2, e2)" "head t2 = tail t2" "evil \<noteq> 4"
      | "f evil os t2 (e2\<lparr>world := os_rewind os (disk_fd t2) (world e2)\<rparr>) = Some re" | "f evil os t2 e2 = Some re"
      using eq' by (metis option.inject)
    then show "task_relay.relayed tr (disk_fd t) (peer_fd t) (fst (snd re)) (snd (snd re)) \<and> (fst re \<longrightarrow> contents (fst (snd re)) = [] \<and> evil \<noteq> 4)"
    proof cases
      case 4
      from IH [OF this] os rel2 fd2 show ?thesis by (simp add: relayed_world)
    next
      case 5
      from IH [OF this] os rel2 fd2 show ?thesis by simp
    qed (use rel1 rel2 in simp_all)
  qed
  with assms(2,3) show ?thesis by blast
qed

subsection \<open>The request\<close>

partial_function (option) read_request :: "'w os \<Rightarrow> task \<Rightarrow> 'w env \<Rightarrow> (bool \<times> task \<times> 'w env) option" where
  "read_request os t e =
     (case read_to_taskbuf os (peer_fd t) t e of
        (r, t, e) \<Rightarrow>
          if r = TBUF_ERROR then Some (False, t, e)
          else if r = TBUF_END \<or> tail t \<noteq> 0 \<and> buf t (unat (tail t - 1)) = 0x0A then Some (True, t, e)
          else read_request os t e)"

text \<open>What the scanner reads: the task's buffer and the memory behind it.\<close>

definition request_memory :: "'w os \<Rightarrow> task \<Rightarrow> nat \<Rightarrow> u8" where
  "request_memory os t i = (if i < TASKBUFSIZ then buf t i else os_behind os (i - TASKBUFSIZ))"

text \<open>
  The scan of the request into \<open>filename\<close> and the check of its length: the name, if it is to
  be served.  The check comes after the name has been stored.
\<close>

definition parse_request :: "'w os \<Rightarrow> task \<Rightarrow> (u8 list option \<times> task) option" where
  "parse_request os t =
     Option.bind (snscanf (request_memory os t) (unat (tail t)) get_format)
       (\<lambda>(ok, out).
          let t = (case out of [SStr s] \<Rightarrow> store_name 0 s t | _ \<Rightarrow> t)
          in if \<not> ok then Some (None, t)
             else let t = t\<lparr>head := 0, tail := 0\<rparr>
                  in map_option (\<lambda>name. (if length name > FILENAMESIZ then None else Some name, t))
                       (c_string (names t) 0))"

text \<open>Whether the file is to be opened: \<open>strncmp\<close> of its real path with the working directory.\<close>

definition check_path :: "'w os \<Rightarrow> u8 list \<Rightarrow> 'w env \<Rightarrow> bool \<times> 'w env" where
  "check_path os name e =
     (case sys_realpath os name e of
        (path, e) \<Rightarrow>
          (case sys_getcwd os e of
             (None, e) \<Rightarrow> (False, e)
           | (Some dir, e) \<Rightarrow>
               (case path of
                  None \<Rightarrow> (False, e)
                | Some p \<Rightarrow> (take (length dir) p = dir, e))))"

definition serve_file :: "int \<Rightarrow> 'w os \<Rightarrow> u8 list \<Rightarrow> task \<Rightarrow> 'w env \<Rightarrow> (task \<times> 'w env) option" where
  "serve_file evil_mode os name t e =
     (case check_path os name e of
        (False, e) \<Rightarrow> Some (t, e)
      | (True, e) \<Rightarrow>
          (case sys_open os name False e of
             (Inl _, e) \<Rightarrow> Some (t\<lparr>disk_fd := -1\<rparr>, e)
           | (Inr fd, e) \<Rightarrow>
               map_option snd (upload_loop evil_mode os (t\<lparr>disk_fd := fd\<rparr>) e)))"

text \<open>
  How an upload ends.  A name of 512 bytes or more has been stored over the pointer to the peer
  list (and, longer still, over what \<open>malloc\<close> keeps behind the task): what the process does from
  there is not defined, and the model stops with \<open>Overrun\<close>.
\<close>

datatype upload_end = Returned "unit exec" | Overrun

definition task_upload :: "int \<Rightarrow> 'w os \<Rightarrow> task \<Rightarrow> 'w env \<Rightarrow> (upload_end \<times> 'w env) option" where
  "task_upload evil_mode os t e =
     (if task_type t \<noteq> TASK_UPLOAD then Some (Returned Died, e)
      else Option.bind (read_request os t e)
        (\<lambda>(ok, t, e).
           if \<not> ok then Some (Returned (Done ()), task_free os t e)
           else if head t \<noteq> 0 then Some (Returned Died, e)
           else Option.bind (parse_request os t)
             (\<lambda>(name, t).
                if name_overrun t then Some (Overrun, e)
                else case name of
                  None \<Rightarrow> Some (Returned (Done ()), task_free os t e)
                | Some name \<Rightarrow>
                    map_option (\<lambda>(t, e). (Returned (Done ()), task_free os t e)) (serve_file evil_mode os name t e))))"

section \<open>Downloads\<close>

text \<open>
  The transfer loop of \<open>task_download\<close> with its ring of rate samples: whether it ends by the
  \<open>break\<close> at the end of the file, or by the jump to \<open>try_again\<close>.
\<close>

definition rate_average :: "u32 list \<Rightarrow> u32" where
  "rate_average rs = sum_list rs div of_nat MAX_SAMPLES"

partial_function (option) download_loop ::
    "'w os \<Rightarrow> nat \<Rightarrow> u32 list \<Rightarrow> task \<Rightarrow> 'w env \<Rightarrow> (bool \<times> task \<times> 'w env) option" where
  "download_loop os sample_index rate_samples t e =
     (let prev_tail = tail t
      in case read_to_taskbuf os (peer_fd t) t e of
        (r, t, e) \<Rightarrow>
          if r = TBUF_ERROR then Some (False, t, e)
          else if r = TBUF_END \<and> head t = tail t then Some (True, t, e)
          else let sample = tail t - prev_tail;
                   rate_samples = rate_samples[sample_index := sample];
                   sample_index = (sample_index + 1) mod MAX_SAMPLES
               in if rate_average rate_samples < MIN_RATE then Some (False, t, e)
                  else if total_written t + unat sample > MAX_FILE_SIZE then Some (False, t, e)
                  else (case write_from_taskbuf os (disk_fd t) t e of
                          (r, t, e) \<Rightarrow>
                            if r = TBUF_ERROR then Some (False, t, e)
                            else download_loop os sample_index rate_samples t e))"

text \<open>
  The name of the \<open>i\<close>-th try, stored in \<open>disk_filename\<close>; no result when it goes over the pointer
  behind.
\<close>

definition set_disk_name :: "nat \<Rightarrow> task \<Rightarrow> task option" where
  "set_disk_name i t =
     (if i = 0 then
        Some (t\<lparr>names := strncpy (names t) FILENAMESIZ (takeWhile (\<lambda>c. c \<noteq> 0) (mem_read (names t) 0 FILENAMESIZ)) FILENAMESIZ\<rparr>)
      else Option.bind (c_string (names t) 0)
        (\<lambda>s. let t = store_name FILENAMESIZ (s @ [0x7E] @ decimal i @ [0x7E]) t
              in if name_overrun t then None else Some t))"

datatype disk_open = Disk_open | Disk_error | Too_many

fun open_disk :: "'w os \<Rightarrow> nat list \<Rightarrow> task \<Rightarrow> 'w env \<Rightarrow> (disk_open \<times> task \<times> 'w env) option" where
  "open_disk os [] t e = Some (Too_many, t, e)"
| "open_disk os (i # is) t e =
     Option.bind (set_disk_name i t)
       (\<lambda>t. Option.bind (c_string (names t) FILENAMESIZ)
         (\<lambda>name. case sys_open os name True e of
            (Inl err, e) \<Rightarrow>
              if err \<noteq> EEXIST then Some (Disk_error, t\<lparr>disk_fd := -1\<rparr>, e)
              else open_disk os is (t\<lparr>disk_fd := -1\<rparr>) e
          | (Inr fd, e) \<Rightarrow> Some (Disk_open, t\<lparr>disk_fd := fd\<rparr>, e)))"

text \<open>
  Connecting to the peer at the front of the list; \<open>peer_fd\<close> is -1 after a failure.
\<close>

definition connect_peer :: "'w os \<Rightarrow> task \<Rightarrow> 'w env \<Rightarrow> bool \<times> task \<times> 'w env" where
  "connect_peer os t e =
     (case open_socket os (peer_addr (hd (peer_list t))) (peer_port (hd (peer_list t))) e of
        (Inl _, e) \<Rightarrow> (False, t\<lparr>peer_fd := -1\<rparr>, e)
      | (Inr fd, e) \<Rightarrow> (True, t\<lparr>peer_fd := fd\<rparr>, e))"

text \<open>Evil mode 1: connections and requests until a connection fails.\<close>

partial_function (option) flood_peer :: "'w os \<Rightarrow> task \<Rightarrow> 'w env \<Rightarrow> (task \<times> 'w env) option" where
  "flood_peer os t e =
     (case connect_peer os t e of
        (ok, t, e) \<Rightarrow>
          if \<not> ok then Some (t, e)
          else Option.bind (c_string (names t) 0)
            (\<lambda>name. Option.bind (osp2p_writef os (peer_fd t) get_format [WStr name] e)
              (\<lambda>r. flood_peer os t (snd r))))"

text \<open>
  The steps of evil modes 2 and 3, one request each; the name of mode 2 has no null byte of
  its own.  \<open>False\<close> is the jump to \<open>try_again\<close>.
\<close>

definition evil_request :: "'w os \<Rightarrow> u8 list \<Rightarrow> task \<Rightarrow> 'w env \<Rightarrow> (bool \<times> task \<times> 'w env) option" where
  "evil_request os name t e =
     (case connect_peer os t e of
        (ok, t, e) \<Rightarrow>
          if \<not> ok then Some (False, t, e)
          else map_option (\<lambda>(_, e). (True, t, e)) (osp2p_writef os (peer_fd t) get_format [WStr name] e))"

definition evil_steps :: "int \<Rightarrow> 'w os \<Rightarrow> task \<Rightarrow> 'w env \<Rightarrow> (bool \<times> task \<times> 'w env) option" where
  "evil_steps evil_mode os t e =
     (if evil_mode = 1 then map_option (\<lambda>(t, e). (False, t, e)) (flood_peer os t e)
      else if evil_mode = 2 then evil_request os (replicate (FILENAMESIZ * 8) 0x41 @ os_stack os) t e
      else if evil_mode = 3 then evil_request os (bytes_of ''/etc/passwd'') t e
      else Some (True, t, e))"

text \<open>
  One attempt at the peer at the front of the list.  \<open>None\<close> asks for the next peer; \<open>Some\<close> is
  the return of the function, with the tracker's task.
\<close>

definition finish_download :: "'w os \<Rightarrow> task \<Rightarrow> task \<Rightarrow> 'w env \<Rightarrow> (unit exec \<times> task \<times> 'w env) option" where
  "finish_download os t tr e =
     Option.bind (c_string (names t) 0)
       (\<lambda>filename. Option.bind (c_string (names t) FILENAMESIZ)
         (\<lambda>disk_filename.
            if filename = disk_filename then
              Option.bind (osp2p_writef os (peer_fd tr) have_format [WStr filename] e)
                (\<lambda>(_, e). map_option
                  (\<lambda>(r, tr, e). case r of Died \<Rightarrow> (Died, tr, e) | Done _ \<Rightarrow> (Done (), tr, task_free os t e))
                  (read_tracker_response os tr e))
            else Some (Done (), tr, task_free os t e)))"

definition fetch_file :: "'w os \<Rightarrow> task \<Rightarrow> task \<Rightarrow> 'w env \<Rightarrow> ((task + unit exec \<times> task) \<times> 'w env) option" where
  "fetch_file os t tr e =
     Option.bind (open_disk os [0..<50] t e)
       (\<lambda>(r, t, e). case r of
          Disk_error \<Rightarrow> Some (Inl t, e)
        | Too_many \<Rightarrow> Some (Inr (Done (), tr), task_free os t e)
        | Disk_open \<Rightarrow>
            Option.bind (download_loop os 0 (replicate MAX_SAMPLES (8 * MIN_RATE)) t e)
              (\<lambda>(done, t, e).
                 if done \<and> total_written t > 0
                 then map_option (\<lambda>(r, tr, e). (Inr (r, tr), e)) (finish_download os t tr e)
                 else Some (Inl t, e)))"

definition download_attempt :: "int \<Rightarrow> 'w os \<Rightarrow> task \<Rightarrow> task \<Rightarrow> 'w env \<Rightarrow> ((task + unit exec \<times> task) \<times> 'w env) option" where
  "download_attempt evil_mode os t tr e =
     (if peer_addr (hd (peer_list t)) = listen_addr e \<and> peer_port (hd (peer_list t)) = listen_port e
      then Some (Inl t, e)
      else Option.bind (evil_steps evil_mode os t e)
        (\<lambda>(ok, t, e).
           if \<not> ok then Some (Inl t, e)
           else case connect_peer os t e of
             (ok, t, e) \<Rightarrow>
               if \<not> ok then Some (Inl t, e)
               else Option.bind (c_string (names t) 0)
                 (\<lambda>name. Option.bind (osp2p_writef os (peer_fd t) get_format [WStr name] e)
                   (\<lambda>(_, e). fetch_file os t tr e))))"

text \<open>What \<open>try_again\<close> does before the next attempt.\<close>

definition next_peer :: "'w os \<Rightarrow> task \<Rightarrow> 'w env \<Rightarrow> (task \<times> 'w env) option" where
  "next_peer os t e =
     (if names t FILENAMESIZ \<noteq> 0
      then map_option (\<lambda>name. task_pop_peer os t (sys_unlink os name e)) (c_string (names t) FILENAMESIZ)
      else Some (task_pop_peer os t e))"

partial_function (option) download_from ::
    "int \<Rightarrow> 'w os \<Rightarrow> task \<Rightarrow> task \<Rightarrow> 'w env \<Rightarrow> (unit exec \<times> task \<times> 'w env) option" where
  "download_from evil_mode os t tr e =
     (if task_type t \<noteq> TASK_DOWNLOAD \<or> task_type tr \<noteq> TASK_TRACKER then Some (Died, tr, e)
      else if peer_list t = [] then Some (Done (), tr, task_free os t e)
      else Option.bind (download_attempt evil_mode os t tr e)
        (\<lambda>x. case x of
           (Inr (r, tr), e) \<Rightarrow> Some (r, tr, e)
         | (Inl t, e) \<Rightarrow> Option.bind (next_peer os t e) (\<lambda>y. download_from evil_mode os (fst y) tr (snd y))))"

definition task_download :: "int \<Rightarrow> 'w os \<Rightarrow> task option \<Rightarrow> task \<Rightarrow> 'w env \<Rightarrow> (unit exec \<times> task \<times> 'w env) option" where
  "task_download evil_mode os t tr e =
     (case t of
        None \<Rightarrow> Some (if task_type tr \<noteq> TASK_TRACKER then Died else Done (), tr, e)
      | Some t \<Rightarrow> download_from evil_mode os t tr e)"

end
