(* ===== verification/Peer_Upload.thy ===== *)
theory Peer_Upload
  imports Peer_Transfer "HOL-Library.Sublist"
begin

text \<open>
  What an upload sends: the transfer loop, the request and its file name, and the whole
  conversation with a peer.
\<close>

section \<open>Uploads\<close>

subsection \<open>The transfer loop\<close>

text \<open>
  System calls that make progress: \<open>rest\<close> is what is left of the file at \<open>src\<close>, every read of
  it gives something until nothing is left, and every write to \<open>dst\<close> takes something.
\<close>

definition obliging :: "'w os \<Rightarrow> int \<Rightarrow> int \<Rightarrow> ('w \<Rightarrow> u8 list) \<Rightarrow> bool" where
  "obliging os src dst rest \<longleftrightarrow>
     (\<forall>n w. 0 < n \<longrightarrow> (\<exists>bs w'. os_read os src n w = (Inr bs, w') \<and> rest w = bs @ rest w' \<and> (bs = [] \<longrightarrow> rest w = [])))
     \<and> (\<forall>bs w. bs \<noteq> [] \<longrightarrow> (\<exists>k w'. os_write os dst bs w = (Inr k, w') \<and> 0 < k \<and> rest w' = rest w))"

lemma obliging_read:
  assumes "obliging os src dst rest" "os_ok os" "ring_ok t" "read_to_taskbuf os src t e = (r, t', e')" "fill t < TASKBUFSIZ"
  shows "r \<in> {TBUF_OK, TBUF_END}" "ring_ok t'" "\<exists>bs. trace e' = trace e @ [Read_from src bs] \<and> contents t' = contents t @ bs
    \<and> rest (world e) = bs @ rest (world e') \<and> (bs = [] \<longleftrightarrow> r = TBUF_END) \<and> (r = TBUF_END \<longrightarrow> t' = t \<and> rest (world e) = [])"
proof -
  have "0 < read_room t" using read_room_fits(3) [OF assms(3)] assms(5) by linarith
  then obtain bs w' where r: "os_read os src (read_room t) (world e) = (Inr bs, w')" "rest (world e) = bs @ rest w'"
    "bs = [] \<longrightarrow> rest (world e) = []" using assms(1) unfolding obliging_def by blast
  note put = put_contents [OF assms(3) os_ok_read [OF assms(2) r(1)]]
  show "r \<in> {TBUF_OK, TBUF_END}" "ring_ok t'" "\<exists>bs. trace e' = trace e @ [Read_from src bs] \<and> contents t' = contents t @ bs
    \<and> rest (world e) = bs @ rest (world e') \<and> (bs = [] \<longleftrightarrow> r = TBUF_END) \<and> (r = TBUF_END \<longrightarrow> t' = t \<and> rest (world e) = [])"
    using assms(4) r put assms(3) by (auto simp: read_to_taskbuf_def sys_read_def logged_def split: if_splits)
qed

lemma obliging_write:
  assumes "obliging os src dst rest" "os_ok os" "ring_ok t" "write_from_taskbuf os dst t e = (r, t', e')"
  shows "r \<in> {TBUF_OK, TBUF_END}" "ring_ok t'" "rest (world e') = rest (world e)"
    "if fill t = 0 then t' = t \<and> e' = e else fill t' < fill t"
proof -
  have "r \<in> {TBUF_OK, TBUF_END} \<and> ring_ok t' \<and> rest (world e') = rest (world e)
    \<and> (if fill t = 0 then t' = t \<and> e' = e else fill t' < fill t)"
  proof (cases "head t = tail t")
    case True
    with assms show ?thesis by (auto simp: write_from_taskbuf_def fill_0)
  next
    case ne: False
    note wc = write_chunk_prefix [OF assms(3) ne]
    obtain k w' where k: "os_write os dst (write_chunk t) (world e) = (Inr k, w')" "0 < k" "rest w' = rest (world e)"
      using assms(1) wc(2) unfolding obliging_def by blast
    have kf: "k \<le> fill t" using os_ok_write [OF assms(2) k(1)] wc(3) by linarith
    note d = drop_contents [OF assms(3) kf, of "total_written t + k"]
    have "fill (t\<lparr>head := head t + of_nat k, total_written := total_written t + k\<rparr>) = fill t - k"
      using arg_cong [OF d(2), of length] by simp
    with assms(4) k kf d(1) ne fill_0 [of t] show ?thesis
      by (auto simp: write_from_taskbuf_def sys_write_def logged_def)
  qed
  then show "r \<in> {TBUF_OK, TBUF_END}" "ring_ok t'" "rest (world e') = rest (world e)"
    "if fill t = 0 then t' = t \<and> e' = e else fill t' < fill t" by blast+
qed

lemma upload_loop_returns:
  assumes "obliging os (disk_fd t) (peer_fd t) rest" "os_ok os" "ring_ok t" "evil \<noteq> 4"
  shows "\<exists>t' e' ev. upload_loop evil os t e = Some (True, t', e') \<and> trace e' = trace e @ ev
    \<and> sent (peer_fd t) ev = contents t @ rest (world e)"
  using assms
proof (induction "2 * length (rest (world e)) + fill t" arbitrary: t e rule: less_induct)
  case less
  obtain r1 t1 e1 where w: "write_from_taskbuf os (peer_fd t) t e = (r1, t1, e1)"
    by (cases "write_from_taskbuf os (peer_fd t) t e") auto
  note W = obliging_write [OF less.prems(1-3) w]
  have fd1: "peer_fd t1 = peer_fd t" "disk_fd t1 = disk_fd t" using buffer_keeps_fds(1) [OF w] by auto
  have room: "fill t1 < TASKBUFSIZ" using W(4) less.prems(3) by (auto simp: ring_ok_def TASKBUFSIZ_def split: if_splits)
  obtain r2 t2 e2 where r: "read_to_taskbuf os (disk_fd t1) t1 e1 = (r2, t2, e2)"
    by (cases "read_to_taskbuf os (disk_fd t1) t1 e1") auto
  have ob1: "obliging os (disk_fd t1) (peer_fd t) rest" using less.prems(1) fd1 by simp
  note R = obliging_read [OF ob1 less.prems(2) W(2) r room]
  have fd2: "peer_fd t2 = peer_fd t" "disk_fd t2 = disk_fd t" using buffer_keeps_fds(2) [OF r] fd1 by auto
  from task_relay.put_law [OF less.prems(2,3) w] obtain ev1
    where ev1: "trace e1 = trace e @ ev1" "contents t = sent (peer_fd t) ev1 @ contents t1" by blast
  from R(3) obtain bs where bs: "trace e2 = trace e1 @ [Read_from (disk_fd t1) bs]" "contents t2 = contents t1 @ bs" "rest (world e1) = bs @ rest (world e2)"
    "bs = [] \<longleftrightarrow> r2 = TBUF_END" "r2 = TBUF_END \<longrightarrow> t2 = t1 \<and> rest (world e1) = []" by blast
  have f2: "fill t2 = fill t1 + length bs" using arg_cong [OF bs(2), of length] by simp
  have unf: "upload_loop evil os t e = (if r2 = TBUF_END \<and> head t2 = tail t2 then Some (True, t2, e2) else upload_loop evil os t2 e2)"
    using W(1) R(1) less.prems(4) by (subst upload_loop.simps) (auto simp: w r)
  show ?case
  proof (cases "r2 = TBUF_END \<and> head t2 = tail t2")
    case True
    with bs have "rest (world e1) = []" "contents t1 = []" by auto
    with True unf ev1 bs(1) W(3) show ?thesis
      by (intro exI [of _ t2] exI [of _ e2] exI [of _ "ev1 @ [Read_from (disk_fd t1) bs]"]) simp
  next
    case False
    have "2 * length (rest (world e2)) + fill t2 < 2 * length (rest (world e)) + fill t"
    proof (cases "bs = []")
      case True
      with bs False have "fill t1 \<noteq> 0" by (auto simp: fill_0)
      with W(4) True f2 bs W(3) show ?thesis by (auto split: if_splits)
    next
      case ne: False
      have "fill t1 \<le> fill t" using W(4) by (auto split: if_splits)
      with ne f2 bs(3) W(3) show ?thesis by (cases bs) auto
    qed
    from less.hyps [OF this _ less.prems(2) R(2) less.prems(4)] less.prems(1) fd2
    obtain t' e' ev where *: "upload_loop evil os t2 e2 = Some (True, t', e')" "trace e' = trace e2 @ ev"
      "sent (peer_fd t) ev = contents t2 @ rest (world e2)" by auto
    have "upload_loop evil os t e = upload_loop evil os t2 e2" using unf False by auto
    with * ev1 bs W(3) show ?thesis
      by (intro exI [of _ t'] exI [of _ e'] exI [of _ "ev1 @ [Read_from (disk_fd t1) bs] @ ev"]) simp
  qed
qed

text \<open>A world for examples: what is left of one file, which every descriptor reads.\<close>

definition demo_os :: "u8 list os" where
  "demo_os =
     \<lparr>os_alloc = (\<lambda>_. True), os_read = (\<lambda>fd n w. (Inr (take n w), drop n w)),
      os_write = (\<lambda>fd bs w. (Inr (length bs), w)), os_close = (\<lambda>fd w. w), os_open = (\<lambda>p c w. (Inr 4, w)),
      os_unlink = (\<lambda>p w. w), os_realpath = (\<lambda>p w. (Some (bytes_of ''/srv/'' @ p), w)),
      os_getcwd = (\<lambda>w. (Some (bytes_of ''/srv''), w)), os_rewind = (\<lambda>fd w. w), os_socket = (\<lambda>w. (Inr 3, w)),
      os_cloexec = (\<lambda>fd w. (None, w)), os_reuseaddr = (\<lambda>fd w. (None, w)), os_bind = (\<lambda>fd p w. (None, w)),
      os_listen = (\<lambda>fd n w. (None, w)), os_connect = (\<lambda>fd a p w. (None, w)), os_accept = (\<lambda>fd w. (Inr 3, w)),
      os_getsockname = (\<lambda>fd w. (None, w)), os_files = (\<lambda>w. (Some [], w)), os_junk = (\<lambda>_. 0), os_behind = (\<lambda>_. 0),
      os_stack = []\<rparr>"

lemma demo_os_ok: "os_ok demo_os"
  by (auto simp: os_ok_def demo_os_def)

lemma demo_obliging: "obliging demo_os src dst (\<lambda>w. w)"
  by (auto simp: obliging_def demo_os_def)

definition demo_task :: task where
  "demo_task = \<lparr>task_type = TASK_UPLOAD, peer_fd = 3, disk_fd = -1, buf = (\<lambda>_. 0), head = 0, tail = 0, total_written = 0,
     names = (\<lambda>_. 0), peer_list = [], name_overrun = False\<rparr>"

definition demo_env :: "u8 list \<Rightarrow> u8 list env" where
  "demo_env w = \<lparr>world = w, trace = [], listen_addr = 0, listen_port = 0\<rparr>"

lemma demo_task_ok: "ring_ok demo_task" "head demo_task = tail demo_task"
  by (simp_all add: demo_task_def ring_ok_def fill_def)

text \<open>
  Whatever the system calls answer, the transfer loop of an upload has sent the peer, when it
  returns, a prefix of the bytes it has read from the file, in order, and all of them when it
  ends at the end of the file; in evil mode 4 it does not end there.
\<close>
theorem upload_loop_delivers:
  assumes "os_ok os" "ring_ok t" "head t = tail t" "upload_loop evil os t e = Some (complete, t', e')"
  shows "\<exists>ev. trace e' = trace e @ ev \<and> prefix (sent (peer_fd t) ev) (received (disk_fd t) ev)
    \<and> (complete \<longrightarrow> sent (peer_fd t) ev = received (disk_fd t) ev \<and> evil \<noteq> 4)"
proof -
  have "task_relay.relayed (trace e) (disk_fd t) (peer_fd t) t e"
    by (rule task_relay.relayed_start) (use assms in simp_all)
  from upload_loop_relays [OF assms(4,1) this]
  have *: "task_relay.relayed (trace e) (disk_fd t) (peer_fd t) t' e'" "complete \<longrightarrow> contents t' = [] \<and> evil \<noteq> 4" by simp_all
  from *(1) obtain ev where "trace e' = trace e @ ev" "received (disk_fd t) ev = sent (peer_fd t) ev @ contents t'"
    by (auto simp: task_relay.relayed_def)
  with *(2) show ?thesis by (auto simp: prefix_def)
qed

theorem upload_loop_delivers_witness:
  "\<exists>complete t' e' ev. upload_loop 0 demo_os demo_task (demo_env [1, 2, 3]) = Some (complete, t', e')
    \<and> trace e' = ev \<and> prefix (sent 3 ev) (received (-1) ev)"
proof -
  obtain t' e' where *: "upload_loop 0 demo_os demo_task (demo_env [1, 2, 3]) = Some (True, t', e')"
    using upload_loop_returns [OF demo_obliging demo_os_ok demo_task_ok(1), of 0 "demo_env [1, 2, 3]"] by auto
  from upload_loop_delivers [OF demo_os_ok demo_task_ok *] * show ?thesis
    by (auto simp: demo_env_def demo_task_def)
qed



subsection \<open>Requests\<close>

lemma c_string_stored:
  assumes "0 \<notin> set s" shows "c_string (mem_write m d (s @ [0])) d = Some s"
proof -
  have byte: "mem_write m d (s @ [0]) (d + i) = (s @ [0]) ! i" if "i \<le> length s" for i
    using that by (simp add: mem_write_byte)
  have "s ! i \<noteq> 0" if "i < length s" for i using assms that by (metis nth_mem)
  then have "strlen (mem_write m d (s @ [0])) d = Some (length s)"
    by (simp add: strlen_eq_Some_iff byte nth_append)
  moreover have "mem_read (mem_write m d (s @ [0])) d (length s) = s"
    by (rule nth_equalityI) (simp_all add: byte nth_append)
  ultimately show ?thesis by (simp add: c_string_def)
qed

text \<open>The bytes of a request.\<close>

definition get_request :: "u8 list \<Rightarrow> u8 list" where
  "get_request name = bytes_of ''GET '' @ quote_bytes name @ bytes_of '' OSP2P'' @ [0x0A]"

lemma length_get_request: "length (get_request name) = length (quote_bytes name) + 11"
  by (simp add: get_request_def bytes_of_def)

lemma parse_request_run:
  assumes "name \<noteq> []" "0 \<notin> set name" "reads (buf t) 0 (get_request name)"
    and "length (get_request name) \<le> TASKBUFSIZ" "tail t = of_nat (length (get_request name))" "\<not> name_overrun t"
  shows "\<exists>t'. parse_request os t = Some (if length name > FILENAMESIZ then None else Some name, t')
    \<and> (name_overrun t' \<longleftrightarrow> length name \<ge> 512) \<and> head t' = 0 \<and> tail t' = 0 \<and> peer_list t' = peer_list t"
proof -
  have l: "unat (tail t) = length (get_request name)"
    unfolding assms(5) using assms(4) by (subst unat_of_nat) (simp add: TASKBUFSIZ_def)
  have "reads (request_memory os t) 0 (get_request name)"
    using assms(3,4) by (auto simp: reads_def request_memory_def)
  with get_request_read [OF assms(1)]
  have "snscanf (request_memory os t) (unat (tail t)) get_format = Some (True, [SStr name])"
    unfolding l length_get_request unfolding get_request_def by blast
  moreover have "c_string (mem_write (names t) 0 (name @ [0])) 0 = Some name"
    by (rule c_string_stored [OF assms(2)])
  ultimately show ?thesis
    using assms(6) by (auto simp: parse_request_def store_name_def Let_def FILENAMESIZ_def)
qed

text \<open>
  A request in the task's buffer stores the name it asks for; a name of 512 bytes or more goes
  over the peer list behind the two name arrays of the task, although the length is checked
  (afterwards); names of up to 256 bytes are served, the null byte of the longest in the array
  behind.
\<close>
theorem parse_request_name:
  assumes "name \<noteq> []" "0 \<notin> set name" "reads (buf t) 0 (get_request name)"
    and "length (get_request name) \<le> TASKBUFSIZ" "tail t = of_nat (length (get_request name))" "\<not> name_overrun t"
  shows "\<exists>t'. parse_request os t = Some (if length name > FILENAMESIZ then None else Some name, t')
    \<and> (name_overrun t' \<longleftrightarrow> length name \<ge> 512) \<and> head t' = 0 \<and> tail t' = 0 \<and> peer_list t' = peer_list t"
  by (rule parse_request_run [OF assms])

theorem parse_request_name_witness:
  "\<exists>t'. parse_request demo_os (demo_task\<lparr>buf := (\<lambda>i. if i < 12 then get_request [0x61] ! i else 0), tail := 12\<rparr>)
      = Some (Some [0x61], t') \<and> \<not> name_overrun t'"
proof -
  have q: "quote_bytes [0x61] = [0x61]" by (simp add: quote_safe_def is_alnum8_def)
  then have l: "length (get_request [0x61]) = 12" by (simp add: length_get_request)
  then have "reads (\<lambda>i. if i < 12 then get_request [0x61] ! i else 0) 0 (get_request [0x61])"
    by (simp add: reads_def)
  then show ?thesis
    using parse_request_name [of "[0x61]" "demo_task\<lparr>buf := (\<lambda>i. if i < 12 then get_request [0x61] ! i else 0), tail := 12\<rparr>" demo_os] l
    by (auto simp: TASKBUFSIZ_def FILENAMESIZ_def demo_task_def)
qed

subsection \<open>The whole upload\<close>

text \<open>Events that neither send nor receive on a descriptor other than \<open>fd\<close>, and send nothing.\<close>

definition only_reads :: "int \<Rightarrow> io_event list \<Rightarrow> bool" where
  "only_reads fd ev \<longleftrightarrow> (\<forall>g. sent g ev = []) \<and> (\<forall>g. g \<noteq> fd \<longrightarrow> received g ev = [])"

lemma only_reads_append [simp]: "only_reads fd (xs @ ys) \<longleftrightarrow> only_reads fd xs \<and> only_reads fd ys"
  by (auto simp: only_reads_def)

lemma only_reads_Nil [simp]: "only_reads fd []"
  by (simp add: only_reads_def)

lemma task_pop_peer_reads: "\<exists>ev. trace (snd (task_pop_peer os t e)) = trace e @ ev \<and> (\<forall>fd. only_reads fd ev)"
  by (auto simp: task_pop_peer_def Let_def sys_close_def logged_def only_reads_def)

lemma task_free_reads: "\<exists>ev. trace (task_free os t e) = trace e @ ev \<and> (\<forall>fd. only_reads fd ev)"
proof (induction os t e rule: task_free.induct)
  case (1 os t e)
  obtain t1 e1 where p: "task_pop_peer os t e = (t1, e1)" by (cases "task_pop_peer os t e") auto
  from task_pop_peer_reads [of os t e] p obtain ev1 where ev1: "trace e1 = trace e @ ev1" "\<forall>fd. only_reads fd ev1" by auto
  have unf: "task_free os t e = (if peer_list t1 \<noteq> [] then task_free os t1 e1 else e1)"
    by (subst task_free.simps) (simp add: p)
  show ?case
  proof (cases "peer_list t1 = []")
    case True
    with unf ev1 show ?thesis by auto
  next
    case False
    from 1 [OF p [symmetric] False] obtain ev2 where "trace (task_free os t1 e1) = trace e1 @ ev2" "\<forall>fd. only_reads fd ev2" by auto
    with unf ev1 False show ?thesis by (intro exI [of _ "ev1 @ ev2"]) simp
  qed
qed

definition reading :: "task \<Rightarrow> 'w env \<Rightarrow> task \<Rightarrow> 'w env \<Rightarrow> bool" where
  "reading t e t' e' \<longleftrightarrow> ring_ok t' \<and> peer_fd t' = peer_fd t \<and> disk_fd t' = disk_fd t
     \<and> (\<exists>ev. trace e' = trace e @ ev \<and> only_reads (peer_fd t) ev)"

lemma read_request_reads:
  fixes os :: "'w os"
  assumes "read_request os t e = Some re" "os_ok os" "ring_ok t"
  shows "reading t e (fst (snd re)) (snd (snd re))"
proof -
  have "os_ok os \<longrightarrow> ring_ok t \<longrightarrow> reading t e (fst (snd re)) (snd (snd re))"
  proof (rule read_request.raw_induct [where
      P = "\<lambda>os t e re. os_ok os \<longrightarrow> ring_ok t \<longrightarrow> reading t e (fst (snd re)) (snd (snd re))", OF _ assms(1)], intro impI)
    fix f :: "'w os \<Rightarrow> task \<Rightarrow> 'w env \<Rightarrow> (bool \<times> task \<times> 'w env) option" and os t e re
    assume IH: "\<And>os t e re. f os t e = Some re \<Longrightarrow> os_ok os \<longrightarrow> ring_ok t \<longrightarrow> reading t e (fst (snd re)) (snd (snd re))"
      and eq: "(case read_to_taskbuf os (peer_fd t) t e of
        (r, t, e) \<Rightarrow>
          if r = TBUF_ERROR then Some (False, t, e)
          else if r = TBUF_END \<or> tail t \<noteq> 0 \<and> buf t (unat (tail t - 1)) = 0x0A then Some (True, t, e)
          else f os t e) = Some re"
      and os: "os_ok os" and ok: "ring_ok t"
    obtain r1 t1 e1 where r: "read_to_taskbuf os (peer_fd t) t e = (r1, t1, e1)"
      by (cases "read_to_taskbuf os (peer_fd t) t e") auto
    from task_relay.get_law [OF os ok r] obtain ev1 where 1: "ring_ok t1" "trace e1 = trace e @ ev1" "only_reads (peer_fd t) ev1"
      unfolding only_reads_def by blast
    have fd: "peer_fd t1 = peer_fd t" "disk_fd t1 = disk_fd t" using buffer_keeps_fds(2) [OF r] by auto
    have here: "reading t e t1 e1" using 1 fd by (auto simp: reading_def)
    have eq': "(if r1 = TBUF_ERROR then Some (False, t1, e1)
        else if r1 = TBUF_END \<or> tail t1 \<noteq> 0 \<and> buf t1 (unat (tail t1 - 1)) = 0x0A then Some (True, t1, e1)
        else f os t1 e1) = Some re"
      using eq unfolding r prod.case .
    consider "re = (False, t1, e1)" | "re = (True, t1, e1)" | "f os t1 e1 = Some re"
      using eq' by (metis option.inject)
    then show "reading t e (fst (snd re)) (snd (snd re))"
    proof cases
      case 3
      from IH [OF this] os 1(1) have "reading t1 e1 (fst (snd re)) (snd (snd re))" by blast
      then obtain ev2 where "ring_ok (fst (snd re))" "peer_fd (fst (snd re)) = peer_fd t" "disk_fd (fst (snd re)) = disk_fd t"
        "trace (snd (snd re)) = trace e1 @ ev2" "only_reads (peer_fd t) ev2"
        using fd by (auto simp: reading_def)
      with 1 show ?thesis unfolding reading_def by (intro conjI exI [of _ "ev1 @ ev2"]) simp_all
    qed (use here in simp_all)
  qed
  with assms(2,3) show ?thesis by blast
qed

lemma parse_request_keeps:
  assumes "parse_request os t = Some (r, t')"
  shows "peer_fd t' = peer_fd t \<and> disk_fd t' = disk_fd t \<and> (r \<noteq> None \<longrightarrow> head t' = 0 \<and> tail t' = 0)"
  using assms
  by (auto simp: parse_request_def store_name_def Let_def split: bind_splits prod.splits if_splits list.splits scanned.splits)

text \<open>What a request may lead to: nothing is sent, or a prefix of one opened file whose real
  path begins with the working directory.\<close>

definition confined :: "int \<Rightarrow> io_event list \<Rightarrow> bool" where
  "confined fd ev \<longleftrightarrow> sent fd ev = []
     \<or> (\<exists>name path dir disk. disk \<noteq> fd \<and> {Resolved name path, Working_dir dir, Opened name False disk} \<subseteq> set ev
          \<and> prefix dir path \<and> prefix (sent fd ev) (received disk ev))"

lemma check_path_events:
  assumes "check_path os name e = (b, e')"
  shows "\<exists>ev. trace e' = trace e @ ev \<and> (\<forall>fd. only_reads fd ev)
    \<and> (b \<longrightarrow> (\<exists>path dir. {Resolved name path, Working_dir dir} \<subseteq> set ev \<and> prefix dir path))"
  using assms
  by (auto simp: check_path_def sys_realpath_def sys_getcwd_def logged_def only_reads_def take_is_prefix prefix_def
      split: prod.splits option.splits dest: sym) (metis append_take_drop_id)+

lemma confined_extend:
  assumes "confined fd ev" "set ev \<subseteq> set ev'" "sent fd ev' = sent fd ev"
    and "\<And>g. g \<noteq> fd \<Longrightarrow> prefix (received g ev) (received g ev')"
  shows "confined fd ev'"
  using assms(1) unfolding confined_def
proof (elim disjE exE conjE)
  fix name path dir disk
  assume *: "disk \<noteq> fd" "{Resolved name path, Working_dir dir, Opened name False disk} \<subseteq> set ev"
    "prefix dir path" "prefix (sent fd ev) (received disk ev)"
  have "prefix (sent fd ev') (received disk ev')"
    using *(4) assms(4) [OF *(1)] unfolding assms(3) by (rule prefix_order.trans)
  with * assms(2) show "sent fd ev' = [] \<or> (\<exists>name path dir disk. disk \<noteq> fd
      \<and> {Resolved name path, Working_dir dir, Opened name False disk} \<subseteq> set ev'
      \<and> prefix dir path \<and> prefix (sent fd ev') (received disk ev'))" by blast
qed (use assms(3) in simp)

lemma confined_after: "only_reads fd ev1 \<Longrightarrow> confined fd ev2 \<Longrightarrow> confined fd (ev1 @ ev2)"
  by (rule confined_extend [of fd ev2]) (auto simp: only_reads_def)

lemma confined_before: "confined fd ev1 \<Longrightarrow> \<forall>g. only_reads g ev2 \<Longrightarrow> confined fd (ev1 @ ev2)"
  by (rule confined_extend [of fd ev1]) (auto simp: only_reads_def)

lemma serve_file_confined:
  assumes "serve_file evil os name t e = Some (t', e')" "os_ok os" "ring_ok t" "head t = tail t"
    and fresh: "\<And>p c w fd w'. os_open os p c w = (Inr fd, w') \<Longrightarrow> fd \<noteq> peer_fd t"
  shows "\<exists>ev. trace e' = trace e @ ev \<and> confined (peer_fd t) ev"
proof -
  obtain b e1 where c: "check_path os name e = (b, e1)" by (cases "check_path os name e") auto
  from check_path_events [OF c] obtain ev1 where ev1: "trace e1 = trace e @ ev1" "\<forall>fd. only_reads fd ev1"
    "b \<longrightarrow> (\<exists>path dir. {Resolved name path, Working_dir dir} \<subseteq> set ev1 \<and> prefix dir path)" by blast
  have s1: "sent g ev1 = []" "received g ev1 = []" for g
    using spec [OF ev1(2), of "g + 1"] unfolding only_reads_def by auto
  show ?thesis
  proof (cases b)
    case False
    with assms(1) c ev1 s1 show ?thesis by (auto simp: serve_file_def confined_def)
  next
    case True
    then obtain path dir where pd: "{Resolved name path, Working_dir dir} \<subseteq> set ev1" "prefix dir path" using ev1(3) by blast
    obtain x w where o: "os_open os name False (world e1) = (x, w)" by (cases "os_open os name False (world e1)") auto
    show ?thesis
    proof (cases x)
      case (Inl err)
      with assms(1) c True o have "trace e' = trace e1" by (auto simp: serve_file_def sys_open_def)
      with ev1(1) s1 show ?thesis by (auto simp: confined_def)
    next
      case (Inr fd)
      let ?t = "t\<lparr>disk_fd := fd\<rparr>" and ?e = "logged (Opened name False fd) w e1"
      have fd: "fd \<noteq> peer_fd t" using fresh o Inr by blast
      obtain ok where loop: "upload_loop evil os ?t ?e = Some (ok, t', e')"
        using assms(1) c True o Inr by (auto simp: serve_file_def sys_open_def)
      have "task_relay.relayed (trace ?e) fd (peer_fd t) ?t ?e"
        by (rule task_relay.relayed_start) (use assms(3,4) in \<open>auto simp: ring_ok_def fill_def\<close>)
      with upload_loop_relays [OF loop assms(2), of "trace ?e"] have "task_relay.relayed (trace ?e) fd (peer_fd t) t' e'" by simp
      from task_relay.relayed_prefix [OF this] obtain ev2 rest where ev2: "trace e' = trace ?e @ ev2"
        "received fd ev2 = sent (peer_fd t) ev2 @ rest" by blast
      let ?ev = "ev1 @ [Opened name False fd] @ ev2"
      have "trace e' = trace e @ ?ev" using ev1(1) ev2(1) by (simp add: logged_def)
      moreover have "confined (peer_fd t) ?ev"
      proof -
        have "prefix (sent (peer_fd t) ?ev) (received fd ?ev)" using s1 ev2(2) by simp
        moreover have "{Resolved name path, Working_dir dir, Opened name False fd} \<subseteq> set ?ev" using pd by auto
        ultimately show ?thesis using fd pd(2) unfolding confined_def by blast
      qed
      ultimately show ?thesis by blast
    qed
  qed
qed

lemma task_upload_confined_run:
  assumes "task_upload evil os t e = Some (r, e')" "os_ok os" "ring_ok t"
    and fresh: "\<And>p c w fd w'. os_open os p c w = (Inr fd, w') \<Longrightarrow> fd \<noteq> peer_fd t"
  shows "\<exists>ev. trace e' = trace e @ ev \<and> confined (peer_fd t) ev \<and> (r = Overrun \<longrightarrow> sent (peer_fd t) ev = [])"
proof (cases "task_type t = TASK_UPLOAD")
  case False
  with assms(1) show ?thesis by (auto simp: task_upload_def confined_def)
next
  case True
  with assms(1) obtain ok t1 e1 where r: "read_request os t e = Some (ok, t1, e1)"
    by (auto simp: task_upload_def split: bind_splits)
  from read_request_reads [OF r assms(2,3)] obtain ev1 where 1: "peer_fd t1 = peer_fd t"
    "trace e1 = trace e @ ev1" "only_reads (peer_fd t) ev1" by (auto simp: reading_def)
  have silent: "sent (peer_fd t) ev1 = []" using 1(3) by (simp add: only_reads_def)
  have freeing: ?thesis if "r \<noteq> Overrun" "e' = task_free os t2 e2" "trace e2 = trace e1 @ ev2" "confined (peer_fd t) ev2" for t2 e2 ev2
  proof -
    from task_free_reads [of os t2 e2] that(2) obtain ev3 where ev3: "trace e' = trace e2 @ ev3" "\<forall>fd. only_reads fd ev3" by auto
    have "confined (peer_fd t) (ev1 @ ev2 @ ev3)"
      by (rule confined_after [OF 1(3) confined_before [OF that(4) ev3(2)]])
    moreover have "trace e' = trace e @ ev1 @ ev2 @ ev3" using 1(2) that(3) ev3(1) by simp
    ultimately show ?thesis using that(1) by blast
  qed
  have quiet: "confined fd []" for fd by (simp add: confined_def)
  have stopped: ?thesis if "e' = e1" using that 1 confined_after [OF 1(3) quiet] silent by auto
  show ?thesis
  proof (cases ok)
    case False
    with assms(1) True r have "r \<noteq> Overrun" "e' = task_free os t1 e1" by (auto simp: task_upload_def)
    then show ?thesis by (rule freeing [where ?ev2.0 = "[]"]) (simp_all add: confined_def)
  next
    case ok: True
    show ?thesis
    proof (cases "head t1 = 0")
      case False
      with assms(1) True r ok have "e' = e1" by (simp add: task_upload_def)
      then show ?thesis by (rule stopped)
    next
      case h: True
      with assms(1) True r ok obtain n t2 where p: "parse_request os t1 = Some (n, t2)"
        by (auto simp: task_upload_def split: bind_splits)
      note k = parse_request_keeps [OF p]
      show ?thesis
      proof (cases "name_overrun t2")
        case True
        with assms(1) \<open>task_type t = TASK_UPLOAD\<close> r ok h p have "e' = e1" by (simp add: task_upload_def)
        then show ?thesis by (rule stopped)
      next
        case fits: False
        show ?thesis
        proof (cases n)
          case None
          with assms(1) True r ok h p fits have "r \<noteq> Overrun" "e' = task_free os t2 e1" by (auto simp: task_upload_def)
          then show ?thesis by (rule freeing [where ?ev2.0 = "[]"]) (simp_all add: confined_def)
        next
          case (Some name)
          with assms(1) True r ok h p fits obtain t3 e3 where s: "serve_file evil os name t2 e1 = Some (t3, e3)"
            "r \<noteq> Overrun" "e' = task_free os t3 e3"
            by (auto simp: task_upload_def)
          have "head t2 = 0" "tail t2 = 0" using k Some by auto
          then have "ring_ok t2" "head t2 = tail t2" by (simp_all add: ring_ok_def fill_def)
          moreover have pf: "peer_fd t2 = peer_fd t" using k 1 by simp
          ultimately obtain ev2 where "trace e3 = trace e1 @ ev2" "confined (peer_fd t2) ev2"
            using serve_file_confined [OF s(1) assms(2)] fresh by metis
          with freeing [OF s(2,3)] pf show ?thesis by simp
        qed
      qed
    qed
  qed
qed

text \<open>
  C11 An upload that ends, whatever the system calls answer, has sent the peer nothing, or a prefix
  of the bytes it has read from one file it opened, under a name whose real path begins with the
  name of the working directory.  (In evil mode 4 the file is read again and again, so that what is
  read repeats the file.)  When the request stores a name of 512 bytes or more over the task's peer
  list, the upload has sent nothing before that; what the process does after it is not covered.
\<close>
theorem task_upload_confined:
  assumes "task_upload evil os t e = Some (r, e')" "os_ok os" "ring_ok t"
    and "\<forall>p c w fd w'. os_open os p c w = (Inr fd, w') \<longrightarrow> fd \<noteq> peer_fd t"
  shows "\<exists>ev. trace e' = trace e @ ev \<and> (r = Overrun \<longrightarrow> sent (peer_fd t) ev = []) \<and> (sent (peer_fd t) ev = []
    \<or> (\<exists>name path dir disk. disk \<noteq> peer_fd t
          \<and> {Resolved name path, Working_dir dir, Opened name False disk} \<subseteq> set ev
          \<and> prefix dir path \<and> prefix (sent (peer_fd t) ev) (received disk ev)))"
  using task_upload_confined_run [OF assms(1-3)] assms(4) unfolding confined_def by blast

text \<open>A world of a request and a file, read from descriptors 3 and 4.\<close>

definition request_os :: "(u8 list \<times> u8 list) os" where
  "request_os =
     \<lparr>os_alloc = (\<lambda>_. True),
      os_read = (\<lambda>fd n (q, f). if fd = 3 then (Inr (take n q), drop n q, f) else (Inr (take n f), q, drop n f)),
      os_write = (\<lambda>fd bs w. (Inr (length bs), w)), os_close = (\<lambda>fd w. w), os_open = (\<lambda>p c w. (Inr 4, w)),
      os_unlink = (\<lambda>p w. w), os_realpath = (\<lambda>p w. (Some (bytes_of ''/srv/'' @ p), w)),
      os_getcwd = (\<lambda>w. (Some (bytes_of ''/srv''), w)), os_rewind = (\<lambda>fd w. w), os_socket = (\<lambda>w. (Inr 3, w)),
      os_cloexec = (\<lambda>fd w. (None, w)), os_reuseaddr = (\<lambda>fd w. (None, w)), os_bind = (\<lambda>fd p w. (None, w)),
      os_listen = (\<lambda>fd n w. (None, w)), os_connect = (\<lambda>fd a p w. (None, w)), os_accept = (\<lambda>fd w. (Inr 3, w)),
      os_getsockname = (\<lambda>fd w. (None, w)), os_files = (\<lambda>w. (Some [], w)), os_junk = (\<lambda>_. 0), os_behind = (\<lambda>_. 0),
      os_stack = []\<rparr>"

lemma request_os_ok: "os_ok request_os"
  by (auto simp: os_ok_def request_os_def split: if_splits)

lemma request_obliging: "obliging request_os 4 3 snd"
  by (auto simp: obliging_def request_os_def)

lemma request_of_a: "length (get_request [0x61]) = 12" "get_request [0x61] ! 11 = 0x0A"
proof -
  have "quote_bytes [0x61] = [0x61]" by (simp add: quote_safe_def is_alnum8_def)
  then show "length (get_request [0x61]) = 12" "get_request [0x61] ! 11 = 0x0A"
    by (simp_all add: length_get_request, simp add: get_request_def bytes_of_def)
qed

lemma request_os_serves:
  "\<exists>e'. task_upload 0 request_os demo_task
     \<lparr>world = (get_request [0x61], [1, 2, 3]), trace = [], listen_addr = 0, listen_port = 0\<rparr> = Some (Returned (Done ()), e')"
proof -
  let ?e = "\<lparr>world = (get_request [0x61], [1, 2, 3 :: u8]), trace = [], listen_addr = 0, listen_port = 0\<rparr>"
  define t1 :: task where "t1 = demo_task\<lparr>buf := mem_write (\<lambda>_. 0) 0 (get_request [0x61]), tail := 12\<rparr>"
  define e1 where "e1 = logged (Read_from 3 (get_request [0x61])) ([], [1, 2, 3 :: u8]) ?e"
  have room: "read_room demo_task = 32768" by (simp add: read_room_def demo_task_def ring_pos_def TASKBUFSIZ_def)
  have "read_to_taskbuf request_os 3 demo_task ?e = (TBUF_OK, t1, e1)"
    unfolding read_to_taskbuf_def sys_read_def room using request_of_a(1)
    by (auto simp: request_os_def t1_def e1_def demo_task_def ring_pos_def)
  moreover have "buf t1 (unat (tail t1 - 1)) = 0x0A"
    using request_of_a by (simp add: t1_def mem_write_byte)
  ultimately have r: "read_request request_os demo_task ?e = Some (True, t1, e1)"
    by (subst read_request.simps) (simp add: demo_task_def t1_def)
  have "reads (buf t1) 0 (get_request [0x61])" by (simp add: t1_def reads_def mem_write_byte)
  from parse_request_run [OF _ _ this, of request_os] request_of_a obtain t2
    where p: "parse_request request_os t1 = Some (Some [0x61], t2)" "head t2 = 0" "tail t2 = 0" "\<not> name_overrun t2"
    by (auto simp: t1_def demo_task_def TASKBUFSIZ_def FILENAMESIZ_def)
  have pf: "peer_fd t2 = 3" using parse_request_keeps [OF p(1)] by (simp add: t1_def demo_task_def)
  define e2 where "e2 = snd (check_path request_os [0x61] e1)"
  have c: "check_path request_os [0x61] e1 = (True, e2)"
    by (simp add: e2_def check_path_def sys_realpath_def sys_getcwd_def request_os_def bytes_of_def)
  define e3 where "e3 = logged (Opened [0x61] False 4) (world e2) e2"
  have o: "sys_open request_os [0x61] False e2 = (Inr 4, e3)"
    by (simp add: sys_open_def request_os_def e3_def)
  have "ring_ok (t2\<lparr>disk_fd := 4\<rparr>)" using p by (simp add: ring_ok_def fill_def)
  then obtain t4 e4 where "upload_loop 0 request_os (t2\<lparr>disk_fd := 4\<rparr>) e3 = Some (True, t4, e4)"
    using upload_loop_returns [of request_os "t2\<lparr>disk_fd := 4\<rparr>" snd 0 e3] request_obliging request_os_ok pf by auto
  then have "serve_file 0 request_os [0x61] t2 e1 = Some (t4, e4)"
    by (simp add: serve_file_def c o)
  moreover have "task_type demo_task = TASK_UPLOAD" "head t1 = 0" by (simp_all add: demo_task_def t1_def)
  ultimately show ?thesis by (simp add: task_upload_def r p)
qed

theorem task_upload_confined_witness:
  "\<exists>r e' ev. task_upload 0 request_os demo_task
       \<lparr>world = (get_request [0x61], [1, 2, 3]), trace = [], listen_addr = 0, listen_port = 0\<rparr> = Some (r, e')
    \<and> trace e' = ev \<and> (sent 3 ev = [] \<or> (\<exists>disk. disk \<noteq> 3 \<and> prefix (sent 3 ev) (received disk ev)))"
proof -
  obtain e' where run: "task_upload 0 request_os demo_task
      \<lparr>world = (get_request [0x61], [1, 2, 3]), trace = [], listen_addr = 0, listen_port = 0\<rparr> = Some (Returned (Done ()), e')"
    using request_os_serves by blast
  have "\<forall>p c w fd w'. os_open request_os p c w = (Inr fd, w') \<longrightarrow> fd \<noteq> peer_fd demo_task"
    by (auto simp: request_os_def demo_task_def)
  from task_upload_confined [OF run request_os_ok demo_task_ok(1) this] run show ?thesis
    by (auto simp: demo_task_def)
qed

end
