(* ===== verification/Peer_Download.thy ===== *)
theory Peer_Download
  imports Peer_Upload
begin

text \<open>
  What a download stores, and how much.
\<close>

section \<open>Downloads\<close>

subsection \<open>The transfer loop\<close>

lemma write_total:
  assumes "os_ok os" "ring_ok t" "write_from_taskbuf os fd t e = (r, t', e')"
  shows "\<exists>ev. trace e' = trace e @ ev \<and> total_written t' = total_written t + length (sent fd ev) \<and> length (sent fd ev) \<le> fill t"
proof -
  from task_relay.put_law [OF assms] obtain ev where ev: "trace e' = trace e @ ev" "contents t = sent fd ev @ contents t'" by blast
  have "length (sent fd ev) \<le> fill t" using arg_cong [OF ev(2), of length] by simp
  moreover have "total_written t' = total_written t + length (sent fd ev)"
    using assms(3) ev(1) os_ok_write [OF assms(1)]
    by (fastforce simp: write_from_taskbuf_def sys_write_def logged_def split: prod.splits sum.splits if_splits)
  ultimately show ?thesis using ev(1) by blast
qed

text \<open>Since \<open>tr\<close>: what has been received is what is on the disk and what is in the buffer, and
  \<open>total_written\<close> counts what is on the disk and is bounded.\<close>

definition downloaded :: "io_event list \<Rightarrow> task \<Rightarrow> 'w env \<Rightarrow> bool" where
  "downloaded tr t e \<longleftrightarrow> task_relay.relayed tr (peer_fd t) (disk_fd t) t e
     \<and> (\<exists>ev. trace e = tr @ ev \<and> total_written t = length (sent (disk_fd t) ev))
     \<and> total_written t \<le> MAX_FILE_SIZE + TASKBUFSIZ"

lemma downloaded_get:
  assumes "os_ok os" "downloaded tr t e" "read_to_taskbuf os (peer_fd t) t e = (r, t', e')"
  shows "downloaded tr t' e'" "ring_ok t'"
proof -
  note k = buffer_keeps_fds(2) [OF assms(3)]
  have "ring_ok t" using assms(2) by (simp add: downloaded_def task_relay.relayed_def)
  from task_relay.get_law [OF assms(1) this assms(3)] obtain ev' where ev': "ring_ok t'" "trace e' = trace e @ ev'" "\<forall>g. sent g ev' = []" by blast
  then show "ring_ok t'" by simp
  from assms(2) obtain ev where "trace e = tr @ ev" "total_written t = length (sent (disk_fd t) ev)"
    by (auto simp: downloaded_def)
  with ev' k have "trace e' = tr @ (ev @ ev') \<and> total_written t' = length (sent (disk_fd t') (ev @ ev'))" by simp
  moreover have "task_relay.relayed tr (peer_fd t') (disk_fd t') t' e'"
    using task_relay.relayed_get [OF assms(1) _ assms(3)] assms(2) k by (auto simp: downloaded_def)
  ultimately show "downloaded tr t' e'" using assms(2) k unfolding downloaded_def by auto
qed

lemma downloaded_put:
  assumes "os_ok os" "downloaded tr t e" "write_from_taskbuf os (disk_fd t) t e = (r, t', e')" "total_written t \<le> MAX_FILE_SIZE"
  shows "downloaded tr t' e'"
proof -
  note k = buffer_keeps_fds(1) [OF assms(3)]
  have ok: "ring_ok t" using assms(2) by (simp add: downloaded_def task_relay.relayed_def)
  from write_total [OF assms(1) ok assms(3)] obtain ev' where ev': "trace e' = trace e @ ev'"
    "total_written t' = total_written t + length (sent (disk_fd t) ev')" "length (sent (disk_fd t) ev') \<le> fill t" by blast
  from assms(2) obtain ev where "trace e = tr @ ev" "total_written t = length (sent (disk_fd t) ev)"
    by (auto simp: downloaded_def)
  with ev' k have "trace e' = tr @ (ev @ ev') \<and> total_written t' = length (sent (disk_fd t') (ev @ ev'))" by simp
  moreover have "task_relay.relayed tr (peer_fd t') (disk_fd t') t' e'"
    using task_relay.relayed_put [OF assms(1) _ assms(3)] assms(2) k by (auto simp: downloaded_def)
  moreover have "total_written t' \<le> MAX_FILE_SIZE + TASKBUFSIZ" using ev' assms(4) ok by (simp add: ring_ok_def)
  ultimately show ?thesis unfolding downloaded_def by blast
qed

definition download_result :: "io_event list \<Rightarrow> int \<Rightarrow> int \<Rightarrow> bool \<times> task \<times> 'w env \<Rightarrow> bool" where
  "download_result tr src dst re \<longleftrightarrow> downloaded tr (fst (snd re)) (snd (snd re))
     \<and> peer_fd (fst (snd re)) = src \<and> disk_fd (fst (snd re)) = dst \<and> (fst re \<longrightarrow> contents (fst (snd re)) = [])"

lemma download_loop_downloads:
  fixes os :: "'w os"
  assumes "download_loop os si rs t e = Some re" "os_ok os" "downloaded tr t e"
  shows "download_result tr (peer_fd t) (disk_fd t) re"
proof -
  have "os_ok os \<longrightarrow> downloaded tr t e \<longrightarrow> download_result tr (peer_fd t) (disk_fd t) re"
  proof (rule download_loop.raw_induct [where P = "\<lambda>os si rs t e re. os_ok os \<longrightarrow> downloaded tr t e \<longrightarrow>
      download_result tr (peer_fd t) (disk_fd t) re", OF _ assms(1)], intro impI)
    fix f :: "'w os \<Rightarrow> nat \<Rightarrow> u32 list \<Rightarrow> task \<Rightarrow> 'w env \<Rightarrow> (bool \<times> task \<times> 'w env) option" and os si rs t e re
    assume IH: "\<And>os si rs t e re. f os si rs t e = Some re \<Longrightarrow> os_ok os \<longrightarrow> downloaded tr t e \<longrightarrow>
        download_result tr (peer_fd t) (disk_fd t) re"
      and eq: "(let prev_tail = tail t
        in case read_to_taskbuf os (peer_fd t) t e of
          (r, t, e) \<Rightarrow>
            if r = TBUF_ERROR then Some (False, t, e)
            else if r = TBUF_END \<and> head t = tail t then Some (True, t, e)
            else let sample = tail t - prev_tail;
                     rate_samples = rs[si := sample];
                     sample_index = (si + 1) mod MAX_SAMPLES
                 in if rate_average rate_samples < MIN_RATE then Some (False, t, e)
                    else if total_written t + unat sample > MAX_FILE_SIZE then Some (False, t, e)
                    else (case write_from_taskbuf os (disk_fd t) t e of
                            (r, t, e) \<Rightarrow>
                              if r = TBUF_ERROR then Some (False, t, e)
                              else f os sample_index rate_samples t e)) = Some re"
      and os: "os_ok os" and d: "downloaded tr t e"
    obtain r1 t1 e1 where r: "read_to_taskbuf os (peer_fd t) t e = (r1, t1, e1)"
      by (cases "read_to_taskbuf os (peer_fd t) t e") auto
    note d1 = downloaded_get(1) [OF os d r]
    have fd1: "peer_fd t1 = peer_fd t" "disk_fd t1 = disk_fd t" using buffer_keeps_fds(2) [OF r] by auto
    obtain r2 t2 e2 where w: "write_from_taskbuf os (disk_fd t1) t1 e1 = (r2, t2, e2)"
      by (cases "write_from_taskbuf os (disk_fd t1) t1 e1") auto
    have fd2: "peer_fd t2 = peer_fd t" "disk_fd t2 = disk_fd t" using buffer_keeps_fds(1) [OF w] fd1 by auto
    let ?s = "tail t1 - tail t" let ?rs = "rs[si := ?s]"
    have eq': "(if r1 = TBUF_ERROR then Some (False, t1, e1) else if r1 = TBUF_END \<and> head t1 = tail t1 then Some (True, t1, e1)
        else if rate_average ?rs < MIN_RATE then Some (False, t1, e1)
        else if total_written t1 + unat ?s > MAX_FILE_SIZE then Some (False, t1, e1)
        else if r2 = TBUF_ERROR then Some (False, t2, e2) else f os ((si + 1) mod MAX_SAMPLES) ?rs t2 e2) = Some re"
      using eq unfolding Let_def r prod.case w .
    then consider "re = (False, t1, e1)" | "re = (True, t1, e1)" "head t1 = tail t1"
      | "re = (False, t2, e2)" "\<not> total_written t1 + unat ?s > MAX_FILE_SIZE"
      | "f os ((si + 1) mod MAX_SAMPLES) ?rs t2 e2 = Some re" "\<not> total_written t1 + unat ?s > MAX_FILE_SIZE"
      by (metis option.inject)
    then show "download_result tr (peer_fd t) (disk_fd t) re"
    proof cases
      case 3
      have "downloaded tr t2 e2" by (rule downloaded_put [OF os d1 w]) (use 3(2) in linarith)
      with 3 fd2 show ?thesis by (simp add: download_result_def)
    next
      case 4
      have "downloaded tr t2 e2" by (rule downloaded_put [OF os d1 w]) (use 4(2) in linarith)
      with IH [OF 4(1)] os fd2 show ?thesis by simp
    qed (use d1 fd1 in \<open>simp_all add: download_result_def\<close>)
  qed
  with assms(2,3) show ?thesis by blast
qed

text \<open>
  C12 Whatever the peer sends, a download has stored, when its transfer loop ends, a prefix of the
  bytes received, all of them when the peer ended the transfer, and at most
  \<open>MAX_FILE_SIZE + TASKBUFSIZ\<close> bytes.
\<close>
theorem download_loop_delivers:
  assumes "os_ok os" "ring_ok t" "head t = tail t" "total_written t = 0"
    and "download_loop os si rs t e = Some (complete, t', e')"
  shows "\<exists>ev. trace e' = trace e @ ev \<and> prefix (sent (disk_fd t) ev) (received (peer_fd t) ev)
    \<and> (complete \<longrightarrow> sent (disk_fd t) ev = received (peer_fd t) ev)
    \<and> length (sent (disk_fd t) ev) \<le> MAX_FILE_SIZE + TASKBUFSIZ"
proof -
  have "task_relay.relayed (trace e) (peer_fd t) (disk_fd t) t e"
    by (rule task_relay.relayed_start) (use assms in simp_all)
  then have "downloaded (trace e) t e" using assms(4) by (simp add: downloaded_def)
  from download_loop_downloads [OF assms(5,1) this]
  have *: "downloaded (trace e) t' e'" "peer_fd t' = peer_fd t" "disk_fd t' = disk_fd t" "complete \<longrightarrow> contents t' = []"
    by (auto simp: download_result_def)
  from *(1,2,3) obtain ev where "trace e' = trace e @ ev" "received (peer_fd t) ev = sent (disk_fd t) ev @ contents t'"
    "length (sent (disk_fd t) ev) \<le> MAX_FILE_SIZE + TASKBUFSIZ"
    by (auto simp: downloaded_def task_relay.relayed_def)
  with *(4) show ?thesis by (auto simp: prefix_def)
qed

theorem download_loop_delivers_witness:
  "\<exists>complete t' e' ev. download_loop demo_os 0 (replicate 10 256) demo_task (demo_env []) = Some (complete, t', e')
    \<and> trace e' = [] @ ev \<and> sent (-1) ev = received 3 ev \<and> length (sent (-1) ev) \<le> MAX_FILE_SIZE + TASKBUFSIZ"
proof -
  have "download_loop demo_os 0 (replicate 10 256) demo_task (demo_env []) = Some (True, demo_task, logged (Read_from 3 []) [] (demo_env []))"
    by (subst download_loop.simps) (simp add: read_to_taskbuf_def sys_read_def demo_os_def demo_env_def demo_task_def)
  with download_loop_delivers [OF demo_os_ok demo_task_ok _ this] show ?thesis
    by (auto simp: demo_env_def demo_task_def)
qed

end
