(* ===== verification/Peer_Response.thy ===== *)
theory Peer_Response
  imports Peer_Download
begin

text \<open>
  The tracker's answers: when one is accepted, when its end is missed, and the peers a
  download starts with.
\<close>

section \<open>The tracker's answers\<close>

text \<open>A line of the buffer that starts with a three-digit code, and one that ends the answer.\<close>

definition code_line :: "(nat \<Rightarrow> u8) \<Rightarrow> nat \<Rightarrow> bool" where
  "code_line b p \<longleftrightarrow> (p = 0 \<or> b (p - 1) = 0x0A) \<and> is_digit8 (b p) \<and> is_digit8 (b (p + 1)) \<and> is_digit8 (b (p + 2))"

definition terminator_line :: "(nat \<Rightarrow> u8) \<Rightarrow> nat \<Rightarrow> bool" where
  "terminator_line b p \<longleftrightarrow> code_line b p \<and> is_space8 (b (p + 3))"

text \<open>What the scan knows: the first code line before \<open>pos\<close>, or at it, or that there is none before.\<close>

definition scanned_to :: "(nat \<Rightarrow> u8) \<Rightarrow> nat \<Rightarrow> nat \<Rightarrow> nat option \<Rightarrow> bool" where
  "scanned_to b n pos split \<longleftrightarrow> (pos = 0 \<or> pos + 2 < n)
     \<and> (case split of
          None \<Rightarrow> (\<forall>p<pos. \<not> code_line b p)
        | Some s \<Rightarrow> code_line b s \<and> s + 3 < n \<and> (\<forall>p < s. \<not> code_line b p))"

lemma scan_response_cases:
  fixes b n pos split
  defines "split' \<equiv> (case split of None \<Rightarrow> pos | Some s \<Rightarrow> s)"
  shows "scan_response b n pos split =
     (if \<not> pos + 3 < n then Inl (pos, split)
      else if \<not> code_line b pos then scan_response b n (pos + 1) split
      else if pos + 4 \<ge> n then Inl (pos, Some split')
      else if is_space8 (b (pos + 3)) \<and> b (n - 1) = 0x0A then Inr split'
      else scan_response b n (pos + 1) (Some split'))"
proof -
  have nest: "(if P then if Q then x else y else z) = (if \<not> P then z else if \<not> Q then y else x)" for P Q and x y z :: "nat \<times> nat option + nat"
    by simp
  show ?thesis
    unfolding split'_def code_line_def nest [symmetric] by (subst scan_response.simps) (simp only: Let_def)
qed

definition scan_ok :: "(nat \<Rightarrow> u8) \<Rightarrow> nat \<Rightarrow> nat \<Rightarrow> nat \<times> nat option + nat \<Rightarrow> bool" where
  "scan_ok b n pos r \<longleftrightarrow> (case r of
      Inl (pos', split') \<Rightarrow> scanned_to b n pos' split' \<and> pos \<le> pos' \<and> n \<le> pos' + 4
    | Inr s \<Rightarrow> code_line b s \<and> s + 3 < n \<and> (\<forall>p < s. \<not> code_line b p) \<and> b (n - 1) = 0x0A
        \<and> (\<exists>q\<ge>pos. terminator_line b q \<and> q + 4 < n))"

lemma scan_ok_mono: "scan_ok b n (pos + 1) r \<Longrightarrow> scan_ok b n pos r"
  by (auto simp: scan_ok_def split: sum.splits intro: Suc_leD)

lemma scan_response_result:
  assumes "scanned_to b n pos split" "scan_response b n pos split = r"
  shows "scan_ok b n pos r"
  using assms
proof (induction b n pos split arbitrary: r rule: scan_response.induct)
  case (1 b n pos split)
  let ?split' = "case split of None \<Rightarrow> pos | Some s \<Rightarrow> s"
  have next': "scanned_to b n (pos + 1) (Some ?split')" if "code_line b pos" "pos + 3 < n"
    using 1(3) that by (auto simp: scanned_to_def split: option.splits)
  have skip: "scanned_to b n (pos + 1) split" if "\<not> code_line b pos" "pos + 3 < n"
    using 1(3) that by (auto simp: scanned_to_def less_Suc_eq split: option.splits)
  consider (out) "\<not> pos + 3 < n" | (no) "pos + 3 < n" "\<not> code_line b pos"
    | (brk) "pos + 3 < n" "code_line b pos" "pos + 4 \<ge> n"
    | (found) "pos + 3 < n" "code_line b pos" "pos + 4 < n" "is_space8 (b (pos + 3))" "b (n - 1) = 0x0A"
    | (on) "pos + 3 < n" "code_line b pos" "pos + 4 < n" "\<not> (is_space8 (b (pos + 3)) \<and> b (n - 1) = 0x0A)"
    by linarith
  then show ?case
  proof cases
    case out
    then have "r = Inl (pos, split)" unfolding 1(4) [symmetric] by (subst scan_response_cases) simp
    with 1(3) out show ?thesis by (simp add: scan_ok_def)
  next
    case no
    have "r = scan_response b n (pos + 1) split"
      unfolding 1(4) [symmetric] by (subst scan_response_cases) (simp add: no)
    from 1(2) [OF no(1) _ skip [OF no(2,1)] this [symmetric]] no(2)
    have "scan_ok b n (pos + 1) r" by (simp add: code_line_def)
    then show ?thesis by (rule scan_ok_mono)
  next
    case brk
    have "r = Inl (pos, Some ?split')"
      unfolding 1(4) [symmetric] by (subst scan_response_cases) (simp add: brk)
    with next' [OF brk(2,1)] 1(3) brk show ?thesis by (auto simp: scan_ok_def scanned_to_def)
  next
    case found
    have "r = Inr ?split'"
      unfolding 1(4) [symmetric] using found by (subst scan_response_cases) simp
    with next' [OF found(2,1)] found show ?thesis by (auto simp: scan_ok_def scanned_to_def terminator_line_def)
  next
    case on
    have "r = scan_response b n (pos + 1) (Some ?split')"
      unfolding 1(4) [symmetric] using on by (subst scan_response_cases) auto
    from 1(1) [OF on(1) _ refl _ _ next' [OF on(2,1)] this [symmetric]] on
    have "scan_ok b n (pos + 1) r" by (simp add: code_line_def)
    then show ?thesis by (rule scan_ok_mono)
  qed
qed

text \<open>The state between two reads of the answer.\<close>

definition awaiting :: "int \<Rightarrow> io_event list \<Rightarrow> task \<Rightarrow> nat \<Rightarrow> nat option \<Rightarrow> 'w env \<Rightarrow> bool" where
  "awaiting fd tr t pos split e \<longleftrightarrow> peer_fd t = fd \<and> head t = 0 \<and> ring_ok t
     \<and> (pos = 0 \<or> pos + 2 < unat (tail t)) \<and> scanned_to (buf t) (unat (tail t)) pos split
     \<and> (\<exists>ev. trace e = tr @ ev \<and> received fd ev = contents t)"

definition answered :: "int \<Rightarrow> io_event list \<Rightarrow> nat \<Rightarrow> nat exec \<times> task \<times> 'w env \<Rightarrow> bool" where
  "answered fd tr pos re \<longleftrightarrow>
     (case re of
        (Died, t, e) \<Rightarrow> True
      | (Done s, t, e) \<Rightarrow>
          (let n = unat (tail t)
           in n \<le> TASKBUFSIZ \<and> buf t n = 0 \<and> buf t (n - 1) = 0x0A \<and> code_line (buf t) s \<and> (\<forall>p < s. \<not> code_line (buf t) p)
              \<and> (\<exists>q\<ge>pos. terminator_line (buf t) q \<and> q + 4 < n)
              \<and> (\<exists>ev. trace e = tr @ ev \<and> received fd ev = mem_read (buf t) 0 n)))"

lemma answered_later: "answered fd tr pos' re \<Longrightarrow> pos \<le> pos' \<Longrightarrow> answered fd tr pos re"
  by (auto simp: answered_def Let_def split: prod.splits exec.splits intro: le_trans)

lemma contents_from_start:
  assumes "head t = 0" "ring_ok t" shows "contents t = mem_read (buf t) 0 (unat (tail t))" "unat (tail t) \<le> TASKBUFSIZ"
proof -
  show "unat (tail t) \<le> TASKBUFSIZ" using assms by (simp add: ring_ok_def fill_def)
  with assms show "contents t = mem_read (buf t) 0 (unat (tail t))"
    by (auto simp: contents_def fill_def intro!: nth_equalityI)
qed

lemma code_line_cong: "(\<And>i. i < n \<Longrightarrow> b i = b' i) \<Longrightarrow> p + 2 < n \<Longrightarrow> code_line b p = code_line b' p"
  by (simp add: code_line_def)

lemma scanned_to_cong:
  assumes "\<And>i. i < n \<Longrightarrow> b i = b' i" "n \<le> n'" "scanned_to b n pos split"
  shows "scanned_to b' n' pos split"
proof -
  have c: "code_line b p = code_line b' p" if "p + 2 < n" for p by (rule code_line_cong [OF assms(1) that])
  show ?thesis
  proof (cases split)
    case None
    with assms(2,3) c show ?thesis by (auto simp: scanned_to_def)
  next
    case (Some s)
    have "\<forall>p < s. \<not> code_line b' p"
    proof (intro allI impI)
      fix p assume "p < s"
      then have "p + 2 < n" "\<not> code_line b p" using assms(3) Some by (auto simp: scanned_to_def)
      with c show "\<not> code_line b' p" by simp
    qed
    with Some assms(2,3) c [of s] show ?thesis by (auto simp: scanned_to_def)
  qed
qed

lemma awaiting_get:
  assumes "os_ok os" "awaiting fd tr t pos split e" "read_to_taskbuf os fd t e = (r, t', e')"
  shows "awaiting fd tr t' pos split e'"
proof -
  from assms(2) have ok: "ring_ok t" "head t = 0" "peer_fd t = fd" by (simp_all add: awaiting_def)
  from task_relay.get_law [OF assms(1) ok(1) assms(3)] obtain ev' where ev': "ring_ok t'" "trace e' = trace e @ ev'"
    "contents t' = contents t @ received fd ev'" by blast
  note k = buffer_keeps_fds(2) [OF assms(3)]
  have ok': "head t' = 0" "ring_ok t'" "peer_fd t' = fd" using ev' k ok by simp_all
  note c = contents_from_start [OF ok(2,1)] and c' = contents_from_start [OF ok'(1,2)]
  have len: "unat (tail t) \<le> unat (tail t')" using arg_cong [OF ev'(3), of length] c c' by simp
  have same: "buf t i = buf t' i" if "i < unat (tail t)" for i
  proof -
    have "buf t i = contents t ! i" using that c by simp
    also have "\<dots> = contents t' ! i" using that c ev'(3) by (simp add: nth_append)
    finally show ?thesis using that len c' by simp
  qed
  from assms(2) obtain ev where ev: "trace e = tr @ ev" "received fd ev = contents t" by (auto simp: awaiting_def)
  have "scanned_to (buf t') (unat (tail t')) pos split"
    by (rule scanned_to_cong [OF same len]) (use assms(2) in \<open>simp_all add: awaiting_def\<close>)
  moreover have "trace e' = tr @ (ev @ ev') \<and> received fd (ev @ ev') = contents t'" using ev ev' by simp
  ultimately show ?thesis using assms(2) ok' len unfolding awaiting_def by (metis le_trans not_less)
qed

lemma await_response_answers:
  fixes os :: "'w os"
  assumes "await_response os t pos split e = Some re" "os_ok os" "awaiting fd tr t pos split e"
  shows "answered fd tr pos re"
proof -
  have "os_ok os \<longrightarrow> awaiting fd tr t pos split e \<longrightarrow> answered fd tr pos re"
  proof (rule await_response.raw_induct [where P = "\<lambda>os t pos split e re. os_ok os \<longrightarrow> awaiting fd tr t pos split e \<longrightarrow>
      answered fd tr pos re", OF _ assms(1)], intro impI)
    fix f :: "'w os \<Rightarrow> task \<Rightarrow> nat \<Rightarrow> nat option \<Rightarrow> 'w env \<Rightarrow> (nat exec \<times> task \<times> 'w env) option" and os t pos split e re
    assume IH: "\<And>os t pos split e re. f os t pos split e = Some re \<Longrightarrow> os_ok os \<longrightarrow> awaiting fd tr t pos split e \<longrightarrow> answered fd tr pos re"
      and eq: "(case scan_response (buf t) (unat (tail t)) pos split of
        Inr s \<Rightarrow> Some (Done s, t\<lparr>buf := (buf t)(unat (tail t) := 0)\<rparr>, e)
      | Inl (pos, split) \<Rightarrow>
          (case read_to_taskbuf os (peer_fd t) t e of
             (r, t, e) \<Rightarrow>
               if r = TBUF_ERROR \<or> r = TBUF_END then Some (Died, t, e)
               else f os t pos split e)) = Some re"
      and os: "os_ok os" and a: "awaiting fd tr t pos split e"
    have st: "scanned_to (buf t) (unat (tail t)) pos split" and ok: "head t = 0" "ring_ok t" "peer_fd t = fd"
      using a by (simp_all add: awaiting_def)
    note sc = scan_response_result [OF st refl, unfolded scan_ok_def]
    show "answered fd tr pos re"
    proof (cases "scan_response (buf t) (unat (tail t)) pos split")
      case (Inr s)
      let ?t = "t\<lparr>buf := (buf t)(unat (tail t) := 0)\<rparr>" and ?n = "unat (tail t)"
      have same: "buf t i = buf ?t i" if "i < ?n" for i using that by simp
      have cl: "code_line (buf t) p = code_line (buf ?t) p" if "p + 2 < ?n" for p
        by (rule code_line_cong [OF same that])
      from sc Inr have s: "code_line (buf t) s" "s + 3 < ?n" "\<forall>p < s. \<not> code_line (buf t) p" "buf t (?n - 1) = 0x0A" by auto
      from sc Inr obtain q where q: "q \<ge> pos" "terminator_line (buf t) q" "q + 4 < ?n" by auto
      have "terminator_line (buf ?t) q" using q cl [of q] by (simp add: terminator_line_def)
      moreover have "\<forall>p < s. \<not> code_line (buf ?t) p" using s cl by auto
      moreover have "code_line (buf ?t) s" using s cl [of s] by simp
      moreover have "mem_read (buf ?t) 0 ?n = contents t"
        unfolding contents_from_start [OF ok(1,2)] by (rule mem_read_cong) simp
      moreover from a obtain ev where "trace e = tr @ ev" "received fd ev = contents t" by (auto simp: awaiting_def)
      moreover have "re = (Done s, ?t, e)" using eq Inr by simp
      moreover have "?n \<le> TASKBUFSIZ" by (rule contents_from_start(2) [OF ok(1,2)])
      ultimately show ?thesis using s(2,4) q(1,3) unfolding answered_def by (auto simp: Let_def)
    next
      case (Inl ps)
      obtain pos' split' where ps: "ps = (pos', split')" by (cases ps)
      from sc Inl ps have sc': "scanned_to (buf t) (unat (tail t)) pos' split'" "pos \<le> pos'" by auto
      then have a': "awaiting fd tr t pos' split' e" using a by (auto simp: awaiting_def scanned_to_def)
      obtain r1 t1 e1 where r: "read_to_taskbuf os fd t e = (r1, t1, e1)"
        by (cases "read_to_taskbuf os fd t e") auto
      from awaiting_get [OF os a' r] have a1: "awaiting fd tr t1 pos' split' e1" .
      have "(if r1 = TBUF_ERROR \<or> r1 = TBUF_END then Some (Died, t1, e1) else f os t1 pos' split' e1) = Some re"
        using eq Inl ps r ok(3) by simp
      then consider "re = (Died, t1, e1)" | "f os t1 pos' split' e1 = Some re" by (metis option.inject)
      then show ?thesis
      proof cases
        case 2
        from IH [OF 2] os a1 have "answered fd tr pos' re" by blast
        then show ?thesis by (rule answered_later [OF _ sc'(2)])
      qed (simp add: answered_def)
    qed
  qed
  with assms(2,3) show ?thesis by blast
qed

lemma awaiting_start: "awaiting (peer_fd t) (trace e) (t\<lparr>head := 0, tail := 0\<rparr>) 0 None e"
  by (simp add: awaiting_def ring_ok_def fill_def scanned_to_def contents_def)

text \<open>
  An answer that \<open>read_tracker_response\<close> accepts is all that was received, ends in a newline and
  holds a line of the form \<open>### \<close>; the position returned is that of its first line with a
  three-digit code, and the null byte is stored behind it, at most one byte past the buffer.
\<close>
theorem tracker_response_accepted:
  assumes "os_ok os" "read_tracker_response os t e = Some (Done s, t', e')"
  shows "\<exists>n ev q. n \<le> TASKBUFSIZ \<and> trace e' = trace e @ ev \<and> received (peer_fd t) ev = mem_read (buf t') 0 n
    \<and> buf t' n = 0 \<and> buf t' (n - 1) = 0x0A \<and> code_line (buf t') s \<and> (\<forall>p < s. \<not> code_line (buf t') p)
    \<and> terminator_line (buf t') q \<and> q + 4 < n"
proof -
  from assms(2) have "await_response os (t\<lparr>head := 0, tail := 0\<rparr>) 0 None e = Some (Done s, t', e')"
    by (simp add: read_tracker_response_def)
  from await_response_answers [OF this assms(1) awaiting_start] show ?thesis
    unfolding answered_def by (simp add: Let_def) blast
qed

text \<open>A world that is the chunks in which an answer arrives.\<close>

definition chunk_os :: "u8 list list os" where
  "chunk_os =
     \<lparr>os_alloc = (\<lambda>_. True),
      os_read = (\<lambda>fd n w. case w of [] \<Rightarrow> (Inr [], []) | c # cs \<Rightarrow> (Inr (take n c), if length c \<le> n then cs else drop n c # cs)),
      os_write = (\<lambda>fd bs w. (Inr (length bs), w)), os_close = (\<lambda>fd w. w), os_open = (\<lambda>p c w. (Inr 4, w)),
      os_unlink = (\<lambda>p w. w), os_realpath = (\<lambda>p w. (Some p, w)), os_getcwd = (\<lambda>w. (Some [], w)),
      os_rewind = (\<lambda>fd w. w), os_socket = (\<lambda>w. (Inr 3, w)),
      os_cloexec = (\<lambda>fd w. (None, w)), os_reuseaddr = (\<lambda>fd w. (None, w)), os_bind = (\<lambda>fd p w. (None, w)),
      os_listen = (\<lambda>fd n w. (None, w)), os_connect = (\<lambda>fd a p w. (None, w)), os_accept = (\<lambda>fd w. (Inr 3, w)),
      os_getsockname = (\<lambda>fd w. (None, w)), os_files = (\<lambda>w. (Some [], w)), os_junk = (\<lambda>_. 0), os_behind = (\<lambda>_. 0),
      os_stack = []\<rparr>"

lemma chunk_os_ok: "os_ok chunk_os"
  by (auto simp: os_ok_def chunk_os_def split: list.splits if_splits)

definition tracker_task :: task where
  "tracker_task = demo_task\<lparr>task_type := TASK_TRACKER\<rparr>"

definition chunk_env :: "u8 list list \<Rightarrow> u8 list list env" where
  "chunk_env w = \<lparr>world = w, trace = [], listen_addr = 0, listen_port = 0\<rparr>"

lemma first_chunk:
  assumes "world e = c # cs" "c \<noteq> []" "length c \<le> TASKBUFSIZ"
  shows "read_to_taskbuf chunk_os 3 tracker_task e =
    (TBUF_OK, tracker_task\<lparr>buf := mem_write (\<lambda>_. 0) 0 c, tail := of_nat (length c)\<rparr>, logged (Read_from 3 c) cs e)"
  using assms by (simp add: read_to_taskbuf_def sys_read_def chunk_os_def chunk_env_def tracker_task_def demo_task_def
    read_room_def ring_pos_def logged_def)

lemma whole_answer:
  "\<exists>t' e'. read_tracker_response chunk_os tracker_task (chunk_env [[0x32, 0x30, 0x30, 0x20, 0x4F, 0x4B, 0x0A]]) = Some (Done 0, t', e')"
proof -
  let ?c = "[0x32, 0x30, 0x30, 0x20, 0x4F, 0x4B, 0x0A] :: u8 list"
  have t: "tracker_task\<lparr>head := 0, tail := 0\<rparr> = tracker_task" "peer_fd tracker_task = 3" "unat (tail tracker_task) = 0"
    by (simp_all add: tracker_task_def demo_task_def)
  have "scan_response b 0 0 None = Inl (0, None)" for b by (simp add: scan_response.simps [of b])
  moreover have "scan_response (mem_write (\<lambda>_. 0) 0 ?c) 7 0 None = Inr 0"
    by (simp add: scan_response.simps [of _ 7 0] mem_write_byte is_digit8_def is_space8_def)
  moreover have "length ?c \<le> TASKBUFSIZ" by (simp add: TASKBUFSIZ_def)
  ultimately show ?thesis
    unfolding read_tracker_response_def t
    using first_chunk [of "chunk_env [?c]" ?c "[]"] t(2,3)
    by (subst await_response.simps, simp add: chunk_env_def, subst await_response.simps, simp)
qed

theorem tracker_response_accepted_witness:
  "\<exists>s t' e' n. read_tracker_response chunk_os tracker_task (chunk_env [[0x32, 0x30, 0x30, 0x20, 0x4F, 0x4B, 0x0A]]) = Some (Done s, t', e')
    \<and> n \<le> TASKBUFSIZ \<and> received 3 (trace e') = mem_read (buf t') 0 n \<and> code_line (buf t') s"
proof -
  obtain t' e' where run: "read_tracker_response chunk_os tracker_task (chunk_env [[0x32, 0x30, 0x30, 0x20, 0x4F, 0x4B, 0x0A]])
      = Some (Done 0, t', e')" using whole_answer by blast
  from tracker_response_accepted [OF chunk_os_ok run] run show ?thesis
    by (auto simp: chunk_env_def tracker_task_def demo_task_def)
qed

text \<open>
  When the first part of the tracker's answer to arrive does not end in a newline, the lines it
  holds are never taken for the end of the answer: the client waits for another terminator
  line that starts in the last four bytes of that part or behind it.
\<close>
theorem split_terminator_missed:
  assumes "os_ok os" "read_to_taskbuf os (peer_fd t) (t\<lparr>head := 0, tail := 0\<rparr>) e = (TBUF_OK, t1, e1)"
    and "buf t1 (unat (tail t1) - 1) \<noteq> 0x0A" "read_tracker_response os t e = Some (Done s, t', e')"
  shows "\<exists>q. terminator_line (buf t') q \<and> unat (tail t1) \<le> q + 4 \<and> q + 4 < unat (tail t')"
proof -
  let ?t = "t\<lparr>head := 0, tail := 0\<rparr>"
  have s0: "scan_response (buf ?t) (unat (tail ?t)) 0 None = Inl (0, None)" by (subst scan_response_cases) simp
  have "await_response os ?t 0 None e = Some (Done s, t', e')"
    using assms(4) by (simp add: read_tracker_response_def)
  then have 1: "await_response os t1 0 None e1 = Some (Done s, t', e')"
    using s0 assms(2) by (subst (asm) await_response.simps) simp
  from awaiting_get [OF assms(1) awaiting_start assms(2)] have a1: "awaiting (peer_fd t) (trace e) t1 0 None e1" .
  then have st: "scanned_to (buf t1) (unat (tail t1)) 0 None" and fd: "peer_fd t1 = peer_fd t" by (simp_all add: awaiting_def)
  note sc = scan_response_result [OF st refl, unfolded scan_ok_def]
  show ?thesis
  proof (cases "scan_response (buf t1) (unat (tail t1)) 0 None")
    case (Inr x)
    with sc assms(3) show ?thesis by simp
  next
    case (Inl ps)
    obtain pos split where ps: "ps = (pos, split)" by (cases ps)
    from sc Inl ps have p: "scanned_to (buf t1) (unat (tail t1)) pos split" "unat (tail t1) \<le> pos + 4" by auto
    with a1 have a2: "awaiting (peer_fd t) (trace e) t1 pos split e1" by (auto simp: awaiting_def scanned_to_def)
    obtain r2 t2 e2 where r: "read_to_taskbuf os (peer_fd t1) t1 e1 = (r2, t2, e2)"
      by (cases "read_to_taskbuf os (peer_fd t1) t1 e1") auto
    have "await_response os t2 pos split e2 = Some (Done s, t', e')"
      using 1 Inl ps r by (subst (asm) await_response.simps) (simp split: if_splits)
    moreover have "awaiting (peer_fd t) (trace e) t2 pos split e2"
      by (rule awaiting_get [OF assms(1) a2]) (use r fd in simp)
    ultimately have "answered (peer_fd t) (trace e) pos (Done s, t', e')"
      using await_response_answers assms(1) by blast
    then obtain q where "q \<ge> pos" "terminator_line (buf t') q" "q + 4 < unat (tail t')"
      by (auto simp: answered_def Let_def)
    with p(2) show ?thesis by (intro exI [of _ q]) linarith
  qed
qed

text \<open>"200 a" and, later, a newline and "200 b" with its newline.\<close>

lemma split_answer:
  "\<exists>t' e'. read_tracker_response chunk_os tracker_task
     (chunk_env [[0x32, 0x30, 0x30, 0x20, 0x61], [0x0A, 0x32, 0x30, 0x30, 0x20, 0x62, 0x0A]]) = Some (Done 0, t', e')"
proof -
  let ?c = "[0x32, 0x30, 0x30, 0x20, 0x61] :: u8 list" and ?d = "[0x0A, 0x32, 0x30, 0x30, 0x20, 0x62, 0x0A] :: u8 list"
  have t: "tracker_task\<lparr>head := 0, tail := 0\<rparr> = tracker_task" "peer_fd tracker_task = 3" "unat (tail tracker_task) = 0"
    by (simp_all add: tracker_task_def demo_task_def)
  define t1 where "t1 = tracker_task\<lparr>buf := mem_write (\<lambda>_. 0) 0 ?c, tail := 5\<rparr>"
  define t2 where "t2 = t1\<lparr>buf := mem_write (buf t1) 5 ?d, tail := 12\<rparr>"
  have 0: "scan_response b 0 0 None = Inl (0, None)" for b by (subst scan_response_cases) simp
  have 1: "scan_response (buf t1) 5 0 None = Inl (2, Some 0)"
    by (simp add: scan_response.simps [of _ 5] t1_def mem_write_byte is_digit8_def is_space8_def)
  have 2: "scan_response (buf t2) 12 2 (Some 0) = Inr 0"
    by (simp add: scan_response.simps [of _ 12] t1_def t2_def mem_write_byte is_digit8_def is_space8_def)
  obtain e1 where r1: "read_to_taskbuf chunk_os 3 tracker_task (chunk_env [?c, ?d]) = (TBUF_OK, t1, e1)" "world e1 = [?d]"
    using first_chunk [of "chunk_env [?c, ?d]" ?c "[?d]"] by (simp add: t1_def TASKBUFSIZ_def chunk_env_def logged_def)
  obtain e2 where r2: "read_to_taskbuf chunk_os 3 t1 e1 = (TBUF_OK, t2, e2)"
    using r1(2) by (simp add: read_to_taskbuf_def sys_read_def chunk_os_def read_room_def ring_pos_def TASKBUFSIZ_def
        t1_def t2_def tracker_task_def demo_task_def)
  have fd: "peer_fd t1 = 3" "unat (tail t1) = 5" "unat (tail t2) = 12" by (simp_all add: t1_def t2_def tracker_task_def demo_task_def)
  have "await_response chunk_os tracker_task 0 None (chunk_env [?c, ?d]) = await_response chunk_os t1 0 None e1"
    using 0 r1 t by (subst await_response.simps) simp
  also have "\<dots> = await_response chunk_os t2 2 (Some 0) e2"
    using 1 r2 fd by (subst await_response.simps) simp
  also have "\<dots> = Some (Done 0, t2\<lparr>buf := (buf t2)(12 := 0)\<rparr>, e2)"
    using 2 fd by (subst await_response.simps) simp
  finally show ?thesis unfolding read_tracker_response_def t by blast
qed

theorem split_terminator_missed_witness:
  "\<exists>s t' e' q. read_tracker_response chunk_os tracker_task
      (chunk_env [[0x32, 0x30, 0x30, 0x20, 0x61], [0x0A, 0x32, 0x30, 0x30, 0x20, 0x62, 0x0A]]) = Some (Done s, t', e')
    \<and> terminator_line (buf t') q \<and> 5 \<le> q + 4"
proof -
  let ?c = "[0x32, 0x30, 0x30, 0x20, 0x61] :: u8 list"
  obtain t' e' where run: "read_tracker_response chunk_os tracker_task
      (chunk_env [?c, [0x0A, 0x32, 0x30, 0x30, 0x20, 0x62, 0x0A]]) = Some (Done 0, t', e')"
    using split_answer by blast
  have t: "tracker_task\<lparr>head := 0, tail := 0\<rparr> = tracker_task" "peer_fd tracker_task = 3"
    by (simp_all add: tracker_task_def demo_task_def)
  have len: "length ?c \<le> TASKBUFSIZ" by (simp add: TASKBUFSIZ_def)
  have "world (chunk_env [?c, [0x0A, 0x32, 0x30, 0x30, 0x20, 0x62, 0x0A]]) = [?c, [0x0A, 0x32, 0x30, 0x30, 0x20, 0x62, 0x0A]]"
    by (simp add: chunk_env_def)
  from split_terminator_missed [where t = tracker_task, OF chunk_os_ok _ _ run, unfolded t, OF first_chunk [OF this _ len]] run
  show ?thesis by (auto simp: mem_write_byte)
qed

section \<open>Starting a download\<close>

lemma digits_no_newline: "0x0A \<notin> set (decimal n)"
  using decimal_digits [of n] by (auto simp: is_digit8_def)

lemma signed_no_newline: "0x0A \<notin> set (signed_decimal i)"
  using digits_no_newline by (simp add: signed_decimal_def)

lemma quad_no_newline: "0x0A \<notin> set (dotted_quad a)"
  using digits_no_newline by (simp add: dotted_quad_def)

lemma quote_no_newline: "0x0A \<notin> set (quote_bytes s)"
proof (induction s)
  case (Cons c s)
  have h: "hex_digits ! k \<noteq> 0x0A" if "k < 16" for k
    using hex_digits_props(1) [OF that] by (auto simp: is_xdigit8_def is_digit8_def)
  have "unat (c div 16) < 16" using unsigned_less [of c, where ?'a = nat] by (simp add: unat_div)
  moreover have "c AND 15 \<le> 15" by (rule word_and_le1)
  then have "unat (c AND 15) < 16" by (simp add: word_le_nat_alt)
  moreover have "quote_safe c \<Longrightarrow> c \<noteq> 0x0A" using quote_safe_props [of c] by (auto simp: is_space8_def)
  ultimately show ?case using Cons.IH h by auto
qed simp

lemma peer_line_no_newline: "0x0A \<notin> set (peer_line p)"
  using quote_no_newline quad_no_newline signed_no_newline by (simp add: peer_line_def bytes_of_def)

lemma find_upt:
  assumes "s \<le> j" "j < m" "P j" "\<And>i. s \<le> i \<Longrightarrow> i < j \<Longrightarrow> \<not> P i"
  shows "List.find P [s..<m] = Some j"
  using assms by (auto simp: find_Some_iff intro!: exI [of _ "j - s"])

definition good_peer :: "peer \<Rightarrow> bool" where
  "good_peer p \<longleftrightarrow> peer_alias p \<noteq> [] \<and> 0 < peer_port p \<and> peer_port p \<le> 65535"

lemma reads_shift: "reads b s bs \<Longrightarrow> reads (\<lambda>i. b (s + i)) 0 bs"
  by (simp add: reads_def)

lemma parse_peers_lines:
  assumes "\<forall>p\<in>set ps. good_peer p" "reads b s (concat (map (\<lambda>p. peer_line p @ [0x0A]) ps))"
    and "m = s + length (concat (map (\<lambda>p. peer_line p @ [0x0A]) ps))" "os_alloc os peer_size"
  shows "parse_peers os b m s acc = Some (Done (rev ps @ acc))"
  using assms(1-3)
proof (induction ps arbitrary: s acc)
  case Nil
  then show ?case by (subst parse_peers.simps) simp
next
  case (Cons p ps)
  let ?l = "length (peer_line p)"
  have r: "reads b s (peer_line p)" "b (s + ?l) = 0x0A" "reads b (s + ?l + 1) (concat (map (\<lambda>p. peer_line p @ [0x0A]) ps))"
    using Cons.prems(2) by simp_all
  have no: "b (s + i) \<noteq> 0x0A" if "i < ?l" for i
    using r(1) that peer_line_no_newline [of p] by (metis nth_mem reads_def)
  have find: "List.find (\<lambda>i. b i = 0x0A) [s..<m] = Some (s + ?l)"
  proof (rule find_upt)
    fix i assume "s \<le> i" "i < s + ?l"
    then show "b i \<noteq> 0x0A" using no [of "i - s"] by simp
  qed (use r(2) Cons.prems(3) in auto)
  have "parse_peer True (\<lambda>i. b (s + i)) ?l = Some (Some p)"
    using peer_line_scan [OF _ _ _ reads_shift [OF r(1)]] Cons.prems(1) by (auto simp: parse_peer_def good_peer_def)
  then have "parse_peers os b m s acc = parse_peers os b m (s + ?l + 1) (p # acc)"
    by (subst parse_peers.simps) (simp add: find assms(4))
  also have "\<dots> = Some (Done (rev ps @ p # acc))"
    by (rule Cons.IH) (use Cons.prems r in auto)
  finally show ?case by simp
qed

text \<open>
  C39 When the tracker accepts a request and its data portion lists well-formed peers, the download
  task has exactly these peers, the last listed first, and its file name is the first 255 bytes
  of the requested one.
\<close>
theorem start_download_peers:
  assumes "task_type tr = TASK_TRACKER" "\<And>n. os_alloc os n" "0 \<notin> set filename"
    and "osp2p_writef os (peer_fd tr) want_format [WStr filename] e = Some (w, e1)"
    and "read_tracker_response os tr e1 = Some (Done m, tr', e')" "buf tr' m = 0x32"
    and "m = length (concat (map (\<lambda>p. peer_line p @ [0x0A]) ps))" "\<forall>p\<in>set ps. good_peer p"
    and "reads (buf tr') 0 (concat (map (\<lambda>p. peer_line p @ [0x0A]) ps))"
  shows "\<exists>t. start_download os tr filename e = Some (Done (Some t), tr', e') \<and> peer_list t = rev ps
    \<and> c_string (names t) 0 = Some (take 255 filename) \<and> task_type t = TASK_DOWNLOAD \<and> head t = tail t"
proof -
  obtain t where t: "task_new os TASK_DOWNLOAD = Some t" using assms(2) by (simp add: task_new_def)
  then have t': "task_type t = TASK_DOWNLOAD" "head t = tail t" "names t 0 = 0"
    by (auto simp: task_new_def strncpy_def assms(2) FILENAMESIZ_def)
  then have len: "strlen (names t) 0 = Some 0" by (simp add: strlen_eq_Some_iff)
  have pp: "parse_peers os (buf tr') m 0 [] = Some (Done (rev ps))"
    using parse_peers_lines [OF assms(8,9), of m os "[]"] assms(2,7) by simp
  define names' where "names' = (strncpy (names t) 0 filename (FILENAMESIZ - 1))(FILENAMESIZ := 0)"
  have t255: "names t 255 = 0" using t by (auto simp: task_new_def strncpy_def assms(2) FILENAMESIZ_def)
  have byte: "names' i = (if i < length filename \<and> i < 255 then filename ! i else 0)" if "i \<le> 255" for i
    using that t255 by (cases "i = 255") (auto simp: names'_def strncpy_def FILENAMESIZ_def)
  have "strlen names' 0 = Some (length (take 255 filename))"
    using assms(3) by (auto simp: strlen_eq_Some_iff byte) (metis nth_mem)+
  moreover have "mem_read names' 0 (length (take 255 filename)) = take 255 filename"
    by (rule nth_equalityI) (simp_all add: byte)
  ultimately have "c_string names' 0 = Some (take 255 filename)" by (simp add: c_string_def)
  then show ?thesis
    using assms(1,4,5,6) t t' len pp
    by (simp add: start_download_def names'_def Let_def)
qed

text \<open>An answer that lists one peer, which arrives whole.\<close>

definition one_peer :: peer where
  "one_peer = \<lparr>peer_alias = [0x61], peer_addr = 0x01020304, peer_port = 80\<rparr>"

definition one_peer_answer :: "u8 list" where
  "one_peer_answer = peer_line one_peer @ [0x0A] @ [0x32, 0x30, 0x30, 0x20, 0x0A]"

lemma scan_skips:
  assumes "\<And>p. pos \<le> p \<Longrightarrow> p < m \<Longrightarrow> \<not> code_line b p" "code_line b m" "is_space8 (b (m + 3))" "m + 4 < n" "b (n - 1) = 0x0A" "pos \<le> m"
  shows "scan_response b n pos None = Inr m"
  using assms
proof (induction "m - pos" arbitrary: pos)
  case 0
  then show ?case by (subst scan_response_cases) simp
next
  case (Suc k)
  then have "pos < m" "\<not> code_line b pos" by auto
  then have "scan_response b n pos None = scan_response b n (pos + 1) None"
    using Suc.prems(4) by (subst scan_response_cases) simp
  also have "\<dots> = Inr m" by (rule Suc.hyps(1)) (use Suc \<open>pos < m\<close> in auto)
  finally show ?case .
qed

lemma one_peer_lines: "length (peer_line one_peer) \<le> 100" "peer_line one_peer ! 0 = 0x50" "peer_line one_peer \<noteq> []"
proof -
  have "length (quote_bytes [0x61]) = 1" by (simp add: quote_safe_def is_alnum8_def)
  moreover have "length (dotted_quad 0x01020304) \<le> 15" by (rule length_dotted_quad)
  moreover have "length (signed_decimal 80) \<le> 10" using short_port [of 80] by simp
  ultimately show "length (peer_line one_peer) \<le> 100" "peer_line one_peer ! 0 = 0x50" "peer_line one_peer \<noteq> []"
    by (simp_all add: peer_line_def one_peer_def bytes_of_def)
qed

lemma one_peer_scan:
  defines "m \<equiv> length (peer_line one_peer) + 1"
  shows "scan_response (mem_write (\<lambda>_. 0) 0 one_peer_answer) (length one_peer_answer) 0 None = Inr m"
proof (rule scan_skips)
  let ?b = "mem_write (\<lambda>_. 0) 0 one_peer_answer" and ?l = "length (peer_line one_peer)"
  have b: "?b i = peer_line one_peer ! i" if "i < ?l" for i
    using that by (simp add: mem_write_byte one_peer_answer_def nth_append)
  have b': "?b (?l + i) = [0x0A, 0x32, 0x30, 0x30, 0x20, 0x0A] ! i" if "i < 6" for i
    using that by (simp add: mem_write_byte one_peer_answer_def nth_append)
  have n: "length one_peer_answer = ?l + 6" by (simp add: one_peer_answer_def)
  have dg: "is_digit8 0x32" "is_digit8 0x30" "is_space8 0x20" by (simp_all add: is_digit8_def is_space8_def)
  show "code_line ?b m" "is_space8 (?b (m + 3))" "?b (length one_peer_answer - 1) = 0x0A"
    using b' [of 0] b' [of 1] b' [of 2] b' [of 3] b' [of 4] b' [of 5]
    using dg by (simp_all add: m_def code_line_def n eval_nat_numeral)
  show "m + 4 < length one_peer_answer" by (simp add: m_def n)
  show "\<not> code_line ?b p" if "p < m" for p
  proof (cases p)
    case 0
    with b [of 0] one_peer_lines show ?thesis by (simp add: code_line_def is_digit8_def)
  next
    case (Suc q)
    with that have "q < ?l" by (simp add: m_def)
    have "peer_line one_peer ! q \<noteq> 0x0A" using peer_line_no_newline [of one_peer] \<open>q < ?l\<close> by (metis nth_mem)
    with b [OF \<open>q < ?l\<close>] Suc show ?thesis by (simp add: code_line_def)
  qed
qed simp

lemma chunk_writef:
  assumes "writef_message (\<lambda>_. True) fmt args = Some m" "\<not> msg_overrun m"
  shows "\<exists>w e'. osp2p_writef chunk_os fd fmt args e = Some (w, e') \<and> world e' = world e
    \<and> listen_port e' = listen_port e \<and> listen_addr e' = listen_addr e"
proof (cases "msg_bytes m = []")
  case True
  with assms show ?thesis by (simp add: osp2p_writef_def chunk_os_def write_all.simps [of _ _ "[]"])
next
  case False
  have "write_all chunk_os fd (msg_bytes m) e = write_all chunk_os fd [] (logged (Wrote_to fd (msg_bytes m)) (world e) e)"
    using False by (subst write_all.simps) (simp add: sys_write_def chunk_os_def)
  also have "\<dots> = Some (None, logged (Wrote_to fd (msg_bytes m)) (world e) e)" by (subst write_all.simps) simp
  finally have "osp2p_writef chunk_os fd fmt args e = Some (None, logged (Wrote_to fd (msg_bytes m)) (world e) e)"
    using assms by (simp add: osp2p_writef_def chunk_os_def)
  then show ?thesis by (simp add: logged_def)
qed

theorem start_download_peers_witness:
  "\<exists>t tr' e'. start_download chunk_os tracker_task [0x66] (chunk_env [one_peer_answer]) = Some (Done (Some t), tr', e')
    \<and> peer_list t = [one_peer] \<and> c_string (names t) 0 = Some [0x66]"
proof -
  let ?m = "length (peer_line one_peer) + 1" and ?n = "length one_peer_answer"
  have "render want_format [WStr [0x66]] = Some (bytes_of ''WANT '' @ [0x66, 0x0A])"
    by (simp add: want_format_def bytes_of_def quote_safe_def is_alnum8_def)
  then obtain w e1 where w: "osp2p_writef chunk_os (peer_fd tracker_task) want_format [WStr [0x66]] (chunk_env [one_peer_answer]) = Some (w, e1)"
      "world e1 = [one_peer_answer]"
    using writef_renders chunk_writef [of want_format "[WStr [0x66]]" _ "peer_fd tracker_task" "chunk_env [one_peer_answer]"]
    by (fastforce simp: chunk_env_def)
  have t: "tracker_task\<lparr>head := 0, tail := 0\<rparr> = tracker_task" "peer_fd tracker_task = 3" "unat (tail tracker_task) = 0"
    by (simp_all add: tracker_task_def demo_task_def)
  have n: "?n \<le> TASKBUFSIZ" "one_peer_answer \<noteq> []" using one_peer_lines by (simp_all add: one_peer_answer_def TASKBUFSIZ_def)
  define t1 where "t1 = tracker_task\<lparr>buf := mem_write (\<lambda>_. 0) 0 one_peer_answer, tail := of_nat ?n\<rparr>"
  note r = first_chunk [OF w(2) n(2,1)]
  have ut: "unat (tail t1) = ?n" using n(1) by (simp add: t1_def unat_of_nat TASKBUFSIZ_def)
  have "scan_response (buf tracker_task) 0 0 None = Inl (0, None)" by (subst scan_response_cases) simp
  then have "await_response chunk_os tracker_task 0 None e1 = await_response chunk_os t1 0 None (logged (Read_from 3 one_peer_answer) [] e1)"
    using r t by (subst await_response.simps) (simp add: t1_def)
  also have "\<dots> = Some (Done ?m, t1\<lparr>buf := (buf t1)(?n := 0)\<rparr>, logged (Read_from 3 one_peer_answer) [] e1)"
    using one_peer_scan ut by (subst await_response.simps) (simp add: t1_def)
  finally have run: "read_tracker_response chunk_os tracker_task e1
      = Some (Done ?m, t1\<lparr>buf := (buf t1)(?n := 0)\<rparr>, logged (Read_from 3 one_peer_answer) [] e1)"
    unfolding read_tracker_response_def t .
  have b: "buf (t1\<lparr>buf := (buf t1)(?n := 0)\<rparr>) ?m = 0x32"
    by (simp add: t1_def one_peer_answer_def mem_write_byte nth_append)
  have rd: "reads (buf (t1\<lparr>buf := (buf t1)(?n := 0)\<rparr>)) 0 (concat (map (\<lambda>p. peer_line p @ [0x0A]) [one_peer]))"
    by (auto simp: reads_def t1_def one_peer_answer_def mem_write_byte nth_append)
  have g: "\<forall>p\<in>set [one_peer]. good_peer p" by (simp add: good_peer_def one_peer_def)
  from start_download_peers [OF _ _ _ w(1) run b _ g rd] show ?thesis
    by (auto simp: tracker_task_def chunk_os_def)
qed

end
