(* ===== verification/Peer_Main.thy ===== *)
theory Peer_Main
  imports Peer_Response
begin

text \<open>
  The main program of osppeer.c: the options, the children that download and upload, and the loop
  over connections.  Properties: the option \<open>-t\<close>, and how many children there can be.
\<close>

section \<open>Options\<close>

text \<open>
  The variables the options set: address and port of the tracker and \<open>evil_mode\<close>.  What \<open>main\<close>
  asks of the system besides the calls of \<open>os\<close>: \<open>chdir\<close>, \<open>fork\<close> (whether it succeeds) and \<open>wait\<close>.
\<close>

record settings =
  tracker_addr :: u32
  tracker_port :: int
  evil_mode :: int

record 'w main_os =
  os_chdir :: "u8 list \<Rightarrow> 'w \<Rightarrow> bool \<times> 'w"
  os_fork :: "'w \<Rightarrow> bool \<times> 'w"
  os_wait :: "'w \<Rightarrow> 'w"

text \<open>The default tracker, 164.67.100.231:12997.\<close>

definition default_settings :: settings where
  "default_settings = \<lparr>tracker_addr = 0xA44364E7, tracker_port = 12997, evil_mode = 0\<rparr>"

definition sscanf :: "u8 list \<Rightarrow> u8 list \<Rightarrow> (bool \<times> scanned list) option" where
  "sscanf s fmt = snscanf (\<lambda>i. if i < length s then s ! i else 0) (length s) fmt"

text \<open>What a scan stores when its arguments are the tracker's address and port, even if it fails.\<close>

fun store_tracker :: "scanned \<Rightarrow> settings \<Rightarrow> settings" where
  "store_tracker (SAddr a) st = st\<lparr>tracker_addr := a\<rparr>"
| "store_tracker (SInt i) st = st\<lparr>tracker_port := i\<rparr>"
| "store_tracker _ st = st"

fun store_evil :: "scanned \<Rightarrow> settings \<Rightarrow> settings" where
  "store_evil (SInt i) st = st\<lparr>evil_mode := i\<rparr>"
| "store_evil _ st = st"

text \<open>The chain of scans connected by \<open>||\<close>.\<close>

fun try_formats :: "(scanned \<Rightarrow> settings \<Rightarrow> settings) \<Rightarrow> u8 list \<Rightarrow> u8 list list \<Rightarrow> settings \<Rightarrow> (bool \<times> settings) option" where
  "try_formats st_arg s [] st = Some (False, st)"
| "try_formats st_arg s (fmt # fmts) st =
     Option.bind (sscanf s fmt)
       (\<lambda>(ok, out). let st = fold st_arg out st in if ok then Some (True, st) else try_formats st_arg s fmts st)"

definition tracker_formats :: "string \<Rightarrow> u8 list list" where
  "tracker_formats p = [bytes_of (p @ ''%I:%d''), bytes_of (p @ ''%d''), bytes_of (p @ ''%I'')]"

definition port_ok :: "settings \<Rightarrow> bool" where
  "port_ok st \<longleftrightarrow> 0 < tracker_port st \<and> tracker_port st \<le> 65535"

text \<open>
  The loop over the arguments: \<open>Files\<close> are the arguments left, \<open>Help\<close> is \<open>exit(0)\<close> behind the usage
  message, \<open>Bad_dir\<close> is \<open>die\<close>.
\<close>

datatype arguments = Files settings "u8 list list" | Help | Bad_dir

fun change_dir :: "'w main_os \<Rightarrow> u8 list \<Rightarrow> 'w env \<Rightarrow> bool \<times> 'w env" where
  "change_dir mos d e = (case os_chdir mos d (world e) of (ok, w) \<Rightarrow> (ok, e\<lparr>world := w\<rparr>))"

fun argprocess :: "'w main_os \<Rightarrow> u8 list list \<Rightarrow> settings \<Rightarrow> 'w env \<Rightarrow> (arguments \<times> 'w env) option" where
  "argprocess mos [] st e = Some (Files st [], e)"
| "argprocess mos [a] st e =
     Option.bind (if take 2 a = bytes_of ''-t'' then try_formats store_tracker a (tracker_formats ''-t'') st else Some (False, st))
       (\<lambda>(ok, st).
         if ok \<and> port_ok st then Some (Files st [], e)
         else if take 2 a = bytes_of ''-d'' then
           (case change_dir mos (drop 2 a) e of (ok, e) \<Rightarrow> Some (if ok then Files st [] else Bad_dir, e))
         else Option.bind (if take 2 a = bytes_of ''-b'' then try_formats store_evil a [bytes_of ''-b%d''] st else Some (False, st))
           (\<lambda>(ok, st).
             if ok then Some (Files st [], e)
             else if a = bytes_of ''-b'' then Some (Files (st\<lparr>evil_mode := 1\<rparr>) [], e)
             else if a = bytes_of ''--help'' \<or> a = bytes_of ''-h'' then Some (Help, e)
             else Some (Files st [a], e)))"
| "argprocess mos (a # b # args) st e =
     Option.bind (if a = bytes_of ''-t'' then try_formats store_tracker b (tracker_formats '''') st else Some (False, st))
       (\<lambda>(ok, st).
         if ok \<and> port_ok st then argprocess mos args st e
         else Option.bind (if take 2 a = bytes_of ''-t'' then try_formats store_tracker a (tracker_formats ''-t'') st else Some (False, st))
       (\<lambda>(ok, st).
         if ok \<and> port_ok st then argprocess mos (b # args) st e
         else if a = bytes_of ''-d'' then
           (case change_dir mos b e of (ok, e) \<Rightarrow> if ok then argprocess mos args st e else Some (Bad_dir, e))
         else if take 2 a = bytes_of ''-d'' then
           (case change_dir mos (drop 2 a) e of (ok, e) \<Rightarrow> if ok then argprocess mos (b # args) st e else Some (Bad_dir, e))
         else Option.bind (if a = bytes_of ''-b'' then try_formats store_evil b [bytes_of ''%d''] st else Some (False, st))
       (\<lambda>(ok, st).
         if ok then argprocess mos args st e
         else Option.bind (if take 2 a = bytes_of ''-b'' then try_formats store_evil a [bytes_of ''-b%d''] st else Some (False, st))
       (\<lambda>(ok, st).
         if ok then argprocess mos (b # args) st e
         else if a = bytes_of ''-b'' then argprocess mos (b # args) (st\<lparr>evil_mode := 1\<rparr>) e
         else if a = bytes_of ''--help'' \<or> a = bytes_of ''-h'' then Some (Help, e)
         else Some (Files st (a # b # args), e)))))"

section \<open>The main program\<close>

text \<open>
  A child begins as a copy of the process: with the tasks it works on and the state it was forked
  in.  The parent goes on with its own copy.  \<open>living\<close> counts the children that have not been
  waited for.
\<close>

datatype work = Downloads task task | Uploads task

record 'w server =
  children :: "(work \<times> 'w env) list"
  living :: nat
  num_req :: int
  here :: "'w env"

fun run_work :: "int \<Rightarrow> 'w os \<Rightarrow> work \<times> 'w env \<Rightarrow> (upload_end \<times> 'w env) option" where
  "run_work evil os (Downloads t tr, e) = map_option (\<lambda>(r, tr, e). (Returned r, e)) (task_download evil os (Some t) tr e)"
| "run_work evil os (Uploads t, e) = task_upload evil os t e"

text \<open>\<open>fork\<close>, the work in the child, and \<open>task_free\<close> in the parent.\<close>

definition fork_off :: "'w main_os \<Rightarrow> 'w os \<Rightarrow> work \<Rightarrow> task \<Rightarrow> 'w server \<Rightarrow> 'w server" where
  "fork_off mos os wk t s =
     (case os_fork mos (world (here s)) of
        (ok, w) \<Rightarrow>
          let s = s\<lparr>here := (here s)\<lparr>world := w\<rparr>\<rparr>;
              s = (if ok then s\<lparr>children := children s @ [(wk, here s)], living := living s + 1\<rparr> else s)
          in s\<lparr>here := task_free os t (here s)\<rparr>)"

fun start_downloads :: "'w main_os \<Rightarrow> 'w os \<Rightarrow> task \<Rightarrow> u8 list list \<Rightarrow> 'w server \<Rightarrow> (unit exec \<times> 'w server) option" where
  "start_downloads mos os tr [] s = Some (Done (), s)"
| "start_downloads mos os tr (f # fs) s =
     Option.bind (start_download os tr f (here s))
       (\<lambda>(r, tr, e).
          case r of
            Died \<Rightarrow> Some (Died, s\<lparr>here := e\<rparr>)
          | Done None \<Rightarrow> start_downloads mos os tr fs (s\<lparr>here := e\<rparr>)
          | Done (Some t) \<Rightarrow> start_downloads mos os tr fs (fork_off mos os (Downloads t tr) t (s\<lparr>here := e\<rparr>)))"

text \<open>
  One round of the loop over the connections: a connection is accepted and a child forked for it
  (\<open>Done False\<close> leaves the loop), then the parent waits for a child when it counts too many.
\<close>

definition accept_connection :: "'w main_os \<Rightarrow> 'w os \<Rightarrow> task \<Rightarrow> 'w server \<Rightarrow> bool exec \<times> 'w server" where
  "accept_connection mos os l s =
     (case task_listen os l (here s) of
        (Died, e) \<Rightarrow> (Died, s\<lparr>here := e\<rparr>)
      | (Done None, e) \<Rightarrow> (Done False, s\<lparr>here := e\<rparr>)
      | (Done (Some t), e) \<Rightarrow> (Done True, fork_off mos os (Uploads t) t (s\<lparr>here := e, num_req := num_req s + 1\<rparr>)))"

definition wait_child :: "'w main_os \<Rightarrow> 'w server \<Rightarrow> 'w server" where
  "wait_child mos s =
     (if num_req s > 100
      then s\<lparr>here := (here s)\<lparr>world := os_wait mos (world (here s))\<rparr>, living := living s - 1, num_req := num_req s - 1\<rparr>
      else s)"

definition serve_connection :: "'w main_os \<Rightarrow> 'w os \<Rightarrow> task \<Rightarrow> 'w server \<Rightarrow> bool exec \<times> 'w server" where
  "serve_connection mos os l s =
     (case accept_connection mos os l s of
        (Done True, s) \<Rightarrow> (Done True, wait_child mos s)
      | r \<Rightarrow> r)"

text \<open>
  The state after at most \<open>n\<close> rounds, with what has become of the process: \<open>Done True\<close> when it
  still serves, \<open>Done False\<close> when \<open>main\<close> has returned 0.
\<close>

primrec serve :: "nat \<Rightarrow> 'w main_os \<Rightarrow> 'w os \<Rightarrow> task \<Rightarrow> 'w server \<Rightarrow> bool exec \<times> 'w server" where
  "serve 0 mos os l s = (Done True, s)"
| "serve (Suc n) mos os l s =
     (case serve_connection mos os l s of
        (Done True, s) \<Rightarrow> serve n mos os l s
      | r \<Rightarrow> r)"

definition run_peer :: "nat \<Rightarrow> 'w main_os \<Rightarrow> 'w os \<Rightarrow> settings \<Rightarrow> u8 list \<Rightarrow> u8 list list \<Rightarrow> 'w env
    \<Rightarrow> (bool exec \<times> 'w server) option" where
  "run_peer n mos os st myalias files e =
     (let s0 = (\<lambda>e. \<lparr>children = [], living = 0, num_req = 1, here = e\<rparr>)
      in Option.bind (start_tracker os (tracker_addr st) (tracker_port st) e)
       (\<lambda>(r, e). case r of
          Died \<Rightarrow> Some (Died, s0 e)
        | Done tr \<Rightarrow>
            (case start_listen os e of
               (Died, e) \<Rightarrow> Some (Died, s0 e)
             | (Done l, e) \<Rightarrow>
                 Option.bind (register_files os tr myalias e)
                   (\<lambda>(r, tr, e). case r of
                      Died \<Rightarrow> Some (Died, s0 e)
                    | Done _ \<Rightarrow>
                        map_option (\<lambda>(r, s). case r of Died \<Rightarrow> (Died, s) | Done _ \<Rightarrow> serve n mos os l s)
                          (start_downloads mos os tr files (s0 e))))))"

text \<open>The whole program: \<open>myalias\<close> is made of the user's name and the time.\<close>

definition peer_main :: "nat \<Rightarrow> 'w main_os \<Rightarrow> 'w os \<Rightarrow> u8 list \<Rightarrow> u8 list list \<Rightarrow> 'w env \<Rightarrow> (bool exec \<times> 'w server) option" where
  "peer_main n mos os myalias args e =
     Option.bind (argprocess mos args default_settings e)
       (\<lambda>(r, e). let s0 = \<lparr>children = [], living = 0, num_req = 1, here = e\<rparr> in
          case r of
            Files st files \<Rightarrow> run_peer n mos os st myalias files e
          | Help \<Rightarrow> Some (Done False, s0)
          | Bad_dir \<Rightarrow> Some (Died, s0))"

section \<open>The number of children\<close>

lemma fork_off_living:
  "living (fork_off mos os wk t s) \<le> living s + 1" "num_req (fork_off mos os wk t s) = num_req s"
  by (simp_all add: fork_off_def Let_def split: prod.split)

lemma start_downloads_living:
  "start_downloads mos os tr fs s = Some (r, s') \<Longrightarrow> living s' \<le> living s + length fs \<and> num_req s' = num_req s"
proof (induction mos os tr fs s arbitrary: r s' rule: start_downloads.induct)
  case (2 mos os tr f fs s)
  from 2(3) obtain x tr' e where d: "start_download os tr f (here s) = Some (x, tr', e)"
    by (auto simp: bind_eq_Some_conv)
  show ?case
  proof (cases x)
    case Died
    with 2(3) d show ?thesis by auto
  next
    case (Done y)
    show ?thesis
    proof (cases y)
      case None
      with 2(1) [OF d refl refl Done None] 2(3) d Done show ?thesis by force
    next
      case (Some t)
      let ?s = "fork_off mos os (Downloads t tr') t (s\<lparr>here := e\<rparr>)"
      have "living s' \<le> living ?s + length fs \<and> num_req s' = num_req ?s"
        using 2(2) [OF d refl refl Done Some] 2(3) d Done Some by simp
      with fork_off_living [of mos os "Downloads t tr'" t "s\<lparr>here := e\<rparr>"] show ?thesis by auto
    qed
  qed
qed auto

text \<open>\<open>d\<close> bounds the children started for the downloads.\<close>

definition bounded :: "nat \<Rightarrow> 'w server \<Rightarrow> bool" where
  "bounded d s \<longleftrightarrow> 1 \<le> num_req s \<and> num_req s \<le> 100 \<and> int (living s) \<le> num_req s - 1 + int d"

lemma accept_connection_bounded:
  assumes "bounded d s" "accept_connection mos os l s = (r, q)"
  shows "int (living q) \<le> num_req q - 1 + int d" "1 \<le> num_req q" "num_req q \<le> (if r = Done True then 101 else 100)"
proof -
  obtain x e where l: "task_listen os l (here s) = (x, e)" by (cases "task_listen os l (here s)")
  have f: "living (fork_off mos os wk t (s\<lparr>here := e, num_req := k\<rparr>)) \<le> living s + 1"
    "num_req (fork_off mos os wk t (s\<lparr>here := e, num_req := k\<rparr>)) = k" for wk t k
    using fork_off_living [of mos os wk t "s\<lparr>here := e, num_req := k\<rparr>"] by simp_all
  have "int (living q) \<le> num_req q - 1 + int d \<and> 1 \<le> num_req q \<and> num_req q \<le> (if r = Done True then 101 else 100)"
  proof (cases "\<exists>t. x = Done (Some t)")
    case True
    then obtain t where x: "x = Done (Some t)" by blast
    have q: "r = Done True" "q = fork_off mos os (Uploads t) t (s\<lparr>here := e, num_req := num_req s + 1\<rparr>)"
      using assms(2) by (simp_all add: accept_connection_def l x)
    show ?thesis using f [of "Uploads t" t "num_req s + 1"] assms(1) unfolding q by (simp add: bounded_def)
  qed (use assms l in \<open>auto simp: accept_connection_def bounded_def split: exec.splits option.splits\<close>)
  then show "int (living q) \<le> num_req q - 1 + int d" "1 \<le> num_req q" "num_req q \<le> (if r = Done True then 101 else 100)"
    by simp_all
qed

lemma serve_connection_bounded:
  assumes "bounded d s" "serve_connection mos os l s = (r, s')" shows "bounded d s'"
proof -
  obtain x q where a: "accept_connection mos os l s = (x, q)" by (cases "accept_connection mos os l s")
  note b = accept_connection_bounded [OF assms(1) a]
  show ?thesis
  proof (cases "x = Done True")
    case True
    then show ?thesis using assms(2) a b by (auto simp: serve_connection_def wait_child_def bounded_def)
  next
    case False
    then have "s' = q" using assms(2) a by (auto simp: serve_connection_def split: exec.splits bool.splits)
    then show ?thesis using b False by (simp add: bounded_def)
  qed
qed

lemma serve_bounded: "bounded d s \<Longrightarrow> serve n mos os l s = (r, s') \<Longrightarrow> bounded d s'"
proof (induction n arbitrary: s)
  case (Suc n)
  obtain x q where c: "serve_connection mos os l s = (x, q)" by (cases "serve_connection mos os l s")
  from serve_connection_bounded [OF Suc.prems(1) c] Suc.IH [of q] Suc.prems(2) c show ?case
    by (auto split: exec.splits bool.splits)
qed simp

lemma run_peer_bounded:
  assumes "run_peer n mos os st al files e = Some (r, s)" shows "bounded (length files) s"
proof -
  let ?s0 = "\<lambda>e. \<lparr>children = [], living = 0, num_req = 1, here = e\<rparr>"
  have z: "bounded k (?s0 e')" for k e' by (simp add: bounded_def)
  have d: "bounded (length files) q" if "start_downloads mos os tr files (?s0 e') = Some (x, q)" for tr e' x q
    using start_downloads_living [OF that] by (simp add: bounded_def)
  from assms obtain x e1 where t: "start_tracker os (tracker_addr st) (tracker_port st) e = Some (x, e1)"
    by (auto simp: run_peer_def bind_eq_Some_conv)
  show ?thesis
  proof (cases x)
    case Died
    with assms t show ?thesis by (auto simp: run_peer_def z)
  next
    case (Done tr)
    obtain y e2 where l: "start_listen os e1 = (y, e2)" by (cases "start_listen os e1")
    show ?thesis
    proof (cases y)
      case Died
      with assms t l Done show ?thesis by (auto simp: run_peer_def z)
    next
      case l': (Done l)
      from assms t l Done l' obtain v tr' e3 where g: "register_files os tr al e2 = Some (v, tr', e3)"
        by (auto simp: run_peer_def bind_eq_Some_conv)
      show ?thesis
      proof (cases v)
        case Died
        with assms t l Done l' g show ?thesis by (auto simp: run_peer_def z)
      next
        case v: (Done _)
        with assms t l Done l' g obtain w q where q: "start_downloads mos os tr' files (?s0 e3) = Some (w, q)"
          "(r, s) = (case w of Died \<Rightarrow> (Died, q) | Done _ \<Rightarrow> serve n mos os l q)"
          by (auto simp: run_peer_def)
        show ?thesis using q(2) d [OF q(1)] serve_bounded [OF d [OF q(1)], of n mos os l r s] by (cases w) auto
      qed
    qed
  qed
qed

section \<open>The address of the tracker\<close>

abbreviation at :: "u8 list \<Rightarrow> nat \<Rightarrow> u8" where
  "at s \<equiv> \<lambda>i. if i < length s then s ! i else 0"

lemma reads_at: "s = xs @ ys @ zs \<Longrightarrow> k = length xs \<Longrightarrow> reads (at s) k ys"
  by (auto simp: reads_def nth_append)

lemma addr_port_scan:
  assumes "n \<le> 65535" "\<forall>c\<in>set p. c \<noteq> 0x25 \<and> \<not> is_space8 c"
  shows "sscanf (p @ dotted_quad a @ 0x3A # decimal n) (p @ bytes_of ''%I:%d'') = Some (True, [SAddr a, SInt (int n)])"
proof -
  let ?s = "p @ dotted_quad a @ 0x3A # decimal n" and ?A = "length p + length (dotted_quad a)"
  let ?b = "at ?s" and ?e = "length (p @ dotted_quad a @ 0x3A # decimal n)"
  have f: "bytes_of ''%I:%d'' = 0x25 # 0x49 # bytes_of '':'' @ 0x25 # 0x64 # []" by (simp add: bytes_of_def)
  have r: "reads ?b 0 p" by (rule reads_at [where xs = "[]"]) simp_all
  have r2: "reads ?b (length p) (dotted_quad a)" by (rule reads_at [where zs = "0x3A # decimal n"]) simp_all
  have r3: "?b ?A = 0x3A" by (simp add: nth_append)
  have r4: "reads ?b (?A + 1) (decimal n)" by (rule reads_at [where xs = "p @ dotted_quad a @ [0x3A]" and zs = "[]"]) simp_all
  have c: "bytes_of '':'' = [0x3A]" by (simp add: bytes_of_def)
  have "sscanf ?s (p @ bytes_of ''%I:%d'') = vsnscanf ?b ?e (p @ 0x25 # 0x49 # bytes_of '':'' @ 0x25 # 0x64 # []) 0 []"
    by (simp only: sscanf_def snscanf_def f)
  also have "\<dots> = vsnscanf ?b ?e (0x25 # 0x49 # bytes_of '':'' @ 0x25 # 0x64 # []) (length p) []"
    using vsn_literal [OF assms(2) r, of ?e] by simp
  also have "\<dots> = vsnscanf ?b ?e (bytes_of '':'' @ 0x25 # 0x64 # []) ?A [SAddr a]"
    using vsn_addr [OF r2, of ?e] r3 by (simp add: no_digit_def is_digit8_def)
  also have "\<dots> = vsnscanf ?b ?e (0x25 # 0x64 # []) (?A + 1) [SAddr a]"
    using vsn_literal [OF literals(4), of ?b ?A ?e] r3 by (simp add: c)
  also have "\<dots> = vsnscanf ?b ?e [] ?e [SAddr a, SInt (int n)]"
    using vsn_int [OF r4 assms(1), of ?e] by (simp add: no_digit_def add.assoc)
  finally show ?thesis by (simp add: vsnscanf.simps [of _ _ "[]"])
qed

text \<open>An address without a port: \<open>%I:%d\<close> fails behind the address, \<open>%d\<close> reads its first number.\<close>

lemma addr_only_scans:
  assumes "\<forall>c\<in>set p. c \<noteq> 0x25 \<and> \<not> is_space8 c"
  shows "sscanf (p @ dotted_quad a) (p @ bytes_of ''%I:%d'') = Some (False, [SAddr a])"
    "sscanf (p @ dotted_quad a) (p @ bytes_of ''%d'') = Some (True, [SInt (int (unat (drop_bit 24 a)))])"
proof -
  let ?s = "p @ dotted_quad a" and ?n = "unat (drop_bit 24 a)"
  let ?b = "at ?s" and ?e = "length (p @ dotted_quad a)"
  have r: "reads ?b 0 p" by (rule reads_at [where xs = "[]"]) simp_all
  have r2: "reads ?b (length p) (dotted_quad a)" by (rule reads_at [where zs = "[]"]) simp_all
  have f: "bytes_of ''%I:%d'' = 0x25 # 0x49 # 0x3A # bytes_of ''%d''" by (simp add: bytes_of_def)
  have "sscanf ?s (p @ bytes_of ''%I:%d'') = vsnscanf ?b ?e (p @ 0x25 # 0x49 # 0x3A # bytes_of ''%d'') 0 []"
    by (simp only: sscanf_def snscanf_def f)
  also have "\<dots> = vsnscanf ?b ?e (0x25 # 0x49 # 0x3A # bytes_of ''%d'') (length p) []"
    using vsn_literal [OF assms r, of ?e] by simp
  also have "\<dots> = vsnscanf ?b ?e (0x3A # bytes_of ''%d'') ?e [SAddr a]"
    using vsn_addr [OF r2, of ?e] by (simp add: no_digit_def)
  also have "\<dots> = Some (False, [SAddr a])"
    by (simp add: vsnscanf.simps [of _ _ "0x3A # bytes_of ''%d''"] is_space8_def)
  finally show "sscanf ?s (p @ bytes_of ''%I:%d'') = Some (False, [SAddr a])" .
  have g: "bytes_of ''%d'' = 0x25 # 0x64 # []" by (simp add: bytes_of_def)
  have n: "?n < 256" using unsigned_less [of a, where ?'a = nat]
    by (simp add: drop_bit_eq_div unat_div less_mult_imp_div_less)
  obtain rest where q: "dotted_quad a = decimal ?n @ 0x2E # rest" by (simp add: dotted_quad_def)
  have d: "reads ?b (length p) (decimal ?n)" "?b (length p + length (decimal ?n)) = 0x2E" "length p + length (decimal ?n) < ?e"
    using r2 by (simp_all add: q)
  have "sscanf ?s (p @ bytes_of ''%d'') = vsnscanf ?b ?e (p @ 0x25 # 0x64 # []) 0 []"
    by (simp only: sscanf_def snscanf_def g)
  also have "\<dots> = vsnscanf ?b ?e (0x25 # 0x64 # []) (length p) []"
    using vsn_literal [OF assms r, of ?e] by simp
  also have "\<dots> = vsnscanf ?b ?e [] (length p + length (decimal ?n)) [SInt (int ?n)]"
    using vsn_int [OF d(1), of ?e "[]" "[]"] d(2,3) n by (simp add: no_digit_def is_digit8_def)
  finally show "sscanf ?s (p @ bytes_of ''%d'') = Some (True, [SInt (int ?n)])" by (simp add: vsnscanf.simps [of _ _ "[]"])
qed

section \<open>Properties\<close>

lemma option_letter: "\<forall>c\<in>set (bytes_of ''-t''). c \<noteq> 0x25 \<and> \<not> is_space8 c" "\<forall>c\<in>set []. c \<noteq> (0x25 :: u8) \<and> \<not> is_space8 c"
  by (simp_all add: bytes_of_def is_space8_def)

lemma bytes_of_append: "bytes_of (xs @ ys) = bytes_of xs @ bytes_of ys"
  by (simp add: bytes_of_def)

text \<open>
  The option \<open>-t\<close> followed by an address and a port, as the next argument or in the same one,
  sets both and leaves the rest of the arguments; an address alone sets the port to its own first
  number.
\<close>
theorem tracker_option:
  assumes "0 < n" "n \<le> 65535"
  shows "argprocess mos (bytes_of ''-t'' # (dotted_quad a @ 0x3A # decimal n) # args) st e
      = argprocess mos args (st\<lparr>tracker_addr := a, tracker_port := int n\<rparr>) e
    \<and> argprocess mos [bytes_of ''-t'' @ dotted_quad a @ 0x3A # decimal n] st e
      = Some (Files (st\<lparr>tracker_addr := a, tracker_port := int n\<rparr>) [], e)
    \<and> (drop_bit 24 a \<noteq> 0 \<longrightarrow> argprocess mos (bytes_of ''-t'' # dotted_quad a # args) st e
      = argprocess mos args (st\<lparr>tracker_addr := a, tracker_port := int (unat (drop_bit 24 a))\<rparr>) e)"
proof (intro conjI impI)
  have f: "try_formats store_tracker (p @ dotted_quad a @ 0x3A # decimal n) ((p @ bytes_of ''%I:%d'') # fs) st
      = Some (True, st\<lparr>tracker_addr := a, tracker_port := int n\<rparr>)"
    if "\<forall>c\<in>set p. c \<noteq> 0x25 \<and> \<not> is_space8 c" for p fs
    using addr_port_scan [OF assms(2) that] by simp
  have ok: "port_ok (st\<lparr>tracker_addr := a, tracker_port := int n\<rparr>)" using assms by (simp add: port_ok_def)
  show "argprocess mos (bytes_of ''-t'' # (dotted_quad a @ 0x3A # decimal n) # args) st e
      = argprocess mos args (st\<lparr>tracker_addr := a, tracker_port := int n\<rparr>) e"
    using f [OF option_letter(2)] ok by (simp add: tracker_formats_def)
  have t: "take 2 (bytes_of ''-t'' @ xs) = bytes_of ''-t''" for xs by (simp add: bytes_of_def)
  show "argprocess mos [bytes_of ''-t'' @ dotted_quad a @ 0x3A # decimal n] st e
      = Some (Files (st\<lparr>tracker_addr := a, tracker_port := int n\<rparr>) [], e)"
    unfolding argprocess.simps t tracker_formats_def bytes_of_append using f [OF option_letter(1)] ok by simp
  assume a: "drop_bit 24 a \<noteq> 0"
  let ?st = "st\<lparr>tracker_addr := a, tracker_port := int (unat (drop_bit 24 a))\<rparr>"
  have "unat (drop_bit 24 a) < 256" using unsigned_less [of a, where ?'a = nat]
    by (simp add: drop_bit_eq_div unat_div less_mult_imp_div_less)
  moreover have "0 < unat (drop_bit 24 a)" using a by (simp add: unat_gt_0)
  moreover have "port_ok (st\<lparr>tracker_addr := a, tracker_port := int m\<rparr>)" if "m < 256" "0 < m" for m
    using that by (simp add: port_ok_def)
  ultimately have "port_ok ?st" by blast
  moreover have "try_formats store_tracker (dotted_quad a) (tracker_formats []) st = Some (True, ?st)"
    using addr_only_scans [OF option_letter(2), of a] by (simp add: tracker_formats_def)
  ultimately show "argprocess mos (bytes_of ''-t'' # dotted_quad a # args) st e = argprocess mos args ?st e"
    by simp
qed

text \<open>The default tracker is what scanning its name gives.\<close>

lemma default_tracker:
  "map_option (\<lambda>(ok, out). (ok, fold store_tracker out (st\<lparr>evil_mode := 0\<rparr>))) (sscanf (bytes_of ''164.67.100.231:12997'') (bytes_of ''%I:%d''))
    = Some (True, default_settings)"
proof -
  have "bytes_of ''164.67.100.231:12997'' = [] @ dotted_quad 0xA44364E7 @ 0x3A # decimal 12997"
    by (simp add: bytes_of_def dotted_quad_def decimal.simps)
  then show ?thesis using addr_port_scan [of 12997 "[]" "0xA44364E7"] by (simp add: default_settings_def)
qed

text \<open>
  C40 However many connections the peer accepts and whatever the system calls do, the number of
  children it has not waited for is at most 99, and one for each file it was asked to download, at
  the end of a round of its loop; within a round, before the parent waits, it is at most one more.
\<close>
theorem children_bounded:
  assumes "argprocess mos args default_settings e = Some (Files st files, e0)"
    and "peer_main n mos os myalias args e = Some (r, s)"
  shows "living s \<le> 99 + length files \<and> living (snd (accept_connection mos os l s)) \<le> 100 + length files"
proof -
  from assms have "run_peer n mos os st myalias files e0 = Some (r, s)" by (simp add: peer_main_def)
  note b = run_peer_bounded [OF this]
  obtain x q where a: "accept_connection mos os l s = (x, q)" by (cases "accept_connection mos os l s")
  have "living q \<le> 100 + length files"
    using accept_connection_bounded [OF b a] by (auto split: if_splits)
  with b show ?thesis by (simp add: bounded_def a)
qed

section \<open>Examples\<close>

definition calm_os :: "u8 list list main_os" where
  "calm_os = \<lparr>os_chdir = (\<lambda>d w. (True, w)), os_fork = (\<lambda>w. (True, w)), os_wait = (\<lambda>w. w)\<rparr>"

theorem tracker_option_witness:
  "argprocess calm_os (bytes_of ''-t'' # (dotted_quad 0x7F000001 @ 0x3A # decimal 80) # []) default_settings (chunk_env [])
    = Some (Files (default_settings\<lparr>tracker_addr := 0x7F000001, tracker_port := 80\<rparr>) [], chunk_env [])
   \<and> argprocess calm_os (bytes_of ''-t'' # dotted_quad 0x7F000001 # []) default_settings (chunk_env [])
    = Some (Files (default_settings\<lparr>tracker_addr := 0x7F000001, tracker_port := 127\<rparr>) [], chunk_env [])"
proof -
  have d: "drop_bit 24 (0x7F000001 :: u32) = 0x7F" by simp
  from tracker_option [of 80 calm_os "0x7F000001" "[]" default_settings "chunk_env []"] show ?thesis by (simp add: d)
qed

definition ok_answer :: "u8 list" where "ok_answer = [0x32, 0x30, 0x30, 0x20, 0x4F, 0x4B, 0x0A]"

lemma answered:
  assumes "world e = ok_answer # cs"
  shows "\<exists>t' e'. read_tracker_response chunk_os t e = Some (Done 0, t', e') \<and> world e' = cs \<and> task_type t' = task_type t
    \<and> buf t' 0 = 0x32 \<and> peer_fd t' = peer_fd t"
proof -
  define t0 t1 where "t0 = t\<lparr>head := 0, tail := 0\<rparr>" and "t1 = t0\<lparr>buf := mem_write (buf t0) 0 ok_answer, tail := 7\<rparr>"
  have r: "read_to_taskbuf chunk_os (peer_fd t0) t0 e = (TBUF_OK, t1, logged (Read_from (peer_fd t0) ok_answer) cs e)"
    using assms by (simp add: read_to_taskbuf_def sys_read_def chunk_os_def read_room_def ring_pos_def logged_def t0_def t1_def
        ok_answer_def TASKBUFSIZ_def)
  have u: "unat (tail t0) = 0" "unat (tail t1) = 7" "buf t1 = mem_write (buf t0) 0 ok_answer" by (simp_all add: t0_def t1_def)
  have b0: "scan_response b 0 0 None = Inl (0, None)" for b by (simp add: scan_response.simps [of b])
  have b7: "scan_response (mem_write b 0 ok_answer) 7 0 None = Inr 0" for b
    by (simp add: scan_response.simps [of _ 7 0] mem_write_byte is_digit8_def is_space8_def ok_answer_def)
  have "read_tracker_response chunk_os t e = await_response chunk_os t0 0 None e" by (simp add: read_tracker_response_def t0_def)
  also have "\<dots> = await_response chunk_os t1 0 None (logged (Read_from (peer_fd t0) ok_answer) cs e)"
    by (subst await_response.simps) (simp add: r u b0)
  also have "\<dots> = Some (Done 0, t1\<lparr>buf := (buf t1)(7 := 0)\<rparr>, logged (Read_from (peer_fd t0) ok_answer) cs e)"
    by (subst await_response.simps) (simp add: u b7)
  finally have "read_tracker_response chunk_os t e
      = Some (Done 0, t1\<lparr>buf := (buf t1)(7 := 0)\<rparr>, logged (Read_from (peer_fd t0) ok_answer) cs e)" .
  then show ?thesis by (simp add: logged_def t1_def t0_def ok_answer_def mem_write_byte)
qed

lemma calm_start:
  assumes "world e = ok_answer # cs"
  shows "\<exists>tr e'. start_tracker chunk_os a p e = Some (Done tr, e') \<and> world e' = cs \<and> task_type tr = TASK_TRACKER"
proof -
  have o: "open_socket chunk_os a p e = (Inr 3, e\<lparr>world := world e\<rparr>) \<or> (\<exists>ev. open_socket chunk_os a p e = (Inr 3, logged ev (world e) e))"
    by (auto simp: open_socket_def sys_call_def sys_connect_def chunk_os_def)
  then obtain e1 where e1: "open_socket chunk_os a p e = (Inr 3, e1)" "world e1 = ok_answer # cs"
    using assms by (auto simp: logged_def)
  obtain t where t: "task_new chunk_os TASK_TRACKER = Some t" "task_type t = TASK_TRACKER" by (simp add: task_new_def chunk_os_def)
  have g: "sys_call (os_getsockname chunk_os 3) e1 = (None, e1)" by (simp add: sys_call_def chunk_os_def)
  show ?thesis using answered [OF e1(2), of "t\<lparr>peer_fd := 3\<rparr>"] t by (auto simp: start_tracker_def e1(1) g)
qed

lemma calm_listen: "\<exists>l e'. start_listen chunk_os e = (Done l, e') \<and> world e' = world e \<and> task_type l = TASK_PEER_LISTEN
    \<and> listen_port e' = 11112"
proof -
  have "\<exists>e'. listen_ports chunk_os [11112..<13000] e = (Done 3, e') \<and> world e' = world e \<and> listen_port e' = 11112"
    by (simp add: upt_rec [of 11112] open_socket_def sys_call_def chunk_os_def)
  moreover have "\<exists>t. task_new chunk_os TASK_PEER_LISTEN = Some t \<and> task_type t = TASK_PEER_LISTEN"
    by (simp add: task_new_def chunk_os_def)
  ultimately show ?thesis by (auto simp: start_listen_def)
qed

lemma calm_register:
  assumes "world e = ok_answer # cs" "task_type tr = TASK_TRACKER" "listen_port e = 11112"
  shows "\<exists>tr' e'. register_files chunk_os tr al e = Some (Done (), tr', e') \<and> world e' = cs"
proof -
  obtain bs where "render addr_format [WStr al, WAddr (listen_addr e), WInt (listen_port e)] = Some bs"
    by (simp add: addr_format_def bytes_of_def)
  moreover have "list_all short_int [WStr al, WAddr (listen_addr e), WInt (listen_port e)]"
    by (simp add: assms(3) signed_decimal_def decimal.simps)
  ultimately obtain m where "writef_message (\<lambda>_. True) addr_format [WStr al, WAddr (listen_addr e), WInt (listen_port e)] = Some m"
    "\<not> msg_overrun m" using writef_renders by blast
  from chunk_writef [OF this, of "peer_fd tr" e] assms(1) obtain w e1
    where w: "osp2p_writef chunk_os (peer_fd tr) addr_format [WStr al, WAddr (listen_addr e), WInt (listen_port e)] e = Some (w, e1)"
      "world e1 = ok_answer # cs" by auto
  from answered [OF w(2), of tr] obtain t' e' where "read_tracker_response chunk_os tr e1 = Some (Done 0, t', e')" "world e' = cs"
    "buf t' 0 = 0x32" by blast
  with w(1) assms(2) show ?thesis by (auto simp: register_files_def sys_call_def chunk_os_def [THEN arg_cong [where f = os_files]])
qed

lemma calm_serve:
  assumes "task_type l = TASK_PEER_LISTEN" "num_req s < 100"
  shows "\<exists>s'. serve_connection calm_os chunk_os l s = (Done True, s') \<and> living s' = living s + 1 \<and> num_req s' = num_req s + 1"
proof -
  obtain t where "task_new chunk_os TASK_UPLOAD = Some t" by (simp add: task_new_def chunk_os_def)
  then show ?thesis using assms
    by (auto simp: serve_connection_def accept_connection_def wait_child_def task_listen_def sys_call_def chunk_os_def [THEN arg_cong [where f = os_accept]]
        fork_off_def calm_os_def Let_def)
qed

theorem children_bounded_witness:
  "\<exists>s. peer_main 2 calm_os chunk_os [0x61] [] (chunk_env [ok_answer, ok_answer]) = Some (Done True, s)
    \<and> living s = 2 \<and> living (snd (accept_connection calm_os chunk_os tracker_task s)) \<le> 100"
proof -
  let ?e = "chunk_env [ok_answer, ok_answer]"
  have "world ?e = ok_answer # [ok_answer]" by (simp add: chunk_env_def)
  from calm_start [OF this] obtain tr e1 where 1: "start_tracker chunk_os (tracker_addr default_settings) (tracker_port default_settings) ?e
    = Some (Done tr, e1)" "world e1 = [ok_answer]" "task_type tr = TASK_TRACKER" by blast
  from calm_listen [of e1] 1(2) obtain l e2 where 2: "start_listen chunk_os e1 = (Done l, e2)" "world e2 = ok_answer # []"
    "task_type l = TASK_PEER_LISTEN" "listen_port e2 = 11112" by auto
  from calm_register [OF 2(2) 1(3) 2(4)] obtain tr' e3 where 3: "register_files chunk_os tr [0x61] e2 = Some (Done (), tr', e3)" by blast
  let ?s = "\<lparr>children = [], living = 0, num_req = 1, here = e3\<rparr>"
  from calm_serve [OF 2(3), of ?s] obtain s1 where s1: "serve_connection calm_os chunk_os l ?s = (Done True, s1)"
    "living s1 = 1" "num_req s1 = 2" by auto
  from calm_serve [OF 2(3), of s1] s1 obtain s2 where s2: "serve_connection calm_os chunk_os l s1 = (Done True, s2)"
    "living s2 = 2" by auto
  have "peer_main 2 calm_os chunk_os [0x61] [] ?e = Some (Done True, s2)"
    by (simp add: peer_main_def run_peer_def 1 2 3 Let_def numeral_2_eq_2 s1(1) s2(1))
  moreover have "argprocess calm_os [] default_settings ?e = Some (Files default_settings [], ?e)" by simp
  ultimately show ?thesis using children_bounded [of calm_os "[]" ?e default_settings "[]" ?e 2 chunk_os "[0x61]"] s2(2) by fastforce
qed

end
