(* ===== verification/Md5_Reference.thy ===== *)
theory Md5_Reference
  imports Prelude
begin

text \<open>
  The MD5 digest as RFC 1321 defines it: the function of one block as four rounds of sixteen steps
  over a chain of four words, padding and length, and the digest of a message.  Lemmas that an
  implementation with registers in place and rotations by shifts agrees with it, the bits of a
  digest, and the interface \<open>hash_stream\<close> of an implementation.
\<close>

section \<open>The algorithm\<close>

type_synonym chain = "u32 \<times> u32 \<times> u32 \<times> u32"

definition md5_F :: "u32 \<Rightarrow> u32 \<Rightarrow> u32 \<Rightarrow> u32" where "md5_F x y z = (x AND y) OR (NOT x AND z)"
definition md5_G :: "u32 \<Rightarrow> u32 \<Rightarrow> u32 \<Rightarrow> u32" where "md5_G x y z = (x AND z) OR (y AND NOT z)"
definition md5_H :: "u32 \<Rightarrow> u32 \<Rightarrow> u32 \<Rightarrow> u32" where "md5_H x y z = x XOR y XOR z"
definition md5_I :: "u32 \<Rightarrow> u32 \<Rightarrow> u32 \<Rightarrow> u32" where "md5_I x y z = y XOR (x OR NOT z)"

text \<open>The integer parts of \<open>2 ^ 32 * abs (sin i)\<close>, \<open>i\<close> from 1 to 64.\<close>

definition md5_T :: "u32 list" where
  "md5_T =
    [0xd76aa478, 0xe8c7b756, 0x242070db, 0xc1bdceee, 0xf57c0faf, 0x4787c62a, 0xa8304613, 0xfd469501,
     0x698098d8, 0x8b44f7af, 0xffff5bb1, 0x895cd7be, 0x6b901122, 0xfd987193, 0xa679438e, 0x49b40821,
     0xf61e2562, 0xc040b340, 0x265e5a51, 0xe9b6c7aa, 0xd62f105d, 0x02441453, 0xd8a1e681, 0xe7d3fbc8,
     0x21e1cde6, 0xc33707d6, 0xf4d50d87, 0x455a14ed, 0xa9e3e905, 0xfcefa3f8, 0x676f02d9, 0x8d2a4c8a,
     0xfffa3942, 0x8771f681, 0x6d9d6122, 0xfde5380c, 0xa4beea44, 0x4bdecfa9, 0xf6bb4b60, 0xbebfbc70,
     0x289b7ec6, 0xeaa127fa, 0xd4ef3085, 0x04881d05, 0xd9d4d039, 0xe6db99e5, 0x1fa27cf8, 0xc4ac5665,
     0xf4292244, 0x432aff97, 0xab9423a7, 0xfc93a039, 0x655b59c3, 0x8f0ccc92, 0xffeff47d, 0x85845dd1,
     0x6fa87e4f, 0xfe2ce6e0, 0xa3014314, 0x4e0811a1, 0xf7537e82, 0xbd3af235, 0x2ad7d2bb, 0xeb86d391]"

text \<open>
  An operation \<open>a = b + ((a + f(b,c,d) + X[k] + T) <<< s)\<close> is a row \<open>(k, s, T)\<close>; after it the four
  registers change their roles.
\<close>

type_synonym row = "nat \<times> nat \<times> u32"

definition md5_rows :: "(nat \<Rightarrow> nat) \<Rightarrow> nat list \<Rightarrow> u32 list \<Rightarrow> row list" where
  "md5_rows k s T = map (\<lambda>i. (k i mod 16, s ! (i mod 4), T ! i)) [0..<16]"

definition md5_step :: "(u32 \<Rightarrow> u32 \<Rightarrow> u32 \<Rightarrow> u32) \<Rightarrow> (nat \<Rightarrow> u32) \<Rightarrow> row \<Rightarrow> chain \<Rightarrow> chain" where
  "md5_step f X = (\<lambda>(k, s, T) (a, b, c, d). (d, b + word_rotl s (a + f b c d + X k + T), b, c))"

definition add_chain :: "chain \<Rightarrow> chain \<Rightarrow> chain" where
  "add_chain = (\<lambda>(a, b, c, d) (a', b', c', d'). (a + a', b + b', c + c', d + d'))"

text \<open>The words of a block of 64 bytes.\<close>

definition block_word :: "u8 list \<Rightarrow> nat \<Rightarrow> u32" where
  "block_word bs k = get32 (\<lambda>a. bs ! a) (4 * k)"

definition md5_block :: "chain \<Rightarrow> u8 list \<Rightarrow> chain" where
  "md5_block h bs = add_chain h
     (fold (md5_step md5_I (block_word bs)) (md5_rows (\<lambda>i. 7 * i) [6, 10, 15, 21] (drop 48 md5_T))
     (fold (md5_step md5_H (block_word bs)) (md5_rows (\<lambda>i. 5 + 3 * i) [4, 11, 16, 23] (drop 32 md5_T))
     (fold (md5_step md5_G (block_word bs)) (md5_rows (\<lambda>i. 1 + 5 * i) [5, 9, 14, 20] (drop 16 md5_T))
     (fold (md5_step md5_F (block_word bs)) (md5_rows (\<lambda>i. i) [7, 12, 17, 22] md5_T) h))))"

definition md5_start :: chain where
  "md5_start = (0x67452301, 0xefcdab89, 0x98badcfe, 0x10325476)"

text \<open>All whole blocks of a message.\<close>

function md5_blocks :: "chain \<Rightarrow> u8 list \<Rightarrow> chain" where
  "md5_blocks h bs = (if length bs < 64 then h else md5_blocks (md5_block h (take 64 bs)) (drop 64 bs))"
  by pat_completeness auto
termination by (relation "measure (\<lambda>(h, bs). length bs)") auto

declare md5_blocks.simps [simp del]

definition le32 :: "u32 \<Rightarrow> u8 list" where
  "le32 w = [ucast w, ucast (drop_bit 8 w), ucast (drop_bit 16 w), ucast (drop_bit 24 w)]"

definition md5_padding :: "nat \<Rightarrow> u8 list" where
  "md5_padding n = 0x80 # replicate ((119 - n mod 64) mod 64) 0"

text \<open>The length in bits, modulo \<open>2 ^ 64\<close>.\<close>

definition md5_length :: "nat \<Rightarrow> u8 list" where
  "md5_length n = le32 (of_nat (8 * n)) @ le32 (of_nat (8 * n div 2 ^ 32))"

definition chain_bytes :: "chain \<Rightarrow> u8 list" where
  "chain_bytes = (\<lambda>(a, b, c, d). le32 a @ le32 b @ le32 c @ le32 d)"

definition md5 :: "u8 list \<Rightarrow> u8 list" where
  "md5 m = chain_bytes (md5_blocks md5_start (m @ md5_padding (length m) @ md5_length (length m)))"

section \<open>Facts\<close>

lemma length_le32 [simp]: "length (le32 w) = 4"
  by (simp add: le32_def)

lemma length_md5 [simp]: "length (md5 m) = 16"
  by (simp add: md5_def chain_bytes_def split: prod.split)

lemma zero_padding: "r < 64 \<Longrightarrow> (119 - r) mod 64 = (if r < 56 then 55 - r else 119 - r)" for r :: nat
  by (simp add: mod_if)

lemma length_padding:
  assumes "n mod 64 = r" shows "length (md5_padding n) = (if r < 56 then 56 - r else 120 - r)"
proof -
  have "r < 64" using assms by auto
  then show ?thesis by (auto simp: md5_padding_def assms zero_padding)
qed

lemma padded_length: "64 dvd n + length (md5_padding n) + 8"
proof -
  define r where "r = n mod 64"
  have r: "n = 64 * (n div 64) + r" "r < 64" by (simp_all add: r_def)
  have "n + length (md5_padding n) + 8 = 64 * (n div 64 + (if r < 56 then 1 else 2))"
    unfolding length_padding [OF r_def [symmetric]] using r by (cases "r < 56") simp_all
  then show ?thesis by simp
qed

lemma md5_blocks_append:
  "64 dvd length xs \<Longrightarrow> md5_blocks h (xs @ ys) = md5_blocks (md5_blocks h xs) ys"
proof (induction h xs rule: md5_blocks.induct)
  case (1 h bs)
  show ?case
  proof (cases "length bs < 64")
    case True
    with 1(2) have "bs = []" by (auto dest: dvd_imp_le)
    then show ?thesis by (simp add: md5_blocks.simps [of h "[]"])
  next
    case False
    then have "64 dvd length (drop 64 bs)" using 1(2) by (simp add: dvd_diff_nat)
    from 1(1) [OF False this] False show ?thesis
      by (simp add: md5_blocks.simps [of h "bs @ ys"] md5_blocks.simps [of h bs])
  qed
qed

lemma md5_blocks_short [simp]: "length bs < 64 \<Longrightarrow> md5_blocks h bs = h"
  by (simp add: md5_blocks.simps)

lemma md5_blocks_one: "length bs = 64 \<Longrightarrow> md5_blocks h bs = md5_block h bs"
  by (simp add: md5_blocks.simps)

lemma md5_blocks_snoc: "64 dvd length xs \<Longrightarrow> length b = 64 \<Longrightarrow> md5_blocks h (xs @ b) = md5_block (md5_blocks h xs) b"
  by (simp add: md5_blocks_append md5_blocks_one)

lemma rows1:
  "md5_rows (\<lambda>i. i) [7, 12, 17, 22] md5_T =
    [(0, 7, 0xd76aa478), (1, 12, 0xe8c7b756), (2, 17, 0x242070db), (3, 22, 0xc1bdceee),
     (4, 7, 0xf57c0faf), (5, 12, 0x4787c62a), (6, 17, 0xa8304613), (7, 22, 0xfd469501),
     (8, 7, 0x698098d8), (9, 12, 0x8b44f7af), (10, 17, 0xffff5bb1), (11, 22, 0x895cd7be),
     (12, 7, 0x6b901122), (13, 12, 0xfd987193), (14, 17, 0xa679438e), (15, 22, 0x49b40821)]"
  by (simp add: md5_rows_def md5_T_def upt_rec)

lemma rows2:
  "md5_rows (\<lambda>i. 1 + 5 * i) [5, 9, 14, 20] (drop 16 md5_T) =
    [(1, 5, 0xf61e2562), (6, 9, 0xc040b340), (11, 14, 0x265e5a51), (0, 20, 0xe9b6c7aa),
     (5, 5, 0xd62f105d), (10, 9, 0x02441453), (15, 14, 0xd8a1e681), (4, 20, 0xe7d3fbc8),
     (9, 5, 0x21e1cde6), (14, 9, 0xc33707d6), (3, 14, 0xf4d50d87), (8, 20, 0x455a14ed),
     (13, 5, 0xa9e3e905), (2, 9, 0xfcefa3f8), (7, 14, 0x676f02d9), (12, 20, 0x8d2a4c8a)]"
  by (simp add: md5_rows_def md5_T_def upt_rec)

lemma rows3:
  "md5_rows (\<lambda>i. 5 + 3 * i) [4, 11, 16, 23] (drop 32 md5_T) =
    [(5, 4, 0xfffa3942), (8, 11, 0x8771f681), (11, 16, 0x6d9d6122), (14, 23, 0xfde5380c),
     (1, 4, 0xa4beea44), (4, 11, 0x4bdecfa9), (7, 16, 0xf6bb4b60), (10, 23, 0xbebfbc70),
     (13, 4, 0x289b7ec6), (0, 11, 0xeaa127fa), (3, 16, 0xd4ef3085), (6, 23, 0x04881d05),
     (9, 4, 0xd9d4d039), (12, 11, 0xe6db99e5), (15, 16, 0x1fa27cf8), (2, 23, 0xc4ac5665)]"
  by (simp add: md5_rows_def md5_T_def upt_rec)

lemma rows4:
  "md5_rows (\<lambda>i. 7 * i) [6, 10, 15, 21] (drop 48 md5_T) =
    [(0, 6, 0xf4292244), (7, 10, 0x432aff97), (14, 15, 0xab9423a7), (5, 21, 0xfc93a039),
     (12, 6, 0x655b59c3), (3, 10, 0x8f0ccc92), (10, 15, 0xffeff47d), (1, 21, 0x85845dd1),
     (8, 6, 0x6fa87e4f), (15, 10, 0xfe2ce6e0), (6, 15, 0xa3014314), (13, 21, 0x4e0811a1),
     (4, 6, 0xf7537e82), (11, 10, 0xbd3af235), (2, 15, 0x2ad7d2bb), (9, 21, 0xeb86d391)]"
  by (simp add: md5_rows_def md5_T_def upt_rec)

section \<open>Rotations written with shifts\<close>

lemma rol_rotl:
  fixes x :: u32
  assumes "0 < n" "n < 32"
  shows "push_bit n x OR drop_bit (32 - n) x = word_rotl n x"
proof (rule bit_word_eqI)
  fix k assume k: "k < LENGTH(32)"
  have r: "bit (word_rotl n x) k = bit x ((k + (32 - n)) mod 32)" using assms k by (simp add: bit_word_rotl_iff)
  show "bit (push_bit n x OR drop_bit (32 - n) x) k = bit (word_rotl n x) k"
  proof (cases "k < n")
    case True
    then have "(k + (32 - n)) mod 32 = k + (32 - n)" using assms by simp
    with True k r show ?thesis by (simp add: bit_simps add.commute)
  next
    case False
    then have "(k + (32 - n)) mod 32 = k - n" using assms k by (simp add: mod_if)
    with False k r have "bit (word_rotl n x) k = bit x (k - n)" by simp
    moreover have "\<not> bit x (k + (32 - n))" using False assms by (intro notI) (auto dest: bit_imp_le_length)
    ultimately show ?thesis using False k by (simp add: bit_simps add.commute)
  qed
qed

text \<open>The digest of \<open>abc\<close>, as RFC 1321 gives it.\<close>

lemma md5_abc:
  "md5 [0x61, 0x62, 0x63] =
     [0x90, 0x01, 0x50, 0x98, 0x3c, 0xd2, 0x4f, 0xb0, 0xd6, 0x96, 0x3f, 0x7d, 0x28, 0xe1, 0x7f, 0x72]"
proof -
  define B :: "u8 list" where "B = [0x61, 0x62, 0x63, 0x80] @ replicate 52 0 @ [24, 0, 0, 0, 0, 0, 0, 0]"
  have words: "block_word B 0 = 0x80636261"
    "block_word B (Suc 0) = 0x0"
    "block_word B 2 = 0x0"
    "block_word B 3 = 0x0"
    "block_word B 4 = 0x0"
    "block_word B 5 = 0x0"
    "block_word B 6 = 0x0"
    "block_word B 7 = 0x0"
    "block_word B 8 = 0x0"
    "block_word B 9 = 0x0"
    "block_word B 10 = 0x0"
    "block_word B 11 = 0x0"
    "block_word B 12 = 0x0"
    "block_word B 13 = 0x0"
    "block_word B 14 = 0x18"
    "block_word B 15 = 0x0"
    by (simp_all add: B_def block_word_def get32_def nth_append)
  have r1: "fold (md5_step md5_F (block_word B)) (md5_rows (\<lambda>i. i) [7, 12, 17, 22] md5_T)
      (0x67452301, 0xefcdab89, 0x98badcfe, 0x10325476) = (0xdda9b9a6, 0x72aff2e0, 0xe396856b, 0xa1051895)"
    unfolding rows1 by (simp add: md5_step_def md5_F_def words rol_rotl [symmetric])
  have r2: "fold (md5_step md5_G (block_word B)) (md5_rows (\<lambda>i. 1 + 5 * i) [5, 9, 14, 20] (drop 16 md5_T))
      (0xdda9b9a6, 0x72aff2e0, 0xe396856b, 0xa1051895) = (0x790a77fb, 0x726342d3, 0xa62884aa, 0x9f47e4f8)"
    unfolding rows2 by (simp add: md5_step_def md5_G_def words rol_rotl [symmetric])
  have r3: "fold (md5_step md5_H (block_word B)) (md5_rows (\<lambda>i. 5 + 3 * i) [4, 11, 16, 23] (drop 32 md5_T))
      (0x790a77fb, 0x726342d3, 0xa62884aa, 0x9f47e4f8) = (0x7f2e507b, 0x7beb9700, 0x8fae6399, 0x99d9679d)"
    unfolding rows3 by (simp add: md5_step_def md5_H_def words rol_rotl [symmetric])
  have r4: "fold (md5_step md5_I (block_word B)) (md5_rows (\<lambda>i. 7 * i) [6, 10, 15, 21] (drop 48 md5_T))
      (0x7f2e507b, 0x7beb9700, 0x8fae6399, 0x99d9679d) = (0x310ade8f, 0xc08226b3, 0xe484b9d8, 0x624d8cb2)"
    unfolding rows4 by (simp add: md5_step_def md5_I_def words rol_rotl [symmetric])
  have b: "md5_block md5_start B = (0x98500190, 0xb04fd23c, 0x7d3f96d6, 0x727fe128)"
    by (simp only: md5_block_def md5_start_def r1 r2 r3 r4) (simp add: add_chain_def)
  let ?m = "[0x61, 0x62, 0x63] :: u8 list"
  have p: "?m @ md5_padding (length ?m) @ md5_length (length ?m) = B"
    by (simp add: md5_padding_def md5_length_def le32_def B_def numeral_3_eq_3 [symmetric])
  have "length B = 64" by (simp add: B_def)
  then have "md5 ?m = chain_bytes (md5_block md5_start B)" unfolding md5_def p by (simp only: md5_blocks_one)
  then show ?thesis by (simp add: b chain_bytes_def le32_def)
qed

section \<open>Registers in place\<close>

text \<open>
  An implementation keeps the four registers where they are and applies the operations to
  \<open>a\<close>, \<open>d\<close>, \<open>c\<close> and \<open>b\<close> in turn.
\<close>

definition on_A :: "(u32 \<Rightarrow> u32 \<Rightarrow> u32 \<Rightarrow> u32 \<Rightarrow> u32) \<Rightarrow> chain \<Rightarrow> chain" where
  "on_A g = (\<lambda>(a, b, c, d). (g a b c d, b, c, d))"
definition on_D :: "(u32 \<Rightarrow> u32 \<Rightarrow> u32 \<Rightarrow> u32 \<Rightarrow> u32) \<Rightarrow> chain \<Rightarrow> chain" where
  "on_D g = (\<lambda>(a, b, c, d). (a, b, c, g d a b c))"
definition on_C :: "(u32 \<Rightarrow> u32 \<Rightarrow> u32 \<Rightarrow> u32 \<Rightarrow> u32) \<Rightarrow> chain \<Rightarrow> chain" where
  "on_C g = (\<lambda>(a, b, c, d). (a, b, g c d a b, d))"
definition on_B :: "(u32 \<Rightarrow> u32 \<Rightarrow> u32 \<Rightarrow> u32 \<Rightarrow> u32) \<Rightarrow> chain \<Rightarrow> chain" where
  "on_B g = (\<lambda>(a, b, c, d). (a, g b c d a, c, d))"

definition run_ops :: "(chain \<Rightarrow> chain) list \<Rightarrow> chain \<Rightarrow> chain" where
  "run_ops = fold (\<lambda>g. g)"

definition md5_op :: "(u32 \<Rightarrow> u32 \<Rightarrow> u32 \<Rightarrow> u32) \<Rightarrow> u32 \<Rightarrow> nat \<Rightarrow> u32 \<Rightarrow> u32 \<Rightarrow> u32 \<Rightarrow> u32 \<Rightarrow> u32 \<Rightarrow> u32" where
  "md5_op f x s T a b c d = b + word_rotl s (a + f b c d + x + T)"

fun in_place :: "(u32 \<Rightarrow> u32 \<Rightarrow> u32 \<Rightarrow> u32) \<Rightarrow> (nat \<Rightarrow> u32) \<Rightarrow> row list \<Rightarrow> (chain \<Rightarrow> chain) list" where
  "in_place f X ((k0, s0, T0) # (k1, s1, T1) # (k2, s2, T2) # (k3, s3, T3) # rows) =
     on_A (md5_op f (X k0) s0 T0) # on_D (md5_op f (X k1) s1 T1) # on_C (md5_op f (X k2) s2 T2)
     # on_B (md5_op f (X k3) s3 T3) # in_place f X rows"
| "in_place f X rows = []"

lemma four_steps:
  "md5_step f X r3 (md5_step f X r2 (md5_step f X r1 (md5_step f X r0 h))) = run_ops (in_place f X [r0, r1, r2, r3]) h"
  by (cases r0; cases r1; cases r2; cases r3; cases h)
    (simp add: md5_step_def run_ops_def on_A_def on_B_def on_C_def on_D_def md5_op_def Let_def)

lemma run_ops_append: "run_ops (xs @ ys) h = run_ops ys (run_ops xs h)"
  by (simp add: run_ops_def)

lemma in_place_steps:
  "length rows mod 4 = 0 \<Longrightarrow> fold (md5_step f X) rows h = run_ops (in_place f X rows) h"
proof (induction f X rows arbitrary: h rule: in_place.induct)
  case (1 f X k0 s0 T0 k1 s1 T1 k2 s2 T2 k3 s3 T3 rows)
  have "in_place f X ((k0, s0, T0) # (k1, s1, T1) # (k2, s2, T2) # (k3, s3, T3) # rows)
      = in_place f X [(k0, s0, T0), (k1, s1, T1), (k2, s2, T2), (k3, s3, T3)] @ in_place f X rows" by simp
  then show ?case using 1 by (simp add: four_steps run_ops_append del: in_place.simps)
qed (auto simp: run_ops_def)

section \<open>The bits of a digest\<close>

definition digest_bit :: "u8 list \<Rightarrow> nat \<Rightarrow> bool" where
  "digest_bit d j = bit (d ! (j div 8)) (j mod 8)"

text \<open>Both texts of a digest read groups of bits that may lie in two bytes.\<close>

lemma byte_out: "8 \<le> n \<Longrightarrow> \<not> bit w n" for w :: u8
  using bit_imp_le_length [of w n] by auto

lemma bit_low: "bit (unat x div 2 ^ o') n \<longleftrightarrow> bit x (o' + n)" for x :: u8
proof -
  have "unat x div 2 ^ o' = drop_bit o' (unat x)" by (simp only: drop_bit_eq_div)
  then show ?thesis by (simp add: bit_drop_bit_eq bit_unsigned_iff)
qed

lemma group_word:
  fixes x y :: u8
  assumes "o' < 8" "i < 8"
  shows "bit (unat x div 2 ^ o' + unat y * 2 ^ (8 - o')) i \<longleftrightarrow> (if o' + i < 8 then bit x (o' + i) else bit y (o' + i - 8))"
proof -
  have p: "unat y * 2 ^ (8 - o') = push_bit (8 - o') (unat y)" by (simp only: push_bit_eq_mult)
  have "unat x div 2 ^ o' + push_bit (8 - o') (unat y) = (unat x div 2 ^ o') OR push_bit (8 - o') (unat y)"
  proof (rule disjunctive_add_eq_or, rule bit_eqI)
    fix n show "bit (unat x div 2 ^ o' AND push_bit (8 - o') (unat y)) n = bit (0 :: nat) n"
      using byte_out [of "o' + n" x] by (auto simp: bit_and_iff bit_low bit_push_bit_iff)
  qed
  then have "bit (unat x div 2 ^ o' + unat y * 2 ^ (8 - o')) i \<longleftrightarrow> bit x (o' + i) \<or> 8 - o' \<le> i \<and> bit (unat y) (i - (8 - o'))"
    unfolding p by (simp add: bit_or_iff bit_low bit_push_bit_iff)
  moreover have "i - (8 - o') = o' + i - 8" using assms by simp
  ultimately show ?thesis using byte_out [of "o' + i" x] assms by (auto simp: bit_unsigned_iff)
qed

lemma group_bits:
  assumes "i < 8" "b + i < 128"
    "v = (if b + 8 > (b div 8 + 1) * 8 \<and> b div 8 < 15
      then unat (d ! (b div 8)) div 2 ^ (b mod 8) + unat (d ! (b div 8 + 1)) * 2 ^ (8 - b mod 8)
      else unat (d ! (b div 8)) div 2 ^ (b mod 8))"
  shows "bit v i = digest_bit d (b + i)"
proof -
  define f o' where "f = b div 8" and "o' = b mod 8"
  have b: "b = 8 * f + o'" "o' < 8" by (simp_all add: f_def o'_def)
  have v: "v = (if b + 8 > (f + 1) * 8 \<and> f < 15 then unat (d ! f) div 2 ^ o' + unat (d ! (f + 1)) * 2 ^ (8 - o')
      else unat (d ! f) div 2 ^ o')" using assms(3) by (simp add: f_def o'_def)
  show ?thesis
  proof (cases "o' + i < 8")
    case True
    have "(b + i) div 8 = f" "(b + i) mod 8 = o' + i" unfolding b(1) using True by (simp_all add: add.assoc)
    then show ?thesis using True group_word [OF b(2) assms(1)] by (simp add: v digest_bit_def bit_low)
  next
    case False
    have s: "b + i = 8 * (f + 1) + (o' + i - 8)" "o' + i - 8 < 8" using False b assms(1) by simp_all
    have d: "(b + i) div 8 = f + 1" "(b + i) mod 8 = o' + i - 8" unfolding s(1) using s(2) by (simp_all del: mult_Suc_right)
    have "b + 8 > (f + 1) * 8" "f < 15" using False b assms(1,2) s by auto
    then show ?thesis using False group_word [OF b(2) assms(1)] d by (simp add: v digest_bit_def)
  qed
qed

lemma digest_eqI:
  assumes "length d = 16" "length d' = 16" "\<And>j. j < 128 \<Longrightarrow> digest_bit d j = digest_bit d' j"
  shows "d = d'"
proof (rule nth_equalityI)
  fix k assume "k < length d"
  with assms(1) have k: "k < 16" by simp
  show "d ! k = d' ! k"
  proof (rule bit_word_eqI)
    fix n assume "n < LENGTH(8)"
    then have n: "n < 8" by simp
    then have "(8 * k + n) div 8 = k" "(8 * k + n) mod 8 = n" "8 * k + n < 128" using k by simp_all
    with assms(3) [of "8 * k + n"] show "bit (d ! k) n = bit (d' ! k) n" by (simp add: digest_bit_def)
  qed
qed (use assms in simp)

section \<open>The interface of an implementation\<close>

text \<open>
  A hash is computed by starting a context, giving it the message in chunks and asking for the
  digest.  \<open>holds s m\<close> says that the context has seen exactly \<open>m\<close>; a chunk is taken in when
  \<open>chunk\<close> allows it, and the digest is right for the messages that \<open>fits\<close> allows.
\<close>

locale hash_stream =
  fixes init :: 's
    and update :: "'s \<Rightarrow> u8 list \<Rightarrow> 's"
    and final :: "'s \<Rightarrow> u8 list"
    and hash :: "u8 list \<Rightarrow> u8 list"
    and holds :: "'s \<Rightarrow> u8 list \<Rightarrow> bool"
    and chunk :: "u8 list \<Rightarrow> bool"
    and fits :: "u8 list \<Rightarrow> bool"
  assumes starts: "holds init []"
    and updates: "holds s m \<Longrightarrow> chunk bs \<Longrightarrow> holds (update s bs) (m @ bs)"
    and finishes: "holds s m \<Longrightarrow> fits m \<Longrightarrow> final s = hash m"
begin

lemma chunks_hold:
  "holds s m \<Longrightarrow> \<forall>bs\<in>set chunks. chunk bs \<Longrightarrow> holds (fold (\<lambda>bs s. update s bs) chunks s) (m @ concat chunks)"
proof (induction chunks arbitrary: s m)
  case (Cons bs chunks)
  from Cons.IH [OF updates [OF Cons.prems(1)]] Cons.prems(2) show ?case by simp
qed simp

lemma chunks_hash:
  "\<forall>bs\<in>set chunks. chunk bs \<Longrightarrow> fits (concat chunks) \<Longrightarrow>
   final (fold (\<lambda>bs s. update s bs) chunks init) = hash (concat chunks)"
  using finishes [OF chunks_hold [OF starts]] by simp

end

end
