(* ===== verification/Md5_Gnu.thy ===== *)
theory Md5_Gnu
  imports Md5_Reference
begin

text \<open>
  File_System/md5.c: the context, \<open>transform\<close>, \<open>md5_update\<close>, \<open>do_final\<close> and the text of a digest.
  \<open>ctx_holds\<close> is its invariant: the bytes seen are in the registers and in the buffer.
\<close>

section \<open>The context\<close>

record MD5_CONTEXT =
  md_A :: u32
  md_B :: u32
  md_C :: u32
  md_D :: u32
  md_nblocks :: u32
  md_buf :: "u8 list"
  md_count :: nat
  md_finalized :: bool

definition rol :: "u32 \<Rightarrow> nat \<Rightarrow> u32" where
  "rol x n = push_bit n x OR drop_bit (32 - n) x"

text \<open>\<open>buf\<close> is what the memory held before, here zeros.\<close>

definition md5_init :: MD5_CONTEXT where
  "md5_init = \<lparr>md_A = 0x67452301, md_B = 0xefcdab89, md_C = 0x98badcfe, md_D = 0x10325476,
     md_nblocks = 0, md_buf = replicate 64 0, md_count = 0, md_finalized = False\<rparr>"

section \<open>One block\<close>

definition FF :: "u32 \<Rightarrow> u32 \<Rightarrow> u32 \<Rightarrow> u32" where "FF b c d = d XOR (b AND (c XOR d))"
definition FG :: "u32 \<Rightarrow> u32 \<Rightarrow> u32 \<Rightarrow> u32" where "FG b c d = FF d b c"
definition FH :: "u32 \<Rightarrow> u32 \<Rightarrow> u32 \<Rightarrow> u32" where "FH b c d = b XOR c XOR d"
definition FI :: "u32 \<Rightarrow> u32 \<Rightarrow> u32 \<Rightarrow> u32" where "FI b c d = c XOR (b OR NOT d)"

text \<open>The macro \<open>OP\<close>, and its uses for each of the registers.\<close>

definition OP :: "(u32 \<Rightarrow> u32 \<Rightarrow> u32 \<Rightarrow> u32) \<Rightarrow> u32 \<Rightarrow> nat \<Rightarrow> u32 \<Rightarrow> u32 \<Rightarrow> u32 \<Rightarrow> u32 \<Rightarrow> u32 \<Rightarrow> u32" where
  "OP f x s T a b c d = (let a = a + (f b c d + x + T); a = rol a s in a + b)"

definition OP_A where "OP_A f x s T = on_A (OP f x s T)"
definition OP_B where "OP_B f x s T = on_B (OP f x s T)"
definition OP_C where "OP_C f x s T = on_C (OP f x s T)"
definition OP_D where "OP_D f x s T = on_D (OP f x s T)"

definition transform_round1 :: "(nat \<Rightarrow> u32) \<Rightarrow> chain \<Rightarrow> chain" where
  "transform_round1 X = run_ops
    [OP_A FF (X 0) 7 0xd76aa478, OP_D FF (X 1) 12 0xe8c7b756,
      OP_C FF (X 2) 17 0x242070db, OP_B FF (X 3) 22 0xc1bdceee,
      OP_A FF (X 4) 7 0xf57c0faf, OP_D FF (X 5) 12 0x4787c62a,
      OP_C FF (X 6) 17 0xa8304613, OP_B FF (X 7) 22 0xfd469501,
      OP_A FF (X 8) 7 0x698098d8, OP_D FF (X 9) 12 0x8b44f7af,
      OP_C FF (X 10) 17 0xffff5bb1, OP_B FF (X 11) 22 0x895cd7be,
      OP_A FF (X 12) 7 0x6b901122, OP_D FF (X 13) 12 0xfd987193,
      OP_C FF (X 14) 17 0xa679438e, OP_B FF (X 15) 22 0x49b40821]"

definition transform_round2 :: "(nat \<Rightarrow> u32) \<Rightarrow> chain \<Rightarrow> chain" where
  "transform_round2 X = run_ops
    [OP_A FG (X 1) 5 0xf61e2562, OP_D FG (X 6) 9 0xc040b340,
      OP_C FG (X 11) 14 0x265e5a51, OP_B FG (X 0) 20 0xe9b6c7aa,
      OP_A FG (X 5) 5 0xd62f105d, OP_D FG (X 10) 9 0x02441453,
      OP_C FG (X 15) 14 0xd8a1e681, OP_B FG (X 4) 20 0xe7d3fbc8,
      OP_A FG (X 9) 5 0x21e1cde6, OP_D FG (X 14) 9 0xc33707d6,
      OP_C FG (X 3) 14 0xf4d50d87, OP_B FG (X 8) 20 0x455a14ed,
      OP_A FG (X 13) 5 0xa9e3e905, OP_D FG (X 2) 9 0xfcefa3f8,
      OP_C FG (X 7) 14 0x676f02d9, OP_B FG (X 12) 20 0x8d2a4c8a]"

definition transform_round3 :: "(nat \<Rightarrow> u32) \<Rightarrow> chain \<Rightarrow> chain" where
  "transform_round3 X = run_ops
    [OP_A FH (X 5) 4 0xfffa3942, OP_D FH (X 8) 11 0x8771f681,
      OP_C FH (X 11) 16 0x6d9d6122, OP_B FH (X 14) 23 0xfde5380c,
      OP_A FH (X 1) 4 0xa4beea44, OP_D FH (X 4) 11 0x4bdecfa9,
      OP_C FH (X 7) 16 0xf6bb4b60, OP_B FH (X 10) 23 0xbebfbc70,
      OP_A FH (X 13) 4 0x289b7ec6, OP_D FH (X 0) 11 0xeaa127fa,
      OP_C FH (X 3) 16 0xd4ef3085, OP_B FH (X 6) 23 0x04881d05,
      OP_A FH (X 9) 4 0xd9d4d039, OP_D FH (X 12) 11 0xe6db99e5,
      OP_C FH (X 15) 16 0x1fa27cf8, OP_B FH (X 2) 23 0xc4ac5665]"

definition transform_round4 :: "(nat \<Rightarrow> u32) \<Rightarrow> chain \<Rightarrow> chain" where
  "transform_round4 X = run_ops
    [OP_A FI (X 0) 6 0xf4292244, OP_D FI (X 7) 10 0x432aff97,
      OP_C FI (X 14) 15 0xab9423a7, OP_B FI (X 5) 21 0xfc93a039,
      OP_A FI (X 12) 6 0x655b59c3, OP_D FI (X 3) 10 0x8f0ccc92,
      OP_C FI (X 10) 15 0xffeff47d, OP_B FI (X 1) 21 0x85845dd1,
      OP_A FI (X 8) 6 0x6fa87e4f, OP_D FI (X 15) 10 0xfe2ce6e0,
      OP_C FI (X 6) 15 0xa3014314, OP_B FI (X 13) 21 0x4e0811a1,
      OP_A FI (X 4) 6 0xf7537e82, OP_D FI (X 11) 10 0xbd3af235,
      OP_C FI (X 2) 15 0x2ad7d2bb, OP_B FI (X 9) 21 0xeb86d391]"

text \<open>\<open>correct_words\<close> are the words of the block on a little-endian host.\<close>

definition transform :: "MD5_CONTEXT \<Rightarrow> u8 list \<Rightarrow> MD5_CONTEXT" where
  "transform ctx data =
     (let X = block_word data;
          (A, B, C, D) = transform_round4 X (transform_round3 X (transform_round2 X (transform_round1 X
            (md_A ctx, md_B ctx, md_C ctx, md_D ctx))))
      in ctx\<lparr>md_A := md_A ctx + A, md_B := md_B ctx + B, md_C := md_C ctx + C, md_D := md_D ctx + D\<rparr>)"

section \<open>Adding bytes\<close>

text \<open>\<open>md5_update(hd, NULL, 0)\<close>.\<close>

definition md5_flush :: "MD5_CONTEXT \<Rightarrow> MD5_CONTEXT" where
  "md5_flush ctx =
     (if md_count ctx = 64
      then (transform ctx (md_buf ctx))\<lparr>md_count := 0, md_nblocks := md_nblocks ctx + 1\<rparr>
      else ctx)"

definition put_byte :: "u8 \<Rightarrow> MD5_CONTEXT \<Rightarrow> MD5_CONTEXT" where
  "put_byte b ctx = ctx\<lparr>md_buf := (md_buf ctx)[md_count ctx := b], md_count := md_count ctx + 1\<rparr>"

fun fill_buf :: "MD5_CONTEXT \<Rightarrow> u8 list \<Rightarrow> MD5_CONTEXT \<times> u8 list" where
  "fill_buf ctx [] = (ctx, [])"
| "fill_buf ctx (b # bs) = (if md_count ctx < 64 then fill_buf (put_byte b ctx) bs else (ctx, b # bs))"

function whole_blocks :: "MD5_CONTEXT \<Rightarrow> u8 list \<Rightarrow> MD5_CONTEXT \<times> u8 list" where
  "whole_blocks ctx bs =
     (if 64 \<le> length bs
      then whole_blocks ((transform ctx (take 64 bs))\<lparr>md_count := 0, md_nblocks := md_nblocks ctx + 1\<rparr>) (drop 64 bs)
      else (ctx, bs))"
  by pat_completeness auto
termination by (relation "measure (\<lambda>(ctx, bs). length bs)") auto

declare whole_blocks.simps [simp del]

definition md5_update :: "MD5_CONTEXT \<Rightarrow> u8 list \<Rightarrow> MD5_CONTEXT" where
  "md5_update ctx bs =
     (let ctx = md5_flush ctx;
          finish = (\<lambda>ctx bs. case whole_blocks ctx bs of (ctx, bs) \<Rightarrow> fst (fill_buf ctx bs))
      in if md_count ctx \<noteq> 0
         then (case fill_buf ctx bs of (ctx, bs) \<Rightarrow>
                 let ctx = md5_flush ctx in if bs = [] then ctx else finish ctx bs)
         else finish ctx bs)"

section \<open>The digest\<close>

text \<open>The 64-bit length as \<open>do_final\<close> computes it from the number of blocks and of bytes.\<close>

definition final_count :: "u32 \<Rightarrow> nat \<Rightarrow> u32 \<times> u32" where
  "final_count nblocks count =
     (let msb = 0; t = nblocks;
          lsb = push_bit 6 t; msb = (if lsb < t then msb + 1 else msb);
          msb = msb + drop_bit 26 t;
          t = lsb; lsb = t + of_nat count; msb = (if lsb < t then msb + 1 else msb);
          t = lsb; lsb = push_bit 3 t; msb = (if lsb < t then msb + 1 else msb);
          msb = msb + drop_bit 29 t
      in (lsb, msb))"

text \<open>\<open>while (hd->count < n) hd->buf[hd->count++] = 0\<close>.\<close>

definition pad_to :: "nat \<Rightarrow> MD5_CONTEXT \<Rightarrow> MD5_CONTEXT" where
  "pad_to n ctx = (put_byte 0 ^^ (n - md_count ctx)) ctx"

text \<open>The registers are written over the buffer, least significant byte first.\<close>

definition store_digest :: "MD5_CONTEXT \<Rightarrow> MD5_CONTEXT" where
  "store_digest ctx =
     ctx\<lparr>md_buf := le32 (md_A ctx) @ le32 (md_B ctx) @ le32 (md_C ctx) @ le32 (md_D ctx) @ drop 16 (md_buf ctx),
       md_finalized := True\<rparr>"

definition do_final :: "MD5_CONTEXT \<Rightarrow> MD5_CONTEXT" where
  "do_final ctx =
     (let ctx = md5_flush ctx;
          (lsb, msb) = final_count (md_nblocks ctx) (md_count ctx);
          ctx = (if md_count ctx < 56 then pad_to 56 (put_byte 0x80 ctx)
                else let ctx = md5_flush (pad_to 64 (put_byte 0x80 ctx))
                     in ctx\<lparr>md_buf := replicate 56 0 @ drop 56 (md_buf ctx)\<rparr>);
          ctx = ctx\<lparr>md_buf := take 56 (md_buf ctx) @
                 [ucast lsb, ucast (drop_bit 8 lsb), ucast (drop_bit 16 lsb), ucast (drop_bit 24 lsb),
                  ucast msb, ucast (drop_bit 8 msb), ucast (drop_bit 16 msb), ucast (drop_bit 24 msb)]\<rparr>
      in store_digest (transform ctx (md_buf ctx)))"

definition md5_final :: "MD5_CONTEXT \<Rightarrow> u8 list \<times> MD5_CONTEXT" where
  "md5_final ctx = (let ctx = (if md_finalized ctx then ctx else do_final ctx) in (take 16 (md_buf ctx), ctx))"

text \<open>The digest in characters, five bits each.\<close>

definition digest_chars :: "u8 list" where
  "digest_chars = map of_nat ([97..<123] @ [50..<56])"

definition digest_char :: "u8 list \<Rightarrow> nat \<Rightarrow> u8" where
  "digest_char buf n =
     (let first_char = n div 8;
          val = unat (buf ! first_char) div 2 ^ (n mod 8);
          val = (if n + 8 > (first_char + 1) * 8 \<and> first_char < 15
                 then val + unat (buf ! (first_char + 1)) * 2 ^ (8 - n mod 8) else val)
      in digest_chars ! (val mod 32))"

definition md5_final_text :: "MD5_CONTEXT \<Rightarrow> u8 list \<times> MD5_CONTEXT" where
  "md5_final_text ctx =
     (let ctx = (if md_finalized ctx then ctx else do_final ctx)
      in (map (\<lambda>i. digest_char (md_buf ctx) (5 * i)) [0..<26] @ [0], ctx))"

section \<open>The transformation is that of the algorithm\<close>

lemma rol_word: "0 < n \<Longrightarrow> n < 32 \<Longrightarrow> rol x n = word_rotl n x"
  by (simp add: rol_def rol_rotl)

lemma FF_F: "FF = md5_F"
  by (intro ext bit_word_eqI) (auto simp: FF_def md5_F_def bit_simps)

lemma FG_G: "FG = md5_G"
  by (intro ext bit_word_eqI) (auto simp: FG_def FF_def md5_G_def bit_simps)

lemma FH_H: "FH = md5_H" and FI_I: "FI = md5_I"
  by (simp_all add: fun_eq_iff FH_def md5_H_def FI_def md5_I_def)

lemma OP_op: "0 < s \<Longrightarrow> s < 32 \<Longrightarrow> OP f x s T = md5_op f x s T"
  by (simp add: fun_eq_iff OP_def md5_op_def rol_word Let_def add.commute add.left_commute)

lemmas OPs = OP_A_def OP_B_def OP_C_def OP_D_def OP_op FF_F FG_G FH_H FI_I

lemma transform_rounds:
  "transform_round1 X h = fold (md5_step md5_F X) (md5_rows (\<lambda>i. i) [7, 12, 17, 22] md5_T) h"
  "transform_round2 X h = fold (md5_step md5_G X) (md5_rows (\<lambda>i. 1 + 5 * i) [5, 9, 14, 20] (drop 16 md5_T)) h"
  "transform_round3 X h = fold (md5_step md5_H X) (md5_rows (\<lambda>i. 5 + 3 * i) [4, 11, 16, 23] (drop 32 md5_T)) h"
  "transform_round4 X h = fold (md5_step md5_I X) (md5_rows (\<lambda>i. 7 * i) [6, 10, 15, 21] (drop 48 md5_T)) h"
  unfolding rows1 rows2 rows3 rows4
  by (subst in_place_steps; simp add: transform_round1_def transform_round2_def transform_round3_def transform_round4_def OPs)+

definition chain_of :: "MD5_CONTEXT \<Rightarrow> chain" where
  "chain_of ctx = (md_A ctx, md_B ctx, md_C ctx, md_D ctx)"

lemma transform_block [simp]:
  "chain_of (transform ctx data) = md5_block (chain_of ctx) data" "md_nblocks (transform ctx data) = md_nblocks ctx"
  "md_buf (transform ctx data) = md_buf ctx" "md_count (transform ctx data) = md_count ctx"
  "md_finalized (transform ctx data) = md_finalized ctx"
  by (simp_all add: transform_def chain_of_def md5_block_def transform_rounds Let_def add_chain_def split: prod.split)

lemma chain_of_simps [simp]:
  "chain_of (ctx\<lparr>md_nblocks := x\<rparr>) = chain_of ctx" "chain_of (ctx\<lparr>md_buf := b\<rparr>) = chain_of ctx"
  "chain_of (ctx\<lparr>md_count := c\<rparr>) = chain_of ctx" "chain_of (ctx\<lparr>md_finalized := f\<rparr>) = chain_of ctx"
  by (simp_all add: chain_of_def)

section \<open>What a context holds\<close>

text \<open>
  The context has seen the bytes \<open>m\<close>: its whole blocks are in the registers, except perhaps the
  last one, and the rest is in the buffer.
\<close>

definition ctx_holds :: "MD5_CONTEXT \<Rightarrow> u8 list \<Rightarrow> bool" where
  "ctx_holds ctx m \<longleftrightarrow> \<not> md_finalized ctx \<and> length (md_buf ctx) = 64 \<and> md_count ctx \<le> 64 \<and>
     (\<exists>n. length m = 64 * n + md_count ctx \<and> md_nblocks ctx = of_nat n
        \<and> chain_of ctx = md5_blocks md5_start (take (64 * n) m) \<and> take (md_count ctx) (md_buf ctx) = drop (64 * n) m)"

lemma init_holds: "ctx_holds md5_init []"
  by (simp add: ctx_holds_def md5_init_def chain_of_def md5_start_def)

lemma put_byte_holds:
  assumes "ctx_holds ctx m" "md_count ctx < 64" shows "ctx_holds (put_byte b ctx) (m @ [b])"
proof -
  from assms obtain n where "length m = 64 * n + md_count ctx" "md_nblocks ctx = of_nat n"
    "chain_of ctx = md5_blocks md5_start (take (64 * n) m)" "take (md_count ctx) (md_buf ctx) = drop (64 * n) m"
    by (auto simp: ctx_holds_def)
  with assms show ?thesis
    unfolding ctx_holds_def by (auto simp: put_byte_def take_Suc_conv_app_nth intro!: exI [of _ n])
qed

lemma fill_buf_holds:
  "ctx_holds ctx m \<Longrightarrow> fill_buf ctx bs = (ctx', r) \<Longrightarrow>
    \<exists>xs. bs = xs @ r \<and> ctx_holds ctx' (m @ xs) \<and> (r = [] \<or> md_count ctx' = 64)"
proof (induction ctx bs arbitrary: m rule: fill_buf.induct)
  case (2 ctx b bs)
  show ?case
  proof (cases "md_count ctx < 64")
    case True
    from 2(1) [OF True put_byte_holds [OF 2(2) True]] 2(3) True obtain xs
      where "bs = xs @ r" "ctx_holds ctx' ((m @ [b]) @ xs)" "r = [] \<or> md_count ctx' = 64" by auto
    then show ?thesis by (intro exI [of _ "b # xs"]) simp
  next
    case False
    with 2 show ?thesis by (auto simp: ctx_holds_def)
  qed
qed simp

lemma flush_holds:
  assumes "ctx_holds ctx m" shows "ctx_holds (md5_flush ctx) m \<and> md_count (md5_flush ctx) < 64"
proof (cases "md_count ctx = 64")
  case True
  from assms obtain n where n: "length m = 64 * n + md_count ctx" "md_nblocks ctx = of_nat n"
    "chain_of ctx = md5_blocks md5_start (take (64 * n) m)" "take (md_count ctx) (md_buf ctx) = drop (64 * n) m"
    by (auto simp: ctx_holds_def)
  have buf: "md_buf ctx = drop (64 * n) m" using n(4) assms True by (simp add: ctx_holds_def)
  have "md5_blocks md5_start (take (64 * n) m @ drop (64 * n) m) = md5_block (md5_blocks md5_start (take (64 * n) m)) (drop (64 * n) m)"
    by (rule md5_blocks_snoc) (use n(1) True in simp_all)
  then show ?thesis
    using True assms n buf unfolding ctx_holds_def by (auto simp: md5_flush_def intro!: exI [of _ "n + 1"])
next
  case False
  with assms show ?thesis by (auto simp: md5_flush_def ctx_holds_def)
qed

lemma whole_blocks_holds:
  "ctx_holds ctx m \<Longrightarrow> md_count ctx = 0 \<Longrightarrow> whole_blocks ctx bs = (ctx', r) \<Longrightarrow>
    \<exists>xs. bs = xs @ r \<and> ctx_holds ctx' (m @ xs) \<and> length r < 64"
proof (induction ctx bs arbitrary: m rule: whole_blocks.induct)
  case (1 ctx bs)
  show ?case
  proof (cases "64 \<le> length bs")
    case True
    let ?ctx = "(transform ctx (take 64 bs))\<lparr>md_count := 0, md_nblocks := md_nblocks ctx + 1\<rparr>"
    from 1(2,3) obtain n where n: "length m = 64 * n" "md_nblocks ctx = of_nat n" "chain_of ctx = md5_blocks md5_start m"
      by (auto simp: ctx_holds_def)
    have "md5_blocks md5_start (m @ take 64 bs) = md5_block (md5_blocks md5_start m) (take 64 bs)"
      by (rule md5_blocks_snoc) (use n(1) True in simp_all)
    then have "ctx_holds ?ctx (m @ take 64 bs)"
      using 1(2) n True unfolding ctx_holds_def by (auto intro!: exI [of _ "n + 1"])
    from 1(1) [OF True this] 1(4) True obtain xs where "drop 64 bs = xs @ r" "ctx_holds ctx' ((m @ take 64 bs) @ xs)" "length r < 64"
      by (auto simp: whole_blocks.simps [of ctx bs])
    then show ?thesis by (intro exI [of _ "take 64 bs @ xs"]) (metis append.assoc append_take_drop_id)
  next
    case False
    with 1 show ?thesis by (auto simp: whole_blocks.simps [of ctx bs])
  qed
qed

lemma fill_rest:
  assumes "ctx_holds ctx m" "md_count ctx + length bs < 64" shows "snd (fill_buf ctx bs) = []"
  using assms(2)
proof (induction ctx bs rule: fill_buf.induct)
  case (2 ctx b bs)
  then show ?case by (simp add: put_byte_def)
qed simp

lemma finish_update_holds:
  assumes "ctx_holds ctx m" "md_count ctx = 0"
  shows "ctx_holds (case whole_blocks ctx bs of (ctx, bs) \<Rightarrow> fst (fill_buf ctx bs)) (m @ bs)"
proof -
  obtain ctx' r where w: "whole_blocks ctx bs = (ctx', r)" by fastforce
  from whole_blocks_holds [OF assms w] obtain xs where x: "bs = xs @ r" "ctx_holds ctx' (m @ xs)" "length r < 64" by blast
  have "md_count ctx' = 0"
    using w assms(2) by (induction ctx bs rule: whole_blocks.induct) (auto simp: whole_blocks.simps split: if_splits)
  then have "snd (fill_buf ctx' r) = []" using fill_rest [OF x(2)] x(3) by simp
  then obtain ctx'' where f: "fill_buf ctx' r = (ctx'', [])" by (cases "fill_buf ctx' r") simp
  from fill_buf_holds [OF x(2) f] x w f show ?thesis by simp
qed

lemma md5_update_holds:
  assumes "ctx_holds ctx m" shows "ctx_holds (md5_update ctx bs) (m @ bs)"
proof -
  from flush_holds [OF assms] have F: "ctx_holds (md5_flush ctx) m" "md_count (md5_flush ctx) < 64" by auto
  show ?thesis
  proof (cases "md_count (md5_flush ctx) = 0")
    case True
    from finish_update_holds [OF F(1) True, of bs] True show ?thesis by (simp add: md5_update_def Let_def)
  next
    case False
    obtain ctx' r where f: "fill_buf (md5_flush ctx) bs = (ctx', r)" by fastforce
    from fill_buf_holds [OF F(1) f] obtain xs where x: "bs = xs @ r" "ctx_holds ctx' (m @ xs)" "r = [] \<or> md_count ctx' = 64" by blast
    from flush_holds [OF x(2)] have G: "ctx_holds (md5_flush ctx') (m @ xs)" by blast
    show ?thesis
    proof (cases "r = []")
      case True
      with False f x G show ?thesis by (simp add: md5_update_def Let_def)
    next
      case rest: False
      with x(3) have "md_count (md5_flush ctx') = 0" by (simp add: md5_flush_def)
      from finish_update_holds [OF G this, of r] False f x rest show ?thesis by (simp add: md5_update_def Let_def)
    qed
  qed
qed

section \<open>The digest\<close>

lemma final_count_small:
  assumes "64 * n + c < 2 ^ 29"
  shows "final_count (of_nat n) c = (of_nat (8 * (64 * n + c)), 0)"
proof -
  have n: "n < 2 ^ 23" using assms by simp
  have un: "unat (of_nat n :: u32) = n" using n by (intro of_nat_inverse [OF refl]) simp
  have l1: "push_bit 6 (of_nat n :: u32) = of_nat (64 * n)" by (simp add: push_bit_eq_mult)
  have u1: "unat (of_nat (64 * n) :: u32) = 64 * n" using n by (intro of_nat_inverse [OF refl]) simp
  have c1: "\<not> (of_nat (64 * n) :: u32) < of_nat n" using un u1 by (simp add: word_less_nat_alt)
  have d1: "drop_bit 26 (of_nat n :: u32) = 0" 
    unfolding word_unat_eq_iff unat_drop_bit_eq un using n by (simp add: drop_bit_eq_div)
  have l2: "(of_nat (64 * n) :: u32) + of_nat c = of_nat (64 * n + c)" by simp
  have u2: "unat (of_nat (64 * n + c) :: u32) = 64 * n + c" using assms by (intro of_nat_inverse [OF refl]) simp
  have c2: "\<not> (of_nat (64 * n + c) :: u32) < of_nat (64 * n)" using u2 u1 by (simp add: word_less_nat_alt)
  have l3: "push_bit 3 (of_nat (64 * n + c) :: u32) = of_nat (8 * (64 * n + c))" by (simp add: push_bit_eq_mult)
  have u3: "unat (of_nat (8 * (64 * n + c)) :: u32) = 8 * (64 * n + c)" using assms by (intro of_nat_inverse [OF refl]) simp
  have c3: "\<not> (of_nat (8 * (64 * n + c)) :: u32) < of_nat (64 * n + c)" unfolding word_less_nat_alt u2 u3 by simp
  have d3: "drop_bit 29 (of_nat (64 * n + c) :: u32) = 0"
    unfolding word_unat_eq_iff unat_drop_bit_eq u2 using assms by (simp add: drop_bit_eq_div)
  show ?thesis
    unfolding final_count_def Let_def l1 l2 l3 d1 d3 using c1 c2 c3 by simp
qed

lemma funpow_put_byte:
  assumes "length (md_buf ctx) = 64" "md_count ctx + k \<le> 64"
  shows "(put_byte 0 ^^ k) ctx = ctx\<lparr>md_buf := take (md_count ctx) (md_buf ctx) @ replicate k 0 @ drop (md_count ctx + k) (md_buf ctx),
     md_count := md_count ctx + k\<rparr>"
  using assms(2)
proof (induction k)
  case (Suc k)
  then have c: "md_count ctx + k < 64" by simp
  let ?c = "md_count ctx" and ?b = "md_buf ctx"
  have "(take ?c ?b @ replicate k 0 @ drop (?c + k) ?b)[?c + k := 0] = take ?c ?b @ replicate (Suc k) 0 @ drop (?c + Suc k) ?b"
  proof -
    have "drop (?c + k) ?b = ?b ! (?c + k) # drop (?c + Suc k) ?b" using c assms(1) by (simp add: Cons_nth_drop_Suc)
    then show ?thesis using c assms(1) by (simp add: list_update_append replicate_app_Cons_same)
  qed
  with Suc c show ?case by (simp add: put_byte_def)
qed simp

lemma length_md5_length [simp]: "length (md5_length n) = 8"
  by (simp add: md5_length_def)

text \<open>The blocks \<open>do_final\<close> makes of the buffer are the rest of the message with its padding.\<close>

lemma do_final_digest:
  assumes h: "ctx_holds ctx m" and len: "length m < 2 ^ 29"
  shows "take 16 (md_buf (do_final ctx)) = md5 m \<and> md_finalized (do_final ctx)"
proof -
  define c1 where "c1 = md5_flush ctx"
  from flush_holds [OF h] have F: "ctx_holds c1 m" "md_count c1 < 64" by (auto simp: c1_def)
  from F(1) obtain n where n: "length m = 64 * n + md_count c1" "md_nblocks c1 = of_nat n" "length (md_buf c1) = 64"
    "chain_of c1 = md5_blocks md5_start (take (64 * n) m)" "take (md_count c1) (md_buf c1) = drop (64 * n) m"
    by (auto simp: ctx_holds_def)
  let ?c = "md_count c1" and ?b = "md_buf c1" and ?lm = "of_nat (8 * length m) :: u32"
  have fc: "final_count (md_nblocks c1) ?c = (?lm, 0)"
    using final_count_small [of n ?c] len n(1,2) by simp
  have r: "length m mod 64 = ?c" using n(1) F(2) by simp
  have ml: "md5_length (length m) = le32 ?lm @ le32 0"
    using len by (simp add: md5_length_def)
  let ?t = "take (64 * n) m" and ?d = "drop (64 * n) m" and ?pad = "md5_padding (length m) @ md5_length (length m)"
  have lt: "64 dvd length ?t" using n(1) by simp
  have pm: "md5_blocks md5_start (m @ ?pad) = md5_blocks (chain_of c1) (?d @ ?pad)"
  proof -
    have "m @ ?pad = ?t @ (?d @ ?pad)" by (simp only: append.assoc [symmetric] append_take_drop_id)
    then show ?thesis using md5_blocks_append [OF lt, of md5_start "?d @ ?pad"] n(4) by (simp only:)
  qed
  have put: "put_byte 0x80 c1 = c1\<lparr>md_buf := (take ?c ?b @ [0x80] @ drop (?c + 1) ?b), md_count := ?c + 1\<rparr>"
    using F(2) n(3) by (simp add: put_byte_def upd_conv_take_nth_drop)
  have lput: "length (take ?c ?b @ [0x80] @ drop (?c + 1) ?b) = 64" using F(2) n(3) by simp
  have pad: "pad_to k (put_byte 0x80 c1) = c1\<lparr>md_buf := take ?c ?b @ 0x80 # replicate (k - (?c + 1)) 0 @ drop k ?b, md_count := k\<rparr>"
    if "?c < k" "k \<le> 64" for k
  proof -
    have k: "k - ?c = Suc (k - Suc ?c)" "k - Suc ?c + Suc ?c = k" using that(1) by simp_all
    show ?thesis unfolding pad_to_def put using funpow_put_byte [of "c1\<lparr>md_buf := (take ?c ?b @ [0x80] @ drop (?c + 1) ?b), md_count := ?c + 1\<rparr>" "k - (?c + 1)"]
      lput that F(2) n(3) k by simp
  qed
  have tail: "[ucast ?lm, ucast (drop_bit 8 ?lm), ucast (drop_bit 16 ?lm), ucast (drop_bit 24 ?lm),
      ucast (0 :: u32), ucast (drop_bit 8 (0 :: u32)), ucast (drop_bit 16 (0 :: u32)), ucast (drop_bit 24 (0 :: u32))]
    = md5_length (length m)"
    by (simp add: ml le32_def)
  have "\<exists>c2. do_final ctx = store_digest c2 \<and> chain_of c2 = md5_blocks (chain_of c1) (?d @ ?pad)"
  proof (cases "?c < 56")
    case True
    then have z: "(119 - length m mod 64) mod 64 = 55 - ?c" unfolding r by (subst zero_padding) simp_all
    let ?w = "c1\<lparr>md_count := 56, md_buf := ?d @ 0x80 # replicate (55 - ?c) 0 @ md5_length (length m)\<rparr>"
    have s56: "56 - ?c = Suc (55 - ?c)" using True by simp
    have w: "take 56 (md_buf (pad_to 56 (put_byte 0x80 c1))) = ?d @ 0x80 # replicate (55 - ?c) 0"
      using pad [of 56] True n(1,3) s56 by (simp add: n(5))
    have "do_final ctx = store_digest (transform ?w (md_buf ?w))"
      unfolding do_final_def c1_def [symmetric] Let_def fc prod.case if_P [OF True] w tail using pad [of 56] True by simp
    moreover have "?d @ ?pad = md_buf ?w" by (simp add: md5_padding_def z)
    moreover have "md5_blocks (chain_of c1) (md_buf ?w) = md5_block (chain_of c1) (md_buf ?w)"
      by (rule md5_blocks_one) (use True n(1) in simp)
    ultimately show ?thesis by (intro exI [of _ "transform ?w (md_buf ?w)"] conjI) simp_all
  next
    case False
    then have z: "(119 - length m mod 64) mod 64 = 63 - ?c + 56" unfolding r using F(2) by (subst zero_padding) simp_all
    let ?u = "c1\<lparr>md_buf := ?d @ 0x80 # replicate (63 - ?c) 0, md_count := 64\<rparr>"
    have u: "pad_to 64 (put_byte 0x80 c1) = ?u" using pad [of 64] F(2) n(3) by (simp add: n(5))
    let ?v = "md5_flush ?u"
    have v: "?v = (transform ?u (md_buf ?u))\<lparr>md_count := 0, md_nblocks := md_nblocks c1 + 1\<rparr>" by (simp add: md5_flush_def)
    let ?w = "?v\<lparr>md_buf := replicate 56 0 @ md5_length (length m)\<rparr>"
    have lu: "length (md_buf ?u) = 64" using False F(2) n(1) by simp
    have "do_final ctx = store_digest (transform ?w (md_buf ?w))"
      unfolding do_final_def c1_def [symmetric] Let_def fc prod.case if_not_P [OF False] u tail by simp
    moreover have "?d @ ?pad = md_buf ?u @ md_buf ?w"
      by (simp add: md5_padding_def z replicate_add del: replicate_add [symmetric])
    moreover have "md5_blocks (chain_of c1) (md_buf ?u @ md_buf ?w) = md5_block (md5_block (chain_of c1) (md_buf ?u)) (md_buf ?w)"
      using md5_blocks_append [of "md_buf ?u" "chain_of c1" "md_buf ?w"] lu md5_blocks_one [OF lu] md5_blocks_one [of "md_buf ?w"] by simp
    moreover have "chain_of (transform ?w (md_buf ?w)) = md5_block (md5_block (chain_of c1) (md_buf ?u)) (md_buf ?w)"
      unfolding v by simp
    ultimately show ?thesis by (intro exI [of _ "transform ?w (md_buf ?w)"] conjI) simp_all
  qed
  then obtain c2 where c2: "do_final ctx = store_digest c2" "chain_of c2 = md5_blocks md5_start (m @ ?pad)"
    unfolding pm by blast
  have "take 16 (md_buf (store_digest c2)) = chain_bytes (chain_of c2)"
    by (simp add: store_digest_def chain_of_def chain_bytes_def)
  then show ?thesis by (simp add: c2 md5_def) (simp add: store_digest_def)
qed

interpretation gnu: hash_stream md5_init md5_update "\<lambda>c. fst (md5_final c)" md5 ctx_holds "\<lambda>bs. True" "\<lambda>m. length m < 2 ^ 29"
proof (unfold_locales, rule init_holds, erule md5_update_holds)
  fix ctx m assume h: "ctx_holds ctx m" "length m < 2 ^ 29"
  then have "\<not> md_finalized ctx" by (simp add: ctx_holds_def)
  then show "fst (md5_final ctx) = md5 m" using do_final_digest [OF h] by (simp add: md5_final_def)
qed

text \<open>A second call of \<open>md5_final\<close> gives the digest again.\<close>

lemma final_again:
  assumes "md_finalized ctx \<or> ctx_holds ctx m \<and> length m < 2 ^ 29"
  shows "md5_final (snd (md5_final ctx)) = md5_final ctx"
  using assms do_final_digest [of ctx m] by (auto simp: md5_final_def)

lemma digest_chars_inj: "i < 32 \<Longrightarrow> j < 32 \<Longrightarrow> digest_chars ! i = digest_chars ! j \<longleftrightarrow> i = j"
proof (rule nth_eq_iff_index_eq)
  show "distinct digest_chars" by code_simp
qed (simp_all add: digest_chars_def)

lemma digest_char_bits:
  assumes "digest_char d b = digest_char d' b" "i < 5" "b + i < 128"
  shows "digest_bit d (b + i) = digest_bit d' (b + i)"
proof -
  define val where "val e = (if b + 8 > (b div 8 + 1) * 8 \<and> b div 8 < 15
      then unat (e ! (b div 8)) div 2 ^ (b mod 8) + unat (e ! (b div 8 + 1)) * 2 ^ (8 - b mod 8)
      else unat (e ! (b div 8)) div 2 ^ (b mod 8))" for e :: "u8 list"
  have "digest_char e b = digest_chars ! (val e mod 32)" for e by (simp add: digest_char_def val_def Let_def)
  with assms(1) have "val d mod 32 = val d' mod 32" by (simp add: digest_chars_inj)
  then have "take_bit 5 (val d) = take_bit 5 (val d')" by (simp add: take_bit_eq_mod)
  with assms(2) have "bit (val d) i = bit (val d') i" by (auto simp: bit_eq_iff bit_take_bit_iff)
  moreover have "bit (val e) i = digest_bit e (b + i)" for e
    by (rule group_bits [OF _ assms(3) val_def]) (use assms(2) in simp)
  ultimately show ?thesis by simp
qed

text \<open>The 26 characters of \<open>md5_final_text\<close> determine the digest.\<close>

lemma final_text_inj:
  assumes "md_finalized ctx" "md_finalized ctx'" "fst (md5_final_text ctx) = fst (md5_final_text ctx')"
    "length (md_buf ctx) = 64" "length (md_buf ctx') = 64"
  shows "fst (md5_final ctx) = fst (md5_final ctx')"
proof -
  have c: "digest_char (md_buf ctx) (5 * i) = digest_char (md_buf ctx') (5 * i)" if "i < 26" for i
    using assms(1-3) that by (simp add: md5_final_text_def)
  have "digest_bit (md_buf ctx) j = digest_bit (md_buf ctx') j" if j: "j < 128" for j
  proof -
    have q: "j = 5 * (j div 5) + j mod 5" "j div 5 < 26" "j mod 5 < 5" using j by simp_all
    with digest_char_bits [OF c [OF q(2)] q(3)] j show ?thesis by simp
  qed
  then have "take 16 (md_buf ctx) = take 16 (md_buf ctx')"
    by (intro digest_eqI) (auto simp: digest_bit_def assms(4,5))
  then show ?thesis using assms(1,2) by (simp add: md5_final_def)
qed

section \<open>Properties\<close>

text \<open>
  C18 Whatever chunks a message of less than \<open>2 ^ 29\<close> bytes is given in, \<open>md5_init\<close>,
  \<open>md5_update\<close> for every chunk and \<open>md5_final\<close> compute the MD5 digest of the message.
\<close>
theorem gnu_md5:
  assumes "length (concat chunks) < 2 ^ 29"
  shows "fst (md5_final (fold (\<lambda>bs ctx. md5_update ctx bs) chunks md5_init)) = md5 (concat chunks)"
  using assms by (intro gnu.chunks_hash) simp_all

theorem gnu_md5_witness:
  "fst (md5_final (fold (\<lambda>bs ctx. md5_update ctx bs) [[], [0x61, 0x62], [0x63]] md5_init)) = md5 [0x61, 0x62, 0x63]"
  using gnu_md5 [of "[[], [0x61, 0x62], [0x63]]"] by simp

text \<open>
  From \<open>2 ^ 29\<close> bytes on the length that \<open>do_final\<close> stores is wrong: \<open>2 ^ 23\<close> blocks are \<open>2 ^ 32\<close>
  bits, and the high word becomes 2.
\<close>

lemma final_count_wrong: "final_count (2 ^ 23) 0 = (0, 2)"
  by code_simp

end
