(* ===== verification/Md5_Click.thy ===== *)
theory Md5_Click
  imports Md5_Reference
begin

text \<open>
  P2P/md5.c: the state with its 64-bit count of bits, \<open>md5_process\<close>, \<open>md5_append\<close>, \<open>md5_finish\<close>
  and the text of a digest.  \<open>state_holds\<close> is its invariant.
\<close>

section \<open>The state\<close>

record md5_state =
  count0 :: u32
  count1 :: u32
  abcd :: chain
  part :: "u8 list"

definition T_MASK :: u32 where "T_MASK = NOT 0"

definition T_table :: "u32 list" where
  "T_table =
    [T_MASK XOR 0x28955b87, T_MASK XOR 0x173848a9, 0x242070db, T_MASK XOR 0x3e423111,
     T_MASK XOR 0x0a83f050, 0x4787c62a, T_MASK XOR 0x57cfb9ec, T_MASK XOR 0x02b96afe,
     0x698098d8, T_MASK XOR 0x74bb0850, T_MASK XOR 0x0000a44e, T_MASK XOR 0x76a32841,
     0x6b901122, T_MASK XOR 0x02678e6c, T_MASK XOR 0x5986bc71, 0x49b40821,
     T_MASK XOR 0x09e1da9d, T_MASK XOR 0x3fbf4cbf, 0x265e5a51, T_MASK XOR 0x16493855,
     T_MASK XOR 0x29d0efa2, 0x02441453, T_MASK XOR 0x275e197e, T_MASK XOR 0x182c0437,
     0x21e1cde6, T_MASK XOR 0x3cc8f829, T_MASK XOR 0x0b2af278, 0x455a14ed,
     T_MASK XOR 0x561c16fa, T_MASK XOR 0x03105c07, 0x676f02d9, T_MASK XOR 0x72d5b375,
     T_MASK XOR 0x0005c6bd, T_MASK XOR 0x788e097e, 0x6d9d6122, T_MASK XOR 0x021ac7f3,
     T_MASK XOR 0x5b4115bb, 0x4bdecfa9, T_MASK XOR 0x0944b49f, T_MASK XOR 0x4140438f,
     0x289b7ec6, T_MASK XOR 0x155ed805, T_MASK XOR 0x2b10cf7a, 0x04881d05,
     T_MASK XOR 0x262b2fc6, T_MASK XOR 0x1924661a, 0x1fa27cf8, T_MASK XOR 0x3b53a99a,
     T_MASK XOR 0x0bd6ddbb, 0x432aff97, T_MASK XOR 0x546bdc58, T_MASK XOR 0x036c5fc6,
     0x655b59c3, T_MASK XOR 0x70f3336d, T_MASK XOR 0x00100b82, T_MASK XOR 0x7a7ba22e,
     0x6fa87e4f, T_MASK XOR 0x01d3191f, T_MASK XOR 0x5cfebceb, 0x4e0811a1,
     T_MASK XOR 0x08ac817d, T_MASK XOR 0x42c50dca, 0x2ad7d2bb, T_MASK XOR 0x14792c6e]"


definition T :: "nat \<Rightarrow> u32" where "T i = T_table ! (i - 1)"

text \<open>\<open>buf\<close> is what the memory held before, here zeros.\<close>

definition md5_init_click :: md5_state where
  "md5_init_click = \<lparr>count0 = 0, count1 = 0,
     abcd = (0x67452301, T_MASK XOR 0x10325476, T_MASK XOR 0x67452301, 0x10325476), part = replicate 64 0\<rparr>"

section \<open>One block\<close>

definition F_click :: "u32 \<Rightarrow> u32 \<Rightarrow> u32 \<Rightarrow> u32" where "F_click x y z = (x AND y) OR (NOT x AND z)"
definition G_click :: "u32 \<Rightarrow> u32 \<Rightarrow> u32 \<Rightarrow> u32" where "G_click x y z = (x AND z) OR (y AND NOT z)"
definition H_click :: "u32 \<Rightarrow> u32 \<Rightarrow> u32 \<Rightarrow> u32" where "H_click x y z = x XOR y XOR z"
definition I_click :: "u32 \<Rightarrow> u32 \<Rightarrow> u32 \<Rightarrow> u32" where "I_click x y z = y XOR (x OR NOT z)"

definition ROTATE_LEFT :: "u32 \<Rightarrow> nat \<Rightarrow> u32" where
  "ROTATE_LEFT x n = push_bit n x OR drop_bit (32 - n) x"

text \<open>The macro \<open>SET\<close>, and its uses for each of the registers.\<close>

definition SET :: "(u32 \<Rightarrow> u32 \<Rightarrow> u32 \<Rightarrow> u32) \<Rightarrow> u32 \<Rightarrow> nat \<Rightarrow> u32 \<Rightarrow> u32 \<Rightarrow> u32 \<Rightarrow> u32 \<Rightarrow> u32 \<Rightarrow> u32" where
  "SET f x s Ti a b c d = (let t = a + f b c d + x + Ti in ROTATE_LEFT t s + b)"

definition SET_a where "SET_a f x s Ti = on_A (SET f x s Ti)"
definition SET_b where "SET_b f x s Ti = on_B (SET f x s Ti)"
definition SET_c where "SET_c f x s Ti = on_C (SET f x s Ti)"
definition SET_d where "SET_d f x s Ti = on_D (SET f x s Ti)"

definition process_round1 :: "(nat \<Rightarrow> u32) \<Rightarrow> chain \<Rightarrow> chain" where
  "process_round1 X = run_ops
    [SET_a F_click (X 0) 7 (T 1), SET_d F_click (X 1) 12 (T 2),
      SET_c F_click (X 2) 17 (T 3), SET_b F_click (X 3) 22 (T 4),
      SET_a F_click (X 4) 7 (T 5), SET_d F_click (X 5) 12 (T 6),
      SET_c F_click (X 6) 17 (T 7), SET_b F_click (X 7) 22 (T 8),
      SET_a F_click (X 8) 7 (T 9), SET_d F_click (X 9) 12 (T 10),
      SET_c F_click (X 10) 17 (T 11), SET_b F_click (X 11) 22 (T 12),
      SET_a F_click (X 12) 7 (T 13), SET_d F_click (X 13) 12 (T 14),
      SET_c F_click (X 14) 17 (T 15), SET_b F_click (X 15) 22 (T 16)]"

definition process_round2 :: "(nat \<Rightarrow> u32) \<Rightarrow> chain \<Rightarrow> chain" where
  "process_round2 X = run_ops
    [SET_a G_click (X 1) 5 (T 17), SET_d G_click (X 6) 9 (T 18),
      SET_c G_click (X 11) 14 (T 19), SET_b G_click (X 0) 20 (T 20),
      SET_a G_click (X 5) 5 (T 21), SET_d G_click (X 10) 9 (T 22),
      SET_c G_click (X 15) 14 (T 23), SET_b G_click (X 4) 20 (T 24),
      SET_a G_click (X 9) 5 (T 25), SET_d G_click (X 14) 9 (T 26),
      SET_c G_click (X 3) 14 (T 27), SET_b G_click (X 8) 20 (T 28),
      SET_a G_click (X 13) 5 (T 29), SET_d G_click (X 2) 9 (T 30),
      SET_c G_click (X 7) 14 (T 31), SET_b G_click (X 12) 20 (T 32)]"

definition process_round3 :: "(nat \<Rightarrow> u32) \<Rightarrow> chain \<Rightarrow> chain" where
  "process_round3 X = run_ops
    [SET_a H_click (X 5) 4 (T 33), SET_d H_click (X 8) 11 (T 34),
      SET_c H_click (X 11) 16 (T 35), SET_b H_click (X 14) 23 (T 36),
      SET_a H_click (X 1) 4 (T 37), SET_d H_click (X 4) 11 (T 38),
      SET_c H_click (X 7) 16 (T 39), SET_b H_click (X 10) 23 (T 40),
      SET_a H_click (X 13) 4 (T 41), SET_d H_click (X 0) 11 (T 42),
      SET_c H_click (X 3) 16 (T 43), SET_b H_click (X 6) 23 (T 44),
      SET_a H_click (X 9) 4 (T 45), SET_d H_click (X 12) 11 (T 46),
      SET_c H_click (X 15) 16 (T 47), SET_b H_click (X 2) 23 (T 48)]"

definition process_round4 :: "(nat \<Rightarrow> u32) \<Rightarrow> chain \<Rightarrow> chain" where
  "process_round4 X = run_ops
    [SET_a I_click (X 0) 6 (T 49), SET_d I_click (X 7) 10 (T 50),
      SET_c I_click (X 14) 15 (T 51), SET_b I_click (X 5) 21 (T 52),
      SET_a I_click (X 12) 6 (T 53), SET_d I_click (X 3) 10 (T 54),
      SET_c I_click (X 10) 15 (T 55), SET_b I_click (X 1) 21 (T 56),
      SET_a I_click (X 8) 6 (T 57), SET_d I_click (X 15) 10 (T 58),
      SET_c I_click (X 6) 15 (T 59), SET_b I_click (X 13) 21 (T 60),
      SET_a I_click (X 4) 6 (T 61), SET_d I_click (X 11) 10 (T 62),
      SET_c I_click (X 2) 15 (T 63), SET_b I_click (X 9) 21 (T 64)]"

text \<open>The words \<open>X\<close> are the same on every host: read in place, copied, or put together from bytes.\<close>

definition md5_process :: "md5_state \<Rightarrow> u8 list \<Rightarrow> md5_state" where
  "md5_process pms data =
     (let X = block_word data;
          (a, b, c, d) = process_round4 X (process_round3 X (process_round2 X (process_round1 X (abcd pms))))
      in pms\<lparr>abcd := (case abcd pms of (a0, b0, c0, d0) \<Rightarrow> (a0 + a, b0 + b, c0 + c, d0 + d))\<rparr>)"

section \<open>Adding bytes\<close>

text \<open>\<open>memcpy(pms->buf + offset, p, copy)\<close> for the bytes \<open>ps\<close>.\<close>

definition copy_part :: "nat \<Rightarrow> u8 list \<Rightarrow> md5_state \<Rightarrow> md5_state" where
  "copy_part offset ps pms = pms\<lparr>part := take offset (part pms) @ ps @ drop (offset + length ps) (part pms)\<rparr>"

function full_blocks :: "md5_state \<Rightarrow> u8 list \<Rightarrow> md5_state" where
  "full_blocks pms p =
     (if 64 \<le> length p then full_blocks (md5_process pms (take 64 p)) (drop 64 p)
      else if p \<noteq> [] then copy_part 0 p pms else pms)"
  by pat_completeness auto
termination by (relation "measure (\<lambda>(pms, p). length p)") auto

declare full_blocks.simps [simp del]

definition count_bytes :: "nat \<Rightarrow> md5_state \<Rightarrow> md5_state" where
  "count_bytes nbytes pms =
     (let nbits = push_bit 3 (of_nat nbytes);
          pms = pms\<lparr>count1 := count1 pms + of_nat (nbytes div 2 ^ 29)\<rparr>;
          pms = pms\<lparr>count0 := count0 pms + nbits\<rparr>
      in if count0 pms < nbits then pms\<lparr>count1 := count1 pms + 1\<rparr> else pms)"

text \<open>
  The length is an \<open>int\<close>: \<open>c_int n\<close> is what a caller's length \<open>n\<close> arrives as.  A length of \<open>2 ^ 31\<close>
  bytes arrives negative and the chunk is ignored.  (From \<open>2 ^ 28\<close> bytes on, \<open>nbytes << 3\<close> is a
  signed overflow, undefined in C; the model wraps, and the theorems are about smaller chunks.)
\<close>

definition c_int :: "nat \<Rightarrow> int" where
  "c_int n = sint (of_nat n :: 32 word)"

definition md5_append :: "md5_state \<Rightarrow> u8 list \<Rightarrow> md5_state" where
  "md5_append pms data =
     (let nbytes = nat (c_int (length data)); data = take nbytes data; offset = unat (drop_bit 3 (count0 pms) AND 63)
      in if nbytes = 0 then pms
         else let pms = count_bytes nbytes pms
              in if offset \<noteq> 0
                 then let copy = (if offset + nbytes > 64 then 64 - offset else nbytes);
                          pms = copy_part offset (take copy data) pms
                      in if offset + copy < 64 then pms
                         else full_blocks (md5_process pms (part pms)) (drop copy data)
                 else full_blocks pms data)"

lemma c_int_small: "n < 2 ^ 31 \<Longrightarrow> c_int n = int n"
  by (simp add: c_int_def signed_of_nat signed_take_bit_int_eq_self)

lemma append_ignores:
  assumes "2 ^ 31 \<le> length data" "length data < 2 ^ 32"
  shows "md5_append pms data = pms"
proof -
  have "c_int (length data) = signed_take_bit 31 (int (length data) - 2 ^ 32)"
    using mod_add_self2 [of "int (length data) - 2147483648" 4294967296]
    by (simp add: c_int_def signed_of_nat signed_take_bit_eq_take_bit_shift take_bit_eq_mod add.commute)
  also have "\<dots> = int (length data) - 2 ^ 32"
    using assms by (intro signed_take_bit_int_eq_self) simp_all
  finally have "nat (c_int (length data)) = 0" using assms(2) by simp
  then show ?thesis by (simp add: md5_append_def)
qed

section \<open>The digest\<close>

definition pad :: "u8 list" where "pad = 0x80 # replicate 63 0"

definition md5_finish :: "md5_state \<Rightarrow> u8 list \<times> md5_state" where
  "md5_finish pms =
     (let data = le32 (count0 pms) @ le32 (count1 pms);
          pms = md5_append pms (take (unat ((55 - drop_bit 3 (count0 pms)) AND 63) + 1) pad);
          pms = md5_append pms data
      in (case abcd pms of (a, b, c, d) \<Rightarrow> le32 a @ le32 b @ le32 c @ le32 d, pms))"

text \<open>
  The digest in characters, six bits each; without \<open>@\<close> the group of six ones is written as the
  character of 31 and only five bits are used up (\<open>bit--\<close>, then \<open>bit += 6\<close>).
\<close>

definition text_chars :: "u8 list" where
  "text_chars = map of_nat ([97..<123] @ [65..<91] @ [48..<58] @ [95, 64])"

definition group_val :: "u8 list \<Rightarrow> nat \<Rightarrow> nat" where
  "group_val digest b =
     (let first_char = b div 8;
          val = unat (digest ! first_char) div 2 ^ (b mod 8)
      in if b + 8 > (first_char + 1) * 8 \<and> first_char < 15
         then val + unat (digest ! (first_char + 1)) * 2 ^ (8 - b mod 8) else val)"

function text_loop :: "u8 list \<Rightarrow> bool \<Rightarrow> nat \<Rightarrow> u8 list" where
  "text_loop digest allow_at b =
     (if b < 128
      then let val = group_val digest b
           in if val mod 64 = 63 \<and> \<not> allow_at
              then text_chars ! 31 # text_loop digest allow_at (b + 5)
              else text_chars ! (val mod 64) # text_loop digest allow_at (b + 6)
      else [])"
  by pat_completeness auto
termination by (relation "measure (\<lambda>(digest, allow_at, b). 128 - b)") auto

declare text_loop.simps [simp del]

definition md5_finish_text :: "md5_state \<Rightarrow> bool \<Rightarrow> u8 list \<times> md5_state" where
  "md5_finish_text pms allow_at = (let (digest, pms) = md5_finish pms in (text_loop digest allow_at 0, pms))"

section \<open>The transformation is that of the algorithm\<close>

lemma ROTATE_LEFT_rotl: "0 < n \<Longrightarrow> n < 32 \<Longrightarrow> ROTATE_LEFT x n = word_rotl n x"
  by (simp add: ROTATE_LEFT_def rol_rotl)

lemma SET_op: "0 < s \<Longrightarrow> s < 32 \<Longrightarrow> SET f x s Ti = md5_op f x s Ti"
  by (simp add: fun_eq_iff SET_def md5_op_def ROTATE_LEFT_rotl Let_def add.commute add.left_commute)

lemma functions_click: "F_click = md5_F" "G_click = md5_G" "H_click = md5_H" "I_click = md5_I"
  by (simp_all add: fun_eq_iff F_click_def G_click_def H_click_def I_click_def md5_F_def md5_G_def md5_H_def md5_I_def)

lemma T_table_T: "T_table = md5_T"
  by (simp add: T_table_def md5_T_def T_MASK_def)

lemma T_nth: "T i = md5_T ! (i - 1)"
  by (simp add: T_def T_table_T)

lemmas SETs = SET_a_def SET_b_def SET_c_def SET_d_def SET_op functions_click T_nth md5_T_def

lemma process_rounds:
  "process_round1 X h = fold (md5_step md5_F X) (md5_rows (\<lambda>i. i) [7, 12, 17, 22] md5_T) h"
  "process_round2 X h = fold (md5_step md5_G X) (md5_rows (\<lambda>i. 1 + 5 * i) [5, 9, 14, 20] (drop 16 md5_T)) h"
  "process_round3 X h = fold (md5_step md5_H X) (md5_rows (\<lambda>i. 5 + 3 * i) [4, 11, 16, 23] (drop 32 md5_T)) h"
  "process_round4 X h = fold (md5_step md5_I X) (md5_rows (\<lambda>i. 7 * i) [6, 10, 15, 21] (drop 48 md5_T)) h"
  unfolding rows1 rows2 rows3 rows4
  by (subst in_place_steps; simp add: process_round1_def process_round2_def process_round3_def process_round4_def SETs)+

lemma md5_process_block [simp]: "md5_process pms data = pms\<lparr>abcd := md5_block (abcd pms) data\<rparr>"
  by (simp add: md5_process_def md5_block_def process_rounds Let_def add_chain_def split: prod.split)

section \<open>What a state holds\<close>

definition data_holds :: "md5_state \<Rightarrow> u8 list \<Rightarrow> bool" where
  "data_holds pms m \<longleftrightarrow> length (part pms) = 64 \<and>
     (\<exists>t r. m = t @ r \<and> 64 dvd length t \<and> length r < 64 \<and> abcd pms = md5_blocks md5_start t
        \<and> take (length r) (part pms) = r)"

lemma data_holdsI:
  "length (part pms) = 64 \<Longrightarrow> 64 dvd length t \<Longrightarrow> length r < 64 \<Longrightarrow> abcd pms = md5_blocks md5_start t
    \<Longrightarrow> take (length r) (part pms) = r \<Longrightarrow> data_holds pms (t @ r)"
  unfolding data_holds_def by blast

definition state_holds :: "md5_state \<Rightarrow> u8 list \<Rightarrow> bool" where
  "state_holds pms m \<longleftrightarrow> data_holds pms m \<and>
     count0 pms = of_nat (8 * length m) \<and> count1 pms = of_nat (8 * length m div 2 ^ 32)"

lemma init_state_holds: "state_holds md5_init_click []"
  by (simp add: state_holds_def data_holds_def md5_init_click_def md5_start_def T_MASK_def)

lemma copy_part_simps [simp]:
  "abcd (copy_part k ps pms) = abcd pms" "count0 (copy_part k ps pms) = count0 pms" "count1 (copy_part k ps pms) = count1 pms"
  by (simp_all add: copy_part_def)

lemma length_copy_part [simp]: "k + length ps \<le> length (part pms) \<Longrightarrow> length (part (copy_part k ps pms)) = length (part pms)"
  by (simp add: copy_part_def)

lemma count_full_blocks [simp]: "count0 (full_blocks pms p) = count0 pms" "count1 (full_blocks pms p) = count1 pms"
proof (induction pms p rule: full_blocks.induct)
  case (1 pms p)
  { case 1 show ?case using "1.IH"(1) by (subst full_blocks.simps) simp }
  { case 2 show ?case using "1.IH"(2) by (subst full_blocks.simps) simp }
qed

lemma full_blocks_holds:
  assumes "length (part pms) = 64" "64 dvd length t" "abcd pms = md5_blocks md5_start t"
  shows "data_holds (full_blocks pms p) (t @ p)"
  using assms
proof (induction pms p arbitrary: t rule: full_blocks.induct)
  case (1 pms p)
  show ?case
  proof (cases "64 \<le> length p")
    case True
    let ?b = "take 64 p"
    have l: "length ?b = 64" using True by simp
    have "data_holds (full_blocks (md5_process pms ?b) (drop 64 p)) ((t @ ?b) @ drop 64 p)"
      by (rule "1.IH" [OF True]) (use 1(2-4) l in \<open>simp_all add: md5_blocks_snoc\<close>)
    then show ?thesis using True by (subst full_blocks.simps) simp
  next
    case False
    then have "full_blocks pms p = (if p \<noteq> [] then copy_part 0 p pms else pms)" by (subst full_blocks.simps) simp
    then show ?thesis using False 1(2-4) by (intro data_holdsI) (auto simp: copy_part_def)
  qed
qed

section \<open>The counters\<close>

lemma carry:
  fixes a b :: u32
  shows "a + b < b \<longleftrightarrow> 2 ^ 32 \<le> unat a + unat b"
proof -
  have "unat (a + b) = (unat a + unat b) mod 2 ^ 32" by (simp add: unat_word_ariths)
  moreover have "unat a < 2 ^ 32" "unat b < 2 ^ 32" using unsigned_less [of a] unsigned_less [of b] by simp_all
  ultimately show ?thesis by (auto simp: word_less_nat_alt mod_if)
qed

lemma count_bytes_counts:
  assumes "count0 pms = of_nat (8 * l)" "count1 pms = of_nat (8 * l div 2 ^ 32)"
  shows "count0 (count_bytes n pms) = of_nat (8 * (l + n))" "count1 (count_bytes n pms) = of_nat (8 * (l + n) div 2 ^ 32)"
    "abcd (count_bytes n pms) = abcd pms" "part (count_bytes n pms) = part pms"
proof -
  let ?a = "of_nat (8 * l) :: u32" and ?b = "push_bit 3 (of_nat n) :: u32"
  have b: "?b = of_nat (8 * n)" by (simp add: push_bit_eq_mult)
  have u: "unat ?a = 8 * l mod 2 ^ 32" "unat ?b = 8 * n mod 2 ^ 32" unfolding b by (simp_all only: unat_of_nat) simp_all
  show "count0 (count_bytes n pms) = of_nat (8 * (l + n))"
    using assms(1) b by (simp add: count_bytes_def Let_def algebra_simps)
  have d: "8 * (l + n) div 2 ^ 32 = 8 * l div 2 ^ 32 + n div 2 ^ 29 + (if ?a + ?b < ?b then 1 else 0)"
  proof -
    have "8 * n div 2 ^ 32 = n div 2 ^ 29" using div_mult_mult1 [of 8 n "2 ^ 29"] by simp
    moreover have "8 * (l + n) div 2 ^ 32 = 8 * l div 2 ^ 32 + 8 * n div 2 ^ 32 + (8 * l mod 2 ^ 32 + 8 * n mod 2 ^ 32) div 2 ^ 32"
      unfolding add_mult_distrib2 by (rule div_add1_eq)
    moreover have "(8 * l mod 2 ^ 32 + 8 * n mod 2 ^ 32) div 2 ^ 32 = (if ?a + ?b < ?b then 1 else 0 :: nat)"
      unfolding carry u using mod_less_divisor [of "2 ^ 32" "8 * l"] mod_less_divisor [of "2 ^ 32" "8 * n"]
      by (auto simp: div_if)
    ultimately show ?thesis by presburger
  qed
  show "count1 (count_bytes n pms) = of_nat (8 * (l + n) div 2 ^ 32)"
    unfolding d using assms by (simp add: count_bytes_def Let_def)
  show "abcd (count_bytes n pms) = abcd pms" "part (count_bytes n pms) = part pms"
    by (simp_all add: count_bytes_def Let_def)
qed

lemma and_63: "unat (x AND 63) = unat x mod 64" for x :: u32
proof -
  have "unat (take_bit 6 x) = take_bit 6 (unat x)" by (rule unsigned_take_bit_eq)
  then have "unat (x AND mask 6) = unat x mod 2 ^ 6" unfolding take_bit_eq_mask [symmetric] by (simp add: take_bit_eq_mod)
  then show ?thesis by (simp add: mask_eq_exp_minus_1)
qed

lemma offset_mod: "unat (drop_bit 3 (of_nat (8 * l) :: u32) AND 63) = l mod 64"
proof -
  have "(8 * l mod 2 ^ 32) div 8 mod 64 = l mod 2 ^ 29 mod 64"
  proof -
    have e: "8 * l mod 2 ^ 32 = 8 * (l mod 2 ^ 29)" using mult_mod_right [of 8 l "2 ^ 29"] by simp
    show ?thesis unfolding e by simp
  qed
  also have "\<dots> = l mod 64" by (rule mod_mod_cancel) (rule dvdI [of _ _ "2 ^ 23"], simp)
  finally have m: "(8 * l mod 2 ^ 32) div 8 mod 64 = l mod 64" .
  have u: "unat (of_nat (8 * l) :: u32) = 8 * l mod 2 ^ 32" by (simp only: unat_of_nat) simp
  have "unat (drop_bit 3 (of_nat (8 * l) :: u32)) = (8 * l mod 2 ^ 32) div 8"
    unfolding unat_drop_bit_eq u by (simp add: drop_bit_eq_div)
  then show ?thesis by (simp only: and_63 m)
qed

section \<open>Adding bytes and the digest\<close>

lemma length_block_rest: "64 dvd length t \<Longrightarrow> length r < 64 \<Longrightarrow> length (t @ r) mod 64 = length r"
  by (auto elim!: dvdE)

lemma append_data:
  assumes "data_holds pms m" "offset = length m mod 64" "data \<noteq> []" "n = length data"
    "copy = (if offset + n > 64 then 64 - offset else n)" "pms' = copy_part offset (take copy data) pms"
  shows "data_holds (if offset \<noteq> 0
           then if offset + copy < 64 then pms' else full_blocks (md5_process pms' (part pms')) (drop copy data)
           else full_blocks pms data) (m @ data)"
proof -
  from assms(1) obtain t r where m: "m = t @ r" "64 dvd length t" "length r < 64" "length (part pms) = 64"
    "abcd pms = md5_blocks md5_start t" "take (length r) (part pms) = r" by (auto simp: data_holds_def)
  have o: "offset = length r" unfolding assms(2) m(1) by (rule length_block_rest) (use m in auto)
  have c: "copy \<le> n" "offset + copy \<le> 64" "offset + copy < 64 \<Longrightarrow> copy = n" using assms(5) m(3) o by auto
  have p: "length (part pms') = 64" "abcd pms' = abcd pms" "take (offset + copy) (part pms') = r @ take copy data"
    using c m assms(4,6) by (simp_all add: o copy_part_def)
  show ?thesis
  proof (cases "offset = 0")
    case True
    with o m full_blocks_holds [of pms t data] show ?thesis by simp
  next
    case False
    show ?thesis
    proof (cases "offset + copy < 64")
      case True
      with c(3) have cn: "copy = n" .
      have "data_holds pms' (t @ r @ data)"
        by (rule data_holdsI) (use p m True assms(4) in \<open>simp_all add: cn o\<close>)
      with True False m(1) show ?thesis by simp
    next
      case no: False
      with c(2) have "offset + copy = 64" by simp
      with p have b: "part pms' = r @ take copy data" by simp
      have l: "length (r @ take copy data) = 64" using b p(1) by simp
      have "data_holds (full_blocks (md5_process pms' (part pms')) (drop copy data)) ((t @ r @ take copy data) @ drop copy data)"
        by (rule full_blocks_holds) (use p(1,2) m(2,5) b md5_blocks_snoc [OF m(2) l] l in \<open>simp_all add: add.assoc\<close>)
      with no False m(1) show ?thesis by simp
    qed
  qed
qed

definition short :: "u8 list \<Rightarrow> bool" where
  "short bs \<longleftrightarrow> length bs < 2 ^ 28"

lemma md5_append_holds:
  assumes "state_holds pms m" "short data" shows "state_holds (md5_append pms data) (m @ data)"
proof -
  have n: "nat (c_int (length data)) = length data" using assms(2) by (simp add: short_def c_int_small)
  show ?thesis
  proof (cases "data = []")
    case True
    with assms n show ?thesis by (simp add: md5_append_def Let_def)
  next
    case False
    let ?c = "count_bytes (length data) pms"
    have C: "count0 pms = of_nat (8 * length m)" "count1 pms = of_nat (8 * length m div 2 ^ 32)"
      using assms(1) by (simp_all add: state_holds_def)
    note counts = count_bytes_counts [OF C, of "length data"]
    have o: "unat (drop_bit 3 (count0 pms) AND 63) = length m mod 64" unfolding C by (rule offset_mod)
    have "data_holds ?c m" using assms(1) counts by (simp add: state_holds_def data_holds_def)
    from append_data [OF this refl False refl refl refl] False
    have "data_holds (md5_append pms data) (m @ data)"
      by (simp only: md5_append_def Let_def o n take_all order_refl length_0_conv if_False)
    moreover have "count0 (md5_append pms data) = count0 ?c" "count1 (md5_append pms data) = count1 ?c"
      using False by (simp_all add: md5_append_def Let_def n)
    ultimately show ?thesis using counts by (simp add: state_holds_def)
  qed
qed

lemma padding_arith:
  assumes "w < 2 ^ 32"
  shows "(if w \<le> 55 then 55 - w else 55 + 2 ^ 32 - w) mod 64 = (119 - w mod 64) mod (64 :: nat)"
proof -
  define k r where "k = w div 64" and "r = w mod 64"
  have w: "w = 64 * k + r" "r < 64" "k < 2 ^ 26" using assms by (simp_all add: k_def r_def)
  consider "w \<le> 55" | "w > 55" "r \<le> 55" | "w > 55" "r > 55" by linarith
  then show ?thesis
  proof cases
    case 1
    then show ?thesis by (simp add: mod_if)
  next
    case 2
    then have e: "55 + 2 ^ 32 - w = (55 - r) + 64 * (2 ^ 26 - k)" using w by (simp add: diff_mult_distrib2)
    have "(55 + 2 ^ 32 - w) mod 64 = 55 - r" unfolding e mod_mult_self2 by simp
    moreover have "(119 - r) mod 64 = 55 - r" using 2 by (simp add: mod_if)
    ultimately show ?thesis using 2 by (simp add: r_def [symmetric])
  next
    case 3
    then have "55 + 2 ^ 32 - w = (119 - r) + 64 * (2 ^ 26 - 1 - k)" using w by (simp add: diff_mult_distrib2)
    then show ?thesis using 3 by (simp add: r_def [symmetric])
  qed
qed

lemma padding_count:
  "unat ((55 - drop_bit 3 (of_nat (8 * l) :: u32)) AND 63) = (119 - l mod 64) mod 64"
proof -
  define w where "w = unat (drop_bit 3 (of_nat (8 * l) :: u32))"
  have w: "w < 2 ^ 32" using unsigned_less [of "drop_bit 3 (of_nat (8 * l) :: u32)"] by (simp add: w_def)
  have l: "l mod 64 = w mod 64" using offset_mod [of l] by (simp add: and_63 w_def)
  have "unat (55 - drop_bit 3 (of_nat (8 * l) :: u32)) = (if w \<le> 55 then 55 - w else 55 + 2 ^ 32 - w)"
    by (simp add: unat_sub_if' w_def)
  moreover have "(if w \<le> 55 then 55 - w else 55 + 2 ^ 32 - w) mod 64 = (119 - w mod 64) mod 64"
    using w by (simp add: padding_arith)
  ultimately show ?thesis by (simp only: and_63 l)
qed

lemma take_pad: "k < 64 \<Longrightarrow> take (k + 1) pad = 0x80 # replicate k 0"
  by (simp add: pad_def min_def)

lemma md5_finish_digest:
  assumes "state_holds pms m" shows "fst (md5_finish pms) = md5 m"
proof -
  let ?p = "md5_padding (length m)" and ?l = "md5_length (length m)"
  have C: "count0 pms = of_nat (8 * length m)" "count1 pms = of_nat (8 * length m div 2 ^ 32)"
    using assms by (simp_all add: state_holds_def)
  have "take (unat ((55 - drop_bit 3 (count0 pms)) AND 63) + 1) pad = ?p"
    unfolding C padding_count md5_padding_def by (rule take_pad) simp
  moreover have "le32 (count0 pms) @ le32 (count1 pms) = ?l" by (simp add: C md5_length_def)
  moreover define q where "q = md5_append (md5_append pms ?p) ?l"
  ultimately have f: "fst (md5_finish pms) = chain_bytes (abcd q)"
    by (simp add: md5_finish_def chain_bytes_def Let_def split: prod.split)
  have "short ?p" "short ?l" by (simp_all add: short_def md5_padding_def md5_length_def)
  then have "state_holds q (m @ ?p @ ?l)"
    using md5_append_holds [OF md5_append_holds [OF assms, of ?p], of ?l] by (simp add: q_def)
  then obtain t r where t: "m @ ?p @ ?l = t @ r" "64 dvd length t" "length r < 64" "abcd q = md5_blocks md5_start t"
    by (auto simp: state_holds_def data_holds_def)
  have "abcd q = md5_blocks md5_start (m @ ?p @ ?l)" using t by (simp add: md5_blocks_append)
  then show ?thesis by (simp add: f md5_def)
qed

interpretation click: hash_stream md5_init_click md5_append "\<lambda>s. fst (md5_finish s)" md5 state_holds short "\<lambda>m. True"
  by unfold_locales (auto intro: init_state_holds md5_append_holds md5_finish_digest)

section \<open>The text of a digest\<close>

lemma text_length:
  "b \<le> 128 + 5 \<Longrightarrow> 128 - b \<le> 6 * length (text_loop d at b) \<and> 5 * length (text_loop d at b) \<le> 132 - b"
proof (induction d at b rule: text_loop.induct)
  case (1 d at b)
  show ?case
  proof (cases "b < 128")
    case True
    show ?thesis
    proof (cases "group_val d b mod 64 = 63 \<and> \<not> at")
      case esc: True
      with "1.IH"(1) [OF True refl esc] True show ?thesis by (subst (1 2) text_loop.simps) (auto simp: Let_def)
    next
      case no: False
      with "1.IH"(2) [OF True refl no] True show ?thesis by (subst (1 2) text_loop.simps) (auto simp: Let_def)
    qed
  qed (simp add: text_loop.simps)
qed

lemma text_length_at: "b \<le> 133 \<Longrightarrow> length (text_loop d True b) = (133 - b) div 6"
proof (induction d True b rule: text_loop.induct)
  case (1 d b)
  show ?case
  proof (cases "b < 128")
    case True
    with "1.hyps"(2) [OF True refl] have "length (text_loop d True (b + 6)) = (127 - b) div 6" by simp
    moreover have "133 - b = (127 - b) + 6" using True by simp
    ultimately show ?thesis using True by (subst text_loop.simps) (simp only: Let_def, simp)
  qed (use 1 in \<open>simp add: text_loop.simps\<close>)
qed

lemma text_chars_inj: "i < 64 \<Longrightarrow> j < 64 \<Longrightarrow> text_chars ! i = text_chars ! j \<longleftrightarrow> i = j"
proof (rule nth_eq_iff_index_eq)
  show "distinct text_chars" by code_simp
qed (simp_all add: text_chars_def)

lemma group_val_bit: "i < 8 \<Longrightarrow> b + i < 128 \<Longrightarrow> bit (group_val d b) i = digest_bit d (b + i)"
  by (erule (1) group_bits) (simp add: group_val_def Let_def)

lemma text_bits:
  "text_loop d True b = text_loop d' True b \<Longrightarrow> b \<le> j \<Longrightarrow> j < 128 \<Longrightarrow> digest_bit d j = digest_bit d' j"
proof (induction d True b rule: text_loop.induct)
  case (1 d b)
  from 1(4,5) have b: "b < 128" by simp
  have c: "group_val d b mod 64 = group_val d' b mod 64" and r: "text_loop d True (b + 6) = text_loop d' True (b + 6)"
    using 1(3) b by (simp_all add: text_loop.simps [of _ _ b] Let_def text_chars_inj)
  show ?case
  proof (cases "b + 6 \<le> j")
    case True
    with "1.hyps"(2) [OF b refl _ r] 1(5) show ?thesis by simp
  next
    case False
    define i where "i = j - b"
    have i: "i < 6" "j = b + i" using False 1(4) by (simp_all add: i_def)
    have "take_bit 6 (group_val d b) = take_bit 6 (group_val d' b)" using c by (simp add: take_bit_eq_mod)
    then have "bit (group_val d b) i = bit (group_val d' b) i" using i(1) by (auto simp: bit_eq_iff bit_take_bit_iff)
    then show ?thesis using i 1(5) by (simp add: group_val_bit)
  qed
qed

lemma text_inj: "length d = 16 \<Longrightarrow> length d' = 16 \<Longrightarrow> text_loop d True 0 = text_loop d' True 0 \<longleftrightarrow> d = d'"
  using digest_eqI [of d d'] text_bits [of d 0 d'] by blast

text \<open>Without \<open>@\<close> two digests can have one text.\<close>

lemma text_ambiguous:
  "text_loop (0xFF # 0x0B # replicate 14 0) False 0 = text_loop (0xDF # 0x0F # replicate 14 0) False 0"
  by code_simp

section \<open>Properties\<close>

text \<open>
  C17 Whatever chunks of less than \<open>2 ^ 28\<close> bytes a message is given in, \<open>md5_init\<close>, \<open>md5_append\<close> for
  every chunk and \<open>md5_finish\<close> compute the MD5 digest of the message, of any length.
\<close>
theorem click_md5:
  assumes "\<forall>bs\<in>set chunks. length bs < 2 ^ 28"
  shows "fst (md5_finish (fold (\<lambda>bs pms. md5_append pms bs) chunks md5_init_click)) = md5 (concat chunks)"
  by (intro click.chunks_hash) (use assms in \<open>simp_all add: short_def\<close>)

theorem click_md5_witness:
  "fst (md5_finish (fold (\<lambda>bs pms. md5_append pms bs) [[0x61], replicate 100 0x62] md5_init_click))
    = md5 (0x61 # replicate 100 0x62)"
  using click_md5 [of "[[0x61], replicate 100 0x62]"] by simp

definition click_digest :: "u8 list list \<Rightarrow> u8 list" where
  "click_digest chunks = fst (md5_finish (fold (\<lambda>bs pms. md5_append pms bs) chunks md5_init_click))"

definition click_text :: "bool \<Rightarrow> u8 list list \<Rightarrow> u8 list" where
  "click_text allow_at chunks = fst (md5_finish_text (fold (\<lambda>bs pms. md5_append pms bs) chunks md5_init_click) allow_at)"

lemma click_text_loop: "click_text allow_at chunks = text_loop (click_digest chunks) allow_at 0"
  by (simp add: click_text_def click_digest_def md5_finish_text_def case_prod_beta)

lemma length_click_digest: "length (click_digest chunks) = 16"
  by (simp add: click_digest_def md5_finish_def Let_def split: prod.split)

lemma click_digest_md5: "\<forall>bs\<in>set chunks. length bs < 2 ^ 28 \<Longrightarrow> click_digest chunks = md5 (concat chunks)"
  unfolding click_digest_def by (intro click.chunks_hash) (simp_all add: short_def)

text \<open>
  C19 The text of a digest has 22 characters when \<open>@\<close> is allowed and 22 to 26 when it is not, and
  with \<open>@\<close> two messages have the same text exactly when they have the same digest, which for chunks
  of less than \<open>2 ^ 28\<close> bytes is the MD5 digest.
\<close>
theorem click_text_digest:
  "length (click_text True xs) = 22
    \<and> 22 \<le> length (click_text False xs) \<and> length (click_text False xs) \<le> 26
    \<and> (click_text True xs = click_text True ys \<longleftrightarrow> click_digest xs = click_digest ys)
    \<and> ((\<forall>bs\<in>set xs \<union> set ys. length bs < 2 ^ 28) \<longrightarrow>
        (click_text True xs = click_text True ys \<longleftrightarrow> md5 (concat xs) = md5 (concat ys)))"
proof (intro conjI impI)
  assume "\<forall>bs\<in>set xs \<union> set ys. length bs < 2 ^ 28"
  then have "click_digest xs = md5 (concat xs)" "click_digest ys = md5 (concat ys)"
    by (simp_all add: click_digest_md5)
  then show "click_text True xs = click_text True ys \<longleftrightarrow> md5 (concat xs) = md5 (concat ys)"
    by (metis click_text_loop text_inj length_click_digest)
qed (use text_length [of 0 "click_digest xs" False] in
    \<open>simp_all add: click_text_loop text_length_at text_inj length_click_digest\<close>)

theorem click_text_digest_witness:
  "click_text True [[0x61], [0x62]] = click_text True [[0x61, 0x62]]"
  using click_text_digest [of "[[0x61], [0x62]]" "[[0x61, 0x62]]"] by simp

end
