(* ===== verification/Weensy_Boot.thy ===== *)
theory Weensy_Boot
  imports Weensy_Machine
begin

text \<open>
  The boot loader (\<open>mpos-boot.c\<close>, of which \<open>schedos-boot.c\<close> is a copy): it reads the kernel file from
  the disk, sector by sector, and jumps to its entry point.  The hardware is a parameter: the
  instructions \<open>inb\<close>, \<open>outb\<close> and \<open>insl\<close>, and a contract (\<open>ata_disk\<close>) that says what an ATA
  drive behind the ports promises.
\<close>

section \<open>The disk\<close>

text \<open>
  The instructions for input and output, over the unknown state of the hardware; \<open>insl\<close> gives the
  bytes of the words it reads.
\<close>

record 'h ports =
  inb :: "nat \<Rightarrow> 'h \<Rightarrow> u8 \<times> 'h"
  outb :: "nat \<Rightarrow> u8 \<Rightarrow> 'h \<Rightarrow> 'h"
  insl :: "nat \<Rightarrow> nat \<Rightarrow> 'h \<Rightarrow> u8 list \<times> 'h"

definition SECTORSIZE :: u32 where "SECTORSIZE = 512"
definition ELFHDR :: nat where "ELFHDR = 0x10000"

partial_function (option) waitdisk :: "'h ports \<Rightarrow> 'h \<Rightarrow> 'h option" where
  "waitdisk io h = (case inb io 0x1F7 h of (st, h) \<Rightarrow> if st AND 0xC0 \<noteq> 0x40 then waitdisk io h else Some h)"

definition readsect :: "'h ports \<Rightarrow> nat \<Rightarrow> u32 \<Rightarrow> mem \<Rightarrow> 'h \<Rightarrow> (mem \<times> 'h) option" where
  "readsect io dst sect m h =
     Option.bind (waitdisk io h)
       (\<lambda>h. let h = outb io 0x1F2 1 h;
               h = outb io 0x1F3 (ucast sect) h;
               h = outb io 0x1F4 (ucast (drop_bit 8 sect)) h;
               h = outb io 0x1F5 (ucast (drop_bit 16 sect)) h;
               h = outb io 0x1F6 (ucast (drop_bit 24 sect) OR 0xE0) h;
               h = outb io 0x1F7 0x20 h
           in map_option (\<lambda>h. case insl io 0x1F0 (unat SECTORSIZE div 4) h of (bs, h) \<Rightarrow> (mem_write m dst bs, h))
                (waitdisk io h))"

section \<open>Loading the kernel\<close>

text \<open>The loop over the sectors, on words that may wrap around.\<close>

partial_function (option) read_sectors :: "'h ports \<Rightarrow> u32 \<Rightarrow> u32 \<Rightarrow> u32 \<Rightarrow> mem \<times> 'h \<Rightarrow> (mem \<times> 'h) option" where
  "read_sectors io va end_va sect mh =
     (if va < end_va
      then Option.bind (readsect io (unat va) sect (fst mh) (snd mh)) (read_sectors io (va + SECTORSIZE) end_va (sect + 1))
      else Some mh)"

definition readseg :: "'h ports \<Rightarrow> u32 \<Rightarrow> u32 \<Rightarrow> u32 \<Rightarrow> u32 \<Rightarrow> mem \<times> 'h \<Rightarrow> (mem \<times> 'h) option" where
  "readseg io va filesz memsz sect mh =
     (let end_va = va + filesz;
          memsz = memsz + va;
          va = va AND NOT (SECTORSIZE - 1)
      in map_option (\<lambda>(m, h). (clear_bss m end_va memsz, h)) (read_sectors io va end_va sect mh))"

text \<open>The loop over the program headers: \<open>n\<close> headers from address \<open>ph\<close> on.\<close>

primrec boot_segments :: "'h ports \<Rightarrow> nat \<Rightarrow> nat \<Rightarrow> mem \<times> 'h \<Rightarrow> (mem \<times> 'h) option" where
  "boot_segments io ph 0 mh = Some mh"
| "boot_segments io ph (Suc n) mh =
     (let p = proghdr_at (fst mh) ph
      in Option.bind (readseg io (p_va p) (p_filesz p) (p_memsz p) (1 + p_offset p div SECTORSIZE) mh)
           (boot_segments io (ph + 32) n))"

text \<open>\<open>Inr\<close> the address \<open>bootmain\<close> jumps to, \<open>Inl ()\<close> when it returns.\<close>

definition bootmain :: "'h ports \<Rightarrow> mem \<Rightarrow> 'h \<Rightarrow> (unit + u32) option \<times> mem" where
  "bootmain io m h =
     (case readseg io (of_nat ELFHDR) PAGESIZE PAGESIZE 1 (m, h) of
        None \<Rightarrow> (None, m)
      | Some (m, h) \<Rightarrow>
          let e = elf_at m ELFHDR in
          if e_magic e \<noteq> ELF_MAGIC then (Some (Inl ()), m)
          else case boot_segments io (ELFHDR + unat (e_phoff e)) (unat (e_phnum e)) (m, h) of
                 None \<Rightarrow> (None, m)
               | Some (m, h) \<Rightarrow> (Some (Inr (e_entry (elf_at m ELFHDR))), m))"

section \<open>What the disk promises\<close>

text \<open>
  The registers of an ATA drive behind the ports 0x1F2 to 0x1F6, the sector a read command waits to
  deliver, and for how many reads of the status it is still busy.
\<close>

record ata =
  sector_count :: u8
  lba0 :: u8
  lba1 :: u8
  lba2 :: u8
  drive :: u8
  pending :: "nat option"
  busy :: nat

definition lba28 :: "ata \<Rightarrow> nat" where
  "lba28 r = unat (lba0 r) + 2 ^ 8 * unat (lba1 r) + 2 ^ 16 * unat (lba2 r) + 2 ^ 24 * (unat (drive r) mod 16)"

definition ata_disk :: "'h ports \<Rightarrow> ('h \<Rightarrow> ata) \<Rightarrow> (nat \<Rightarrow> u8 list) \<Rightarrow> bool" where
  "ata_disk io view sector \<longleftrightarrow>
     (\<forall>h. view (snd (inb io 0x1F7 h)) = (view h)\<lparr>busy := busy (view h) - 1\<rparr>
        \<and> (fst (inb io 0x1F7 h) AND 0xC0 = 0x40 \<longleftrightarrow> busy (view h) = 0))
     \<and> (\<forall>h b. busy (view h) = 0 \<longrightarrow>
          view (outb io 0x1F2 b h) = (view h)\<lparr>sector_count := b\<rparr> \<and> view (outb io 0x1F3 b h) = (view h)\<lparr>lba0 := b\<rparr>
          \<and> view (outb io 0x1F4 b h) = (view h)\<lparr>lba1 := b\<rparr> \<and> view (outb io 0x1F5 b h) = (view h)\<lparr>lba2 := b\<rparr>
          \<and> view (outb io 0x1F6 b h) = (view h)\<lparr>drive := b\<rparr>)
     \<and> (\<forall>h. busy (view h) = 0 \<and> drive (view h) AND 0xF0 = 0xE0 \<longrightarrow>
          (\<exists>n. view (outb io 0x1F7 0x20 h) = (view h)\<lparr>pending := Some (lba28 (view h)), busy := n\<rparr>))
     \<and> (\<forall>h s. busy (view h) = 0 \<and> pending (view h) = Some s \<and> sector_count (view h) = 1 \<longrightarrow>
          fst (insl io 0x1F0 128 h) = sector s \<and> view (snd (insl io 0x1F0 128 h)) = (view h)\<lparr>pending := None\<rparr>)
     \<and> (\<forall>s. length (sector s) = 512)"

lemma waitdisk_returns:
  assumes "ata_disk io view sector"
  shows "\<exists>h'. waitdisk io h = Some h' \<and> view h' = (view h)\<lparr>busy := 0\<rparr>"
proof (induction "busy (view h)" arbitrary: h)
  case 0
  obtain st h' where i: "inb io 0x1F7 h = (st, h')" by fastforce
  with assms 0 have "st AND 0xC0 = 0x40" "view h' = (view h)\<lparr>busy := 0\<rparr>"
    unfolding ata_disk_def by (metis fst_conv, metis snd_conv diff_0_eq_0)
  with i show ?case by (subst waitdisk.simps) simp
next
  case (Suc n)
  obtain st h' where i: "inb io 0x1F7 h = (st, h')" by fastforce
  with assms Suc(2) have "st AND 0xC0 \<noteq> 0x40" and v: "view h' = (view h)\<lparr>busy := n\<rparr>"
    unfolding ata_disk_def by (metis fst_conv nat.distinct(1), metis snd_conv diff_Suc_1)
  with i have "waitdisk io h = waitdisk io h'" by (subst waitdisk.simps) simp
  with Suc(1) [of h'] v show ?case by simp
qed

lemma four_bytes:
  "n mod 256 + 256 * (n div 256 mod 256) + 65536 * (n div 65536 mod 256) + 16777216 * (n div 16777216) = (n :: nat)"
proof -
  define a where "a = n div 256"
  define b where "b = a div 256"
  have e: "n div 65536 = b" "n div 16777216 = b div 256"
    by (simp_all add: a_def b_def div_mult2_eq [symmetric])
  have "n = n mod 256 + 256 * a" "a = a mod 256 + 256 * b" "b = b mod 256 + 256 * (b div 256)"
    by (simp_all add: a_def b_def)
  then show ?thesis unfolding e a_def [symmetric] by linarith
qed

text \<open>The four registers hold the number of the sector.\<close>

lemma lba28_registers:
  assumes "unat (sect :: u32) < 2 ^ 28" "lba0 r = ucast sect" "lba1 r = ucast (drop_bit 8 sect)"
    "lba2 r = ucast (drop_bit 16 sect)" "drive r = ucast (drop_bit 24 sect) OR 0xE0"
  shows "lba28 r = unat sect" and "drive r AND 0xF0 = 0xE0"
proof -
  have u: "unat (ucast (x :: u32) :: u8) = unat x mod 256" for x
    by (simp add: unsigned_ucast_eq take_bit_eq_mod)
  have d: "unat (drop_bit n sect) = unat sect div 2 ^ n" for n
    by (simp only: unat_drop_bit_eq) (simp add: drop_bit_eq_div)
  have "take_bit 4 (drive r) = take_bit 4 (ucast (drop_bit 24 sect) :: u8)"
    unfolding assms(5) by simp
  then have "take_bit 4 (unat (drive r)) = take_bit 4 (unat (ucast (drop_bit 24 sect) :: u8))"
    by (simp only: unsigned_take_bit_eq [symmetric])
  then have "unat (drive r) mod 16 = unat (ucast (drop_bit 24 sect) :: u8) mod 16"
    by (simp add: take_bit_eq_mod)
  then show "lba28 r = unat sect"
    using assms(1) four_bytes [of "unat sect"] by (simp add: lba28_def assms(2-4) u d)
  have "unat (drop_bit 24 sect) < 16" using assms(1) by (simp add: d)
  then have "unat (ucast (drop_bit 24 sect) :: u8) < 2 ^ 4" unfolding u by simp
  then have "ucast (drop_bit 24 sect) = take_bit 4 (ucast (drop_bit 24 sect) :: u8)"
    by (metis take_bit_nat_eq_self unsigned_take_bit_eq word_unat_eq_iff)
  also have "\<dots> AND 0xF0 = 0"
    by (simp add: take_bit_eq_mask mask_eq_exp_minus_1 and.assoc)
  finally show "drive r AND 0xF0 = 0xE0"
    unfolding assms(5) by (simp add: bit.conj_disj_distrib2)
qed

lemma readsect_reads:
  assumes ata: "ata_disk io view sector" and sect: "unat sect < 2 ^ 28"
  shows "\<exists>h'. readsect io dst sect m h = Some (mem_write m dst (sector (unat sect)), h')"
proof -
  note wait = waitdisk_returns [OF ata]
  obtain h1 where w1: "waitdisk io h = Some h1" and v1: "busy (view h1) = 0"
    using wait [of h] by auto
  let ?a = "outb io 0x1F2 1 h1"
  let ?b = "outb io 0x1F3 (ucast sect) ?a"
  let ?c = "outb io 0x1F4 (ucast (drop_bit 8 sect)) ?b"
  let ?d = "outb io 0x1F5 (ucast (drop_bit 16 sect)) ?c"
  let ?e = "outb io 0x1F6 (ucast (drop_bit 24 sect) OR 0xE0) ?d"
  let ?f = "outb io 0x1F7 0x20 ?e"
  from ata have reg: "busy (view h) = 0 \<Longrightarrow>
       view (outb io 0x1F2 b h) = (view h)\<lparr>sector_count := b\<rparr> \<and> view (outb io 0x1F3 b h) = (view h)\<lparr>lba0 := b\<rparr>
       \<and> view (outb io 0x1F4 b h) = (view h)\<lparr>lba1 := b\<rparr> \<and> view (outb io 0x1F5 b h) = (view h)\<lparr>lba2 := b\<rparr>
       \<and> view (outb io 0x1F6 b h) = (view h)\<lparr>drive := b\<rparr>" for h b
    unfolding ata_disk_def by blast
  have e: "view ?e = (view h1)\<lparr>sector_count := 1, lba0 := ucast sect, lba1 := ucast (drop_bit 8 sect),
      lba2 := ucast (drop_bit 16 sect), drive := ucast (drop_bit 24 sect) OR 0xE0\<rparr>"
    using v1 by (simp add: reg)
  have l: "lba28 (view ?e) = unat sect" "drive (view ?e) AND 0xF0 = 0xE0"
    by (rule lba28_registers [OF sect]; simp add: e)+
  have "busy (view ?e) = 0" by (simp add: e v1)
  with ata l obtain n where f: "view ?f = (view ?e)\<lparr>pending := Some (unat sect), busy := n\<rparr>"
    unfolding ata_disk_def by metis
  obtain h2 where w2: "waitdisk io ?f = Some h2" and v2: "view h2 = (view ?f)\<lparr>busy := 0\<rparr>"
    using wait [of ?f] by auto
  have "pending (view h2) = Some (unat sect)" "sector_count (view h2) = 1" "busy (view h2) = 0"
    by (simp_all add: v2 f e)
  then have "fst (insl io 0x1F0 128 h2) = sector (unat sect)"
    using ata unfolding ata_disk_def by blast
  then obtain h3 where "insl io 0x1F0 128 h2 = (sector (unat sect), h3)" by (metis prod.collapse)
  then show ?thesis
    using w1 w2 by (simp add: readsect_def Let_def SECTORSIZE_def)
qed

lemma read_sectors_reads:
  assumes ata: "ata_disk io view sector"
    and "unat va = page" "unat end_va \<le> page + 512 * n" "page + 512 * n < 2 ^ 32"
    "page + 512 * n < unat end_va + 512"
    "unat sect + n \<le> 2 ^ 28"
  shows "\<exists>h'. read_sectors io va end_va sect (m, h)
    = Some (mem_write m page (concat (map sector [unat sect..<unat sect + n])), h')"
  using assms(2-)
proof (induction n arbitrary: page va sect m h)
  case 0
  then show ?case by (subst read_sectors.simps) (simp add: word_less_nat_alt)
next
  case (Suc n)
  have less: "va < end_va" using Suc.prems by (simp add: word_less_nat_alt)
  have "unat sect < 2 ^ 28" using Suc.prems by simp
  from readsect_reads [OF ata this] obtain h1
    where r: "readsect io (unat va) sect m h = Some (mem_write m page (sector (unat sect)), h1)"
    using Suc.prems(1) by blast
  have va: "unat (va + SECTORSIZE) = page + 512"
    using Suc.prems by (subst unat_add_lem [THEN iffD1]) (simp_all add: SECTORSIZE_def)
  have sect: "unat (sect + 1) = Suc (unat sect)"
    using Suc.prems by (subst unat_add_lem [THEN iffD1]) simp_all
  have "\<exists>h'. read_sectors io (va + SECTORSIZE) end_va (sect + 1) (mem_write m page (sector (unat sect)), h1)
     = Some (mem_write (mem_write m page (sector (unat sect))) (page + 512)
         (concat (map sector [Suc (unat sect)..<Suc (unat sect) + n])), h')"
    by (rule Suc.IH [where sect = "sect + 1", unfolded sect]) (use Suc.prems in \<open>simp_all add: va\<close>)
  moreover have "mem_write (mem_write m page (sector (unat sect))) (page + 512) bs
     = mem_write m page (sector (unat sect) @ bs)" for bs
    using ata mem_write_append [of m page "sector (unat sect)" bs] unfolding ata_disk_def by simp
  ultimately show ?case
    by (subst read_sectors.simps) (simp add: less r upt_conv_Cons del: upt_Suc)
qed

lemma sector_base: "unat (va AND NOT (SECTORSIZE - 1)) = unat va div 512 * 512"
proof -
  have "SECTORSIZE - 1 = mask 9" by (simp add: SECTORSIZE_def mask_eq_exp_minus_1)
  then have "va AND NOT (SECTORSIZE - 1) = push_bit 9 (drop_bit 9 va)"
    by (auto intro!: bit_word_eqI simp: bit_simps)
  then have "unat (va AND NOT (SECTORSIZE - 1)) = take_bit 32 (push_bit 9 (drop_bit 9 (unat va)))"
    by (simp add: unsigned_push_bit_eq unat_drop_bit_eq)
  also have "\<dots> = take_bit 32 (unat va div 512 * 512)" by (simp add: drop_bit_eq_div push_bit_eq_mult)
  also have "unat va div 512 * 512 < 2 ^ 32"
    using unsigned_less [of va, where ?'a = nat] by (auto intro: le_less_trans [OF div_times_less_eq_dividend])
  then have "take_bit 32 (unat va div 512 * 512) = unat va div 512 * 512" by (rule take_bit_nat_eq_self)
  finally show ?thesis .
qed

lemma nth_sectors:
  assumes "\<And>s. length (sector s :: 'a list) = 512" "i < 512 * n"
  shows "concat (map sector [s..<s + n]) ! i = sector (s + i div 512) ! (i mod 512)"
  using assms(2)
proof (induction n arbitrary: s i)
  case (Suc n)
  have e: "[s..<s + Suc n] = s # [Suc s..<Suc s + n]" by (simp add: upt_conv_Cons del: upt_Suc)
  show ?case
  proof (cases "i < 512")
    case True
    then show ?thesis unfolding e by (simp add: nth_append assms(1))
  next
    case False
    then have d: "i = i - 512 + 512" by simp
    then have "i div 512 = Suc ((i - 512) div 512)" "i mod 512 = (i - 512) mod 512"
      by (metis div_add_self2 Suc_eq_plus1 zero_neq_numeral, metis mod_add_self2)
    then show ?thesis
      using False Suc.prems Suc.IH [of "i - 512" "Suc s"] unfolding e by (simp add: nth_append assms(1) del: upt_Suc)
  qed
qed simp

lemma length_sectors: "(\<And>s. length (sector s :: 'a list) = 512) \<Longrightarrow> length (concat (map sector [s..<s + n])) = 512 * n"
  by (simp add: length_concat o_def sum_list_triv)

lemma round_up_512: "512 * ((k + 511) div 512) \<le> k + 511" "k \<le> 512 * ((k + 511) div 512 :: nat)"
proof -
  have "k + 511 = 512 * ((k + 511) div 512) + (k + 511) mod 512" "(k + 511) mod 512 < 512" by simp_all
  then show "512 * ((k + 511) div 512) \<le> k + 511" "k \<le> 512 * ((k + 511) div 512)" by linarith+
qed

text \<open>
  A segment that does not wrap around the address space is loaded: byte \<open>i\<close> of the file is the
  byte of the disk as far from the start of the sector as the segment's address is from the sector
  boundary below it.
\<close>

lemma readseg_loads:
  assumes ata: "ata_disk io view sector" and size: "filesz \<le> memsz" "unat va + unat memsz + 512 \<le> 2 ^ 32"
    and sect: "unat sect + (unat va mod 512 + unat filesz + 511) div 512 \<le> 2 ^ 28"
  shows "\<exists>m' h'. readseg io va filesz memsz sect (m, h) = Some (m', h')
    \<and> (\<forall>i < unat filesz. m' (unat va + i) = sector (unat sect + (unat va mod 512 + i) div 512) ! ((unat va + i) mod 512))
    \<and> (\<forall>i < unat memsz. unat filesz \<le> i \<longrightarrow> m' (unat va + i) = 0)
    \<and> (\<forall>x. x < unat va div 512 * 512 \<or> (unat va + unat memsz \<le> x \<and> (unat va + unat filesz + 511) div 512 * 512 \<le> x)
         \<longrightarrow> m' x = m x)"
proof -
  define a f page n where "a = unat va" "f = unat filesz" "page = a div 512 * 512" "n = (a mod 512 + f + 511) div 512"
  note defs = this
  have f: "f \<le> unat memsz" using size(1) by (simp add: word_le_nat_alt defs)
  have e: "unat (va + filesz) = a + f" "unat (memsz + va) = unat memsz + a"
    using size(2) f by (subst unat_add_lem [THEN iffD1]; simp add: defs)+
  have p: "a = page + a mod 512" "a mod 512 < 512" by (simp_all add: defs)
  have n: "512 * n \<le> a mod 512 + f + 511" "a mod 512 + f \<le> 512 * n"
    unfolding defs(4) by (rule round_up_512)+
  have "(512 * q + b + f + 511) div 512 = q + (b + f + 511) div 512" for q b :: nat
    using div_mult_self4 [of 512 q "b + f + 511"] by (simp add: ac_simps)
  from this [of "a div 512" "a mod 512"] have r: "(a + f + 511) div 512 * 512 = page + 512 * n"
    by (simp add: defs(3,4))
  have len: "length (sector s) = 512" for s using ata unfolding ata_disk_def by blast
  have "\<exists>h'. read_sectors io (va AND NOT (SECTORSIZE - 1)) (va + filesz) sect (m, h)
      = Some (mem_write m page (concat (map sector [unat sect..<unat sect + n])), h')"
  proof (rule read_sectors_reads [OF ata])
    show "unat (va AND NOT (SECTORSIZE - 1)) = page" by (simp add: sector_base defs)
    show "unat sect + n \<le> 2 ^ 28" using sect by (simp add: defs)
    show "unat (va + filesz) \<le> page + 512 * n" "page + 512 * n < 2 ^ 32" "page + 512 * n < unat (va + filesz) + 512"
      using n p size(2) f defs(1) unfolding e by linarith+
  qed
  then obtain h' where "readseg io va filesz memsz sect (m, h)
      = Some (mem_fill (mem_write m page (concat (map sector [unat sect..<unat sect + n]))) (a + f) 0 (unat memsz - f), h')"
    by (auto simp: readseg_def Let_def clear_bss_fill e)
  moreover have "sector (unat sect + (a - page + i) div 512) ! ((a - page + i) mod 512)
      = sector (unat sect + (a mod 512 + i) div 512) ! ((a + i) mod 512)" for i
    using p(1) by (metis diff_add_inverse mod_add_left_eq)
  ultimately show ?thesis
    using n p r f nth_sectors [of sector, OF len] length_sectors [of sector, OF len]
    by (auto simp: mem_fill_def mem_write_def defs(1-3) [symmetric])
qed

section \<open>Booting the kernel\<close>

text \<open>The kernel file as it lies on the disk: from sector 1 on.\<close>

definition disk_image :: "(nat \<Rightarrow> u8 list) \<Rightarrow> mem" where
  "disk_image sector = (\<lambda>x. sector (1 + x div 512) ! (x mod 512))"

definition segment_fits :: "Proghdr \<Rightarrow> bool" where
  "segment_fits p \<longleftrightarrow> p_filesz p \<le> p_memsz p \<and> unat (p_va p) + unat (p_memsz p) + 512 \<le> 2 ^ 32
     \<and> unat (p_offset p) mod 512 = unat (p_va p) mod 512 \<and> ELFHDR + 4096 \<le> unat (p_va p) div 512 * 512"

text \<open>The addresses that loading a segment writes to.\<close>

definition in_span :: "Proghdr \<Rightarrow> nat \<Rightarrow> bool" where
  "in_span p x \<longleftrightarrow> unat (p_va p) div 512 * 512 \<le> x
     \<and> (x < unat (p_va p) + unat (p_memsz p) \<or> x < (unat (p_va p) + unat (p_filesz p) + 511) div 512 * 512)"

definition segment_loaded :: "mem \<Rightarrow> mem \<Rightarrow> Proghdr \<Rightarrow> bool" where
  "segment_loaded img m p \<longleftrightarrow>
     (\<forall>i < unat (p_memsz p). m (unat (p_va p) + i) = (if i < unat (p_filesz p) then img (unat (p_offset p) + i) else 0))"

lemma segment_loaded_cong:
  "segment_loaded img m p \<Longrightarrow> (\<And>i. i < unat (p_memsz p) \<Longrightarrow> m' (unat (p_va p) + i) = m (unat (p_va p) + i))
   \<Longrightarrow> segment_loaded img m' p"
  by (simp add: segment_loaded_def)

lemma get_shift:
  assumes "\<And>k. k < 4 \<Longrightarrow> m (a + k) = img (b + k)"
  shows "get32 m a = get32 img b"
  using assms [of 0] assms [of 1] assms [of 2] assms [of 3] by (simp add: get32_def)

lemma proghdr_shift:
  assumes "\<And>k. k < 32 \<Longrightarrow> m (a + k) = img (b + k)"
  shows "proghdr_at m a = proghdr_at img b"
proof -
  have "get32 m (a + k) = get32 img (b + k)" if "k < 29" for k
    by (rule get_shift) (use that assms [of "k + _"] in \<open>simp add: add.assoc\<close>)
  from this [of 0] this show ?thesis by (simp add: proghdr_at_def)
qed

lemma readseg_image:
  assumes ata: "ata_disk io view sector" and fits: "segment_fits p"
  shows "\<exists>m' h'. readseg io (p_va p) (p_filesz p) (p_memsz p) (1 + p_offset p div SECTORSIZE) (m, h) = Some (m', h')
    \<and> segment_loaded (disk_image sector) m' p \<and> (\<forall>x. \<not> in_span p x \<longrightarrow> m' x = m x)"
proof -
  let ?off = "unat (p_offset p)"
  have b: "unat (v :: u32) < 2 ^ 32" for v using unsigned_less [of v, where ?'a = nat] by simp
  have d: "unat (p_offset p div SECTORSIZE) = ?off div 512"
    by (simp add: SECTORSIZE_def unat_div)
  have s: "unat (1 + p_offset p div SECTORSIZE) = 1 + ?off div 512"
    using b [of "p_offset p"] by (subst unat_add_lem [THEN iffD1]) (simp_all add: d)
  have img: "disk_image sector (?off + i)
      = sector (1 + ?off div 512 + (unat (p_va p) mod 512 + i) div 512) ! ((unat (p_va p) + i) mod 512)" for i
  proof -
    have "(?off + i) div 512 = (512 * (?off div 512) + (?off mod 512 + i)) div 512" by simp
    also have "\<dots> = ?off div 512 + (unat (p_va p) mod 512 + i) div 512"
      using fits div_mult_self4 [of 512 "?off div 512" "?off mod 512 + i"] by (simp add: segment_fits_def)
    moreover have "(?off + i) mod 512 = (unat (p_va p) + i) mod 512"
      using fits unfolding segment_fits_def by (metis mod_add_left_eq)
    ultimately show ?thesis by (simp add: disk_image_def)
  qed
  have "1 + ?off div 512 + (unat (p_va p) mod 512 + unat (p_filesz p) + 511) div 512 \<le> 2 ^ 28"
  proof -
    have "?off div 512 \<le> 2 ^ 32 div 512" using b [of "p_offset p"] by (intro div_le_mono) simp
    moreover have "(unat (p_va p) mod 512 + unat (p_filesz p) + 511) div 512 \<le> (2 ^ 32 + 1024) div 512"
      using b [of "p_filesz p"] mod_less_divisor [of 512 "unat (p_va p)"] by (intro div_le_mono) simp
    ultimately show ?thesis by simp
  qed
  from readseg_loads [OF ata _ _ this [folded s], of "p_memsz p" m h] fits
  show ?thesis
    unfolding segment_loaded_def in_span_def img s segment_fits_def by (auto simp: not_le not_less)
qed

text \<open>
  The program headers of a file lie in its first page, every segment fits, and no segment is
  overwritten by a later one.
\<close>

definition image_header :: "mem \<Rightarrow> nat \<Rightarrow> nat \<Rightarrow> Proghdr" where
  "image_header img off i = proghdr_at img (off + 32 * i)"

definition segments_apart :: "mem \<Rightarrow> nat \<Rightarrow> nat \<Rightarrow> bool" where
  "segments_apart img off n \<longleftrightarrow>
     off + 32 * n \<le> 4096
     \<and> (\<forall>j < n. segment_fits (image_header img off j)
          \<and> (\<forall>i < j. \<forall>k < unat (p_memsz (image_header img off i)).
               \<not> in_span (image_header img off j) (unat (p_va (image_header img off i)) + k)))"

lemma image_header_Suc: "image_header img (off + 32) j = image_header img off (Suc j)"
  by (simp add: image_header_def ac_simps)

lemma segments_apart_tail: "segments_apart img off (Suc n) \<Longrightarrow> segments_apart img (off + 32) n"
  unfolding segments_apart_def image_header_Suc by auto

lemma boot_segments_load:
  assumes ata: "ata_disk io view sector"
    and "segments_apart (disk_image sector) off n" "\<And>x. x < 4096 \<Longrightarrow> m (ELFHDR + x) = disk_image sector x"
  shows "\<exists>m' h'. boot_segments io (ELFHDR + off) n (m, h) = Some (m', h')
    \<and> (\<forall>j < n. segment_loaded (disk_image sector) m' (image_header (disk_image sector) off j))
    \<and> (\<forall>x. (\<forall>j < n. \<not> in_span (image_header (disk_image sector) off j) x) \<longrightarrow> m' x = m x)"
  using assms(2,3)
proof (induction n arbitrary: off m h)
  case (Suc n)
  let ?img = "disk_image sector"
  let ?p = "image_header ?img off"
  have fits: "segment_fits (?p 0)" and off: "off + 32 \<le> 4096"
    and apart: "\<And>j k. j < n \<Longrightarrow> k < unat (p_memsz (?p 0)) \<Longrightarrow> \<not> in_span (?p (Suc j)) (unat (p_va (?p 0)) + k)"
    using Suc.prems(1) unfolding segments_apart_def by auto
  have hdr: "proghdr_at m (ELFHDR + off) = ?p 0"
    unfolding image_header_def using off
    by (intro proghdr_shift) (simp add: Suc.prems(2) add.assoc)
  from readseg_image [OF ata fits] obtain m1 h1
    where r: "readseg io (p_va (?p 0)) (p_filesz (?p 0)) (p_memsz (?p 0)) (1 + p_offset (?p 0) div SECTORSIZE) (m, h) = Some (m1, h1)"
      and l: "segment_loaded ?img m1 (?p 0)" and k: "\<And>x. \<not> in_span (?p 0) x \<Longrightarrow> m1 x = m x"
    by blast
  have "m1 (ELFHDR + x) = ?img x" if "x < 4096" for x
    using k [of "ELFHDR + x"] fits that Suc.prems(2) [OF that] unfolding in_span_def segment_fits_def by simp
  from Suc.IH [where h = h1, OF segments_apart_tail [OF Suc.prems(1)] this]
  obtain m' h' where b: "boot_segments io (ELFHDR + off + 32) n (m1, h1) = Some (m', h')"
      and l': "\<And>j. j < n \<Longrightarrow> segment_loaded ?img m' (?p (Suc j))"
      and k': "\<And>x. (\<forall>j < n. \<not> in_span (?p (Suc j)) x) \<Longrightarrow> m' x = m1 x"
    unfolding image_header_Suc by (auto simp: add.assoc)
  have "segment_loaded ?img m' (?p 0)"
    by (rule segment_loaded_cong [OF l]) (use apart k' in blast)
  with l' have "\<forall>j < Suc n. segment_loaded ?img m' (?p j)" by (auto simp: less_Suc_eq_0_disj)
  moreover have "\<forall>x. (\<forall>j < Suc n. \<not> in_span (?p j) x) \<longrightarrow> m' x = m x" using k k' by auto
  ultimately show ?case using r b by (auto simp: hdr Let_def)
qed simp

lemma elf_shift:
  assumes "\<And>k. k < 52 \<Longrightarrow> m (a + k) = img (b + k)"
  shows "e_magic (elf_at m a) = e_magic (elf_at img b)" "e_phoff (elf_at m a) = e_phoff (elf_at img b)"
    "e_phnum (elf_at m a) = e_phnum (elf_at img b)" "e_entry (elf_at m a) = e_entry (elf_at img b)"
proof -
  have "get32 m (a + k) = get32 img (b + k)" if "k < 49" for k
    by (rule get_shift) (use that assms [of "k + _"] in \<open>simp add: add.assoc\<close>)
  from this [of 0] this [of 28] this [of 24]
  show "e_magic (elf_at m a) = e_magic (elf_at img b)" "e_phoff (elf_at m a) = e_phoff (elf_at img b)"
    "e_entry (elf_at m a) = e_entry (elf_at img b)"
    by (simp_all add: elf_at_def)
  show "e_phnum (elf_at m a) = e_phnum (elf_at img b)"
    using assms [of 44] assms [of 45] by (simp add: elf_at_def get16_def ac_simps)
qed

lemma header_page_loads:
  assumes ata: "ata_disk io view sector"
  shows "\<exists>m' h'. readseg io (of_nat ELFHDR) PAGESIZE PAGESIZE 1 (m, h) = Some (m', h')
    \<and> (\<forall>x < 4096. m' (ELFHDR + x) = disk_image sector x)
    \<and> (\<forall>x. x < ELFHDR \<or> ELFHDR + 4096 \<le> x \<longrightarrow> m' x = m x)"
proof -
  have "(65536 + x) mod 512 = x mod 512" for x :: nat using mod_mult_self3 [of 128 512 x] by simp
  then show ?thesis
    using readseg_loads [OF ata, of PAGESIZE PAGESIZE "of_nat ELFHDR" 1 m h]
    by (auto simp: PAGESIZE_def ELFHDR_def disk_image_def)
qed

text \<open>
  From a disk with a valid kernel file \<open>bootmain\<close> loads every segment and jumps to the
  file's entry point; the rest of the memory beyond the header page keeps its contents.
\<close>

theorem bootmain_boots:
  assumes "ata_disk io view sector" "e_magic (elf_at (disk_image sector) 0) = ELF_MAGIC"
    and "segments_apart (disk_image sector) (unat (e_phoff (elf_at (disk_image sector) 0)))
      (unat (e_phnum (elf_at (disk_image sector) 0)))"
  shows "\<exists>m'. bootmain io m h = (Some (Inr (e_entry (elf_at (disk_image sector) 0))), m')
    \<and> (\<forall>i < unat (e_phnum (elf_at (disk_image sector) 0)).
         segment_loaded (disk_image sector) m'
           (image_header (disk_image sector) (unat (e_phoff (elf_at (disk_image sector) 0))) i))
    \<and> (\<forall>x. (x < ELFHDR \<or> ELFHDR + 4096 \<le> x)
         \<and> (\<forall>i < unat (e_phnum (elf_at (disk_image sector) 0)).
              \<not> in_span (image_header (disk_image sector) (unat (e_phoff (elf_at (disk_image sector) 0))) i) x)
         \<longrightarrow> m' x = m x)"
proof -
  let ?img = "disk_image sector"
  let ?e = "elf_at ?img 0"
  from header_page_loads [OF assms(1)] obtain m1 h1
    where r: "readseg io (of_nat ELFHDR) PAGESIZE PAGESIZE 1 (m, h) = Some (m1, h1)"
      and p: "\<And>x. x < 4096 \<Longrightarrow> m1 (ELFHDR + x) = ?img x"
      and k: "\<And>x. x < ELFHDR \<or> ELFHDR + 4096 \<le> x \<Longrightarrow> m1 x = m x" by blast
  have e: "e_magic (elf_at m1 ELFHDR) = e_magic ?e" "e_phoff (elf_at m1 ELFHDR) = e_phoff ?e"
    "e_phnum (elf_at m1 ELFHDR) = e_phnum ?e"
    by (rule elf_shift; simp add: p)+
  from boot_segments_load [OF assms(1,3) p] obtain m' h'
    where b: "boot_segments io (ELFHDR + unat (e_phoff ?e)) (unat (e_phnum ?e)) (m1, h1) = Some (m', h')"
      and l: "\<And>i. i < unat (e_phnum ?e) \<Longrightarrow> segment_loaded ?img m' (image_header ?img (unat (e_phoff ?e)) i)"
      and k': "\<And>x. (\<forall>i < unat (e_phnum ?e). \<not> in_span (image_header ?img (unat (e_phoff ?e)) i) x) \<Longrightarrow> m' x = m1 x"
    by blast
  have "m' (ELFHDR + x) = ?img x" if "x < 4096" for x
  proof -
    have "\<not> in_span (image_header ?img (unat (e_phoff ?e)) i) (ELFHDR + x)" if "i < unat (e_phnum ?e)" for i
      using assms(3) that \<open>x < 4096\<close> unfolding segments_apart_def segment_fits_def in_span_def by fastforce
    then show ?thesis using k' p that by simp
  qed
  then have "e_entry (elf_at m' ELFHDR) = e_entry ?e" by (intro elf_shift) simp
  then show ?thesis
    using r b assms(2) l k k' by (auto simp: bootmain_def Let_def e)
qed

text \<open>A drive that keeps the contract, and the sectors of a disk with a given file from sector 1 on.\<close>

definition ata_ports :: "(nat \<Rightarrow> u8 list) \<Rightarrow> ata ports" where
  "ata_ports sector = \<lparr>
     inb = (\<lambda>port h. (if busy h = 0 then 0x40 else 0x80, h\<lparr>busy := busy h - 1\<rparr>)),
     outb = (\<lambda>port b h. if port = 0x1F2 then h\<lparr>sector_count := b\<rparr>
       else if port = 0x1F3 then h\<lparr>lba0 := b\<rparr>
       else if port = 0x1F4 then h\<lparr>lba1 := b\<rparr>
       else if port = 0x1F5 then h\<lparr>lba2 := b\<rparr>
       else if port = 0x1F6 then h\<lparr>drive := b\<rparr>
       else h\<lparr>pending := Some (lba28 h), busy := 3\<rparr>),
     insl = (\<lambda>port n h. (sector (the (pending h)), h\<lparr>pending := None\<rparr>))\<rparr>"

lemma ata_ports_disk: "(\<And>s. length (sector s) = 512) \<Longrightarrow> ata_disk (ata_ports sector) id sector"
  by (auto simp: ata_disk_def ata_ports_def)

definition image_sectors :: "mem \<Rightarrow> nat \<Rightarrow> u8 list" where
  "image_sectors img s = map (\<lambda>i. img ((s - 1) * 512 + i)) [0..<512]"

lemma disk_image_sectors: "disk_image (image_sectors img) = img"
  by (simp add: fun_eq_iff disk_image_def image_sectors_def)

text \<open>One segment of three bytes and two zeros at 1 MB.\<close>

definition sample_kernel :: mem where
  "sample_kernel = (\<lambda>_. 0)(0 := 0x7F, 1 := 0x45, 2 := 0x4C, 3 := 0x46, 24 := 0x10, 26 := 0x10, 28 := 52, 44 := 1,
     52 := 1, 57 := 0x10, 62 := 0x10, 66 := 0x10, 68 := 3, 72 := 5, 0x1000 := 7, 0x1001 := 8, 0x1002 := 9)"

lemma sample_kernel_header:
  "e_magic (elf_at sample_kernel 0) = ELF_MAGIC" "e_phoff (elf_at sample_kernel 0) = 52"
  "e_phnum (elf_at sample_kernel 0) = 1" "e_entry (elf_at sample_kernel 0) = 0x100010"
  by (simp_all add: elf_at_def get32_def get16_def sample_kernel_def ELF_MAGIC_def)

lemma sample_kernel_segment:
  "image_header sample_kernel 52 0 = \<lparr>p_type = 1, p_offset = 0x1000, p_va = 0x100000, p_pa = 0x100000,
     p_filesz = 3, p_memsz = 5, p_flags = 0, p_align = 0\<rparr>"
  by (simp add: image_header_def proghdr_at_def get32_def sample_kernel_def)

end
