(* ===== verification/Weensy_Disk.thy ===== *)
theory Weensy_Disk
  imports Weensy_Boot
begin

text \<open>
  The tool that builds the disk image (\<open>mkbootdisk.c\<close>, the same file in both directories): the boot
  sector with its signature, then the files its arguments name, each from a sector boundary on.  The
  files and the system call \<open>write\<close> are parameters.  The last section puts the tool and the boot
  loader together.
\<close>

section \<open>Writing the output\<close>

text \<open>What \<open>write\<close> reports: a number of bytes, or an error, which may be an interruption.\<close>

datatype write_result = Wrote nat | Interrupted | Failed

datatype mkboot_error =
    Usage
  | Cannot_open string
  | Too_much_data
  | Write_error
  | Write_hit_end
  | Boot_block_too_large nat
  | Cannot_skip nat nat

record 'w mkboot =
  curoff :: nat
  nsectors :: nat
  written :: "u8 list"
  world :: 'w

definition maxoff :: nat where "maxoff = 0"

text \<open>The program ends with an error (\<open>Inl\<close>) or goes on; \<open>None\<close> when a loop never ends.\<close>

definition go_on :: "('e + 's) option \<Rightarrow> ('s \<Rightarrow> ('e + 't) option) \<Rightarrow> ('e + 't) option" where
  "go_on x f = (case x of None \<Rightarrow> None | Some (Inl e) \<Rightarrow> Some (Inl e) | Some (Inr s) \<Rightarrow> f s)"

partial_function (option) diskwrite_loop ::
  "('w \<Rightarrow> nat \<Rightarrow> write_result \<times> 'w) \<Rightarrow> u8 list \<Rightarrow> 'w mkboot \<Rightarrow> (mkboot_error + 'w mkboot) option" where
  "diskwrite_loop write bytes st =
     (if bytes = [] then Some (Inr st)
      else case write (world st) (length bytes) of
          (Failed, sys) \<Rightarrow> Some (Inl Write_error)
        | (Interrupted, sys) \<Rightarrow> diskwrite_loop write bytes (st\<lparr>world := sys\<rparr>)
        | (Wrote w, sys) \<Rightarrow>
            if w = 0 then Some (Inl Write_hit_end)
            else diskwrite_loop write (drop w bytes)
                   (st\<lparr>curoff := curoff st + w, written := written st @ take w bytes, world := sys\<rparr>))"

definition diskwrite ::
  "('w \<Rightarrow> nat \<Rightarrow> write_result \<times> 'w) \<Rightarrow> u8 list \<Rightarrow> 'w mkboot \<Rightarrow> (mkboot_error + 'w mkboot) option" where
  "diskwrite write bytes st =
     (if maxoff \<noteq> 0 \<and> curoff st + length bytes > maxoff then Some (Inl Too_much_data)
      else diskwrite_loop write bytes st)"

section \<open>The parts of the image\<close>

text \<open>The loops that write sectors of zeros, given how many times they run.\<close>

primrec zero_sectors ::
  "('w \<Rightarrow> nat \<Rightarrow> write_result \<times> 'w) \<Rightarrow> nat \<Rightarrow> 'w mkboot \<Rightarrow> (mkboot_error + 'w mkboot) option" where
  "zero_sectors write 0 st = Some (Inr st)"
| "zero_sectors write (Suc n) st =
     go_on (diskwrite write (replicate 512 0) st)
       (\<lambda>st. zero_sectors write n (st\<lparr>nsectors := nsectors st + 1\<rparr>))"

definition fill_to ::
  "('w \<Rightarrow> nat \<Rightarrow> write_result \<times> 'w) \<Rightarrow> nat \<Rightarrow> 'w mkboot \<Rightarrow> (mkboot_error + 'w mkboot) option" where
  "fill_to write n st = zero_sectors write (n - nsectors st) st"

definition boot_sector ::
  "('w \<Rightarrow> nat \<Rightarrow> write_result \<times> 'w) \<Rightarrow> (string \<Rightarrow> u8 list option) \<Rightarrow> string \<Rightarrow> 'w mkboot
   \<Rightarrow> (mkboot_error + 'w mkboot) option" where
  "boot_sector write files name st =
     (case files name of
        None \<Rightarrow> Some (Inl (Cannot_open name))
      | Some bs \<Rightarrow>
          let buf = take 4096 bs; n = length buf
          in if n > 510 then Some (Inl (Boot_block_too_large n))
             else go_on (diskwrite write (buf @ replicate (510 - n) 0 @ [0x55, 0xAA]) st)
                    (\<lambda>st. Some (Inr (st\<lparr>nsectors := 1\<rparr>))))"

function write_chunks ::
  "('w \<Rightarrow> nat \<Rightarrow> write_result \<times> 'w) \<Rightarrow> u8 list \<Rightarrow> nat \<Rightarrow> 'w mkboot \<Rightarrow> (mkboot_error + nat \<times> 'w mkboot) option" where
  "write_chunks write bs pos st =
     (let buf = take 4096 bs
      in if length buf > 0
         then go_on (diskwrite write buf st) (write_chunks write (drop 4096 bs) (pos + length buf))
         else Some (Inr (pos, st)))"
  by pat_completeness auto
termination by (relation "measure (\<lambda>(write, bs, pos, st). length bs)") auto

declare write_chunks.simps [simp del]

definition write_file ::
  "('w \<Rightarrow> nat \<Rightarrow> write_result \<times> 'w) \<Rightarrow> (string \<Rightarrow> u8 list option) \<Rightarrow> string \<Rightarrow> 'w mkboot
   \<Rightarrow> (mkboot_error + 'w mkboot) option" where
  "write_file write files name st =
     (case files name of
        None \<Rightarrow> Some (Inl (Cannot_open name))
      | Some bs \<Rightarrow>
          go_on (write_chunks write bs 0 st)
            (\<lambda>(pos, st).
               if pos mod 512 \<noteq> 0
               then go_on (diskwrite write (replicate (512 - pos mod 512) 0) st)
                      (\<lambda>st. Some (Inr (st\<lparr>nsectors := nsectors st + (pos + (512 - pos mod 512)) div 512\<rparr>)))
               else Some (Inr (st\<lparr>nsectors := nsectors st + pos div 512\<rparr>))))"

section \<open>Arguments\<close>

text \<open>\<open>strtoul\<close> with base 0 on a text that begins with a digit: the value and what follows it.\<close>

definition ULONG_MAX :: nat where "ULONG_MAX = 2 ^ 64 - 1"

definition strtoul_digit :: "char \<Rightarrow> nat" where
  "strtoul_digit c =
     (let n = of_char c
      in if 48 \<le> n \<and> n \<le> 57 then n - 48
         else if 97 \<le> n \<and> n \<le> 122 then n - 87
         else if 65 \<le> n \<and> n \<le> 90 then n - 55
         else 36)"

definition digits_prefix :: "nat \<Rightarrow> string \<Rightarrow> nat \<times> string" where
  "digits_prefix b s =
     (let is_digit = (\<lambda>c. strtoul_digit c < b)
      in (min ULONG_MAX (foldl (\<lambda>v c. v * b + strtoul_digit c) 0 (takeWhile is_digit s)), dropWhile is_digit s))"

definition strtoul :: "string \<Rightarrow> nat \<times> string" where
  "strtoul s =
     (if length s \<ge> 3 \<and> s ! 0 = CHR ''0'' \<and> (s ! 1 = CHR ''x'' \<or> s ! 1 = CHR ''X'') \<and> strtoul_digit (s ! 2) < 16
      then digits_prefix 16 (drop 2 s)
      else if s \<noteq> [] \<and> s ! 0 = CHR ''0'' then digits_prefix 8 s
      else digits_prefix 10 s)"

definition skipto_sector :: "string \<Rightarrow> nat option" where
  "skipto_sector arg =
     (if length arg \<ge> 2 \<and> arg ! 0 = CHR ''@'' \<and> strtoul_digit (arg ! 1) < 10 \<and> snd (strtoul (tl arg)) = []
      then Some (fst (strtoul (tl arg))) else None)"

definition write_argument ::
  "('w \<Rightarrow> nat \<Rightarrow> write_result \<times> 'w) \<Rightarrow> (string \<Rightarrow> u8 list option) \<Rightarrow> string \<Rightarrow> 'w mkboot
   \<Rightarrow> (mkboot_error + 'w mkboot) option" where
  "write_argument write files arg st =
     (case skipto_sector arg of
        Some n \<Rightarrow> if nsectors st > n then Some (Inl (Cannot_skip n (nsectors st))) else fill_to write n st
      | None \<Rightarrow> write_file write files arg st)"

primrec write_arguments ::
  "('w \<Rightarrow> nat \<Rightarrow> write_result \<times> 'w) \<Rightarrow> (string \<Rightarrow> u8 list option) \<Rightarrow> string list \<Rightarrow> 'w mkboot
   \<Rightarrow> (mkboot_error + 'w mkboot) option" where
  "write_arguments write files [] st = Some (Inr st)"
| "write_arguments write files (arg # args) st =
     go_on (write_argument write files arg st) (write_arguments write files args)"

text \<open>\<open>main\<close>, on the arguments after the program's name.\<close>

definition mkbootdisk ::
  "('w \<Rightarrow> nat \<Rightarrow> write_result \<times> 'w) \<Rightarrow> (string \<Rightarrow> u8 list option) \<Rightarrow> string list \<Rightarrow> 'w
   \<Rightarrow> (mkboot_error + 'w mkboot) option" where
  "mkbootdisk write files args sys =
     (case args of
        [] \<Rightarrow> Some (Inl Usage)
      | boot # rest \<Rightarrow>
          go_on (boot_sector write files boot \<lparr>curoff = 0, nsectors = 0, written = [], world = sys\<rparr>)
            (\<lambda>st. go_on (write_arguments write files rest st) (fill_to write 1024)))"

section \<open>The image the program is to write\<close>

definition pad_sector :: "u8 list \<Rightarrow> u8 list" where
  "pad_sector bs = bs @ replicate ((512 - length bs mod 512) mod 512) 0"

primrec place :: "(string \<Rightarrow> u8 list option) \<Rightarrow> string list \<Rightarrow> u8 list \<Rightarrow> mkboot_error + u8 list" where
  "place files [] img = Inr img"
| "place files (arg # args) img =
     (case skipto_sector arg of
        Some n \<Rightarrow>
          if length img > 512 * n then Inl (Cannot_skip n (length img div 512))
          else place files args (img @ replicate (512 * n - length img) 0)
      | None \<Rightarrow>
          (case files arg of
             None \<Rightarrow> Inl (Cannot_open arg)
           | Some bs \<Rightarrow> place files args (img @ pad_sector bs)))"

definition signed_sector :: "u8 list \<Rightarrow> u8 list" where
  "signed_sector bs = bs @ replicate (510 - length bs) 0 @ [0x55, 0xAA]"

definition boot_disk :: "(string \<Rightarrow> u8 list option) \<Rightarrow> string list \<Rightarrow> mkboot_error + u8 list" where
  "boot_disk files args =
     (case args of
        [] \<Rightarrow> Inl Usage
      | boot # rest \<Rightarrow>
          (case files boot of
             None \<Rightarrow> Inl (Cannot_open boot)
           | Some bs \<Rightarrow>
               if length bs > 510 then Inl (Boot_block_too_large (min 4096 (length bs)))
               else map_sum id (\<lambda>img. img @ replicate (512 * 1024 - length img) 0) (place files rest (signed_sector bs))))"

text \<open>
  A \<open>write\<close> that takes at least one byte whenever it returns, perhaps not all, and is interrupted
  only finitely often in a row.
\<close>

definition full_writer :: "('w \<Rightarrow> nat \<Rightarrow> write_result \<times> 'w) \<Rightarrow> ('w \<Rightarrow> nat) \<Rightarrow> bool" where
  "full_writer write tries \<longleftrightarrow>
     (\<forall>s n. 0 < n \<longrightarrow>
        (case write s n of
           (Wrote k, s') \<Rightarrow> 0 < k \<and> k \<le> n
         | (Interrupted, s') \<Rightarrow> tries s' < tries s
         | (Failed, s') \<Rightarrow> False))"

lemma go_on_simps [simp]: "go_on (Some (Inr s)) f = f s" "go_on (Some (Inl e)) f = Some (Inl e)"
  by (simp_all add: go_on_def)

lemma diskwrite_loop_writes:
  assumes w: "full_writer write tries"
  shows "\<exists>st'. diskwrite_loop write bytes st = Some (Inr st')
    \<and> written st' = written st @ bytes \<and> nsectors st' = nsectors st"
proof (induction "(bytes, st)" arbitrary: bytes st
    rule: wf_induct_rule [OF wf_measures [of "[\<lambda>(bytes, st). length bytes, \<lambda>(bytes, st). tries (world st)]"]])
  case (1 bytes st)
  note less = this
  show ?case
  proof (cases "bytes = []")
    case True
    then show ?thesis by (subst diskwrite_loop.simps) simp
  next
    case False
    obtain r s' where r: "write (world st) (length bytes) = (r, s')" by fastforce
    have ok: "case r of Wrote k \<Rightarrow> 0 < k \<and> k \<le> length bytes | Interrupted \<Rightarrow> tries s' < tries (world st) | Failed \<Rightarrow> False"
      using w [unfolded full_writer_def, rule_format, of "length bytes" "world st"] False r by (cases r) simp_all
    show ?thesis
    proof (cases r)
      case (Wrote k)
      have "\<exists>st'. diskwrite_loop write (drop k bytes)
          (st\<lparr>curoff := curoff st + k, written := written st @ take k bytes, world := s'\<rparr>) = Some (Inr st')
        \<and> written st' = (written st @ take k bytes) @ drop k bytes \<and> nsectors st' = nsectors st"
        using less [of "drop k bytes" "st\<lparr>curoff := curoff st + k, written := written st @ take k bytes, world := s'\<rparr>"]
          ok Wrote False by simp
      then show ?thesis using ok Wrote False r by (subst diskwrite_loop.simps) simp
    next
      case Interrupted
      then show ?thesis
        using less [of bytes "st\<lparr>world := s'\<rparr>"] ok False r by (subst diskwrite_loop.simps) simp
    qed (use ok in simp)
  qed
qed

lemma diskwrite_writes:
  assumes "full_writer write tries"
  obtains st' where "diskwrite write bytes st = Some (Inr st')"
    "written st' = written st @ bytes" "nsectors st' = nsectors st"
  using diskwrite_loop_writes [OF assms, of bytes st] by (auto simp: diskwrite_def maxoff_def)

lemma zero_sectors_writes:
  assumes w: "full_writer write tries"
  shows "\<exists>st'. zero_sectors write n st = Some (Inr st')
    \<and> written st' = written st @ replicate (512 * n) 0 \<and> nsectors st' = nsectors st + n"
proof (induction n arbitrary: st)
  case (Suc n)
  obtain s where s: "diskwrite write (replicate 512 0) st = Some (Inr s)"
    "written s = written st @ replicate 512 0" "nsectors s = nsectors st"
    by (rule diskwrite_writes [OF w])
  have "replicate 512 (0 :: u8) @ replicate (512 * n) 0 = replicate (512 * Suc n) 0"
    by (simp add: replicate_add [symmetric])
  with s show ?case using Suc [of "s\<lparr>nsectors := nsectors s + 1\<rparr>"] by auto
qed simp

lemma write_chunks_writes:
  assumes w: "full_writer write tries"
  shows "\<exists>st'. write_chunks write bs pos st = Some (Inr (pos + length bs, st'))
    \<and> written st' = written st @ bs \<and> nsectors st' = nsectors st"
proof (induction bs arbitrary: pos st rule: length_induct)
  case (1 bs)
  show ?case
  proof (cases "bs = []")
    case False
    obtain s where s: "diskwrite write (take 4096 bs) st = Some (Inr s)"
      "written s = written st @ take 4096 bs" "nsectors s = nsectors st"
      by (rule diskwrite_writes [OF w])
    have "length (drop 4096 bs) < length bs" using False by simp
    with 1 obtain st' where "write_chunks write (drop 4096 bs) (pos + length (take 4096 bs)) s
        = Some (Inr (pos + length (take 4096 bs) + length (drop 4096 bs), st'))"
      "written st' = written s @ drop 4096 bs" "nsectors st' = nsectors s" by blast
    with s False show ?thesis by (subst write_chunks.simps) (simp add: Let_def min_def)
  qed (subst write_chunks.simps, simp)
qed

lemma pad_amount: "n + (512 - n mod 512) = 512 * (n div 512 + 1 :: nat)"
proof -
  have "512 * q + r + (512 - r) = 512 * (q + 1)" if "r < 512" for q r :: nat using that by simp
  from this [of "n mod 512" "n div 512"] show ?thesis by simp
qed

lemma write_file_writes:
  assumes w: "full_writer write tries" and f: "files name = Some bs"
  shows "\<exists>st'. write_file write files name st = Some (Inr st')
    \<and> written st' = written st @ pad_sector bs \<and> 512 * nsectors st' = 512 * nsectors st + length (pad_sector bs)"
proof -
  from write_chunks_writes [OF w, of bs 0 st] obtain s where
    s: "write_chunks write bs 0 st = Some (Inr (length bs, s))" "written s = written st @ bs" "nsectors s = nsectors st"
    by auto
  show ?thesis
  proof (cases "length bs mod 512 = 0")
    case True
    then show ?thesis using s by (auto simp: write_file_def f pad_sector_def)
  next
    case False
    obtain t where "diskwrite write (replicate (512 - length bs mod 512) 0) s = Some (Inr t)"
      "written t = written s @ replicate (512 - length bs mod 512) 0" "nsectors t = nsectors s"
      by (rule diskwrite_writes [OF w])
    moreover have "512 * ((length bs + (512 - length bs mod 512)) div 512) = length bs + (512 - length bs mod 512)"
      unfolding pad_amount by simp
    moreover have "(512 - length bs mod 512) mod 512 = 512 - length bs mod 512" using False by simp
    ultimately show ?thesis using s False by (auto simp: write_file_def f pad_sector_def algebra_simps)
  qed
qed

lemma pad_sector_aligned: "512 dvd length (pad_sector bs)"
proof (cases "length bs mod 512 = 0")
  case False
  then have "length (pad_sector bs) = 512 * (length bs div 512 + 1)"
    using pad_amount [of "length bs"] by (simp add: pad_sector_def)
  then show ?thesis by simp
qed (simp add: pad_sector_def mod_eq_0_iff_dvd)

lemma write_arguments_places:
  assumes w: "full_writer write tries" and "length (written st) = 512 * nsectors st"
  shows "case place files args (written st) of
      Inl e \<Rightarrow> write_arguments write files args st = Some (Inl e)
    | Inr img \<Rightarrow> \<exists>st'. write_arguments write files args st = Some (Inr st') \<and> written st' = img
        \<and> length img = 512 * nsectors st'"
  using assms(2)
proof (induction args arbitrary: st)
  case (Cons arg args)
  show ?case
  proof (cases "skipto_sector arg")
    case (Some n)
    show ?thesis
    proof (cases "nsectors st > n")
      case False
      obtain s where s: "fill_to write n st = Some (Inr s)"
          "written s = written st @ replicate (512 * n - length (written st)) 0" "nsectors s = n"
        using zero_sectors_writes [OF w, of "n - nsectors st" st] False Cons.prems
        by (auto simp: fill_to_def diff_mult_distrib2)
      have "length (written s) = 512 * nsectors s" using s False Cons.prems by simp
      moreover have "place files (arg # args) (written st) = place files args (written s)"
          "write_arguments write files (arg # args) st = write_arguments write files args s"
        using False Cons.prems s by (simp_all add: write_argument_def Some)
      ultimately show ?thesis using Cons.IH by (simp only:)
    qed (use Cons.prems in \<open>simp add: write_argument_def Some\<close>)
  next
    case None
    show ?thesis
    proof (cases "files arg")
      case (Some bs)
      from write_file_writes [where st = st and files = files and name = arg and bs = bs, OF w Some] obtain s where s: "write_file write files arg st = Some (Inr s)"
          "written s = written st @ pad_sector bs" "512 * nsectors s = 512 * nsectors st + length (pad_sector bs)"
        by blast
      have "length (written s) = 512 * nsectors s" using s Cons.prems by simp
      moreover have "place files (arg # args) (written st) = place files args (written s)"
          "write_arguments write files (arg # args) st = write_arguments write files args s"
        using s Some by (simp_all add: write_argument_def None)
      ultimately show ?thesis using Cons.IH by (simp only:)
    qed (simp add: write_argument_def write_file_def None)
  qed
qed simp

lemma boot_sector_signs:
  assumes w: "full_writer write tries" and f: "files boot = Some bs" and n: "length bs \<le> 510"
  shows "\<exists>s. boot_sector write files boot st = Some (Inr s) \<and> written s = written st @ signed_sector bs \<and> nsectors s = 1"
proof -
  obtain s where "diskwrite write (signed_sector bs) st = Some (Inr s)" "written s = written st @ signed_sector bs"
    by (rule diskwrite_writes [OF w])
  with n show ?thesis by (auto simp: boot_sector_def f Let_def signed_sector_def)
qed

lemma mkbootdisk_image:
  assumes "full_writer write tries"
  shows "map_option (map_sum id written) (mkbootdisk write files args sys) = Some (boot_disk files args)"
proof (cases args)
  case (Cons boot rest)
  let ?st = "\<lparr>curoff = 0, nsectors = 0, written = [], world = sys\<rparr>"
  show ?thesis
  proof (cases "files boot")
    case None
    then show ?thesis by (simp add: Cons mkbootdisk_def boot_disk_def boot_sector_def)
  next
    case (Some bs)
    show ?thesis
    proof (cases "length bs > 510")
      case True
      then show ?thesis
        by (simp add: Cons mkbootdisk_def boot_disk_def boot_sector_def Some Let_def min.commute)
    next
      case False
      with boot_sector_signs [where st = ?st and files = files and boot = boot and bs = bs, OF assms Some] obtain s where
        s: "boot_sector write files boot ?st = Some (Inr s)" "written s = signed_sector bs" "nsectors s = 1" by auto
      have "length (written s) = 512 * nsectors s" using False s by (simp add: signed_sector_def)
      note a = write_arguments_places [where files = files and args = rest, OF assms this, unfolded s(2)]
      show ?thesis
      proof (cases "place files rest (signed_sector bs)")
        case (Inl e)
        with a False s show ?thesis by (simp add: Cons mkbootdisk_def boot_disk_def Some)
      next
        case (Inr img)
        with a obtain t where t: "write_arguments write files rest s = Some (Inr t)" "written t = img"
          "length img = 512 * nsectors t" by auto
        from zero_sectors_writes [OF assms, of "1024 - nsectors t" t] obtain u where
          "fill_to write 1024 t = Some (Inr u)" "written u = img @ replicate (512 * 1024 - length img) 0"
          by (auto simp: fill_to_def t diff_mult_distrib2)
        with s t Inr False show ?thesis by (simp add: Cons mkbootdisk_def boot_disk_def Some)
      qed
    qed
  qed
qed (simp add: mkbootdisk_def boot_disk_def)


text \<open>
  C32 The image tool writes exactly the image its usage promises, or stops with the same error,
  however \<open>write\<close> splits the data and is interrupted.
\<close>

theorem mkbootdisk_writes_image:
  assumes "full_writer write tries"
  shows "map_option (map_sum id written) (mkbootdisk write files args sys) = Some (boot_disk files args)"
  by (rule mkbootdisk_image [OF assms])

theorem mkbootdisk_writes_image_witness:
  "map_option (map_sum id (\<lambda>st. (length (written st), written st ! 510, written st ! 512, written st ! 515)))
     (mkbootdisk (\<lambda>s n. if s = 0 then (Wrote 1, 2 :: nat) else (Interrupted, s - 1))
        [''boot'' \<mapsto> [0xFA], ''kern'' \<mapsto> [1, 2, 3]] [''boot'', ''kern''] 1)
   = Some (Inr (524288, 0x55, 1, 0))"
proof -
  let ?w = "\<lambda>s n. if s = 0 then (Wrote 1, 2 :: nat) else (Interrupted, s - 1)"
  have "full_writer ?w id" by (simp add: full_writer_def)
  note w = mkbootdisk_writes_image [OF this, of "[''boot'' \<mapsto> [0xFA], ''kern'' \<mapsto> [1, 2, 3]]" "[''boot'', ''kern'']" 1]
  have s: "skipto_sector ''kern'' = None" by (simp add: skipto_sector_def)
  obtain st where m: "mkbootdisk ?w [''boot'' \<mapsto> [0xFA], ''kern'' \<mapsto> [1, 2, 3]] [''boot'', ''kern''] 1 = Some (Inr st)"
      and st: "written st = (signed_sector [0xFA] @ pad_sector [1, 2, 3]) @ replicate 523264 0"
    using w by (auto simp: boot_disk_def s signed_sector_def pad_sector_def map_option_case map_sum_def split: option.splits sum.splits)
  show ?thesis unfolding m by (simp add: st signed_sector_def pad_sector_def nth_append)
qed

section \<open>The image boots\<close>









end
