(* ===== verification/Spec2Isabelle.thy ===== *)
theory Spec2Isabelle
  imports Ospfs_Found Osprd_Props Ospfs_Resize Ospfs_Rw Ospfs_Dirops Shell_Stream Shell_Exec_Props Shell_Main
    Mpos_Props Schedos_Props Peer_Main Md5_Gnu Md5_Click Weensy_Disk
begin

text \<open>
  A verification library for the laboratories of an operating-systems course: a file
  system (File_System/), a RAM disk with locks (RAMDisk/), a shell (Shell_Interpreter/),
  two small kernels (WeensyOS/) and a peer-to-peer client (P2P/).  The five programs do not
  call one another; each has its own group of theories, and all of them share \<open>Prelude\<close>:
  machine words, byte-addressed memory with little-endian cells, the memory primitives of
  the C library, error codes.  Paths below are relative to src/.

  Conventions.  A C pointer is a byte address of a total memory, a structure is read and
  written through the offsets of its members, so that aliasing is the code's own.  Sized
  unsigned integers are words; the signed \<open>int\<close> quantities whose overflow C leaves undefined
  are unbounded integers.  An error return is a value of a sum or option type, a loop that
  may not end is a partial function whose result \<open>None\<close> says that it does not return.
  System calls and kernel services are parameters.  Every such parameter of a property is
  named among its hypotheses, and each property with hypotheses is followed by an
  instance on a concrete state.

  \<^bold>\<open>The file system.\<close>  \<open>Ospfs_Disk\<close> is the format of ospfs.h with the accessors and bit
  vectors of ospfsmod.c, \<open>Ospfs_Layout\<close> the areas of a formatted disk, \<open>Ospfs_Alloc\<close> the
  allocator, \<open>Ospfs_Blocks\<close> the index functions, \<open>add_block\<close>, \<open>remove_block\<close> and \<open>change_size\<close>,
  \<open>Ospfs_File\<close> reading, writing, attributes and the crash counter, \<open>Ospfs_Dir\<close> directories,
  links and inode creation.  \<open>Ospfs_View\<close> and \<open>Ospfs_Grow\<close> hold the frame rules and the
  invariant of a file (its blocks are distinct allocated data blocks).  \<open>Ospfs_Resize\<close>,
  \<open>Ospfs_Rw\<close> and \<open>Ospfs_Dirops\<close> state what the operations achieve: resizing, reading and
  writing refine operations on the byte contents of a file of at most 266 blocks (the
  direct and singly indirect ones; the doubly indirect branch is modelled and shown to lose
  data), name lookup and listing work on the entries of a directory.  \<open>guard\<close> is the block number
  \<open>free_block\<close> wrongly refuses, the first data block of a disk whose number of inodes is a
  multiple of 16: what is conserved, and what is not, is stated with it.  \<open>Ospfs_Demo\<close> is a
  concrete disk for the instances.

  \<^bold>\<open>The image formatter.\<close>  \<open>Ospfs_Format\<close> is ospfsformat.c: the cache of sixteen blocks, the
  allocation of blocks, inodes and directory entries, the copying of host files, links and
  directories, the free map and the superblock, up to \<open>ospfsformat\<close>, the main program after
  its options.  \<open>Ospfs_Cache\<close> shows that the cache is one flat image, over which the other
  theories reason: \<open>Ospfs_Image\<close> about an image that is opened and finished, with the layout
  the driver relies on, \<open>Ospfs_Image_File\<close> about writing a file of at most 266 blocks.
  \<open>Ospfs_Found\<close> joins the formatter with the driver: what it puts on an image is what the
  driver's lookup and reading find there.

  \<^bold>\<open>The RAM disk.\<close>  \<open>Osprd_Lock\<close> has the sector requests and the lock of osprd.c: an ioctl
  is cut into the atomic steps between the points where it sleeps, and \<open>osprd_step\<close>
  interleaves calls, wake-ups and signals of any number of processes.  \<open>Osprd_Order\<close> has the
  two invariants (exclusion, ticket order), \<open>Osprd_Props\<close> the properties of reachable states
  and the runs in which the lock misbehaves.

  \<^bold>\<open>The shell.\<close>  \<open>Shell_Tokenizer\<close> (tokenizer.c), \<open>Shell_Parser\<close> (parser.c and read-command.c)
  and \<open>Shell_Exec\<close> (execute-command.c) are the models; \<open>Shell_Print\<close> is print-command.c.
  \<open>Shell_Lex\<close> relates the lexer's state to the tokens read, \<open>Shell_Syntax\<close> is the grammar with
  a locale \<open>forward_scan\<close> for the parser's three forward scans, \<open>Shell_Roundtrip\<close> and
  \<open>Shell_Stream\<close> show that written commands are read back.  \<open>Shell_Reference\<close> is a semantics
  of commands, simple ones included, with files instead of descriptor numbers, scoped
  redirections and no statuses in the tree, written independently of the executor's
  functions, and \<open>Shell_Exec_Props\<close> shows that the executor follows it, under the conditions
  \<open>regular\<close> (no loop in a loop of the same process, no redirected \<open>:\<close>), \<open>pipes_open\<close> (\<open>pipe\<close> does
  not fail; its result is not checked) and \<open>std_open\<close> (descriptor 0 is open), with what goes wrong
  without the first two.  The executor takes fuel, which bounds the depth of the command tree and
  the rounds of each loop; its properties hold for every amount of fuel with which it returns,
  and the reference takes the same fuel; a lemma of \<open>Shell_Main\<close> shows that fuel for the depth of
  nesting is enough for a command without loops.  A program that never ends is outside the
  model: the system call that runs a program has a result.  \<open>Shell_Log\<close> has the lines of the log, \<open>Shell_Main\<close> the
  main program (main.c, alloc.c) from the options to the exit status, with the theorems that
  put lexer, parser, printer and executor together.

  \<^bold>\<open>The kernels.\<close>  \<open>Weensy_Lib\<close> is lib.c (one file, copied into both kernels) with the proof
  that its loops implement the memory primitives and that formatted output stays on the
  console; \<open>Weensy_Machine\<close> has registers, process descriptors, the console and keyboard
  routines, the ELF loader, and the loop both schedulers search with.  \<open>Weensy_Scheduler\<close>
  states the contract of a scheduler and of a round-robin scheduler as locales, with
  fairness proved once; \<open>Mpos_Table\<close> and \<open>Schedos_Props\<close> interpret them on the kernels' own
  scheduling functions.  \<open>Mpos_Kernel\<close> (mpos-kern.c) and \<open>Schedos_Kernel\<close> (schedos-kern.c) are
  the kernels: a kernel entry is a function to an \<open>outcome\<close>, \<open>Run\<close> when it hands the
  processor to a process, \<open>Spin\<close> or \<open>Forever\<close> when it never does.  \<open>Mpos_Props\<close> has the
  properties over reachable states and sequences of system calls.  \<open>Weensy_Boot\<close> is the boot
  loader (mpos-boot.c, schedos-boot.c) over the port instructions of the hardware and
  \<open>Weensy_Disk\<close> the tool that builds the disk image (mkbootdisk.c); together they show that the
  disk the makefiles build boots the kernel.  Waiting for the disk and for \<open>write\<close> are loops that
  may not end; with a drive that becomes ready and a \<open>write\<close> that makes progress both end.

  \<^bold>\<open>The peer-to-peer client.\<close>  \<open>Peer_Format\<close> is writescan.c: the formatted writer and the
  scanner, with the proof that they are inverse on requests and on the tracker's lines.
  \<open>Peer_Os\<close> is the interface to the operating system: a record of the system calls over an
  unknown world, and a log of the calls made, over which the properties speak of what was
  sent and received.  \<open>Peer_Task\<close> is the task of osppeer.c with its ring buffer, a refinement
  of a queue of bytes, and the locale \<open>byte_relay\<close>, the contract of the transfer loops, which
  is interpreted on the buffer's own read and write.  \<open>Peer_Tracker\<close> has the sockets, the
  tracker conversation and the start of a download, \<open>Peer_Transfer\<close> the uploads and downloads,
  \<open>Peer_Main\<close> the main program: options, downloads and the loop over connections, each served by
  a child, with a bound on the number of children.  The loop is run for a number of rounds, and
  what is proved holds for every number.
  A function that may end the process returns \<open>Died\<close>; where memory is used wrongly the model
  stops, an upload with \<open>Overrun\<close> (a request name of 512 bytes or more is stored over the task's
  peer list), the other functions with \<open>None\<close>.  \<open>Peer_Upload\<close>, \<open>Peer_Download\<close> and
  \<open>Peer_Response\<close> hold the properties: whatever the system calls answer, what is sent is what
  was read, only files that pass the directory check are served, and which answers of the
  tracker are accepted.

  \<^bold>\<open>The hash.\<close>  \<open>Md5_Reference\<close> is MD5 as RFC 1321 defines it, with a locale \<open>hash_stream\<close> for an
  implementation that takes the message in chunks.  \<open>Md5_Gnu\<close> (File_System/md5.c, by which the
  formatter recognises equal files) and \<open>Md5_Click\<close> (P2P/md5.c) interpret it: the first is right
  for messages of less than \<open>2 ^ 29\<close> bytes, the second for all that come in chunks of less than
  \<open>2 ^ 28\<close> bytes (the length of a chunk is an \<open>int\<close>).

  \<^bold>\<open>Not modelled.\<close>  What only registers callbacks with Linux (module initialisation, tables
  of operations), assembly code, descriptor tables of the processor, the
  test applications of the kernels, the shell's unused older parser.
\<close>

end
